(* ===== verification/Prelude.thy ===== *)
theory Prelude
  imports Main "HOL-Library.Sublist" "HOL-Library.Char_ord" "HOL-Library.List_Lexorder"
    "HOL-Library.Multiset"
begin

section \<open>Shared vocabulary of the development\<close>

text \<open>
  The pieces of JavaScript that every component uses: strings (a HOL string is a list of
  code units; a \<^typ>\<open>char\<close> is a code unit below 256), the string methods of the standard
  library, the stable \<open>Array.prototype.sort\<close>, and the contract of a comparator as the
  locale \<open>ranking\<close>.
\<close>

named_theorems js_string \<open>facts on the string operations of the JavaScript library\<close>
named_theorems cmp_rules \<open>introduction rules that build comparators from comparators\<close>

subsection \<open>Results\<close>

text \<open>A computation that may throw: \<open>Inl\<close> is the exception, \<open>Inr\<close> the value.\<close>

type_synonym ('e, 'a) result = "'e + 'a"

definition bind_result :: "('e, 'a) result \<Rightarrow> ('a \<Rightarrow> ('e, 'b) result) \<Rightarrow> ('e, 'b) result" where
  "bind_result r f = (case r of Inl e \<Rightarrow> Inl e | Inr a \<Rightarrow> f a)"

lemma bind_result_simps [simp]:
  "bind_result (Inl e) f = Inl e"
  "bind_result (Inr a) f = f a"
  by (simp_all add: bind_result_def)

lemma bind_result_Inr_iff:
  "bind_result r f = Inr b \<longleftrightarrow> (\<exists>a. r = Inr a \<and> f a = Inr b)"
  by (cases r) simp_all

lemma bind_resultE:
  "bind_result r f = Inr b \<Longrightarrow> (\<And>a. r = Inr a \<Longrightarrow> f a = Inr b \<Longrightarrow> P) \<Longrightarrow> P"
  by (cases r) simp_all

lemma find_some_props: "find P xs = Some x \<Longrightarrow> x \<in> set xs \<and> P x"
  by (auto simp: find_Some_iff in_set_conv_nth)

text \<open>JavaScript's \<open>a ?? b\<close> on a nullable value.\<close>

definition coalesce :: "'a option \<Rightarrow> 'a \<Rightarrow> 'a" where
  "coalesce a b = (case a of None \<Rightarrow> b | Some x \<Rightarrow> x)"

lemma coalesce_simps [simp]: "coalesce None b = b" "coalesce (Some x) b = x"
  by (simp_all add: coalesce_def)

text \<open>Truthiness of a nullable string: neither absent nor empty.\<close>

definition truthy :: "string option \<Rightarrow> bool" where
  "truthy s = (case s of None \<Rightarrow> False | Some x \<Rightarrow> x \<noteq> [])"

lemma truthy_simps [simp]: "\<not> truthy None" "truthy (Some x) \<longleftrightarrow> x \<noteq> []"
  by (simp_all add: truthy_def)

subsection \<open>Characters\<close>

definition char_code :: "char \<Rightarrow> nat" where
  "char_code c = of_char c"

lemma char_code_less [simp]: "char_code c < 256"
  unfolding char_code_def by (cases c) (simp add: of_char_def)

lemma char_code_eq_iff [simp]: "char_code a = char_code b \<longleftrightarrow> a = b"
  unfolding char_code_def by (simp add: of_char_eq_iff)

lemma char_code_char_of: "n < 256 \<Longrightarrow> char_code (char_of n) = n"
  unfolding char_code_def by simp

lemma char_of_char_code [simp]: "char_of (char_code c) = c"
  unfolding char_code_def by simp

definition is_digit :: "char \<Rightarrow> bool" where
  "is_digit c \<longleftrightarrow> 48 \<le> char_code c \<and> char_code c \<le> 57"

definition is_letter :: "char \<Rightarrow> bool" where
  "is_letter c \<longleftrightarrow> (65 \<le> char_code c \<and> char_code c \<le> 90) \<or> (97 \<le> char_code c \<and> char_code c \<le> 122)"

text \<open>White space as \<open>String.prototype.trim\<close> and \<open>\\s\<close> see it below code unit 256.\<close>

definition is_space :: "char \<Rightarrow> bool" where
  "is_space c \<longleftrightarrow> (9 \<le> char_code c \<and> char_code c \<le> 13) \<or> char_code c = 32 \<or> char_code c = 160"

definition to_lower :: "char \<Rightarrow> char" where
  "to_lower c =
     (let n = char_code c
      in if (65 \<le> n \<and> n \<le> 90) \<or> (192 \<le> n \<and> n \<le> 222 \<and> n \<noteq> 215) then char_of (n + 32) else c)"

definition lower :: "string \<Rightarrow> string" where
  "lower s = map to_lower s"

lemma to_lower_idem [simp]: "to_lower (to_lower c) = to_lower c"
  by (auto simp: to_lower_def Let_def char_code_char_of)

lemma lower_idem [simp]: "lower (lower s) = lower s"
  by (simp add: lower_def)

lemma length_lower [simp]: "length (lower s) = length s"
  by (simp add: lower_def)

lemma lower_append [simp]: "lower (s @ t) = lower s @ lower t"
  by (simp add: lower_def)

lemma lower_eq_Nil_iff [simp]: "lower s = [] \<longleftrightarrow> s = []"
  by (simp add: lower_def)

lemma is_digit_not_space [js_string]: "is_digit c \<Longrightarrow> \<not> is_space c"
  by (auto simp: is_digit_def is_space_def)

lemma is_digit_not_letter [js_string]: "is_digit c \<Longrightarrow> \<not> is_letter c"
  by (auto simp: is_digit_def is_letter_def)

lemma is_digit_lower [simp]: "is_digit c \<Longrightarrow> to_lower c = c"
  by (auto simp: is_digit_def to_lower_def Let_def)

subsection \<open>trim, split, join\<close>

definition trim_left :: "string \<Rightarrow> string" where
  "trim_left s = dropWhile is_space s"

definition trim :: "string \<Rightarrow> string" where
  "trim s = rev (trim_left (rev (trim_left s)))"

lemma trim_Nil [simp]: "trim [] = []"
  by (simp add: trim_def trim_left_def)

lemma dropWhile_rev_keeps_head:
  "\<not> P a \<Longrightarrow> dropWhile P (xs @ [a]) = dropWhile P xs @ [a]"
  by (induction xs) simp_all

lemma dropWhile_idem_rev:
  "dropWhile P (rev (dropWhile P (rev (dropWhile P s)))) = rev (dropWhile P (rev (dropWhile P s)))"
proof (cases "dropWhile P s")
  case Nil
  then show ?thesis by (simp only: rev.simps dropWhile.simps)
next
  case (Cons a as)
  then have "\<not> P a" using hd_dropWhile [of P s] by auto
  with Cons show ?thesis by (simp add: dropWhile_rev_keeps_head)
qed

lemma trim_idem [simp]: "trim (trim s) = trim s"
proof -
  have "trim_left (trim s) = trim s"
    unfolding trim_def trim_left_def by (rule dropWhile_idem_rev)
  moreover have "trim_left (rev (trim s)) = rev (trim s)"
    by (simp add: trim_def trim_left_def)
  ultimately show ?thesis
    by (simp add: trim_def [of "trim s"])
qed

lemma dropWhile_none: "(\<And>c. c \<in> set s \<Longrightarrow> \<not> P c) \<Longrightarrow> dropWhile P s = s"
  by (cases s) simp_all

lemma trim_no_space [js_string]: "(\<And>c. c \<in> set s \<Longrightarrow> \<not> is_space c) \<Longrightarrow> trim s = s"
proof -
  assume h: "\<And>c. c \<in> set s \<Longrightarrow> \<not> is_space c"
  then have "dropWhile is_space s = s" by (rule dropWhile_none)
  moreover have "dropWhile is_space (rev s) = rev s" using h by (intro dropWhile_none) simp
  ultimately show ?thesis by (simp add: trim_def trim_left_def)
qed

lemma set_trim: "set (trim s) \<subseteq> set s"
  unfolding trim_def trim_left_def by (auto dest!: set_dropWhileD)

lemma length_trim_le [simp]: "length (trim s) \<le> length s"
  unfolding trim_def trim_left_def
  using length_dropWhile_le [of is_space s]
    length_dropWhile_le [of is_space "rev (dropWhile is_space s)"] by simp

lemma trim_eq_Nil_iff: "trim s = [] \<longleftrightarrow> (\<forall>c \<in> set s. is_space c)"
proof (cases "dropWhile is_space s")
  case Nil
  moreover from this have "\<forall>c \<in> set s. is_space c" by (simp only: dropWhile_eq_Nil_conv)
  moreover have "trim s = []" unfolding trim_def trim_left_def Nil by simp
  ultimately show ?thesis by simp
next
  case (Cons a as)
  then have a: "\<not> is_space a" using hd_dropWhile [of is_space s] by auto
  moreover have "a \<in> set s" using Cons set_dropWhileD [of a is_space s] by simp
  ultimately show ?thesis
    using Cons by (auto simp: trim_def trim_left_def dropWhile_rev_keeps_head)
qed

lemma trim_all_digits [simp]: "list_all is_digit s \<Longrightarrow> trim s = s"
  by (rule trim_no_space) (auto simp: list_all_iff is_digit_not_space)

text \<open>\<open>s.split(c)\<close> for a one-character separator; never the empty list.\<close>

fun split_on :: "'a \<Rightarrow> 'a list \<Rightarrow> 'a list list" where
  "split_on c [] = [[]]"
| "split_on c (x # xs) =
     (if x = c then [] # split_on c xs
      else (case split_on c xs of [] \<Rightarrow> [[x]] | y # ys \<Rightarrow> (x # y) # ys))"

text \<open>\<open>parts.join(sep)\<close>.\<close>

fun join :: "'a list \<Rightarrow> 'a list list \<Rightarrow> 'a list" where
  "join sep [] = []"
| "join sep [x] = x"
| "join sep (x # y # ys) = x @ sep @ join sep (y # ys)"

lemma split_on_not_Nil [simp]: "split_on c s \<noteq> []"
  by (induction s) (auto split: list.splits)

lemma split_on_parts_no_sep: "p \<in> set (split_on c s) \<Longrightarrow> c \<notin> set p"
proof (induction s arbitrary: p)
  case (Cons x xs)
  then show ?case
    by (cases "split_on c xs") (auto split: if_splits)
qed simp

lemma join_Cons: "xs \<noteq> [] \<Longrightarrow> join sep (x # xs) = x @ sep @ join sep xs"
  by (cases xs) simp_all

lemma join_split_on [simp]: "join [c] (split_on c s) = s"
proof (induction s)
  case (Cons x xs)
  show ?case
  proof (cases "x = c")
    case True
    with Cons show ?thesis by (simp add: join_Cons)
  next
    case False
    obtain y ys where *: "split_on c xs = y # ys"
      by (cases "split_on c xs") auto
    with Cons False show ?thesis by (cases ys) auto
  qed
qed simp

lemma split_on_no_sep: "c \<notin> set p \<Longrightarrow> split_on c p = [p]"
  by (induction p) auto

lemma split_on_append: "c \<notin> set p \<Longrightarrow> split_on c (p @ c # s) = p # split_on c s"
  by (induction p) auto

lemma split_on_join:
  "ps \<noteq> [] \<Longrightarrow> (\<And>p. p \<in> set ps \<Longrightarrow> c \<notin> set p) \<Longrightarrow> split_on c (join [c] ps) = ps"
proof (induction ps)
  case (Cons p ps)
  then show ?case
    by (cases ps) (simp_all add: split_on_append split_on_no_sep)
qed simp


text \<open>\<open>String(n)\<close> of a natural number.\<close>

fun show_nat :: "nat \<Rightarrow> string" where
  "show_nat n =
     (if n < 10 then [char_of (48 + n)] else show_nat (n div 10) @ [char_of (48 + n mod 10)])"

declare show_nat.simps [simp del]

lemma show_nat_not_Nil [simp]: "show_nat n \<noteq> []"
  by (subst show_nat.simps) simp

lemma show_nat_digits: "list_all is_digit (show_nat n)"
proof (induction n rule: show_nat.induct)
  case (1 n)
  have d: "is_digit (char_of (48 + k))" if "k < 10" for k :: nat
    using that by (simp add: is_digit_def char_code_char_of)
  show ?case
    using 1 d [of n] d [of "n mod 10"] by (subst show_nat.simps) simp
qed

subsection \<open>Numbers\<close>

text \<open>
  The remainder of the language truncates towards zero, so it takes the sign of the dividend;
  \<open>((a % n) + n) % n\<close> is the idiom for the mathematical one.
\<close>

definition js_rem :: "int \<Rightarrow> int \<Rightarrow> int" where
  "js_rem a b = sgn a * (\<bar>a\<bar> mod \<bar>b\<bar>)"

definition js_index :: "int \<Rightarrow> int \<Rightarrow> int" where
  "js_index a n = js_rem (js_rem a n + n) n"

lemma js_rem_nonneg: "0 \<le> a \<Longrightarrow> 0 < b \<Longrightarrow> js_rem a b = a mod b"
  by (cases "a = 0") (simp_all add: js_rem_def)

lemma js_index_mod [simp]: "0 < n \<Longrightarrow> js_index a n = a mod n"
proof (cases "0 \<le> a")
  case True
  assume n: "0 < n"
  with True have "js_rem a n = a mod n" by (rule js_rem_nonneg)
  moreover have "js_rem (a mod n + n) n = (a mod n + n) mod n"
    using n by (intro js_rem_nonneg) (simp_all add: add_nonneg_nonneg)
  ultimately show ?thesis by (simp add: js_index_def)
next
  case False
  assume n: "0 < n"
  from False n have r: "js_rem a n = - ((- a) mod n)" by (simp add: js_rem_def)
  have "(- a) mod n < n" using n by simp
  then have "0 \<le> js_rem a n + n" using r by linarith
  then have "js_rem (js_rem a n + n) n = (js_rem a n + n) mod n"
    using n by (rule js_rem_nonneg)
  also have "\<dots> = (- ((- a) mod n)) mod n" by (simp add: r)
  also have "\<dots> = a mod n" by (simp add: mod_minus_eq)
  finally show ?thesis by (simp add: js_index_def)
qed

subsection \<open>Comparators and the stable sort\<close>

text \<open>
  \<open>Array.prototype.sort\<close> is stable and takes a comparator that returns a number. A
  comparator is modelled as a function into \<^typ>\<open>int\<close>, of which only the sign matters; the
  sort is stable insertion.
\<close>

fun insert_cmp :: "('a \<Rightarrow> 'a \<Rightarrow> int) \<Rightarrow> 'a \<Rightarrow> 'a list \<Rightarrow> 'a list" where
  "insert_cmp cmp x [] = [x]"
| "insert_cmp cmp x (y # ys) = (if cmp x y \<le> 0 then x # y # ys else y # insert_cmp cmp x ys)"

fun sort_cmp :: "('a \<Rightarrow> 'a \<Rightarrow> int) \<Rightarrow> 'a list \<Rightarrow> 'a list" where
  "sort_cmp cmp [] = []"
| "sort_cmp cmp (x # xs) = insert_cmp cmp x (sort_cmp cmp xs)"

lemma mset_insert_cmp [simp]: "mset (insert_cmp cmp x xs) = {#x#} + mset xs"
  by (induction xs) simp_all

lemma mset_sort_cmp [simp]: "mset (sort_cmp cmp xs) = mset xs"
  by (induction xs) simp_all

lemma set_sort_cmp [simp]: "set (sort_cmp cmp xs) = set xs"
  by (metis mset_sort_cmp set_mset_mset)

lemma length_sort_cmp [simp]: "length (sort_cmp cmp xs) = length xs"
  by (metis mset_sort_cmp size_mset)

lemma sort_cmp_eq_Nil_iff [simp]: "sort_cmp cmp xs = [] \<longleftrightarrow> xs = []"
  by (metis length_0_conv length_sort_cmp)

text \<open>\<open>f(a, b) || g(a, b)\<close>: the second comparator breaks the ties of the first.\<close>

definition cmp_or :: "('a \<Rightarrow> 'a \<Rightarrow> int) \<Rightarrow> ('a \<Rightarrow> 'a \<Rightarrow> int) \<Rightarrow> 'a \<Rightarrow> 'a \<Rightarrow> int" where
  "cmp_or f g a b = (if f a b \<noteq> 0 then f a b else g a b)"

text \<open>\<open>k(a) - k(b)\<close> on integers, and \<open>k(a) < k(b) ? -1 : k(a) > k(b) ? 1 : 0\<close> on any order.\<close>

definition cmp_diff :: "('a \<Rightarrow> int) \<Rightarrow> 'a \<Rightarrow> 'a \<Rightarrow> int" where
  "cmp_diff k a b = k a - k b"

definition cmp_key :: "('a \<Rightarrow> 'k :: linorder) \<Rightarrow> 'a \<Rightarrow> 'a \<Rightarrow> int" where
  "cmp_key k a b = (if k a < k b then -1 else if k b < k a then 1 else 0)"

text \<open>The contract of a comparator: its sign is antisymmetric and its order transitive.\<close>

locale ranking =
  fixes cmp :: "'a \<Rightarrow> 'a \<Rightarrow> int"
  assumes cmp_flip: "cmp b a < 0 \<longleftrightarrow> 0 < cmp a b"
    and cmp_trans: "cmp a b \<le> 0 \<Longrightarrow> cmp b c \<le> 0 \<Longrightarrow> cmp a c \<le> 0"
begin

lemma cmp_refl [simp]: "cmp a a = 0"
  using cmp_flip [of a a] by linarith

lemma cmp_linear: "cmp a b \<le> 0 \<or> cmp b a \<le> 0"
  using cmp_flip [of a b] by linarith

lemma cmp_pos_le: "0 < cmp a b \<Longrightarrow> cmp b a \<le> 0"
  using cmp_flip [of b a] by linarith

lemma cmp_zero_sym: "cmp a b = 0 \<longleftrightarrow> cmp b a = 0"
  using cmp_flip [of a b] cmp_flip [of b a] by linarith

lemma insert_cmp_sorted:
  "sorted_wrt (\<lambda>a b. cmp a b \<le> 0) xs \<Longrightarrow> sorted_wrt (\<lambda>a b. cmp a b \<le> 0) (insert_cmp cmp x xs)"
proof (induction xs)
  case (Cons y ys)
  have set_ins: "set (insert_cmp cmp x ys) = insert x (set ys)"
    by (metis mset_insert_cmp set_mset_add_mset_insert set_mset_mset add_mset_add_single union_commute)
  show ?case
  proof (cases "cmp x y \<le> 0")
    case True
    with Cons.prems show ?thesis by (auto intro: cmp_trans)
  next
    case False
    then have "cmp y x \<le> 0" using cmp_linear by blast
    with False Cons show ?thesis by (auto simp: set_ins)
  qed
qed simp

lemma sort_cmp_sorted: "sorted_wrt (\<lambda>a b. cmp a b \<le> 0) (sort_cmp cmp xs)"
  by (induction xs) (simp_all add: insert_cmp_sorted)

lemma sort_cmp_hd_least: "x \<in> set xs \<Longrightarrow> cmp (hd (sort_cmp cmp xs)) x \<le> 0"
proof -
  assume "x \<in> set xs"
  then have "x \<in> set (sort_cmp cmp xs)" by simp
  with sort_cmp_sorted [of xs] show ?thesis
    by (cases "sort_cmp cmp xs") auto
qed

lemma insert_cmp_front:
  "(\<And>y. y \<in> set ys \<Longrightarrow> cmp x y \<le> 0) \<Longrightarrow> insert_cmp cmp x ys = x # ys"
  by (cases ys) simp_all

lemma sort_cmp_id: "sorted_wrt (\<lambda>a b. cmp a b \<le> 0) xs \<Longrightarrow> sort_cmp cmp xs = xs"
  by (induction xs) (simp_all add: insert_cmp_front)

lemma sorted_unique:
  assumes "sorted_wrt (\<lambda>a b. cmp a b \<le> 0) xs" "sorted_wrt (\<lambda>a b. cmp a b \<le> 0) ys"
    and "mset xs = mset ys"
    and "\<And>a b. a \<in> set xs \<Longrightarrow> b \<in> set xs \<Longrightarrow> cmp a b = 0 \<Longrightarrow> a = b"
  shows "xs = ys"
  using assms
proof (induction xs arbitrary: ys)
  case Nil
  then show ?case by simp
next
  case (Cons x xs)
  then obtain y ys' where ys: "ys = y # ys'"
    by (cases ys) auto
  have set_eq: "set (x # xs) = set ys" using Cons.prems(3) by (metis set_mset_mset)
  have "cmp x y \<le> 0"
    using set_eq ys Cons.prems(1) by (cases "x = y") auto
  moreover have "cmp y x \<le> 0"
    using set_eq ys Cons.prems(2) by (cases "x = y") auto
  ultimately have "cmp x y = 0" using cmp_flip [of x y] by linarith
  moreover have "y \<in> set (x # xs)" using set_eq ys by simp
  ultimately have xy: "x = y" using Cons.prems(4) [of x y] by simp
  with ys Cons.prems(3) have "mset xs = mset ys'" by simp
  with Cons ys xy show ?case by simp
qed

lemma sort_cmp_order_free:
  assumes "mset xs = mset ys"
    and "\<And>a b. a \<in> set xs \<Longrightarrow> b \<in> set xs \<Longrightarrow> cmp a b = 0 \<Longrightarrow> a = b"
  shows "sort_cmp cmp xs = sort_cmp cmp ys"
  by (rule sorted_unique) (use assms in \<open>simp_all add: sort_cmp_sorted\<close>)

end

text \<open>Comparators that separate rows with different identities: then the sort has one result.\<close>

locale identified_ranking = ranking +
  fixes ident :: "'a \<Rightarrow> 'k"
  assumes cmp_ident: "cmp a b = 0 \<Longrightarrow> ident a = ident b"
begin

lemma sort_cmp_unique:
  assumes "mset xs = mset ys" and "distinct (map ident xs)"
  shows "sort_cmp cmp xs = sort_cmp cmp ys"
proof (rule sort_cmp_order_free [OF assms(1)])
  fix a b assume "a \<in> set xs" "b \<in> set xs" "cmp a b = 0"
  then show "a = b" using assms(2) cmp_ident [of a b] by (auto simp: distinct_map inj_on_def)
qed

end

lemma ranking_diff [cmp_rules]: "ranking (cmp_diff k)"
  by unfold_locales (auto simp: cmp_diff_def)

lemma ranking_key [cmp_rules]: "ranking (cmp_key k)"
  by unfold_locales (auto simp: cmp_key_def split: if_splits)

lemma ranking_or [cmp_rules]:
  assumes "ranking f" and "ranking g"
  shows "ranking (cmp_or f g)"
proof -
  note fl = ranking.cmp_flip [OF assms(1)] and gl = ranking.cmp_flip [OF assms(2)]
  note ft = ranking.cmp_trans [OF assms(1)] and gt = ranking.cmp_trans [OF assms(2)]
  note fz = ranking.cmp_zero_sym [OF assms(1)]
  show ?thesis
  proof
    fix a b
    show "cmp_or f g b a < 0 \<longleftrightarrow> 0 < cmp_or f g a b"
      using fl [of b a] gl [of b a] fz [of a b] by (auto simp: cmp_or_def)
  next
    fix a b c
    assume h: "cmp_or f g a b \<le> 0" "cmp_or f g b c \<le> 0"
    then have le: "f a b \<le> 0" "f b c \<le> 0"
      by (auto simp: cmp_or_def split: if_splits)
    then have ac: "f a c \<le> 0" by (rule ft)
    show "cmp_or f g a c \<le> 0"
    proof (cases "f a c = 0")
      case False
      with ac show ?thesis by (simp add: cmp_or_def)
    next
      case True
      then have "f c a \<le> 0" using fz [of a c] by simp
      then have "f c b \<le> 0" "f b a \<le> 0" using le ft by blast+
      with le have "f a b = 0" "f b c = 0" using fl [of a b] fl [of b c] by linarith+
      with h True gt [of a b c] show ?thesis by (simp add: cmp_or_def)
    qed
  qed
qed

lemma ranking_pull: "ranking f \<Longrightarrow> ranking (\<lambda>a b. f (k a) (k b))"
  unfolding ranking_def by blast

end
