(* ===== verification/Msisdn.thy ===== *)
theory Msisdn
  imports Prelude
begin

section \<open>E.164 normalisation: routing-depth/msisdn.ts\<close>

text \<open>
  The one normaliser of subscriber numbers. \<open>process.env.DEFAULT_COUNTRY_CODE\<close> is the
  argument \<open>env\<close>; a nullable string is a \<^typ>\<open>string option\<close>.
\<close>

definition E164_MAX_DIGITS :: nat where "E164_MAX_DIGITS = 15"
definition E164_MIN_DIGITS :: nat where "E164_MIN_DIGITS = 6"

datatype msisdn_problem = MEmpty | MNoDigits | MTooShort | MTooLong

record normalized_msisdn =
  nm_input :: string
  nm_digits :: "string option"
  nm_e164 :: "string option"
  nm_valid :: bool
  nm_problem :: "msisdn_problem option"

definition digitsOnly :: "string option \<Rightarrow> string" where
  "digitsOnly v = filter is_digit (coalesce v [])"

definition defaultCountryCode :: "string option \<Rightarrow> string option \<Rightarrow> string" where
  "defaultCountryCode env explicit =
     digitsOnly (Some (coalesce explicit (coalesce env [])))"

definition rejected :: "string \<Rightarrow> msisdn_problem \<Rightarrow> normalized_msisdn" where
  "rejected input p =
     \<lparr>nm_input = input, nm_digits = None, nm_e164 = None, nm_valid = False, nm_problem = Some p\<rparr>"

text \<open>The international form of the digits, before the length checks (lines 84 to 95).\<close>

definition expand_digits :: "string \<Rightarrow> bool \<Rightarrow> string \<Rightarrow> string" where
  "expand_digits cc hadPlus digits =
     (if hadPlus then digits
      else if prefix ''00'' digits then drop 2 digits
      else if prefix ''0'' digits then
        (if cc \<noteq> [] then cc @ dropWhile (\<lambda>c. c = CHR ''0'') digits else digits)
      else digits)"

definition check_digits :: "string \<Rightarrow> string \<Rightarrow> normalized_msisdn" where
  "check_digits input digits =
     (if length digits < E164_MIN_DIGITS then rejected input MTooShort
      else if length digits > E164_MAX_DIGITS then rejected input MTooLong
      else if prefix ''0'' digits then rejected input MNoDigits
      else \<lparr>nm_input = input, nm_digits = Some digits, nm_e164 = Some (CHR ''+'' # digits),
            nm_valid = True, nm_problem = None\<rparr>)"

definition normalizeMsisdn :: "string option \<Rightarrow> string option \<Rightarrow> string option \<Rightarrow> normalized_msisdn" where
  "normalizeMsisdn env value countryCode =
     (let input = coalesce value []; trimmed = trim input
      in if trimmed = [] then rejected input MEmpty
         else let hadPlus = prefix ''+'' trimmed; digits = digitsOnly (Some trimmed)
              in if digits = [] then rejected input MNoDigits
                 else check_digits input
                        (expand_digits (defaultCountryCode env countryCode) hadPlus digits))"

definition toE164 :: "string option \<Rightarrow> string option \<Rightarrow> string option \<Rightarrow> string option" where
  "toE164 env value countryCode = nm_e164 (normalizeMsisdn env value countryCode)"

definition describeMsisdnProblem :: "normalized_msisdn \<Rightarrow> string" where
  "describeMsisdnProblem r =
     (case nm_problem r of
        Some MEmpty \<Rightarrow> ''destination is required''
      | Some MNoDigits \<Rightarrow> ''destination is not a dialable international number''
      | Some MTooShort \<Rightarrow> ''destination has fewer than 6 digits''
      | Some MTooLong \<Rightarrow> ''destination has more than 15 digits (E.164 maximum)''
      | None \<Rightarrow> ''destination is valid'')"

subsection \<open>Canonical numbers\<close>

text \<open>The promise of the component: what a canonical number is.\<close>

definition canonical_msisdn :: "string \<Rightarrow> bool" where
  "canonical_msisdn d \<longleftrightarrow>
     list_all is_digit d \<and> E164_MIN_DIGITS \<le> length d \<and> length d \<le> E164_MAX_DIGITS \<and> \<not> prefix ''0'' d"

lemma canonical_msisdn_digits: "canonical_msisdn d \<Longrightarrow> list_all is_digit d"
  by (simp add: canonical_msisdn_def)

lemma canonical_msisdn_not_Nil: "canonical_msisdn d \<Longrightarrow> d \<noteq> []"
  by (auto simp: canonical_msisdn_def E164_MIN_DIGITS_def)

lemma digitsOnly_digits [simp]: "list_all is_digit (digitsOnly v)"
  by (simp add: digitsOnly_def list_all_iff)

lemma digitsOnly_id [simp]: "list_all is_digit d \<Longrightarrow> digitsOnly (Some d) = d"
  by (auto simp: digitsOnly_def list_all_iff filter_id_conv)

lemma digitsOnly_Cons: "digitsOnly (Some (c # s)) = (if is_digit c then [c] else []) @ digitsOnly (Some s)"
  by (simp add: digitsOnly_def)

lemma digitsOnly_append: "digitsOnly (Some (s @ t)) = digitsOnly (Some s) @ digitsOnly (Some t)"
  by (simp add: digitsOnly_def)

lemma is_digit_literals [simp]:
  "is_digit (CHR ''0'')" "\<not> is_digit (CHR ''+'')" "\<not> is_space (CHR ''+'')"
  by (simp_all add: is_digit_def is_space_def char_code_def)

lemma expand_digits_digits:
  "list_all is_digit ds \<Longrightarrow> list_all is_digit (expand_digits (defaultCountryCode env cc) p ds)"
  unfolding expand_digits_def defaultCountryCode_def
  by (auto simp: list_all_iff dest: in_set_dropD set_dropWhileD
      intro: digitsOnly_digits [unfolded list_all_iff, rule_format])

lemma check_digits_valid_iff:
  assumes "list_all is_digit ds"
  shows "nm_digits (check_digits input ds) = Some d \<longleftrightarrow> d = ds \<and> canonical_msisdn ds"
  using assms by (auto simp: check_digits_def rejected_def canonical_msisdn_def)

lemma normalizeMsisdn_canonical_digits:
  "nm_digits (normalizeMsisdn env v cc) = Some d \<Longrightarrow> canonical_msisdn d"
  unfolding normalizeMsisdn_def
  by (auto simp: Let_def rejected_def check_digits_valid_iff expand_digits_digits split: if_splits)

lemma normalizeMsisdn_fields:
  "let r = normalizeMsisdn env v cc in
     (nm_valid r \<longleftrightarrow> nm_problem r = None) \<and> (nm_valid r \<longleftrightarrow> nm_digits r \<noteq> None)
     \<and> nm_e164 r = map_option ((#) (CHR ''+'')) (nm_digits r) \<and> nm_input r = coalesce v []"
  unfolding normalizeMsisdn_def check_digits_def rejected_def by (simp add: Let_def)

lemma canonical_prefix_simps:
  assumes "canonical_msisdn d"
  shows "\<not> prefix ''0'' d" "\<not> prefix ''00'' d" "\<not> prefix ''+'' d"
proof -
  show "\<not> prefix ''0'' d" using assms by (simp add: canonical_msisdn_def)
  then show "\<not> prefix ''00'' d" by (cases d) auto
  show "\<not> prefix ''+'' d"
    using canonical_msisdn_digits [OF assms] by (cases d) auto
qed

lemma check_digits_canonical: "canonical_msisdn d \<Longrightarrow> nm_digits (check_digits i d) = Some d"
  by (simp add: check_digits_valid_iff canonical_msisdn_digits)

lemma normalize_canonical:
  assumes "canonical_msisdn d"
  shows "nm_digits (normalizeMsisdn env (Some d) cc) = Some d"
  using assms canonical_msisdn_digits [OF assms] canonical_msisdn_not_Nil [OF assms]
  by (simp add: normalizeMsisdn_def Let_def expand_digits_def canonical_prefix_simps
      check_digits_canonical)

lemma normalize_plus:
  assumes "canonical_msisdn d"
  shows "nm_digits (normalizeMsisdn env (Some (CHR ''+'' # d)) cc) = Some d"
proof -
  have "trim (CHR ''+'' # d) = CHR ''+'' # d"
    by (rule trim_no_space)
      (use canonical_msisdn_digits [OF assms] in \<open>auto simp: list_all_iff is_digit_not_space\<close>)
  moreover have "digitsOnly (Some (CHR ''+'' # d)) = d"
    using canonical_msisdn_digits [OF assms] by (simp add: digitsOnly_Cons)
  ultimately show ?thesis
    using assms canonical_msisdn_not_Nil [OF assms]
    by (simp add: normalizeMsisdn_def Let_def expand_digits_def check_digits_canonical)
qed

lemma normalize_zero_zero:
  assumes "canonical_msisdn d"
  shows "nm_digits (normalizeMsisdn env (Some (''00'' @ d)) cc) = Some d"
proof -
  have "list_all is_digit (''00'' @ d)"
    using canonical_msisdn_digits [OF assms] by simp
  then show ?thesis
    using assms
    by (simp add: normalizeMsisdn_def Let_def expand_digits_def check_digits_canonical
        del: list_all_append)
qed

lemma normalize_national:
  assumes "canonical_msisdn (c @ n)" and "c \<noteq> []" and "\<not> prefix ''0'' n"
  shows "nm_digits (normalizeMsisdn env (Some (CHR ''0'' # n)) (Some c)) = Some (c @ n)"
proof -
  have d: "list_all is_digit (CHR ''0'' # n)" "list_all is_digit c"
    using canonical_msisdn_digits [OF assms(1)] by simp_all
  have "\<not> prefix ''00'' (CHR ''0'' # n)" using assms(3) by simp
  moreover have "dropWhile (\<lambda>c. c = CHR ''0'') (CHR ''0'' # n) = n"
    using assms(3) by (cases n) auto
  ultimately have "expand_digits c False (CHR ''0'' # n) = c @ n"
    using assms(2) unfolding expand_digits_def by simp
  with d assms(1) show ?thesis
    by (simp add: normalizeMsisdn_def Let_def defaultCountryCode_def check_digits_canonical
        del: list.pred_inject)
qed

text \<open>
  C27. Normalisation is idempotent and independent of how a number is written: whatever it
  accepts is a canonical number (6 to 15 digits, no leading zero), and each of the four
  accepted spellings of a canonical number, under any configuration, gives that number back.
\<close>

theorem normalizeMsisdn_canonical_forms:
  "(\<forall>d. nm_digits (normalizeMsisdn env v cc) = Some d \<longrightarrow>
      canonical_msisdn d
      \<and> nm_digits (normalizeMsisdn env' (Some d) cc') = Some d
      \<and> nm_digits (normalizeMsisdn env' (toE164 env v cc) cc') = Some d
      \<and> nm_digits (normalizeMsisdn env' (Some (''00'' @ d)) cc') = Some d
      \<and> (\<forall>c n. d = c @ n \<and> c \<noteq> [] \<and> \<not> prefix ''0'' n \<longrightarrow>
            nm_digits (normalizeMsisdn env' (Some (CHR ''0'' # n)) (Some c)) = Some d))"
proof (intro allI impI conjI)
  fix d assume d: "nm_digits (normalizeMsisdn env v cc) = Some d"
  then show can: "canonical_msisdn d" by (rule normalizeMsisdn_canonical_digits)
  show "nm_digits (normalizeMsisdn env' (Some d) cc') = Some d"
    using can by (rule normalize_canonical)
  have "toE164 env v cc = Some (CHR ''+'' # d)"
    using normalizeMsisdn_fields [of env v cc] d by (simp add: toE164_def Let_def)
  then show "nm_digits (normalizeMsisdn env' (toE164 env v cc) cc') = Some d"
    using normalize_plus [OF can] by simp
  show "nm_digits (normalizeMsisdn env' (Some (''00'' @ d)) cc') = Some d"
    using can by (rule normalize_zero_zero)
  fix c n assume "d = c @ n \<and> c \<noteq> [] \<and> \<not> prefix ''0'' n"
  then show "nm_digits (normalizeMsisdn env' (Some (CHR ''0'' # n)) (Some c)) = Some d"
    using normalize_national [of c n env'] can by simp
qed

theorem normalizeMsisdn_canonical_forms_witness:
  "nm_digits (normalizeMsisdn None (Some '' +256 (700) 000-000'') None) = Some ''256700000000''
   \<and> nm_digits (normalizeMsisdn None (Some ''0700000000'') (Some ''256'')) = Some ''256700000000''"
proof -
  have h: "nm_digits (normalizeMsisdn None (Some '' +256 (700) 000-000'') None) = Some ''256700000000''"
    by code_simp
  have s: "''256700000000'' = ''256'' @ ''700000000'' \<and> ''256'' \<noteq> [] \<and> \<not> prefix ''0'' ''700000000''"
    by simp
  from h s show ?thesis
    using normalizeMsisdn_canonical_forms [of None "Some '' +256 (700) 000-000''" None None None]
    by blast
qed

end
