(* ===== verification/Wildcard.thy ===== *)
theory Wildcard
  imports Prelude
begin

section \<open>The wildcard grammar: routing-depth/wildcard.ts\<close>

text \<open>
  A pattern is compiled to the source text of an anchored regular expression, which the
  RegExp of the language then reads and runs. The model keeps both halves: the compiler
  produces the source string the code produces, and \<open>read_regex\<close> and \<open>atoms_match\<close> are the
  part of the RegExp grammar and semantics that such a source can use.
\<close>

definition MAX_PATTERN_LENGTH :: nat where "MAX_PATTERN_LENGTH = 512"
definition MAX_ALTERNATIVES :: nat where "MAX_ALTERNATIVES = 64"

definition splitAlternatives :: "string \<Rightarrow> string list" where
  "splitAlternatives pattern = map trim (split_on (CHR ''|'') pattern)"

datatype wildcard_problem =
    WpEmpty
  | WpTooLong nat
  | WpTooManyAlternatives nat
  | WpEmptyAlternative

definition describeWildcardProblem :: "string \<Rightarrow> wildcard_problem option" where
  "describeWildcardProblem text =
     (if trim text = [] then Some WpEmpty
      else if length text > MAX_PATTERN_LENGTH then Some (WpTooLong (length text))
      else let alternatives = splitAlternatives text
           in if length alternatives > MAX_ALTERNATIVES
              then Some (WpTooManyAlternatives (length alternatives))
              else if \<exists>a \<in> set alternatives. a = [] then Some WpEmptyAlternative
              else None)"

definition isValidWildcard :: "string \<Rightarrow> bool" where
  "isValidWildcard pattern \<longleftrightarrow> describeWildcardProblem pattern = None"

subsection \<open>The compiler\<close>

definition syntax_chars :: string where
  "syntax_chars = ''.*+?^${}()|[]'' @ [CHR 0x5C]"

definition escapeLiteral :: "char \<Rightarrow> string" where
  "escapeLiteral c = (if c \<in> set syntax_chars then [CHR 0x5C, c] else [c])"

definition any_run_source :: string where
  "any_run_source = ''['' @ [CHR 0x5C] @ ''s'' @ [CHR 0x5C] @ ''S]*''"

definition compileCharacter :: "char \<Rightarrow> string" where
  "compileCharacter c =
     (if c = CHR ''*'' then any_run_source
      else if c = CHR ''#'' then ''[0-9]''
      else if c = CHR ''$'' then ''[A-Za-z]''
      else escapeLiteral c)"

definition compileAlternative :: "string \<Rightarrow> string" where
  "compileAlternative alternative = concat (map compileCharacter alternative)"

text \<open>A regular expression: the source between \<open>^(?:\<close> and \<open>)$\<close>, and the absence of the \<open>i\<close> flag.\<close>

record wildcard_regex =
  re_source :: string
  re_case :: bool

definition compileWildcard :: "string \<Rightarrow> bool \<Rightarrow> (wildcard_problem, wildcard_regex) result" where
  "compileWildcard pattern caseSensitive =
     (case describeWildcardProblem pattern of
        Some problem \<Rightarrow> Inl problem
      | None \<Rightarrow>
          Inr \<lparr>re_source = join ''|'' (map compileAlternative (splitAlternatives pattern)),
               re_case = caseSensitive\<rparr>)"

subsection \<open>The RegExp of the language, on the sources the compiler makes\<close>

datatype re_atom = AnyRun | OneDigit | OneLetter | Literal char

text \<open>
  One alternative, read left to right: the three fixed class terms, an identity escape of a
  syntax character, or an ordinary character. Anything else is outside the fragment.
\<close>

fun read_atoms :: "string \<Rightarrow> re_atom list option" where
  "read_atoms [] = Some []"
| "read_atoms (c # s) =
     (if prefix any_run_source (c # s) then map_option ((#) AnyRun) (read_atoms (drop 6 s))
      else if prefix ''[0-9]'' (c # s) then map_option ((#) OneDigit) (read_atoms (drop 4 s))
      else if prefix ''[A-Za-z]'' (c # s) then map_option ((#) OneLetter) (read_atoms (drop 7 s))
      else if c = CHR 0x5C then
        (case s of [] \<Rightarrow> None
         | d # s' \<Rightarrow> if d \<in> set syntax_chars then map_option ((#) (Literal d)) (read_atoms s') else None)
      else if c \<in> set syntax_chars then None
      else map_option ((#) (Literal c)) (read_atoms s))"

text \<open>A \<open>|\<close> separates alternatives unless a backslash precedes it.\<close>

fun split_alternation :: "string \<Rightarrow> string list" where
  "split_alternation [] = [[]]"
| "split_alternation (c # s) =
     (if c = CHR ''|'' then [] # split_alternation s
      else if c = CHR 0x5C then
        (case s of [] \<Rightarrow> [[c]]
         | d # s' \<Rightarrow> (case split_alternation s' of
                        [] \<Rightarrow> [[c, d]] | y # ys \<Rightarrow> (c # d # y) # ys))
      else (case split_alternation s of [] \<Rightarrow> [[c]] | y # ys \<Rightarrow> (c # y) # ys))"

definition read_regex :: "string \<Rightarrow> re_atom list list option" where
  "read_regex source =
     (let parts = map read_atoms (split_alternation source)
      in if None \<in> set parts then None else Some (map the parts))"

text \<open>
  \<open>Canonicalize\<close> of the \<open>i\<close> flag: the upper-case letter, below code unit 256. The letter
  classes hold the same letters with and without the flag.
\<close>

definition canonicalize :: "char \<Rightarrow> char" where
  "canonicalize c =
     (let n = char_code c
      in if (97 \<le> n \<and> n \<le> 122) \<or> (224 \<le> n \<and> n \<le> 254 \<and> n \<noteq> 247) then char_of (n - 32) else c)"

definition same_char :: "bool \<Rightarrow> char \<Rightarrow> char \<Rightarrow> bool" where
  "same_char caseSensitive a b \<longleftrightarrow> (if caseSensitive then a = b else canonicalize a = canonicalize b)"

fun atom_hit :: "bool \<Rightarrow> re_atom \<Rightarrow> char \<Rightarrow> bool" where
  "atom_hit cs AnyRun c = True"
| "atom_hit cs OneDigit c = is_digit c"
| "atom_hit cs OneLetter c = is_letter c"
| "atom_hit cs (Literal d) c = same_char cs d c"

text \<open>The backtracking match of one alternative against the whole of a string.\<close>

fun atoms_match :: "bool \<Rightarrow> re_atom list \<Rightarrow> string \<Rightarrow> bool" where
  "atoms_match cs [] s = (s = [])"
| "atoms_match cs (a # as) [] = (a = AnyRun \<and> atoms_match cs as [])"
| "atoms_match cs (a # as) (c # s) =
     (if a = AnyRun then atoms_match cs as (c # s) \<or> atoms_match cs (a # as) s
      else atom_hit cs a c \<and> atoms_match cs as s)"

definition regex_test :: "wildcard_regex \<Rightarrow> string \<Rightarrow> bool option" where
  "regex_test re value =
     map_option (\<lambda>alts. \<exists>as \<in> set alts. atoms_match (re_case re) as value) (read_regex (re_source re))"

text \<open>
  \<open>None\<close> of the regex is a constructor that throws; the \<open>catch\<close> turns it, like a rejected
  pattern, into no match.
\<close>

definition matchesWildcard :: "string option \<Rightarrow> string \<Rightarrow> bool \<Rightarrow> bool" where
  "matchesWildcard value pattern caseSensitive =
     (case value of
        None \<Rightarrow> False
      | Some v \<Rightarrow>
          (case compileWildcard pattern caseSensitive of
             Inl _ \<Rightarrow> False
           | Inr re \<Rightarrow> (case regex_test re v of None \<Rightarrow> False | Some b \<Rightarrow> b)))"

subsection \<open>The pattern in words\<close>

definition has_meta :: "string \<Rightarrow> bool" where
  "has_meta s \<longleftrightarrow> (\<exists>c \<in> set s. c = CHR ''*'' \<or> c = CHR ''#'' \<or> c = CHR ''$'')"

definition quoted :: "string \<Rightarrow> string" where
  "quoted s = CHR 0x22 # s @ [CHR 0x22]"

definition describeAlternative :: "string \<Rightarrow> string" where
  "describeAlternative a =
     (if a = ''*'' then ''anything''
      else if suffix ''*'' a \<and> \<not> has_meta (butlast a) then ''anything starting with '' @ quoted (butlast a)
      else if prefix ''*'' a \<and> \<not> has_meta (drop 1 a) then ''anything ending with '' @ quoted (drop 1 a)
      else if \<not> has_meta a then ''exactly '' @ quoted a
      else ''the pattern '' @ quoted a)"

definition describeWildcard :: "string \<Rightarrow> string" where
  "describeWildcard pattern =
     (let text = trim pattern
      in if text = [] then ''nothing''
         else if text = ''*'' then ''anything''
         else let parts = map describeAlternative (splitAlternatives text)
              in if length parts = 1 then hd parts
                 else join '', '' (butlast parts) @ '' or '' @ last parts)"

subsection \<open>Reading back what the compiler wrote\<close>

definition atom_of :: "char \<Rightarrow> re_atom" where
  "atom_of c =
     (if c = CHR ''*'' then AnyRun
      else if c = CHR ''#'' then OneDigit
      else if c = CHR ''$'' then OneLetter
      else Literal c)"

lemma in_syntax_chars [simp]:
  "CHR ''['' \<in> set syntax_chars" "CHR ''|'' \<in> set syntax_chars" "CHR 0x5C \<in> set syntax_chars"
  by (simp_all add: syntax_chars_def)

lemma prefix_class_not:
  "c \<notin> set syntax_chars \<Longrightarrow> \<not> prefix any_run_source (c # s)"
  "c \<notin> set syntax_chars \<Longrightarrow> \<not> prefix ''[0-9]'' (c # s)"
  "c \<notin> set syntax_chars \<Longrightarrow> \<not> prefix ''[A-Za-z]'' (c # s)"
  "\<not> prefix any_run_source (CHR 0x5C # s)"
  "\<not> prefix ''[0-9]'' (CHR 0x5C # s)"
  "\<not> prefix ''[A-Za-z]'' (CHR 0x5C # s)"
  by (auto simp: any_run_source_def syntax_chars_def)

lemma read_atoms_compileCharacter:
  "read_atoms (compileCharacter c @ s) = map_option ((#) (atom_of c)) (read_atoms s)"
proof -
  consider "c = CHR ''*''" | "c = CHR ''#''" | "c = CHR ''$''"
    | "c \<in> set syntax_chars" "c \<notin> {CHR ''*'', CHR ''#'', CHR ''$''}"
    | "c \<notin> set syntax_chars" "c \<notin> {CHR ''*'', CHR ''#'', CHR ''$''}"
    by blast
  then show ?thesis
  proof cases
    case 4
    then show ?thesis
      by (simp add: compileCharacter_def escapeLiteral_def atom_of_def prefix_class_not)
  next
    case 5
    then have "c \<noteq> CHR 0x5C" "c \<noteq> CHR ''[''" by auto
    with 5 show ?thesis
      by (simp add: compileCharacter_def escapeLiteral_def atom_of_def any_run_source_def)
  qed (simp_all add: compileCharacter_def atom_of_def any_run_source_def)
qed

lemma read_atoms_compileAlternative:
  "read_atoms (compileAlternative a) = Some (map atom_of a)"
  by (induction a) (simp_all add: compileAlternative_def read_atoms_compileCharacter)

definition glue :: "string \<Rightarrow> string list \<Rightarrow> string list" where
  "glue x yss = (case yss of [] \<Rightarrow> [x] | y # ys \<Rightarrow> (x @ y) # ys)"

lemma glue_glue: "glue x (glue y zs) = glue (x @ y) zs"
  by (simp add: glue_def split: list.splits)

lemma split_alternation_plain:
  "c \<noteq> CHR ''|'' \<Longrightarrow> c \<noteq> CHR 0x5C \<Longrightarrow> split_alternation (c # s) = glue [c] (split_alternation s)"
  by (simp add: glue_def split: list.splits)

lemma split_alternation_escape:
  "split_alternation (CHR 0x5C # d # s) = glue [CHR 0x5C, d] (split_alternation s)"
  by (simp add: glue_def split: list.splits)

lemma split_alternation_compileCharacter:
  "split_alternation (compileCharacter c @ s) = glue (compileCharacter c) (split_alternation s)"
proof -
  consider "c = CHR ''*''" | "c = CHR ''#''" | "c = CHR ''$''"
    | "c \<in> set syntax_chars" "c \<notin> {CHR ''*'', CHR ''#'', CHR ''$''}"
    | "c \<notin> set syntax_chars" "c \<notin> {CHR ''*'', CHR ''#'', CHR ''$''}"
    by blast
  then show ?thesis
  proof cases
    case 4
    then show ?thesis
      by (simp add: compileCharacter_def escapeLiteral_def split_alternation_escape
          del: split_alternation.simps)
  next
    case 5
    then have "c \<noteq> CHR ''|''" "c \<noteq> CHR 0x5C" by auto
    with 5 show ?thesis
      by (simp add: compileCharacter_def escapeLiteral_def split_alternation_plain
          del: split_alternation.simps)
  qed (simp_all add: compileCharacter_def any_run_source_def split_alternation_plain
        split_alternation_escape glue_glue del: split_alternation.simps)
qed

lemma glue_not_Nil [simp]: "glue x yss \<noteq> []"
  by (simp add: glue_def split: list.split)

lemma split_alternation_not_Nil [simp]: "split_alternation s \<noteq> []"
proof (cases s)
  case Nil
  then show ?thesis by simp
next
  case (Cons c t)
  consider "c = CHR ''|''" | "c \<noteq> CHR ''|''" "c \<noteq> CHR 0x5C" | "c = CHR 0x5C" "t = []"
    | d t' where "c = CHR 0x5C" "t = d # t'"
    by (cases t) auto
  then show ?thesis
    by cases (simp_all only: Cons split_alternation_plain split_alternation_escape glue_not_Nil
        not_False_eq_True, simp_all)
qed

lemma split_alternation_compileAlternative:
  "split_alternation (compileAlternative a @ s) = glue (compileAlternative a) (split_alternation s)"
proof (induction a)
  case Nil
  show ?case by (cases "split_alternation s") (simp_all add: compileAlternative_def glue_def)
next
  case (Cons c a)
  then show ?case
    by (simp add: compileAlternative_def split_alternation_compileCharacter glue_glue)
qed

lemma split_alternation_compiled:
  "as \<noteq> [] \<Longrightarrow>
     split_alternation (join ''|'' (map compileAlternative as)) = map compileAlternative as"
proof (induction as)
  case (Cons a as)
  show ?case
  proof (cases as)
    case Nil
    then show ?thesis
      using split_alternation_compileAlternative [of a "[]"] by (simp add: glue_def)
  next
    case (Cons b bs)
    with Cons.IH show ?thesis
      using split_alternation_compileAlternative
              [of a "CHR ''|'' # join ''|'' (map compileAlternative as)"]
      by (simp add: glue_def join_Cons)
  qed
qed simp

text \<open>
  The security property of the module: the source written for any list of alternatives reads
  back as exactly those alternatives, character for character. Nothing an operator types
  outside the four wildcard characters can act as regular-expression syntax.
\<close>

lemma read_regex_compiled:
  "as \<noteq> [] \<Longrightarrow>
     read_regex (join ''|'' (map compileAlternative as)) = Some (map (map atom_of) as)"
  by (simp add: read_regex_def split_alternation_compiled Let_def comp_def
      read_atoms_compileAlternative image_iff)

subsection \<open>The grammar\<close>

text \<open>The meaning of one alternative, on the pattern itself.\<close>

inductive alt_matches :: "bool \<Rightarrow> string \<Rightarrow> string \<Rightarrow> bool" for cs where
  nothing: "alt_matches cs [] []"
| run: "alt_matches cs p v \<Longrightarrow> alt_matches cs (CHR ''*'' # p) (u @ v)"
| digit: "is_digit c \<Longrightarrow> alt_matches cs p v \<Longrightarrow> alt_matches cs (CHR ''#'' # p) (c # v)"
| letter: "is_letter c \<Longrightarrow> alt_matches cs p v \<Longrightarrow> alt_matches cs (CHR ''$'' # p) (c # v)"
| literal: "x \<noteq> CHR ''*'' \<Longrightarrow> x \<noteq> CHR ''#'' \<Longrightarrow> x \<noteq> CHR ''$'' \<Longrightarrow> same_char cs x c \<Longrightarrow>
     alt_matches cs p v \<Longrightarrow> alt_matches cs (x # p) (c # v)"

inductive_cases alt_matches_NilE: "alt_matches cs [] v"
inductive_cases alt_matches_ConsE: "alt_matches cs (x # p) v"

lemma alt_matches_Nil [simp]: "alt_matches cs [] v \<longleftrightarrow> v = []"
  by (auto intro: alt_matches.nothing elim: alt_matches_NilE)

lemma alt_matches_star:
  "alt_matches cs (CHR ''*'' # p) v \<longleftrightarrow>
     alt_matches cs p v \<or> (\<exists>c w. v = c # w \<and> alt_matches cs (CHR ''*'' # p) w)"
proof
  assume "alt_matches cs (CHR ''*'' # p) v"
  then obtain u w where v: "v = u @ w" and w: "alt_matches cs p w"
    by (auto elim: alt_matches_ConsE)
  show "alt_matches cs p v \<or> (\<exists>c w. v = c # w \<and> alt_matches cs (CHR ''*'' # p) w)"
  proof (cases u)
    case Nil
    with v w show ?thesis by simp
  next
    case (Cons c u')
    with v w show ?thesis by (auto intro: alt_matches.run)
  qed
next
  assume "alt_matches cs p v \<or> (\<exists>c w. v = c # w \<and> alt_matches cs (CHR ''*'' # p) w)"
  then show "alt_matches cs (CHR ''*'' # p) v"
  proof (elim disjE exE conjE)
    assume "alt_matches cs p v"
    then show ?thesis using alt_matches.run [of cs p v "[]"] by simp
  next
    fix c w assume "v = c # w" "alt_matches cs (CHR ''*'' # p) w"
    then show ?thesis
      by (auto elim!: alt_matches_ConsE intro: alt_matches.run [of cs p _ "c # _", simplified])
  qed
qed

lemma alt_matches_other:
  "x \<noteq> CHR ''*'' \<Longrightarrow>
     alt_matches cs (x # p) v \<longleftrightarrow> (\<exists>c w. v = c # w \<and> atom_hit cs (atom_of x) c \<and> alt_matches cs p w)"
  by (auto simp: atom_of_def elim!: alt_matches_ConsE intro: alt_matches.intros)

lemma atom_of_AnyRun [simp]: "atom_of x = AnyRun \<longleftrightarrow> x = CHR ''*''"
  by (simp add: atom_of_def)

lemma atoms_match_grammar: "atoms_match cs (map atom_of a) v \<longleftrightarrow> alt_matches cs a v"
proof (induction cs "map atom_of a" v arbitrary: a rule: atoms_match.induct)
  case (1 cs s)
  then show ?case by simp
next
  case (2 cs t ts)
  then obtain x p where a: "a = x # p" "t = atom_of x" "ts = map atom_of p" by auto
  show ?case
    using 2(1) [of p] a
    by (cases "x = CHR ''*''") (simp_all add: alt_matches_star [of cs p "[]"] alt_matches_other)
next
  case (3 cs t ts c s)
  then obtain x p where a: "a = x # p" "t = atom_of x" "ts = map atom_of p" by auto
  show ?case
  proof (cases "x = CHR ''*''")
    case True
    with a have t: "t = AnyRun" by simp
    with 3(1,2) [of p] 3(2) [of "x # p"] a show ?thesis
      by (simp add: alt_matches_star [of cs p "c # s"] True atom_of_def)
  next
    case False
    with a 3(3) [of p] show ?thesis by (simp add: alt_matches_other)
  qed
qed

lemma splitAlternatives_not_Nil [simp]: "splitAlternatives p \<noteq> []"
  by (simp add: splitAlternatives_def)

lemma matchesWildcard_grammar:
  "matchesWildcard (Some v) p cs \<longleftrightarrow>
     isValidWildcard p \<and> (\<exists>a \<in> set (splitAlternatives p). alt_matches cs a v)"
proof (cases "describeWildcardProblem p")
  case None
  let ?re = "\<lparr>re_source = join ''|'' (map compileAlternative (splitAlternatives p)), re_case = cs\<rparr>"
  from None have "compileWildcard p cs = Inr ?re"
    by (simp only: compileWildcard_def option.case)
  moreover have "regex_test ?re v = Some (\<exists>a \<in> set (splitAlternatives p). alt_matches cs a v)"
    by (simp only: regex_test_def wildcard_regex.select_convs read_regex_compiled
        splitAlternatives_not_Nil not_False_eq_True option.map set_map bex_simps atoms_match_grammar)
  ultimately have "matchesWildcard (Some v) p cs
      \<longleftrightarrow> (\<exists>a \<in> set (splitAlternatives p). alt_matches cs a v)"
    by (simp only: matchesWildcard_def option.case sum.case)
  with None show ?thesis by (simp add: isValidWildcard_def)
next
  case (Some problem)
  then show ?thesis by (simp add: matchesWildcard_def compileWildcard_def isValidWildcard_def)
qed

lemma alt_matches_plain:
  "\<not> has_meta a \<Longrightarrow> alt_matches cs a v \<longleftrightarrow> list_all2 (same_char cs) a v"
proof (induction a arbitrary: v)
  case (Cons x a)
  then show ?case
    by (cases v) (auto simp: alt_matches_other atom_of_def has_meta_def)
qed simp

lemma alt_matches_plain_append:
  "\<not> has_meta a \<Longrightarrow>
     alt_matches cs (a @ p) v \<longleftrightarrow> (\<exists>u w. v = u @ w \<and> list_all2 (same_char cs) a u \<and> alt_matches cs p w)"
proof (induction a arbitrary: v)
  case (Cons x a)
  then have x: "x \<noteq> CHR ''*''" "atom_of x = Literal x" "\<not> has_meta a"
    by (auto simp: has_meta_def atom_of_def)
  have "alt_matches cs ((x # a) @ p) v \<longleftrightarrow>
      (\<exists>c w. v = c # w \<and> same_char cs x c \<and> alt_matches cs (a @ p) w)"
    using x by (simp add: alt_matches_other)
  also have "\<dots> \<longleftrightarrow>
      (\<exists>u w. v = u @ w \<and> list_all2 (same_char cs) (x # a) u \<and> alt_matches cs p w)"
    (is "?L \<longleftrightarrow> ?R")
  proof
    assume ?L
    then obtain c u w where "v = c # u @ w" "same_char cs x c" "list_all2 (same_char cs) a u"
        "alt_matches cs p w"
      unfolding Cons.IH [OF x(3)] by blast
    then show ?R by (intro exI [of _ "c # u"] exI [of _ w]) simp
  next
    assume ?R
    then obtain c u w where "v = c # u @ w" "same_char cs x c" "list_all2 (same_char cs) a u"
        "alt_matches cs p w"
      by (auto simp: list_all2_Cons1)
    then show ?L unfolding Cons.IH [OF x(3)] by blast
  qed
  finally show ?case .
qed simp

lemma alt_matches_any [simp]: "alt_matches cs ''*'' v"
  using alt_matches.run [OF alt_matches.nothing, of cs v] by simp

lemma alt_matches_run_iff:
  "alt_matches cs (CHR ''*'' # p) v \<longleftrightarrow> (\<exists>u w. v = u @ w \<and> alt_matches cs p w)"
  by (auto elim!: alt_matches_ConsE intro: alt_matches.run)

subsection \<open>Properties\<close>

text \<open>
  C28. No pattern can become a regular expression by accident: whatever the operator typed, if
  the pattern compiles, then the source text handed to \<open>new RegExp\<close> reads back as exactly one
  atom per pattern character: a run for \<open>*\<close>, a digit for \<open>#\<close>, a letter for \<open>$\<close> and the
  character itself for everything else, syntax characters included.
\<close>

theorem compileWildcard_literal_safe:
  assumes "compileWildcard p cs = Inr re"
  shows "read_regex (re_source re) = Some (map (map atom_of) (splitAlternatives p))
    \<and> re_case re = cs"
  using assms
  by (auto simp: compileWildcard_def read_regex_compiled split: option.splits)

theorem compileWildcard_literal_safe_witness:
  "read_regex (re_source (projr (compileWildcard ''(a+)+b|7*'' False)))
     = Some (map (map atom_of) (splitAlternatives ''(a+)+b|7*''))"
proof -
  have "compileWildcard ''(a+)+b|7*'' False = Inr (projr (compileWildcard ''(a+)+b|7*'' False))"
    by code_simp
  from compileWildcard_literal_safe [OF this] show ?thesis by (rule conjunct1)
qed

text \<open>
  C29. The matcher that goes through the compiled regular expression decides the wildcard
  grammar: an absent value never matches, an invalid pattern matches nothing, and otherwise
  the value matches when it belongs as a whole to the language of one trimmed alternative.
\<close>

theorem matchesWildcard_decides_grammar:
  "matchesWildcard value p cs \<longleftrightarrow>
     (\<exists>v a. value = Some v \<and> isValidWildcard p \<and> a \<in> set (splitAlternatives p) \<and> alt_matches cs a v)"
proof (cases "value")
  case None
  then show ?thesis by (simp add: matchesWildcard_def)
next
  case (Some v)
  then show ?thesis by (auto simp: matchesWildcard_grammar)
qed

end
