(* ===== verification/RouteOverrides.thy ===== *)
theory RouteOverrides
  imports Prelude
begin

section \<open>What a matched rule does: routing-depth/route-overrides.ts\<close>

text \<open>
  The effect of a route rule on a message: drop it with a reason, or send it with rewritten
  fields and a change set. The two sentences for people are kept as the values they
  interpolate: \<open>override_part\<close> for the change set, the rule name and the reason for a drop.
\<close>

datatype route_action = ActRoute | ActDrop

record route_effect =
  ef_action :: route_action
  ef_sender :: "string option"
  ef_recipient :: "string option"
  ef_text :: "string option"
  ef_reason :: "string option"

record outbound_message =
  om_sender :: "string option"
  om_recipient :: string
  om_text :: string

record field_change =
  fc_from :: "string option"
  fc_to :: string

record override_set =
  ov_sender :: "field_change option"
  ov_recipient :: "field_change option"
  ov_text :: "field_change option"

datatype override_part =
    SenderPart "string option" string
  | RecipientPart "string option" string
  | BodyPart "string option"

datatype route_outcome =
    Send outbound_message override_set "(string \<times> override_part list) option"
  | Dropped string string

definition clean :: "string option \<Rightarrow> string option" where
  "clean value =
     (case value of None \<Rightarrow> None | Some v \<Rightarrow> let text = trim v in if text \<noteq> [] then Some text else None)"

definition describeOverrides :: "override_set \<Rightarrow> string \<Rightarrow> (string \<times> override_part list) option" where
  "describeOverrides ov ruleName =
     (let parts =
        (case ov_sender ov of None \<Rightarrow> [] | Some c \<Rightarrow> [SenderPart (fc_from c) (fc_to c)])
        @ (case ov_recipient ov of None \<Rightarrow> [] | Some c \<Rightarrow> [RecipientPart (fc_from c) (fc_to c)])
        @ (case ov_text ov of None \<Rightarrow> [] | Some c \<Rightarrow> [BodyPart (fc_from c)])
      in if parts \<noteq> [] then Some (ruleName, parts) else None)"

text \<open>One field: \<open>Some\<close> change when the cleaned override is there and differs from the value.\<close>

definition override_field :: "string option \<Rightarrow> string option \<Rightarrow> string option \<Rightarrow> field_change option" where
  "override_field new current recorded =
     (case new of
        None \<Rightarrow> None
      | Some v \<Rightarrow> if Some v \<noteq> current then Some \<lparr>fc_from = recorded, fc_to = v\<rparr> else None)"

definition applyRouteRule :: "outbound_message \<Rightarrow> route_effect \<Rightarrow> string \<Rightarrow> route_outcome" where
  "applyRouteRule message rule ruleName =
     (if ef_action rule = ActDrop then
        let reason = trim (coalesce (ef_reason rule) [])
        in Dropped (if reason \<noteq> [] then reason else ''No reason recorded on the rule.'')
             (''Dropped by '' @ ruleName @ '': ''
                @ (if reason \<noteq> [] then reason else ''no reason recorded on the rule'') @ ''.'')
      else
        let sender = override_field (clean (ef_sender rule)) (om_sender message) (om_sender message);
            recipient = override_field (clean (ef_recipient rule)) (Some (om_recipient message))
                          (Some (om_recipient message));
            text = override_field (clean (ef_text rule)) (Some (om_text message))
                     (Some (show_nat (length (om_text message)) @ '' characters''));
            overrides = \<lparr>ov_sender = sender, ov_recipient = recipient, ov_text = text\<rparr>;
            next = \<lparr>om_sender = (case sender of None \<Rightarrow> om_sender message | Some c \<Rightarrow> Some (fc_to c)),
                    om_recipient = (case recipient of None \<Rightarrow> om_recipient message | Some c \<Rightarrow> fc_to c),
                    om_text = (case text of None \<Rightarrow> om_text message | Some c \<Rightarrow> fc_to c)\<rparr>
        in Send next overrides (describeOverrides overrides ruleName))"

subsection \<open>The write-side check\<close>

text \<open>A partial effect as it arrives from a request: the action is any string, or absent.\<close>

record partial_effect =
  pe_action :: "string option"
  pe_sender :: "string option"
  pe_recipient :: "string option"
  pe_text :: "string option"
  pe_reason :: "string option"

datatype effect_problem =
    UnknownAction string
  | DropWithoutReason
  | DropWithOverrides
  | BlankOverride string

definition blank :: "string option \<Rightarrow> bool" where
  "blank v = (case v of None \<Rightarrow> False | Some s \<Rightarrow> trim s = [])"

definition describeEffectProblem :: "partial_effect \<Rightarrow> effect_problem option" where
  "describeEffectProblem rule =
     (let action = coalesce (pe_action rule) ''route''
      in if action \<noteq> ''route'' \<and> action \<noteq> ''drop'' then Some (UnknownAction action)
         else if action = ''drop'' then
           (if length (trim (coalesce (pe_reason rule) [])) < 3 then Some DropWithoutReason
            else if truthy (pe_sender rule) \<or> truthy (pe_recipient rule) \<or> truthy (pe_text rule)
            then Some DropWithOverrides
            else None)
         else if blank (pe_sender rule) then Some (BlankOverride ''overrideSender'')
         else if blank (pe_recipient rule) then Some (BlankOverride ''overrideRecipient'')
         else if blank (pe_text rule) then Some (BlankOverride ''overrideText'')
         else None)"

text \<open>The effect a stored partial effect stands for: \<open>action ?? 'route'\<close>.\<close>

definition effect_of_partial :: "partial_effect \<Rightarrow> route_effect" where
  "effect_of_partial p =
     \<lparr>ef_action = (if pe_action p = Some ''drop'' then ActDrop else ActRoute),
      ef_sender = pe_sender p, ef_recipient = pe_recipient p, ef_text = pe_text p,
      ef_reason = pe_reason p\<rparr>"

subsection \<open>Properties\<close>

text \<open>
  A change set explains a rewrite: every field either has no entry and is unchanged, or has an
  entry whose \<open>to\<close> is the new value, different from the old one, and whose \<open>from\<close> is the old
  value (its length, for the body).
\<close>

definition explains :: "override_set \<Rightarrow> outbound_message \<Rightarrow> outbound_message \<Rightarrow> bool" where
  "explains ov m m' \<longleftrightarrow>
     (case ov_sender ov of None \<Rightarrow> om_sender m' = om_sender m
      | Some c \<Rightarrow> om_sender m' = Some (fc_to c) \<and> fc_from c = om_sender m \<and> om_sender m' \<noteq> om_sender m)
     \<and> (case ov_recipient ov of None \<Rightarrow> om_recipient m' = om_recipient m
      | Some c \<Rightarrow> om_recipient m' = fc_to c \<and> fc_from c = Some (om_recipient m)
           \<and> om_recipient m' \<noteq> om_recipient m)
     \<and> (case ov_text ov of None \<Rightarrow> om_text m' = om_text m
      | Some c \<Rightarrow> om_text m' = fc_to c \<and> om_text m' \<noteq> om_text m
           \<and> fc_from c = Some (show_nat (length (om_text m)) @ '' characters''))"

lemma override_field_None_iff:
  "override_field new current r = None \<longleftrightarrow> new = None \<or> new = current"
  by (auto simp: override_field_def split: option.splits)

lemma override_field_Some:
  "override_field new current r = Some c \<Longrightarrow> new = Some (fc_to c) \<and> fc_from c = r \<and> new \<noteq> current"
  by (auto simp: override_field_def split: option.splits if_splits)

lemma describeOverrides_None_iff:
  "describeOverrides ov n = None \<longleftrightarrow> ov_sender ov = None \<and> ov_recipient ov = None \<and> ov_text ov = None"
  by (auto simp: describeOverrides_def Let_def split: option.splits)

lemma clean_Some: "clean v = Some t \<Longrightarrow> t \<noteq> [] \<and> trim t = t"
  by (auto simp: clean_def Let_def split: option.splits if_splits)

lemma explains_unchanged_iff:
  "explains ov m m' \<Longrightarrow>
     m' = m \<longleftrightarrow> ov_sender ov = None \<and> ov_recipient ov = None \<and> ov_text ov = None"
  by (cases m; cases m') (auto simp: explains_def split: option.splits)

lemma overridden_value:
  "(case override_field new (Some cur) r of None \<Rightarrow> cur | Some c \<Rightarrow> fc_to c) = coalesce new cur"
  "(case override_field new cur' r of None \<Rightarrow> cur' | Some c \<Rightarrow> Some (fc_to c))
     = (if new = None then cur' else new)"
  by (auto simp: override_field_def split: option.splits)

lemma applyRouteRule_sent_fields:
  assumes "applyRouteRule m e n = Send m' ov s"
  shows "ef_action e = ActRoute"
    and "om_sender m' = (if clean (ef_sender e) = None then om_sender m else clean (ef_sender e))"
    and "om_recipient m' = coalesce (clean (ef_recipient e)) (om_recipient m)"
    and "om_text m' = coalesce (clean (ef_text e)) (om_text m)"
  using assms by (cases "ef_action e"; auto simp: applyRouteRule_def Let_def overridden_value)+

lemma change_explained:
  "case override_field new cur r of
     None \<Rightarrow> (if new = None then cur else new) = cur
   | Some c \<Rightarrow> (if new = None then cur else new) = Some (fc_to c) \<and> fc_from c = r
        \<and> (if new = None then cur else new) \<noteq> cur"
  "case override_field new (Some cur') r of
     None \<Rightarrow> coalesce new cur' = cur'
   | Some c \<Rightarrow> coalesce new cur' = fc_to c \<and> fc_from c = r \<and> coalesce new cur' \<noteq> cur'"
  by (auto simp: override_field_def split: option.splits)

lemma applyRouteRule_changes:
  assumes "applyRouteRule m e n = Send m' ov s"
  shows "ov_sender ov = override_field (clean (ef_sender e)) (om_sender m) (om_sender m)"
    and "ov_recipient ov = override_field (clean (ef_recipient e)) (Some (om_recipient m))
           (Some (om_recipient m))"
    and "ov_text ov = override_field (clean (ef_text e)) (Some (om_text m))
           (Some (show_nat (length (om_text m)) @ '' characters''))"
    and "s = describeOverrides ov n"
  using assms by (cases "ef_action e"; auto simp: applyRouteRule_def Let_def)+

lemma applyRouteRule_explains:
  assumes "applyRouteRule m e n = Send m' ov s"
  shows "explains ov m m'" and "s = describeOverrides ov n"
  unfolding explains_def applyRouteRule_changes(1,2,3) [OF assms] applyRouteRule_sent_fields [OF assms]
  using change_explained(1) [of "clean (ef_sender e)" "om_sender m" "om_sender m"]
    change_explained(2) [of "clean (ef_recipient e)" "om_recipient m" "Some (om_recipient m)"]
    change_explained(2) [of "clean (ef_text e)" "om_text m"
      "Some (show_nat (length (om_text m)) @ '' characters'')"]
    applyRouteRule_changes(4) [OF assms]
  by (auto split: option.splits)

lemma applyRouteRule_sends:
  "ef_action e = ActRoute \<Longrightarrow> \<exists>m' ov s. applyRouteRule m e n = Send m' ov s"
  by (simp add: applyRouteRule_def Let_def)

text \<open>
  A rule that sends leaves an account of what it did: the message leaves with the trimmed,
  non-blank override of each field that has one and its own value otherwise; the change set
  explains the difference field by field, with the value before and the value after; and the
  summary is absent exactly when the message is untouched.
\<close>

theorem applyRouteRule_accounts:
  assumes "applyRouteRule m e n = Send m' ov s"
  shows "om_sender m' = (if clean (ef_sender e) = None then om_sender m else clean (ef_sender e))
    \<and> om_recipient m' = coalesce (clean (ef_recipient e)) (om_recipient m)
    \<and> om_text m' = coalesce (clean (ef_text e)) (om_text m)
    \<and> explains ov m m' \<and> (s = None \<longleftrightarrow> m' = m)"
proof -
  note ex = applyRouteRule_explains [OF assms]
  have "s = None \<longleftrightarrow> m' = m"
    using ex explains_unchanged_iff [OF ex(1)] by (simp add: describeOverrides_None_iff)
  with ex applyRouteRule_sent_fields [OF assms] show ?thesis by blast
qed

definition sample_message :: outbound_message where
  "sample_message = \<lparr>om_sender = Some ''URASMS'', om_recipient = ''256700000001'', om_text = ''hello''\<rparr>"

definition sample_effect :: route_effect where
  "sample_effect = \<lparr>ef_action = ActRoute, ef_sender = Some '' 7077 '', ef_recipient = None,
     ef_text = None, ef_reason = None\<rparr>"

theorem applyRouteRule_accounts_witness:
  "\<exists>m' ov s. applyRouteRule sample_message sample_effect ''r'' = Send m' ov s
     \<and> om_sender m' = Some ''7077'' \<and> explains ov sample_message m' \<and> s \<noteq> None"
proof -
  obtain m' ov s where r: "applyRouteRule sample_message sample_effect ''r'' = Send m' ov s"
    using applyRouteRule_sends [of sample_effect sample_message "''r''"]
    by (simp add: sample_effect_def del: split_paired_Ex) blast
  have "clean (ef_sender sample_effect) = Some ''7077''" by code_simp
  with applyRouteRule_accounts [OF r] have m': "om_sender m' = Some ''7077''" by simp
  moreover have "om_sender sample_message = Some ''URASMS''" by (simp add: sample_message_def)
  ultimately have "m' \<noteq> sample_message" by auto
  with applyRouteRule_accounts [OF r] r m' show ?thesis by blast
qed

text \<open>
  What the write-side check accepts, the send path honours: an accepted drop rule drops
  every message with the recorded reason, trimmed and at least three characters, and an
  accepted routing rule never drops and leaves each field it names with the trimmed value it
  names.
\<close>

theorem describeEffectProblem_sound:
  assumes "describeEffectProblem p = None"
  shows "if pe_action p = Some ''drop''
    then (\<exists>s. applyRouteRule m (effect_of_partial p) n = Dropped (trim (coalesce (pe_reason p) [])) s)
         \<and> 3 \<le> length (trim (coalesce (pe_reason p) []))
    else (\<exists>m' ov s. applyRouteRule m (effect_of_partial p) n = Send m' ov s
         \<and> om_sender m' = (case pe_sender p of None \<Rightarrow> om_sender m | Some v \<Rightarrow> Some (trim v))
         \<and> om_recipient m' = (case pe_recipient p of None \<Rightarrow> om_recipient m | Some v \<Rightarrow> trim v)
         \<and> om_text m' = (case pe_text p of None \<Rightarrow> om_text m | Some v \<Rightarrow> trim v))"
proof (cases "pe_action p = Some ''drop''")
  case True
  with assms have len: "3 \<le> length (trim (coalesce (pe_reason p) []))"
    by (simp add: describeEffectProblem_def split: if_splits)
  then have ne: "trim (coalesce (pe_reason p) []) \<noteq> []" by auto
  have "ef_action (effect_of_partial p) = ActDrop"
    "ef_reason (effect_of_partial p) = pe_reason p"
    using True by (simp_all add: effect_of_partial_def)
  then have "\<exists>s. applyRouteRule m (effect_of_partial p) n
      = Dropped (trim (coalesce (pe_reason p) [])) s"
    using ne by (simp add: applyRouteRule_def Let_def)
  with True len show ?thesis by simp
next
  case False
  have nb: "\<not> blank (pe_sender p)" "\<not> blank (pe_recipient p)" "\<not> blank (pe_text p)"
    using assms False
    by (auto simp: describeEffectProblem_def Let_def coalesce_def split: if_splits option.splits)
  have cl: "clean v = map_option trim v" if "\<not> blank v" for v
    using that by (cases v) (simp_all add: clean_def blank_def)
  have fields: "ef_sender (effect_of_partial p) = pe_sender p"
    "ef_recipient (effect_of_partial p) = pe_recipient p"
    "ef_text (effect_of_partial p) = pe_text p"
    by (simp_all add: effect_of_partial_def)
  have act: "ef_action (effect_of_partial p) = ActRoute"
    using False by (simp add: effect_of_partial_def)
  obtain m' ov s where r: "applyRouteRule m (effect_of_partial p) n = Send m' ov s"
    using applyRouteRule_sends [OF act] by blast
  note sent = applyRouteRule_sent_fields(2,3,4)
      [OF r, unfolded fields cl [OF nb(1)] cl [OF nb(2)] cl [OF nb(3)]]
  have "om_sender m' = (case pe_sender p of None \<Rightarrow> om_sender m | Some v \<Rightarrow> Some (trim v))"
    using sent(1) by (cases "pe_sender p") simp_all
  moreover have "om_recipient m' = (case pe_recipient p of None \<Rightarrow> om_recipient m | Some v \<Rightarrow> trim v)"
    using sent(2) by (cases "pe_recipient p") simp_all
  moreover have "om_text m' = (case pe_text p of None \<Rightarrow> om_text m | Some v \<Rightarrow> trim v)"
    using sent(3) by (cases "pe_text p") simp_all
  ultimately show ?thesis using r False by simp
qed

theorem describeEffectProblem_sound_witness:
  "\<exists>s. applyRouteRule sample_message
     (effect_of_partial \<lparr>pe_action = Some ''drop'', pe_sender = None, pe_recipient = None,
        pe_text = None, pe_reason = Some '' spam ''\<rparr>) ''r'' = Dropped ''spam'' s"
proof -
  let ?p = "\<lparr>pe_action = Some ''drop'', pe_sender = None, pe_recipient = None,
        pe_text = None, pe_reason = Some '' spam ''\<rparr>"
  have "describeEffectProblem ?p = None" by code_simp
  from describeEffectProblem_sound [OF this, of sample_message "''r''"]
  show ?thesis by (simp add: trim_def trim_left_def is_space_def char_code_def)
qed

end
