(* ===== verification/RouteSelection.thy ===== *)
theory RouteSelection
  imports Complex_Main Msisdn Wildcard RouteOverrides
begin

section \<open>Route selection: routing-depth/route-selection.ts\<close>

text \<open>
  The pure selector: which routes match a destination, which of them controls, and which SMSC
  its strategy takes. \<open>lc\<close> is \<open>String.prototype.localeCompare\<close>, whose order depends on the
  host's locale; \<open>now\<close> is the evaluation instant in local time. Costs are only compared, so a
  cost is an exact number, and a missing one is the infinity the code puts in its place.
\<close>

datatype route_type = RtStatic | RtPrefix | RtCountry | RtOperator | RtWeighted | RtWildcard
datatype selection_strategy = StPriority | StLeastCost | StLoadBalance | StRoundRobin | StTimeBased

record route_target =
  tg_smsc :: string
  tg_weight :: int
  tg_cost :: "rat option"
  tg_enabled :: "bool option"

record time_window =
  tw_start :: string
  tw_end :: string
  tw_days :: "nat list option"

record local_time =
  lt_day :: nat
  lt_hours :: nat
  lt_minutes :: nat

record candidate_route =
  cr_id :: string
  cr_name :: string
  cr_priority :: int
  cr_enabled :: bool
  cr_type :: route_type
  cr_strategy :: selection_strategy
  cr_matchPrefix :: "string option"
  cr_countryCode :: "string option"
  cr_operator :: "string option"
  cr_destinationPrefix :: "string option"
  cr_sender :: "string option"
  cr_cost :: "rat option"
  cr_target :: string
  cr_fallback :: "string option"
  cr_targets :: "route_target list option"
  cr_window :: "time_window option"
  cr_action :: "route_action option"
  cr_overrideSender :: "string option"
  cr_overrideRecipient :: "string option"
  cr_overrideText :: "string option"
  cr_dropReason :: "string option"

record selection_context =
  sx_msisdn :: string
  sx_sender :: "string option"
  sx_operator :: "string option"
  sx_now :: local_time
  sx_available :: "string list option"
  sx_rotation :: "int option"

datatype verdict = VSelected | VOutranked | VNoMatch

record route_verdict =
  rv_route :: string
  rv_name :: string
  rv_priority :: int
  rv_verdict :: verdict
  rv_reason :: string

text \<open>The reason of a decision and the steps of its trace, as the values the sentences carry.\<close>

datatype selection_reason =
    NoDialableDigits
  | NoRouteMatched
  | LeastCost "rat option option"
  | Rotated selection_strategy "int option"
  | PrimaryTarget
  | UsingFallback
  | PrimaryAndFallbackUnavailable
  | NoAvailableSmsc selection_reason

datatype trace_step =
    TDestination string string
  | TMatched nat
  | TControlling string route_type int selection_strategy
  | TSelected string selection_reason
  | TReason selection_reason

record selection_result =
  sr_smsc :: "string option"
  sr_route :: "string option"
  sr_name :: "string option"
  sr_strategy :: "selection_strategy option"
  sr_fallbackUsed :: bool
  sr_reason :: selection_reason
  sr_trace :: "trace_step list"
  sr_candidates :: "route_verdict list"
  sr_effect :: "route_effect option"

subsection \<open>Time windows\<close>

definition digit_value :: "char \<Rightarrow> nat" where
  "digit_value c = char_code c - 48"

definition minutesOfDay :: "string \<Rightarrow> nat option" where
  "minutesOfDay time =
     (let in_range = (\<lambda>h m. if h > 23 \<or> m > 59 then None else Some (h * 60 + m))
      in case trim time of
           [h, c, m1, m2] \<Rightarrow>
             if is_digit h \<and> c = CHR '':'' \<and> is_digit m1 \<and> is_digit m2
             then in_range (digit_value h) (10 * digit_value m1 + digit_value m2) else None
         | [h1, h2, c, m1, m2] \<Rightarrow>
             if is_digit h1 \<and> is_digit h2 \<and> c = CHR '':'' \<and> is_digit m1 \<and> is_digit m2
             then in_range (10 * digit_value h1 + digit_value h2)
                    (10 * digit_value m1 + digit_value m2) else None
         | _ \<Rightarrow> None)"

definition current_minute :: "local_time \<Rightarrow> nat" where
  "current_minute now = lt_hours now * 60 + lt_minutes now"

definition isWithinWindow :: "time_window option \<Rightarrow> local_time \<Rightarrow> bool" where
  "isWithinWindow window now =
     (case window of
        None \<Rightarrow> True
      | Some w \<Rightarrow>
          if tw_start w = [] \<or> tw_end w = [] then True
          else if (case tw_days w of None \<Rightarrow> False | Some ds \<Rightarrow> ds \<noteq> [] \<and> lt_day now \<notin> set ds)
          then False
          else case (minutesOfDay (tw_start w), minutesOfDay (tw_end w)) of
                 (Some start, Some end') \<Rightarrow>
                   let current = current_minute now
                   in if start \<le> end' then start \<le> current \<and> current < end'
                      else start \<le> current \<or> current < end'
               | _ \<Rightarrow> True)"

subsection \<open>Matching\<close>

definition wildcardSpecificity :: "string \<Rightarrow> nat" where
  "wildcardSpecificity pattern =
     Min (set (map (\<lambda>a. length (filter (\<lambda>c. c \<notin> {CHR ''*'', CHR ''#'', CHR ''$''}) a))
                 (split_on (CHR ''|'') pattern)))"

text \<open>\<open>route.matchPrefix ?? route.destinationPrefix ?? ''\<close>.\<close>

definition route_pattern :: "candidate_route \<Rightarrow> string" where
  "route_pattern r = coalesce (cr_matchPrefix r) (coalesce (cr_destinationPrefix r) [])"

definition prefix_specificity :: "string \<Rightarrow> string \<Rightarrow> nat option" where
  "prefix_specificity p digits =
     (if p = [] then Some 0 else if prefix p digits then Some (length p) else None)"

definition matchSpecificity :: "candidate_route \<Rightarrow> selection_context \<Rightarrow> nat option" where
  "matchSpecificity route ctx =
     (let digits = digitsOnly (Some (sx_msisdn ctx))
      in if truthy (cr_sender route)
            \<and> \<not> matchesWildcard (Some (coalesce (sx_sender ctx) [])) (the (cr_sender route)) False
         then None
         else case cr_type route of
           RtWildcard \<Rightarrow>
             let pattern = route_pattern route
             in if trim pattern = [] then None
                else if matchesWildcard (Some digits) pattern False
                then Some (wildcardSpecificity pattern) else None
         | RtPrefix \<Rightarrow> prefix_specificity (digitsOnly (cr_matchPrefix route)) digits
         | RtCountry \<Rightarrow>
             let code = digitsOnly (cr_countryCode route)
             in if code = [] then None else if prefix code digits then Some (length code) else None
         | RtOperator \<Rightarrow>
             let op = trim (coalesce (cr_operator route) [])
             in if op = [] then None
                else if op = trim (coalesce (sx_operator ctx) []) then Some 1000 else None
         | _ \<Rightarrow> prefix_specificity (digitsOnly (Some (route_pattern route))) digits)"

definition whyNotMatched :: "candidate_route \<Rightarrow> selection_context \<Rightarrow> string" where
  "whyNotMatched route ctx =
     (if \<not> cr_enabled route then ''Route is disabled''
      else if cr_window route \<noteq> None \<and> \<not> isWithinWindow (cr_window route) (sx_now ctx)
      then ''Outside its time window''
      else if truthy (cr_sender route)
            \<and> \<not> matchesWildcard (Some (coalesce (sx_sender ctx) [])) (the (cr_sender route)) False
      then ''Sender must be '' @ the (cr_sender route)
      else if matchSpecificity route ctx \<noteq> None then []
      else let digits = digitsOnly (Some (sx_msisdn ctx))
           in case cr_type route of
                RtWildcard \<Rightarrow>
                  let pattern = route_pattern route
                  in if trim pattern \<noteq> []
                     then ''Destination '' @ digits @ '' does not match '' @ pattern
                     else ''Route has no pattern to match on''
              | RtCountry \<Rightarrow>
                  let code = digitsOnly (cr_countryCode route)
                  in if code \<noteq> [] then ''Destination does not start with +'' @ code
                     else ''Route has no country code set''
              | RtOperator \<Rightarrow>
                  let op = trim (coalesce (cr_operator route) [])
                  in if op \<noteq> [] then ''Operator must be '' @ op else ''Route has no operator set''
              | _ \<Rightarrow>
                  let p = digitsOnly (Some (route_pattern route))
                  in if p \<noteq> [] then ''Destination does not start with +'' @ p
                     else ''Route has no destination prefix set'')"

text \<open>The filter of the matching step.\<close>

definition eligible :: "selection_context \<Rightarrow> candidate_route \<Rightarrow> bool" where
  "eligible ctx route \<longleftrightarrow>
     cr_enabled route
     \<and> \<not> (cr_strategy route = StTimeBased \<and> \<not> isWithinWindow (cr_window route) (sx_now ctx))
     \<and> \<not> (cr_window route \<noteq> None \<and> \<not> isWithinWindow (cr_window route) (sx_now ctx))
     \<and> matchSpecificity route ctx \<noteq> None"

definition matched_routes :: "candidate_route list \<Rightarrow> selection_context \<Rightarrow> (candidate_route \<times> nat) list" where
  "matched_routes routes ctx =
     map (\<lambda>r. (r, the (matchSpecificity r ctx))) (filter (eligible ctx) routes)"

subsection \<open>Candidates of a route\<close>

record smsc_candidate =
  sc_smsc :: string
  sc_cost :: "rat option"
  sc_primary :: bool
  sc_weight :: int

definition effectOf :: "candidate_route \<Rightarrow> route_effect" where
  "effectOf route =
     \<lparr>ef_action = coalesce (cr_action route) ActRoute, ef_sender = cr_overrideSender route,
      ef_recipient = cr_overrideRecipient route, ef_text = cr_overrideText route,
      ef_reason = cr_dropReason route\<rparr>"

definition isAvailable :: "string option \<Rightarrow> selection_context \<Rightarrow> bool" where
  "isAvailable smsc ctx =
     (if \<not> truthy smsc then False
      else case sx_available ctx of None \<Rightarrow> True | Some ids \<Rightarrow> the smsc \<in> set ids)"

text \<open>\<open>t.cost ?? route.cost ?? null\<close>, and \<open>primary\<close> for the first of the kept targets.\<close>

fun target_candidates :: "rat option \<Rightarrow> bool \<Rightarrow> route_target list \<Rightarrow> smsc_candidate list" where
  "target_candidates cost first [] = []"
| "target_candidates cost first (t # ts) =
     \<lparr>sc_smsc = tg_smsc t, sc_cost = (case tg_cost t of None \<Rightarrow> cost | Some c \<Rightarrow> Some c),
      sc_primary = first, sc_weight = tg_weight t\<rparr> # target_candidates cost False ts"

definition usable_target :: "route_target \<Rightarrow> bool" where
  "usable_target t \<longleftrightarrow> tg_enabled t \<noteq> Some False \<and> tg_weight t > 0 \<and> tg_smsc t \<noteq> []"

definition routeCandidates :: "candidate_route \<Rightarrow> smsc_candidate list" where
  "routeCandidates route =
     (if cr_type route = RtWeighted \<and> coalesce (cr_targets route) [] \<noteq> []
      then target_candidates (cr_cost route) True (filter usable_target (the (cr_targets route)))
      else \<lparr>sc_smsc = cr_target route, sc_cost = cr_cost route, sc_primary = True, sc_weight = 1\<rparr>
           # (if truthy (cr_fallback route)
              then [\<lparr>sc_smsc = the (cr_fallback route), sc_cost = cr_cost route, sc_primary = False,
                     sc_weight = 1\<rparr>]
              else []))"

text \<open>The weighted walk: subtract each weight until the position goes below zero.\<close>

fun weighted_walk :: "smsc_candidate list \<Rightarrow> int \<Rightarrow> smsc_candidate option" where
  "weighted_walk [] position = None"
| "weighted_walk (c # cs) position =
     (if position - max (sc_weight c) 0 < 0 then Some c
      else weighted_walk cs (position - max (sc_weight c) 0))"

definition total_weight :: "smsc_candidate list \<Rightarrow> int" where
  "total_weight cs = sum_list (map (\<lambda>c. max (sc_weight c) 0) cs)"

definition weightedPick :: "smsc_candidate list \<Rightarrow> int \<Rightarrow> smsc_candidate" where
  "weightedPick candidates rotation =
     (if total_weight candidates \<le> 0 then hd candidates
      else case weighted_walk candidates (js_index rotation (total_weight candidates)) of
             Some c \<Rightarrow> c | None \<Rightarrow> last candidates)"

text \<open>A missing cost is an infinity; the difference of two infinities is NaN, which is falsy.\<close>

definition cost_cmp :: "smsc_candidate \<Rightarrow> smsc_candidate \<Rightarrow> int" where
  "cost_cmp a b =
     (case (sc_cost a, sc_cost b) of
        (None, None) \<Rightarrow> 0
      | (None, Some _) \<Rightarrow> 1
      | (Some _, None) \<Rightarrow> -1
      | (Some x, Some y) \<Rightarrow> (if x < y then -1 else if y < x then 1 else 0))"

definition cheapest_first :: "(string \<Rightarrow> string \<Rightarrow> int) \<Rightarrow> smsc_candidate \<Rightarrow> smsc_candidate \<Rightarrow> int" where
  "cheapest_first lc = cmp_or cost_cmp (\<lambda>a b. lc (sc_smsc a) (sc_smsc b))"

subsection \<open>selectRoute\<close>

definition by_priority :: "(string \<Rightarrow> string \<Rightarrow> int) \<Rightarrow> candidate_route \<Rightarrow> candidate_route \<Rightarrow> int" where
  "by_priority lc = cmp_or (cmp_diff cr_priority) (\<lambda>a b. lc (cr_name a) (cr_name b))"

definition by_specificity ::
    "(string \<Rightarrow> string \<Rightarrow> int) \<Rightarrow> candidate_route \<times> nat \<Rightarrow> candidate_route \<times> nat \<Rightarrow> int" where
  "by_specificity lc =
     cmp_or (cmp_diff (\<lambda>e. - int (snd e)))
       (cmp_or (cmp_diff (\<lambda>e. cr_priority (fst e))) (\<lambda>a b. lc (cr_name (fst a)) (cr_name (fst b))))"

definition initial_verdicts ::
    "(string \<Rightarrow> string \<Rightarrow> int) \<Rightarrow> candidate_route list \<Rightarrow> selection_context \<Rightarrow> route_verdict list" where
  "initial_verdicts lc routes ctx =
     (let matchedIds = set (map (\<lambda>e. cr_id (fst e)) (matched_routes routes ctx))
      in map (\<lambda>r. \<lparr>rv_route = cr_id r, rv_name = cr_name r, rv_priority = cr_priority r,
                   rv_verdict = (if cr_id r \<in> matchedIds then VOutranked else VNoMatch),
                   rv_reason = (if cr_id r \<in> matchedIds then ''Matches'' else whyNotMatched r ctx)\<rparr>)
           (sort_cmp (by_priority lc) routes))"

text \<open>\<open>verdicts.find(...)\<close> and the two assignments to what it found: the first entry only.\<close>

fun mark_winner :: "string \<Rightarrow> route_verdict list \<Rightarrow> route_verdict list" where
  "mark_winner rid [] = []"
| "mark_winner rid (v # vs) =
     (if rv_route v = rid
      then v\<lparr>rv_verdict := VSelected, rv_reason := ''Matches and has the highest specificity''\<rparr> # vs
      else v # mark_winner rid vs)"

definition noMatch :: "trace_step list \<Rightarrow> selection_reason \<Rightarrow> route_verdict list \<Rightarrow> selection_result" where
  "noMatch trace reason candidates =
     \<lparr>sr_smsc = None, sr_route = None, sr_name = None, sr_strategy = None, sr_fallbackUsed = False,
      sr_reason = reason, sr_trace = trace @ [TReason reason], sr_candidates = candidates,
      sr_effect = None\<rparr>"

definition finish ::
    "trace_step list \<Rightarrow> route_verdict list \<Rightarrow> smsc_candidate option \<Rightarrow> candidate_route \<Rightarrow>
     selection_reason \<Rightarrow> selection_result" where
  "finish trace verdicts chosen route reason =
     (case chosen of
        None \<Rightarrow>
          \<lparr>sr_smsc = None, sr_route = Some (cr_id route), sr_name = Some (cr_name route),
           sr_strategy = Some (cr_strategy route), sr_fallbackUsed = False,
           sr_reason = NoAvailableSmsc reason, sr_trace = trace @ [TReason (NoAvailableSmsc reason)],
           sr_candidates = verdicts, sr_effect = Some (effectOf route)\<rparr>
      | Some c \<Rightarrow>
          \<lparr>sr_smsc = Some (sc_smsc c), sr_route = Some (cr_id route), sr_name = Some (cr_name route),
           sr_strategy = Some (cr_strategy route), sr_fallbackUsed = (\<not> sc_primary c),
           sr_reason = reason, sr_trace = trace @ [TSelected (sc_smsc c) reason],
           sr_candidates = verdicts, sr_effect = Some (effectOf route)\<rparr>)"

text \<open>The strategy of the controlling route: the candidate it takes and the reason it gives.\<close>

definition choose_smsc ::
    "(string \<Rightarrow> string \<Rightarrow> int) \<Rightarrow> selection_context \<Rightarrow> candidate_route list \<Rightarrow> candidate_route \<Rightarrow>
     smsc_candidate option \<times> selection_reason" where
  "choose_smsc lc ctx matched controlling =
     (let rotation = coalesce (sx_rotation ctx) 0;
          reachable = (\<lambda>c. isAvailable (Some (sc_smsc c)) ctx);
          available = filter reachable (routeCandidates controlling)
      in case cr_strategy controlling of
           StLeastCost \<Rightarrow>
             (let priced = filter reachable (concat (map routeCandidates matched))
              in if priced = [] then (None, LeastCost None)
                 else let cheapest = hd (sort_cmp (cheapest_first lc) priced)
                      in (Some cheapest, LeastCost (Some (sc_cost cheapest))))
         | StLoadBalance \<Rightarrow>
             (if available = [] then (None, Rotated StLoadBalance None)
              else (Some (weightedPick available rotation), Rotated StLoadBalance (Some rotation)))
         | StRoundRobin \<Rightarrow>
             (if available = [] then (None, Rotated StRoundRobin None)
              else (Some (available ! nat (js_index rotation (int (length available)))),
                    Rotated StRoundRobin (Some rotation)))
         | _ \<Rightarrow>
             (let candidates = routeCandidates controlling
              in case find sc_primary candidates of
                   Some primary \<Rightarrow>
                     if reachable primary then (Some primary, PrimaryTarget)
                     else (case find (\<lambda>c. \<not> sc_primary c \<and> reachable c) candidates of
                             Some fb \<Rightarrow> (Some fb, UsingFallback)
                           | None \<Rightarrow> (None, PrimaryAndFallbackUnavailable))
                 | None \<Rightarrow>
                     (case find (\<lambda>c. \<not> sc_primary c \<and> reachable c) candidates of
                        Some fb \<Rightarrow> (Some fb, UsingFallback)
                      | None \<Rightarrow> (None, PrimaryAndFallbackUnavailable))))"

definition selectRoute ::
    "(string \<Rightarrow> string \<Rightarrow> int) \<Rightarrow> candidate_route list \<Rightarrow> selection_context \<Rightarrow> selection_result" where
  "selectRoute lc routes ctx =
     (let digits = digitsOnly (Some (sx_msisdn ctx));
          trace0 = [TDestination (sx_msisdn ctx) digits]
      in if digits = [] then noMatch trace0 NoDialableDigits []
         else
           let matched = matched_routes routes ctx;
               verdicts = initial_verdicts lc routes ctx
           in if matched = [] then noMatch trace0 NoRouteMatched verdicts
              else
                let ranked = sort_cmp (by_specificity lc) matched;
                    controlling = fst (hd ranked);
                    marked = mark_winner (cr_id controlling) verdicts;
                    trace = trace0 @ [TMatched (length matched),
                      TControlling (cr_name controlling) (cr_type controlling)
                        (cr_priority controlling) (cr_strategy controlling)];
                    choice = choose_smsc lc ctx (map fst ranked) controlling
                in finish trace marked (fst choice) controlling (snd choice))"

subsection \<open>Lemmas\<close>

lemma whyNotMatched_nonempty:
  "whyNotMatched r ctx = [] \<longleftrightarrow> eligible ctx r"
proof (cases "matchSpecificity r ctx = None")
  case True
  then have "whyNotMatched r ctx \<noteq> []"
    by (auto simp: whyNotMatched_def Let_def split: route_type.split)
  with True show ?thesis by (simp add: eligible_def)
next
  case False
  then have "\<not> (truthy (cr_sender r)
      \<and> \<not> matchesWildcard (Some (coalesce (sx_sender ctx) [])) (the (cr_sender r)) False)"
    by (auto simp: matchSpecificity_def Let_def split: if_splits)
  then have "whyNotMatched r ctx =
     (if \<not> cr_enabled r then ''Route is disabled''
      else if cr_window r \<noteq> None \<and> \<not> isWithinWindow (cr_window r) (sx_now ctx)
      then ''Outside its time window'' else [])"
    using False by (simp add: whyNotMatched_def)
  with False show ?thesis
    by (cases "cr_window r") (auto simp: eligible_def isWithinWindow_def)
qed

lemma ranking_by_priority [cmp_rules]: "ranking lc \<Longrightarrow> ranking (by_priority lc)"
  unfolding by_priority_def
  by (intro ranking_or ranking_diff) (rule ranking_pull)

lemma ranking_by_specificity [cmp_rules]: "ranking lc \<Longrightarrow> ranking (by_specificity lc)"
  unfolding by_specificity_def
  by (intro ranking_or ranking_diff) (rule ranking_pull)

lemma ranking_cost [cmp_rules]: "ranking cost_cmp"
  by unfold_locales (auto simp: cost_cmp_def split: option.splits if_splits)

lemma ranking_cheapest_first [cmp_rules]: "ranking lc \<Longrightarrow> ranking (cheapest_first lc)"
  unfolding cheapest_first_def
  by (intro ranking_or ranking_cost) (rule ranking_pull)

lemma set_matched_routes:
  "e \<in> set (matched_routes routes ctx) \<longleftrightarrow>
     fst e \<in> set routes \<and> eligible ctx (fst e) \<and> snd e = the (matchSpecificity (fst e) ctx)"
  by (cases e) (auto simp: matched_routes_def)

lemma matched_routes_Nil_iff:
  "matched_routes routes ctx = [] \<longleftrightarrow> (\<forall>r \<in> set routes. \<not> eligible ctx r)"
  by (simp add: matched_routes_def filter_empty_conv)

lemma map_fst_matched_routes: "map fst (matched_routes routes ctx) = filter (eligible ctx) routes"
  by (simp add: matched_routes_def comp_def)

text \<open>The controlling route, and the shape of a result that has one.\<close>

definition controlling_route ::
    "(string \<Rightarrow> string \<Rightarrow> int) \<Rightarrow> candidate_route list \<Rightarrow> selection_context \<Rightarrow> candidate_route" where
  "controlling_route lc routes ctx = fst (hd (sort_cmp (by_specificity lc) (matched_routes routes ctx)))"

definition routable :: "candidate_route list \<Rightarrow> selection_context \<Rightarrow> bool" where
  "routable routes ctx \<longleftrightarrow>
     digitsOnly (Some (sx_msisdn ctx)) \<noteq> [] \<and> (\<exists>r \<in> set routes. eligible ctx r)"

definition smsc_choice ::
    "(string \<Rightarrow> string \<Rightarrow> int) \<Rightarrow> candidate_route list \<Rightarrow> selection_context \<Rightarrow> smsc_candidate option" where
  "smsc_choice lc routes ctx =
     fst (choose_smsc lc ctx (map fst (sort_cmp (by_specificity lc) (matched_routes routes ctx)))
            (controlling_route lc routes ctx))"

lemma selectRoute_routable:
  assumes "routable routes ctx"
  shows "sr_route (selectRoute lc routes ctx) = Some (cr_id (controlling_route lc routes ctx))"
    and "sr_name (selectRoute lc routes ctx) = Some (cr_name (controlling_route lc routes ctx))"
    and "sr_strategy (selectRoute lc routes ctx) = Some (cr_strategy (controlling_route lc routes ctx))"
    and "sr_effect (selectRoute lc routes ctx) = Some (effectOf (controlling_route lc routes ctx))"
    and "sr_smsc (selectRoute lc routes ctx) = map_option sc_smsc (smsc_choice lc routes ctx)"
    and "sr_candidates (selectRoute lc routes ctx)
           = mark_winner (cr_id (controlling_route lc routes ctx)) (initial_verdicts lc routes ctx)"
    and "sr_fallbackUsed (selectRoute lc routes ctx)
           = (case smsc_choice lc routes ctx of None \<Rightarrow> False | Some c \<Rightarrow> \<not> sc_primary c)"
proof -
  have "matched_routes routes ctx \<noteq> []"
    using assms by (auto simp: routable_def matched_routes_Nil_iff)
  with assms have "\<exists>trace reason. selectRoute lc routes ctx =
      finish trace (mark_winner (cr_id (controlling_route lc routes ctx)) (initial_verdicts lc routes ctx))
        (smsc_choice lc routes ctx) (controlling_route lc routes ctx) reason"
    by (simp add: selectRoute_def routable_def Let_def controlling_route_def smsc_choice_def) blast
  then obtain trace reason where r: "selectRoute lc routes ctx =
      finish trace (mark_winner (cr_id (controlling_route lc routes ctx)) (initial_verdicts lc routes ctx))
        (smsc_choice lc routes ctx) (controlling_route lc routes ctx) reason"
    by blast
  show "sr_route (selectRoute lc routes ctx) = Some (cr_id (controlling_route lc routes ctx))"
    "sr_name (selectRoute lc routes ctx) = Some (cr_name (controlling_route lc routes ctx))"
    "sr_strategy (selectRoute lc routes ctx) = Some (cr_strategy (controlling_route lc routes ctx))"
    "sr_effect (selectRoute lc routes ctx) = Some (effectOf (controlling_route lc routes ctx))"
    "sr_smsc (selectRoute lc routes ctx) = map_option sc_smsc (smsc_choice lc routes ctx)"
    "sr_candidates (selectRoute lc routes ctx)
           = mark_winner (cr_id (controlling_route lc routes ctx)) (initial_verdicts lc routes ctx)"
    "sr_fallbackUsed (selectRoute lc routes ctx)
           = (case smsc_choice lc routes ctx of None \<Rightarrow> False | Some c \<Rightarrow> \<not> sc_primary c)"
    unfolding r finish_def by (cases "smsc_choice lc routes ctx"; simp)+
qed

lemma selectRoute_not_routable:
  assumes "\<not> routable routes ctx"
  shows "sr_route (selectRoute lc routes ctx) = None"
    and "sr_smsc (selectRoute lc routes ctx) = None"
    and "sr_effect (selectRoute lc routes ctx) = None"
  using assms
  by (auto simp: selectRoute_def routable_def Let_def noMatch_def matched_routes_Nil_iff)

lemma controlling_route_best:
  assumes "ranking lc" and "routable routes ctx"
  shows "controlling_route lc routes ctx \<in> set routes"
    and "eligible ctx (controlling_route lc routes ctx)"
    and "r \<in> set routes \<Longrightarrow> eligible ctx r \<Longrightarrow>
           by_specificity lc
             (controlling_route lc routes ctx, the (matchSpecificity (controlling_route lc routes ctx) ctx))
             (r, the (matchSpecificity r ctx)) \<le> 0"
proof -
  let ?ms = "matched_routes routes ctx"
  let ?e = "hd (sort_cmp (by_specificity lc) ?ms)"
  have "?ms \<noteq> []" using assms(2) by (auto simp: routable_def matched_routes_Nil_iff)
  then have "?e \<in> set (sort_cmp (by_specificity lc) ?ms)" by (intro hd_in_set) simp
  then have e: "?e \<in> set ?ms" by simp
  then show "controlling_route lc routes ctx \<in> set routes"
    "eligible ctx (controlling_route lc routes ctx)"
    by (simp_all add: set_matched_routes controlling_route_def)
  assume "r \<in> set routes" "eligible ctx r"
  then have "(r, the (matchSpecificity r ctx)) \<in> set ?ms" by (simp add: set_matched_routes)
  from ranking.sort_cmp_hd_least [OF ranking_by_specificity [OF assms(1)] this]
  have "by_specificity lc ?e (r, the (matchSpecificity r ctx)) \<le> 0" .
  moreover have "?e = (controlling_route lc routes ctx,
      the (matchSpecificity (controlling_route lc routes ctx) ctx))"
    using e unfolding set_matched_routes controlling_route_def by (simp add: prod_eq_iff)
  ultimately show "by_specificity lc
             (controlling_route lc routes ctx, the (matchSpecificity (controlling_route lc routes ctx) ctx))
             (r, the (matchSpecificity r ctx)) \<le> 0"
    by simp
qed

subsection \<open>The SMSC that is taken\<close>

lemma target_candidates_not_primary:
  "c \<in> set (target_candidates cost False ts) \<Longrightarrow> \<not> sc_primary c"
  by (induction ts) auto

lemma routeCandidates_tail_not_primary:
  "c \<in> set (tl (routeCandidates r)) \<Longrightarrow> \<not> sc_primary c"
  unfolding routeCandidates_def
  by (cases "filter usable_target (the (cr_targets r))")
    (auto split: if_splits dest: target_candidates_not_primary)

lemma find_Some_in: "find P xs = Some x \<Longrightarrow> x \<in> set xs \<and> P x"
  by (auto simp: find_Some_iff in_set_conv_nth)

lemma find_primary:
  "find sc_primary (routeCandidates r) = Some p \<Longrightarrow> c \<in> set (routeCandidates r) \<Longrightarrow>
     sc_primary c \<Longrightarrow> c = p"
  using routeCandidates_tail_not_primary [of _ r]
  by (cases "routeCandidates r") (auto split: if_splits dest: find_Some_in)

lemma weighted_walk_in: "weighted_walk cs p = Some c \<Longrightarrow> c \<in> set cs"
  by (induction cs p rule: weighted_walk.induct) (auto split: if_splits)

lemma weightedPick_in: "cs \<noteq> [] \<Longrightarrow> weightedPick cs r \<in> set cs"
  unfolding weightedPick_def by (auto split: option.split dest: weighted_walk_in)

definition smsc_pool :: "selection_context \<Rightarrow> candidate_route list \<Rightarrow> candidate_route \<Rightarrow> smsc_candidate list" where
  "smsc_pool ctx matched controlling =
     filter (\<lambda>c. isAvailable (Some (sc_smsc c)) ctx)
       (if cr_strategy controlling = StLeastCost then concat (map routeCandidates matched)
        else routeCandidates controlling)"

lemma round_robin_index: "0 < length xs \<Longrightarrow> nat (js_index r (int (length xs))) < length xs"
  by (simp add: nat_less_iff)

lemma choose_primary_fallback:
  fixes ctx :: selection_context
  defines "reach \<equiv> \<lambda>c. isAvailable (Some (sc_smsc c)) ctx"
  assumes "cr_strategy r = StPriority \<or> cr_strategy r = StTimeBased"
  shows "fst (choose_smsc lc ctx ms r) =
    (case find (\<lambda>c. sc_primary c \<and> reach c) (routeCandidates r) of
       Some p \<Rightarrow> Some p | None \<Rightarrow> find reach (routeCandidates r))"
proof -
  let ?cs = "routeCandidates r"
  have both: "find (\<lambda>c. sc_primary c \<and> reach c) ?cs =
      (case find sc_primary ?cs of None \<Rightarrow> None | Some p \<Rightarrow> if reach p then Some p else None)"
  proof (cases "find sc_primary ?cs")
    case None
    then have "find (\<lambda>c. sc_primary c \<and> reach c) ?cs = None" by (auto simp: find_None_iff)
    with None show ?thesis by simp
  next
    case (Some p)
    then have "c \<in> set ?cs \<Longrightarrow> sc_primary c \<longleftrightarrow> c = p" for c
      using find_primary find_Some_in [OF Some] by blast
    then have "find (\<lambda>c. sc_primary c \<and> reach c) ?cs = find (\<lambda>c. c = p \<and> reach p) ?cs"
      by (intro find_cong) auto
    also have "\<dots> = (if reach p then Some p else None)"
      using find_Some_in [OF Some] by (auto simp: find_Some_iff2 find_None_iff split: if_splits)
        (metis (mono_tags, lifting) find_None_iff find_Some_in not_Some_eq)
    finally show ?thesis using Some by simp
  qed
  have rest: "find (\<lambda>c. \<not> sc_primary c \<and> reach c) ?cs = find reach ?cs"
    if "find (\<lambda>c. sc_primary c \<and> reach c) ?cs = None"
    using that by (intro find_cong) (auto simp: find_None_iff)
  show ?thesis
    using assms(2) both rest
    by (auto simp: choose_smsc_def Let_def reach_def split: option.splits if_splits)
qed

lemma choose_smsc_sound:
  assumes "fst (choose_smsc lc ctx ms r) = Some c"
  shows "c \<in> set (smsc_pool ctx ms r)"
proof -
  let ?reach = "\<lambda>c. isAvailable (Some (sc_smsc c)) ctx"
  have fb: "find P xs = Some x \<Longrightarrow> x \<in> set xs" for P xs and x :: smsc_candidate
    using find_Some_in by metis
  show ?thesis
  proof (cases "cr_strategy r")
    case StLeastCost
    let ?p = "filter ?reach (concat (map routeCandidates ms))"
    from StLeastCost assms have "?p \<noteq> []" and c: "c = hd (sort_cmp (cheapest_first lc) ?p)"
      by (auto simp: choose_smsc_def Let_def split: if_splits)
    then have "c \<in> set (sort_cmp (cheapest_first lc) ?p)" by (metis hd_in_set sort_cmp_eq_Nil_iff)
    with StLeastCost show ?thesis by (simp add: smsc_pool_def)
  next
    case StLoadBalance
    with assms show ?thesis
      using weightedPick_in [of "filter ?reach (routeCandidates r)"]
      by (auto simp: choose_smsc_def smsc_pool_def Let_def split: if_splits)
  next
    case StRoundRobin
    let ?a = "filter ?reach (routeCandidates r)"
    from StRoundRobin assms have "?a \<noteq> []"
      and "c = ?a ! nat (js_index (coalesce (sx_rotation ctx) 0) (int (length ?a)))"
      by (auto simp: choose_smsc_def Let_def split: if_splits)
    then have "c \<in> set ?a" by (metis length_greater_0_conv nth_mem round_robin_index)
    with StRoundRobin show ?thesis by (simp add: smsc_pool_def)
  next
    case StPriority
    with assms choose_primary_fallback [of r lc ctx ms] show ?thesis
      by (auto simp: smsc_pool_def split: option.splits dest: find_Some_in)
  next
    case StTimeBased
    with assms choose_primary_fallback [of r lc ctx ms] show ?thesis
      by (auto simp: smsc_pool_def split: option.splits dest: find_Some_in)
  qed
qed

lemma choose_smsc_None_iff:
  "fst (choose_smsc lc ctx ms r) = None \<longleftrightarrow> smsc_pool ctx ms r = []"
proof (cases "cr_strategy r = StPriority \<or> cr_strategy r = StTimeBased")
  case True
  let ?reach = "\<lambda>c. isAvailable (Some (sc_smsc c)) ctx"
  have "smsc_pool ctx ms r = filter ?reach (routeCandidates r)"
    using True by (auto simp: smsc_pool_def)
  moreover have "fst (choose_smsc lc ctx ms r) = None \<longleftrightarrow> find ?reach (routeCandidates r) = None"
  proof (cases "find (\<lambda>c. sc_primary c \<and> ?reach c) (routeCandidates r)")
    case None
    with choose_primary_fallback [OF True, of lc ctx ms] show ?thesis by simp
  next
    case (Some p)
    then have "find ?reach (routeCandidates r) \<noteq> None"
      using find_Some_in [OF Some] by (auto simp: find_None_iff)
    with Some choose_primary_fallback [OF True, of lc ctx ms] show ?thesis by simp
  qed
  ultimately show ?thesis by (auto simp: find_None_iff filter_empty_conv)
next
  case False
  then show ?thesis
    by (cases "cr_strategy r") (auto simp: choose_smsc_def smsc_pool_def Let_def split: if_splits)
qed

subsection \<open>Fairness of the rotating strategies\<close>

definition weighted_cycle :: "smsc_candidate list \<Rightarrow> smsc_candidate list" where
  "weighted_cycle cs = concat (map (\<lambda>c. replicate (nat (sc_weight c)) c) cs)"

lemma length_weighted_cycle: "int (length (weighted_cycle cs)) = total_weight cs"
  by (induction cs) (auto simp: weighted_cycle_def total_weight_def)

lemma weighted_walk_cycle:
  "p < length (weighted_cycle cs) \<Longrightarrow> weighted_walk cs (int p) = Some (weighted_cycle cs ! p)"
proof (induction cs arbitrary: p)
  case Nil
  then show ?case by (simp add: weighted_cycle_def)
next
  case (Cons c cs)
  define w where "w = nat (sc_weight c)"
  have cyc: "weighted_cycle (c # cs) = replicate w c @ weighted_cycle cs"
    by (simp add: weighted_cycle_def w_def)
  have m: "max (sc_weight c) 0 = int w" by (simp add: w_def)
  show ?case
  proof (cases "p < w")
    case True
    then show ?thesis unfolding weighted_walk.simps m cyc by (simp add: nth_append)
  next
    case False
    then have "p - w < length (weighted_cycle cs)" using Cons.prems by (simp add: cyc)
    from Cons.IH [OF this] False show ?thesis
      unfolding weighted_walk.simps m cyc by (simp add: nth_append of_nat_diff)
  qed
qed

lemma weightedPick_cycle:
  assumes "0 < total_weight cs"
  shows "weightedPick cs r = weighted_cycle cs ! nat (r mod total_weight cs)"
proof -
  let ?p = "nat (r mod total_weight cs)"
  have p: "int ?p = r mod total_weight cs" using assms by simp
  have "int ?p < int (length (weighted_cycle cs))"
    unfolding p length_weighted_cycle using assms by simp
  then have "?p < length (weighted_cycle cs)" by (simp only: of_nat_less_iff)
  then have "weighted_walk cs (int ?p) = Some (weighted_cycle cs ! ?p)"
    by (rule weighted_walk_cycle)
  with assms p show ?thesis by (simp add: weightedPick_def)
qed

lemma weightedPick_full_cycle:
  assumes "0 < total_weight cs"
  shows "map (\<lambda>k. weightedPick cs (b * total_weight cs + int k)) [0..<nat (total_weight cs)]
    = weighted_cycle cs"
proof (rule nth_equalityI)
  show "length (map (\<lambda>k. weightedPick cs (b * total_weight cs + int k)) [0..<nat (total_weight cs)])
      = length (weighted_cycle cs)"
    using length_weighted_cycle [of cs] by simp
next
  fix k assume "k < length (map (\<lambda>k. weightedPick cs (b * total_weight cs + int k))
      [0..<nat (total_weight cs)])"
  then have "int k < total_weight cs" by simp
  then have "(b * total_weight cs + int k) mod total_weight cs = int k" by simp
  with \<open>int k < total_weight cs\<close> assms show "map (\<lambda>k. weightedPick cs (b * total_weight cs + int k))
      [0..<nat (total_weight cs)] ! k = weighted_cycle cs ! k"
    by (simp add: weightedPick_cycle)
qed

text \<open>Only the rotation of the context changes from message to message.\<close>

definition at_rotation :: "selection_context \<Rightarrow> int \<Rightarrow> selection_context" where
  "at_rotation ctx k = ctx\<lparr>sx_rotation := Some k\<rparr>"

lemma at_rotation_simps [simp]:
  "sx_msisdn (at_rotation ctx k) = sx_msisdn ctx"
  "sx_sender (at_rotation ctx k) = sx_sender ctx"
  "sx_operator (at_rotation ctx k) = sx_operator ctx"
  "sx_now (at_rotation ctx k) = sx_now ctx"
  "sx_available (at_rotation ctx k) = sx_available ctx"
  "sx_rotation (at_rotation ctx k) = Some k"
  by (simp_all add: at_rotation_def)

lemma matchSpecificity_rotation [simp]:
  "matchSpecificity r (at_rotation ctx k) = matchSpecificity r ctx"
  unfolding matchSpecificity_def at_rotation_simps by (rule refl)

lemma eligible_rotation [simp]: "eligible (at_rotation ctx k) = eligible ctx"
  by (rule ext) (simp add: eligible_def)

lemma matched_routes_rotation [simp]:
  "matched_routes routes (at_rotation ctx k) = matched_routes routes ctx"
  by (simp add: matched_routes_def)

lemma routable_rotation [simp]: "routable routes (at_rotation ctx k) = routable routes ctx"
  by (simp add: routable_def)

lemma controlling_rotation [simp]:
  "controlling_route lc routes (at_rotation ctx k) = controlling_route lc routes ctx"
  by (simp add: controlling_route_def)

lemma isAvailable_rotation [simp]: "isAvailable s (at_rotation ctx k) = isAvailable s ctx"
  by (simp add: isAvailable_def)

definition available_candidates :: "selection_context \<Rightarrow> candidate_route \<Rightarrow> smsc_candidate list" where
  "available_candidates ctx r = filter (\<lambda>c. isAvailable (Some (sc_smsc c)) ctx) (routeCandidates r)"

lemma smsc_choice_load_balance:
  assumes "cr_strategy (controlling_route lc routes ctx) = StLoadBalance"
    and "available_candidates ctx (controlling_route lc routes ctx) \<noteq> []"
  shows "smsc_choice lc routes (at_rotation ctx k)
    = Some (weightedPick (available_candidates ctx (controlling_route lc routes ctx)) k)"
  using assms by (simp add: smsc_choice_def choose_smsc_def available_candidates_def Let_def)

lemma smsc_choice_round_robin:
  assumes "cr_strategy (controlling_route lc routes ctx) = StRoundRobin"
    and "available_candidates ctx (controlling_route lc routes ctx) \<noteq> []"
  shows "smsc_choice lc routes (at_rotation ctx k)
    = Some (available_candidates ctx (controlling_route lc routes ctx)
        ! nat (k mod int (length (available_candidates ctx (controlling_route lc routes ctx)))))"
  using assms
  by (simp add: smsc_choice_def choose_smsc_def available_candidates_def Let_def)

lemma round_robin_full_cycle:
  "map (\<lambda>k. xs ! nat ((b * int (length xs) + int k) mod int (length xs))) [0..<length xs] = xs"
  by (rule nth_equalityI) simp_all

lemma target_candidates_weights:
  "c \<in> set (target_candidates cost f ts) \<Longrightarrow> \<exists>t \<in> set ts. sc_weight c = tg_weight t"
  by (induction ts arbitrary: f) auto

lemma routeCandidates_weights:
  assumes "c \<in> set (routeCandidates r)"
  shows "0 < sc_weight c"
proof (cases "cr_type r = RtWeighted \<and> coalesce (cr_targets r) [] \<noteq> []")
  case True
  with assms obtain t where "t \<in> set (filter usable_target (the (cr_targets r)))"
      and "sc_weight c = tg_weight t"
    unfolding routeCandidates_def by (auto dest: target_candidates_weights)
  then show ?thesis by (simp add: usable_target_def)
next
  case False
  with assms show ?thesis unfolding routeCandidates_def by (auto split: if_splits)
qed

lemma total_weight_pos:
  "cs \<noteq> [] \<Longrightarrow> (\<And>c. c \<in> set cs \<Longrightarrow> 0 < sc_weight c) \<Longrightarrow> 0 < total_weight cs"
proof (induction cs)
  case (Cons c cs)
  have "0 \<le> total_weight cs" unfolding total_weight_def by (rule sum_list_nonneg) auto
  moreover have "0 < sc_weight c" using Cons.prems(2) by simp
  moreover have "total_weight (c # cs) = max (sc_weight c) 0 + total_weight cs"
    by (simp add: total_weight_def)
  ultimately show ?case by linarith
qed simp

subsection \<open>Verdicts\<close>

lemma mark_winner_map:
  "distinct (map rv_route vs) \<Longrightarrow> mark_winner rid vs =
     map (\<lambda>v. if rv_route v = rid
           then v\<lparr>rv_verdict := VSelected, rv_reason := ''Matches and has the highest specificity''\<rparr>
           else v) vs"
proof (induction vs)
  case (Cons v vs)
  show ?case
  proof (cases "rv_route v = rid")
    case True
    with Cons.prems have "rid \<notin> rv_route ` set vs" by simp
    then have "\<forall>w \<in> set vs. rv_route w \<noteq> rid" by blast
    then have "map (\<lambda>v. if rv_route v = rid
           then v\<lparr>rv_verdict := VSelected, rv_reason := ''Matches and has the highest specificity''\<rparr>
           else v) vs = vs"
      by (intro map_idI) simp
    with True show ?thesis by simp
  next
    case False
    with Cons show ?thesis by simp
  qed
qed simp

definition verdict_of :: "candidate_route \<Rightarrow> selection_context \<Rightarrow> candidate_route \<Rightarrow> route_verdict" where
  "verdict_of best ctx r =
     \<lparr>rv_route = cr_id r, rv_name = cr_name r, rv_priority = cr_priority r,
      rv_verdict = (if r = best then VSelected else if eligible ctx r then VOutranked else VNoMatch),
      rv_reason = (if r = best then ''Matches and has the highest specificity''
                   else if eligible ctx r then ''Matches'' else whyNotMatched r ctx)\<rparr>"

lemma selectRoute_verdicts:
  assumes "ranking lc" and "distinct (map cr_id routes)" and "routable routes ctx"
  shows "sr_candidates (selectRoute lc routes ctx)
    = map (verdict_of (controlling_route lc routes ctx) ctx) (sort_cmp (by_priority lc) routes)"
proof -
  let ?c = "controlling_route lc routes ctx"
  let ?sorted = "sort_cmp (by_priority lc) routes"
  have inj: "r \<in> set routes \<Longrightarrow> r' \<in> set routes \<Longrightarrow> cr_id r = cr_id r' \<longleftrightarrow> r = r'" for r r'
    using assms(2) by (auto simp: distinct_map inj_on_def)
  have el: "cr_id r \<in> set (map (\<lambda>e. cr_id (fst e)) (matched_routes routes ctx)) \<longleftrightarrow> eligible ctx r"
    if "r \<in> set routes" for r
    using that inj by (auto simp: matched_routes_def)
  have "map rv_route (initial_verdicts lc routes ctx) = map cr_id ?sorted"
    by (simp add: initial_verdicts_def Let_def comp_def)
  moreover have "distinct (map cr_id ?sorted)"
    using assms(2) mset_eq_imp_distinct_iff [of "map cr_id ?sorted" "map cr_id routes"] by simp
  ultimately have "distinct (map rv_route (initial_verdicts lc routes ctx))" by simp
  note mark = mark_winner_map [OF this]
  have best: "?c \<in> set routes" "eligible ctx ?c"
    using controlling_route_best [OF assms(1,3)] by simp_all
  show ?thesis
    unfolding selectRoute_routable(6) [OF assms(3)] mark
    using best inj el
    by (auto simp: initial_verdicts_def Let_def verdict_of_def comp_def)
qed

subsection \<open>Properties\<close>

text \<open>Code-unit order: one comparator that \<open>localeCompare\<close> may be, used by the witnesses.\<close>

definition code_unit_compare :: "string \<Rightarrow> string \<Rightarrow> int" where
  "code_unit_compare = cmp_key (\<lambda>s. s)"

lemma ranking_code_unit_compare: "ranking code_unit_compare"
  unfolding code_unit_compare_def by (rule ranking_key)

definition sample_route :: "string \<Rightarrow> route_type \<Rightarrow> selection_strategy \<Rightarrow> string \<Rightarrow> candidate_route" where
  "sample_route rid ty st pre =
     \<lparr>cr_id = rid, cr_name = rid, cr_priority = 10, cr_enabled = True, cr_type = ty, cr_strategy = st,
      cr_matchPrefix = Some pre, cr_countryCode = None, cr_operator = None, cr_destinationPrefix = None,
      cr_sender = None, cr_cost = Some 1, cr_target = ''b'', cr_fallback = Some ''a'', cr_targets = None,
      cr_window = None, cr_action = None, cr_overrideSender = None, cr_overrideRecipient = None,
      cr_overrideText = None, cr_dropReason = None\<rparr>"

definition sample_context :: selection_context where
  "sample_context =
     \<lparr>sx_msisdn = ''+256 77 1'', sx_sender = None, sx_operator = None,
      sx_now = \<lparr>lt_day = 1, lt_hours = 9, lt_minutes = 0\<rparr>, sx_available = None, sx_rotation = None\<rparr>"

lemma eligible_sample:
  "eligible sample_context (sample_route rid RtPrefix st ''25677'')"
  by (simp add: eligible_def sample_route_def isWithinWindow_def matchSpecificity_def Let_def
      sample_context_def prefix_specificity_def digitsOnly_def is_digit_def char_code_def)

lemma routable_sample:
  "routable [sample_route rid RtPrefix st ''25677''] sample_context"
  using eligible_sample [of rid st]
  by (simp add: routable_def sample_context_def digitsOnly_def is_digit_def char_code_def)

text \<open>
  C12. The controlling route: whenever the selector names a route, that route is one of the
  candidates, it is eligible (enabled, inside its window, matching the destination and the
  sender), no eligible route is more specific, and none of the same specificity has a lower
  priority number or, at the same priority, an earlier name; the effect returned is that
  route's own.
\<close>

theorem selectRoute_controlling:
  assumes "ranking lc" and "sr_route (selectRoute lc routes ctx) = Some rid"
  shows "\<exists>r. r \<in> set routes \<and> cr_id r = rid \<and> eligible ctx r
    \<and> sr_effect (selectRoute lc routes ctx) = Some (effectOf r)
    \<and> (\<forall>r' \<in> set routes. eligible ctx r' \<longrightarrow>
          the (matchSpecificity r' ctx) < the (matchSpecificity r ctx)
          \<or> matchSpecificity r' ctx = matchSpecificity r ctx
            \<and> (cr_priority r < cr_priority r'
               \<or> cr_priority r = cr_priority r' \<and> lc (cr_name r) (cr_name r') \<le> 0))"
proof -
  let ?c = "controlling_route lc routes ctx"
  have rt: "routable routes ctx"
    using assms(2) selectRoute_not_routable(1) by fastforce
  note best = controlling_route_best [OF assms(1) rt]
  have order: "the (matchSpecificity r' ctx) < the (matchSpecificity ?c ctx)
      \<or> matchSpecificity r' ctx = matchSpecificity ?c ctx
        \<and> (cr_priority ?c < cr_priority r'
           \<or> cr_priority ?c = cr_priority r' \<and> lc (cr_name ?c) (cr_name r') \<le> 0)"
    if r': "r' \<in> set routes" "eligible ctx r'" for r'
  proof -
    have some: "matchSpecificity r' ctx \<noteq> None" "matchSpecificity ?c ctx \<noteq> None"
      using r' best(2) by (simp_all add: eligible_def)
    from best(3) [OF r'] have "the (matchSpecificity r' ctx) < the (matchSpecificity ?c ctx)
      \<or> the (matchSpecificity r' ctx) = the (matchSpecificity ?c ctx)
        \<and> (cr_priority ?c < cr_priority r'
           \<or> cr_priority ?c = cr_priority r' \<and> lc (cr_name ?c) (cr_name r') \<le> 0)"
      by (auto simp: by_specificity_def cmp_or_def cmp_diff_def split: if_splits)
    with some show ?thesis by (auto simp: option.expand)
  qed
  have "cr_id ?c = rid" using assms(2) selectRoute_routable(1) [OF rt, of lc] by simp
  with best(1,2) order selectRoute_routable(4) [OF rt, of lc] show ?thesis by blast
qed

theorem selectRoute_controlling_witness:
  "\<exists>r. r \<in> {sample_route ''r1'' RtPrefix StPriority ''25677''} \<and> cr_id r = ''r1''
     \<and> eligible sample_context r"
proof -
  let ?rs = "[sample_route ''r1'' RtPrefix StPriority ''25677'']"
  have rt: "routable ?rs sample_context" by (rule routable_sample)
  have "controlling_route code_unit_compare ?rs sample_context \<in> set ?rs"
    by (rule controlling_route_best [OF ranking_code_unit_compare rt])
  then have "sr_route (selectRoute code_unit_compare ?rs sample_context) = Some ''r1''"
    using selectRoute_routable(1) [OF rt] by (simp add: sample_route_def)
  from selectRoute_controlling [OF ranking_code_unit_compare this] show ?thesis by auto
qed

lemma set_smsc_pool_cong:
  "set ms = set ms' \<Longrightarrow> set (smsc_pool ctx ms r) = set (smsc_pool ctx ms' r)"
  by (simp add: smsc_pool_def)

text \<open>
  Where a message goes: an SMSC is taken exactly when the destination is routable and the
  pool of the controlling route's strategy (its own reachable candidates; for least-cost those
  of every matching route) is not empty, and what is taken belongs to that pool. A routable
  message is therefore never left without an SMSC while one of the pool is reachable.
\<close>

theorem selectRoute_smsc:
  assumes "ranking lc"
  shows "case sr_smsc (selectRoute lc routes ctx) of
     None \<Rightarrow> \<not> routable routes ctx
        \<or> smsc_pool ctx (filter (eligible ctx) routes) (controlling_route lc routes ctx) = []
   | Some s \<Rightarrow> routable routes ctx \<and> isAvailable (Some s) ctx
        \<and> (\<exists>c. c \<in> set (smsc_pool ctx (filter (eligible ctx) routes) (controlling_route lc routes ctx))
               \<and> sc_smsc c = s)"
proof (cases "routable routes ctx")
  case False
  then show ?thesis by (simp add: selectRoute_not_routable)
next
  case True
  let ?c = "controlling_route lc routes ctx"
  let ?ms = "map fst (sort_cmp (by_specificity lc) (matched_routes routes ctx))"
  have "set ?ms = set (filter (eligible ctx) routes)"
    using map_fst_matched_routes [of routes ctx] by (metis set_map set_sort_cmp)
  then have pool: "set (smsc_pool ctx ?ms ?c) = set (smsc_pool ctx (filter (eligible ctx) routes) ?c)"
    by (rule set_smsc_pool_cong)
  show ?thesis
  proof (cases "smsc_choice lc routes ctx")
    case None
    then have "smsc_pool ctx ?ms ?c = []" by (simp add: smsc_choice_def choose_smsc_None_iff)
    with pool None show ?thesis by (simp add: selectRoute_routable(5) [OF True])
  next
    case (Some c)
    then have "c \<in> set (smsc_pool ctx ?ms ?c)"
      unfolding smsc_choice_def by (rule choose_smsc_sound)
    with pool Some True show ?thesis
      by (auto simp: selectRoute_routable(5) [OF True] smsc_pool_def)
  qed
qed

theorem selectRoute_smsc_witness:
  "\<exists>c. c \<in> set (smsc_pool sample_context
        (filter (eligible sample_context) [sample_route ''r1'' RtPrefix StPriority ''25677''])
        (controlling_route code_unit_compare [sample_route ''r1'' RtPrefix StPriority ''25677''] sample_context))
     \<and> sc_smsc c = ''b''"
proof -
  have "sr_smsc (selectRoute code_unit_compare [sample_route ''r1'' RtPrefix StPriority ''25677'']
      sample_context) = Some ''b''"
    by code_simp
  with selectRoute_smsc [OF ranking_code_unit_compare,
      of "[sample_route ''r1'' RtPrefix StPriority ''25677'']" sample_context]
  show ?thesis by simp
qed

text \<open>
  Least cost: when the controlling route's strategy is least-cost, the SMSC taken is the
  cheapest reachable one across all matching routes; an unpriced one is taken only when none
  is priced.
\<close>

theorem selectRoute_least_cost:
  assumes "ranking lc" and "cr_strategy (controlling_route lc routes ctx) = StLeastCost"
    and "sr_smsc (selectRoute lc routes ctx) = Some s"
  shows "\<exists>c. sc_smsc c = s \<and> (\<exists>r. r \<in> set routes \<and> eligible ctx r \<and> c \<in> set (routeCandidates r))
    \<and> (\<forall>r \<in> set routes. \<forall>d \<in> set (routeCandidates r).
          eligible ctx r \<and> isAvailable (Some (sc_smsc d)) ctx \<longrightarrow>
          (case (sc_cost c, sc_cost d) of
             (_, None) \<Rightarrow> True | (None, Some _) \<Rightarrow> False | (Some x, Some y) \<Rightarrow> x \<le> y))"
proof -
  let ?ms = "map fst (sort_cmp (by_specificity lc) (matched_routes routes ctx))"
  let ?p = "filter (\<lambda>c. isAvailable (Some (sc_smsc c)) ctx) (concat (map routeCandidates ?ms))"
  let ?c = "hd (sort_cmp (cheapest_first lc) ?p)"
  have ms: "set ?ms = {r \<in> set routes. eligible ctx r}"
    using map_fst_matched_routes [of routes ctx] by (metis set_filter set_map set_sort_cmp)
  have rt: "routable routes ctx"
    using assms(3) selectRoute_not_routable(2) by fastforce
  from assms(3) obtain c where c: "smsc_choice lc routes ctx = Some c" "sc_smsc c = s"
    by (auto simp: selectRoute_routable(5) [OF rt])
  from c(1) assms(2) have ne: "?p \<noteq> []" and ceq: "c = ?c"
    by (auto simp: smsc_choice_def choose_smsc_def Let_def split: if_splits)
  have "c \<in> set (sort_cmp (cheapest_first lc) ?p)" unfolding ceq using ne by (intro hd_in_set) simp
  then have "c \<in> set ?p" by simp
  then have own: "\<exists>r. r \<in> set routes \<and> eligible ctx r \<and> c \<in> set (routeCandidates r)"
    using ms by auto
  have least: "cost_cmp c d \<le> 0" if "d \<in> set ?p" for d
    using ranking.sort_cmp_hd_least [OF ranking_cheapest_first [OF assms(1)] that]
    unfolding ceq cheapest_first_def cmp_or_def by (auto split: if_splits)
  have "case (sc_cost c, sc_cost d) of
      (_, None) \<Rightarrow> True | (None, Some _) \<Rightarrow> False | (Some x, Some y) \<Rightarrow> x \<le> y"
    if "r \<in> set routes" "d \<in> set (routeCandidates r)" "eligible ctx r"
      "isAvailable (Some (sc_smsc d)) ctx" for r d
  proof -
    from that(1,3) have "r \<in> set ?ms" unfolding ms by simp
    then have "d \<in> set (concat (map routeCandidates ?ms))"
      using that(2) unfolding set_concat set_map [of routeCandidates] by blast
    with that(4) have "d \<in> set ?p" by (simp only: set_filter mem_Collect_eq)
    from least [OF this] show ?thesis
      by (cases "sc_cost c"; cases "sc_cost d") (auto simp: cost_cmp_def split: if_splits)
  qed
  with c(2) own show ?thesis by blast
qed

theorem selectRoute_least_cost_witness:
  "\<exists>c. sc_smsc c = ''a'' \<and> c \<in> set (routeCandidates (sample_route ''r1'' RtPrefix StLeastCost ''25677''))"
proof -
  let ?rs = "[sample_route ''r1'' RtPrefix StLeastCost ''25677'']"
  have "cr_strategy (controlling_route code_unit_compare ?rs sample_context) = StLeastCost"
    by code_simp
  moreover have "sr_smsc (selectRoute code_unit_compare ?rs sample_context) = Some ''a''" by code_simp
  ultimately show ?thesis
    using selectRoute_least_cost [OF ranking_code_unit_compare, of ?rs sample_context "''a''"] by auto
qed

text \<open>
  C30. Load balancing is exactly weighted: over one full cycle of the rotation counter, from any
  multiple of the total weight, the messages of a load-balanced route go to its reachable
  targets in order, each as many times in a row as its weight says; every weight is positive,
  so no reachable target starves. The round-robin strategy takes each reachable candidate once.
\<close>

theorem selectRoute_rotation_fair:
  assumes "routable routes ctx"
    and "cs = available_candidates ctx (controlling_route lc routes ctx)" and "cs \<noteq> []"
  shows "(cr_strategy (controlling_route lc routes ctx) = StLoadBalance \<longrightarrow>
       map (\<lambda>k. sr_smsc (selectRoute lc routes (at_rotation ctx (b * total_weight cs + int k))))
         [0..<nat (total_weight cs)]
       = map (Some \<circ> sc_smsc) (concat (map (\<lambda>c. replicate (nat (sc_weight c)) c) cs)))
    \<and> (cr_strategy (controlling_route lc routes ctx) = StRoundRobin \<longrightarrow>
       map (\<lambda>k. sr_smsc (selectRoute lc routes (at_rotation ctx (b * int (length cs) + int k))))
         [0..<length cs]
       = map (Some \<circ> sc_smsc) cs)
    \<and> list_all (\<lambda>c. 0 < sc_weight c) cs"
proof (intro conjI impI)
  have pos: "\<And>c. c \<in> set cs \<Longrightarrow> 0 < sc_weight c"
    using assms(2) by (auto simp: available_candidates_def dest: routeCandidates_weights)
  then show "list_all (\<lambda>c. 0 < sc_weight c) cs" by (simp add: list_all_iff)
  have smsc: "sr_smsc (selectRoute lc routes (at_rotation ctx k))
      = map_option sc_smsc (smsc_choice lc routes (at_rotation ctx k))" for k
    using assms(1) by (intro selectRoute_routable(5)) simp
  {
    assume lb: "cr_strategy (controlling_route lc routes ctx) = StLoadBalance"
    have "0 < total_weight cs" using assms(3) pos by (rule total_weight_pos)
    from arg_cong [OF weightedPick_full_cycle [OF this, of b], of "map (Some \<circ> sc_smsc)"]
    show "map (\<lambda>k. sr_smsc (selectRoute lc routes (at_rotation ctx (b * total_weight cs + int k))))
         [0..<nat (total_weight cs)]
       = map (Some \<circ> sc_smsc) (concat (map (\<lambda>c. replicate (nat (sc_weight c)) c) cs))"
      using smsc_choice_load_balance [OF lb] assms(2,3)
      by (simp add: smsc weighted_cycle_def comp_def)
  next
    assume rr: "cr_strategy (controlling_route lc routes ctx) = StRoundRobin"
    show "map (\<lambda>k. sr_smsc (selectRoute lc routes (at_rotation ctx (b * int (length cs) + int k))))
         [0..<length cs] = map (Some \<circ> sc_smsc) cs"
      using arg_cong [OF round_robin_full_cycle [of cs b], of "map (Some \<circ> sc_smsc)"]
        smsc_choice_round_robin [OF rr] assms(2,3)
      by (simp add: smsc comp_def)
  }
qed

theorem selectRoute_rotation_fair_witness:
  "map (\<lambda>k. sr_smsc (selectRoute code_unit_compare [sample_route ''r1'' RtPrefix StRoundRobin ''25677'']
       (at_rotation sample_context (int k)))) [0..<2] = [Some ''b'', Some ''a'']"
proof -
  let ?rs = "[sample_route ''r1'' RtPrefix StRoundRobin ''25677'']"
  let ?c = "controlling_route code_unit_compare ?rs sample_context"
  have rt: "routable ?rs sample_context" by (rule routable_sample)
  have c: "?c = sample_route ''r1'' RtPrefix StRoundRobin ''25677''"
    using controlling_route_best(1) [OF ranking_code_unit_compare rt] by simp
  have cs: "available_candidates sample_context ?c = routeCandidates ?c"
    unfolding c by (simp add: available_candidates_def routeCandidates_def sample_route_def
        isAvailable_def sample_context_def)
  have ids: "map sc_smsc (routeCandidates ?c) = [''b'', ''a'']" "length (routeCandidates ?c) = 2"
    unfolding c by (simp_all add: routeCandidates_def sample_route_def)
  then have ne: "routeCandidates ?c \<noteq> []" by auto
  have "cr_strategy ?c = StRoundRobin" unfolding c by (simp add: sample_route_def)
  with selectRoute_rotation_fair [OF rt cs [symmetric] ne, of 0] ids
  show ?thesis by (simp flip: map_map)
qed

text \<open>
  The verdict list tells the truth about the selection: for routes with distinct ids, it
  holds one entry per route in (priority, name) order; exactly the controlling route is
  selected, the other eligible routes are outranked, and every other route has no match; and
  the explanation computed for a route is empty exactly when the route was eligible.
\<close>

theorem selectRoute_verdicts_truthful:
  assumes "ranking lc" and "distinct (map cr_id routes)" and "routable routes ctx"
  shows "sr_candidates (selectRoute lc routes ctx)
      = map (verdict_of (controlling_route lc routes ctx) ctx) (sort_cmp (by_priority lc) routes)
    \<and> mset (map rv_route (sr_candidates (selectRoute lc routes ctx))) = mset (map cr_id routes)
    \<and> (\<forall>r. whyNotMatched r ctx = [] \<longleftrightarrow> eligible ctx r)
    \<and> controlling_route lc routes ctx \<in> set routes"
  using selectRoute_verdicts [OF assms] controlling_route_best(1) [OF assms(1,3)]
  by (simp add: whyNotMatched_nonempty verdict_of_def comp_def)

theorem selectRoute_verdicts_truthful_witness:
  "mset (map rv_route (sr_candidates (selectRoute code_unit_compare
      [sample_route ''r1'' RtPrefix StPriority ''25677''] sample_context))) = {#''r1''#}"
proof -
  let ?rs = "[sample_route ''r1'' RtPrefix StPriority ''25677'']"
  have ids: "map cr_id ?rs = [''r1'']" by (simp add: sample_route_def)
  have "distinct (map cr_id ?rs)" by simp
  from selectRoute_verdicts_truthful [OF ranking_code_unit_compare this routable_sample]
  have "mset (map rv_route (sr_candidates (selectRoute code_unit_compare ?rs sample_context)))
      = mset (map cr_id ?rs)"
    by blast
  then show ?thesis unfolding ids by simp
qed

subsubsection \<open>Windows\<close>

definition time_at :: "nat \<Rightarrow> nat \<Rightarrow> local_time" where
  "time_at d t = \<lparr>lt_day = d, lt_hours = t div 60, lt_minutes = t mod 60\<rparr>"

lemma current_minute_time_at [simp]: "current_minute (time_at d t) = t"
  by (simp add: current_minute_def time_at_def)

lemma minutesOfDay_less: "minutesOfDay s = Some m \<Longrightarrow> m < 1440"
  by (auto simp: minutesOfDay_def Let_def split: list.splits if_splits)

text \<open>
  A window without weekdays is open for exactly (end - start) modulo 1440 minutes of every
  day, also when it wraps past midnight. In particular a window whose end equals its start is
  never open.
\<close>

theorem isWithinWindow_minutes:
  assumes "minutesOfDay (tw_start w) = Some s" and "minutesOfDay (tw_end w) = Some e"
    and "tw_days w = None"
  shows "card {t. t < 1440 \<and> isWithinWindow (Some w) (time_at d t)} = (e + 1440 - s) mod 1440"
proof -
  have b: "s < 1440" "e < 1440" using assms(1,2) by (auto dest: minutesOfDay_less)
  have "minutesOfDay [] = None" by (simp add: minutesOfDay_def)
  then have ne: "tw_start w \<noteq> []" "tw_end w \<noteq> []" using assms(1,2) by auto
  have open_iff: "isWithinWindow (Some w) (time_at d t)
      \<longleftrightarrow> (if s \<le> e then s \<le> t \<and> t < e else s \<le> t \<or> t < e)" for t
    using assms ne by (simp add: isWithinWindow_def)
  show ?thesis
  proof (cases "s \<le> e")
    case True
    then have "{t. t < 1440 \<and> isWithinWindow (Some w) (time_at d t)} = {s..<e}"
      using b by (auto simp: open_iff)
    moreover have "(e + 1440 - s) mod 1440 = e - s"
      using True b by (simp add: mod_if)
    ultimately show ?thesis by simp
  next
    case False
    then have "{t. t < 1440 \<and> isWithinWindow (Some w) (time_at d t)} = {s..<1440} \<union> {0..<e}"
      using b by (auto simp: open_iff)
    moreover have "card ({s..<1440} \<union> {0..<e}) = (1440 - s) + e"
      using False by (subst card_Un_disjoint) auto
    moreover have "(e + 1440 - s) mod 1440 = (1440 - s) + e"
      using False b by (simp add: mod_if) arith
    ultimately show ?thesis by simp
  qed
qed

theorem isWithinWindow_minutes_witness:
  "card {t. t < 1440 \<and> isWithinWindow (Some \<lparr>tw_start = ''22:00'', tw_end = ''06:00'', tw_days = None\<rparr>)
      (time_at 1 t)} = 480"
proof -
  let ?w = "\<lparr>tw_start = ''22:00'', tw_end = ''06:00'', tw_days = None :: nat list option\<rparr>"
  have "minutesOfDay ''22:00'' = Some 1320" "minutesOfDay ''06:00'' = Some 360" by code_simp+
  then show ?thesis using isWithinWindow_minutes [of ?w 1320 360 1] by simp
qed

subsubsection \<open>Where the comments and the code part\<close>

text \<open>A window with equal ends is announced as wrapping midnight; it never opens.\<close>

theorem equal_ended_window_never_opens:
  "\<not> isWithinWindow (Some \<lparr>tw_start = ''08:00'', tw_end = ''08:00'', tw_days = None\<rparr>) now"
proof -
  have "minutesOfDay ''08:00'' = Some 480" by code_simp
  then show ?thesis by (simp add: isWithinWindow_def Let_def)
qed

text \<open>
  The specificity counts the spaces the matcher trims: a padded catch-all outranks a
  three-digit prefix although it matches every destination.
\<close>

theorem padded_catch_all_is_specific:
  "wildcardSpecificity ''   *'' = 3 \<and> wildcardSpecificity ''25*'' = 2
   \<and> matchesWildcard (Some v) ''   *'' False"
proof -
  have "isValidWildcard ''   *''" "splitAlternatives ''   *'' = [''*'']"
    "wildcardSpecificity ''   *'' = 3" "wildcardSpecificity ''25*'' = 2"
    by code_simp+
  then show ?thesis by (simp add: matchesWildcard_grammar)
qed

text \<open>
  \<open>fallbackUsed\<close> is documented as "the secondary was chosen because the primary was down"; a
  least-cost tie between a reachable primary and a reachable secondary sets it too.
\<close>

theorem fallbackUsed_with_primary_up:
  "let r = selectRoute code_unit_compare [sample_route ''r1'' RtPrefix StLeastCost ''25677''] sample_context
   in sr_smsc r = Some ''a'' \<and> sr_fallbackUsed r \<and> isAvailable (Some ''b'') sample_context"
  by code_simp

end
