(* ===== verification/JsValue.thy ===== *)
theory JsValue
  imports Complex_Main Prelude
begin

section \<open>Values of unknown type\<close>

text \<open>
  Request bodies and query strings reach the validators as values of type \<open>unknown\<close>. This
  theory holds the values a JSON body can hold and the conversions of the language the
  validators rest on: \<open>Number(value)\<close>, \<open>Number.isInteger\<close>, \<open>typeof\<close>. A finite number is an
  exact rational: the rounding of a literal to the nearest double is not modelled.
\<close>

datatype jsnum = NaN | PosInf | NegInf | Fin rat

datatype jsval =
    JUndefined
  | JNull
  | JBool bool
  | JNum jsnum
  | JStr string
  | JArr "jsval list"
  | JObj

definition absent :: "jsval \<Rightarrow> bool" where
  "absent v \<longleftrightarrow> v = JUndefined \<or> v = JNull"

subsection \<open>Number(string)\<close>

definition digit_num :: "char \<Rightarrow> nat" where
  "digit_num c =
     (let n = char_code c
      in if 48 \<le> n \<and> n \<le> 57 then n - 48
         else if 97 \<le> n \<and> n \<le> 122 then n - 87
         else if 65 \<le> n \<and> n \<le> 90 then n - 55
         else 36)"

fun radix_value :: "nat \<Rightarrow> nat \<Rightarrow> string \<Rightarrow> nat option" where
  "radix_value b acc [] = Some acc"
| "radix_value b acc (c # s) = (if digit_num c < b then radix_value b (acc * b + digit_num c) s else None)"

definition decimal_value :: "string \<Rightarrow> nat" where
  "decimal_value s = foldl (\<lambda>a c. 10 * a + digit_num c) 0 s"

definition scale10 :: "rat \<Rightarrow> int \<Rightarrow> rat" where
  "scale10 q e = (if 0 \<le> e then q * 10 ^ nat e else q / 10 ^ nat (- e))"

definition exponent_part :: "string \<Rightarrow> int option" where
  "exponent_part s =
     (case s of
        [] \<Rightarrow> Some 0
      | c # t \<Rightarrow>
          if c \<noteq> CHR ''e'' \<and> c \<noteq> CHR ''E'' then None
          else
            let neg = prefix ''-'' t; u = (if prefix ''-'' t \<or> prefix ''+'' t then drop 1 t else t)
            in if u = [] \<or> \<not> list_all is_digit u then None
               else Some ((if neg then -1 else 1) * int (decimal_value u)))"

definition unsigned_decimal :: "string \<Rightarrow> rat option" where
  "unsigned_decimal s =
     (let ip = takeWhile is_digit s; r = dropWhile is_digit s;
          t = (if prefix ''.'' r then drop 1 r else []);
          fp = takeWhile is_digit t;
          rest = (if prefix ''.'' r then dropWhile is_digit t else r)
      in if ip = [] \<and> fp = [] then None
         else map_option (\<lambda>e. scale10 (of_nat (decimal_value (ip @ fp))) (e - int (length fp)))
                (exponent_part rest))"

definition to_jsnum :: "rat option \<Rightarrow> jsnum" where
  "to_jsnum q = (case q of None \<Rightarrow> NaN | Some x \<Rightarrow> Fin x)"

definition string_to_number :: "string \<Rightarrow> jsnum" where
  "string_to_number s =
     (let t = trim s
      in if t = [] then Fin 0
         else if t = ''Infinity'' \<or> t = ''+Infinity'' then PosInf
         else if t = ''-Infinity'' then NegInf
         else if (prefix ''0x'' t \<or> prefix ''0X'' t) \<and> drop 2 t \<noteq> [] then
           to_jsnum (map_option of_nat (radix_value 16 0 (drop 2 t)))
         else if (prefix ''0o'' t \<or> prefix ''0O'' t) \<and> drop 2 t \<noteq> [] then
           to_jsnum (map_option of_nat (radix_value 8 0 (drop 2 t)))
         else if (prefix ''0b'' t \<or> prefix ''0B'' t) \<and> drop 2 t \<noteq> [] then
           to_jsnum (map_option of_nat (radix_value 2 0 (drop 2 t)))
         else if prefix ''-'' t then to_jsnum (map_option uminus (unsigned_decimal (drop 1 t)))
         else if prefix ''+'' t then to_jsnum (unsigned_decimal (drop 1 t))
         else to_jsnum (unsigned_decimal t))"

text \<open>
  \<open>Number(value)\<close>. An array goes through its string form, the comma-joined elements: empty
  for no element, that element's string for one, and never a number for more.
\<close>

fun toNumber :: "jsval \<Rightarrow> jsnum" and element_number :: "jsval \<Rightarrow> jsnum" where
  "toNumber JUndefined = NaN"
| "toNumber JNull = Fin 0"
| "toNumber (JBool b) = Fin (if b then 1 else 0)"
| "toNumber (JNum n) = n"
| "toNumber (JStr s) = string_to_number s"
| "toNumber (JArr xs) = (case xs of [] \<Rightarrow> Fin 0 | [x] \<Rightarrow> element_number x | _ \<Rightarrow> NaN)"
| "toNumber JObj = NaN"
| "element_number JUndefined = Fin 0"
| "element_number JNull = Fin 0"
| "element_number (JBool b) = NaN"
| "element_number (JNum n) = n"
| "element_number (JStr s) = string_to_number s"
| "element_number (JArr xs) = (case xs of [] \<Rightarrow> Fin 0 | [x] \<Rightarrow> element_number x | _ \<Rightarrow> NaN)"
| "element_number JObj = NaN"

definition isFinite :: "jsnum \<Rightarrow> bool" where
  "isFinite n \<longleftrightarrow> (case n of Fin _ \<Rightarrow> True | _ \<Rightarrow> False)"

text \<open>The value of a number that \<open>Number.isInteger\<close> accepts.\<close>

definition integer_value :: "jsnum \<Rightarrow> int option" where
  "integer_value n = (case n of Fin q \<Rightarrow> if of_int \<lfloor>q\<rfloor> = q then Some \<lfloor>q\<rfloor> else None | _ \<Rightarrow> None)"

text \<open>
  \<open>!Number.isInteger(n) || n < lo || n > hi\<close>, negated: the shape of nearly every bounded
  integer in the validators.
\<close>

definition bounded_integer :: "jsval \<Rightarrow> int \<Rightarrow> int \<Rightarrow> int option" where
  "bounded_integer v lo hi =
     (case integer_value (toNumber v) of
        None \<Rightarrow> None
      | Some i \<Rightarrow> if i < lo \<or> i > hi then None else Some i)"

lemma bounded_integer_bounds: "bounded_integer v lo hi = Some i \<Longrightarrow> lo \<le> i \<and> i \<le> hi"
  by (auto simp: bounded_integer_def split: option.splits if_splits)

lemma bounded_integer_exact:
  "lo \<le> i \<Longrightarrow> i \<le> hi \<Longrightarrow> bounded_integer (JNum (Fin (of_int i))) lo hi = Some i"
  by (simp add: bounded_integer_def integer_value_def)

text \<open>
  \<open>String(value)\<close>; the decimal rendering of a number is the argument \<open>showNum\<close>. Absent array
  elements render as nothing.
\<close>

fun toString :: "(jsnum \<Rightarrow> string) \<Rightarrow> jsval \<Rightarrow> string" where
  "toString showNum JUndefined = ''undefined''"
| "toString showNum JNull = ''null''"
| "toString showNum (JBool b) = (if b then ''true'' else ''false'')"
| "toString showNum (JNum n) = showNum n"
| "toString showNum (JStr s) = s"
| "toString showNum (JArr xs) =
     join '','' (map (\<lambda>x. if absent x then [] else toString showNum x) xs)"
| "toString showNum JObj = ''[object Object]''"

lemma string_to_number_examples:
  "string_to_number '' 42 '' = Fin 42" "string_to_number ''1e3'' = Fin 1000"
  "string_to_number ''0x1F'' = Fin 31" "string_to_number ''4 2'' = NaN" "string_to_number [] = Fin 0"
  by code_simp+

lemma decimal_value_append: "decimal_value (s @ [c]) = 10 * decimal_value s + digit_num c"
  by (simp add: decimal_value_def)

lemma decimal_value_show_nat [simp]: "decimal_value (show_nat n) = n"
proof (induction n rule: show_nat.induct)
  case (1 n)
  have d: "digit_num (char_of (48 + k)) = k" if "k < 10" for k :: nat
    using that by (simp add: digit_num_def Let_def char_code_char_of)
  show ?case
  proof (cases "n < 10")
    case True
    with d [of n] show ?thesis by (subst show_nat.simps) (simp add: decimal_value_def)
  next
    case False
    with 1 d [of "n mod 10"] show ?thesis
      by (subst show_nat.simps) (simp add: decimal_value_append)
  qed
qed

lemma show_nat_inject [simp]: "show_nat a = show_nat b \<longleftrightarrow> a = b"
  by (metis decimal_value_show_nat)

end
