(* ===== verification/RetryPolicy.thy ===== *)
theory RetryPolicy
  imports JsValue
begin

section \<open>The decision layer of delivery retry: delivery-retry/delivery-retry.policy.ts\<close>

text \<open>
  Which policy applies to a failed message, whether its delivery report opens a retry chain,
  which bind the retry goes out on, and the validation of a policy write. Reasons are kept as
  the values their sentences carry. \<open>dateParse\<close> is \<open>Date.parse\<close> (\<open>None\<close> for NaN), and \<open>lc\<close>
  is \<open>localeCompare\<close>.
\<close>

definition DLR_EVENT_FAILED :: int where "DLR_EVENT_FAILED = 2"
definition DLR_EVENT_REJECTED :: int where "DLR_EVENT_REJECTED = 16"

datatype policy_scope = ScDefault | ScTenant | ScSmsc | ScCustomer

record retry_policy =
  rp_policyId :: "string option"
  rp_scope :: policy_scope
  rp_enabled :: bool
  rp_maxAttempts :: int
  rp_retryOnFailed :: bool
  rp_retryOnRejected :: bool
  rp_minDelaySeconds :: int
  rp_maxAgeSeconds :: int
  rp_requireDifferentBind :: bool
  rp_chargeCreditOnRetry :: bool
  rp_maxRetriesPerMinute :: int
  rp_bindRetriesPerMinute :: int

record policy_row =
  pr_id :: string
  pr_scope :: policy_scope
  pr_smsc_id :: "string option"
  pr_customer_id :: "string option"
  pr_enabled :: bool
  pr_max_attempts :: int
  pr_retry_on_failed :: bool
  pr_retry_on_rejected :: bool
  pr_min_delay_seconds :: int
  pr_max_age_seconds :: int
  pr_require_different_bind :: bool
  pr_charge_credit_on_retry :: bool
  pr_max_retries_per_minute :: int
  pr_bind_retries_per_minute :: int

definition DELIVERY_RETRY_DEFAULTS :: retry_policy where
  "DELIVERY_RETRY_DEFAULTS =
     \<lparr>rp_policyId = None, rp_scope = ScDefault, rp_enabled = False, rp_maxAttempts = 1,
      rp_retryOnFailed = True, rp_retryOnRejected = False, rp_minDelaySeconds = 60,
      rp_maxAgeSeconds = 3600, rp_requireDifferentBind = True, rp_chargeCreditOnRetry = True,
      rp_maxRetriesPerMinute = 60, rp_bindRetriesPerMinute = 30\<rparr>"

definition fromRow :: "policy_row \<Rightarrow> int \<Rightarrow> retry_policy" where
  "fromRow row tenantCap =
     \<lparr>rp_policyId = Some (pr_id row), rp_scope = pr_scope row, rp_enabled = pr_enabled row,
      rp_maxAttempts = pr_max_attempts row, rp_retryOnFailed = pr_retry_on_failed row,
      rp_retryOnRejected = pr_retry_on_rejected row, rp_minDelaySeconds = pr_min_delay_seconds row,
      rp_maxAgeSeconds = pr_max_age_seconds row,
      rp_requireDifferentBind = pr_require_different_bind row,
      rp_chargeCreditOnRetry = pr_charge_credit_on_retry row,
      rp_maxRetriesPerMinute = tenantCap, rp_bindRetriesPerMinute = pr_bind_retries_per_minute row\<rparr>"

definition tenant_row :: "policy_row list \<Rightarrow> policy_row option" where
  "tenant_row rows = find (\<lambda>r. pr_scope r = ScTenant) rows"

definition tenant_cap :: "policy_row list \<Rightarrow> int" where
  "tenant_cap rows =
     (case tenant_row rows of
        Some r \<Rightarrow> pr_max_retries_per_minute r
      | None \<Rightarrow> rp_maxRetriesPerMinute DELIVERY_RETRY_DEFAULTS)"

definition scoped_row :: "policy_row list \<Rightarrow> string option \<Rightarrow> string option \<Rightarrow> policy_row option" where
  "scoped_row rows smscId customerId =
     (case (if truthy customerId
            then find (\<lambda>r. pr_scope r = ScCustomer \<and> pr_customer_id r = customerId) rows else None) of
        Some r \<Rightarrow> Some r
      | None \<Rightarrow>
          (case (if truthy smscId
                 then find (\<lambda>r. pr_scope r = ScSmsc \<and> pr_smsc_id r = smscId) rows else None) of
             Some r \<Rightarrow> Some r
           | None \<Rightarrow> tenant_row rows))"

definition resolveRetryPolicy :: "policy_row list \<Rightarrow> string option \<Rightarrow> string option \<Rightarrow> retry_policy" where
  "resolveRetryPolicy rows smscId customerId =
     (case scoped_row rows smscId customerId of
        Some r \<Rightarrow> fromRow r (tenant_cap rows)
      | None \<Rightarrow> DELIVERY_RETRY_DEFAULTS\<lparr>rp_maxRetriesPerMinute := tenant_cap rows\<rparr>)"

text \<open>The set of events of the enabled rows, in ascending order (\<open>sort((a, b) => a - b)\<close>).\<close>

fun event_list :: "policy_row list \<Rightarrow> int list" where
  "event_list [] = []"
| "event_list (r # rs) =
     (if pr_enabled r
      then (if pr_retry_on_failed r then [DLR_EVENT_FAILED] else [])
           @ (if pr_retry_on_rejected r then [DLR_EVENT_REJECTED] else [])
      else []) @ event_list rs"

definition scannableEvents :: "policy_row list \<Rightarrow> int list" where
  "scannableEvents rows = sort_cmp (cmp_diff (\<lambda>x. x)) (remdups (event_list rows))"

subsection \<open>Should this report open a retry chain?\<close>

datatype decline_reason =
    NotEnabled policy_scope
  | NotRetryingFailed
  | NotRetryingRejected
  | NotAFailure int
  | TooOld int int

datatype retry_verdict = Retry | NoRetry bool decline_reason

record delivery_report =
  dr_dlrEvent :: int
  dr_dlrAt :: "string option"

definition classifyReport ::
    "(string \<Rightarrow> int option) \<Rightarrow> retry_policy \<Rightarrow> delivery_report \<Rightarrow> int \<Rightarrow> retry_verdict" where
  "classifyReport dateParse policy report nowMs =
     (if \<not> rp_enabled policy then NoRetry False (NotEnabled (rp_scope policy))
      else if dr_dlrEvent report = DLR_EVENT_FAILED \<and> \<not> rp_retryOnFailed policy
      then NoRetry True NotRetryingFailed
      else if dr_dlrEvent report = DLR_EVENT_REJECTED \<and> \<not> rp_retryOnRejected policy
      then NoRetry True NotRetryingRejected
      else if dr_dlrEvent report \<noteq> DLR_EVENT_FAILED \<and> dr_dlrEvent report \<noteq> DLR_EVENT_REJECTED
      then NoRetry False (NotAFailure (dr_dlrEvent report))
      else case (if truthy (dr_dlrAt report) then dateParse (the (dr_dlrAt report)) else None) of
             None \<Rightarrow> Retry
           | Some received \<Rightarrow>
               let ageSeconds = (nowMs - received) div 1000
               in if ageSeconds > rp_maxAgeSeconds policy
                  then NoRetry True (TooOld ageSeconds (rp_maxAgeSeconds policy))
                  else Retry)"

subsection \<open>The bind a retry goes out on\<close>

record bind_input =
  bi_available :: "string list"
  bi_tried :: "string list"
  bi_entitled :: "string list option"
  bi_recentByBind :: "string \<Rightarrow> int option"
  bi_bindRetriesPerMinute :: int
  bi_routed :: "string option"
  bi_requireDifferentBind :: bool

datatype bind_kind = KRoute | KLeastLoaded | KSameBind

datatype bind_reason =
    RoutedUntried string
  | LeastLoadedAfterRouted string string
  | LeastLoadedNoRoute string
  | Reusing string
  | NoHealthyBind "string list" "string list" "string list"

record bind_selection =
  bs_smscId :: "string option"
  bs_selection :: "bind_kind option"
  bs_excluded :: "string list"
  bs_reason :: bind_reason

definition load_of :: "bind_input \<Rightarrow> string \<Rightarrow> int" where
  "load_of input bind = coalesce (bi_recentByBind input bind) 0"

definition overBudget :: "bind_input \<Rightarrow> string \<Rightarrow> bool" where
  "overBudget input bind \<longleftrightarrow> load_of input bind \<ge> bi_bindRetriesPerMinute input"

definition is_entitled :: "bind_input \<Rightarrow> string \<Rightarrow> bool" where
  "is_entitled input bind \<longleftrightarrow>
     (case bi_entitled input of None \<Rightarrow> True | Some bs \<Rightarrow> bind \<in> set bs)"

definition is_candidate :: "bind_input \<Rightarrow> string \<Rightarrow> bool" where
  "is_candidate input bind \<longleftrightarrow>
     bind \<notin> set (bi_tried input) \<and> is_entitled input bind \<and> \<not> overBudget input bind"

text \<open>A bind is noted as over budget when nothing earlier excluded it.\<close>

definition budget_notes :: "bind_input \<Rightarrow> string list" where
  "budget_notes input =
     filter (\<lambda>b. b \<notin> set (bi_tried input) \<and> is_entitled input b \<and> overBudget input b)
       (bi_available input)"

definition by_load :: "(string \<Rightarrow> string \<Rightarrow> int) \<Rightarrow> bind_input \<Rightarrow> string \<Rightarrow> string \<Rightarrow> int" where
  "by_load lc input = cmp_or (cmp_diff (load_of input)) lc"

definition selectRetryBind :: "(string \<Rightarrow> string \<Rightarrow> int) \<Rightarrow> bind_input \<Rightarrow> bind_selection" where
  "selectRetryBind lc input =
     (let candidates = filter (is_candidate input) (bi_available input);
          excluded = filter (\<lambda>b. \<not> is_candidate input b) (bi_available input);
          result = (\<lambda>s k r. \<lparr>bs_smscId = s, bs_selection = k, bs_excluded = excluded, bs_reason = r\<rparr>);
          origin = (case bi_tried input of [] \<Rightarrow> None | b # _ \<Rightarrow> Some b);
          none = result None None
            (NoHealthyBind (bi_tried input) (bi_available input) (budget_notes input))
      in if truthy (bi_routed input) \<and> the (bi_routed input) \<in> set candidates
         then result (bi_routed input) (Some KRoute) (RoutedUntried (the (bi_routed input)))
         else if candidates \<noteq> [] then
           (let chosen = hd (sort_cmp (by_load lc input) candidates)
            in result (Some chosen) (Some KLeastLoaded)
                 (if truthy (bi_routed input)
                  then LeastLoadedAfterRouted (the (bi_routed input)) chosen
                  else LeastLoadedNoRoute chosen))
         else if \<not> bi_requireDifferentBind input \<and> truthy origin
              \<and> the origin \<in> set (bi_available input) \<and> is_entitled input (the origin)
              \<and> \<not> overBudget input (the origin)
         then result origin (Some KSameBind) (Reusing (the origin))
         else none)"

subsection \<open>Validation of a policy write\<close>

record policy_input =
  pi_scope :: policy_scope
  pi_smscId :: "string option"
  pi_customerId :: "string option"
  pi_enabled :: bool
  pi_maxAttempts :: int
  pi_retryOnFailed :: bool
  pi_retryOnRejected :: bool
  pi_minDelaySeconds :: int
  pi_maxAgeSeconds :: int
  pi_requireDifferentBind :: bool
  pi_chargeCreditOnRetry :: bool
  pi_maxRetriesPerMinute :: int
  pi_bindRetriesPerMinute :: int

datatype policy_error =
    UnknownScope
  | SmscIdRequired
  | CustomerIdRequired
  | TenantCarriesIds
  | NotBoolean string
  | NotIntegerBetween string int int

definition bool_field :: "jsval \<Rightarrow> bool \<Rightarrow> string \<Rightarrow> (policy_error, bool) result" where
  "bool_field value fallback name =
     (if absent value then Inr fallback
      else case value of JBool b \<Rightarrow> Inr b | _ \<Rightarrow> Inl (NotBoolean name))"

definition integer_field ::
    "jsval \<Rightarrow> int \<Rightarrow> string \<Rightarrow> int \<Rightarrow> int \<Rightarrow> (policy_error, int) result" where
  "integer_field value fallback name lo hi =
     (if absent value then Inr fallback
      else case bounded_integer value lo hi of
             None \<Rightarrow> Inl (NotIntegerBetween name lo hi) | Some i \<Rightarrow> Inr i)"

text \<open>\<open>typeof v === 'string' && v.trim() ? v.trim() : null\<close>.\<close>

definition trimmed_string :: "jsval \<Rightarrow> string option" where
  "trimmed_string v =
     (case v of JStr s \<Rightarrow> if trim s \<noteq> [] then Some (trim s) else None | _ \<Rightarrow> None)"

definition parse_scope :: "string \<Rightarrow> policy_scope option" where
  "parse_scope s =
     (if s = ''tenant'' then Some ScTenant else if s = ''smsc'' then Some ScSmsc
      else if s = ''customer'' then Some ScCustomer else None)"

definition parsePolicyInput ::
    "(jsnum \<Rightarrow> string) \<Rightarrow> (string \<Rightarrow> jsval) \<Rightarrow> (policy_error, policy_input) result" where
  "parsePolicyInput showNum body =
     (let raw = body ''scope'';
          text = trim (if absent raw then ''tenant'' else toString showNum raw);
          smscId = trimmed_string (body ''smscId'');
          customerId = trimmed_string (body ''customerId'');
          d = DELIVERY_RETRY_DEFAULTS
      in case parse_scope text of
           None \<Rightarrow> Inl UnknownScope
         | Some scope \<Rightarrow>
             if scope = ScSmsc \<and> smscId = None then Inl SmscIdRequired
             else if scope = ScCustomer \<and> customerId = None then Inl CustomerIdRequired
             else if scope = ScTenant \<and> (smscId \<noteq> None \<or> customerId \<noteq> None) then Inl TenantCarriesIds
             else
               bind_result (bool_field (body ''enabled'') (rp_enabled d) ''enabled'') (\<lambda>enabled.
               bind_result (integer_field (body ''maxAttempts'') (rp_maxAttempts d) ''maxAttempts'' 1 5)
                 (\<lambda>maxAttempts.
               bind_result (bool_field (body ''retryOnFailed'') (rp_retryOnFailed d) ''retryOnFailed'')
                 (\<lambda>onFailed.
               bind_result (bool_field (body ''retryOnRejected'') (rp_retryOnRejected d) ''retryOnRejected'')
                 (\<lambda>onRejected.
               bind_result (integer_field (body ''minDelaySeconds'') (rp_minDelaySeconds d)
                 ''minDelaySeconds'' 0 3600) (\<lambda>minDelay.
               bind_result (integer_field (body ''maxAgeSeconds'') (rp_maxAgeSeconds d)
                 ''maxAgeSeconds'' 60 604800) (\<lambda>maxAge.
               bind_result (bool_field (body ''requireDifferentBind'') (rp_requireDifferentBind d)
                 ''requireDifferentBind'') (\<lambda>different.
               bind_result (bool_field (body ''chargeCreditOnRetry'') (rp_chargeCreditOnRetry d)
                 ''chargeCreditOnRetry'') (\<lambda>charge.
               bind_result (integer_field (body ''maxRetriesPerMinute'') (rp_maxRetriesPerMinute d)
                 ''maxRetriesPerMinute'' 1 10000) (\<lambda>maxPerMinute.
               bind_result (integer_field (body ''bindRetriesPerMinute'') (rp_bindRetriesPerMinute d)
                 ''bindRetriesPerMinute'' 1 10000) (\<lambda>bindPerMinute.
               Inr \<lparr>pi_scope = scope,
                    pi_smscId = (if scope = ScSmsc then smscId else None),
                    pi_customerId = (if scope = ScCustomer then customerId else None),
                    pi_enabled = enabled, pi_maxAttempts = maxAttempts, pi_retryOnFailed = onFailed,
                    pi_retryOnRejected = onRejected, pi_minDelaySeconds = minDelay,
                    pi_maxAgeSeconds = maxAge, pi_requireDifferentBind = different,
                    pi_chargeCreditOnRetry = charge, pi_maxRetriesPerMinute = maxPerMinute,
                    pi_bindRetriesPerMinute = bindPerMinute\<rparr>)))))))))))"

subsection \<open>Lemmas\<close>

lemma event_list_iff:
  "e \<in> set (event_list rows) \<longleftrightarrow>
     (\<exists>r \<in> set rows. pr_enabled r \<and>
        (e = DLR_EVENT_FAILED \<and> pr_retry_on_failed r \<or> e = DLR_EVENT_REJECTED \<and> pr_retry_on_rejected r))"
  by (induction rows) auto

interpretation event_order: identified_ranking "cmp_diff (\<lambda>x. x)" "\<lambda>x. x"
  by (intro identified_ranking.intro ranking_diff identified_ranking_axioms.intro)
    (simp add: cmp_diff_def)

lemma set_scannableEvents: "set (scannableEvents rows) = set (event_list rows)"
  by (simp add: scannableEvents_def)

lemma scannableEvents_sorted: "sorted_wrt (\<le>) (scannableEvents rows)"
  using event_order.sort_cmp_sorted [of "remdups (event_list rows)"]
  by (simp add: scannableEvents_def cmp_diff_def)

lemma scoped_row_in: "scoped_row rows s c = Some r \<Longrightarrow> r \<in> set rows"
  by (auto simp: scoped_row_def tenant_row_def split: option.splits if_splits dest: find_some_props)

lemma resolveRetryPolicy_enabled:
  assumes "rp_enabled (resolveRetryPolicy rows s c)"
  obtains r where "r \<in> set rows" "pr_enabled r"
    "rp_retryOnFailed (resolveRetryPolicy rows s c) = pr_retry_on_failed r"
    "rp_retryOnRejected (resolveRetryPolicy rows s c) = pr_retry_on_rejected r"
proof (cases "scoped_row rows s c")
  case None
  with assms show ?thesis by (simp add: resolveRetryPolicy_def DELIVERY_RETRY_DEFAULTS_def)
next
  case (Some r)
  with assms scoped_row_in [OF Some] that [of r] show ?thesis
    by (simp add: resolveRetryPolicy_def fromRow_def)
qed

lemma classifyReport_Retry_iff:
  "classifyReport dp policy report now = Retry \<longleftrightarrow>
     rp_enabled policy
     \<and> (dr_dlrEvent report = DLR_EVENT_FAILED \<and> rp_retryOnFailed policy
        \<or> dr_dlrEvent report = DLR_EVENT_REJECTED \<and> rp_retryOnRejected policy)
     \<and> (case (if truthy (dr_dlrAt report) then dp (the (dr_dlrAt report)) else None) of
          None \<Rightarrow> True | Some received \<Rightarrow> (now - received) div 1000 \<le> rp_maxAgeSeconds policy)"
  by (auto simp: classifyReport_def Let_def DLR_EVENT_FAILED_def DLR_EVENT_REJECTED_def
      split: option.splits)

subsection \<open>Properties\<close>

text \<open>
  The storm cap has no hole: whatever row decides a message, the per-minute cap of the
  resolved policy is the tenant row's (or the default), and every other value comes from one
  row, the customer's if it has one, else that of the failing bind, else the tenant's.
\<close>

theorem resolveRetryPolicy_precedence:
  "rp_maxRetriesPerMinute (resolveRetryPolicy rows s c) = tenant_cap rows
   \<and> (case rp_scope (resolveRetryPolicy rows s c) of
        ScCustomer \<Rightarrow> (\<exists>r. r \<in> set rows \<and> pr_scope r = ScCustomer \<and> pr_customer_id r = c \<and> truthy c
            \<and> resolveRetryPolicy rows s c = fromRow r (tenant_cap rows))
      | ScSmsc \<Rightarrow> (\<exists>r. r \<in> set rows \<and> pr_scope r = ScSmsc \<and> pr_smsc_id r = s \<and> truthy s
            \<and> resolveRetryPolicy rows s c = fromRow r (tenant_cap rows))
          \<and> (\<forall>r \<in> set rows. \<not> (pr_scope r = ScCustomer \<and> pr_customer_id r = c \<and> truthy c))
      | ScTenant \<Rightarrow> (\<exists>r. tenant_row rows = Some r
            \<and> resolveRetryPolicy rows s c = fromRow r (tenant_cap rows))
          \<and> (\<forall>r \<in> set rows. \<not> (pr_scope r = ScCustomer \<and> pr_customer_id r = c \<and> truthy c)
               \<and> \<not> (pr_scope r = ScSmsc \<and> pr_smsc_id r = s \<and> truthy s))
      | ScDefault \<Rightarrow> \<not> rp_enabled (resolveRetryPolicy rows s c)
          \<and> (\<forall>r \<in> set rows. pr_scope r \<noteq> ScTenant))"
proof -
  let ?C = "\<lambda>r. pr_scope r = ScCustomer \<and> pr_customer_id r = c"
  let ?S = "\<lambda>r. pr_scope r = ScSmsc \<and> pr_smsc_id r = s"
  have cust: "(if truthy c then find ?C rows else None) = Some r \<Longrightarrow> r \<in> set rows \<and> ?C r \<and> truthy c" for r
    by (auto split: if_splits dest: find_some_props)
  have no_cust: "(if truthy c then find ?C rows else None) = None \<Longrightarrow> r \<in> set rows \<Longrightarrow> \<not> (?C r \<and> truthy c)" for r
    by (auto split: if_splits simp: find_None_iff)
  have smsc: "(if truthy s then find ?S rows else None) = Some r \<Longrightarrow> r \<in> set rows \<and> ?S r \<and> truthy s" for r
    by (auto split: if_splits dest: find_some_props)
  have no_smsc: "(if truthy s then find ?S rows else None) = None \<Longrightarrow> r \<in> set rows \<Longrightarrow> \<not> (?S r \<and> truthy s)" for r
    by (auto split: if_splits simp: find_None_iff)
  have cap: "rp_maxRetriesPerMinute (fromRow r k) = k" "rp_scope (fromRow r k) = pr_scope r" for r k
    by (simp_all add: fromRow_def)
  consider (C) r where "(if truthy c then find ?C rows else None) = Some r"
    | (S) r where "(if truthy c then find ?C rows else None) = None"
        "(if truthy s then find ?S rows else None) = Some r"
    | (T) r where "(if truthy c then find ?C rows else None) = None"
        "(if truthy s then find ?S rows else None) = None" "tenant_row rows = Some r"
    | (D) "(if truthy c then find ?C rows else None) = None"
        "(if truthy s then find ?S rows else None) = None" "tenant_row rows = None"
    by fastforce
  then show ?thesis
  proof cases
    case (C r)
    then have "resolveRetryPolicy rows s c = fromRow r (tenant_cap rows)"
      by (simp add: resolveRetryPolicy_def scoped_row_def)
    with cust [OF C] cap [of r "tenant_cap rows"] show ?thesis by auto
  next
    case (S r)
    then have "resolveRetryPolicy rows s c = fromRow r (tenant_cap rows)"
      by (simp add: resolveRetryPolicy_def scoped_row_def)
    with smsc [OF S(2)] no_cust [OF S(1)] cap [of r "tenant_cap rows"] show ?thesis by auto
  next
    case (T r)
    then have "resolveRetryPolicy rows s c = fromRow r (tenant_cap rows)"
      by (simp add: resolveRetryPolicy_def scoped_row_def)
    moreover have "pr_scope r = ScTenant"
      using T(3) by (auto simp: tenant_row_def dest: find_some_props)
    ultimately show ?thesis
      using no_cust [OF T(1)] no_smsc [OF T(2)] T(3) cap [of r "tenant_cap rows"] by auto
  next
    case D
    then have "resolveRetryPolicy rows s c =
        DELIVERY_RETRY_DEFAULTS\<lparr>rp_maxRetriesPerMinute := tenant_cap rows\<rparr>"
      by (simp add: resolveRetryPolicy_def scoped_row_def)
    with D(3) show ?thesis
      by (auto simp: DELIVERY_RETRY_DEFAULTS_def tenant_row_def find_None_iff)
  qed
qed

text \<open>
  The scanner asks for enough: any report the resolved policy of any message would retry has
  an event the scanner reads, whichever bind and customer the message belongs to; the event list
  is sorted and free of repetitions, and empty when no policy of the tenant is enabled.
\<close>

theorem scannableEvents_complete:
  "(classifyReport dp (resolveRetryPolicy rows s c) report now = Retry \<longrightarrow>
      dr_dlrEvent report \<in> set (scannableEvents rows))
   \<and> sorted_wrt (<) (scannableEvents rows)
   \<and> (scannableEvents rows = [] \<longleftrightarrow>
        (\<forall>r \<in> set rows. \<not> (pr_enabled r \<and> (pr_retry_on_failed r \<or> pr_retry_on_rejected r))))"
proof (intro conjI impI)
  assume "classifyReport dp (resolveRetryPolicy rows s c) report now = Retry"
  then show "dr_dlrEvent report \<in> set (scannableEvents rows)"
    unfolding classifyReport_Retry_iff set_scannableEvents event_list_iff
    by (metis resolveRetryPolicy_enabled)
next
  have "distinct (scannableEvents rows)"
    unfolding scannableEvents_def
    using mset_eq_imp_distinct_iff [OF mset_sort_cmp] distinct_remdups by metis
  with scannableEvents_sorted show "sorted_wrt (<) (scannableEvents rows)"
    by (simp add: strict_sorted_iff)
next
  show "scannableEvents rows = [] \<longleftrightarrow>
        (\<forall>r \<in> set rows. \<not> (pr_enabled r \<and> (pr_retry_on_failed r \<or> pr_retry_on_rejected r)))"
    using event_list_iff [of _ rows] set_scannableEvents [of rows]
    by (metis (no_types, lifting) set_empty ex_in_conv)
qed

lemma by_load_ranking: "ranking lc \<Longrightarrow> ranking (by_load lc input)"
  unfolding by_load_def by (intro ranking_or ranking_diff)

lemma least_loaded_candidate:
  assumes "ranking lc" and "filter (is_candidate input) (bi_available input) \<noteq> []"
  defines "b \<equiv> hd (sort_cmp (by_load lc input) (filter (is_candidate input) (bi_available input)))"
  shows "b \<in> set (bi_available input)" "is_candidate input b"
    "x \<in> set (bi_available input) \<Longrightarrow> is_candidate input x \<Longrightarrow> by_load lc input b x \<le> 0"
proof -
  have "b \<in> set (sort_cmp (by_load lc input) (filter (is_candidate input) (bi_available input)))"
    unfolding b_def using assms(2) by (intro hd_in_set) simp
  then show "b \<in> set (bi_available input)" "is_candidate input b" by simp_all
  show "by_load lc input b x \<le> 0" if "x \<in> set (bi_available input)" "is_candidate input x"
    unfolding b_def using that
    by (intro ranking.sort_cmp_hd_least [OF by_load_ranking [OF assms(1)]]) simp
qed

text \<open>
  The bind of a retry is always one the policy allows. A bind other than a reused one is
  available, untried, entitled and under its budget; the routed bind is taken whenever it is
  such a candidate, otherwise the least loaded candidate (ties broken by name). A tried bind is
  reused only without candidates, when the policy permits it, and then it is the first bind
  tried, available, entitled and under budget. No bind is named only when neither exists, and the
  excluded list is exactly the available binds that are no candidates.
\<close>

theorem selectRetryBind_choice:
  assumes "ranking lc"
  shows "(let r = selectRetryBind lc input;
              cand = (\<lambda>b. b \<in> set (bi_available input) \<and> is_candidate input b);
              reusable = (\<lambda>b. bi_tried input \<noteq> [] \<and> b = hd (bi_tried input) \<and> b \<noteq> []
                 \<and> \<not> bi_requireDifferentBind input \<and> b \<in> set (bi_available input)
                 \<and> is_entitled input b \<and> \<not> overBudget input b)
          in (case bs_selection r of
                Some KRoute \<Rightarrow> (\<exists>b. bs_smscId r = Some b \<and> bi_routed input = Some b \<and> cand b)
              | Some KLeastLoaded \<Rightarrow> (\<exists>b. bs_smscId r = Some b \<and> cand b
                    \<and> (\<forall>b'. cand b' \<longrightarrow> by_load lc input b b' \<le> 0)
                    \<and> (\<forall>x. bi_routed input = Some x \<longrightarrow> x = [] \<or> \<not> cand x))
              | Some KSameBind \<Rightarrow> (\<exists>b. bs_smscId r = Some b \<and> reusable b) \<and> (\<forall>b. \<not> cand b)
              | None \<Rightarrow> bs_smscId r = None \<and> (\<forall>b. \<not> cand b \<and> \<not> reusable b))
             \<and> (\<forall>b. b \<in> set (bs_excluded r) \<longleftrightarrow> b \<in> set (bi_available input) \<and> \<not> cand b))"
proof -
  let ?cs = "filter (is_candidate input) (bi_available input)"
  have excl: "bs_excluded (selectRetryBind lc input) =
      filter (\<lambda>b. \<not> is_candidate input b) (bi_available input)"
    by (simp add: selectRetryBind_def Let_def)
  consider (R) b where "bi_routed input = Some b" "b \<noteq> []" "b \<in> set ?cs"
    | (L) "?cs \<noteq> []" "\<forall>b. bi_routed input = Some b \<longrightarrow> b = [] \<or> b \<notin> set ?cs"
    | (N) "?cs = []"
    by blast
  then show ?thesis
  proof cases
    case R
    with excl show ?thesis by (simp add: selectRetryBind_def Let_def) blast
  next
    case L
    then have "selectRetryBind lc input = \<lparr>bs_smscId = Some (hd (sort_cmp (by_load lc input) ?cs)),
        bs_selection = Some KLeastLoaded, bs_excluded = bs_excluded (selectRetryBind lc input),
        bs_reason = bs_reason (selectRetryBind lc input)\<rparr>"
      by (cases "bi_routed input") (auto simp: selectRetryBind_def Let_def)
    then show ?thesis
      using excl L least_loaded_candidate [OF assms L(1)]
      by (cases "selectRetryBind lc input") (simp add: Let_def, blast)
  next
    case N
    then have none: "\<forall>b. \<not> (b \<in> set (bi_available input) \<and> is_candidate input b)"
      by (auto simp: filter_empty_conv)
    with N excl show ?thesis
      by (cases "bi_tried input"; cases "bi_routed input") (simp_all add: selectRetryBind_def Let_def, blast+)
  qed
qed

definition sample_binds :: bind_input where
  "sample_binds = \<lparr>bi_available = [''smsc-a'', ''smsc-b'', ''smsc-c'', ''smsc-d''], bi_tried = [''smsc-a''],
     bi_entitled = None, bi_recentByBind = (\<lambda>b. if b = ''smsc-b'' then Some 7 else if b = ''smsc-d'' then Some 30 else None),
     bi_bindRetriesPerMinute = 30, bi_routed = Some ''smsc-a'', bi_requireDifferentBind = True\<rparr>"

theorem selectRetryBind_choice_witness:
  "ranking (cmp_key (\<lambda>s :: string. s))
   \<and> bs_smscId (selectRetryBind (cmp_key (\<lambda>s. s)) sample_binds) = Some ''smsc-c''
   \<and> by_load (cmp_key (\<lambda>s. s)) sample_binds ''smsc-c'' ''smsc-b'' \<le> 0"
proof -
  have e: "bs_selection (selectRetryBind (cmp_key (\<lambda>s. s)) sample_binds) = Some KLeastLoaded"
    "bs_smscId (selectRetryBind (cmp_key (\<lambda>s. s)) sample_binds) = Some ''smsc-c''"
    "is_candidate sample_binds ''smsc-b''" "''smsc-b'' \<in> set (bi_available sample_binds)"
    by code_simp+
  have r: "ranking (cmp_key (\<lambda>s :: string. s))" by (rule ranking_key)
  from selectRetryBind_choice [OF r, of sample_binds]
  have "\<forall>b'. b' \<in> set (bi_available sample_binds) \<and> is_candidate sample_binds b' \<longrightarrow>
      by_load (cmp_key (\<lambda>s. s)) sample_binds ''smsc-c'' b' \<le> 0"
    by (simp add: Let_def e(1,2))
  with e r show ?thesis by blast
qed

definition sample_policy_row :: "string \<Rightarrow> policy_scope \<Rightarrow> string option \<Rightarrow> string option \<Rightarrow> int \<Rightarrow> policy_row" where
  "sample_policy_row i sc s c cap =
     \<lparr>pr_id = i, pr_scope = sc, pr_smsc_id = s, pr_customer_id = c, pr_enabled = True, pr_max_attempts = 2,
      pr_retry_on_failed = True, pr_retry_on_rejected = (sc = ScCustomer), pr_min_delay_seconds = 30,
      pr_max_age_seconds = 600, pr_require_different_bind = True, pr_charge_credit_on_retry = False,
      pr_max_retries_per_minute = cap, pr_bind_retries_per_minute = 10\<rparr>"

definition sample_rows :: "policy_row list" where
  "sample_rows = [sample_policy_row ''t'' ScTenant None None 90,
     sample_policy_row ''s'' ScSmsc (Some ''smsc-a'') None 5, sample_policy_row ''c'' ScCustomer None (Some ''acme'') 7]"

theorem resolveRetryPolicy_precedence_witness:
  "rp_maxRetriesPerMinute (resolveRetryPolicy sample_rows (Some ''smsc-a'') (Some ''acme'')) = 90
   \<and> rp_scope (resolveRetryPolicy sample_rows (Some ''smsc-a'') (Some ''acme'')) = ScCustomer"
proof -
  have "tenant_cap sample_rows = 90"
    "rp_scope (resolveRetryPolicy sample_rows (Some ''smsc-a'') (Some ''acme'')) = ScCustomer"
    by code_simp+
  with resolveRetryPolicy_precedence [of sample_rows "Some ''smsc-a''" "Some ''acme''"]
  show ?thesis by simp
qed

definition sample_report :: delivery_report where
  "sample_report = \<lparr>dr_dlrEvent = DLR_EVENT_REJECTED, dr_dlrAt = None\<rparr>"

theorem scannableEvents_complete_witness:
  "dr_dlrEvent sample_report \<in> set (scannableEvents sample_rows)
   \<and> scannableEvents sample_rows = [2, 16]"
proof -
  have "classifyReport (\<lambda>_. None) (resolveRetryPolicy sample_rows (Some ''smsc-a'') (Some ''acme''))
      sample_report 0 = Retry" "scannableEvents sample_rows = [2, 16]"
    by code_simp+
  with scannableEvents_complete [of "\<lambda>_. None" sample_rows "Some ''smsc-a''" "Some ''acme''" sample_report 0]
  show ?thesis by simp
qed

lemma integer_field_bounds:
  "integer_field v d n lo hi = Inr i \<Longrightarrow> lo \<le> d \<Longrightarrow> d \<le> hi \<Longrightarrow> lo \<le> i \<and> i \<le> hi"
  by (auto simp: integer_field_def split: if_splits option.splits dest: bounded_integer_bounds)

lemma trimmed_string_props: "trimmed_string v = Some s \<Longrightarrow> s \<noteq> [] \<and> trim s = s"
  by (auto simp: trimmed_string_def split: jsval.splits if_splits)

text \<open>
  A policy write that passes the parser satisfies every CHECK of the table: the numbers are
  within their bounds, and the scope names exactly the identifiers that go with it, trimmed and
  not empty.
\<close>

theorem parsePolicyInput_within_checks:
  assumes "parsePolicyInput showNum body = Inr p"
  shows "1 \<le> pi_maxAttempts p \<and> pi_maxAttempts p \<le> 5
    \<and> 0 \<le> pi_minDelaySeconds p \<and> pi_minDelaySeconds p \<le> 3600
    \<and> 60 \<le> pi_maxAgeSeconds p \<and> pi_maxAgeSeconds p \<le> 604800
    \<and> 1 \<le> pi_maxRetriesPerMinute p \<and> pi_maxRetriesPerMinute p \<le> 10000
    \<and> 1 \<le> pi_bindRetriesPerMinute p \<and> pi_bindRetriesPerMinute p \<le> 10000
    \<and> (case pi_scope p of
         ScTenant \<Rightarrow> pi_smscId p = None \<and> pi_customerId p = None
       | ScSmsc \<Rightarrow> pi_customerId p = None \<and> (\<exists>s. pi_smscId p = Some s \<and> s \<noteq> [] \<and> trim s = s)
       | ScCustomer \<Rightarrow> pi_smscId p = None \<and> (\<exists>s. pi_customerId p = Some s \<and> s \<noteq> [] \<and> trim s = s)
       | ScDefault \<Rightarrow> False)"
proof -
  let ?text = "trim (if absent (body ''scope'') then ''tenant'' else toString showNum (body ''scope''))"
  obtain sc where sc: "parse_scope ?text = Some sc"
    using assms unfolding parsePolicyInput_def Let_def by (cases "parse_scope ?text") auto
  have dom: "sc \<in> {ScTenant, ScSmsc, ScCustomer}"
    using sc by (auto simp: parse_scope_def split: if_splits)
  have guards: "\<not> (sc = ScSmsc \<and> trimmed_string (body ''smscId'') = None)"
    "\<not> (sc = ScCustomer \<and> trimmed_string (body ''customerId'') = None)"
    using assms unfolding parsePolicyInput_def Let_def sc by (auto split: if_splits)
  have fields: "pi_scope p = sc
    \<and> pi_smscId p = (if sc = ScSmsc then trimmed_string (body ''smscId'') else None)
    \<and> pi_customerId p = (if sc = ScCustomer then trimmed_string (body ''customerId'') else None)
    \<and> integer_field (body ''maxAttempts'') 1 ''maxAttempts'' 1 5 = Inr (pi_maxAttempts p)
    \<and> integer_field (body ''minDelaySeconds'') 60 ''minDelaySeconds'' 0 3600 = Inr (pi_minDelaySeconds p)
    \<and> integer_field (body ''maxAgeSeconds'') 3600 ''maxAgeSeconds'' 60 604800 = Inr (pi_maxAgeSeconds p)
    \<and> integer_field (body ''maxRetriesPerMinute'') 60 ''maxRetriesPerMinute'' 1 10000 = Inr (pi_maxRetriesPerMinute p)
    \<and> integer_field (body ''bindRetriesPerMinute'') 30 ''bindRetriesPerMinute'' 1 10000 = Inr (pi_bindRetriesPerMinute p)"
  proof -
    have "\<not> (sc = ScTenant \<and> (trimmed_string (body ''smscId'') \<noteq> None
        \<or> trimmed_string (body ''customerId'') \<noteq> None))"
      using assms unfolding parsePolicyInput_def Let_def sc by (auto split: if_splits)
    note taken = this guards
    show ?thesis
      using assms unfolding parsePolicyInput_def Let_def sc option.case if_not_P [OF taken(1)]
        if_not_P [OF taken(2)] if_not_P [OF taken(3)]
      by (elim bind_resultE) (auto simp: DELIVERY_RETRY_DEFAULTS_def)
  qed
  then have "1 \<le> pi_maxAttempts p \<and> pi_maxAttempts p \<le> 5"
    "0 \<le> pi_minDelaySeconds p \<and> pi_minDelaySeconds p \<le> 3600"
    "60 \<le> pi_maxAgeSeconds p \<and> pi_maxAgeSeconds p \<le> 604800"
    "1 \<le> pi_maxRetriesPerMinute p \<and> pi_maxRetriesPerMinute p \<le> 10000"
    "1 \<le> pi_bindRetriesPerMinute p \<and> pi_bindRetriesPerMinute p \<le> 10000"
    by - (elim conjE, rule integer_field_bounds, assumption, simp, simp)+
  moreover from dom guards fields have "(case pi_scope p of
         ScTenant \<Rightarrow> pi_smscId p = None \<and> pi_customerId p = None
       | ScSmsc \<Rightarrow> pi_customerId p = None \<and> (\<exists>s. pi_smscId p = Some s \<and> s \<noteq> [] \<and> trim s = s)
       | ScCustomer \<Rightarrow> pi_smscId p = None \<and> (\<exists>s. pi_customerId p = Some s \<and> s \<noteq> [] \<and> trim s = s)
       | ScDefault \<Rightarrow> False)"
    using trimmed_string_props by (elim insertE emptyE) auto
  ultimately show ?thesis by blast
qed

theorem parsePolicyInput_within_checks_witness:
  "\<exists>p. parsePolicyInput (\<lambda>_. []) (\<lambda>k. if k = ''scope'' then JStr ''smsc'' else
      if k = ''smscId'' then JStr '' mtn-ug '' else if k = ''maxAttempts'' then JStr ''3'' else JUndefined) = Inr p
    \<and> pi_smscId p = Some ''mtn-ug'' \<and> pi_maxAttempts p = 3 \<and> pi_maxAttempts p \<le> 5"
proof -
  let ?b = "\<lambda>k. if k = ''scope'' then JStr ''smsc'' else
      if k = ''smscId'' then JStr '' mtn-ug '' else if k = ''maxAttempts'' then JStr ''3'' else JUndefined"
  have "(case parsePolicyInput (\<lambda>_. []) ?b of Inl _ \<Rightarrow> False
     | Inr p \<Rightarrow> pi_smscId p = Some ''mtn-ug'' \<and> pi_maxAttempts p = 3)"
    by code_simp
  then obtain p where p: "parsePolicyInput (\<lambda>_. []) ?b = Inr p"
    "pi_smscId p = Some ''mtn-ug'' \<and> pi_maxAttempts p = 3"
    by (auto split: sum.splits)
  with parsePolicyInput_within_checks [OF p(1)] show ?thesis by blast
qed

end
