(* ===== verification/ContentRegex.thy ===== *)
theory ContentRegex
  imports JsValue
begin

section \<open>Regex safety on the send path: messaging-depth/content-rule-regex.ts\<close>

text \<open>
  The static scanner that refuses expressions whose backtracking can blow up, the truncation of
  the subject and the timed execution. The position \<open>i\<close> in the pattern is modelled by the rest
  of the pattern from there. \<open>scanBody\<close> is recursive inside its own loop; it takes fuel, one
  unit per loop round or group entered, and \<open>scanBody_enough_fuel\<close> shows that one more than
  the length of the pattern is always enough. The regular-expression engine (\<open>new RegExp\<close>, as a
  syntax test, and \<open>test\<close>) is an argument.
\<close>

definition MAX_REGEX_PATTERN_LENGTH :: nat where "MAX_REGEX_PATTERN_LENGTH = 256"
definition MAX_REPEAT_BOUND :: nat where "MAX_REPEAT_BOUND = 100"
definition MAX_QUANTIFIERS :: nat where "MAX_QUANTIFIERS = 12"
definition MAX_UNBOUNDED_QUANTIFIERS :: nat where "MAX_UNBOUNDED_QUANTIFIERS = 3"
definition DEFAULT_MAX_REGEX_INPUT :: int where "DEFAULT_MAX_REGEX_INPUT = 1024"
definition DEFAULT_REGEX_BUDGET_MS :: int where "DEFAULT_REGEX_BUDGET_MS = 25"

text \<open>The two settings, on the value of the environment variable.\<close>

definition maxRegexInputLength :: "string option \<Rightarrow> int" where
  "maxRegexInputLength env =
     (case (case env of None \<Rightarrow> Fin (of_int DEFAULT_MAX_REGEX_INPUT) | Some s \<Rightarrow> string_to_number s) of
        Fin q \<Rightarrow> if q < 32 then DEFAULT_MAX_REGEX_INPUT else min \<lfloor>q\<rfloor> 4096
      | _ \<Rightarrow> DEFAULT_MAX_REGEX_INPUT)"

definition regexBudgetMs :: "string option \<Rightarrow> int" where
  "regexBudgetMs env =
     (case (case env of None \<Rightarrow> Fin (of_int DEFAULT_REGEX_BUDGET_MS) | Some s \<Rightarrow> string_to_number s) of
        Fin q \<Rightarrow> if q \<le> 0 then DEFAULT_REGEX_BUDGET_MS else min \<lfloor>q\<rfloor> 1000
      | _ \<Rightarrow> DEFAULT_REGEX_BUDGET_MS)"

datatype regex_rejection =
    RxEmpty
  | RxTooLong
  | RxInvalidSyntax
  | RxBackreference
  | RxLookbehind
  | RxNestedQuantifier
  | RxRepeatBoundTooLarge
  | RxTooManyQuantifiers
  | RxTooManyUnbounded

record scan_state =
  sc_quantifiers :: nat
  sc_unbounded :: nat

subsection \<open>Reading quantifiers and classes\<close>

definition is_lazy_mark :: "string \<Rightarrow> bool" where
  "is_lazy_mark s = (case s of c # _ \<Rightarrow> c = CHR ''?'' \<or> c = CHR ''+'' | [] \<Rightarrow> False)"

text \<open>
  \<open>/^(\<backslash>d+)(,(\<backslash>d*)?)?$/\<close> on the text between the braces: the lower bound, and the upper bound,
  \<open>None\<close> for infinity.
\<close>

definition repeat_bounds :: "string \<Rightarrow> (nat \<times> nat option) option" where
  "repeat_bounds body =
     (let lo = takeWhile is_digit body; rest = dropWhile is_digit body
      in if lo = [] then None
         else case rest of
                [] \<Rightarrow> Some (decimal_value lo, Some (decimal_value lo))
              | c # hi \<Rightarrow>
                  if c = CHR '','' \<and> list_all is_digit hi
                  then Some (decimal_value lo, if hi = [] then None else Some (decimal_value hi))
                  else None)"

text \<open>The width of the quantifier at the start of the text, 0 for none, and its unboundedness.\<close>

definition readQuantifier :: "string \<Rightarrow> (regex_rejection, nat \<times> bool) result" where
  "readQuantifier s =
     (case s of
        [] \<Rightarrow> Inr (0, False)
      | c # t \<Rightarrow>
          if c = CHR ''*'' \<or> c = CHR ''+'' then Inr (if is_lazy_mark t then 2 else 1, True)
          else if c = CHR ''?'' then Inr (if is_lazy_mark t then 2 else 1, False)
          else if c \<noteq> CHR ''{'' \<or> CHR ''}'' \<notin> set s then Inr (0, False)
          else
            let body = takeWhile (\<lambda>x. x \<noteq> CHR ''}'') t
            in case repeat_bounds body of
                 None \<Rightarrow> Inr (0, False)
               | Some (lo, hi) \<Rightarrow>
                   if lo > MAX_REPEAT_BOUND \<or> (case hi of None \<Rightarrow> False | Some h \<Rightarrow> h > MAX_REPEAT_BOUND)
                   then Inl RxRepeatBoundTooLarge
                   else Inr (length body + 2 + (if is_lazy_mark (drop (length body + 1) t) then 1 else 0),
                             hi = None))"

text \<open>The rest after the class whose \<open>[\<close> has just been read.\<close>

fun class_end :: "string \<Rightarrow> string" where
  "class_end [] = []"
| "class_end (c # s) =
     (if c = CHR 0x5C then (case s of [] \<Rightarrow> [] | _ # t \<Rightarrow> class_end t)
      else if c = CHR '']'' then s else class_end s)"

definition skipCharClass :: "string \<Rightarrow> string" where
  "skipCharClass s =
     (let t = (if prefix ''^'' s then drop 1 s else s)
      in class_end (if prefix '']'' t then drop 1 t else t))"

text \<open>The body of the group whose \<open>(\<close> has just been read.\<close>

definition groupBodyStart :: "string \<Rightarrow> string" where
  "groupBodyStart s =
     (if \<not> prefix ''?'' s then s
      else if prefix ''?:'' s \<or> prefix ''?='' s \<or> prefix ''?!'' s then drop 2 s
      else if prefix ''?<'' s then
        (if CHR ''>'' \<in> set (drop 1 s) then drop 1 (dropWhile (\<lambda>c. c \<noteq> CHR ''>'') (drop 1 s)) else drop 2 s)
      else drop 1 s)"

subsection \<open>The scanner\<close>

definition countQuantifier :: "bool \<Rightarrow> scan_state \<Rightarrow> (regex_rejection, scan_state) result" where
  "countQuantifier unbounded st =
     (let q = sc_quantifiers st + 1; u = sc_unbounded st + (if unbounded then 1 else 0)
      in if q > MAX_QUANTIFIERS then Inl RxTooManyQuantifiers
         else if u > MAX_UNBOUNDED_QUANTIFIERS then Inl RxTooManyUnbounded
         else Inr \<lparr>sc_quantifiers = q, sc_unbounded = u\<rparr>)"

text \<open>After an atom: an optional quantifier, counted.\<close>

definition after_atom ::
    "string \<Rightarrow> bool \<Rightarrow> scan_state \<Rightarrow> (regex_rejection, string \<times> bool \<times> scan_state) result" where
  "after_atom s hq st =
     bind_result (readQuantifier s) (\<lambda>(width, unbounded).
       if width = 0 then Inr (s, hq, st)
       else bind_result (countQuantifier unbounded st) (\<lambda>st'. Inr (drop width s, True, st')))"

text \<open>After a group: the core check, and the shape of the group propagates outward.\<close>

definition after_group ::
    "string \<times> bool \<times> bool \<times> scan_state \<Rightarrow> bool \<Rightarrow> bool
     \<Rightarrow> (regex_rejection, string \<times> bool \<times> bool \<times> scan_state) result" where
  "after_group inner hq ha =
     (case inner of (s, iq, ia, st) \<Rightarrow>
        bind_result (readQuantifier s) (\<lambda>(width, unbounded).
          if width = 0 then Inr (s, hq \<or> iq, ha \<or> ia, st)
          else if iq \<or> ia then Inl RxNestedQuantifier
          else bind_result (countQuantifier unbounded st) (\<lambda>st'. Inr (drop width s, True, ha, st'))))"

definition after_escape :: "string \<Rightarrow> (regex_rejection, string) result" where
  "after_escape s =
     (case s of
        [] \<Rightarrow> Inr []
      | c # t \<Rightarrow>
          if 49 \<le> char_code c \<and> char_code c \<le> 57 then Inl RxBackreference
          else if c = CHR ''k'' then Inl RxBackreference
          else Inr t)"

type_synonym scan_outcome = "(regex_rejection, string \<times> bool \<times> bool \<times> scan_state) result"

fun scanBody :: "nat \<Rightarrow> string \<Rightarrow> bool \<Rightarrow> bool \<Rightarrow> scan_state \<Rightarrow> scan_outcome option" where
  "scanBody 0 s hq ha st = None"
| "scanBody (Suc n) [] hq ha st = Some (Inr ([], hq, ha, st))"
| "scanBody (Suc n) (c # s) hq ha st =
     (if c = CHR 0x5C then
        (case bind_result (after_escape s) (\<lambda>t. after_atom t hq st) of
           Inl e \<Rightarrow> Some (Inl e)
         | Inr (r, hq', st') \<Rightarrow> scanBody n r hq' ha st')
      else if c = CHR ''['' then
        (case after_atom (skipCharClass s) hq st of
           Inl e \<Rightarrow> Some (Inl e)
         | Inr (r, hq', st') \<Rightarrow> scanBody n r hq' ha st')
      else if c = CHR ''('' then
        (if prefix ''?<='' s \<or> prefix ''?<!'' s then Some (Inl RxLookbehind)
         else case scanBody n (groupBodyStart s) False False st of
                None \<Rightarrow> None
              | Some (Inl e) \<Rightarrow> Some (Inl e)
              | Some (Inr inner) \<Rightarrow>
                  (case after_group inner hq ha of
                     Inl e \<Rightarrow> Some (Inl e)
                   | Inr (r, hq', ha', st') \<Rightarrow> scanBody n r hq' ha' st'))
      else if c = CHR '')'' then Some (Inr (s, hq, ha, st))
      else if c = CHR ''|'' then scanBody n s hq True st
      else
        (case after_atom s hq st of
           Inl e \<Rightarrow> Some (Inl e)
         | Inr (r, hq', st') \<Rightarrow> scanBody n r hq' ha st'))"

definition scan_pattern :: "string \<Rightarrow> scan_outcome option" where
  "scan_pattern pattern =
     scanBody (Suc (length pattern)) pattern False False \<lparr>sc_quantifiers = 0, sc_unbounded = 0\<rparr>"

text \<open>\<open>syntax_ok\<close> says whether \<open>new RegExp(pattern)\<close> returns.\<close>

definition checkRegexPattern :: "(string \<Rightarrow> bool) \<Rightarrow> string \<Rightarrow> (regex_rejection, unit) result" where
  "checkRegexPattern syntax_ok pattern =
     (if pattern = [] then Inl RxEmpty
      else if length pattern > MAX_REGEX_PATTERN_LENGTH then Inl RxTooLong
      else if \<not> syntax_ok pattern then Inl RxInvalidSyntax
      else case scan_pattern pattern of
             Some (Inl e) \<Rightarrow> Inl e
           | _ \<Rightarrow> Inr ())"

subsection \<open>Bounded execution\<close>

definition boundRegexInput :: "string option \<Rightarrow> string \<Rightarrow> string" where
  "boundRegexInput env v =
     (if int (length v) > maxRegexInputLength env then take (nat (maxRegexInputLength env)) v else v)"

record bounded_regex_result =
  br_matched :: bool
  br_elapsedMs :: int
  br_overBudget :: bool

text \<open>
  \<open>engine\<close> is \<open>regex.test\<close>, \<open>None\<close> when it throws; \<open>started\<close> and \<open>ended\<close> are the two readings
  of the clock.
\<close>

definition runBoundedRegex ::
    "string option \<Rightarrow> string option \<Rightarrow> (string \<Rightarrow> bool option) \<Rightarrow> string \<Rightarrow> int \<Rightarrow> int
     \<Rightarrow> bounded_regex_result" where
  "runBoundedRegex inputEnv budgetEnv engine subject started ended =
     (case engine (boundRegexInput inputEnv subject) of
        None \<Rightarrow> \<lparr>br_matched = False, br_elapsedMs = ended - started, br_overBudget = True\<rparr>
      | Some matched \<Rightarrow>
          \<lparr>br_matched = matched, br_elapsedMs = ended - started,
           br_overBudget = ended - started > regexBudgetMs budgetEnv\<rparr>)"

subsection \<open>Fuel\<close>

lemma after_atom_length: "after_atom s hq st = Inr (r, x) \<Longrightarrow> length r \<le> length s"
  by (cases x) (auto simp: after_atom_def bind_result_Inr_iff split: if_splits)

lemma after_group_length:
  "after_group (s, iq, ia, st) hq ha = Inr (r, x) \<Longrightarrow> length r \<le> length s"
  by (cases x) (auto simp: after_group_def bind_result_Inr_iff split: if_splits)

lemma after_escape_length: "after_escape s = Inr t \<Longrightarrow> length t \<le> length s"
  by (auto simp: after_escape_def split: list.splits if_splits)

lemma class_end_length: "length (class_end s) \<le> length s"
proof (induction s rule: class_end.induct)
  case (2 c s)
  then show ?case
    by (cases "c = CHR 0x5C") (auto split: list.split intro: le_SucI)
qed simp

lemma skipCharClass_length: "length (skipCharClass s) \<le> length s"
  unfolding skipCharClass_def Let_def
  by (rule order_trans [OF class_end_length]) simp

lemma groupBodyStart_length: "length (groupBodyStart s) \<le> length s"
  using length_dropWhile_le [of "\<lambda>c. c \<noteq> CHR ''>''" "drop 1 s"]
  by (auto simp: groupBodyStart_def)

lemma scanBody_enough_fuel:
  "length s < n \<Longrightarrow>
     \<exists>out. scanBody n s hq ha st = Some out \<and> (\<forall>r x. out = Inr (r, x) \<longrightarrow> length r \<le> length s)"
proof (induction n arbitrary: s hq ha st)
  case (Suc n)
  show ?case
  proof (cases s)
    case (Cons c t)
    have step: "\<exists>out. (case m of Inl e \<Rightarrow> Some (Inl e) | Inr (r, hq', st') \<Rightarrow> scanBody n r hq' ha st') = Some out
        \<and> (\<forall>r x. out = Inr (r, x) \<longrightarrow> length r \<le> Suc (length t))"
      if "\<And>r x. m = Inr (r, x) \<Longrightarrow> length r \<le> length t" for m :: "(regex_rejection, string \<times> bool \<times> scan_state) result"
    proof (cases m)
      case (Inr p)
      obtain r hq' st' where p: "p = (r, hq', st')" by (cases p)
      have "length r \<le> length t" using that Inr p by blast
      with Suc.IH [of r hq' ha st'] Suc.prems Cons Inr p show ?thesis by fastforce
    qed simp
    have group: "\<exists>out. (case scanBody n (groupBodyStart t) False False st of
                None \<Rightarrow> None
              | Some (Inl e) \<Rightarrow> Some (Inl e)
              | Some (Inr inner) \<Rightarrow>
                  (case after_group inner hq ha of
                     Inl e \<Rightarrow> Some (Inl e)
                   | Inr (r, hq', ha', st') \<Rightarrow> scanBody n r hq' ha' st')) = Some out
        \<and> (\<forall>r x. out = Inr (r, x) \<longrightarrow> length r \<le> Suc (length t))"
    proof -
      have g: "length (groupBodyStart t) < n" using groupBodyStart_length [of t] Suc.prems Cons by simp
      obtain out where out: "scanBody n (groupBodyStart t) False False st = Some out"
        "\<forall>r x. out = Inr (r, x) \<longrightarrow> length r \<le> length (groupBodyStart t)"
        using Suc.IH [OF g] by blast
      show ?thesis
      proof (cases out)
        case (Inr p)
        obtain s1 iq ia st1 where p: "p = (s1, iq, ia, st1)" by (cases p)
        with out Inr have s1: "length s1 \<le> length t" using groupBodyStart_length [of t] by fastforce
        show ?thesis
        proof (cases "after_group p hq ha")
          case (Inr p2)
          obtain r hq' ha' st' where p2: "p2 = (r, hq', ha', st')" by (cases p2)
          have "length r \<le> length t"
            using after_group_length [of s1 iq ia st1 hq ha r "(hq', ha', st')"] Inr p p2 s1 by simp
          with Suc.IH [of r hq' ha' st'] Suc.prems Cons out \<open>out = Inr p\<close> Inr p2 show ?thesis by fastforce
        qed (use out Inr in simp)
      qed (use out in simp)
    qed
    have esc: "bind_result (after_escape t) (\<lambda>t. after_atom t hq st) = Inr (r, x) \<Longrightarrow> length r \<le> length t" for r x
      by (auto simp: bind_result_Inr_iff dest!: after_atom_length after_escape_length)
    have cls: "after_atom (skipCharClass t) hq st = Inr (r, x) \<Longrightarrow> length r \<le> length t" for r x
      using skipCharClass_length [of t] by (auto dest!: after_atom_length)
    have bar: "\<exists>out. scanBody n t hq True st = Some out \<and> (\<forall>r x. out = Inr (r, x) \<longrightarrow> length r \<le> Suc (length t))"
      using Suc.IH [of t hq True st] Suc.prems Cons by fastforce
    show ?thesis
      unfolding Cons scanBody.simps
      using step [OF esc] step [OF cls] step [OF after_atom_length] group bar by auto
  qed simp
qed simp

subsection \<open>Expressions as trees\<close>

text \<open>
  The expressions of the language, without the spellings on which the scanner and the language
  disagree (a class with no element, see the finding on \<open>skipCharClass\<close>), and their source text.
\<close>

datatype quantifier = Star | Plus | Opt | Exactly nat | AtLeast nat | Between nat nat

datatype class_item = PlainItem char | EscapedItem char

datatype group_kind = Capture | NonCapture | LookAhead | NegativeLookAhead | Named string
  | LookBehind | NegativeLookBehind

datatype rx_item =
    Bar
  | Lit char "(quantifier \<times> bool) option"
  | Escape char "(quantifier \<times> bool) option"
  | CharClass bool "class_item list" "(quantifier \<times> bool) option"
  | Group group_kind "rx_item list" "(quantifier \<times> bool) option"

fun quantifier_text :: "quantifier \<Rightarrow> string" where
  "quantifier_text Star = ''*''"
| "quantifier_text Plus = ''+''"
| "quantifier_text Opt = ''?''"
| "quantifier_text (Exactly n) = ''{'' @ show_nat n @ ''}''"
| "quantifier_text (AtLeast n) = ''{'' @ show_nat n @ '',}''"
| "quantifier_text (Between n m) = ''{'' @ show_nat n @ '','' @ show_nat m @ ''}''"

fun quant_text :: "(quantifier \<times> bool) option \<Rightarrow> string" where
  "quant_text None = []"
| "quant_text (Some (k, lazy)) = quantifier_text k @ (if lazy then ''?'' else [])"

fun class_text :: "class_item list \<Rightarrow> string" where
  "class_text [] = []"
| "class_text (PlainItem c # xs) = c # class_text xs"
| "class_text (EscapedItem c # xs) = CHR 0x5C # c # class_text xs"

fun kind_text :: "group_kind \<Rightarrow> string" where
  "kind_text Capture = []"
| "kind_text NonCapture = ''?:''"
| "kind_text LookAhead = ''?=''"
| "kind_text NegativeLookAhead = ''?!''"
| "kind_text (Named n) = ''?<'' @ n @ ''>''"
| "kind_text LookBehind = ''?<=''"
| "kind_text NegativeLookBehind = ''?<!''"

fun rx_text :: "rx_item list \<Rightarrow> string" where
  "rx_text [] = []"
| "rx_text (Bar # xs) = ''|'' @ rx_text xs"
| "rx_text (Lit c q # xs) = [c] @ quant_text q @ rx_text xs"
| "rx_text (Escape c q # xs) = [CHR 0x5C, c] @ quant_text q @ rx_text xs"
| "rx_text (CharClass neg items q # xs) =
     ''['' @ (if neg then ''^'' else []) @ class_text items @ '']'' @ quant_text q @ rx_text xs"
| "rx_text (Group k ys q # xs) =
     ''('' @ kind_text k @ rx_text ys @ '')'' @ quant_text q @ rx_text xs"

definition rx_special :: "char set" where
  "rx_special = {CHR 0x5C, CHR ''['', CHR ''('', CHR '')'', CHR ''|'', CHR ''*'', CHR ''+'', CHR ''?'', CHR ''{''}"

fun class_item_wf :: "class_item \<Rightarrow> bool" where
  "class_item_wf (PlainItem c) \<longleftrightarrow> c \<noteq> CHR '']'' \<and> c \<noteq> CHR 0x5C"
| "class_item_wf (EscapedItem c) \<longleftrightarrow> True"

fun kind_wf :: "group_kind \<Rightarrow> bool" where
  "kind_wf (Named n) \<longleftrightarrow> n \<noteq> [] \<and> CHR ''>'' \<notin> set n \<and> hd n \<noteq> CHR ''='' \<and> hd n \<noteq> CHR ''!''"
| "kind_wf _ \<longleftrightarrow> True"

fun rx_wf :: "rx_item list \<Rightarrow> bool" where
  "rx_wf [] \<longleftrightarrow> True"
| "rx_wf (Bar # xs) \<longleftrightarrow> rx_wf xs"
| "rx_wf (Lit c q # xs) \<longleftrightarrow> c \<notin> rx_special \<and> rx_wf xs"
| "rx_wf (Escape c q # xs) \<longleftrightarrow> rx_wf xs"
| "rx_wf (CharClass neg items q # xs) \<longleftrightarrow>
     items \<noteq> [] \<and> list_all class_item_wf items \<and> (\<not> neg \<longrightarrow> hd items \<noteq> PlainItem (CHR ''^'')) \<and> rx_wf xs"
| "rx_wf (Group k ys q # xs) \<longleftrightarrow> kind_wf k \<and> rx_wf ys \<and> rx_wf xs"

text \<open>What makes an expression safe, on the tree.\<close>

fun rx_quantifiers :: "rx_item list \<Rightarrow> quantifier list" where
  "rx_quantifiers [] = []"
| "rx_quantifiers (Bar # xs) = rx_quantifiers xs"
| "rx_quantifiers (Lit c q # xs) = map fst (case q of None \<Rightarrow> [] | Some k \<Rightarrow> [k]) @ rx_quantifiers xs"
| "rx_quantifiers (Escape c q # xs) = map fst (case q of None \<Rightarrow> [] | Some k \<Rightarrow> [k]) @ rx_quantifiers xs"
| "rx_quantifiers (CharClass n i q # xs) = map fst (case q of None \<Rightarrow> [] | Some k \<Rightarrow> [k]) @ rx_quantifiers xs"
| "rx_quantifiers (Group k ys q # xs) =
     rx_quantifiers ys @ map fst (case q of None \<Rightarrow> [] | Some k \<Rightarrow> [k]) @ rx_quantifiers xs"

fun rx_alternates :: "rx_item list \<Rightarrow> bool" where
  "rx_alternates [] \<longleftrightarrow> False"
| "rx_alternates (Bar # xs) \<longleftrightarrow> True"
| "rx_alternates (Group k ys q # xs) \<longleftrightarrow> rx_alternates ys \<or> rx_alternates xs"
| "rx_alternates (x # xs) \<longleftrightarrow> rx_alternates xs"

text \<open>No quantified group holds a quantifier or an alternation, at any depth.\<close>

fun rx_flat :: "rx_item list \<Rightarrow> bool" where
  "rx_flat [] \<longleftrightarrow> True"
| "rx_flat (Group k ys q # xs) \<longleftrightarrow>
     rx_flat ys \<and> (q = None \<or> rx_quantifiers ys = [] \<and> \<not> rx_alternates ys) \<and> rx_flat xs"
| "rx_flat (x # xs) \<longleftrightarrow> rx_flat xs"

text \<open>No backreference and no lookbehind.\<close>

fun rx_plain :: "rx_item list \<Rightarrow> bool" where
  "rx_plain [] \<longleftrightarrow> True"
| "rx_plain (Group k ys q # xs) \<longleftrightarrow>
     k \<noteq> LookBehind \<and> k \<noteq> NegativeLookBehind \<and> rx_plain ys \<and> rx_plain xs"
| "rx_plain (Escape c q # xs) \<longleftrightarrow>
     \<not> (49 \<le> char_code c \<and> char_code c \<le> 57) \<and> c \<noteq> CHR ''k'' \<and> rx_plain xs"
| "rx_plain (x # xs) \<longleftrightarrow> rx_plain xs"

fun quantifier_bounded :: "quantifier \<Rightarrow> bool" where
  "quantifier_bounded (Exactly n) \<longleftrightarrow> n \<le> MAX_REPEAT_BOUND"
| "quantifier_bounded (AtLeast n) \<longleftrightarrow> n \<le> MAX_REPEAT_BOUND"
| "quantifier_bounded (Between n m) \<longleftrightarrow> n \<le> MAX_REPEAT_BOUND \<and> m \<le> MAX_REPEAT_BOUND"
| "quantifier_bounded _ \<longleftrightarrow> True"

fun quantifier_unbounded :: "quantifier \<Rightarrow> bool" where
  "quantifier_unbounded Star \<longleftrightarrow> True"
| "quantifier_unbounded Plus \<longleftrightarrow> True"
| "quantifier_unbounded (AtLeast n) \<longleftrightarrow> True"
| "quantifier_unbounded _ \<longleftrightarrow> False"

definition unbounded_count :: "quantifier list \<Rightarrow> nat" where
  "unbounded_count ks = length (filter quantifier_unbounded ks)"

definition rx_safe_from :: "scan_state \<Rightarrow> rx_item list \<Rightarrow> bool" where
  "rx_safe_from st xs \<longleftrightarrow>
     rx_plain xs \<and> rx_flat xs \<and> list_all quantifier_bounded (rx_quantifiers xs)
     \<and> sc_quantifiers st + length (rx_quantifiers xs) \<le> MAX_QUANTIFIERS
     \<and> sc_unbounded st + unbounded_count (rx_quantifiers xs) \<le> MAX_UNBOUNDED_QUANTIFIERS"

definition rx_safe :: "rx_item list \<Rightarrow> bool" where
  "rx_safe xs \<longleftrightarrow> rx_safe_from \<lparr>sc_quantifiers = 0, sc_unbounded = 0\<rparr> xs"

subsection \<open>The scanner reads back the tree\<close>

definition calm :: "string \<Rightarrow> bool" where
  "calm u \<longleftrightarrow> (case u of [] \<Rightarrow> True
     | c # _ \<Rightarrow> c \<noteq> CHR ''*'' \<and> c \<noteq> CHR ''+'' \<and> c \<noteq> CHR ''?'' \<and> c \<noteq> CHR ''{'')"

lemma calm_readQuantifier: "calm u \<Longrightarrow> readQuantifier u = Inr (0, False)"
  by (cases u) (simp_all add: calm_def readQuantifier_def)

lemma calm_not_lazy: "calm u \<Longrightarrow> \<not> is_lazy_mark u"
  by (cases u) (simp_all add: calm_def is_lazy_mark_def)

lemma calm_append: "calm u \<Longrightarrow> calm v \<Longrightarrow> calm (u @ v)"
  by (cases u) (simp_all add: calm_def)

lemma calm_rx_text: "rx_wf xs \<Longrightarrow> calm (rx_text xs)"
  by (cases xs rule: rx_text.cases) (simp_all add: calm_def rx_special_def)

lemma calm_close: "calm (CHR '')'' # s)" "calm []"
  by (simp_all add: calm_def)

lemma digits_show_nat: "x \<in> set (show_nat n) \<Longrightarrow> is_digit x"
  using show_nat_digits [of n] by (simp add: list_all_iff)

lemma digits_split:
  "list_all is_digit d \<Longrightarrow> \<not> is_digit c \<Longrightarrow>
     takeWhile is_digit (d @ c # s) = d \<and> dropWhile is_digit (d @ c # s) = c # s"
  by (induction d) simp_all

lemma digits_all: "list_all is_digit d \<Longrightarrow> takeWhile is_digit d = d \<and> dropWhile is_digit d = []"
  by (induction d) simp_all

lemma not_digit_marks:
  "\<not> is_digit (CHR '','')" "\<not> is_digit (CHR ''}'')"
  by (simp_all add: is_digit_def char_code_def)

lemma repeat_bounds_text:
  "repeat_bounds (show_nat n) = Some (n, Some n)"
  "repeat_bounds (show_nat n @ '','') = Some (n, None)"
  "repeat_bounds (show_nat n @ '','' @ show_nat m) = Some (n, Some m)"
  using digits_split [OF show_nat_digits not_digit_marks(1), of n "[]"]
    digits_split [OF show_nat_digits not_digit_marks(1), of n "show_nat m"]
  by (simp_all add: repeat_bounds_def show_nat_digits not_digit_marks digits_all [OF show_nat_digits])

lemma no_brace_digits: "x \<in> set (show_nat n) \<Longrightarrow> x \<noteq> CHR ''}''"
  using digits_show_nat not_digit_marks(2) by blast

lemma brace_body:
  assumes "\<And>x. x \<in> set b \<Longrightarrow> x \<noteq> CHR ''}''" and "repeat_bounds b = Some (lo, hi)" and "calm u"
  shows "readQuantifier (''{'' @ b @ ''}'' @ (if lazy then ''?'' else []) @ u) =
    (if lo > MAX_REPEAT_BOUND \<or> (case hi of None \<Rightarrow> False | Some h \<Rightarrow> h > MAX_REPEAT_BOUND)
     then Inl RxRepeatBoundTooLarge
     else Inr (length b + 2 + (if lazy then 1 else 0), hi = None))"
proof -
  let ?t = "b @ ''}'' @ (if lazy then ''?'' else []) @ u"
  have tw: "takeWhile (\<lambda>x. x \<noteq> CHR ''}'') ?t = b"
    using assms(1) by (simp add: takeWhile_append)
  have lz: "is_lazy_mark (drop (length b + 1) ?t) = lazy"
    using calm_not_lazy [OF assms(3)] by (simp add: is_lazy_mark_def)
  show ?thesis
    unfolding readQuantifier_def
    by (simp add: tw [simplified] lz [simplified] assms(2) Let_def split: if_splits)
qed

lemma readQuantifier_text:
  assumes "calm u"
  shows "readQuantifier (quant_text (Some (k, lazy)) @ u) =
    (if quantifier_bounded k
     then Inr (length (quant_text (Some (k, lazy))), quantifier_unbounded k)
     else Inl RxRepeatBoundTooLarge)"
proof (cases k)
  case (Exactly n)
  with brace_body [OF _ repeat_bounds_text(1) assms] no_brace_digits [of _ n]
  show ?thesis by auto
next
  case (AtLeast n)
  have "x \<noteq> CHR ''}''" if "x \<in> set (show_nat n @ '','')" for x
    using that no_brace_digits [of x n] by auto
  from brace_body [OF this repeat_bounds_text(2) assms] AtLeast
  show ?thesis by auto
next
  case (Between n m)
  have "x \<noteq> CHR ''}''" if "x \<in> set (show_nat n @ '','' @ show_nat m)" for x
    using that no_brace_digits [of x n] no_brace_digits [of x m] by auto
  from brace_body [OF this repeat_bounds_text(3) assms] Between
  show ?thesis by auto
qed (use calm_not_lazy [OF assms] in \<open>auto simp: readQuantifier_def is_lazy_mark_def\<close>)

definition quant_step ::
    "(quantifier \<times> bool) option \<Rightarrow> bool \<Rightarrow> scan_state \<Rightarrow> (regex_rejection, bool \<times> scan_state) result" where
  "quant_step q hq st =
     (case q of
        None \<Rightarrow> Inr (hq, st)
      | Some (k, lazy) \<Rightarrow>
          if \<not> quantifier_bounded k then Inl RxRepeatBoundTooLarge
          else bind_result (countQuantifier (quantifier_unbounded k) st) (\<lambda>st'. Inr (True, st')))"

lemma quant_text_length: "length (quant_text (Some (k, lazy))) \<noteq> 0"
  by (cases k) simp_all

lemma after_atom_text:
  assumes "calm u"
  shows "after_atom (quant_text q @ u) hq st =
    bind_result (quant_step q hq st) (\<lambda>(hq', st'). Inr (u, hq', st'))"
proof (cases q)
  case None
  then show ?thesis by (simp add: after_atom_def quant_step_def calm_readQuantifier [OF assms])
next
  case (Some kl)
  obtain k lazy where kl: "kl = (k, lazy)" by (cases kl)
  show ?thesis
    using quant_text_length [of k lazy]
    by (simp add: after_atom_def quant_step_def Some kl readQuantifier_text [OF assms]
        bind_result_def split: sum.split del: quant_text.simps)
qed

lemma after_group_text:
  assumes "calm u"
  shows "after_group (quant_text q @ u, iq, ia, st) hq ha =
    (case q of None \<Rightarrow> Inr (u, hq \<or> iq, ha \<or> ia, st)
     | Some (k, lazy) \<Rightarrow>
         if \<not> quantifier_bounded k then Inl RxRepeatBoundTooLarge
         else if iq \<or> ia then Inl RxNestedQuantifier
         else bind_result (countQuantifier (quantifier_unbounded k) st) (\<lambda>st'. Inr (u, True, ha, st')))"
proof (cases q)
  case None
  then show ?thesis by (simp add: after_group_def calm_readQuantifier [OF assms])
next
  case (Some kl)
  obtain k lazy where kl: "kl = (k, lazy)" by (cases kl)
  show ?thesis
    using quant_text_length [of k lazy]
    by (simp add: after_group_def Some kl readQuantifier_text [OF assms] del: quant_text.simps)
qed

lemma class_end_text:
  "list_all class_item_wf items \<Longrightarrow> class_end (class_text items @ CHR '']'' # u) = u"
  by (induction items rule: class_text.induct) simp_all

lemma skipCharClass_text:
  assumes "items \<noteq> []" "list_all class_item_wf items" "\<not> neg \<longrightarrow> hd items \<noteq> PlainItem (CHR ''^'')"
  shows "skipCharClass ((if neg then ''^'' else []) @ class_text items @ CHR '']'' # u) = u"
proof -
  obtain i js where items: "items = i # js" using assms(1) by (cases items) auto
  have "\<not> prefix '']'' (class_text items @ CHR '']'' # u)"
    using assms(2) items by (cases i) auto
  moreover have "\<not> neg \<Longrightarrow> \<not> prefix ''^'' (class_text items @ CHR '']'' # u)"
    using assms(3) items by (cases i) auto
  ultimately show ?thesis
    using class_end_text [OF assms(2), of u] by (simp add: skipCharClass_def)
qed

lemma groupBodyStart_text:
  assumes "kind_wf k" "k \<noteq> LookBehind" "k \<noteq> NegativeLookBehind" "calm u"
  shows "groupBodyStart (kind_text k @ u) = u"
    "\<not> prefix ''?<='' (kind_text k @ u)" "\<not> prefix ''?<!'' (kind_text k @ u)"
proof -
  have named: "dropWhile (\<lambda>c. c \<noteq> CHR ''>'') (n @ CHR ''>'' # u) = CHR ''>'' # u"
    if "CHR ''>'' \<notin> set n" for n
    using that by (induction n) auto
  have "\<not> prefix ''?'' u"
    using assms(4) by (cases u) (auto simp: calm_def)
  then show "groupBodyStart (kind_text k @ u) = u"
    using assms(1-3) named
    by (cases k; cases u) (auto simp: groupBodyStart_def neq_Nil_conv)
  show "\<not> prefix ''?<='' (kind_text k @ u)" "\<not> prefix ''?<!'' (kind_text k @ u)"
    using assms(1-3) \<open>\<not> prefix ''?'' u\<close> by (cases k; cases u; auto simp: neq_Nil_conv)+
qed

subsection \<open>Main lemma\<close>

definition counts :: "scan_state \<Rightarrow> quantifier list \<Rightarrow> scan_state" where
  "counts st ks = \<lparr>sc_quantifiers = sc_quantifiers st + length ks,
                   sc_unbounded = sc_unbounded st + unbounded_count ks\<rparr>"

definition in_caps :: "scan_state \<Rightarrow> bool" where
  "in_caps st \<longleftrightarrow> sc_quantifiers st \<le> MAX_QUANTIFIERS \<and> sc_unbounded st \<le> MAX_UNBOUNDED_QUANTIFIERS"

definition quants_of :: "(quantifier \<times> bool) option \<Rightarrow> quantifier list" where
  "quants_of q = map fst (case q of None \<Rightarrow> [] | Some k \<Rightarrow> [k])"

lemma counts_simps [simp]:
  "counts st [] = st" "counts (counts st ks) ls = counts st (ks @ ls)"
  by (simp_all add: counts_def unbounded_count_def)

lemma counts_mono: "in_caps (counts st (ks @ ls)) \<Longrightarrow> in_caps (counts st ks)"
  by (simp add: in_caps_def counts_def unbounded_count_def)

lemma rx_safe_from_iff:
  "rx_safe_from st xs \<longleftrightarrow> rx_plain xs \<and> rx_flat xs \<and> list_all quantifier_bounded (rx_quantifiers xs)
     \<and> in_caps (counts st (rx_quantifiers xs))"
  by (simp add: rx_safe_from_def in_caps_def counts_def)

lemma quant_step_ok:
  "list_all quantifier_bounded (quants_of q) \<Longrightarrow> in_caps (counts st (quants_of q)) \<Longrightarrow>
     quant_step q hq st = Inr (hq \<or> quants_of q \<noteq> [], counts st (quants_of q))"
  by (cases q) (auto simp: quant_step_def quants_of_def countQuantifier_def in_caps_def counts_def
      unbounded_count_def Let_def)

lemma quant_step_bad:
  "in_caps st \<Longrightarrow> \<not> (list_all quantifier_bounded (quants_of q) \<and> in_caps (counts st (quants_of q))) \<Longrightarrow>
     \<exists>e. quant_step q hq st = Inl e"
  by (cases q) (auto simp: quant_step_def quants_of_def countQuantifier_def in_caps_def counts_def
      unbounded_count_def Let_def)

text \<open>The specification of one scan, from any state within the caps.\<close>

definition scan_spec ::
    "rx_item list \<Rightarrow> string \<Rightarrow> bool \<Rightarrow> bool \<Rightarrow> scan_state \<Rightarrow> scan_outcome option \<Rightarrow> bool" where
  "scan_spec xs rest hq ha st out \<longleftrightarrow>
     (if rx_safe_from st xs
      then out = Some (Inr (drop 1 rest, hq \<or> rx_quantifiers xs \<noteq> [], ha \<or> rx_alternates xs,
                            counts st (rx_quantifiers xs)))
      else \<exists>e. out = Some (Inl e))"

text \<open>An atom with its quantifier, followed by more.\<close>

lemma scan_spec_atom:
  assumes "in_caps st" and "calm u"
    and step: "\<And>hq' st'. in_caps st' \<Longrightarrow> scan_spec xs rest hq' ha st' (scanBody n u hq' ha st')"
    and zs: "rx_quantifiers zs = quants_of q @ rx_quantifiers xs" "rx_alternates zs = rx_alternates xs"
      "rx_flat zs = rx_flat xs" "rx_plain zs = rx_plain xs"
  shows "scan_spec zs rest hq ha st
    (case after_atom (quant_text q @ u) hq st of
       Inl e \<Rightarrow> Some (Inl e) | Inr (r, hq', st') \<Rightarrow> scanBody n r hq' ha st')"
proof (cases "list_all quantifier_bounded (quants_of q) \<and> in_caps (counts st (quants_of q))")
  case True
  let ?st = "counts st (quants_of q)" and ?hq = "hq \<or> quants_of q \<noteq> []"
  have "rx_safe_from st zs \<longleftrightarrow> rx_safe_from ?st xs"
    using True zs by (auto simp: rx_safe_from_iff)
  with step [of ?st ?hq] True zs show ?thesis
    unfolding after_atom_text [OF assms(2)] quant_step_ok [OF conjunct1 [OF True] conjunct2 [OF True]]
    by (auto simp: scan_spec_def)
next
  case False
  then have "\<not> rx_safe_from st zs"
    using zs counts_mono [of st "quants_of q" "rx_quantifiers xs"] by (auto simp: rx_safe_from_iff)
  with quant_step_bad [OF assms(1) False, of hq] show ?thesis
    unfolding after_atom_text [OF assms(2)] by (auto simp: scan_spec_def)
qed

lemma scanBody_text:
  "rx_wf xs \<Longrightarrow> rest = [] \<or> hd rest = CHR '')'' \<Longrightarrow> in_caps st \<Longrightarrow> length (rx_text xs @ rest) < n \<Longrightarrow>
     scan_spec xs rest hq ha st (scanBody n (rx_text xs @ rest) hq ha st)"
proof (induction xs arbitrary: rest hq ha st n rule: rx_text.induct)
  case 1
  obtain m where n: "n = Suc m" using 1 by (cases n) auto
  with 1 show ?case
    by (cases rest) (auto simp: scan_spec_def rx_safe_from_iff)
next
  case (2 xs)
  obtain m where n: "n = Suc m" using 2 by (cases n) auto
  have "rx_safe_from st (Bar # xs) \<longleftrightarrow> rx_safe_from st xs" by (simp add: rx_safe_from_iff)
  with 2 n show ?case by (auto simp: scan_spec_def)
next
  case (3 c q xs)
  obtain m where n: "n = Suc m" using 3 by (cases n) auto
  have calm: "calm (rx_text xs @ rest)"
    using 3 by (intro calm_append calm_rx_text) (cases rest; auto simp: calm_def)+
  have "scanBody n (rx_text (Lit c q # xs) @ rest) hq ha st =
     (case after_atom (quant_text q @ (rx_text xs @ rest)) hq st of
       Inl e \<Rightarrow> Some (Inl e) | Inr (r, hq', st') \<Rightarrow> scanBody m r hq' ha st')"
    using 3 n by (simp add: rx_special_def)
  moreover have "scan_spec (Lit c q # xs) rest hq ha st \<dots>"
    by (rule scan_spec_atom [OF 3(4) calm]) (use 3 n in \<open>simp_all add: quants_of_def\<close>)
  ultimately show ?case by simp
next
  case (4 c q xs)
  obtain m where n: "n = Suc m" using 4 by (cases n) auto
  have calm: "calm (rx_text xs @ rest)"
    using 4 by (intro calm_append calm_rx_text) (cases rest; auto simp: calm_def)+
  let ?bad = "49 \<le> char_code c \<and> char_code c \<le> 57 \<or> c = CHR ''k''"
  show ?case
  proof (cases ?bad)
    case True
    then have "\<not> rx_safe_from st (Escape c q # xs)" by (auto simp: rx_safe_from_iff)
    with True n show ?thesis by (auto simp: scan_spec_def after_escape_def)
  next
    case False
    then have "scanBody n (rx_text (Escape c q # xs) @ rest) hq ha st =
       (case after_atom (quant_text q @ (rx_text xs @ rest)) hq st of
         Inl e \<Rightarrow> Some (Inl e) | Inr (r, hq', st') \<Rightarrow> scanBody m r hq' ha st')"
      using n by (auto simp: after_escape_def)
    moreover have "scan_spec (Escape c q # xs) rest hq ha st \<dots>"
      by (rule scan_spec_atom [OF 4(4) calm]) (use 4 n False in \<open>auto simp: quants_of_def\<close>)
    ultimately show ?thesis by simp
  qed
next
  case (5 neg items q xs)
  obtain m where n: "n = Suc m" using 5 by (cases n) auto
  have calm: "calm (rx_text xs @ rest)"
    using 5 by (intro calm_append calm_rx_text) (cases rest; auto simp: calm_def)+
  have "scanBody n (rx_text (CharClass neg items q # xs) @ rest) hq ha st =
     (case after_atom (quant_text q @ (rx_text xs @ rest)) hq st of
       Inl e \<Rightarrow> Some (Inl e) | Inr (r, hq', st') \<Rightarrow> scanBody m r hq' ha st')"
    using 5 n skipCharClass_text [of items neg "quant_text q @ rx_text xs @ rest"] by simp
  moreover have "scan_spec (CharClass neg items q # xs) rest hq ha st \<dots>"
    by (rule scan_spec_atom [OF 5(4) calm]) (use 5 n in \<open>simp_all add: quants_of_def\<close>)
  ultimately show ?case by simp
next
  case (6 k ys q xs)
  obtain m where n: "n = Suc m" using 6 by (cases n) auto
  let ?u = "rx_text xs @ rest" and ?close = "CHR '')'' # quant_text q @ rx_text xs @ rest"
  let ?st = "counts st (rx_quantifiers ys)"
  have calm: "calm ?u"
    using 6 by (intro calm_append calm_rx_text) (cases rest; auto simp: calm_def)+
  show ?case
  proof (cases "k = LookBehind \<or> k = NegativeLookBehind")
    case True
    with n show ?thesis by (auto simp: scan_spec_def rx_safe_from_iff)
  next
    case False
    have "calm (rx_text ys @ ?close)"
      using 6 by (intro calm_append calm_rx_text calm_close) simp_all
    with groupBodyStart_text [of k "rx_text ys @ ?close"] False 6
    have out: "scanBody n (rx_text (Group k ys q # xs) @ rest) hq ha st =
      (case scanBody m (rx_text ys @ ?close) False False st of
         None \<Rightarrow> None
       | Some (Inl e) \<Rightarrow> Some (Inl e)
       | Some (Inr inner) \<Rightarrow>
           (case after_group inner hq ha of
              Inl e \<Rightarrow> Some (Inl e)
            | Inr (r, hq', ha', st') \<Rightarrow> scanBody m r hq' ha' st'))"
      using n by simp
    have inner: "scan_spec ys ?close False False st (scanBody m (rx_text ys @ ?close) False False st)"
      by (rule 6(1)) (use 6 n in simp_all)
    have more: "scan_spec xs rest hq' ha' st' (scanBody m ?u hq' ha' st')" if "in_caps st'" for hq' ha' st'
      by (rule 6(2)) (use 6 n that in simp_all)
    have plain: "rx_plain (Group k ys q # xs) \<longleftrightarrow> rx_plain ys \<and> rx_plain xs" using False by simp
    show ?thesis
    proof (cases "rx_safe_from st ys")
      case unsafe: False
      then have "\<not> rx_safe_from st (Group k ys q # xs)"
        using counts_mono by (auto simp: rx_safe_from_iff)
      with inner unsafe out show ?thesis by (auto simp: scan_spec_def)
    next
      case safe: True
      then have caps: "in_caps ?st" by (simp add: rx_safe_from_iff)
      have inner': "scanBody m (rx_text ys @ ?close) False False st =
          Some (Inr (quant_text q @ ?u, rx_quantifiers ys \<noteq> [], rx_alternates ys, ?st))"
        using inner safe by (simp add: scan_spec_def)
      show ?thesis
      proof (cases q)
        case None
        have "rx_safe_from st (Group k ys q # xs) \<longleftrightarrow> rx_safe_from ?st xs"
          using safe plain None by (auto simp: rx_safe_from_iff)
        moreover have "scanBody n (rx_text (Group k ys q # xs) @ rest) hq ha st =
            scanBody m ?u (hq \<or> rx_quantifiers ys \<noteq> []) (ha \<or> rx_alternates ys) ?st"
          unfolding out inner' by (simp add: after_group_text [OF calm] None del: quant_text.simps)
        ultimately show ?thesis
          using more [OF caps] None by (auto simp: scan_spec_def)
      next
        case (Some kl)
        obtain c lazy where q: "q = Some (c, lazy)" using Some by (cases kl) simp
        let ?nested = "rx_quantifiers ys \<noteq> [] \<or> rx_alternates ys"
        let ?st' = "counts st [c]"
        show ?thesis
        proof (cases "quantifier_bounded c \<and> \<not> ?nested \<and> in_caps ?st'")
          case good: True
          have "rx_safe_from st (Group k ys q # xs) \<longleftrightarrow> rx_safe_from ?st' xs"
            using safe plain q good by (auto simp: rx_safe_from_iff)
          moreover have "scanBody n (rx_text (Group k ys q # xs) @ rest) hq ha st =
              scanBody m ?u True ha ?st'"
            unfolding out inner' using good
            by (auto simp: after_group_text [OF calm] q countQuantifier_def in_caps_def counts_def
                unbounded_count_def Let_def simp del: quant_text.simps split: if_splits)
          ultimately show ?thesis
            using more [of ?st' True ha] good q by (auto simp: scan_spec_def)
        next
          case bad: False
          then have "\<not> rx_safe_from st (Group k ys q # xs)"
            using q counts_mono [of st "[c]" "rx_quantifiers xs"] by (auto simp: rx_safe_from_iff)
          moreover have "\<exists>e. scanBody n (rx_text (Group k ys q # xs) @ rest) hq ha st = Some (Inl e)"
            unfolding out inner' using bad
            by (auto simp: after_group_text [OF calm] q countQuantifier_def in_caps_def counts_def
                unbounded_count_def Let_def simp del: quant_text.simps)
          ultimately show ?thesis by (simp add: scan_spec_def)
        qed
      qed
    qed
  qed
qed

lemma scan_pattern_total: "\<exists>out. scan_pattern pattern = Some out"
  using scanBody_enough_fuel [of pattern "Suc (length pattern)"] unfolding scan_pattern_def by blast

lemma scan_pattern_text:
  "rx_wf xs \<Longrightarrow> (\<exists>x. scan_pattern (rx_text xs) = Some (Inr x)) \<longleftrightarrow> rx_safe xs"
  using scanBody_text [of xs "[]" "\<lparr>sc_quantifiers = 0, sc_unbounded = 0\<rparr>" "Suc (length (rx_text xs))" False False]
  by (auto simp: scan_spec_def scan_pattern_def rx_safe_def in_caps_def split: if_splits)

subsection \<open>Properties\<close>

text \<open>
  C31. The scanner decides safety. It returns on every text (the fuel is always enough), and on
  the source text of an expression tree (\<open>rx_wf\<close>: no empty class \<open>[]\<close> or \<open>[^]\<close>, no unescaped \<open>{\<close>
  as a literal, counts without leading zeros) the whole check accepts exactly when the text is not empty,
  at most 256 characters, valid syntax, and the expression has no backreference or lookbehind,
  no quantified group that contains a quantifier or an alternation at any depth, every repetition
  bound at most 100, at most 12 quantifiers and at most 3 unbounded ones.
\<close>

theorem checkRegexPattern_decides_safety:
  assumes "rx_wf xs"
  shows "(checkRegexPattern syntax_ok (rx_text xs) = Inr () \<longleftrightarrow>
      rx_text xs \<noteq> [] \<and> length (rx_text xs) \<le> 256 \<and> syntax_ok (rx_text xs)
      \<and> rx_plain xs \<and> rx_flat xs
      \<and> (\<forall>k \<in> set (rx_quantifiers xs). quantifier_bounded k)
      \<and> length (rx_quantifiers xs) \<le> 12
      \<and> length (filter quantifier_unbounded (rx_quantifiers xs)) \<le> 3)
    \<and> (\<forall>pattern. scan_pattern pattern \<noteq> None)"
proof -
  have scan: "(\<exists>x. scan_pattern (rx_text xs) = Some (Inr x)) \<longleftrightarrow>
      rx_plain xs \<and> rx_flat xs \<and> (\<forall>k \<in> set (rx_quantifiers xs). quantifier_bounded k)
      \<and> length (rx_quantifiers xs) \<le> 12
      \<and> length (filter quantifier_unbounded (rx_quantifiers xs)) \<le> 3"
    unfolding scan_pattern_text [OF assms] rx_safe_def rx_safe_from_def
    by (simp add: MAX_QUANTIFIERS_def MAX_UNBOUNDED_QUANTIFIERS_def unbounded_count_def list_all_iff)
  obtain out where out: "scan_pattern (rx_text xs) = Some out" using scan_pattern_total by blast
  have "\<forall>pattern. scan_pattern pattern \<noteq> None" using scan_pattern_total by auto
  moreover have "checkRegexPattern syntax_ok (rx_text xs) = Inr () \<longleftrightarrow>
      rx_text xs \<noteq> [] \<and> length (rx_text xs) \<le> 256 \<and> syntax_ok (rx_text xs)
      \<and> (\<exists>x. scan_pattern (rx_text xs) = Some (Inr x))"
    by (cases out) (auto simp: checkRegexPattern_def out MAX_REGEX_PATTERN_LENGTH_def)
  ultimately show ?thesis unfolding scan by blast
qed

text \<open>\<open>(?:a+b)|[^\<backslash>]x]{2,5}?\<close>, and the same with the group repeated.\<close>

definition sample_expression :: "bool \<Rightarrow> rx_item list" where
  "sample_expression rep =
     [Group NonCapture [Lit (CHR ''a'') (Some (Plus, False)), Lit (CHR ''b'') None]
        (if rep then Some (Star, False) else None), Bar,
      CharClass True [EscapedItem (CHR '']''), PlainItem (CHR ''x'')] (Some (Between 2 5, True))]"

theorem checkRegexPattern_decides_safety_witness:
  "checkRegexPattern (\<lambda>_. True) (rx_text (sample_expression False)) = Inr ()
   \<and> checkRegexPattern (\<lambda>_. True) (rx_text (sample_expression True)) \<noteq> Inr ()"
proof -
  have wf: "rx_wf (sample_expression r)" for r
    by (simp add: sample_expression_def rx_special_def)
  have "rx_text (sample_expression False) \<noteq> []" "length (rx_text (sample_expression False)) \<le> 256"
    "rx_plain (sample_expression False)" "rx_flat (sample_expression False)"
    "\<forall>k \<in> set (rx_quantifiers (sample_expression False)). quantifier_bounded k"
    "length (rx_quantifiers (sample_expression False)) \<le> 12"
    "length (filter quantifier_unbounded (rx_quantifiers (sample_expression False))) \<le> 3"
    "\<not> rx_flat (sample_expression True)"
    by code_simp+
  with checkRegexPattern_decides_safety [OF wf, of "\<lambda>_. True" False]
    checkRegexPattern_decides_safety [OF wf, of "\<lambda>_. True" True]
  show ?thesis by blast
qed

lemma maxRegexInputLength_range: "32 \<le> maxRegexInputLength env \<and> maxRegexInputLength env \<le> 4096"
  by (auto simp: maxRegexInputLength_def DEFAULT_MAX_REGEX_INPUT_def le_floor_iff split: jsnum.split option.split)

lemma regexBudgetMs_range: "0 \<le> regexBudgetMs env \<and> regexBudgetMs env \<le> 1000"
  by (auto simp: regexBudgetMs_def DEFAULT_REGEX_BUDGET_MS_def split: jsnum.split option.split)

text \<open>
  Whatever the settings say, one execution is bounded: the engine is shown a prefix of the
  subject of at most 4096 characters, and all of a subject of at most 32; the rule is reported
  for quarantine exactly when the engine throws or the time exceeds the budget, which is at most
  a second; and a throwing engine never counts as a match.
\<close>

theorem runBoundedRegex_bounded:
  "prefix (boundRegexInput inputEnv subject) subject
   \<and> length (boundRegexInput inputEnv subject) \<le> 4096
   \<and> (length subject \<le> 32 \<longrightarrow> boundRegexInput inputEnv subject = subject)
   \<and> regexBudgetMs budgetEnv \<le> 1000
   \<and> (br_overBudget (runBoundedRegex inputEnv budgetEnv engine subject started ended) \<longleftrightarrow>
        engine (boundRegexInput inputEnv subject) = None \<or> ended - started > regexBudgetMs budgetEnv)
   \<and> (br_matched (runBoundedRegex inputEnv budgetEnv engine subject started ended) \<longleftrightarrow>
        engine (boundRegexInput inputEnv subject) = Some True)"
  using maxRegexInputLength_range [of inputEnv] regexBudgetMs_range [of budgetEnv]
  by (auto simp: boundRegexInput_def runBoundedRegex_def take_is_prefix nat_le_iff split: option.split)

theorem runBoundedRegex_bounded_witness:
  "boundRegexInput (Some ''12'') ''win a prize'' = ''win a prize''
   \<and> br_overBudget (runBoundedRegex (Some ''12'') None (\<lambda>s. Some True) ''win a prize'' 100 126)"
proof -
  have "regexBudgetMs None = 25" by code_simp
  with runBoundedRegex_bounded [of "Some ''12''" "''win a prize''" None "\<lambda>s. Some True" 100 126]
  show ?thesis by simp
qed

end
