(* ===== verification/ContentFilter.thy ===== *)
theory ContentFilter
  imports ContentRegex
begin

section \<open>The content filter: messaging-depth/content-filter.ts\<close>

text \<open>
  What a rule is, the total order rules are evaluated in, the first-match verdict, the
  explanation the preview shows, and the validation of a rule write. The regular-expression
  engine, the clock around it and the two environment settings are the record \<open>content_env\<close>;
  the sentence of a verdict is kept as the values it carries.
\<close>

datatype match_field = FBody | FSender | FRecipient | FAny
datatype match_type = MSubstring | MExact | MPrefix | MRegex
datatype rule_action = Block | Allow
datatype subject_name = OnBody | OnSender | OnRecipient

definition MAX_RULES_PER_TENANT :: nat where "MAX_RULES_PER_TENANT = 500"
definition MAX_REGEX_RULES_PER_TENANT :: nat where "MAX_REGEX_RULES_PER_TENANT = 50"
definition MAX_LITERAL_PATTERN_LENGTH :: nat where "MAX_LITERAL_PATTERN_LENGTH = 512"

text \<open>A stored row; a timestamp is its milliseconds, \<open>None\<close> for null or an invalid date.\<close>

record content_row =
  cr_id :: string
  cr_name :: string
  cr_description :: "string option"
  cr_match_field :: match_field
  cr_match_type :: match_type
  cr_pattern :: string
  cr_case_sensitive :: bool
  cr_action :: rule_action
  cr_smsc_id :: "string option"
  cr_customer_id :: "string option"
  cr_enabled :: bool
  cr_priority :: int
  cr_expires_at :: "int option"
  cr_reason :: "string option"
  cr_match_count :: nat
  cr_quarantined :: bool
  cr_created_at :: "int option"

record compiled_rule =
  cc_id :: string
  cc_name :: string
  cc_field :: match_field
  cc_matchType :: match_type
  cc_pattern :: string
  cc_needle :: "string option"
  cc_caseSensitive :: bool
  cc_action :: rule_action
  cc_smscId :: "string option"
  cc_customerId :: "string option"
  cc_priority :: int
  cc_reason :: "string option"
  cc_createdAtMs :: int
  cc_regex :: "(string \<times> bool) option"
  cc_compileError :: "regex_rejection option"

record filter_context =
  fc_sender :: string
  fc_recipient :: string
  fc_body :: string
  fc_smscId :: "string option"
  fc_customerId :: "string option"

record rule_match =
  rm_ruleId :: string
  rm_ruleName :: string
  rm_action :: rule_action
  rm_field :: match_field
  rm_matchType :: match_type
  rm_pattern :: string
  rm_priority :: int
  rm_matchedOn :: subject_name
  rm_reason :: "string option"

datatype verdict_reason = DecidedBy rule_match | NoRuleMatched nat | NoRuleInScope

record filter_verdict =
  fv_allowed :: bool
  fv_decidedBy :: "rule_match option"
  fv_reason :: verdict_reason
  fv_rulesEvaluated :: nat
  fv_overBudget :: "string list"

text \<open>
  The engine: whether a source is valid, the answer of \<open>test\<close> for a source and a case flag
  (\<open>None\<close> when it throws), the milliseconds one execution takes, and the two settings.
\<close>

record content_env =
  ce_syntax :: "string \<Rightarrow> bool"
  ce_test :: "string \<Rightarrow> bool \<Rightarrow> string \<Rightarrow> bool option"
  ce_elapsed :: "string \<Rightarrow> string \<Rightarrow> int"
  ce_inputEnv :: "string option"
  ce_budgetEnv :: "string option"

subsection \<open>Order and compilation\<close>

definition compareRules :: "compiled_rule \<Rightarrow> compiled_rule \<Rightarrow> int" where
  "compareRules a b =
     (if cc_priority a \<noteq> cc_priority b then cc_priority a - cc_priority b
      else if cc_createdAtMs a \<noteq> cc_createdAtMs b then cc_createdAtMs a - cc_createdAtMs b
      else if cc_id a < cc_id b then -1 else if cc_id a > cc_id b then 1 else 0)"

definition toMs :: "int option \<Rightarrow> int" where
  "toMs v = (case v of None \<Rightarrow> 0 | Some ms \<Rightarrow> ms)"

definition compileSafeRegex ::
    "content_env \<Rightarrow> string \<Rightarrow> bool \<Rightarrow> (regex_rejection, string \<times> bool) result" where
  "compileSafeRegex env pattern caseSensitive =
     bind_result (checkRegexPattern (ce_syntax env) pattern) (\<lambda>_. Inr (pattern, caseSensitive))"

definition compileRule :: "content_env \<Rightarrow> content_row \<Rightarrow> compiled_rule" where
  "compileRule env row =
     (let base =
        \<lparr>cc_id = cr_id row, cc_name = cr_name row, cc_field = cr_match_field row,
         cc_matchType = cr_match_type row, cc_pattern = cr_pattern row, cc_needle = None,
         cc_caseSensitive = cr_case_sensitive row, cc_action = cr_action row,
         cc_smscId = cr_smsc_id row, cc_customerId = cr_customer_id row,
         cc_priority = cr_priority row, cc_reason = cr_reason row,
         cc_createdAtMs = toMs (cr_created_at row), cc_regex = None, cc_compileError = None\<rparr>
      in if cr_match_type row = MRegex
         then (case compileSafeRegex env (cr_pattern row) (cr_case_sensitive row) of
                 Inr rx \<Rightarrow> base\<lparr>cc_regex := Some rx\<rparr>
               | Inl e \<Rightarrow> base\<lparr>cc_compileError := Some e\<rparr>)
         else base\<lparr>cc_needle := Some (if cr_case_sensitive row then cr_pattern row
                                      else lower (cr_pattern row))\<rparr>)"

subsection \<open>Matching one rule\<close>

definition subjectsFor :: "match_field \<Rightarrow> filter_context \<Rightarrow> (subject_name \<times> string) list" where
  "subjectsFor field ctx =
     (let body = (OnBody, fc_body ctx); sender = (OnSender, fc_sender ctx);
          recipient = (OnRecipient, fc_recipient ctx)
      in case field of
           FBody \<Rightarrow> [body] | FSender \<Rightarrow> [sender] | FRecipient \<Rightarrow> [recipient]
         | FAny \<Rightarrow> [body, sender, recipient])"

definition ruleInScope :: "compiled_rule \<Rightarrow> filter_context \<Rightarrow> bool" where
  "ruleInScope rule ctx \<longleftrightarrow>
     (if truthy (cc_customerId rule) \<and> cc_customerId rule \<noteq> fc_customerId ctx then False
      else if truthy (cc_smscId rule) \<and> cc_smscId rule \<noteq> fc_smscId ctx then False
      else True)"

definition literalMatch :: "compiled_rule \<Rightarrow> string \<Rightarrow> bool" where
  "literalMatch rule subject =
     (let needle = coalesce (cc_needle rule) [];
          haystack = (if cc_caseSensitive rule then subject else lower subject)
      in if needle = [] then False
         else case cc_matchType rule of
                MExact \<Rightarrow> haystack = needle
              | MPrefix \<Rightarrow> prefix needle haystack
              | _ \<Rightarrow> sublist needle haystack)"

definition run_rule_regex :: "content_env \<Rightarrow> string \<times> bool \<Rightarrow> string \<Rightarrow> bounded_regex_result" where
  "run_rule_regex env rx subject =
     runBoundedRegex (ce_inputEnv env) (ce_budgetEnv env) (ce_test env (fst rx) (snd rx)) subject
       0 (ce_elapsed env (fst rx) subject)"

definition match_of :: "compiled_rule \<Rightarrow> subject_name \<Rightarrow> rule_match" where
  "match_of rule on =
     \<lparr>rm_ruleId = cc_id rule, rm_ruleName = cc_name rule, rm_action = cc_action rule,
      rm_field = cc_field rule, rm_matchType = cc_matchType rule, rm_pattern = cc_pattern rule,
      rm_priority = cc_priority rule, rm_matchedOn = on, rm_reason = cc_reason rule\<rparr>"

definition push_once :: "bool \<Rightarrow> string \<Rightarrow> string list \<Rightarrow> string list" where
  "push_once over i ids = (if over \<and> i \<notin> set ids then ids @ [i] else ids)"

fun match_subjects ::
    "content_env \<Rightarrow> compiled_rule \<Rightarrow> (subject_name \<times> string) list \<Rightarrow> string list
     \<Rightarrow> rule_match option \<times> string list" where
  "match_subjects env rule [] over = (None, over)"
| "match_subjects env rule ((on, subject) # rest) over =
     (if cc_matchType rule = MRegex then
        (case cc_regex rule of
           None \<Rightarrow> (None, over)
         | Some rx \<Rightarrow>
             let result = run_rule_regex env rx subject;
                 over' = push_once (br_overBudget result) (cc_id rule) over
             in if br_matched result then (Some (match_of rule on), over')
                else match_subjects env rule rest over')
      else if literalMatch rule subject then (Some (match_of rule on), over)
      else match_subjects env rule rest over)"

definition matchRule ::
    "content_env \<Rightarrow> compiled_rule \<Rightarrow> filter_context \<Rightarrow> string list
     \<Rightarrow> rule_match option \<times> string list" where
  "matchRule env rule ctx over =
     (if cc_compileError rule \<noteq> None then (None, over)
      else match_subjects env rule (subjectsFor (cc_field rule) ctx) over)"

subsection \<open>The verdict\<close>

definition decided_verdict :: "rule_match \<Rightarrow> nat \<Rightarrow> string list \<Rightarrow> filter_verdict" where
  "decided_verdict m n over =
     \<lparr>fv_allowed = (rm_action m = Allow), fv_decidedBy = Some m, fv_reason = DecidedBy m,
      fv_rulesEvaluated = n, fv_overBudget = over\<rparr>"

definition open_verdict :: "nat \<Rightarrow> string list \<Rightarrow> filter_verdict" where
  "open_verdict n over =
     \<lparr>fv_allowed = True, fv_decidedBy = None,
      fv_reason = (if n \<noteq> 0 then NoRuleMatched n else NoRuleInScope),
      fv_rulesEvaluated = n, fv_overBudget = over\<rparr>"

fun evaluate_loop ::
    "content_env \<Rightarrow> compiled_rule list \<Rightarrow> filter_context \<Rightarrow> nat \<Rightarrow> string list \<Rightarrow> filter_verdict" where
  "evaluate_loop env [] ctx n over = open_verdict n over"
| "evaluate_loop env (rule # rules) ctx n over =
     (if \<not> ruleInScope rule ctx then evaluate_loop env rules ctx n over
      else case matchRule env rule ctx over of
             (None, over') \<Rightarrow> evaluate_loop env rules ctx (n + 1) over'
           | (Some m, over') \<Rightarrow> decided_verdict m (n + 1) over')"

definition evaluateContent ::
    "content_env \<Rightarrow> compiled_rule list \<Rightarrow> filter_context \<Rightarrow> filter_verdict" where
  "evaluateContent env rules ctx = evaluate_loop env rules ctx 0 []"

subsection \<open>The explanation\<close>

record explain_state =
  ex_over :: "string list"
  ex_matches :: "(rule_match \<times> bool) list"
  ex_inScope :: nat
  ex_skipped :: nat
  ex_decided :: "rule_match option"
  ex_until :: nat

definition explain_step ::
    "content_env \<Rightarrow> filter_context \<Rightarrow> compiled_rule \<Rightarrow> explain_state \<Rightarrow> explain_state" where
  "explain_step env ctx rule st =
     (if \<not> ruleInScope rule ctx then st\<lparr>ex_skipped := ex_skipped st + 1\<rparr>
      else
        let until = (if ex_decided st = None then ex_until st + 1 else ex_until st);
            (m, over') = matchRule env rule ctx (ex_over st);
            st' = st\<lparr>ex_inScope := ex_inScope st + 1, ex_until := until, ex_over := over'\<rparr>
        in case m of
             None \<Rightarrow> st'
           | Some m \<Rightarrow>
               if ex_decided st = None
               then st'\<lparr>ex_decided := Some m, ex_matches := ex_matches st @ [(m, False)]\<rparr>
               else st'\<lparr>ex_matches := ex_matches st @ [(m, True)]\<rparr>)"

definition explain_start :: explain_state where
  "explain_start = \<lparr>ex_over = [], ex_matches = [], ex_inScope = 0, ex_skipped = 0,
                    ex_decided = None, ex_until = 0\<rparr>"

definition explain_final ::
    "content_env \<Rightarrow> compiled_rule list \<Rightarrow> filter_context \<Rightarrow> explain_state" where
  "explain_final env rules ctx = fold (explain_step env ctx) rules explain_start"

record explanation =
  xp_verdict :: filter_verdict
  xp_matches :: "(rule_match \<times> bool) list"
  xp_inScope :: nat
  xp_skipped :: nat

definition explain_verdict :: "explain_state \<Rightarrow> string list \<Rightarrow> filter_verdict" where
  "explain_verdict st over =
     (case ex_decided st of
        Some m \<Rightarrow> decided_verdict m (ex_until st) over
      | None \<Rightarrow> open_verdict (ex_inScope st) over)"

definition explainContent ::
    "content_env \<Rightarrow> compiled_rule list \<Rightarrow> filter_context \<Rightarrow> explanation" where
  "explainContent env rules ctx =
     (let st = explain_final env rules ctx
      in \<lparr>xp_verdict = explain_verdict st (ex_over st), xp_matches = ex_matches st,
          xp_inScope = ex_inScope st, xp_skipped = ex_skipped st\<rparr>)"

subsection \<open>Write-time validation\<close>

datatype content_error =
    PatternRequired
  | UnsafeRegex regex_rejection
  | PatternTooLong
  | PatternBlank
  | BadMatchField
  | BadMatchType
  | BadAction
  | BadPriority

definition validatePattern ::
    "content_env \<Rightarrow> match_type \<Rightarrow> jsval \<Rightarrow> (content_error, string) result" where
  "validatePattern env matchType pattern =
     (case pattern of
        JStr p \<Rightarrow>
          if p = [] then Inl PatternRequired
          else if matchType = MRegex then
            (case checkRegexPattern (ce_syntax env) p of Inl e \<Rightarrow> Inl (UnsafeRegex e) | Inr _ \<Rightarrow> Inr p)
          else if length p > MAX_LITERAL_PATTERN_LENGTH then Inl PatternTooLong
          else if trim p = [] then Inl PatternBlank
          else Inr p
      | _ \<Rightarrow> Inl PatternRequired)"

definition parseMatchField :: "jsval \<Rightarrow> (content_error, match_field) result" where
  "parseMatchField v =
     (if v = JStr ''body'' then Inr FBody else if v = JStr ''sender'' then Inr FSender
      else if v = JStr ''recipient'' then Inr FRecipient else if v = JStr ''any'' then Inr FAny
      else Inl BadMatchField)"

definition parseMatchType :: "jsval \<Rightarrow> (content_error, match_type) result" where
  "parseMatchType v =
     (if v = JStr ''substring'' then Inr MSubstring else if v = JStr ''exact'' then Inr MExact
      else if v = JStr ''prefix'' then Inr MPrefix else if v = JStr ''regex'' then Inr MRegex
      else Inl BadMatchType)"

definition parseAction :: "jsval \<Rightarrow> (content_error, rule_action) result" where
  "parseAction v =
     (if v = JStr ''block'' then Inr Block else if v = JStr ''allow'' then Inr Allow
      else Inl BadAction)"

definition parsePriority :: "jsval \<Rightarrow> int \<Rightarrow> (content_error, int) result" where
  "parsePriority v fallback =
     (if absent v \<or> v = JStr [] then Inr fallback
      else case bounded_integer v 0 1000000 of None \<Rightarrow> Inl BadPriority | Some i \<Rightarrow> Inr i)"

subsection \<open>The order is a ranking that separates identifiers\<close>

lemma compareRules_alt:
  "compareRules = cmp_or (cmp_diff cc_priority) (cmp_or (cmp_diff cc_createdAtMs) (cmp_key cc_id))"
  by (intro ext) (auto simp: compareRules_def cmp_or_def cmp_diff_def cmp_key_def)

interpretation rule_order: identified_ranking compareRules cc_id
proof (intro identified_ranking.intro identified_ranking_axioms.intro)
  show "ranking compareRules"
    unfolding compareRules_alt by (intro cmp_rules)
  show "compareRules a b = 0 \<Longrightarrow> cc_id a = cc_id b" for a b
    by (auto simp: compareRules_def split: if_splits)
qed

subsection \<open>Lemmas\<close>

text \<open>Whether a text satisfies a rule, and whether a rule applies to a message.\<close>

definition text_hits :: "content_env \<Rightarrow> compiled_rule \<Rightarrow> string \<Rightarrow> bool" where
  "text_hits env rule subject \<longleftrightarrow>
     (if cc_matchType rule = MRegex
      then (case cc_regex rule of None \<Rightarrow> False | Some rx \<Rightarrow> br_matched (run_rule_regex env rx subject))
      else literalMatch rule subject)"

definition rule_applies :: "content_env \<Rightarrow> compiled_rule \<Rightarrow> filter_context \<Rightarrow> bool" where
  "rule_applies env rule ctx \<longleftrightarrow>
     ruleInScope rule ctx \<and> cc_compileError rule = None
     \<and> (\<exists>(on, s) \<in> set (subjectsFor (cc_field rule) ctx). text_hits env rule s)"

definition rule_hit :: "content_env \<Rightarrow> compiled_rule \<Rightarrow> filter_context \<Rightarrow> rule_match" where
  "rule_hit env rule ctx =
     match_of rule (fst (the (find (\<lambda>(on, s). text_hits env rule s) (subjectsFor (cc_field rule) ctx))))"

lemma match_subjects_fst:
  "fst (match_subjects env rule subjects over) =
     map_option (match_of rule \<circ> fst) (find (\<lambda>(on, s). text_hits env rule s) subjects)"
proof (induction subjects arbitrary: over)
  case (Cons p subjects)
  have none: "cc_matchType rule = MRegex \<Longrightarrow> cc_regex rule = None \<Longrightarrow>
      find (\<lambda>(on, s). text_hits env rule s) xs = None" for xs :: "(subject_name \<times> string) list"
    by (auto simp: find_None_iff text_hits_def)
  show ?case
    using Cons none [of "p # subjects"]
    by (cases p) (auto simp: text_hits_def Let_def split: option.split)
qed simp

lemma matchRule_fst:
  "ruleInScope rule ctx \<Longrightarrow> fst (matchRule env rule ctx over) =
     (if rule_applies env rule ctx then Some (rule_hit env rule ctx) else None)"
  by (cases "find (\<lambda>(on, s). text_hits env rule s) (subjectsFor (cc_field rule) ctx)")
    (auto simp: matchRule_def match_subjects_fst rule_applies_def rule_hit_def find_None_iff
      dest: find_some_props)

lemma match_subjects_over: "prefix over (snd (match_subjects env rule subjects over))"
proof (induction subjects arbitrary: over)
  case (Cons p subjects)
  have push: "prefix over (push_once b i over)" for b i by (simp add: push_once_def)
  show ?case
    using Cons push by (cases p) (auto simp: Let_def split: option.split intro: prefix_order.trans)
qed simp

lemma matchRule_over: "prefix over (snd (matchRule env rule ctx over))"
  by (simp add: matchRule_def match_subjects_over)

lemma rule_hit_simps [simp]:
  "rm_action (rule_hit env rule ctx) = cc_action rule" "rm_ruleId (rule_hit env rule ctx) = cc_id rule"
  by (simp_all add: rule_hit_def match_of_def)

lemma evaluate_loop_decided:
  "fv_decidedBy (evaluate_loop env rules ctx n over) =
     map_option (\<lambda>r. rule_hit env r ctx) (find (\<lambda>r. rule_applies env r ctx) rules)"
proof (induction rules arbitrary: n over)
  case (Cons r rules)
  have out: "\<not> ruleInScope r ctx \<Longrightarrow> \<not> rule_applies env r ctx" by (simp add: rule_applies_def)
  show ?case
  proof (cases "ruleInScope r ctx")
    case True
    obtain m over' where m: "matchRule env r ctx over = (m, over')" by (cases "matchRule env r ctx over")
    with matchRule_fst [OF True, of env over] have "m = (if rule_applies env r ctx then Some (rule_hit env r ctx) else None)"
      by simp
    with m True Cons show ?thesis by (auto simp: decided_verdict_def)
  qed (use Cons out in simp)
qed (simp add: open_verdict_def)

lemma evaluate_loop_allowed:
  "fv_allowed (evaluate_loop env rules ctx n over) \<longleftrightarrow>
     (case fv_decidedBy (evaluate_loop env rules ctx n over) of None \<Rightarrow> True | Some m \<Rightarrow> rm_action m = Allow)"
  by (induction rules arbitrary: n over)
    (auto simp: open_verdict_def decided_verdict_def split: prod.split option.split)

lemma find_sorted_least:
  assumes "sorted_wrt R xs" "find P xs = Some x"
  shows "x \<in> set xs \<and> P x \<and> (\<forall>y \<in> set xs. P y \<longrightarrow> y = x \<or> R x y)"
  using assms
proof (induction xs)
  case (Cons a xs)
  then show ?case by (cases "P a") auto
qed simp

text \<open>The explanation follows the evaluation until a rule decides, and records from there on.\<close>

lemma explain_step_scoped:
  assumes "ruleInScope r ctx"
  obtains over' where "prefix (ex_over st) over'"
    "matchRule env r ctx (ex_over st) = (if rule_applies env r ctx then Some (rule_hit env r ctx) else None, over')"
    "explain_step env ctx r st =
       (let st' = st\<lparr>ex_inScope := ex_inScope st + 1, ex_over := over',
                   ex_until := (if ex_decided st = None then ex_until st + 1 else ex_until st)\<rparr>
        in if \<not> rule_applies env r ctx then st'
           else if ex_decided st = None
           then st'\<lparr>ex_decided := Some (rule_hit env r ctx), ex_matches := ex_matches st @ [(rule_hit env r ctx, False)]\<rparr>
           else st'\<lparr>ex_matches := ex_matches st @ [(rule_hit env r ctx, True)]\<rparr>)"
proof -
  obtain m over' where m: "matchRule env r ctx (ex_over st) = (m, over')"
    by (cases "matchRule env r ctx (ex_over st)")
  have mm: "m = (if rule_applies env r ctx then Some (rule_hit env r ctx) else None)"
    using matchRule_fst [OF assms, of env "ex_over st"] m by simp
  show thesis
  proof (rule that)
    show "prefix (ex_over st) over'" using matchRule_over [of "ex_over st" env r ctx] m by simp
    show "matchRule env r ctx (ex_over st) = (if rule_applies env r ctx then Some (rule_hit env r ctx) else None, over')"
      using m mm by simp
  qed (use assms m mm in \<open>simp add: explain_step_def Let_def\<close>)
qed

lemma explain_unscoped:
  "\<not> ruleInScope r ctx \<Longrightarrow> explain_step env ctx r st = st\<lparr>ex_skipped := ex_skipped st + 1\<rparr> \<and> \<not> rule_applies env r ctx"
  by (simp add: explain_step_def rule_applies_def)

lemma explain_counts:
  "ex_inScope (fold (explain_step env ctx) rules st) = ex_inScope st + length (filter (\<lambda>r. ruleInScope r ctx) rules)
   \<and> ex_skipped (fold (explain_step env ctx) rules st) = ex_skipped st + length (filter (\<lambda>r. \<not> ruleInScope r ctx) rules)"
  by (induction rules arbitrary: st)
    (auto simp: explain_step_def Let_def split: prod.split option.split)

lemma explain_decided:
  "ex_decided st = Some d \<Longrightarrow>
     ex_decided (fold (explain_step env ctx) rules st) = Some d
     \<and> ex_until (fold (explain_step env ctx) rules st) = ex_until st
     \<and> prefix (ex_over st) (ex_over (fold (explain_step env ctx) rules st))
     \<and> ex_matches (fold (explain_step env ctx) rules st) =
         ex_matches st @ map (\<lambda>r. (rule_hit env r ctx, True)) (filter (\<lambda>r. rule_applies env r ctx) rules)"
proof (induction rules arbitrary: st)
  case (Cons r rules)
  show ?case
  proof (cases "ruleInScope r ctx")
    case True
    obtain over' where over': "prefix (ex_over st) over'"
      and step: "explain_step env ctx r st =
       (let st' = st\<lparr>ex_inScope := ex_inScope st + 1, ex_over := over',
                   ex_until := (if ex_decided st = None then ex_until st + 1 else ex_until st)\<rparr>
        in if \<not> rule_applies env r ctx then st'
           else if ex_decided st = None
           then st'\<lparr>ex_decided := Some (rule_hit env r ctx), ex_matches := ex_matches st @ [(rule_hit env r ctx, False)]\<rparr>
           else st'\<lparr>ex_matches := ex_matches st @ [(rule_hit env r ctx, True)]\<rparr>)"
      by (rule explain_step_scoped [OF True, of st env])
    have next_st: "ex_decided (explain_step env ctx r st) = Some d"
      "ex_until (explain_step env ctx r st) = ex_until st"
      "ex_over (explain_step env ctx r st) = over'"
      "ex_matches (explain_step env ctx r st) =
         ex_matches st @ (if rule_applies env r ctx then [(rule_hit env r ctx, True)] else [])"
      unfolding step using Cons.prems by (simp_all add: Let_def)
    show ?thesis
      using Cons.IH [OF next_st(1)] prefix_order.trans [OF over'] by (simp add: next_st)
  next
    case False
    then have "explain_step env ctx r st = st\<lparr>ex_skipped := ex_skipped st + 1\<rparr>" "\<not> rule_applies env r ctx"
      using explain_unscoped by blast+
    with Cons.prems Cons.IH [of "st\<lparr>ex_skipped := ex_skipped st + 1\<rparr>"] show ?thesis by simp
  qed
qed simp

lemma explain_undecided:
  "ex_decided st = None \<Longrightarrow> ex_matches st = [] \<Longrightarrow> ex_until st = ex_inScope st \<Longrightarrow>
    ex_decided (fold (explain_step env ctx) rules st) =
      fv_decidedBy (evaluate_loop env rules ctx (ex_until st) (ex_over st))
    \<and> evaluate_loop env rules ctx (ex_until st) (ex_over st) =
      explain_verdict (fold (explain_step env ctx) rules st)
        (fv_overBudget (evaluate_loop env rules ctx (ex_until st) (ex_over st)))
    \<and> prefix (fv_overBudget (evaluate_loop env rules ctx (ex_until st) (ex_over st)))
        (ex_over (fold (explain_step env ctx) rules st))
    \<and> ex_matches (fold (explain_step env ctx) rules st) =
       (case filter (\<lambda>r. rule_applies env r ctx) rules of
         [] \<Rightarrow> [] | r # rs \<Rightarrow> (rule_hit env r ctx, False) # map (\<lambda>r. (rule_hit env r ctx, True)) rs)"
proof (induction rules arbitrary: st)
  case Nil
  then show ?case by (simp add: open_verdict_def explain_verdict_def)
next
  case (Cons r rules)
  show ?case
  proof (cases "ruleInScope r ctx")
    case False
    then have "explain_step env ctx r st = st\<lparr>ex_skipped := ex_skipped st + 1\<rparr>" "\<not> rule_applies env r ctx"
      using explain_unscoped by blast+
    with False Cons.prems Cons.IH [of "explain_step env ctx r st"] show ?thesis by simp
  next
    case True
    obtain over' where m: "matchRule env r ctx (ex_over st) =
        (if rule_applies env r ctx then Some (rule_hit env r ctx) else None, over')"
      and step: "explain_step env ctx r st =
       (let st' = st\<lparr>ex_inScope := ex_inScope st + 1, ex_over := over',
                   ex_until := (if ex_decided st = None then ex_until st + 1 else ex_until st)\<rparr>
        in if \<not> rule_applies env r ctx then st'
           else if ex_decided st = None
           then st'\<lparr>ex_decided := Some (rule_hit env r ctx), ex_matches := ex_matches st @ [(rule_hit env r ctx, False)]\<rparr>
           else st'\<lparr>ex_matches := ex_matches st @ [(rule_hit env r ctx, True)]\<rparr>)"
      by (rule explain_step_scoped [OF True, of st env])
    show ?thesis
    proof (cases "rule_applies env r ctx")
      case False
      have next_st: "ex_decided (explain_step env ctx r st) = None" "ex_matches (explain_step env ctx r st) = []"
        "ex_until (explain_step env ctx r st) = ex_inScope (explain_step env ctx r st)"
        "ex_over (explain_step env ctx r st) = over'" "ex_inScope (explain_step env ctx r st) = ex_inScope st + 1"
        unfolding step using Cons.prems False by (simp_all add: Let_def)
      have "evaluate_loop env (r # rules) ctx (ex_until st) (ex_over st) =
          evaluate_loop env rules ctx (ex_until (explain_step env ctx r st)) (ex_over (explain_step env ctx r st))"
        using True m False next_st Cons.prems by simp
      then show ?thesis using Cons.IH [OF next_st(1-3)] False by simp
    next
      case applies: True
      have next_st: "ex_decided (explain_step env ctx r st) = Some (rule_hit env r ctx)"
        "ex_matches (explain_step env ctx r st) = [(rule_hit env r ctx, False)]"
        "ex_until (explain_step env ctx r st) = ex_until st + 1" "ex_over (explain_step env ctx r st) = over'"
        unfolding step using Cons.prems applies by (simp_all add: Let_def)
      have "evaluate_loop env (r # rules) ctx (ex_until st) (ex_over st) =
          decided_verdict (rule_hit env r ctx) (ex_until st + 1) over'"
        using True m applies by simp
      moreover have "fv_overBudget (decided_verdict a b c) = c" "fv_decidedBy (decided_verdict a b c) = Some a" for a b c
        by (simp_all add: decided_verdict_def)
      ultimately show ?thesis
        using explain_decided [OF next_st(1), of env ctx rules] applies
        by (simp add: next_st explain_verdict_def)
    qed
  qed
qed

subsection \<open>Properties\<close>

text \<open>
  C26. First match wins over one total order: the verdict on a rule set is decided by the rule
  that applies to the message and comes first by priority, then age, then identifier; the message
  passes exactly when that rule allows it, or when no rule applies at all.
\<close>

theorem evaluateContent_first_match:
  "(let v = evaluateContent env (sort_cmp compareRules rs) ctx
    in case fv_decidedBy v of
         None \<Rightarrow> fv_allowed v \<and> (\<forall>r \<in> set rs. \<not> rule_applies env r ctx)
       | Some m \<Rightarrow> \<exists>r \<in> set rs. rule_applies env r ctx \<and> m = rule_hit env r ctx
           \<and> (fv_allowed v \<longleftrightarrow> cc_action r = Allow)
           \<and> (\<forall>r' \<in> set rs. rule_applies env r' ctx \<longrightarrow> compareRules r r' \<le> 0))"
proof (cases "find (\<lambda>r. rule_applies env r ctx) (sort_cmp compareRules rs)")
  case None
  moreover from this have "\<forall>r \<in> set rs. \<not> rule_applies env r ctx" by (auto simp: find_None_iff)
  ultimately show ?thesis
    by (simp add: evaluateContent_def Let_def evaluate_loop_allowed evaluate_loop_decided)
next
  case (Some r)
  from find_sorted_least [OF rule_order.sort_cmp_sorted Some] Some show ?thesis
    by (auto simp: evaluateContent_def Let_def evaluate_loop_allowed evaluate_loop_decided
        intro!: bexI [of _ r])
qed

text \<open>
  No input makes the outcome depend on the order the rows come back from the database: for
  rows with distinct identifiers, every permutation gives the same verdict and the same
  explanation.
\<close>

theorem evaluateContent_row_order_free:
  assumes "mset rows = mset rows'" and "distinct (map cr_id rows)"
  shows "evaluateContent env (sort_cmp compareRules (map (compileRule env) rows)) ctx =
      evaluateContent env (sort_cmp compareRules (map (compileRule env) rows')) ctx
    \<and> explainContent env (sort_cmp compareRules (map (compileRule env) rows)) ctx =
      explainContent env (sort_cmp compareRules (map (compileRule env) rows')) ctx"
proof -
  have ids: "cc_id (compileRule env r) = cr_id r" for r
    by (simp add: compileRule_def Let_def split: sum.split)
  have "sort_cmp compareRules (map (compileRule env) rows) =
      sort_cmp compareRules (map (compileRule env) rows')"
    by (rule rule_order.sort_cmp_unique) (use assms in \<open>simp_all add: ids comp_def\<close>)
  then show ?thesis by simp
qed

text \<open>
  The preview tells the truth about the send path. Its verdict is the verdict of the
  evaluation in every field but the over-budget list, of which the evaluation's is a prefix (the
  preview goes on past the decision); it lists exactly the rules that apply, in order, the first
  one unshadowed and all later ones shadowed; and every rule is counted in scope or skipped.
\<close>

theorem explainContent_agrees:
  "(let x = explainContent env rules ctx; v = evaluateContent env rules ctx
    in (xp_verdict x)\<lparr>fv_overBudget := fv_overBudget v\<rparr> = v
       \<and> prefix (fv_overBudget v) (fv_overBudget (xp_verdict x))
       \<and> xp_matches x = (case filter (\<lambda>r. rule_applies env r ctx) rules of
            [] \<Rightarrow> [] | r # rs \<Rightarrow> (rule_hit env r ctx, False) # map (\<lambda>r. (rule_hit env r ctx, True)) rs)
       \<and> xp_inScope x = length (filter (\<lambda>r. ruleInScope r ctx) rules)
       \<and> xp_inScope x + xp_skipped x = length rules)"
proof -
  let ?out = "explain_final env rules ctx" and ?v = "evaluateContent env rules ctx"
  have start: "ex_decided explain_start = None" "ex_matches explain_start = []"
    "ex_until explain_start = ex_inScope explain_start" "ex_until explain_start = 0"
    "ex_over explain_start = []" "ex_inScope explain_start = 0" "ex_skipped explain_start = 0"
    by (simp_all add: explain_start_def)
  have u: "ex_decided ?out = fv_decidedBy ?v"
    "?v = explain_verdict ?out (fv_overBudget ?v)"
    "prefix (fv_overBudget ?v) (ex_over ?out)"
    "ex_matches ?out = (case filter (\<lambda>r. rule_applies env r ctx) rules of
         [] \<Rightarrow> [] | r # rs \<Rightarrow> (rule_hit env r ctx, False) # map (\<lambda>r. (rule_hit env r ctx, True)) rs)"
    using explain_undecided [OF start(1-3), of env ctx rules]
    unfolding explain_final_def evaluateContent_def start(4,5) by simp_all
  have c: "ex_inScope ?out = length (filter (\<lambda>r. ruleInScope r ctx) rules)"
    "ex_skipped ?out = length (filter (\<lambda>r. \<not> ruleInScope r ctx) rules)"
    using explain_counts [of env ctx rules explain_start] by (simp_all add: explain_final_def start)
  have split: "length (filter (\<lambda>r. ruleInScope r ctx) rules) + length (filter (\<lambda>r. \<not> ruleInScope r ctx) rules) = length rules"
    by (rule sum_length_filter_compl)
  have "(explain_verdict st over)\<lparr>fv_overBudget := over'\<rparr> = explain_verdict st over'"
    "fv_overBudget (explain_verdict st over) = over" for st over over'
    by (simp_all add: explain_verdict_def decided_verdict_def open_verdict_def split: option.split)
  then show ?thesis
    using u(2-4) c split by (simp add: explainContent_def Let_def)
qed
text \<open>
  A pattern that passes the write-time check is a rule that works: compiling a row that holds
  it never fails; a regex rule carries its expression with the row's case flag, and a literal
  rule matches exactly the texts that equal, start with or contain the pattern, up to case when
  the row says so. A literal pattern is at most 512 characters and has something other than white
  space.
\<close>

theorem validatePattern_runnable:
  assumes "validatePattern env mt (JStr p) = Inr q" and "cr_match_type row = mt" "cr_pattern row = q"
  shows "q = p \<and> cc_compileError (compileRule env row) = None
    \<and> (let folded = (\<lambda>t. if cr_case_sensitive row then t else lower t)
       in case mt of
            MRegex \<Rightarrow> cc_regex (compileRule env row) = Some (p, cr_case_sensitive row)
          | MExact \<Rightarrow> \<forall>t. text_hits env (compileRule env row) t \<longleftrightarrow> folded t = folded p
          | MPrefix \<Rightarrow> \<forall>t. text_hits env (compileRule env row) t \<longleftrightarrow> (\<exists>b. folded t = folded p @ b)
          | MSubstring \<Rightarrow> \<forall>t. text_hits env (compileRule env row) t \<longleftrightarrow> (\<exists>a b. folded t = a @ folded p @ b))
    \<and> (mt \<noteq> MRegex \<longrightarrow> length p \<le> 512 \<and> \<not> (\<forall>c \<in> set p. is_space c))"
proof -
  have p: "q = p" "p \<noteq> []"
    using assms(1) by (auto simp: validatePattern_def split: if_splits sum.splits)
  have rx: "mt = MRegex \<Longrightarrow> compileSafeRegex env p c = Inr (p, c)" for c
    using assms(1) by (auto simp: validatePattern_def compileSafeRegex_def split: if_splits sum.splits)
  have lit: "mt \<noteq> MRegex \<Longrightarrow> length p \<le> 512 \<and> \<not> (\<forall>c \<in> set p. is_space c)"
    using assms(1) by (auto simp: validatePattern_def MAX_LITERAL_PATTERN_LENGTH_def trim_eq_Nil_iff
        split: if_splits)
  show ?thesis
    using p rx lit assms(2,3)
    by (cases mt) (simp_all add: compileRule_def Let_def text_hits_def literalMatch_def prefix_def sublist_def)
qed

definition sample_env :: content_env where
  "sample_env = \<lparr>ce_syntax = (\<lambda>_. True), ce_test = (\<lambda>_ _ _. Some False), ce_elapsed = (\<lambda>_ _. 1),
                 ce_inputEnv = None, ce_budgetEnv = None\<rparr>"

definition sample_content_row :: "string \<Rightarrow> match_type \<Rightarrow> string \<Rightarrow> rule_action \<Rightarrow> int \<Rightarrow> content_row" where
  "sample_content_row i mt p a prio =
     \<lparr>cr_id = i, cr_name = i, cr_description = None, cr_match_field = FAny, cr_match_type = mt,
      cr_pattern = p, cr_case_sensitive = False, cr_action = a, cr_smsc_id = None,
      cr_customer_id = None, cr_enabled = True, cr_priority = prio, cr_expires_at = None,
      cr_reason = None, cr_match_count = 0, cr_quarantined = False, cr_created_at = Some 7\<rparr>"

definition sample_content_rows :: "content_row list" where
  "sample_content_rows =
     [sample_content_row ''b1'' MSubstring ''LOAN'' Block 20, sample_content_row ''a1'' MPrefix ''acme'' Allow 10]"

definition sample_message :: filter_context where
  "sample_message = \<lparr>fc_sender = ''ACME'', fc_recipient = ''256700000000'',
     fc_body = ''Get a loan now'', fc_smscId = None, fc_customerId = None\<rparr>"

theorem validatePattern_runnable_witness:
  "text_hits sample_env (compileRule sample_env (sample_content_row ''b1'' MSubstring ''LOAN'' Block 20)) ''A Loan!''"
proof -
  have v: "validatePattern sample_env MSubstring (JStr ''LOAN'') = Inr ''LOAN''" by code_simp
  have r: "cr_match_type (sample_content_row ''b1'' MSubstring ''LOAN'' Block 20) = MSubstring"
    "cr_pattern (sample_content_row ''b1'' MSubstring ''LOAN'' Block 20) = ''LOAN''"
    "\<not> cr_case_sensitive (sample_content_row ''b1'' MSubstring ''LOAN'' Block 20)"
    by (simp_all add: sample_content_row_def)
  have "lower ''A Loan!'' = ''a '' @ lower ''LOAN'' @ ''!''" by code_simp
  then have "\<exists>a b. lower ''A Loan!'' = a @ lower ''LOAN'' @ b" by blast
  with validatePattern_runnable [OF v r(1,2)] r(3) show ?thesis
    by (simp add: Let_def del: append_Cons)
qed

theorem evaluateContent_first_match_witness:
  "fv_allowed (evaluateContent sample_env (sort_cmp compareRules (map (compileRule sample_env) sample_content_rows)) sample_message)
   \<and> (\<exists>r \<in> set (map (compileRule sample_env) sample_content_rows). cc_id r = ''a1''
       \<and> compareRules r (compileRule sample_env (sample_content_row ''b1'' MSubstring ''LOAN'' Block 20)) \<le> 0)"
proof -
  let ?rs = "map (compileRule sample_env) sample_content_rows"
  let ?b = "compileRule sample_env (sample_content_row ''b1'' MSubstring ''LOAN'' Block 20)"
  let ?v = "evaluateContent sample_env (sort_cmp compareRules ?rs) sample_message"
  have v: "map_option rm_ruleId (fv_decidedBy ?v) = Some ''a1''" "fv_allowed ?v"
    by code_simp+
  then obtain m where m: "fv_decidedBy ?v = Some m" "rm_ruleId m = ''a1''" by auto
  have "rule_applies sample_env ?b sample_message" by code_simp
  moreover have "?b \<in> set ?rs" by (simp add: sample_content_rows_def)
  moreover obtain r where "r \<in> set ?rs" "m = rule_hit sample_env r sample_message"
    "\<forall>r' \<in> set ?rs. rule_applies sample_env r' sample_message \<longrightarrow> compareRules r r' \<le> 0"
    using evaluateContent_first_match [of sample_env ?rs sample_message] m(1)
    unfolding Let_def m(1) option.case by blast
  ultimately show ?thesis using v(2) m(2) by (metis rule_hit_simps(2))
qed

theorem evaluateContent_row_order_free_witness:
  "evaluateContent sample_env (sort_cmp compareRules (map (compileRule sample_env) sample_content_rows)) sample_message =
   evaluateContent sample_env (sort_cmp compareRules (map (compileRule sample_env) (rev sample_content_rows))) sample_message"
proof -
  have "mset sample_content_rows = mset (rev sample_content_rows)" by simp
  moreover have "distinct (map cr_id sample_content_rows)" by code_simp
  ultimately show ?thesis
    using evaluateContent_row_order_free [of sample_content_rows "rev sample_content_rows" sample_env sample_message]
    by blast
qed

end
