(* ===== verification/StepSystem.thy ===== *)
theory StepSystem
  imports Prelude
begin

section \<open>Step systems and guarded updates\<close>

text \<open>
  The shared vocabulary of the stateful components: a machine whose steps may be refused, its
  runs over a list of events, the invariance and monotonicity rules for such runs, and the
  \<open>UPDATE ... WHERE ... RETURNING\<close> statement the services are built on.
\<close>

subsection \<open>Runs\<close>

fun run_steps :: "('e \<Rightarrow> 's \<Rightarrow> 's option) \<Rightarrow> 'e list \<Rightarrow> 's \<Rightarrow> 's option" where
  "run_steps step [] s = Some s"
| "run_steps step (e # es) s = Option.bind (step e s) (run_steps step es)"

lemma run_steps_append:
  "run_steps step (es @ fs) s = Option.bind (run_steps step es s) (run_steps step fs)"
  by (induction es arbitrary: s) (auto split: Option.bind_split)

lemma run_steps_snoc:
  "run_steps step (es @ [e]) s = Some t \<longleftrightarrow> (\<exists>u. run_steps step es s = Some u \<and> step e u = Some t)"
  by (auto simp: run_steps_append bind_eq_Some_conv)

text \<open>
  The contract between a machine and an invariant. \<open>ok\<close> restricts the events considered: the
  constant truth where the invariant holds for all of them.
\<close>

locale invariant_machine =
  fixes step :: "'e \<Rightarrow> 's \<Rightarrow> 's option" and ok :: "'e \<Rightarrow> 's \<Rightarrow> bool" and inv :: "'s \<Rightarrow> bool"
  assumes step_inv: "inv s \<Longrightarrow> ok e s \<Longrightarrow> step e s = Some t \<Longrightarrow> inv t"
begin

fun ok_run :: "'e list \<Rightarrow> 's \<Rightarrow> bool" where
  "ok_run [] s = True"
| "ok_run (e # es) s = (ok e s \<and> (case step e s of None \<Rightarrow> True | Some t \<Rightarrow> ok_run es t))"

lemma ok_run_total: "(\<And>e s. ok e s) \<Longrightarrow> ok_run es s"
  by (induction es arbitrary: s) (auto split: option.splits)

lemma ok_run_events: "(\<And>e s. e \<in> set es \<Longrightarrow> ok e s) \<Longrightarrow> ok_run es s"
  by (induction es arbitrary: s) (auto split: option.splits)

lemma run_inv: "inv s \<Longrightarrow> ok_run es s \<Longrightarrow> run_steps step es s = Some t \<Longrightarrow> inv t"
proof (induction es arbitrary: s)
  case (Cons e es)
  then obtain u where u: "step e s = Some u" "run_steps step es u = Some t" by (auto simp: bind_eq_Some_conv)
  with Cons.prems step_inv have "inv u" "ok_run es u" by auto
  with u show ?case by (auto intro: Cons.IH)
qed simp

text \<open>A transitive relation that every step from an invariant state respects holds over whole runs.\<close>

lemma run_related:
  assumes refl: "\<And>s. R s s" and trans: "\<And>s t u. R s t \<Longrightarrow> R t u \<Longrightarrow> R s u"
    and step: "\<And>e s t. inv s \<Longrightarrow> ok e s \<Longrightarrow> step e s = Some t \<Longrightarrow> R s t"
  shows "inv s \<Longrightarrow> ok_run es s \<Longrightarrow> run_steps step es s = Some t \<Longrightarrow> R s t"
proof (induction es arbitrary: s)
  case (Cons e es)
  then obtain u where u: "step e s = Some u" "run_steps step es u = Some t" by (auto simp: bind_eq_Some_conv)
  with Cons.prems have "inv u" "ok_run es u" "R s u" by (auto intro: step_inv step)
  with u show ?case by (blast intro: trans Cons.IH)
qed (auto intro: refl)

end

subsection \<open>UPDATE ... WHERE ... RETURNING\<close>

definition update_where :: "('r \<Rightarrow> bool) \<Rightarrow> ('r \<Rightarrow> 'r) \<Rightarrow> 'r list \<Rightarrow> 'r list" where
  "update_where P f rows = map (\<lambda>r. if P r then f r else r) rows"

definition returning :: "('r \<Rightarrow> bool) \<Rightarrow> ('r \<Rightarrow> 'r) \<Rightarrow> 'r list \<Rightarrow> 'r list" where
  "returning P f rows = map f (filter P rows)"

lemma map_update_where [simp]: "(\<And>r. k (f r) = k r) \<Longrightarrow> map k (update_where P f rows) = map k rows"
  by (simp add: update_where_def)

lemma set_update_where: "set (update_where P f rows) = (\<lambda>r. if P r then f r else r) ` set rows"
  by (simp add: update_where_def)

lemma length_update_where [simp]: "length (update_where P f rows) = length rows"
  by (simp add: update_where_def)

lemma update_where_none: "(\<And>r. r \<in> set rows \<Longrightarrow> \<not> P r) \<Longrightarrow> update_where P f rows = rows"
  by (induction rows) (simp_all add: update_where_def)

lemma update_where_keeps: "r \<in> set rows \<Longrightarrow> \<not> P r \<Longrightarrow> r \<in> set (update_where P f rows)"
  by (force simp: set_update_where)

text \<open>Row by primary key.\<close>

definition row_by :: "('r \<Rightarrow> 'k) \<Rightarrow> 'k \<Rightarrow> 'r list \<Rightarrow> 'r option" where
  "row_by k i rows = find (\<lambda>r. k r = i) rows"

lemma row_by_Some: "row_by k i rows = Some r \<Longrightarrow> r \<in> set rows \<and> k r = i"
  unfolding row_by_def by (rule find_some_props)

lemma row_by_distinct: "distinct (map k rows) \<Longrightarrow> r \<in> set rows \<Longrightarrow> row_by k (k r) rows = Some r"
proof (induction rows)
  case (Cons x rows)
  then show ?case by (cases "k x = k r") (auto simp: row_by_def)
qed simp

lemma row_by_None: "row_by k i rows = None \<longleftrightarrow> i \<notin> k ` set rows"
  by (auto simp: row_by_def find_None_iff)

lemma row_by_update_where:
  assumes "\<And>r. k (f r) = k r"
  shows "row_by k i (update_where P f rows) = map_option (\<lambda>r. if P r then f r else r) (row_by k i rows)"
  by (induction rows) (simp_all add: row_by_def update_where_def assms)

lemma row_by_append:
  "row_by k i (xs @ ys) = (case row_by k i xs of None \<Rightarrow> row_by k i ys | Some r \<Rightarrow> Some r)"
  by (induction xs) (simp_all add: row_by_def)

lemma distinct_keys_unique: "distinct (map k rows) \<Longrightarrow> a \<in> set rows \<Longrightarrow> b \<in> set rows \<Longrightarrow> k a = k b \<Longrightarrow> a = b"
  by (metis distinct_map inj_onD)

text \<open>Removing the element at an index, as a finished execution is.\<close>

definition drop_index :: "nat \<Rightarrow> 'a list \<Rightarrow> 'a list" where
  "drop_index i xs = take i xs @ drop (Suc i) xs"

lemma set_drop_index: "set (drop_index i xs) \<subseteq> set xs"
  by (auto simp: drop_index_def dest: in_set_takeD in_set_dropD)

lemma mset_drop_index: "i < length xs \<Longrightarrow> mset xs = add_mset (xs ! i) (mset (drop_index i xs))"
  by (subst id_take_nth_drop [of i xs]) (simp_all add: drop_index_def)

lemma distinct_drop_index: "distinct (map k xs) \<Longrightarrow> distinct (map k (drop_index i xs))"
  unfolding drop_index_def map_append take_map [symmetric] drop_map [symmetric]
  by (simp add: set_take_disj_set_drop_if_distinct)

lemma drop_index_filtered_keys:
  assumes "distinct (map k (filter P xs))" and "x < length xs" and "P (xs ! x)" and "y \<in> set (drop_index x xs)" "P y"
  shows "k y \<noteq> k (xs ! x)"
proof -
  have "distinct (map k (filter P (take x xs @ xs ! x # drop (Suc x) xs)))"
    by (subst id_take_nth_drop [OF assms(2), symmetric]) (rule assms(1))
  then have "k (xs ! x) \<notin> k ` (set (filter P (take x xs)) \<union> set (filter P (drop (Suc x) xs)))"
    using assms(3) by auto
  moreover have "y \<in> set (filter P (take x xs)) \<union> set (filter P (drop (Suc x) xs))"
    using assms(4,5) by (auto simp: drop_index_def)
  ultimately show ?thesis by (metis imageI)
qed

lemma drop_index_keys_differ:
  "distinct (map k xs) \<Longrightarrow> x < length xs \<Longrightarrow> y \<in> set (drop_index x xs) \<Longrightarrow> k y \<noteq> k (xs ! x)"
  using drop_index_filtered_keys [where P = "\<lambda>_. True"] by simp

lemma drop_index_others: "x < length xs \<Longrightarrow> y \<in> set xs \<Longrightarrow> y \<noteq> xs ! x \<Longrightarrow> y \<in> set (drop_index x xs)"
  by (metis insert_iff mset_drop_index set_mset_add_mset_insert set_mset_mset)

lemma length_filter_drop_index:
  assumes "x < length xs"
  shows "length (filter P xs) = length (filter P (drop_index x xs)) + (if P (xs ! x) then 1 else 0)"
proof -
  have len: "length (filter P ys) = size (filter_mset P (mset ys))" for ys by (metis mset_filter size_mset)
  show ?thesis unfolding len mset_drop_index [OF assms] by simp
qed

lemma length_filter_drop_index_le: "length (filter P (drop_index x xs)) \<le> length (filter P xs)"
  by (cases "x < length xs") (simp_all add: length_filter_drop_index drop_index_def)

lemma distinct_filter_drop_index:
  assumes "distinct (map k (filter P xs))"
  shows "distinct (map k (filter P (drop_index x xs)))"
proof (cases "x < length xs")
  case True
  have "distinct (map k (filter P (take x xs @ xs ! x # drop (Suc x) xs)))"
    by (subst id_take_nth_drop [OF True, symmetric]) (rule assms)
  then show ?thesis by (auto simp: drop_index_def split: if_splits)
qed (use assms in \<open>simp add: drop_index_def\<close>)

end
