(* ===== verification/ContentFilterService.thy ===== *)
theory ContentFilterService
  imports ContentFilter Msisdn StepSystem
begin

section \<open>The rule store and its cache: messaging-depth/content-filter.service.ts\<close>

text \<open>
  The service around the content filter: the rules of each tenant (the rows of
  \<open>messaging_content_rules\<close>, in insertion order), the audit trail and the in-process cache of
  compiled rule sets. An operation that throws leaves the state as it was, which is what the
  transaction around it does. A row's new identifier and the clock are arguments; the cache is the
  insertion-ordered \<open>Map\<close> as an association list. What other operations can get in between (the
  checks of a write and its INSERT or UPDATE, its COMMIT and the invalidation, the query of a load
  and the insertion into the cache) are definitions of their own, of which \<open>create\<close>, \<open>update\<close>,
  \<open>remove_rule\<close>, \<open>quarantine\<close> and \<open>loadInClient\<close> are the undisturbed compositions; the theory
  \<^theory_text>\<open>ContentConcurrency\<close> interleaves them.
\<close>

definition MAX_CACHED_TENANTS :: nat where "MAX_CACHED_TENANTS = 256"

definition cacheTtlMs :: "string option \<Rightarrow> int" where
  "cacheTtlMs env =
     (case (case env of None \<Rightarrow> Fin 15000 | Some s \<Rightarrow> string_to_number s) of
        Fin q \<Rightarrow> if q < 0 then 15000 else min \<lfloor>q\<rfloor> 600000
      | _ \<Rightarrow> 15000)"

record rule_set =
  rs_rules :: "compiled_rule list"
  rs_hasSmscScopedRules :: bool
  rs_loadedAtMs :: int

record filter_store =
  fs_rows :: "string \<Rightarrow> content_row list"
  fs_smscs :: "string \<Rightarrow> string list"
  fs_customers :: "string \<Rightarrow> string list"
  fs_audit :: "(string \<times> string \<times> string) list"
  fs_cache :: "(string \<times> rule_set) list"

subsection \<open>The cache\<close>

definition cache_delete :: "string \<Rightarrow> (string \<times> 'v) list \<Rightarrow> (string \<times> 'v) list" where
  "cache_delete k c = filter (\<lambda>p. fst p \<noteq> k) c"

text \<open>\<open>Map.set\<close>: a present key keeps its place, a new one goes to the end.\<close>

definition cache_set :: "string \<Rightarrow> 'v \<Rightarrow> (string \<times> 'v) list \<Rightarrow> (string \<times> 'v) list" where
  "cache_set k v c =
     (if k \<in> fst ` set c then map (\<lambda>p. if fst p = k then (k, v) else p) c else c @ [(k, v)])"

definition invalidate :: "string \<Rightarrow> filter_store \<Rightarrow> filter_store" where
  "invalidate tenant st = st\<lparr>fs_cache := cache_delete tenant (fs_cache st)\<rparr>"

definition invalidateAll :: "filter_store \<Rightarrow> filter_store" where
  "invalidateAll st = st\<lparr>fs_cache := []\<rparr>"

subsection \<open>Loading\<close>

definition row_cmp :: "content_row \<Rightarrow> content_row \<Rightarrow> int" where
  "row_cmp =
     cmp_or (cmp_diff cr_priority) (cmp_or (cmp_diff (\<lambda>r. toMs (cr_created_at r))) (cmp_key cr_id))"

definition live_row :: "int \<Rightarrow> content_row \<Rightarrow> bool" where
  "live_row now r \<longleftrightarrow>
     cr_enabled r \<and> (case cr_expires_at r of None \<Rightarrow> True | Some e \<Rightarrow> e > now)"

text \<open>The query: enabled, not expired, in order, at most 500 of them.\<close>

definition select_live :: "int \<Rightarrow> content_row list \<Rightarrow> content_row list" where
  "select_live now rows = take MAX_RULES_PER_TENANT (sort_cmp row_cmp (filter (live_row now) rows))"

text \<open>The cached set while it is within its window, the set made of the query's rows, and its insertion.\<close>

definition cached_set :: "int \<Rightarrow> int \<Rightarrow> string \<Rightarrow> filter_store \<Rightarrow> rule_set option" where
  "cached_set ttl now tenant st =
     (case map_of (fs_cache st) tenant of
        None \<Rightarrow> None
      | Some cached \<Rightarrow> if now - rs_loadedAtMs cached < ttl then Some cached else None)"

definition compile_set :: "content_env \<Rightarrow> int \<Rightarrow> content_row list \<Rightarrow> rule_set" where
  "compile_set env now rows =
     (let rules = sort_cmp compareRules (map (compileRule env) rows)
      in \<lparr>rs_rules = rules, rs_hasSmscScopedRules = (\<exists>r \<in> set rules. cc_smscId r \<noteq> None),
          rs_loadedAtMs = now\<rparr>)"

definition store_set :: "string \<Rightarrow> rule_set \<Rightarrow> filter_store \<Rightarrow> filter_store" where
  "store_set tenant loaded st =
     (let c = (if map_of (fs_cache st) tenant = None \<and> length (fs_cache st) \<ge> MAX_CACHED_TENANTS
               then cache_delete (fst (hd (fs_cache st))) (fs_cache st)
               else fs_cache st)
      in st\<lparr>fs_cache := cache_set tenant loaded c\<rparr>)"

definition loadInClient ::
    "content_env \<Rightarrow> int \<Rightarrow> int \<Rightarrow> string \<Rightarrow> filter_store \<Rightarrow> rule_set \<times> filter_store" where
  "loadInClient env ttl now tenant st =
     (case cached_set ttl now tenant st of
        Some cached \<Rightarrow> (cached, st)
      | None \<Rightarrow>
          let loaded = compile_set env now (select_live now (fs_rows st tenant))
          in (loaded, store_set tenant loaded st))"

subsection \<open>Bookkeeping after a send\<close>

definition map_rows ::
    "string \<Rightarrow> (content_row list \<Rightarrow> content_row list) \<Rightarrow> filter_store \<Rightarrow> filter_store" where
  "map_rows tenant f st = st\<lparr>fs_rows := (fs_rows st)(tenant := f (fs_rows st tenant))\<rparr>"

definition audit_rows :: "string \<Rightarrow> string \<Rightarrow> string list \<Rightarrow> filter_store \<Rightarrow> filter_store" where
  "audit_rows tenant action ids st = st\<lparr>fs_audit := fs_audit st @ map (\<lambda>i. (tenant, action, i)) ids\<rparr>"

definition recordHit :: "string \<Rightarrow> string \<Rightarrow> filter_store \<Rightarrow> filter_store" where
  "recordHit tenant i st =
     map_rows tenant (map (\<lambda>r. if cr_id r = i then r\<lparr>cr_match_count := cr_match_count r + 1\<rparr> else r)) st"

text \<open>The quarantine's transaction, and the invalidation after it.\<close>

definition quarantine_commit :: "string \<Rightarrow> string list \<Rightarrow> filter_store \<Rightarrow> filter_store" where
  "quarantine_commit tenant ids st =
     (let hit = (\<lambda>r. cr_id r \<in> set ids \<and> cr_enabled r);
          disabled = map cr_id (filter hit (fs_rows st tenant))
      in audit_rows tenant ''messaging_content_rule.quarantined'' disabled
           (map_rows tenant (map (\<lambda>r. if hit r then r\<lparr>cr_enabled := False, cr_quarantined := True\<rparr> else r)) st))"

definition quarantine :: "string \<Rightarrow> string list \<Rightarrow> filter_store \<Rightarrow> filter_store" where
  "quarantine tenant ids st = invalidate tenant (quarantine_commit tenant ids st)"

definition settle :: "string \<Rightarrow> filter_verdict \<Rightarrow> filter_store \<Rightarrow> filter_store" where
  "settle tenant v st =
     (let st1 = (if fv_overBudget v \<noteq> [] then quarantine tenant (fv_overBudget v) st else st)
      in case fv_decidedBy v of
           Some m \<Rightarrow> if rm_action m = Block then recordHit tenant (rm_ruleId m) st1 else st1
         | None \<Rightarrow> st1)"

text \<open>The preview: the send path's evaluation on a normalised recipient.\<close>

record preview_input =
  pv_sender :: "string option"
  pv_recipient :: "string option"
  pv_text :: "string option"
  pv_smscId :: "string option"
  pv_customerId :: "string option"

definition preview_context :: "string option \<Rightarrow> preview_input \<Rightarrow> filter_context" where
  "preview_context countryCode input =
     (let recipientRaw = coalesce (pv_recipient input) [];
          normalized = normalizeMsisdn countryCode (Some recipientRaw) None
      in \<lparr>fc_sender = coalesce (pv_sender input) [],
          fc_recipient = coalesce (nm_digits normalized) (filter is_digit recipientRaw),
          fc_body = coalesce (pv_text input) [], fc_smscId = pv_smscId input,
          fc_customerId = pv_customerId input\<rparr>)"

definition preview ::
    "content_env \<Rightarrow> int \<Rightarrow> int \<Rightarrow> string option \<Rightarrow> string \<Rightarrow> preview_input \<Rightarrow> filter_store
     \<Rightarrow> explanation \<times> filter_store" where
  "preview env ttl now countryCode tenant input st =
     (let (loaded, st1) = loadInClient env ttl now tenant st;
          explained = explainContent env (rs_rules loaded) (preview_context countryCode input);
          over = fv_overBudget (xp_verdict explained)
      in (explained, if over \<noteq> [] then quarantine tenant over st1 else st1))"

subsection \<open>Writes\<close>

text \<open>\<open>None\<close> is \<open>undefined\<close>; for a nullable field \<open>Some None\<close> is null.\<close>

record rule_write =
  rw_name :: "string option"
  rw_description :: "string option option"
  rw_matchField :: jsval
  rw_matchType :: jsval
  rw_pattern :: jsval
  rw_caseSensitive :: "bool option"
  rw_action :: jsval
  rw_smscId :: "string option option"
  rw_customerId :: "string option option"
  rw_enabled :: "bool option"
  rw_priority :: jsval
  rw_expiresAt :: "int option option"
  rw_reason :: "string option option"

datatype store_error =
    Invalid content_error
  | NameRequired
  | NameTooLong
  | BadSmscId
  | BadCustomerId
  | UnknownSmsc string
  | UnknownCustomer
  | TooManyRules
  | TooManyRegexRules
  | RuleNotFound
  | NameTaken string

definition is_engine_char :: "char \<Rightarrow> bool" where
  "is_engine_char c \<longleftrightarrow> (97 \<le> char_code c \<and> char_code c \<le> 122) \<or> is_digit c"

definition ENGINE_ID :: "string \<Rightarrow> bool" where
  "ENGINE_ID s \<longleftrightarrow>
     (case s of [] \<Rightarrow> False
      | c # t \<Rightarrow> is_engine_char c \<and> list_all (\<lambda>x. is_engine_char x \<or> x \<in> set ''._-'') t)"

definition is_hex :: "char \<Rightarrow> bool" where
  "is_hex c \<longleftrightarrow> is_digit c \<or> (97 \<le> char_code c \<and> char_code c \<le> 102) \<or> (65 \<le> char_code c \<and> char_code c \<le> 70)"

definition UUID :: "string \<Rightarrow> bool" where
  "UUID s \<longleftrightarrow>
     (let parts = split_on (CHR ''-'') s
      in map length parts = [8, 4, 4, 4, 12] \<and> list_all (list_all is_hex) parts
         \<and> hd (parts ! 2) \<in> set ''12345'' \<and> hd (parts ! 3) \<in> set ''89abAB'')"

definition normaliseScope ::
    "string option \<Rightarrow> (string \<Rightarrow> bool) \<Rightarrow> store_error \<Rightarrow> (store_error, string option) result" where
  "normaliseScope v ok err =
     (if \<not> truthy v then Inr None
      else let t = trim (the v)
           in if t = [] then Inr None else if \<not> ok t then Inl err else Inr (Some t))"

definition field_text :: "match_field \<Rightarrow> string" where
  "field_text f = (case f of FBody \<Rightarrow> ''body'' | FSender \<Rightarrow> ''sender'' | FRecipient \<Rightarrow> ''recipient'' | FAny \<Rightarrow> ''any'')"

definition type_text :: "match_type \<Rightarrow> string" where
  "type_text t = (case t of MSubstring \<Rightarrow> ''substring'' | MExact \<Rightarrow> ''exact'' | MPrefix \<Rightarrow> ''prefix'' | MRegex \<Rightarrow> ''regex'')"

definition action_text :: "rule_action \<Rightarrow> string" where
  "action_text a = (case a of Block \<Rightarrow> ''block'' | Allow \<Rightarrow> ''allow'')"

text \<open>\<open>input.x ?? existing?.x\<close>.\<close>

definition or_existing :: "jsval \<Rightarrow> content_row option \<Rightarrow> (content_row \<Rightarrow> jsval) \<Rightarrow> jsval" where
  "or_existing v existing f =
     (if absent v then (case existing of None \<Rightarrow> JUndefined | Some e \<Rightarrow> f e) else v)"

definition lift_error :: "(content_error, 'a) result \<Rightarrow> (store_error, 'a) result" where
  "lift_error r = (case r of Inl e \<Rightarrow> Inl (Invalid e) | Inr a \<Rightarrow> Inr a)"

text \<open>
  \<open>prepare\<close>: the row an accepted write stores. The identifier, the creation time and the
  counters are those of the row replaced; the caller sets them for a new row.
\<close>

definition blank_row :: "string \<Rightarrow> int \<Rightarrow> content_row" where
  "blank_row i now =
     \<lparr>cr_id = i, cr_name = [], cr_description = None, cr_match_field = FAny, cr_match_type = MSubstring,
      cr_pattern = [], cr_case_sensitive = False, cr_action = Block, cr_smsc_id = None,
      cr_customer_id = None, cr_enabled = True, cr_priority = 100, cr_expires_at = None,
      cr_reason = None, cr_match_count = 0, cr_quarantined = False, cr_created_at = Some now\<rparr>"

definition prepare ::
    "content_env \<Rightarrow> rule_write \<Rightarrow> content_row option \<Rightarrow> content_row \<Rightarrow> (store_error, content_row) result" where
  "prepare env input existing base =
     (let name = (case rw_name input of
                    Some n \<Rightarrow> trim n | None \<Rightarrow> (case existing of Some e \<Rightarrow> cr_name e | None \<Rightarrow> []))
      in if name = [] then Inl NameRequired
         else if length name > 200 then Inl NameTooLong
         else
           bind_result (lift_error (parseMatchField
             (or_existing (rw_matchField input) existing (\<lambda>e. JStr (field_text (cr_match_field e)))))) (\<lambda>matchField.
           bind_result (lift_error (parseMatchType
             (or_existing (rw_matchType input) existing (\<lambda>e. JStr (type_text (cr_match_type e)))))) (\<lambda>matchType.
           bind_result (lift_error (parseAction
             (or_existing (rw_action input) existing (\<lambda>e. JStr (action_text (cr_action e)))))) (\<lambda>action.
           bind_result (lift_error (validatePattern env matchType
             (or_existing (rw_pattern input) existing (\<lambda>e. JStr (cr_pattern e))))) (\<lambda>pattern.
           bind_result (lift_error (parsePriority
             (or_existing (rw_priority input) existing (\<lambda>e. JNum (Fin (of_int (cr_priority e))))) 100)) (\<lambda>priority.
           bind_result (normaliseScope
             (case rw_smscId input of Some s \<Rightarrow> s | None \<Rightarrow> Option.bind existing cr_smsc_id) ENGINE_ID BadSmscId) (\<lambda>smscId.
           bind_result (normaliseScope
             (case rw_customerId input of Some c \<Rightarrow> c | None \<Rightarrow> Option.bind existing cr_customer_id) UUID BadCustomerId) (\<lambda>customerId.
           Inr (base\<lparr>
             cr_name := name,
             cr_description := coalesce (rw_description input) (Option.bind existing cr_description),
             cr_match_field := matchField, cr_match_type := matchType, cr_pattern := pattern,
             cr_case_sensitive := coalesce (rw_caseSensitive input)
               (case existing of Some e \<Rightarrow> cr_case_sensitive e | None \<Rightarrow> False),
             cr_action := action, cr_smsc_id := smscId, cr_customer_id := customerId,
             cr_enabled := coalesce (rw_enabled input)
               (case existing of Some e \<Rightarrow> cr_enabled e | None \<Rightarrow> True),
             cr_priority := priority,
             cr_expires_at := coalesce (rw_expiresAt input) (Option.bind existing cr_expires_at),
             cr_reason := coalesce (rw_reason input) (Option.bind existing cr_reason)\<rparr>)))))))))"

definition enabled_count :: "content_row list \<Rightarrow> nat" where
  "enabled_count rows = length (filter cr_enabled rows)"

definition regex_count :: "content_row list \<Rightarrow> nat" where
  "regex_count rows = length (filter (\<lambda>r. cr_enabled r \<and> cr_match_type r = MRegex) rows)"

definition assertCapacity ::
    "content_row list \<Rightarrow> match_type \<Rightarrow> string option \<Rightarrow> (store_error, unit) result" where
  "assertCapacity rows matchType excludeId =
     (let others = filter (\<lambda>r. Some (cr_id r) \<noteq> excludeId) rows
      in if enabled_count others \<ge> MAX_RULES_PER_TENANT then Inl TooManyRules
         else if matchType = MRegex \<and> regex_count others \<ge> MAX_REGEX_RULES_PER_TENANT
         then Inl TooManyRegexRules
         else Inr ())"

definition assertScopeExists ::
    "filter_store \<Rightarrow> string \<Rightarrow> string option \<Rightarrow> string option \<Rightarrow> (store_error, unit) result" where
  "assertScopeExists st tenant smscId customerId =
     (if truthy smscId \<and> the smscId \<notin> set (fs_smscs st tenant) then Inl (UnknownSmsc (the smscId))
      else if truthy customerId \<and> the customerId \<notin> set (fs_customers st tenant) then Inl UnknownCustomer
      else Inr ())"

definition name_free :: "content_row list \<Rightarrow> string \<Rightarrow> string \<Rightarrow> bool" where
  "name_free rows i name \<longleftrightarrow> (\<forall>r \<in> set rows. cr_id r \<noteq> i \<longrightarrow> cr_name r \<noteq> name)"

text \<open>
  A write reads before it writes: the scope checks and the count of \<open>assertCapacity\<close> are plain
  queries, which lock nothing; an update has locked its own row. The INSERT or UPDATE, the audit row
  and the COMMIT follow, and the cache is invalidated after the COMMIT.
\<close>

definition create_check ::
    "content_env \<Rightarrow> string \<Rightarrow> int \<Rightarrow> string \<Rightarrow> rule_write \<Rightarrow> filter_store \<Rightarrow> (store_error, content_row) result" where
  "create_check env newId now tenant input st =
     bind_result (prepare env input None (blank_row newId now)) (\<lambda>row.
     bind_result (assertScopeExists st tenant (cr_smsc_id row) (cr_customer_id row)) (\<lambda>_.
     bind_result (if cr_enabled row then assertCapacity (fs_rows st tenant) (cr_match_type row) None
                  else Inr ()) (\<lambda>_. Inr row)))"

definition create_commit :: "string \<Rightarrow> content_row \<Rightarrow> filter_store \<Rightarrow> (store_error, filter_store) result" where
  "create_commit tenant row st =
     (if \<not> name_free (fs_rows st tenant) (cr_id row) (cr_name row) then Inl (NameTaken (cr_name row))
      else Inr (audit_rows tenant ''messaging_content_rule.created'' [cr_id row]
             (map_rows tenant (\<lambda>rows. rows @ [row]) st)))"

definition create ::
    "content_env \<Rightarrow> string \<Rightarrow> int \<Rightarrow> string \<Rightarrow> rule_write \<Rightarrow> filter_store
     \<Rightarrow> (store_error, content_row \<times> filter_store) result" where
  "create env newId now tenant input st =
     bind_result (create_check env newId now tenant input st) (\<lambda>row.
     bind_result (create_commit tenant row st) (\<lambda>st'. Inr (row, invalidate tenant st')))"

definition update_check ::
    "content_env \<Rightarrow> string \<Rightarrow> string \<Rightarrow> rule_write \<Rightarrow> filter_store
     \<Rightarrow> (store_error, content_row \<times> content_row) result" where
  "update_check env tenant i input st =
     (case find (\<lambda>r. cr_id r = i) (fs_rows st tenant) of
        None \<Rightarrow> Inl RuleNotFound
      | Some existing \<Rightarrow>
          bind_result (prepare env input (Some existing) existing) (\<lambda>prepared.
          bind_result (assertScopeExists st tenant (cr_smsc_id prepared) (cr_customer_id prepared)) (\<lambda>_.
          bind_result (if cr_enabled prepared
                       then assertCapacity (fs_rows st tenant) (cr_match_type prepared) (Some i)
                       else Inr ()) (\<lambda>_.
          Inr (existing,
               prepared\<lparr>cr_quarantined := (if cr_enabled prepared then False else cr_quarantined existing)\<rparr>)))))"

definition update_commit :: "string \<Rightarrow> content_row \<Rightarrow> filter_store \<Rightarrow> (store_error, filter_store) result" where
  "update_commit tenant row st =
     (if \<not> name_free (fs_rows st tenant) (cr_id row) (cr_name row) then Inl (NameTaken (cr_name row))
      else Inr (audit_rows tenant ''messaging_content_rule.updated'' [cr_id row]
             (map_rows tenant (map (\<lambda>r. if cr_id r = cr_id row then row else r)) st)))"

definition update ::
    "content_env \<Rightarrow> string \<Rightarrow> string \<Rightarrow> rule_write \<Rightarrow> filter_store
     \<Rightarrow> (store_error, content_row \<times> filter_store) result" where
  "update env tenant i input st =
     bind_result (update_check env tenant i input st) (\<lambda>(_, row).
     bind_result (update_commit tenant row st) (\<lambda>st'. Inr (row, invalidate tenant st')))"

definition remove_commit :: "string \<Rightarrow> string \<Rightarrow> filter_store \<Rightarrow> (store_error, filter_store) result" where
  "remove_commit tenant i st =
     (case find (\<lambda>r. cr_id r = i) (fs_rows st tenant) of
        None \<Rightarrow> Inl RuleNotFound
      | Some _ \<Rightarrow>
          Inr (audit_rows tenant ''messaging_content_rule.deleted'' [i]
                 (map_rows tenant (filter (\<lambda>r. cr_id r \<noteq> i)) st)))"

definition remove_rule ::
    "string \<Rightarrow> string \<Rightarrow> filter_store \<Rightarrow> (store_error, filter_store) result" where
  "remove_rule tenant i st = bind_result (remove_commit tenant i st) (\<lambda>st'. Inr (invalidate tenant st'))"

definition cache_ok :: "(string \<times> 'v) list \<Rightarrow> bool" where
  "cache_ok c \<longleftrightarrow> distinct (map fst c) \<and> length c \<le> MAX_CACHED_TENANTS"

subsection \<open>The cache\<close>

lemma cache_delete_simps [simp]:
  "map_of (cache_delete k c) k = None"
  "k' \<noteq> k \<Longrightarrow> map_of (cache_delete k c) k' = map_of c k'"
  by (induction c) (auto simp: cache_delete_def)

lemma cache_delete_ok: "cache_ok c \<Longrightarrow> cache_ok (cache_delete k c)"
  unfolding cache_ok_def cache_delete_def
  by (auto intro: distinct_map_filter order_trans [OF length_filter_le])

lemma cache_set_keys:
  "map fst (cache_set k v c) = (if k \<in> fst ` set c then map fst c else map fst c @ [k])"
  by (auto simp: cache_set_def)

lemma cache_set_ok:
  assumes "cache_ok c" "k \<in> fst ` set c \<or> length c < MAX_CACHED_TENANTS"
  shows "cache_ok (cache_set k v c)"
proof -
  have "length (cache_set k v c) \<le> MAX_CACHED_TENANTS"
    using assms by (auto simp: cache_ok_def cache_set_def)
  moreover have "distinct (map fst (cache_set k v c))"
    unfolding cache_set_keys using assms(1) by (auto simp: cache_ok_def)
  ultimately show ?thesis by (simp add: cache_ok_def)
qed

lemma cache_delete_hd:
  "cache_ok c \<Longrightarrow> c \<noteq> [] \<Longrightarrow> length (cache_delete (fst (hd c)) c) < length c"
  unfolding cache_delete_def by (cases c) (auto intro: le_imp_less_Suc)

lemma store_set_rows [simp]: "fs_rows (store_set t s st) = fs_rows st"
  by (simp add: store_set_def Let_def)

lemma loadInClient_rows [simp]:
  "fs_rows (snd (loadInClient env ttl now t st)) = fs_rows st"
  by (simp add: loadInClient_def Let_def split: option.split)

lemma store_set_cache_ok:
  assumes "cache_ok (fs_cache st)"
  shows "cache_ok (fs_cache (store_set t s st))"
proof -
  let ?c = "fs_cache st"
  let ?d = "if map_of ?c t = None \<and> length ?c \<ge> MAX_CACHED_TENANTS then cache_delete (fst (hd ?c)) ?c else ?c"
  have room: "t \<in> fst ` set ?d \<or> length ?d < MAX_CACHED_TENANTS"
  proof (cases "map_of ?c t = None \<and> length ?c \<ge> MAX_CACHED_TENANTS")
    case True
    then have "?c \<noteq> []" by (auto simp: MAX_CACHED_TENANTS_def)
    from cache_delete_hd [OF assms this] True assms show ?thesis by (auto simp: cache_ok_def)
  next
    case False
    then show ?thesis by (auto simp: map_of_eq_None_iff)
  qed
  have "cache_ok ?d" using assms cache_delete_ok by auto
  from cache_set_ok [OF this room] show ?thesis by (simp add: store_set_def Let_def)
qed

lemma map_of_replace:
  "map_of (map (\<lambda>p. if fst p = k then (k, v) else p) c) k' =
     (if k' = k then if k \<in> fst ` set c then Some v else None else map_of c k')"
  by (induction c) (simp_all, force)

lemma map_of_cache_set: "map_of (cache_set k v c) k' = (if k' = k then Some v else map_of c k')"
proof (cases "k \<in> fst ` set c")
  case True
  then show ?thesis by (simp add: cache_set_def map_of_replace)
next
  case False
  then have "map_of c k = None" by (simp add: map_of_eq_None_iff)
  with False show ?thesis by (simp add: cache_set_def map_add_def split: option.split)
qed

lemma store_set_lookup: "map_of (fs_cache (store_set t s st)) t = Some s"
  by (simp add: store_set_def Let_def map_of_cache_set)

subsection \<open>The rows\<close>

lemma name_free_absent:
  "i \<notin> cr_id ` set rows \<Longrightarrow> name_free rows i n \<Longrightarrow> n \<notin> cr_name ` set rows"
proof
  assume h: "i \<notin> cr_id ` set rows" "name_free rows i n" "n \<in> cr_name ` set rows"
  then obtain r where r: "r \<in> set rows" "n = cr_name r" by blast
  then have "cr_id r \<noteq> i" using h(1) by blast
  then show False using h(2) r by (auto simp: name_free_def)
qed

lemma replace_absent: "i \<notin> cr_id ` set rows \<Longrightarrow> map (\<lambda>r. if cr_id r = i then row else r) rows = rows"
  by (rule map_idI) auto

lemma count_replace:
  assumes "distinct (map cr_id rows)" "cr_id row = i" "i \<in> cr_id ` set rows"
  shows "length (filter P (map (\<lambda>r. if cr_id r = i then row else r) rows)) =
    length (filter P (filter (\<lambda>r. cr_id r \<noteq> i) rows)) + (if P row then 1 else 0)"
  using assms
proof (induction rows)
  case (Cons r rows)
  show ?case
  proof (cases "cr_id r = i")
    case True
    then have i: "i \<notin> cr_id ` set rows" using Cons.prems by auto
    then have "filter (\<lambda>r. cr_id r \<noteq> i) rows = rows" by (auto intro: filter_True)
    with True replace_absent [OF i, of row] show ?thesis by (simp del: filter_map)
  next
    case False
    with Cons.prems Cons.IH show ?thesis by (auto simp del: filter_map)
  qed
qed simp

lemma replace_ids: "cr_id row = i \<Longrightarrow> map cr_id (map (\<lambda>r. if cr_id r = i then row else r) rows) = map cr_id rows"
  by (induction rows) auto

lemma distinct_names_replace:
  assumes "distinct (map cr_id rows)" "distinct (map cr_name rows)" "cr_id row = i"
    and "name_free rows i (cr_name row)"
  shows "distinct (map cr_name (map (\<lambda>r. if cr_id r = i then row else r) rows))"
  using assms
proof (induction rows)
  case (Cons r rows)
  show ?case
  proof (cases "cr_id r = i")
    case True
    then have i: "i \<notin> cr_id ` set rows" using Cons.prems by auto
    moreover have "name_free rows i (cr_name row)" using Cons.prems(4) by (simp add: name_free_def)
    ultimately have "cr_name row \<notin> cr_name ` set rows" by (rule name_free_absent)
    then show ?thesis using True Cons.prems unfolding list.map replace_absent [OF i] by simp
  next
    case False
    have "cr_name r \<notin> set (map cr_name (map (\<lambda>r. if cr_id r = i then row else r) rows))"
      using False Cons.prems by (auto simp: name_free_def split: if_splits)
    moreover have "distinct (map cr_name (map (\<lambda>r. if cr_id r = i then row else r) rows))"
      using Cons by (simp add: name_free_def)
    ultimately show ?thesis using False by simp
  qed
qed simp

lemma count_subset:
  "length (filter P (filter (\<lambda>r. cr_id r \<noteq> i) rows)) \<le> length (filter P rows)"
  by (induction rows) auto

lemma prepare_id: "prepare env input existing base = Inr row \<Longrightarrow> cr_id row = cr_id base"
  unfolding prepare_def Let_def by (auto simp: bind_result_Inr_iff split: if_splits)

lemma map_rows_simps [simp]:
  "fs_rows (map_rows t f st) = (fs_rows st)(t := f (fs_rows st t))"
  "fs_cache (map_rows t f st) = fs_cache st"
  "fs_rows (audit_rows t a ids st) = fs_rows st" "fs_cache (audit_rows t a ids st) = fs_cache st"
  "fs_rows (invalidate t st) = fs_rows st" "fs_cache (invalidate t st) = cache_delete t (fs_cache st)"
  by (simp_all add: map_rows_def audit_rows_def invalidate_def)

lemma create_check_effect:
  assumes "create_check env newId now t input st = Inr row"
  shows "cr_id row = newId"
    "cr_enabled row \<Longrightarrow> assertCapacity (fs_rows st t) (cr_match_type row) None = Inr ()"
  using assms unfolding create_check_def
  by (auto simp: bind_result_Inr_iff blank_row_def dest!: prepare_id split: if_splits)

lemma update_check_effect:
  assumes "update_check env t i input st = Inr (old, row)"
  shows "old \<in> set (fs_rows st t)" "cr_id old = i" "cr_id row = i"
    "cr_enabled row \<Longrightarrow> assertCapacity (fs_rows st t) (cr_match_type row) (Some i) = Inr ()"
proof -
  obtain existing where e: "find (\<lambda>r. cr_id r = i) (fs_rows st t) = Some existing"
    using assms by (auto simp: update_check_def split: option.splits)
  note ei = find_some_props [OF e]
  show "old \<in> set (fs_rows st t)" "cr_id old = i" "cr_id row = i"
    "cr_enabled row \<Longrightarrow> assertCapacity (fs_rows st t) (cr_match_type row) (Some i) = Inr ()"
    using assms ei unfolding update_check_def e option.case
    by (auto simp: bind_result_Inr_iff Let_def dest!: prepare_id split: if_splits)
qed

lemma commit_effects:
  "create_commit t row st = Inr st' \<Longrightarrow> fs_rows st' = (fs_rows st)(t := fs_rows st t @ [row])
     \<and> fs_cache st' = fs_cache st \<and> name_free (fs_rows st t) (cr_id row) (cr_name row)"
  "update_commit t row st = Inr st' \<Longrightarrow>
     fs_rows st' = (fs_rows st)(t := map (\<lambda>r. if cr_id r = cr_id row then row else r) (fs_rows st t))
     \<and> fs_cache st' = fs_cache st \<and> name_free (fs_rows st t) (cr_id row) (cr_name row)"
  "remove_commit t i st = Inr st' \<Longrightarrow> fs_rows st' = (fs_rows st)(t := filter (\<lambda>r. cr_id r \<noteq> i) (fs_rows st t))
     \<and> fs_cache st' = fs_cache st"
  "fs_rows (quarantine_commit t ids st) = (fs_rows st)(t := map (\<lambda>r. if cr_id r \<in> set ids \<and> cr_enabled r
      then r\<lparr>cr_enabled := False, cr_quarantined := True\<rparr> else r) (fs_rows st t))"
  "fs_cache (quarantine_commit t ids st) = fs_cache st"
  by (auto simp: create_commit_def update_commit_def remove_commit_def quarantine_commit_def Let_def
      split: if_splits option.splits)

definition empty_store :: filter_store where
  "empty_store = \<lparr>fs_rows = (\<lambda>_. []), fs_smscs = (\<lambda>_. [''mtn'']), fs_customers = (\<lambda>_. []),
                   fs_audit = [], fs_cache = []\<rparr>"

definition sample_write :: rule_write where
  "sample_write = \<lparr>rw_name = Some '' No loans '', rw_description = None, rw_matchField = JStr ''body'',
     rw_matchType = JStr ''substring'', rw_pattern = JStr ''loan'', rw_caseSensitive = None,
     rw_action = JStr ''block'', rw_smscId = Some (Some ''mtn''), rw_customerId = None, rw_enabled = None,
     rw_priority = JUndefined, rw_expiresAt = None, rw_reason = None\<rparr>"

definition sample_row :: content_row where
  "sample_row = (blank_row ''r1'' 5)\<lparr>cr_name := ''No loans'', cr_match_field := FBody,
     cr_pattern := ''loan'', cr_smsc_id := Some ''mtn''\<rparr>"

lemma sample_prepare: "prepare sample_env sample_write None (blank_row ''r1'' 5) = Inr sample_row"
  by code_simp

end
