(* ===== verification/ContentConcurrency.thy ===== *)
theory ContentConcurrency
  imports ContentFilterService
begin

section \<open>Interleaved rule writes and loads: messaging-depth/content-filter.service.ts\<close>

text \<open>
  The operations of the service are sequences of awaited steps, and the steps of any number of them
  interleave. Each step here is what the database or the process does at once: the checks of a write
  (plain queries), its INSERT or UPDATE up to the COMMIT, the invalidation that follows, the query of
  a load, and the insertion of its result into the cache. An update holds the lock of its row from the
  SELECT FOR UPDATE to the COMMIT, so whatever else writes that row waits. The cache is that of one
  process; the writes are those of any process, which is why a committed change may also never be
  followed by an invalidation here.
\<close>

subsection \<open>The machine\<close>

record pending_write =
  pw_tenant :: string
  pw_row :: content_row
  pw_old :: "content_row option"

record pending_load =
  pl_tenant :: string
  pl_rows :: "content_row list"

record filter_system =
  sy_store :: filter_store
  sy_writes :: "pending_write list"
  sy_loads :: "pending_load list"
  sy_changed :: "string list"

datatype filter_event =
    FCheckCreate string string int rule_write
  | FCheckUpdate string string rule_write
  | FCommit nat
  | FAbort nat
  | FRemove string string
  | FQuarantine string "string list"
  | FHit string string
  | FInvalidate nat
  | FForget nat
  | FInvalidateAll
  | FSelect int int int string
  | FStore int nat
  | FDropLoad nat

definition write_locks :: "string \<Rightarrow> string \<Rightarrow> pending_write \<Rightarrow> bool" where
  "write_locks t i p \<longleftrightarrow> pw_tenant p = t \<and> (case pw_old p of None \<Rightarrow> False | Some e \<Rightarrow> cr_id e = i)"

definition row_locked :: "filter_system \<Rightarrow> string \<Rightarrow> string \<Rightarrow> bool" where
  "row_locked sy t i \<longleftrightarrow> list_ex (write_locks t i) (sy_writes sy)"

text \<open>A committed change of a tenant's rules, its invalidation to follow.\<close>

definition changed :: "string \<Rightarrow> filter_store \<Rightarrow> filter_system \<Rightarrow> filter_system" where
  "changed t st sy = sy\<lparr>sy_store := st, sy_changed := sy_changed sy @ [t]\<rparr>"

definition commit_write :: "pending_write \<Rightarrow> filter_store \<Rightarrow> (store_error, filter_store) result" where
  "commit_write p st =
     (if pw_old p = None then create_commit (pw_tenant p) (pw_row p) st else update_commit (pw_tenant p) (pw_row p) st)"

definition id_clash :: "pending_write \<Rightarrow> filter_store \<Rightarrow> bool" where
  "id_clash p st \<longleftrightarrow> pw_old p = None \<and> list_ex (\<lambda>r. cr_id r = cr_id (pw_row p)) (fs_rows st (pw_tenant p))"

text \<open>
  \<open>None\<close>: the event cannot happen now, as when the row is locked or a generated identifier would
  repeat. \<open>FSelect ttl now dbNow t\<close> is a load that misses (\<open>now\<close> is the process's clock, \<open>dbNow\<close> the
  database's); a load that hits changes nothing.
\<close>

fun filter_machine :: "content_env \<Rightarrow> filter_event \<Rightarrow> filter_system \<Rightarrow> filter_system option" where
  "filter_machine env (FCheckCreate t newId now input) sy =
     (case create_check env newId now t input (sy_store sy) of
        Inl _ \<Rightarrow> Some sy
      | Inr row \<Rightarrow> Some (sy\<lparr>sy_writes := sy_writes sy @ [\<lparr>pw_tenant = t, pw_row = row, pw_old = None\<rparr>]\<rparr>))"
| "filter_machine env (FCheckUpdate t i input) sy =
     (if row_locked sy t i then None
      else case update_check env t i input (sy_store sy) of
        Inl _ \<Rightarrow> Some sy
      | Inr (old, row) \<Rightarrow>
          Some (sy\<lparr>sy_writes := sy_writes sy @ [\<lparr>pw_tenant = t, pw_row = row, pw_old = Some old\<rparr>]\<rparr>))"
| "filter_machine env (FCommit x) sy =
     (if x \<ge> length (sy_writes sy) \<or> id_clash (sy_writes sy ! x) (sy_store sy) then None
      else
        let p = sy_writes sy ! x; rest = sy\<lparr>sy_writes := drop_index x (sy_writes sy)\<rparr>
        in (case commit_write p (sy_store sy) of
              Inl _ \<Rightarrow> Some rest
            | Inr st \<Rightarrow> Some (changed (pw_tenant p) st rest)))"
| "filter_machine env (FAbort x) sy =
     (if x < length (sy_writes sy) then Some (sy\<lparr>sy_writes := drop_index x (sy_writes sy)\<rparr>) else None)"
| "filter_machine env (FRemove t i) sy =
     (if row_locked sy t i then None
      else case remove_commit t i (sy_store sy) of Inl _ \<Rightarrow> Some sy | Inr st \<Rightarrow> Some (changed t st sy))"
| "filter_machine env (FQuarantine t ids) sy =
     (if list_ex (\<lambda>r. cr_id r \<in> set ids \<and> cr_enabled r \<and> row_locked sy t (cr_id r)) (fs_rows (sy_store sy) t) then None
      else Some (changed t (quarantine_commit t ids (sy_store sy)) sy))"
| "filter_machine env (FHit t i) sy =
     (if row_locked sy t i then None else Some (sy\<lparr>sy_store := recordHit t i (sy_store sy)\<rparr>))"
| "filter_machine env (FInvalidate x) sy =
     (if x < length (sy_changed sy)
      then Some (sy\<lparr>sy_store := invalidate (sy_changed sy ! x) (sy_store sy), sy_changed := drop_index x (sy_changed sy)\<rparr>)
      else None)"
| "filter_machine env (FForget x) sy =
     (if x < length (sy_changed sy) then Some (sy\<lparr>sy_changed := drop_index x (sy_changed sy)\<rparr>) else None)"
| "filter_machine env FInvalidateAll sy = Some (sy\<lparr>sy_store := invalidateAll (sy_store sy)\<rparr>)"
| "filter_machine env (FSelect ttl now dbNow t) sy =
     (if cached_set ttl now t (sy_store sy) \<noteq> None then None
      else Some (sy\<lparr>sy_loads := sy_loads sy @
             [\<lparr>pl_tenant = t, pl_rows = select_live dbNow (fs_rows (sy_store sy) t)\<rparr>]\<rparr>))"
| "filter_machine env (FStore now x) sy =
     (if x < length (sy_loads sy)
      then let l = sy_loads sy ! x
           in Some (sy\<lparr>sy_store := store_set (pl_tenant l) (compile_set env now (pl_rows l)) (sy_store sy),
                       sy_loads := drop_index x (sy_loads sy)\<rparr>)
      else None)"
| "filter_machine env (FDropLoad x) sy =
     (if x < length (sy_loads sy) then Some (sy\<lparr>sy_loads := drop_index x (sy_loads sy)\<rparr>) else None)"

definition idle_system :: "filter_store \<Rightarrow> filter_system" where
  "idle_system st = \<lparr>sy_store = st, sy_writes = [], sy_loads = [], sy_changed = []\<rparr>"

text \<open>Undisturbed, the steps of an operation make up the operation.\<close>

lemma undisturbed_create:
  assumes "create env newId now t input st = Inr (row, st')" and "newId \<notin> cr_id ` set (fs_rows st t)"
  shows "run_steps (filter_machine env) [FCheckCreate t newId now input, FCommit 0, FInvalidate 0] (idle_system st)
    = Some (idle_system st')"
proof -
  obtain st1 where c: "create_check env newId now t input st = Inr row" "create_commit t row st = Inr st1"
    "st' = invalidate t st1"
    using assms(1) by (auto simp: create_def bind_result_Inr_iff)
  have "\<not> list_ex (\<lambda>r. cr_id r = cr_id row) (fs_rows st t)"
    using assms(2) create_check_effect(1) [OF c(1)] by (auto simp: list_ex_iff intro: rev_image_eqI)
  with c show ?thesis
    by (simp add: idle_system_def Let_def id_clash_def commit_write_def changed_def drop_index_def)
qed

lemma undisturbed_update:
  assumes "update env t i input st = Inr (row, st')"
  shows "run_steps (filter_machine env) [FCheckUpdate t i input, FCommit 0, FInvalidate 0] (idle_system st)
    = Some (idle_system st')"
proof -
  obtain old st1 where c: "update_check env t i input st = Inr (old, row)" "update_commit t row st = Inr st1"
    "st' = invalidate t st1"
    using assms by (auto simp: update_def bind_result_Inr_iff split: prod.splits)
  then show ?thesis
    by (simp add: idle_system_def row_locked_def Let_def id_clash_def commit_write_def changed_def drop_index_def)
qed

lemma undisturbed_remove:
  "remove_rule t i st = Inr st' \<Longrightarrow>
     run_steps (filter_machine env) [FRemove t i, FInvalidate 0] (idle_system st) = Some (idle_system st')"
  by (auto simp: remove_rule_def bind_result_Inr_iff idle_system_def row_locked_def changed_def drop_index_def)

lemma undisturbed_quarantine:
  "run_steps (filter_machine env) [FQuarantine t ids, FInvalidate 0] (idle_system st) = Some (idle_system (quarantine t ids st))"
  by (simp add: quarantine_def idle_system_def row_locked_def changed_def drop_index_def list_ex_iff)

lemma undisturbed_load:
  "cached_set ttl now t st = None \<Longrightarrow>
     run_steps (filter_machine env) [FSelect ttl now now t, FStore now 0] (idle_system st)
       = Some (idle_system (snd (loadInClient env ttl now t st)))"
  by (simp add: loadInClient_def Let_def idle_system_def drop_index_def)

subsection \<open>The ceilings\<close>

text \<open>
  The capacity check counts what is committed. A write that passed it has taken a place that the next
  check does not see, so what stays bounded is the rules in the table together with the places the
  pending writes have taken.
\<close>

definition adds :: "(content_row \<Rightarrow> bool) \<Rightarrow> string \<Rightarrow> pending_write \<Rightarrow> bool" where
  "adds P t p \<longleftrightarrow> pw_tenant p = t \<and> P (pw_row p) \<and> (case pw_old p of None \<Rightarrow> True | Some e \<Rightarrow> \<not> P e)"

definition booked :: "(content_row \<Rightarrow> bool) \<Rightarrow> string \<Rightarrow> filter_system \<Rightarrow> nat" where
  "booked P t sy = length (filter P (fs_rows (sy_store sy) t)) + length (filter (adds P t) (sy_writes sy))"

definition enabled_regex :: "content_row \<Rightarrow> bool" where
  "enabled_regex r \<longleftrightarrow> cr_enabled r \<and> cr_match_type r = MRegex"

definition lock_key :: "pending_write \<Rightarrow> string \<times> string" where
  "lock_key p = (pw_tenant p, cr_id (pw_row p))"

definition write_ok :: "filter_store \<Rightarrow> pending_write \<Rightarrow> bool" where
  "write_ok st p \<longleftrightarrow> (\<forall>e. pw_old p = Some e \<longrightarrow> e \<in> set (fs_rows st (pw_tenant p)) \<and> cr_id (pw_row p) = cr_id e)"

definition filter_inv :: "nat \<Rightarrow> filter_system \<Rightarrow> bool" where
  "filter_inv w sy \<longleftrightarrow>
     cache_ok (fs_cache (sy_store sy))
     \<and> (\<forall>t. distinct (map cr_id (fs_rows (sy_store sy) t)) \<and> distinct (map cr_name (fs_rows (sy_store sy) t))
          \<and> booked cr_enabled t sy \<le> 499 + w \<and> booked enabled_regex t sy \<le> 49 + w)
     \<and> (\<forall>p \<in> set (sy_writes sy). write_ok (sy_store sy) p)
     \<and> distinct (map lock_key (filter (\<lambda>p. pw_old p \<noteq> None) (sy_writes sy)))"

definition tenant_writes :: "string \<Rightarrow> filter_system \<Rightarrow> nat" where
  "tenant_writes t sy = length (filter (\<lambda>p. pw_tenant p = t) (sy_writes sy))"

text \<open>At most \<open>w\<close> writes of a tenant are between their check and their commit at once.\<close>

definition room_for_write :: "nat \<Rightarrow> filter_event \<Rightarrow> filter_system \<Rightarrow> bool" where
  "room_for_write w ev sy =
     (case ev of
        FCheckCreate t _ _ _ \<Rightarrow> tenant_writes t sy < w
      | FCheckUpdate t _ _ \<Rightarrow> tenant_writes t sy < w
      | _ \<Rightarrow> True)"

fun writes_overlap :: "nat \<Rightarrow> content_env \<Rightarrow> filter_event list \<Rightarrow> filter_system \<Rightarrow> bool" where
  "writes_overlap w env [] sy = True"
| "writes_overlap w env (ev # es) sy =
     (room_for_write w ev sy \<and> (case filter_machine env ev sy of None \<Rightarrow> True | Some sy' \<Rightarrow> writes_overlap w env es sy'))"

lemma filter_inv_same_rows:
  assumes inv: "filter_inv w sy" and r: "fs_rows (sy_store sy') = fs_rows (sy_store sy)" and c: "cache_ok (fs_cache (sy_store sy'))"
    and ws: "sy_writes sy' = sy_writes sy \<or> (\<exists>x. sy_writes sy' = drop_index x (sy_writes sy))"
  shows "filter_inv w sy'"
proof -
  have le: "booked P t sy' \<le> booked P t sy" for P t
    using ws length_filter_drop_index_le by (auto simp: booked_def r)
  have sub: "set (sy_writes sy') \<subseteq> set (sy_writes sy)" using ws by (auto dest: set_drop_index [THEN subsetD])
  have "distinct (map lock_key (filter (\<lambda>p. pw_old p \<noteq> None) (sy_writes sy')))"
    using ws inv distinct_filter_drop_index by (auto simp: filter_inv_def)
  moreover have "\<forall>p \<in> set (sy_writes sy'). write_ok (sy_store sy') p"
    using sub inv by (auto simp: filter_inv_def write_ok_def r)
  moreover have "booked cr_enabled t sy' \<le> 499 + w \<and> booked enabled_regex t sy' \<le> 49 + w" for t
    using inv le [of cr_enabled t] le [of enabled_regex t] order_trans unfolding filter_inv_def by blast
  ultimately show ?thesis using inv c by (simp add: filter_inv_def r)
qed

text \<open>A write that adds no rule and touches no locked row.\<close>

lemma filter_inv_shrunk:
  assumes inv: "filter_inv w sy" and rows: "fs_rows st = (fs_rows (sy_store sy))(t := rows)"
    and c: "cache_ok (fs_cache st)"
    and d: "distinct (map cr_id rows)" "distinct (map cr_name rows)"
    and le: "length (filter cr_enabled rows) \<le> length (filter cr_enabled (fs_rows (sy_store sy) t))"
      "length (filter enabled_regex rows) \<le> length (filter enabled_regex (fs_rows (sy_store sy) t))"
    and kept: "\<And>e. e \<in> set (fs_rows (sy_store sy) t) \<Longrightarrow> row_locked sy t (cr_id e) \<Longrightarrow> e \<in> set rows"
    and sy': "sy_store sy' = st" "sy_writes sy' = sy_writes sy"
  shows "filter_inv w sy'"
proof -
  have "booked P u sy' \<le> booked P u sy" if "length (filter P rows) \<le> length (filter P (fs_rows (sy_store sy) t))" for P u
    using that by (simp add: booked_def sy' rows)
  from this [OF le(1)] this [OF le(2)]
  have "booked cr_enabled u sy' \<le> 499 + w \<and> booked enabled_regex u sy' \<le> 49 + w" for u
    using inv order_trans unfolding filter_inv_def by blast
  moreover have "write_ok st p" if p: "p \<in> set (sy_writes sy)" for p
    unfolding write_ok_def
  proof (intro allI impI)
    fix e assume e: "pw_old p = Some e"
    with inv p have old: "e \<in> set (fs_rows (sy_store sy) (pw_tenant p))" "cr_id (pw_row p) = cr_id e"
      by (auto simp: filter_inv_def write_ok_def)
    show "e \<in> set (fs_rows st (pw_tenant p)) \<and> cr_id (pw_row p) = cr_id e"
    proof (cases "pw_tenant p = t")
      case True
      with e p have "row_locked sy t (cr_id e)" by (auto simp: row_locked_def list_ex_iff write_locks_def)
      with kept old True show ?thesis by (simp add: rows)
    qed (use old rows in simp)
  qed
  ultimately show ?thesis using inv c d by (simp add: filter_inv_def sy' rows)
qed

lemma capacity_left:
  assumes "assertCapacity rows mt ex = Inr ()"
  shows "length (filter cr_enabled (filter (\<lambda>r. Some (cr_id r) \<noteq> ex) rows)) \<le> 499"
    "mt = MRegex \<Longrightarrow> length (filter enabled_regex (filter (\<lambda>r. Some (cr_id r) \<noteq> ex) rows)) \<le> 49"
  using assms unfolding assertCapacity_def Let_def enabled_count_def regex_count_def enabled_regex_def
    MAX_RULES_PER_TENANT_def MAX_REGEX_RULES_PER_TENANT_def
  by (auto split: if_splits)

text \<open>What holds of a write that has passed its checks, in whatever state it is: \<open>P\<close> with its ceiling.\<close>

definition has_room :: "content_row list \<Rightarrow> pending_write \<Rightarrow> bool" where
  "has_room rows p \<longleftrightarrow>
     (\<forall>t. adds cr_enabled t p \<longrightarrow> length (filter cr_enabled rows) \<le> 499)
     \<and> (\<forall>t. adds enabled_regex t p \<longrightarrow> length (filter enabled_regex rows) \<le> 49)"

lemma create_has_room:
  assumes "create_check env newId now t input st = Inr row"
  shows "has_room (fs_rows st t) \<lparr>pw_tenant = t, pw_row = row, pw_old = None\<rparr>"
proof -
  have "cr_enabled row \<Longrightarrow> length (filter cr_enabled (fs_rows st t)) \<le> 499"
    using capacity_left(1) [OF create_check_effect(2) [OF assms]] by simp
  moreover have "enabled_regex row \<Longrightarrow> length (filter enabled_regex (fs_rows st t)) \<le> 49"
    using capacity_left(2) [OF create_check_effect(2) [OF assms]] by (simp add: enabled_regex_def)
  ultimately show ?thesis by (simp add: has_room_def adds_def)
qed

lemma count_other_rows:
  assumes "distinct (map cr_id rows)" "e \<in> set rows" "\<not> P e"
  shows "length (filter P rows) = length (filter P (filter (\<lambda>r. Some (cr_id r) \<noteq> Some (cr_id e)) rows))"
proof -
  have "filter P rows = filter P (filter (\<lambda>r. cr_id r \<noteq> cr_id e) rows)"
    unfolding filter_filter
    by (rule filter_cong [OF refl]) (use distinct_keys_unique [OF assms(1) _ assms(2)] assms(3) in blast)
  then show ?thesis by simp
qed

lemma update_has_room:
  assumes c: "update_check env t i input st = Inr (old, row)" and d: "distinct (map cr_id (fs_rows st t))"
  shows "has_room (fs_rows st t) \<lparr>pw_tenant = t, pw_row = row, pw_old = Some old\<rparr>"
proof -
  note e = update_check_effect [OF c]
  have "length (filter cr_enabled (fs_rows st t)) \<le> 499" if "cr_enabled row" "\<not> cr_enabled old"
    using capacity_left(1) [OF e(4) [OF that(1)]] count_other_rows [OF d e(1), of cr_enabled] that(2) e(2) by simp
  moreover have "length (filter enabled_regex (fs_rows st t)) \<le> 49" if "enabled_regex row" "\<not> enabled_regex old"
    using capacity_left(2) [OF e(4)] count_other_rows [OF d e(1), of enabled_regex] that e(2)
    by (simp add: enabled_regex_def)
  ultimately show ?thesis by (simp add: has_room_def adds_def)
qed

lemma filter_inv_checked:
  assumes inv: "filter_inv w sy" and room: "tenant_writes (pw_tenant p) sy < w"
    and p: "has_room (fs_rows (sy_store sy) (pw_tenant p)) p" "write_ok (sy_store sy) p"
    and lock: "pw_old p \<noteq> None \<Longrightarrow> \<not> row_locked sy (pw_tenant p) (cr_id (pw_row p))"
  shows "filter_inv w (sy\<lparr>sy_writes := sy_writes sy @ [p]\<rparr>)"
proof -
  let ?sy = "sy\<lparr>sy_writes := sy_writes sy @ [p]\<rparr>" and ?t = "pw_tenant p"
  have few: "length (filter (adds P t) (sy_writes sy)) < w" if "adds P t p" for P t
  proof -
    have "t = ?t" using that by (simp add: adds_def)
    have "length (filter (adds P ?t) (sy_writes sy)) = length (filter (adds P ?t) (filter (\<lambda>q. pw_tenant q = ?t) (sy_writes sy)))"
      unfolding filter_filter by (intro arg_cong [where f = length] filter_cong) (auto simp: adds_def)
    also have "\<dots> \<le> tenant_writes ?t sy" unfolding tenant_writes_def by (rule length_filter_le)
    finally show ?thesis using room \<open>t = ?t\<close> by simp
  qed
  have booked: "booked P t ?sy \<le> k + w"
    if "booked P t sy \<le> k + w" and "\<And>t. adds P t p \<Longrightarrow> length (filter P (fs_rows (sy_store sy) ?t)) \<le> k" for P t k
  proof (cases "adds P t p")
    case True
    then have "t = ?t" by (simp add: adds_def)
    with few [OF True] that(2) [OF True] True show ?thesis by (simp add: booked_def)
  qed (use that(1) in \<open>simp add: booked_def\<close>)
  have "booked cr_enabled t ?sy \<le> 499 + w" for t
    by (rule booked) (use inv p(1) in \<open>auto simp: filter_inv_def has_room_def\<close>)
  moreover have "booked enabled_regex t ?sy \<le> 49 + w" for t
    by (rule booked) (use inv p(1) in \<open>auto simp: filter_inv_def has_room_def\<close>)
  moreover have "lock_key q \<noteq> lock_key p" if q: "pw_old p \<noteq> None" "q \<in> set (sy_writes sy)" "pw_old q \<noteq> None" for q
  proof
    assume k: "lock_key q = lock_key p"
    obtain e where e: "pw_old q = Some e" using q(3) by blast
    with inv q(2) have "cr_id (pw_row q) = cr_id e" by (auto simp: filter_inv_def write_ok_def)
    with e k q(2) have "row_locked sy ?t (cr_id (pw_row p))"
      by (auto simp: row_locked_def list_ex_iff write_locks_def lock_key_def intro!: bexI [of _ q])
    with lock [OF q(1)] show False ..
  qed
  then have "lock_key p \<notin> lock_key ` set (filter (\<lambda>p. pw_old p \<noteq> None) (sy_writes sy))" if "pw_old p \<noteq> None"
    using that by (metis (mono_tags, lifting) filter_is_subset imageE mem_Collect_eq set_filter)
  then have "distinct (map lock_key (filter (\<lambda>p. pw_old p \<noteq> None) (sy_writes ?sy)))"
    using inv unfolding filter_inv_def by (cases "pw_old p") simp_all
  ultimately show ?thesis using inv p(2) by (simp add: filter_inv_def)
qed

lemma replace_self:
  assumes "distinct (map cr_id rows)" "e \<in> set rows"
  shows "map (\<lambda>r. if cr_id r = cr_id e then e else r) rows = rows"
  by (rule map_idI) (use distinct_keys_unique [OF assms(1) _ assms(2)] in auto)

lemma filter_inv_committed:
  assumes inv: "filter_inv w sy" and x: "x < length (sy_writes sy)"
    and fresh: "\<not> id_clash (sy_writes sy ! x) (sy_store sy)"
    and c: "commit_write (sy_writes sy ! x) (sy_store sy) = Inr st"
  shows "filter_inv w (changed (pw_tenant (sy_writes sy ! x)) st (sy\<lparr>sy_writes := drop_index x (sy_writes sy)\<rparr>))"
proof -
  let ?p = "sy_writes sy ! x"
  let ?t = "pw_tenant ?p" and ?row = "pw_row ?p" and ?sy = "changed (pw_tenant ?p) st (sy\<lparr>sy_writes := drop_index x (sy_writes sy)\<rparr>)"
  let ?rows = "fs_rows (sy_store sy) ?t"
  have d: "distinct (map cr_id ?rows)" "distinct (map cr_name ?rows)" and ok: "write_ok (sy_store sy) ?p"
    and locks: "distinct (map lock_key (filter (\<lambda>p. pw_old p \<noteq> None) (sy_writes sy)))"
    using inv x by (auto simp: filter_inv_def)
  define rows' where "rows' = (case pw_old ?p of None \<Rightarrow> ?rows @ [?row]
      | Some e \<Rightarrow> map (\<lambda>r. if cr_id r = cr_id ?row then ?row else r) ?rows)"
  have eff: "fs_rows st = (fs_rows (sy_store sy))(?t := rows')" "fs_cache st = fs_cache (sy_store sy)"
    "name_free ?rows (cr_id ?row) (cr_name ?row)"
    using c by (auto simp: commit_write_def rows'_def dest: commit_effects(1,2) split: if_splits)
  have main: "distinct (map cr_id rows') \<and> distinct (map cr_name rows')
      \<and> (\<forall>P. length (filter P rows') \<le> length (filter P ?rows) + (if adds P ?t ?p then 1 else 0))"
  proof (cases "pw_old ?p")
    case None
    with fresh have "cr_id ?row \<notin> cr_id ` set ?rows" by (auto simp: id_clash_def list_ex_iff)
    with None d name_free_absent [OF this eff(3)] show ?thesis by (simp add: rows'_def adds_def)
  next
    case (Some e)
    with ok have e: "e \<in> set ?rows" "cr_id ?row = cr_id e" by (auto simp: write_ok_def)
    then have i: "cr_id ?row \<in> cr_id ` set ?rows" by auto
    have "length (filter P rows') \<le> length (filter P ?rows) + (if adds P ?t ?p then 1 else 0)" for P
    proof -
      have "length (filter P rows') = length (filter P (filter (\<lambda>r. cr_id r \<noteq> cr_id ?row) ?rows)) + (if P ?row then 1 else 0)"
        unfolding rows'_def Some option.case by (rule count_replace [OF d(1) refl i])
      moreover have "length (filter P ?rows) = length (filter P (filter (\<lambda>r. cr_id r \<noteq> cr_id e) ?rows)) + (if P e then 1 else 0)"
        using count_replace [OF d(1) refl, of e P] e(1) replace_self [OF d(1) e(1)] by simp
      ultimately show ?thesis using Some e(2) by (simp add: adds_def)
    qed
    moreover have "distinct (map cr_id rows')"
      unfolding rows'_def Some option.case replace_ids [OF refl] by (rule d(1))
    moreover have "distinct (map cr_name rows')"
      unfolding rows'_def Some option.case by (rule distinct_names_replace [OF d refl eff(3)])
    ultimately show ?thesis by blast
  qed
  have booked: "booked P u ?sy \<le> booked P u sy" for P u
  proof (cases "u = ?t")
    case True
    have "length (filter P rows') \<le> length (filter P ?rows) + (if adds P ?t ?p then 1 else 0)" using main by blast
    with length_filter_drop_index [OF x, of "adds P ?t"] True show ?thesis by (simp add: booked_def changed_def eff(1))
  next
    case False
    with length_filter_drop_index_le [of "adds P u" x "sy_writes sy"] show ?thesis by (simp add: booked_def changed_def eff(1))
  qed
  have "booked cr_enabled u ?sy \<le> 499 + w \<and> booked enabled_regex u ?sy \<le> 49 + w" for u
    using inv booked [of cr_enabled u] booked [of enabled_regex u] order_trans unfolding filter_inv_def by blast
  moreover have "write_ok st q" if q: "q \<in> set (drop_index x (sy_writes sy))" for q
    unfolding write_ok_def
  proof (intro allI impI)
    fix e assume e: "pw_old q = Some e"
    have "q \<in> set (sy_writes sy)" by (rule subsetD [OF set_drop_index q])
    with inv e have old: "e \<in> set (fs_rows (sy_store sy) (pw_tenant q))" "cr_id (pw_row q) = cr_id e"
      by (auto simp: filter_inv_def write_ok_def)
    show "e \<in> set (fs_rows st (pw_tenant q)) \<and> cr_id (pw_row q) = cr_id e"
    proof (cases "pw_tenant q = ?t")
      case True
      show ?thesis
      proof (cases "pw_old ?p")
        case (Some e')
        have "lock_key q \<noteq> lock_key ?p"
          by (rule drop_index_filtered_keys [OF locks x _ q]) (use Some e in simp_all)
        with True old have "cr_id e \<noteq> cr_id ?row" by (simp add: lock_key_def)
        with old True Some show ?thesis by (auto simp: eff(1) rows'_def)
      qed (use old True in \<open>simp add: eff(1) rows'_def\<close>)
    qed (use old in \<open>simp add: eff(1)\<close>)
  qed
  moreover have "distinct (map cr_id (fs_rows st u)) \<and> distinct (map cr_name (fs_rows st u))" for u
    using inv main by (simp add: filter_inv_def eff(1))
  ultimately show ?thesis
    using inv distinct_filter_drop_index [OF locks] by (simp add: filter_inv_def changed_def eff(2))
qed

lemma quarantined_rows:
  "map cr_id (map (\<lambda>r. if Q r then r\<lparr>cr_enabled := False, cr_quarantined := True\<rparr> else r) rows) = map cr_id rows"
  "map cr_name (map (\<lambda>r. if Q r then r\<lparr>cr_enabled := False, cr_quarantined := True\<rparr> else r) rows) = map cr_name rows"
  "length (filter cr_enabled (map (\<lambda>r. if Q r then r\<lparr>cr_enabled := False, cr_quarantined := True\<rparr> else r) rows))
     \<le> length (filter cr_enabled rows)"
  "length (filter enabled_regex (map (\<lambda>r. if Q r then r\<lparr>cr_enabled := False, cr_quarantined := True\<rparr> else r) rows))
     \<le> length (filter enabled_regex rows)"
  by (induction rows) (auto simp: enabled_regex_def le_SucI)

lemma hit_rows:
  "map cr_id (map (\<lambda>r. if cr_id r = i then r\<lparr>cr_match_count := cr_match_count r + 1\<rparr> else r) rows) = map cr_id rows"
  "map cr_name (map (\<lambda>r. if cr_id r = i then r\<lparr>cr_match_count := cr_match_count r + 1\<rparr> else r) rows) = map cr_name rows"
  "length (filter cr_enabled (map (\<lambda>r. if cr_id r = i then r\<lparr>cr_match_count := cr_match_count r + 1\<rparr> else r) rows))
     \<le> length (filter cr_enabled rows)"
  "length (filter enabled_regex (map (\<lambda>r. if cr_id r = i then r\<lparr>cr_match_count := cr_match_count r + 1\<rparr> else r) rows))
     \<le> length (filter enabled_regex rows)"
  by (induction rows) (auto simp: enabled_regex_def)

lemma filter_inv_step:
  assumes inv: "filter_inv w sy" and room: "room_for_write w ev sy" and step: "filter_machine env ev sy = Some sy'"
  shows "filter_inv w sy'"
proof -
  have c: "cache_ok (fs_cache (sy_store sy))" and d: "\<And>t. distinct (map cr_id (fs_rows (sy_store sy) t))"
    "\<And>t. distinct (map cr_name (fs_rows (sy_store sy) t))"
    using inv by (simp_all add: filter_inv_def)
  note same = filter_inv_same_rows [OF inv]
  show ?thesis
  proof (cases ev)
    case (FCheckCreate t newId now input)
    show ?thesis
    proof (cases "create_check env newId now t input (sy_store sy)")
      case (Inr row)
      have "filter_inv w (sy\<lparr>sy_writes := sy_writes sy @ [\<lparr>pw_tenant = t, pw_row = row, pw_old = None\<rparr>]\<rparr>)"
        by (rule filter_inv_checked [OF inv])
          (use room FCheckCreate create_has_room [OF Inr] in \<open>simp_all add: room_for_write_def write_ok_def\<close>)
      with step FCheckCreate Inr show ?thesis by simp
    qed (use step FCheckCreate inv in simp)
  next
    case (FCheckUpdate t i input)
    show ?thesis
    proof (cases "update_check env t i input (sy_store sy)")
      case (Inr p)
      obtain old row where p: "p = (old, row)" by (cases p)
      have nl: "\<not> row_locked sy t i" using step FCheckUpdate by (auto split: if_splits)
      note e = update_check_effect [OF Inr [unfolded p]]
      have "filter_inv w (sy\<lparr>sy_writes := sy_writes sy @ [\<lparr>pw_tenant = t, pw_row = row, pw_old = Some old\<rparr>]\<rparr>)"
        by (rule filter_inv_checked [OF inv])
          (use room FCheckUpdate update_has_room [OF Inr [unfolded p] d(1)] e nl in \<open>simp_all add: room_for_write_def write_ok_def\<close>)
      with step FCheckUpdate Inr p nl show ?thesis by simp
    qed (use step FCheckUpdate inv in \<open>simp split: if_splits\<close>)
  next
    case (FCommit x)
    then have x: "x < length (sy_writes sy)" "\<not> id_clash (sy_writes sy ! x) (sy_store sy)"
      using step by (auto split: if_splits)
    show ?thesis
    proof (cases "commit_write (sy_writes sy ! x) (sy_store sy)")
      case (Inl e)
      then show ?thesis using step FCommit x c by (intro same) auto
    next
      case (Inr st)
      from filter_inv_committed [OF inv x Inr] show ?thesis using step FCommit x Inr by (simp add: Let_def)
    qed
  next
    case (FRemove t i)
    show ?thesis
    proof (cases "remove_commit t i (sy_store sy)")
      case (Inr st)
      have nl: "\<not> row_locked sy t i" using step FRemove by (auto split: if_splits)
      show ?thesis
        by (rule filter_inv_shrunk [OF inv, of st t "filter (\<lambda>r. cr_id r \<noteq> i) (fs_rows (sy_store sy) t)"])
          (use step FRemove Inr nl c d commit_effects(3) [OF Inr] in
            \<open>auto simp: changed_def distinct_map_filter count_subset simp del: filter_filter\<close>)
    qed (use step FRemove inv in \<open>simp split: if_splits\<close>)
  next
    case (FQuarantine t ids)
    let ?f = "\<lambda>r. if cr_id r \<in> set ids \<and> cr_enabled r then r\<lparr>cr_enabled := False, cr_quarantined := True\<rparr> else r"
    have sy': "sy' = changed t (quarantine_commit t ids (sy_store sy)) sy"
      and nl: "\<forall>r \<in> set (fs_rows (sy_store sy) t). cr_id r \<in> set ids \<and> cr_enabled r \<longrightarrow> \<not> row_locked sy t (cr_id r)"
      using step FQuarantine by (auto simp: list_ex_iff split: if_splits)
    have kept: "e \<in> set (map ?f (fs_rows (sy_store sy) t))"
      if "e \<in> set (fs_rows (sy_store sy) t)" "row_locked sy t (cr_id e)" for e
      using that nl by (force simp: image_iff)
    show ?thesis
      by (rule filter_inv_shrunk [OF inv commit_effects(4) [of t ids "sy_store sy"] _ _ _ _ _ kept])
        (use c d in \<open>simp_all add: sy' commit_effects(5) quarantined_rows changed_def del: map_map filter_map length_filter_map\<close>)
  next
    case (FHit t i)
    let ?f = "\<lambda>r. if cr_id r = i then r\<lparr>cr_match_count := cr_match_count r + 1\<rparr> else r"
    have nl: "\<not> row_locked sy t i" and sy': "sy' = sy\<lparr>sy_store := recordHit t i (sy_store sy)\<rparr>"
      using step FHit by (auto split: if_splits)
    have rows: "fs_rows (recordHit t i (sy_store sy)) = (fs_rows (sy_store sy))(t := map ?f (fs_rows (sy_store sy) t))"
      by (simp add: recordHit_def)
    have kept: "e \<in> set (map ?f (fs_rows (sy_store sy) t))"
      if "e \<in> set (fs_rows (sy_store sy) t)" "row_locked sy t (cr_id e)" for e
      using that nl by (force simp: image_iff)
    show ?thesis
      by (rule filter_inv_shrunk [OF inv rows _ _ _ _ _ kept])
        (use c d in \<open>simp_all add: sy' recordHit_def hit_rows del: map_map filter_map length_filter_map\<close>)
  next
    case (FInvalidate x)
    then show ?thesis using step c by (intro same) (auto simp: cache_delete_ok split: if_splits)
  next
    case FInvalidateAll
    then show ?thesis using step by (intro same) (auto simp: invalidateAll_def cache_ok_def)
  next
    case (FStore now x)
    then show ?thesis using step c by (intro same) (auto simp: Let_def store_set_cache_ok split: if_splits)
  qed (use step c in \<open>intro same; auto split: if_splits\<close>)+
qed

interpretation capping: invariant_machine "filter_machine env" "room_for_write w" "filter_inv w" for env w
  by unfold_locales (rule filter_inv_step)

lemma writes_overlap_ok: "writes_overlap w env es sy = capping.ok_run env w es sy"
  by (induction es arbitrary: sy) (auto split: option.splits)

definition blank_store :: "filter_store \<Rightarrow> bool" where
  "blank_store st \<longleftrightarrow> (\<forall>t. fs_rows st t = []) \<and> fs_cache st = []"

lemma filter_inv_start: "blank_store st \<Longrightarrow> filter_inv w (idle_system st)"
  by (simp add: blank_store_def filter_inv_def idle_system_def booked_def cache_ok_def)

lemma filter_run_inv:
  assumes "blank_store st" and "run_steps (filter_machine env) es (idle_system st) = Some sy"
    and "writes_overlap w env es (idle_system st)"
  shows "filter_inv w sy"
  by (rule capping.run_inv [OF filter_inv_start [OF assms(1)] assms(3) [unfolded writes_overlap_ok] assms(2)])

text \<open>C14. However the steps of creates, updates, deletions, quarantines, hits, loads, invalidations
  and cache flushes of all tenants interleave: if at most \<open>w\<close> writes of a tenant are ever between
  their capacity check and their commit at once, no tenant has more than \<open>499 + w\<close> enabled rules or
  \<open>49 + w\<close> enabled regex rules, so exactly the documented 500 and 50 when its writes do not overlap;
  identifiers and names stay unique within the tenant in any case, and the cache never holds more than
  256 tenants or one tenant twice.\<close>

theorem content_rules_stay_capped:
  assumes "blank_store st" and "run_steps (filter_machine env) es (idle_system st) = Some sy"
    and "writes_overlap w env es (idle_system st)"
  shows "length (filter cr_enabled (fs_rows (sy_store sy) t)) \<le> 499 + w
    \<and> length (filter (\<lambda>r. cr_enabled r \<and> cr_match_type r = MRegex) (fs_rows (sy_store sy) t)) \<le> 49 + w
    \<and> distinct (map cr_id (fs_rows (sy_store sy) t)) \<and> distinct (map cr_name (fs_rows (sy_store sy) t))
    \<and> distinct (map fst (fs_cache (sy_store sy))) \<and> length (fs_cache (sy_store sy)) \<le> 256"
proof -
  have inv: "filter_inv w sy" by (rule filter_run_inv [OF assms])
  then have "booked cr_enabled t sy \<le> 499 + w" "booked enabled_regex t sy \<le> 49 + w" by (simp_all add: filter_inv_def)
  then have "length (filter cr_enabled (fs_rows (sy_store sy) t)) \<le> 499 + w"
    "length (filter (\<lambda>r. cr_enabled r \<and> cr_match_type r = MRegex) (fs_rows (sy_store sy) t)) \<le> 49 + w"
    by (simp_all add: booked_def enabled_regex_def [abs_def])
  with inv show ?thesis by (simp add: filter_inv_def cache_ok_def MAX_CACHED_TENANTS_def)
qed

text \<open>
  "in any case": the names and identifiers do not depend on the overlap, since any run overlaps at
  most as many writes as it has events.
\<close>

lemma writes_overlap_length:
  assumes "run_steps (filter_machine env) es sy = Some sy'" and "length (sy_writes sy) + length es \<le> w"
  shows "writes_overlap w env es sy"
  using assms
proof (induction es arbitrary: sy)
  case (Cons e es)
  then obtain u where u: "filter_machine env e sy = Some u" "run_steps (filter_machine env) es u = Some sy'"
    by (auto simp: bind_eq_Some_conv)
  have "tenant_writes t sy \<le> length (sy_writes sy)" for t by (simp add: tenant_writes_def)
  then have "tenant_writes t sy < w" for t using Cons.prems(2) by (metis le_trans less_le_trans length_Cons
    add_Suc_right le_add1 le_imp_less_Suc not_less_eq_eq nat_less_le)
  then have "room_for_write w e sy" by (cases e) (simp_all add: room_for_write_def)
  moreover have "length (sy_writes u) \<le> length (sy_writes sy) + 1"
    using u(1) by (cases e) (auto simp: Let_def changed_def drop_index_def split: if_splits sum.splits)
  ultimately show ?case using u Cons.IH [of u] Cons.prems(2) by simp
qed simp

definition sample_events :: "filter_event list" where
  "sample_events = [FCheckCreate ''t'' ''r1'' 5 sample_write, FCommit 0, FInvalidate 0]"

lemma content_rules_stay_capped_witness:
  "\<exists>sy. run_steps (filter_machine sample_env) sample_events (idle_system empty_store) = Some sy
     \<and> map cr_name (fs_rows (sy_store sy) ''t'') = [''No loans''] \<and> length (filter cr_enabled (fs_rows (sy_store sy) ''t'')) \<le> 500"
proof -
  let ?r = "run_steps (filter_machine sample_env) sample_events (idle_system empty_store)"
  have c: "(case ?r of None \<Rightarrow> False | Some sy \<Rightarrow> map cr_name (fs_rows (sy_store sy) ''t'') = [''No loans''])"
    and o: "writes_overlap 1 sample_env sample_events (idle_system empty_store)"
    by code_simp+
  have b: "blank_store empty_store" by (simp add: blank_store_def empty_store_def)
  from c obtain sy where sy: "?r = Some sy" "map cr_name (fs_rows (sy_store sy) ''t'') = [''No loans'']"
    by (auto split: option.splits)
  from content_rules_stay_capped [OF b sy(1) o, of "''t''"] sy show ?thesis by auto
qed

lemma name_free_not_in: "n \<notin> cr_name ` set rows \<Longrightarrow> name_free rows i n"
  unfolding name_free_def by (metis imageI)

text \<open>
  The overlap matters: two creates that both pass the check at 499 enabled rules both commit, and the
  tenant has 501.
\<close>

theorem overlapping_creates_exceed_cap:
  assumes n: "length (filter cr_enabled (fs_rows st t)) = 499"
    and c: "create_check env i1 now t input1 st = Inr row1" "create_check env i2 now t input2 st = Inr row2"
    and e: "cr_enabled row1" "cr_enabled row2" and diff: "i1 \<noteq> i2" "cr_name row1 \<noteq> cr_name row2"
    and new: "i1 \<notin> cr_id ` set (fs_rows st t)" "i2 \<notin> cr_id ` set (fs_rows st t)"
      "cr_name row1 \<notin> cr_name ` set (fs_rows st t)" "cr_name row2 \<notin> cr_name ` set (fs_rows st t)"
  shows "\<exists>sy. run_steps (filter_machine env)
      [FCheckCreate t i1 now input1, FCheckCreate t i2 now input2, FCommit 0, FCommit 0] (idle_system st) = Some sy
    \<and> length (filter cr_enabled (fs_rows (sy_store sy) t)) = 501"
proof -
  have ids: "cr_id row1 = i1" "cr_id row2 = i2" using create_check_effect(1) c by auto
  let ?st1 = "audit_rows t ''messaging_content_rule.created'' [i1] (map_rows t (\<lambda>rows. rows @ [row1]) st)"
  let ?st2 = "audit_rows t ''messaging_content_rule.created'' [i2] (map_rows t (\<lambda>rows. rows @ [row2]) ?st1)"
  have n1: "create_commit t row1 st = Inr ?st1"
    using new(3) by (simp add: create_commit_def name_free_not_in ids)
  have n2: "create_commit t row2 ?st1 = Inr ?st2"
    using new(4) diff by (simp add: create_commit_def name_free_not_in ids)
  have f: "\<not> list_ex (\<lambda>r. cr_id r = i1) (fs_rows st t)" "\<not> list_ex (\<lambda>r. cr_id r = i2) (fs_rows ?st1 t)"
    using new(1,2) diff(1) ids by (auto simp: list_ex_iff intro: rev_image_eqI)
  show ?thesis
    by (simp add: idle_system_def c id_clash_def commit_write_def changed_def drop_index_def Let_def ids n1 n2 f
        del: map_rows_simps) (simp add: n e)
qed

subsection \<open>When a change takes effect\<close>

definition rules_of :: "content_env \<Rightarrow> int \<Rightarrow> content_row list \<Rightarrow> compiled_rule list" where
  "rules_of env n rows = sort_cmp compareRules (map (compileRule env) (select_live n rows))"

text \<open>The events that change the rules of \<open>t\<close>. The hit counters are no part of a compiled rule.\<close>

definition changes_rules :: "string \<Rightarrow> filter_event \<Rightarrow> filter_system \<Rightarrow> bool" where
  "changes_rules t ev sy =
     (case ev of
        FCommit x \<Rightarrow> x < length (sy_writes sy) \<and> pw_tenant (sy_writes sy ! x) = t
      | FRemove u _ \<Rightarrow> u = t
      | FQuarantine u _ \<Rightarrow> u = t
      | _ \<Rightarrow> False)"

fun unchanged_run :: "string \<Rightarrow> content_env \<Rightarrow> filter_event list \<Rightarrow> filter_system \<Rightarrow> bool" where
  "unchanged_run t env [] sy = True"
| "unchanged_run t env (ev # es) sy =
     (\<not> changes_rules t ev sy \<and> (case filter_machine env ev sy of None \<Rightarrow> True | Some sy' \<Rightarrow> unchanged_run t env es sy'))"

lemma compile_ignores_count: "compileRule env (r\<lparr>cr_match_count := n\<rparr>) = compileRule env r"
  by (simp add: compileRule_def Let_def split: sum.split)

definition bump :: "string \<Rightarrow> content_row \<Rightarrow> content_row" where
  "bump i r = (if cr_id r = i then r\<lparr>cr_match_count := cr_match_count r + 1\<rparr> else r)"

lemma insert_cmp_map:
  assumes "\<And>a b. cmp (f a) (f b) = cmp a b"
  shows "insert_cmp cmp (f x) (map f xs) = map f (insert_cmp cmp x xs)"
  by (induction xs) (simp_all add: assms)

lemma sort_cmp_map:
  assumes "\<And>a b. cmp (f a) (f b) = cmp a b"
  shows "sort_cmp cmp (map f xs) = map f (sort_cmp cmp xs)"
  by (induction xs) (simp_all add: insert_cmp_map [where cmp = cmp, OF assms])

lemma rules_of_bump: "rules_of env n (map (bump i) rows) = rules_of env n rows"
proof -
  have b: "row_cmp (bump i a) (bump i b) = row_cmp a b" "live_row n (bump i a) = live_row n a"
    "compileRule env (bump i a) = compileRule env a" for a b
    by (simp_all add: bump_def row_cmp_def cmp_or_def cmp_diff_def cmp_key_def live_row_def compile_ignores_count)
  have "filter (live_row n) (map (bump i) rows) = map (bump i) (filter (live_row n) rows)"
    by (induction rows) (simp_all add: b(2))
  then have "select_live n (map (bump i) rows) = map (bump i) (select_live n rows)"
    by (simp add: select_live_def sort_cmp_map [where cmp = row_cmp, OF b(1)] take_map)
  then show ?thesis by (simp add: rules_of_def b(3) comp_def)
qed

lemma rows_kept:
  assumes "filter_machine env ev sy = Some sy'" and "\<not> changes_rules t ev sy"
  shows "fs_rows (sy_store sy') t = fs_rows (sy_store sy) t
    \<or> (\<exists>i. fs_rows (sy_store sy') t = map (bump i) (fs_rows (sy_store sy) t))"
proof (cases ev)
  case (FCommit x)
  show ?thesis
  proof (cases "commit_write (sy_writes sy ! x) (sy_store sy)")
    case (Inr st)
    have "pw_tenant (sy_writes sy ! x) \<noteq> t" using assms FCommit by (auto simp: changes_rules_def split: if_splits)
    moreover have "\<exists>rows. fs_rows st = (fs_rows (sy_store sy))(pw_tenant (sy_writes sy ! x) := rows)"
      using Inr by (auto simp: commit_write_def dest: commit_effects(1,2) split: if_splits)
    ultimately show ?thesis using assms(1) FCommit Inr by (auto simp: changed_def Let_def split: if_splits)
  qed (use assms FCommit in \<open>auto simp: Let_def split: if_splits\<close>)
next
  case (FHit u i)
  then show ?thesis using assms(1)
    by (cases "u = t") (auto simp: recordHit_def bump_def [abs_def] split: if_splits)
next
  case (FRemove u i)
  then show ?thesis using assms
    by (cases "remove_commit u i (sy_store sy)")
      (auto simp: changes_rules_def changed_def dest: commit_effects(3) split: if_splits)
next
  case (FQuarantine u ids)
  then show ?thesis using assms by (auto simp: changes_rules_def changed_def commit_effects(4) split: if_splits)
qed (use assms in \<open>auto simp: invalidateAll_def Let_def split: if_splits sum.splits\<close>)

lemma rules_kept:
  assumes "filter_machine env ev sy = Some sy'" and "\<not> changes_rules t ev sy"
  shows "rules_of env n (fs_rows (sy_store sy') t) = rules_of env n (fs_rows (sy_store sy) t)"
  using rows_kept [OF assms] rules_of_bump by auto

text \<open>The loads of the tenant in flight read the rules as they are; so does the cached set, when there is one.\<close>

definition fresh_loads :: "string \<Rightarrow> content_env \<Rightarrow> filter_system \<Rightarrow> bool" where
  "fresh_loads t env sy \<longleftrightarrow>
     (\<forall>l \<in> set (sy_loads sy). pl_tenant l = t \<longrightarrow>
        (\<exists>n. sort_cmp compareRules (map (compileRule env) (pl_rows l)) = rules_of env n (fs_rows (sy_store sy) t)))"

definition fresh_cache :: "string \<Rightarrow> content_env \<Rightarrow> filter_system \<Rightarrow> bool" where
  "fresh_cache t env sy \<longleftrightarrow>
     (\<forall>s. map_of (fs_cache (sy_store sy)) t = Some s \<longrightarrow> (\<exists>n. rs_rules s = rules_of env n (fs_rows (sy_store sy) t)))"

lemma fresh_loads_step:
  assumes f: "fresh_loads t env sy" and step: "filter_machine env ev sy = Some sy'" and q: "\<not> changes_rules t ev sy"
  shows "fresh_loads t env sy'"
proof -
  have "l \<in> set (sy_loads sy) \<or> (\<exists>n. pl_tenant l = t \<longrightarrow> pl_rows l = select_live n (fs_rows (sy_store sy) t))"
    if "l \<in> set (sy_loads sy')" for l
    using step that
    by (cases ev) (auto simp: Let_def changed_def dest: set_drop_index [THEN subsetD] split: if_splits sum.splits)
  with f show ?thesis unfolding fresh_loads_def rules_kept [OF step q] by (metis rules_of_def)
qed

lemma rs_rules_compile_set [simp]:
  "rs_rules (compile_set env now rows) = sort_cmp compareRules (map (compileRule env) rows)"
  by (simp add: compile_set_def Let_def)

lemma map_of_store_set:
  "map_of (fs_cache (store_set u s st)) t = Some v \<Longrightarrow> (t = u \<and> v = s) \<or> map_of (fs_cache st) t = Some v"
  by (cases "t = fst (hd (fs_cache st))")
    (auto simp: store_set_def Let_def map_of_cache_set split: if_splits)

lemma fresh_cache_step:
  assumes f: "fresh_cache t env sy" "fresh_loads t env sy" and step: "filter_machine env ev sy = Some sy'"
    and q: "\<not> changes_rules t ev sy"
  shows "fresh_cache t env sy'"
proof -
  have "map_of (fs_cache (sy_store sy)) t = Some s
      \<or> (\<exists>l \<in> set (sy_loads sy). pl_tenant l = t \<and> rs_rules s = sort_cmp compareRules (map (compileRule env) (pl_rows l)))"
    if s: "map_of (fs_cache (sy_store sy')) t = Some s" for s
  proof (cases ev)
    case (FCommit x)
    show ?thesis
    proof (cases "commit_write (sy_writes sy ! x) (sy_store sy)")
      case (Inr st)
      then have "fs_cache st = fs_cache (sy_store sy)" by (auto simp: commit_write_def dest: commit_effects(1,2) split: if_splits)
      then show ?thesis using s step FCommit Inr by (auto simp: changed_def Let_def split: if_splits)
    qed (use s step FCommit in \<open>auto simp: Let_def split: if_splits\<close>)
  next
    case (FStore now x)
    with step s show ?thesis
      by (auto simp: Let_def dest!: map_of_store_set intro!: bexI [of _ "sy_loads sy ! x"] split: if_splits)
  next
    case (FInvalidate x)
    then show ?thesis using s step
      by (cases "sy_changed sy ! x = t") (auto split: if_splits)
  next
    case (FRemove u i)
    then show ?thesis using s step
      by (cases "remove_commit u i (sy_store sy)") (auto simp: changed_def dest: commit_effects(3) split: if_splits)
  qed (use s step in \<open>auto simp: changed_def commit_effects(5) invalidateAll_def recordHit_def split: if_splits sum.splits\<close>)
  with f show ?thesis unfolding fresh_cache_def fresh_loads_def rules_kept [OF step q] by metis
qed

lemma fresh_loads_run:
  "fresh_loads t env sy \<Longrightarrow> unchanged_run t env es sy \<Longrightarrow> run_steps (filter_machine env) es sy = Some sy' \<Longrightarrow> fresh_loads t env sy'"
proof (induction es arbitrary: sy)
  case (Cons e es)
  then obtain u where "filter_machine env e sy = Some u" "run_steps (filter_machine env) es u = Some sy'"
    by (auto simp: bind_eq_Some_conv)
  with Cons fresh_loads_step [of t env sy e u] show ?case by auto
qed simp

lemma fresh_cache_run:
  "fresh_cache t env sy \<Longrightarrow> fresh_loads t env sy \<Longrightarrow> unchanged_run t env es sy \<Longrightarrow>
     run_steps (filter_machine env) es sy = Some sy' \<Longrightarrow> fresh_cache t env sy'"
proof (induction es arbitrary: sy)
  case (Cons e es)
  then obtain u where "filter_machine env e sy = Some u" "run_steps (filter_machine env) es u = Some sy'"
    by (auto simp: bind_eq_Some_conv)
  with Cons fresh_loads_step [of t env sy e u] fresh_cache_step [of t env sy e u] show ?case by auto
qed simp

lemma loads_fresh_rules:
  assumes "fresh_cache t env sy"
  shows "\<exists>n. rs_rules (fst (loadInClient env ttl now t (sy_store sy))) = rules_of env n (fs_rows (sy_store sy) t)"
proof (cases "cached_set ttl now t (sy_store sy)")
  case (Some s)
  then have "map_of (fs_cache (sy_store sy)) t = Some s" by (auto simp: cached_set_def split: option.splits if_splits)
  with assms Some show ?thesis by (auto simp: fresh_cache_def loadInClient_def)
next
  case None
  then show ?thesis by (auto simp: loadInClient_def Let_def rules_of_def)
qed

lemma rules_of_untruncated:
  assumes "distinct (map cr_id rows)" and "length (filter cr_enabled rows) \<le> 500"
  shows "rules_of env n rows = sort_cmp compareRules (map (compileRule env) (filter (live_row n) rows))"
proof -
  have "length (filter (live_row n) rows) \<le> length (filter cr_enabled rows)"
    by (induction rows) (auto simp: live_row_def)
  with assms(2) have "select_live n rows = sort_cmp row_cmp (filter (live_row n) rows)"
    by (simp add: select_live_def MAX_RULES_PER_TENANT_def)
  then have m: "mset (select_live n rows) = mset (filter (live_row n) rows)" by simp
  have ids: "cc_id (compileRule env r) = cr_id r" for r
    by (simp add: compileRule_def Let_def split: sum.split)
  have "distinct (map cr_id (filter (live_row n) rows))" using assms(1) by (rule distinct_map_filter)
  then have "distinct (map cr_id (select_live n rows))"
    using mset_eq_imp_distinct_iff [of "map cr_id (select_live n rows)" "map cr_id (filter (live_row n) rows)"] m by simp
  then show ?thesis
    unfolding rules_of_def by (intro rule_order.sort_cmp_unique) (simp_all add: m ids comp_def)
qed

text \<open>C25. A rule change takes effect immediately in the process that makes it, if no load of the tenant
  is under way when the change commits: after a commit of a create or update, a deletion or a
  quarantine of the tenant's rules, and the invalidation that follows it, with anything in between
  except a further change of these rules, every load of that tenant, from the cache or not, and however
  long the cache's window, evaluates the enabled rules of the table not expired at a clock reading, in
  evaluation order: the first 500, and all of them while the ceiling holds. The cached sets of the
  other tenants stay.\<close>

theorem rule_change_takes_effect:
  assumes "filter_machine env ev sy = Some sy1" and "changes_rules t ev sy"
    and "list_all (\<lambda>l. pl_tenant l \<noteq> t) (sy_loads sy)"
    and "run_steps (filter_machine env) es sy1 = Some u" and "unchanged_run t env es sy1"
    and "filter_machine env (FInvalidate k) u = Some v" and "sy_changed u ! k = t"
    and "run_steps (filter_machine env) fs v = Some sy2" and "unchanged_run t env fs v"
  shows "(\<exists>n. rs_rules (fst (loadInClient env ttl now t (sy_store sy2))) =
          sort_cmp compareRules (map (compileRule env) (select_live n (fs_rows (sy_store sy2) t)))
        \<and> (distinct (map cr_id (fs_rows (sy_store sy2) t)) \<and> length (filter cr_enabled (fs_rows (sy_store sy2) t)) \<le> 500
            \<longrightarrow> rs_rules (fst (loadInClient env ttl now t (sy_store sy2))) =
              sort_cmp compareRules (map (compileRule env) (filter (live_row n) (fs_rows (sy_store sy2) t)))))
    \<and> (\<forall>x. x \<noteq> t \<longrightarrow> map_of (fs_cache (sy_store v)) x = map_of (fs_cache (sy_store u)) x)"
proof -
  have "sy_loads sy1 = sy_loads sy"
    using assms(1,2) by (cases ev) (auto simp: changes_rules_def changed_def Let_def split: if_splits sum.splits)
  then have "fresh_loads t env sy1" using assms(3) by (auto simp: fresh_loads_def list_all_iff)
  then have lu: "fresh_loads t env u" by (rule fresh_loads_run [OF _ assms(5,4)])
  have v: "sy_store v = invalidate t (sy_store u)" using assms(6,7) by (auto split: if_splits)
  have "fresh_loads t env v" by (rule fresh_loads_step [OF lu assms(6)]) (simp add: changes_rules_def)
  moreover have "fresh_cache t env v" by (simp add: fresh_cache_def v)
  ultimately have "fresh_cache t env sy2" using fresh_cache_run assms(8,9) by blast
  then obtain n where "rs_rules (fst (loadInClient env ttl now t (sy_store sy2))) = rules_of env n (fs_rows (sy_store sy2) t)"
    using loads_fresh_rules by blast
  then have "rs_rules (fst (loadInClient env ttl now t (sy_store sy2))) =
        sort_cmp compareRules (map (compileRule env) (select_live n (fs_rows (sy_store sy2) t)))
      \<and> (distinct (map cr_id (fs_rows (sy_store sy2) t)) \<and> length (filter cr_enabled (fs_rows (sy_store sy2) t)) \<le> 500
          \<longrightarrow> rs_rules (fst (loadInClient env ttl now t (sy_store sy2))) =
            sort_cmp compareRules (map (compileRule env) (filter (live_row n) (fs_rows (sy_store sy2) t))))"
    using rules_of_untruncated [of "fs_rows (sy_store sy2) t" env n] by (simp add: rules_of_def)
  then show ?thesis using v by auto
qed

lemma rule_change_takes_effect_witness:
  "\<exists>sy. run_steps (filter_machine sample_env)
      [FSelect 15000 0 0 ''t'', FStore 0 0, FCheckCreate ''t'' ''r1'' 5 sample_write, FCommit 0, FInvalidate 0,
       FSelect 15000 6 6 ''t'', FStore 6 0] (idle_system empty_store) = Some sy
    \<and> map cc_name (rs_rules (fst (loadInClient sample_env 15000 7 ''t'' (sy_store sy)))) = [''No loans'']"
proof -
  let ?m = "filter_machine sample_env"
  let ?pre = "[FSelect 15000 0 0 ''t'', FStore 0 0, FCheckCreate ''t'' ''r1'' 5 sample_write]"
  let ?post = "[FSelect 15000 6 6 ''t'', FStore 6 0]"
  have c: "(case run_steps ?m ?pre (idle_system empty_store) of None \<Rightarrow> False | Some sy \<Rightarrow>
      changes_rules ''t'' (FCommit 0) sy \<and> list_all (\<lambda>l. pl_tenant l \<noteq> ''t'') (sy_loads sy)
      \<and> (case ?m (FCommit 0) sy of None \<Rightarrow> False | Some u \<Rightarrow> sy_changed u ! 0 = ''t''
      \<and> (case ?m (FInvalidate 0) u of None \<Rightarrow> False | Some v \<Rightarrow> unchanged_run ''t'' sample_env ?post v
      \<and> (case run_steps ?m ?post v of None \<Rightarrow> False | Some sy2 \<Rightarrow>
          (case fs_rows (sy_store sy2) ''t'' of
             [r] \<Rightarrow> cr_name r = ''No loans'' \<and> cr_enabled r \<and> cr_expires_at r = None | _ \<Rightarrow> False)))))"
    by code_simp
  then obtain sy u v sy2 where s: "run_steps ?m ?pre (idle_system empty_store) = Some sy"
    "changes_rules ''t'' (FCommit 0) sy" "list_all (\<lambda>l. pl_tenant l \<noteq> ''t'') (sy_loads sy)"
    "?m (FCommit 0) sy = Some u" "sy_changed u ! 0 = ''t''" "?m (FInvalidate 0) u = Some v"
    "unchanged_run ''t'' sample_env ?post v" "run_steps ?m ?post v = Some sy2"
    "(case fs_rows (sy_store sy2) ''t'' of
             [r] \<Rightarrow> cr_name r = ''No loans'' \<and> cr_enabled r \<and> cr_expires_at r = None | _ \<Rightarrow> False)"
    by (auto simp del: filter_machine.simps run_steps.simps split: option.splits)
  then obtain r where r: "fs_rows (sy_store sy2) ''t'' = [r]" "cr_name r = ''No loans''" "cr_enabled r" "cr_expires_at r = None"
    by (auto split: list.splits)
  have n: "run_steps ?m [] u = Some u" "unchanged_run ''t'' sample_env [] u" by simp_all
  from rule_change_takes_effect [OF s(4,2,3) n s(6,5,8,7), of 15000 7] r
  have "rs_rules (fst (loadInClient sample_env 15000 7 ''t'' (sy_store sy2))) = [compileRule sample_env r]"
    by (auto simp: live_row_def)
  moreover have "cc_name (compileRule sample_env r) = cr_name r"
    by (simp add: compileRule_def Let_def split: sum.split)
  moreover have "run_steps ?m (?pre @ [FCommit 0, FInvalidate 0] @ ?post) (idle_system empty_store) = Some sy2"
    unfolding run_steps_append s(1) using s(4,6,8) by (simp del: filter_machine.simps)
  ultimately show ?thesis using r(2) by (intro exI [of _ sy2]) simp
qed

text \<open>
  The load must not be under way. One that has run its query before the change commits and puts its
  result into the cache after the invalidation leaves the old rules there until their window has
  passed, in the very process that made the change.
\<close>

theorem slow_load_caches_old_rules:
  "\<exists>sy. run_steps (filter_machine sample_env)
      [FSelect 15000 0 0 ''t'', FCheckCreate ''t'' ''r1'' 5 sample_write, FCommit 0, FInvalidate 0, FStore 1 0]
      (idle_system empty_store) = Some sy
    \<and> map cr_name (filter cr_enabled (fs_rows (sy_store sy) ''t'')) = [''No loans''] \<and> sy_changed sy = []
    \<and> rs_rules (fst (loadInClient sample_env 15000 15000 ''t'' (sy_store sy))) = []"
proof -
  have "(case run_steps (filter_machine sample_env)
      [FSelect 15000 0 0 ''t'', FCheckCreate ''t'' ''r1'' 5 sample_write, FCommit 0, FInvalidate 0, FStore 1 0]
      (idle_system empty_store) of None \<Rightarrow> False | Some sy \<Rightarrow>
        map cr_name (filter cr_enabled (fs_rows (sy_store sy) ''t'')) = [''No loans''] \<and> sy_changed sy = []
        \<and> rs_rules (fst (loadInClient sample_env 15000 15000 ''t'' (sy_store sy))) = [])"
    by code_simp
  then show ?thesis by (auto simp del: filter_machine.simps run_steps.simps split: option.splits)
qed

end
