(* ===== verification/MoRouting.thy ===== *)
theory MoRouting
  imports ContentFilter Msisdn
begin

section \<open>Routing of inbound messages: messaging-depth/mo-routing.ts\<close>

text \<open>
  What an MO rule is, the order of rules, matching with fan-out, and the validation of a
  destination. \<open>cc\<close> is the value of \<open>DEFAULT_COUNTRY_CODE\<close> that \<open>normalizeMsisdn\<close> reads, and
  the URL parser of the runtime is an argument. The rows' timestamps are milliseconds, as in
  \<open>ContentFilter\<close>, whose \<open>toMs\<close> this file repeats.
\<close>

datatype destination_match = DAny | DExact | DPrefix
datatype keyword_match = KAny | KFirstWord | KSubstring | KExact
datatype delivery_kind = DkWebhook | DkEmail | DkSms

definition MAX_DESTINATIONS_PER_RULE :: nat where "MAX_DESTINATIONS_PER_RULE = 20"

record mo_rule_row =
  mr_id :: string
  mr_name :: string
  mr_enabled :: bool
  mr_priority :: int
  mr_match_smsc_id :: "string option"
  mr_match_destination :: "string option"
  mr_match_destination_type :: destination_match
  mr_match_sender_prefix :: "string option"
  mr_match_keyword :: "string option"
  mr_match_keyword_type :: keyword_match
  mr_case_sensitive :: bool
  mr_continue_after_match :: bool
  mr_customer_id :: "string option"
  mr_created_at :: "int option"

record mo_destination_row =
  md_id :: string
  md_rule_id :: string
  md_kind :: delivery_kind
  md_target :: string
  md_enabled :: bool
  md_max_attempts :: int

record mo_destination =
  mo_dest_id :: string
  mo_dest_kind :: delivery_kind
  mo_dest_target :: string
  mo_dest_maxAttempts :: int

record mo_rule =
  mo_id :: string
  mo_name :: string
  mo_priority :: int
  mo_smscId :: "string option"
  mo_destination :: "string option"
  mo_destinationType :: destination_match
  mo_senderPrefix :: "string option"
  mo_keyword :: "string option"
  mo_keywordType :: keyword_match
  mo_caseSensitive :: bool
  mo_continueAfterMatch :: bool
  mo_customerId :: "string option"
  mo_createdAtMs :: int
  mo_destinations :: "mo_destination list"

record mo_context =
  mx_smscId :: "string option"
  mx_sender :: string
  mx_receiver :: string
  mx_body :: string

datatype mo_criterion =
    OnSmsc string
  | OnDestination destination_match string
  | OnSenderPrefix string
  | OnKeyword keyword_match string
  | CatchAll

record mo_match =
  mm_ruleId :: string
  mm_ruleName :: string
  mm_priority :: int
  mm_matchedOn :: "mo_criterion list"
  mm_destinationCount :: nat
  mm_continueAfterMatch :: bool

record mo_match_result =
  mt_matches :: "mo_match list"
  mt_rulesEvaluated :: nat
  mt_stoppedEarly :: bool

definition compareMoRules :: "mo_rule \<Rightarrow> mo_rule \<Rightarrow> int" where
  "compareMoRules a b =
     (if mo_priority a \<noteq> mo_priority b then mo_priority a - mo_priority b
      else if mo_createdAtMs a \<noteq> mo_createdAtMs b then mo_createdAtMs a - mo_createdAtMs b
      else if mo_id a < mo_id b then -1 else if mo_id a > mo_id b then 1 else 0)"

subsection \<open>Addresses and compilation\<close>

definition canonicalAddress :: "string option \<Rightarrow> string option \<Rightarrow> string" where
  "canonicalAddress cc v =
     (let text = trim (coalesce v [])
      in if text = [] then []
         else let normalized = normalizeMsisdn cc (Some text) None
              in if truthy (nm_digits normalized) then the (nm_digits normalized)
                 else let digits = digitsOnly (Some text)
                      in if digits \<noteq> [] then digits else lower text)"

definition compileMoRule ::
    "string option \<Rightarrow> mo_rule_row \<Rightarrow> mo_destination_row list \<Rightarrow> mo_rule" where
  "compileMoRule cc row destinations =
     \<lparr>mo_id = mr_id row, mo_name = mr_name row, mo_priority = mr_priority row,
      mo_smscId = mr_match_smsc_id row,
      mo_destination = (if truthy (mr_match_destination row)
                        then Some (canonicalAddress cc (mr_match_destination row)) else None),
      mo_destinationType = mr_match_destination_type row,
      mo_senderPrefix = (if truthy (mr_match_sender_prefix row)
                         then Some (digitsOnly (mr_match_sender_prefix row)) else None),
      mo_keyword = mr_match_keyword row, mo_keywordType = mr_match_keyword_type row,
      mo_caseSensitive = mr_case_sensitive row, mo_continueAfterMatch = mr_continue_after_match row,
      mo_customerId = mr_customer_id row, mo_createdAtMs = toMs (mr_created_at row),
      mo_destinations =
        map (\<lambda>d. \<lparr>mo_dest_id = md_id d, mo_dest_kind = md_kind d, mo_dest_target = md_target d,
                  mo_dest_maxAttempts = md_max_attempts d\<rparr>)
          (filter (\<lambda>d. md_rule_id d = mr_id row \<and> md_enabled d) destinations)\<rparr>"

subsection \<open>Matching\<close>

definition firstWord :: "string \<Rightarrow> string" where
  "firstWord body = takeWhile (\<lambda>c. \<not> is_space c) (trim body)"

definition keywordMatches :: "mo_rule \<Rightarrow> string \<Rightarrow> bool" where
  "keywordMatches rule body =
     (if mo_keywordType rule = KAny \<or> \<not> truthy (mo_keyword rule) then True
      else
        let fold_case = (\<lambda>v. if mo_caseSensitive rule then v else lower v);
            needle = fold_case (trim (the (mo_keyword rule)))
        in if needle = [] then True
           else case mo_keywordType rule of
                  KFirstWord \<Rightarrow> fold_case (firstWord body) = needle
                | KExact \<Rightarrow> fold_case (trim body) = needle
                | _ \<Rightarrow> sublist needle (fold_case body))"

definition matchMoRule :: "string option \<Rightarrow> mo_rule \<Rightarrow> mo_context \<Rightarrow> mo_match option" where
  "matchMoRule cc rule ctx =
     (if truthy (mo_smscId rule) \<and> mo_smscId rule \<noteq> mx_smscId ctx then None
      else
        let on1 = (if truthy (mo_smscId rule) then [OnSmsc (the (mo_smscId rule))] else []);
            has_dest = (mo_destinationType rule \<noteq> DAny \<and> truthy (mo_destination rule));
            receiver = canonicalAddress cc (Some (mx_receiver ctx));
            hit = (if mo_destinationType rule = DExact then receiver = the (mo_destination rule)
                   else prefix (the (mo_destination rule)) receiver)
        in if has_dest \<and> \<not> hit then None
           else
             let on2 = on1 @ (if has_dest
                              then [OnDestination (mo_destinationType rule) (the (mo_destination rule))] else []);
                 sender = canonicalAddress cc (Some (mx_sender ctx))
             in if truthy (mo_senderPrefix rule) \<and> \<not> prefix (the (mo_senderPrefix rule)) sender then None
                else
                  let on3 = on2 @ (if truthy (mo_senderPrefix rule)
                                   then [OnSenderPrefix (the (mo_senderPrefix rule))] else []);
                      has_kw = (mo_keywordType rule \<noteq> KAny \<and> truthy (mo_keyword rule))
                  in if has_kw \<and> \<not> keywordMatches rule (mx_body ctx) then None
                     else
                       let on4 = on3 @ (if has_kw
                                        then [OnKeyword (mo_keywordType rule) (the (mo_keyword rule))] else [])
                       in Some \<lparr>mm_ruleId = mo_id rule, mm_ruleName = mo_name rule,
                                mm_priority = mo_priority rule,
                                mm_matchedOn = (if on4 \<noteq> [] then on4 else [CatchAll]),
                                mm_destinationCount = length (mo_destinations rule),
                                mm_continueAfterMatch = mo_continueAfterMatch rule\<rparr>)"

fun match_loop ::
    "string option \<Rightarrow> mo_rule list \<Rightarrow> mo_context \<Rightarrow> mo_match list \<Rightarrow> nat \<Rightarrow> mo_match_result" where
  "match_loop cc [] ctx ms n =
     \<lparr>mt_matches = ms, mt_rulesEvaluated = n, mt_stoppedEarly = False\<rparr>"
| "match_loop cc (rule # rules) ctx ms n =
     (case matchMoRule cc rule ctx of
        None \<Rightarrow> match_loop cc rules ctx ms (n + 1)
      | Some m \<Rightarrow>
          if \<not> mm_continueAfterMatch m
          then \<lparr>mt_matches = ms @ [m], mt_rulesEvaluated = n + 1, mt_stoppedEarly = (rules \<noteq> [])\<rparr>
          else match_loop cc rules ctx (ms @ [m]) (n + 1))"

definition matchMoRules :: "string option \<Rightarrow> mo_rule list \<Rightarrow> mo_context \<Rightarrow> mo_match_result" where
  "matchMoRules cc rules ctx = match_loop cc rules ctx [] 0"

subsection \<open>Validation of a destination\<close>

datatype mo_error =
    TargetRequired
  | TargetTooLong
  | NotAnEmail
  | NotDialable
  | NotAbsoluteUrl
  | NotHttp
  | PrivateHost string
  | BadKind
  | BadDestinationMatch
  | BadKeywordMatch

text \<open>\<open>/^[^@\<backslash>s]+@[^@\<backslash>s]+\<backslash>.[^@\<backslash>s]+$/\<close>.\<close>

definition EMAIL :: "string \<Rightarrow> bool" where
  "EMAIL s \<longleftrightarrow>
     (case split_on (CHR ''@'') s of
        [l, d] \<Rightarrow> l \<noteq> [] \<and> list_all (\<lambda>c. \<not> is_space c) s
          \<and> (\<exists>i < length d. 0 < i \<and> i + 1 < length d \<and> d ! i = CHR ''.'')
      | _ \<Rightarrow> False)"

definition strip_brackets :: "string \<Rightarrow> string" where
  "strip_brackets s =
     (let t = (if prefix ''['' s then drop 1 s else s)
      in if suffix '']'' t then butlast t else t)"

definition ipv4_parts :: "string \<Rightarrow> nat list option" where
  "ipv4_parts host =
     (let parts = split_on (CHR ''.'') host
      in if length parts = 4
            \<and> list_all (\<lambda>p. 1 \<le> length p \<and> length p \<le> 3 \<and> list_all is_digit p) parts
         then Some (map decimal_value parts) else None)"

definition isPrivateHost :: "string \<Rightarrow> bool" where
  "isPrivateHost hostname =
     (let host = strip_brackets (lower hostname)
      in if host = ''localhost'' \<or> suffix ''.localhost'' host \<or> suffix ''.local'' host then True
         else if host = ''::1'' \<or> host = ''0:0:0:0:0:0:0:1'' then True
         else if prefix ''fe80:'' host \<or> prefix ''fc'' host \<or> prefix ''fd'' host then True
         else case ipv4_parts host of
                None \<Rightarrow> False
              | Some parts \<Rightarrow>
                  let a = parts ! 0; b = parts ! 1
                  in if a = 127 \<or> a = 0 \<or> a = 10 then True
                     else if a = 169 \<and> b = 254 then True
                     else if a = 172 \<and> b \<ge> 16 \<and> b \<le> 31 then True
                     else if a = 192 \<and> b = 168 then True
                     else False)"

definition allowPrivateWebhookTargets :: "string option \<Rightarrow> bool" where
  "allowPrivateWebhookTargets env \<longleftrightarrow> lower (coalesce env []) = ''true''"

record parsed_url =
  url_protocol :: string
  url_hostname :: string
  url_href :: string

definition validateDestinationTarget ::
    "string option \<Rightarrow> string option \<Rightarrow> (string \<Rightarrow> parsed_url option) \<Rightarrow> delivery_kind \<Rightarrow> jsval
     \<Rightarrow> (mo_error, string) result" where
  "validateDestinationTarget cc allowEnv parseUrl kind target =
     (case target of
        JStr raw \<Rightarrow>
          (let text = trim raw
           in if text = [] then Inl TargetRequired
              else if length text > 2048 then Inl TargetTooLong
              else case kind of
                     DkEmail \<Rightarrow> if \<not> EMAIL text then Inl NotAnEmail else Inr text
                   | DkSms \<Rightarrow>
                       (let normalized = normalizeMsisdn cc (Some text) None
                        in if \<not> truthy (nm_digits normalized) then Inl NotDialable
                           else Inr (the (nm_digits normalized)))
                   | DkWebhook \<Rightarrow>
                       (case parseUrl text of
                          None \<Rightarrow> Inl NotAbsoluteUrl
                        | Some url \<Rightarrow>
                            if url_protocol url \<noteq> ''http:'' \<and> url_protocol url \<noteq> ''https:'' then Inl NotHttp
                            else if \<not> allowPrivateWebhookTargets allowEnv \<and> isPrivateHost (url_hostname url)
                            then Inl (PrivateHost (url_hostname url))
                            else Inr (url_href url)))
      | _ \<Rightarrow> Inl TargetRequired)"

definition parseDeliveryKind :: "jsval \<Rightarrow> (mo_error, delivery_kind) result" where
  "parseDeliveryKind v =
     (if v = JStr ''webhook'' then Inr DkWebhook else if v = JStr ''email'' then Inr DkEmail
      else if v = JStr ''sms'' then Inr DkSms else Inl BadKind)"

definition parseDestinationMatchType :: "jsval \<Rightarrow> (mo_error, destination_match) result" where
  "parseDestinationMatchType v =
     (if absent v \<or> v = JStr [] then Inr DAny
      else if v = JStr ''any'' then Inr DAny else if v = JStr ''exact'' then Inr DExact
      else if v = JStr ''prefix'' then Inr DPrefix else Inl BadDestinationMatch)"

definition parseKeywordMatchType :: "jsval \<Rightarrow> (mo_error, keyword_match) result" where
  "parseKeywordMatchType v =
     (if absent v \<or> v = JStr [] then Inr KAny
      else if v = JStr ''any'' then Inr KAny else if v = JStr ''first_word'' then Inr KFirstWord
      else if v = JStr ''substring'' then Inr KSubstring else if v = JStr ''exact'' then Inr KExact
      else Inl BadKeywordMatch)"

subsection \<open>The order is a ranking that separates identifiers\<close>

lemma compareMoRules_alt:
  "compareMoRules = cmp_or (cmp_diff mo_priority) (cmp_or (cmp_diff mo_createdAtMs) (cmp_key mo_id))"
  by (intro ext) (auto simp: compareMoRules_def cmp_or_def cmp_diff_def cmp_key_def)

interpretation mo_order: identified_ranking compareMoRules mo_id
proof (intro identified_ranking.intro identified_ranking_axioms.intro)
  show "ranking compareMoRules"
    unfolding compareMoRules_alt by (intro cmp_rules)
  show "compareMoRules a b = 0 \<Longrightarrow> mo_id a = mo_id b" for a b
    by (auto simp: compareMoRules_def split: if_splits)
qed

subsection \<open>Lemmas\<close>

text \<open>The four criteria of a rule, each optional, all required.\<close>

definition mo_applies :: "string option \<Rightarrow> mo_rule \<Rightarrow> mo_context \<Rightarrow> bool" where
  "mo_applies cc r ctx \<longleftrightarrow>
     (truthy (mo_smscId r) \<longrightarrow> mx_smscId ctx = mo_smscId r)
     \<and> (truthy (mo_destination r) \<longrightarrow>
          (case mo_destinationType r of
             DAny \<Rightarrow> True
           | DExact \<Rightarrow> canonicalAddress cc (Some (mx_receiver ctx)) = the (mo_destination r)
           | DPrefix \<Rightarrow> prefix (the (mo_destination r)) (canonicalAddress cc (Some (mx_receiver ctx)))))
     \<and> (truthy (mo_senderPrefix r) \<longrightarrow>
          prefix (the (mo_senderPrefix r)) (canonicalAddress cc (Some (mx_sender ctx))))
     \<and> keywordMatches r (mx_body ctx)"

lemma matchMoRule_applies:
  "(matchMoRule cc r ctx = None \<longleftrightarrow> \<not> mo_applies cc r ctx)
   \<and> (\<forall>m. matchMoRule cc r ctx = Some m \<longrightarrow> mm_ruleId m = mo_id r
        \<and> mm_continueAfterMatch m = mo_continueAfterMatch r
        \<and> mm_destinationCount m = length (mo_destinations r))"
proof -
  have kw: "mo_keywordType r = KAny \<or> \<not> truthy (mo_keyword r) \<Longrightarrow> keywordMatches r b" for b
    by (auto simp: keywordMatches_def)
  have "matchMoRule cc r ctx = None \<longleftrightarrow> \<not> mo_applies cc r ctx"
    using kw [of "mx_body ctx"]
    by (cases "mo_destinationType r") (auto simp: matchMoRule_def mo_applies_def Let_def)
  then show ?thesis by (auto simp: matchMoRule_def Let_def split: if_splits)
qed

text \<open>Up to and including the first terminal rule.\<close>

fun until_terminal :: "mo_rule list \<Rightarrow> mo_rule list" where
  "until_terminal [] = []"
| "until_terminal (r # rs) = (if mo_continueAfterMatch r then r # until_terminal rs else [r])"

lemma match_loop_result:
  "map mm_ruleId (mt_matches (match_loop cc rules ctx ms n)) =
     map mm_ruleId ms @ map mo_id (until_terminal (filter (\<lambda>r. mo_applies cc r ctx) rules))
   \<and> mt_rulesEvaluated (match_loop cc rules ctx ms n) \<le> n + length rules
   \<and> (mt_stoppedEarly (match_loop cc rules ctx ms n) \<longleftrightarrow>
        mt_rulesEvaluated (match_loop cc rules ctx ms n) < n + length rules)"
proof (induction rules arbitrary: ms n)
  case (Cons r rules)
  show ?case
  proof (cases "matchMoRule cc r ctx")
    case None
    with matchMoRule_applies [of cc r ctx] have "\<not> mo_applies cc r ctx" by blast
    with None Cons.IH [of ms "n + 1"] show ?thesis by simp
  next
    case (Some m)
    with matchMoRule_applies [of cc r ctx] have m: "mo_applies cc r ctx" "mm_ruleId m = mo_id r"
      "mm_continueAfterMatch m = mo_continueAfterMatch r" by auto
    with Some Cons.IH [of "ms @ [m]" "n + 1"] show ?thesis by (cases rules) auto
  qed
qed simp

lemma until_terminal_filter:
  assumes "sorted_wrt (\<lambda>a b. compareMoRules a b \<le> 0) xs" "distinct (map mo_id xs)"
  shows "until_terminal xs =
    filter (\<lambda>r. \<forall>r' \<in> set xs. \<not> mo_continueAfterMatch r' \<longrightarrow> compareMoRules r r' \<le> 0) xs"
  using assms
proof (induction xs)
  case (Cons x xs)
  have after: "\<not> compareMoRules y x \<le> 0" if "y \<in> set xs" for y
  proof
    assume "compareMoRules y x \<le> 0"
    moreover have "compareMoRules x y \<le> 0" using Cons.prems(1) that by simp
    ultimately have "compareMoRules x y = 0" using mo_order.cmp_flip [of x y] by linarith
    then have "mo_id x = mo_id y" by (rule mo_order.cmp_ident)
    with Cons.prems(2) that show False by (auto simp: image_iff)
  qed
  have first: "\<forall>r' \<in> set (x # xs). compareMoRules x r' \<le> 0"
    using Cons.prems(1) by simp
  show ?case
  proof (cases "mo_continueAfterMatch x")
    case True
    with Cons first show ?thesis by (auto intro: filter_cong)
  next
    case False
    have "filter (\<lambda>r. \<forall>r' \<in> set (x # xs). \<not> mo_continueAfterMatch r' \<longrightarrow> compareMoRules r r' \<le> 0) xs = []"
      using after False by (auto simp: filter_empty_conv)
    with False first show ?thesis by simp
  qed
qed simp

subsection \<open>Properties\<close>

text \<open>
  C17. Fan-out and precedence: on a rule set with distinct identifiers an inbound message is
  delivered by exactly the rules whose criteria it meets and that no terminal rule it also meets
  precedes in the order of priority, age and identifier, in that order; matching is reported as
  stopped early exactly when some rule was not evaluated; and the order in which the rows come
  from the database changes nothing.
\<close>

theorem matchMoRules_fan_out:
  assumes "distinct (map mo_id rules)" and "mset rules' = mset rules"
  shows "map mm_ruleId (mt_matches (matchMoRules cc (sort_cmp compareMoRules rules) ctx)) =
      map mo_id (filter (\<lambda>r. mo_applies cc r ctx
          \<and> (\<forall>r' \<in> set rules. mo_applies cc r' ctx \<and> \<not> mo_continueAfterMatch r' \<longrightarrow> compareMoRules r r' \<le> 0))
        (sort_cmp compareMoRules rules))
    \<and> (mt_stoppedEarly (matchMoRules cc (sort_cmp compareMoRules rules) ctx) \<longleftrightarrow>
        mt_rulesEvaluated (matchMoRules cc (sort_cmp compareMoRules rules) ctx) < length rules)
    \<and> matchMoRules cc (sort_cmp compareMoRules rules') ctx = matchMoRules cc (sort_cmp compareMoRules rules) ctx"
proof -
  let ?s = "sort_cmp compareMoRules rules"
  let ?a = "filter (\<lambda>r. mo_applies cc r ctx) ?s"
  have d: "distinct (map mo_id ?s)"
    using assms(1) mset_eq_imp_distinct_iff [of "map mo_id ?s" "map mo_id rules"] by simp
  have "until_terminal ?a =
      filter (\<lambda>r. \<forall>r' \<in> set ?a. \<not> mo_continueAfterMatch r' \<longrightarrow> compareMoRules r r' \<le> 0) ?a"
    by (rule until_terminal_filter)
      (use d in \<open>auto intro: sorted_wrt_filter mo_order.sort_cmp_sorted distinct_map_filter\<close>)
  also have "\<dots> = filter (\<lambda>r. mo_applies cc r ctx
          \<and> (\<forall>r' \<in> set rules. mo_applies cc r' ctx \<and> \<not> mo_continueAfterMatch r' \<longrightarrow> compareMoRules r r' \<le> 0)) ?s"
    by (auto intro!: filter_cong)
  finally have u: "until_terminal ?a = \<dots>" .
  have "sort_cmp compareMoRules rules' = ?s"
    by (rule mo_order.sort_cmp_unique) (use assms mset_eq_imp_distinct_iff [of "map mo_id rules'" "map mo_id rules"] in simp_all)
  with u match_loop_result [of cc ?s ctx "[]" 0] show ?thesis
    by (simp add: matchMoRules_def)
qed

definition sample_mo_rule :: "string \<Rightarrow> int \<Rightarrow> string option \<Rightarrow> bool \<Rightarrow> mo_rule" where
  "sample_mo_rule i prio kw cont =
     compileMoRule None \<lparr>mr_id = i, mr_name = i, mr_enabled = True, mr_priority = prio, mr_match_smsc_id = None,
       mr_match_destination = Some ''8080'', mr_match_destination_type = DExact, mr_match_sender_prefix = Some ''+256'',
       mr_match_keyword = kw, mr_match_keyword_type = KFirstWord, mr_case_sensitive = False,
       mr_continue_after_match = cont, mr_customer_id = None, mr_created_at = Some 1\<rparr> []"

definition sample_mo_rules :: "mo_rule list" where
  "sample_mo_rules = [sample_mo_rule ''crm'' 30 None False, sample_mo_rule ''stop'' 20 (Some ''STOP'') False,
     sample_mo_rule ''audit'' 10 None True]"

definition sample_mo_message :: mo_context where
  "sample_mo_message = \<lparr>mx_smscId = None, mx_sender = ''+256700000001'', mx_receiver = ''8080'', mx_body = '' stop it''\<rparr>"

theorem matchMoRules_fan_out_witness:
  "map mm_ruleId (mt_matches (matchMoRules None (sort_cmp compareMoRules sample_mo_rules) sample_mo_message)) = [''audit'', ''stop'']
   \<and> matchMoRules None (sort_cmp compareMoRules (rev sample_mo_rules)) sample_mo_message =
     matchMoRules None (sort_cmp compareMoRules sample_mo_rules) sample_mo_message"
proof -
  have "distinct (map mo_id sample_mo_rules)" by code_simp
  moreover have "mset (rev sample_mo_rules) = mset sample_mo_rules" by simp
  moreover have "map mm_ruleId (mt_matches (matchMoRules None (sort_cmp compareMoRules sample_mo_rules) sample_mo_message)) = [''audit'', ''stop'']"
    by code_simp
  ultimately show ?thesis
    using matchMoRules_fan_out [of sample_mo_rules "rev sample_mo_rules" None sample_mo_message] by blast
qed

subsection \<open>Addresses of private networks\<close>

definition dotted :: "nat list \<Rightarrow> string" where
  "dotted bs = join ''.'' (map show_nat bs)"

definition ipv4_value :: "nat list \<Rightarrow> nat" where
  "ipv4_value bs = foldl (\<lambda>v b. 256 * v + b) 0 bs"

text \<open>0/8, 10/8, 127/8, 169.254/16, 172.16/12 and 192.168/16 as ranges of 32-bit addresses.\<close>

definition private_ipv4 :: "nat \<Rightarrow> bool" where
  "private_ipv4 v \<longleftrightarrow>
     v div 2 ^ 24 \<in> {0, 10, 127} \<or> v div 2 ^ 16 \<in> {169 * 256 + 254, 192 * 256 + 168}
     \<or> v div 2 ^ 20 = 172 * 16 + 1"

lemma length_show_nat: "n < 10 ^ k \<Longrightarrow> 0 < k \<Longrightarrow> length (show_nat n) \<le> k"
proof (induction k arbitrary: n)
  case (Suc k)
  show ?case
  proof (cases "n < 10")
    case True
    then show ?thesis by (subst show_nat.simps) simp
  next
    case False
    then have "0 < k" using Suc.prems by (cases k) auto
    moreover have "n div 10 < 10 ^ k" using Suc.prems by (auto simp: div_less_iff_less_mult)
    ultimately have "length (show_nat (n div 10)) \<le> k" by (rule Suc.IH [rotated])
    with False show ?thesis by (subst show_nat.simps) simp
  qed
qed simp

lemma show_nat_chars: "c \<in> set (show_nat n) \<Longrightarrow> is_digit c"
  using show_nat_digits [of n] by (simp add: list_all_iff)

lemma lower_show_nat [simp]: "lower (show_nat n) = show_nat n"
  unfolding lower_def by (rule map_idI) (auto dest: show_nat_chars)

lemma char_classes:
  "\<not> is_digit (CHR ''.'')" "\<not> is_digit (CHR ''['')" "\<not> is_digit (CHR '']'')" "\<not> is_digit (CHR ''l'')"
  "\<not> is_digit (CHR '':'')" "\<not> is_digit (CHR ''f'')" "\<not> is_digit (CHR ''t'')" "to_lower (CHR ''.'') = CHR ''.''"
  by (simp_all add: is_digit_def char_code_def to_lower_def)

definition quad :: "nat \<Rightarrow> nat \<Rightarrow> nat \<Rightarrow> nat \<Rightarrow> string" where
  "quad a b c d = dotted [a, b, c, d]"

lemma quad_text:
  "quad a b c d = show_nat a @ ''.'' @ show_nat b @ ''.'' @ show_nat c @ ''.'' @ show_nat d"
  by (simp add: quad_def dotted_def)

lemma lower_Cons: "lower (x # s) = to_lower x # lower s"
  by (simp add: lower_def)

lemma quad_lower: "lower (quad a b c d) = quad a b c d"
  by (simp add: quad_text lower_Cons char_classes)

lemma quad_head: "\<exists>x t. quad a b c d = x # t \<and> is_digit x"
  using show_nat_chars [of _ a] show_nat_not_Nil [of a] by (cases "show_nat a") (auto simp: quad_text)

lemma quad_last: "\<exists>t x. quad a b c d = t @ [x] \<and> is_digit x"
proof -
  obtain t x where "show_nat d = t @ [x]" using show_nat_not_Nil [of d] by (meson rev_exhaust)
  moreover from this have "is_digit x" using show_nat_chars [of x d] by simp
  ultimately show ?thesis by (simp add: quad_text)
qed

lemma quad_no_suffix: "\<not> is_digit y \<Longrightarrow> \<not> suffix (s @ [y]) (quad a b c d)"
  using quad_last [of a b c d] by (auto simp: suffix_def)

lemma quad_no_prefix: "\<not> is_digit y \<Longrightarrow> \<not> prefix (y # s) (quad a b c d)"
  using quad_head [of a b c d] by (auto simp: prefix_def)

lemma quad_strip: "strip_brackets (quad a b c d) = quad a b c d"
  using quad_no_prefix [of "CHR ''[''" "[]" a b c d] quad_no_suffix [of "CHR '']''" "[]" a b c d]
  by (simp add: strip_brackets_def char_classes)

lemma quad_parts:
  assumes "a < 256" "b < 256" "c < 256" "d < 256"
  shows "ipv4_parts (quad a b c d) = Some [a, b, c, d]"
proof -
  have "CHR ''.'' \<notin> set (show_nat n)" for n using show_nat_chars char_classes(1) by blast
  then have "split_on (CHR ''.'') (quad a b c d) = map show_nat [a, b, c, d]"
    unfolding quad_def dotted_def by (intro split_on_join) auto
  moreover have "length (show_nat n) \<le> 3" if "n < 256" for n
    using that length_show_nat [of n 3] by simp
  moreover have "Suc 0 \<le> length (show_nat n)" for n by (cases "show_nat n") simp_all
  ultimately show ?thesis using assms show_nat_digits by (simp add: ipv4_parts_def)
qed

lemma quad_value: "ipv4_value [a, b, c, d] = a * 2 ^ 24 + b * 2 ^ 16 + c * 2 ^ 8 + d"
  by (simp add: ipv4_value_def algebra_simps)

lemma quad_private:
  assumes "a < 256" "b < 256" "c < 256" "d < 256"
  shows "private_ipv4 (ipv4_value [a, b, c, d]) \<longleftrightarrow>
     a \<in> {0, 10, 127} \<or> a = 169 \<and> b = 254 \<or> a = 192 \<and> b = 168 \<or> a = 172 \<and> 16 \<le> b \<and> b \<le> 31"
proof -
  have d24: "ipv4_value [a, b, c, d] div 2 ^ 24 = a"
    unfolding quad_value by (rule div_nat_eqI) (use assms in simp_all)
  have d16: "ipv4_value [a, b, c, d] div 2 ^ 16 = a * 256 + b"
    unfolding quad_value by (rule div_nat_eqI) (use assms in simp_all)
  have b16: "16 * (b div 16) \<le> b" "b < 16 * (b div 16) + 16" by linarith+
  have d20: "ipv4_value [a, b, c, d] div 2 ^ 20 = a * 16 + b div 16"
    unfolding quad_value by (rule div_nat_eqI) (use assms b16 in simp_all)
  have pair: "a * k + x = p * k + y \<longleftrightarrow> a = p \<and> x = y" if "x < k" "y < k" for k p x y :: nat
  proof
    assume e: "a * k + x = p * k + y"
    then have "(a * k + x) div k = (p * k + y) div k" "(a * k + x) mod k = (p * k + y) mod k" by simp_all
    with that show "a = p \<and> x = y" by simp
  qed simp
  have "a * 256 + b = 169 * 256 + 254 \<longleftrightarrow> a = 169 \<and> b = 254"
    "a * 256 + b = 192 * 256 + 168 \<longleftrightarrow> a = 192 \<and> b = 168"
    "a * 16 + b div 16 = 172 * 16 + 1 \<longleftrightarrow> a = 172 \<and> b div 16 = 1"
    using assms less_mult_imp_div_less [of b 16 16] by - (rule pair; simp)+
  moreover have "b div 16 = 1 \<longleftrightarrow> 16 \<le> b \<and> b \<le> 31" using b16 by auto
  ultimately have "a * 256 + b = 169 * 256 + 254 \<longleftrightarrow> a = 169 \<and> b = 254"
    "a * 256 + b = 192 * 256 + 168 \<longleftrightarrow> a = 192 \<and> b = 168"
    "a * 16 + b div 16 = 172 * 16 + 1 \<longleftrightarrow> a = 172 \<and> 16 \<le> b \<and> b \<le> 31" by simp_all
  then show ?thesis
    unfolding private_ipv4_def d24 d16 d20 by blast
qed

lemma quad_host:
  assumes "a < 256" "b < 256" "c < 256" "d < 256"
  shows "isPrivateHost (quad a b c d) \<longleftrightarrow> private_ipv4 (ipv4_value [a, b, c, d])"
proof -
  have "quad a b c d \<noteq> ''localhost''" "quad a b c d \<noteq> ''::1''"
    using quad_no_prefix [of "CHR ''l''" "''ocalhost''" a b c d] quad_no_prefix [of "CHR '':''" "'':1''" a b c d]
    by (auto simp: char_classes)
  moreover have "quad a b c d \<noteq> ''0:0:0:0:0:0:0:1''"
  proof
    assume "quad a b c d = ''0:0:0:0:0:0:0:1''"
    moreover have "CHR ''.'' \<in> set (quad a b c d)" by (simp add: quad_text)
    ultimately show False by simp
  qed
  moreover have "\<not> suffix ''.localhost'' (quad a b c d)" "\<not> suffix ''.local'' (quad a b c d)"
    using quad_no_suffix [of "CHR ''t''" "''.localhos''" a b c d] quad_no_suffix [of "CHR ''l''" "''.loca''" a b c d]
    by (simp_all add: char_classes)
  moreover have "\<not> prefix ''fe80:'' (quad a b c d)" "\<not> prefix ''fc'' (quad a b c d)" "\<not> prefix ''fd'' (quad a b c d)"
    by (simp_all add: quad_no_prefix char_classes)
  ultimately show ?thesis
    unfolding isPrivateHost_def quad_lower quad_strip Let_def quad_parts [OF assms] option.case quad_private [OF assms]
    by simp
qed

text \<open>
  C32. The guard against server-side request forgery is exact on IPv4 literals: a dotted quad is
  refused if and only if the 32-bit address it denotes lies in 0/8, 10/8, 127/8, 169.254/16,
  172.16/12 or 192.168/16, so without the override no accepted webhook names such an address.
\<close>

theorem isPrivateHost_ipv4_exact:
  assumes "a < 256" "b < 256" "c < 256" "d < 256"
  shows "(isPrivateHost (quad a b c d) \<longleftrightarrow> private_ipv4 (ipv4_value [a, b, c, d]))
    \<and> (\<forall>text url r. parseUrl (trim text) = Some url \<longrightarrow> url_hostname url = quad a b c d \<longrightarrow>
         validateDestinationTarget cc None parseUrl DkWebhook (JStr text) = Inr r \<longrightarrow>
         \<not> private_ipv4 (ipv4_value [a, b, c, d]))"
proof -
  have "\<not> allowPrivateWebhookTargets None" by (simp add: allowPrivateWebhookTargets_def lower_def)
  then show ?thesis
    unfolding quad_host [OF assms, symmetric]
    by (auto simp: validateDestinationTarget_def Let_def split: if_splits)
qed

theorem isPrivateHost_ipv4_exact_witness:
  "isPrivateHost ''169.254.169.254'' \<and> \<not> isPrivateHost ''172.32.0.1''"
proof -
  have q: "''169.254.169.254'' = quad 169 254 169 254" "''172.32.0.1'' = quad 172 32 0 1" by code_simp+
  have "private_ipv4 (ipv4_value [169, 254, 169, 254])" "\<not> private_ipv4 (ipv4_value [172, 32, 0, 1])"
    by (simp_all add: private_ipv4_def ipv4_value_def)
  then show ?thesis
    unfolding q using isPrivateHost_ipv4_exact [of 169 254 169 254 "\<lambda>_. None" None]
      isPrivateHost_ipv4_exact [of 172 32 0 1 "\<lambda>_. None" None] by simp
qed

end
