(* ===== verification/Segments.thy ===== *)
theory Segments
  imports JsValue
begin

section \<open>SMS segment accounting: engine/message-segments.ts\<close>

text \<open>
  How many parts a message occupies. A text is a list of UTF-16 code units, as the language
  stores it, because a character outside the basic plane is two of them; the character set of
  a row, always ASCII, stays a HOL string. \<open>characters\<close> is the iteration of a string by code
  points.
\<close>

type_synonym units = "nat list"

datatype alphabet = Gsm7 | Ucs2 | Binary

definition GSM7_BASIC :: "nat list" where
  "GSM7_BASIC =
     [64, 163, 36, 165, 232, 233, 249, 236, 242, 199, 10, 216, 248, 13, 197, 229, 916, 95, 934, 915,
      923, 937, 928, 936, 931, 920, 926,
      32, 33, 34, 35, 164, 37, 38, 39, 40, 41, 42, 43, 44, 45, 46, 47, 48, 49, 50, 51, 52, 53, 54, 55,
      56, 57, 58, 59, 60, 61, 62, 63,
      161, 65, 66, 67, 68, 69, 70, 71, 72, 73, 74, 75, 76, 77, 78, 79, 80, 81, 82, 83, 84, 85, 86, 87,
      88, 89, 90, 196, 214, 209, 220, 167,
      191, 97, 98, 99, 100, 101, 102, 103, 104, 105, 106, 107, 108, 109, 110, 111, 112, 113, 114, 115,
      116, 117, 118, 119, 120, 121, 122, 228, 246, 241, 252, 224,
      198, 230, 223, 201]"

definition GSM7_EXTENDED :: "nat list" where
  "GSM7_EXTENDED = [12, 94, 123, 125, 92, 91, 126, 93, 124, 8364]"

record segment_input =
  si_text :: "units option"
  si_coding :: jsval
  si_charset :: "string option"
  si_udhData :: "units option"

record segment_breakdown =
  sb_segments :: nat
  sb_alphabet :: alphabet
  sb_length :: nat
  sb_singleCapacity :: nat
  sb_multipartCapacity :: nat
  sb_udhOctets :: nat
  sb_declaredByUdh :: bool
  sb_perSegment :: nat
  sb_remaining :: nat

definition PAYLOAD_OCTETS :: nat where "PAYLOAD_OCTETS = 140"
definition CONCAT_UDH_OCTETS :: nat where "CONCAT_UDH_OCTETS = 6"
definition CONCAT_IE_OCTETS :: nat where "CONCAT_IE_OCTETS = 5"

subsection \<open>Code points\<close>

definition is_high :: "nat \<Rightarrow> bool" where "is_high u \<longleftrightarrow> 55296 \<le> u \<and> u \<le> 56319"
definition is_low :: "nat \<Rightarrow> bool" where "is_low u \<longleftrightarrow> 56320 \<le> u \<and> u \<le> 57343"

fun characters :: "units \<Rightarrow> units list" where
  "characters [] = []"
| "characters [u] = [[u]]"
| "characters (u # v # us) =
     (if is_high u \<and> is_low v then [u, v] # characters us else [u] # characters (v # us))"

definition is_space_unit :: "nat \<Rightarrow> bool" where
  "is_space_unit u \<longleftrightarrow>
     (9 \<le> u \<and> u \<le> 13) \<or> u = 32 \<or> u = 160 \<or> u = 5760 \<or> (8192 \<le> u \<and> u \<le> 8202)
     \<or> u = 8232 \<or> u = 8233 \<or> u = 8239 \<or> u = 8287 \<or> u = 12288 \<or> u = 65279"

definition trim_units :: "units \<Rightarrow> units" where
  "trim_units s = rev (dropWhile is_space_unit (rev (dropWhile is_space_unit s)))"

subsection \<open>The user data header\<close>

definition hex_value :: "nat \<Rightarrow> nat option" where
  "hex_value u =
     (if 48 \<le> u \<and> u \<le> 57 then Some (u - 48)
      else if 97 \<le> u \<and> u \<le> 102 then Some (u - 87)
      else if 65 \<le> u \<and> u \<le> 70 then Some (u - 55)
      else None)"

fun hex_pairs :: "units \<Rightarrow> nat list" where
  "hex_pairs (a # b # us) = (16 * the (hex_value a) + the (hex_value b)) # hex_pairs us"
| "hex_pairs _ = []"

definition udhOctetsOf :: "units option \<Rightarrow> nat list" where
  "udhOctetsOf v =
     (case v of
        None \<Rightarrow> []
      | Some s \<Rightarrow>
          if s = [] then []
          else let trimmed = trim_units s
               in if trimmed = [] then []
                  else if length trimmed mod 2 = 0 \<and> list_all (\<lambda>u. hex_value u \<noteq> None) trimmed
                  then hex_pairs trimmed
                  else map (\<lambda>c. hd c mod 256) (characters trimmed))"

function declared_loop :: "nat list \<Rightarrow> nat \<Rightarrow> nat \<Rightarrow> nat option" where
  "declared_loop octets end_at cursor =
     (if cursor + 1 < end_at then
        let iei = octets ! cursor; len = octets ! (cursor + 1);
            body = take len (drop (cursor + 2) octets)
        in if iei = 0 \<and> length body \<ge> 2 \<and> body ! 1 > 0 then Some (body ! 1)
           else if iei = 8 \<and> length body \<ge> 3 \<and> body ! 2 > 0 then Some (body ! 2)
           else declared_loop octets end_at (cursor + 2 + len)
      else None)"
  by pat_completeness auto
termination
  by (relation "measure (\<lambda>(octets, end_at, cursor). end_at - cursor)") auto

declare declared_loop.simps [simp del]

definition declaredParts :: "nat list \<Rightarrow> nat option" where
  "declaredParts octets =
     (if length octets < 2 then None
      else declared_loop octets (min (hd octets + 1) (length octets)) 1)"

subsection \<open>Alphabets, costs and capacities\<close>

definition isGsm7Encodable :: "units \<Rightarrow> bool" where
  "isGsm7Encodable text \<longleftrightarrow>
     list_all (\<lambda>c. case c of [u] \<Rightarrow> u \<in> set GSM7_BASIC \<or> u \<in> set GSM7_EXTENDED | _ \<Rightarrow> False)
       (characters text)"

definition characterCosts :: "units \<Rightarrow> alphabet \<Rightarrow> nat list" where
  "characterCosts text alphabet =
     (case alphabet of
        Gsm7 \<Rightarrow> map (\<lambda>c. case c of [u] \<Rightarrow> if u \<in> set GSM7_EXTENDED then 2 else 1 | _ \<Rightarrow> 1) (characters text)
      | Ucs2 \<Rightarrow> map length (characters text)
      | Binary \<Rightarrow> replicate (length text) 1)"

fun pack_loop :: "nat \<Rightarrow> nat list \<Rightarrow> nat \<Rightarrow> nat \<Rightarrow> nat \<times> nat" where
  "pack_loop capacity [] segments used = (segments, used)"
| "pack_loop capacity (cost # costs) segments used =
     (if used + cost > capacity then pack_loop capacity costs (segments + 1) cost
      else pack_loop capacity costs segments (used + cost))"

definition pack :: "nat list \<Rightarrow> nat \<Rightarrow> nat \<times> nat" where
  "pack costs capacity =
     (if capacity \<le> 0 then (max 1 (length costs), 0) else pack_loop capacity costs 1 0)"

definition septets :: "nat \<Rightarrow> nat" where
  "septets octets = (octets * 8) div 7"

definition capacityFor :: "alphabet \<Rightarrow> nat \<Rightarrow> nat" where
  "capacityFor alphabet headerOctets =
     (let payload = PAYLOAD_OCTETS - headerOctets
      in case alphabet of Gsm7 \<Rightarrow> septets payload | Ucs2 \<Rightarrow> payload div 2 | Binary \<Rightarrow> payload)"

text \<open>\<open>SEGMENT_LIMITS\<close>: the single and the multipart capacity.\<close>

definition SEGMENT_LIMITS :: "alphabet \<Rightarrow> nat \<times> nat" where
  "SEGMENT_LIMITS a = (capacityFor a 0, capacityFor a CONCAT_UDH_OCTETS)"

definition resolveAlphabet :: "segment_input \<Rightarrow> units \<Rightarrow> alphabet" where
  "resolveAlphabet input text =
     (let coding = (if absent (si_coding input) \<or> si_coding input = JStr [] then NaN
                    else toNumber (si_coding input))
      in if coding = Fin 0 then Gsm7
         else if coding = Fin 1 then Binary
         else if coding = Fin 2 then Ucs2
         else
           let charset = lower (trim (coalesce (si_charset input) []))
           in if sublist ''ucs2'' charset \<or> sublist ''ucs-2'' charset
                \<or> sublist ''utf16'' charset \<or> sublist ''utf-16'' charset then Ucs2
              else if sublist ''binary'' charset \<or> sublist ''octet'' charset then Binary
              else if isGsm7Encodable text then Gsm7 else Ucs2)"

subsection \<open>The accounting\<close>

definition describeSegments :: "segment_input \<Rightarrow> segment_breakdown" where
  "describeSegments input =
     (let text = coalesce (si_text input) [];
          alphabet = resolveAlphabet input text;
          octets = udhOctetsOf (si_udhData input);
          udhOctets = (if octets \<noteq> [] then min (hd octets + 1) PAYLOAD_OCTETS else 0);
          concatenatedUdhOctets =
            (if udhOctets = 0 then CONCAT_UDH_OCTETS else min (udhOctets + CONCAT_IE_OCTETS) PAYLOAD_OCTETS);
          singleCapacity = capacityFor alphabet udhOctets;
          multipartCapacity = capacityFor alphabet concatenatedUdhOctets;
          costs = characterCosts text alphabet;
          len = sum_list costs;
          out = (\<lambda>segments declared perSegment remaining.
            \<lparr>sb_segments = segments, sb_alphabet = alphabet, sb_length = len,
             sb_singleCapacity = singleCapacity, sb_multipartCapacity = multipartCapacity,
             sb_udhOctets = udhOctets, sb_declaredByUdh = declared, sb_perSegment = perSegment,
             sb_remaining = remaining\<rparr>)
      in case declaredParts octets of
           Some declared \<Rightarrow>
             (let segments = max 1 declared;
                  perSegment = (if segments > 1 then multipartCapacity else singleCapacity)
              in out segments True perSegment (perSegment - len))
         | None \<Rightarrow>
             if len \<le> singleCapacity then out 1 False singleCapacity (singleCapacity - len)
             else
               let (segments, used) = pack costs multipartCapacity
               in out (max 1 segments) False multipartCapacity (multipartCapacity - used))"

definition countSegments :: "segment_input \<Rightarrow> nat" where
  "countSegments input = sb_segments (describeSegments input)"

record segment_preview = segment_breakdown +
  sp_characters :: nat

definition previewSegments :: "segment_input \<Rightarrow> segment_preview" where
  "previewSegments input =
     segment_breakdown.extend (describeSegments input)
       \<lparr>sp_characters = length (characters (coalesce (si_text input) []))\<rparr>"

subsection \<open>Greedy packing is optimal\<close>

definition state_le :: "nat \<times> nat \<Rightarrow> nat \<times> nat \<Rightarrow> bool" where
  "state_le p q \<longleftrightarrow> fst p < fst q \<or> fst p = fst q \<and> snd p \<le> snd q"

lemma state_le_trans: "state_le p q \<Longrightarrow> state_le q r \<Longrightarrow> state_le p r"
  by (auto simp: state_le_def)

lemma pack_loop_mono:
  "state_le (s, u) (s', u') \<Longrightarrow> state_le (pack_loop cap costs s u) (pack_loop cap costs s' u')"
proof (induction costs arbitrary: s u s' u')
  case (Cons c costs)
  let ?n = "\<lambda>s u. if u + c > cap then (s + 1, c) else (s, u + c)"
  have "state_le (?n s u) (?n s' u')" using Cons.prems by (auto simp: state_le_def)
  moreover have "pack_loop cap (c # costs) s u = pack_loop cap costs (fst (?n s u)) (snd (?n s u))" for s u
    by simp
  ultimately show ?case using Cons.IH by (simp only: prod.collapse)
qed (simp add: state_le_def)

lemma pack_loop_append:
  "pack_loop cap (xs @ ys) s u = (case pack_loop cap xs s u of (s', u') \<Rightarrow> pack_loop cap ys s' u')"
  by (induction xs arbitrary: s u) auto

lemma pack_loop_fits: "u + sum_list xs \<le> cap \<Longrightarrow> pack_loop cap xs s u = (s, u + sum_list xs)"
  by (induction xs arbitrary: u) auto

lemma pack_loop_blocks:
  "\<forall>b \<in> set bs. sum_list b \<le> cap \<Longrightarrow> fst (pack_loop cap (concat bs) s u) \<le> s + length bs"
proof (induction bs arbitrary: s u)
  case (Cons b bs)
  obtain s1 u1 where p: "pack_loop cap b s u = (s1, u1)" by (cases "pack_loop cap b s u")
  have "state_le (s, u) (s + 1, 0)" by (simp add: state_le_def)
  from pack_loop_mono [OF this, of cap b] have "state_le (s1, u1) (s + 1, sum_list b)"
    using Cons.prems pack_loop_fits [of 0 b cap "s + 1"] p by simp
  then have "state_le (pack_loop cap (concat bs) s1 u1) (pack_loop cap (concat bs) (s + 1) (sum_list b))"
    by (rule pack_loop_mono)
  then have "fst (pack_loop cap (concat bs) s1 u1) \<le> fst (pack_loop cap (concat bs) (s + 1) (sum_list b))"
    by (auto simp: state_le_def)
  also have "\<dots> \<le> s + 1 + length bs" using Cons.IH [of "s + 1" "sum_list b"] Cons.prems by simp
  finally show ?case by (simp add: pack_loop_append p)
qed simp

lemma pack_least:
  assumes "\<forall>b \<in> set bs. sum_list b \<le> cap" "bs \<noteq> []"
  shows "fst (pack_loop cap (concat bs) 1 0) \<le> length bs"
proof -
  obtain b cs where bs: "bs = b # cs" using assms(2) by (cases bs) auto
  then show ?thesis
    using assms(1) pack_loop_fits [of 0 b cap 1] pack_loop_blocks [of cs cap 1 "sum_list b"]
    by (simp add: pack_loop_append)
qed

lemma pack_reached:
  "sum_list cur \<le> cap \<Longrightarrow> \<forall>c \<in> set costs. c \<le> cap \<Longrightarrow> pack_loop cap costs s (sum_list cur) = (s', u') \<Longrightarrow>
     \<exists>bs. bs \<noteq> [] \<and> concat bs = cur @ costs \<and> (\<forall>b \<in> set bs. sum_list b \<le> cap)
       \<and> s' + 1 = s + length bs \<and> sum_list (last bs) = u'"
proof (induction costs arbitrary: cur s)
  case Nil
  then show ?case by (intro exI [of _ "[cur]"]) auto
next
  case (Cons c costs)
  show ?case
  proof (cases "sum_list cur + c > cap")
    case True
    with Cons.prems have "pack_loop cap costs (s + 1) (sum_list [c]) = (s', u')" by simp
    with Cons.IH [of "[c]" "s + 1"] Cons.prems obtain bs where "bs \<noteq> []" "concat bs = [c] @ costs"
      "\<forall>b \<in> set bs. sum_list b \<le> cap" "s' + 1 = s + 1 + length bs" "sum_list (last bs) = u'" by auto
    with Cons.prems(1) show ?thesis by (intro exI [of _ "cur # bs"]) auto
  next
    case False
    with Cons.prems have "pack_loop cap costs s (sum_list (cur @ [c])) = (s', u')" by simp
    with Cons.IH [of "cur @ [c]" s] False Cons.prems show ?thesis by simp
  qed
qed

lemma characters_length: "c \<in> set (characters t) \<Longrightarrow> length c = 1 \<or> length c = 2"
  by (induction t rule: characters.induct) (auto split: if_splits)

lemma costs_le_2: "c \<in> set (characterCosts t a) \<Longrightarrow> 1 \<le> c \<and> c \<le> 2"
  by (cases a) (auto simp: characterCosts_def dest!: characters_length split: list.splits)

lemma pack_loop_ones:
  "0 < cap \<Longrightarrow> u \<le> cap \<Longrightarrow> 0 < u + n \<Longrightarrow>
     fst (pack_loop cap (replicate n 1) s u) = s + (u + n - 1) div cap"
proof (induction n arbitrary: s u)
  case (Suc n)
  show ?case
  proof (cases "u = cap")
    case True
    have "(cap + n) div cap = Suc (n div cap)" using Suc.prems by simp
    with True Suc.IH [of 1 "s + 1"] Suc.prems show ?thesis by (simp del: One_nat_def)
  qed (use Suc.IH [of "u + 1" s] Suc.prems in simp)
qed simp

lemma describeSegments_undeclared:
  assumes "declaredParts (udhOctetsOf (si_udhData input)) = None"
  defines "a \<equiv> resolveAlphabet input (coalesce (si_text input) [])"
  defines "costs \<equiv> characterCosts (coalesce (si_text input) []) a"
  obtains single multi per where
    "sb_alphabet (describeSegments input) = a" "sb_length (describeSegments input) = sum_list costs"
    "sb_singleCapacity (describeSegments input) = single"
    "sb_multipartCapacity (describeSegments input) = multi"
    "sb_segments (describeSegments input) =
       (if sum_list costs \<le> single then 1 else max 1 (fst (pack costs multi)))"
    "sb_remaining (describeSegments input) =
       (if sum_list costs \<le> single then single - sum_list costs else multi - snd (pack costs multi))"
    "si_udhData input = None \<Longrightarrow> (single, multi) = SEGMENT_LIMITS a"
proof -
  define u where "u = (if udhOctetsOf (si_udhData input) \<noteq> []
    then min (hd (udhOctetsOf (si_udhData input)) + 1) PAYLOAD_OCTETS else 0)"
  define single where "single = capacityFor a u"
  define multi where
    "multi = capacityFor a (if u = 0 then CONCAT_UDH_OCTETS else min (u + CONCAT_IE_OCTETS) PAYLOAD_OCTETS)"
  obtain n used where p: "pack costs multi = (n, used)" by (cases "pack costs multi")
  have d: "describeSegments input =
      \<lparr>sb_segments = (if sum_list costs \<le> single then 1 else max 1 n), sb_alphabet = a,
       sb_length = sum_list costs, sb_singleCapacity = single, sb_multipartCapacity = multi, sb_udhOctets = u,
       sb_declaredByUdh = False, sb_perSegment = (if sum_list costs \<le> single then single else multi),
       sb_remaining = (if sum_list costs \<le> single then single - sum_list costs else multi - used)\<rparr>"
    unfolding describeSegments_def Let_def assms(1) option.case a_def [symmetric] costs_def [symmetric]
      u_def [symmetric] single_def [symmetric] multi_def [symmetric] p prod.case
    by simp
  have "(single, multi) = SEGMENT_LIMITS a" if "si_udhData input = None"
    using that by (simp add: SEGMENT_LIMITS_def udhOctetsOf_def single_def multi_def u_def)
  then show thesis
    by (rule that [of single multi, rotated -1]) (simp_all add: d p)
qed

subsection \<open>Properties\<close>

text \<open>
  C33. The part count is the least possible. Whatever alphabet, coding, charset and header a row
  has, when its header declares no count and leaves room for a character, a text that fits is
  one part, and a longer one is cut, between characters only, into as many parts as reported,
  each within the multipart capacity, the last with the reported room left; and no way to cut it
  between characters within that capacity uses fewer parts.
\<close>

theorem describeSegments_optimal:
  assumes "declaredParts (udhOctetsOf (si_udhData input)) = None"
    and "2 \<le> sb_multipartCapacity (describeSegments input)"
  shows "(let r = describeSegments input; cap = sb_multipartCapacity r;
              costs = characterCosts (coalesce (si_text input) []) (sb_alphabet r)
          in sb_length r = sum_list costs
             \<and> (if sum_list costs \<le> sb_singleCapacity r
                then sb_segments r = 1 \<and> sb_remaining r + sum_list costs = sb_singleCapacity r
                else (\<exists>bs. concat bs = costs \<and> length bs = sb_segments r
                        \<and> (\<forall>b \<in> set bs. sum_list b \<le> cap) \<and> sb_remaining r + sum_list (last bs) = cap)
                   \<and> (\<forall>bs. concat bs = costs \<and> (\<forall>b \<in> set bs. sum_list b \<le> cap) \<longrightarrow>
                        sb_segments r \<le> length bs)))"
proof -
  let ?r = "describeSegments input"
  let ?cap = "sb_multipartCapacity ?r" and ?single = "sb_singleCapacity ?r"
  let ?costs = "characterCosts (coalesce (si_text input) []) (sb_alphabet ?r)"
  have alpha: "sb_alphabet ?r = resolveAlphabet input (coalesce (si_text input) [])"
    by (rule describeSegments_undeclared [OF assms(1)])
  have len: "sb_length ?r = sum_list ?costs"
    unfolding alpha by (rule describeSegments_undeclared [OF assms(1)])
  have out: "sb_segments ?r = (if sum_list ?costs \<le> ?single then 1 else max 1 (fst (pack ?costs ?cap)))"
    "sb_remaining ?r = (if sum_list ?costs \<le> ?single then ?single - sum_list ?costs else ?cap - snd (pack ?costs ?cap))"
    unfolding alpha by (rule describeSegments_undeclared [OF assms(1)]; simp only:)+
  obtain n u where p: "pack_loop ?cap ?costs 1 0 = (n, u)" by (cases "pack_loop ?cap ?costs 1 0")
  have packed: "pack ?costs ?cap = (n, u)" using assms(2) p by (simp add: pack_def)
  have small: "\<forall>c \<in> set ?costs. c \<le> ?cap" using costs_le_2 assms(2) by fastforce
  obtain bs where bs: "concat bs = ?costs" "\<forall>b \<in> set bs. sum_list b \<le> ?cap" "length bs = n"
      "sum_list (last bs) = u" "bs \<noteq> []"
    using pack_reached [of "[]" ?cap ?costs 1 n u] small p by auto
  have u: "u \<le> ?cap" using bs last_in_set by blast
  have n: "1 \<le> n" using bs(3,5) by (cases bs) auto
  have least: "n \<le> length cs" if "concat cs = ?costs" "\<forall>b \<in> set cs. sum_list b \<le> ?cap" "?costs \<noteq> []" for cs
    using pack_least [of cs ?cap] that p by (cases cs) auto
  show ?thesis
  proof (cases "sum_list ?costs \<le> ?single")
    case True
    then show ?thesis unfolding Let_def using len out by simp
  next
    case False
    then have "?costs \<noteq> []" by auto
    then show ?thesis unfolding Let_def using len out False packed n u bs least
      by (auto intro!: exI [of _ bs])
  qed
qed

text \<open>
  The boundary table. Without a header the capacities are 160/153 septets, 70/67 code units
  and 140/134 octets; the preview reports the same numbers as the accounting, and a text without
  two-unit characters takes one part up to the single capacity and the quotient by the multipart
  capacity, rounded up, beyond it.
\<close>

theorem previewSegments_table:
  assumes "si_udhData input = None"
  shows "(let p = previewSegments input; a = sb_alphabet p; len = sb_length p
          in (sb_singleCapacity p, sb_multipartCapacity p) = SEGMENT_LIMITS a
             \<and> SEGMENT_LIMITS a = (case a of Gsm7 \<Rightarrow> (160, 153) | Ucs2 \<Rightarrow> (70, 67) | Binary \<Rightarrow> (140, 134))
             \<and> sb_segments p = countSegments input
             \<and> ((\<forall>c \<in> set (characterCosts (coalesce (si_text input) []) a). c = 1) \<longrightarrow>
                  sb_segments p = (if len \<le> fst (SEGMENT_LIMITS a) then 1
                                   else (len + snd (SEGMENT_LIMITS a) - 1) div snd (SEGMENT_LIMITS a))))"
proof -
  let ?r = "describeSegments input"
  let ?a = "sb_alphabet ?r"
  let ?costs = "characterCosts (coalesce (si_text input) []) ?a"
  have none: "udhOctetsOf (si_udhData input) = []" "declaredParts [] = None"
    using assms by (simp_all add: udhOctetsOf_def declaredParts_def)
  have limits: "SEGMENT_LIMITS a = (case a of Gsm7 \<Rightarrow> (160, 153) | Ucs2 \<Rightarrow> (70, 67) | Binary \<Rightarrow> (140, 134))" for a
    by (cases a) (simp_all add: SEGMENT_LIMITS_def capacityFor_def septets_def PAYLOAD_OCTETS_def CONCAT_UDH_OCTETS_def)
  have undeclared: "declaredParts (udhOctetsOf (si_udhData input)) = None" by (simp add: none)
  have alpha: "?a = resolveAlphabet input (coalesce (si_text input) [])"
    by (rule describeSegments_undeclared [OF undeclared])
  have caps: "sb_singleCapacity ?r = fst (SEGMENT_LIMITS ?a)" "sb_multipartCapacity ?r = snd (SEGMENT_LIMITS ?a)"
    "sb_length ?r = sum_list ?costs"
    "sb_segments ?r = (if sum_list ?costs \<le> fst (SEGMENT_LIMITS ?a) then 1 else max 1 (fst (pack ?costs (snd (SEGMENT_LIMITS ?a)))))"
    unfolding alpha
    by (rule describeSegments_undeclared [OF undeclared]; use assms in \<open>simp add: prod_eq_iff\<close>)+
  have pos: "0 < snd (SEGMENT_LIMITS ?a)" unfolding limits by (cases ?a) simp_all
  have ones: "sb_segments ?r = (if sum_list ?costs \<le> fst (SEGMENT_LIMITS ?a) then 1
      else (sum_list ?costs + snd (SEGMENT_LIMITS ?a) - 1) div snd (SEGMENT_LIMITS ?a))"
    if "\<forall>c \<in> set ?costs. c = 1"
  proof -
    let ?n = "length ?costs" and ?m = "snd (SEGMENT_LIMITS ?a)"
    have r: "?costs = replicate ?n 1" using that by (simp add: replicate_length_same)
    have s: "sum_list ?costs = ?n" by (subst r) (simp add: sum_list_replicate)
    show ?thesis
    proof (cases "?n = 0")
      case True
      with s caps(4) show ?thesis by simp
    next
      case False
      have "fst (pack ?costs ?m) = 1 + (?n - 1) div ?m"
        using pack_loop_ones [of ?m 0 ?n 1] False pos r by (simp add: pack_def)
      moreover have "(?n + ?m - 1) div ?m = 1 + (?n - 1) div ?m"
      proof -
        have "?n + ?m - 1 = (?n - 1) + ?m" using False by linarith
        then show ?thesis using pos by (simp only: div_add_self2)
      qed
      ultimately show ?thesis using caps(4) s by simp
    qed
  qed
  have "sb_alphabet (previewSegments input) = ?a" "sb_length (previewSegments input) = sb_length ?r"
    "sb_segments (previewSegments input) = sb_segments ?r" "countSegments input = sb_segments ?r"
    "sb_singleCapacity (previewSegments input) = sb_singleCapacity ?r"
    "sb_multipartCapacity (previewSegments input) = sb_multipartCapacity ?r"
    by (simp_all add: previewSegments_def countSegments_def segment_breakdown.extend_def)
  then show ?thesis
    unfolding Let_def using caps(1-3) ones limits [of ?a] by simp
qed

text \<open>
  Three letters, then three euro signs (two septets each) with a letter between: eleven septets behind a header of 131 octets, which
  leaves four septets in each part of a concatenated message. Three parts would hold twelve.
\<close>

definition sample_segments :: segment_input where
  "sample_segments = \<lparr>si_text = Some [97, 97, 97, 8364, 97, 8364, 97, 8364], si_coding = JNum (Fin 0),
     si_charset = None, si_udhData = Some [56, 50]\<rparr>"

lemma sample_costs: "characterCosts [97, 97, 97, 8364, 97, 8364, 97, 8364] Gsm7 = [1, 1, 1, 2, 1, 2, 1, 2]"
  by (simp add: characterCosts_def is_high_def GSM7_EXTENDED_def)

lemma sample_segments_values:
  "udhOctetsOf (si_udhData sample_segments) = [130]" "declaredParts [130] = None"
  "sb_alphabet (describeSegments sample_segments) = Gsm7"
  "sb_singleCapacity (describeSegments sample_segments) = 10"
  "sb_multipartCapacity (describeSegments sample_segments) = 4"
  "sb_segments (describeSegments sample_segments) = 4"
proof -
  show u: "udhOctetsOf (si_udhData sample_segments) = [130]" and d: "declaredParts [130] = None"
    by (simp_all add: sample_segments_def udhOctetsOf_def trim_units_def is_space_unit_def hex_value_def
        declaredParts_def)
  have a: "resolveAlphabet sample_segments t = Gsm7" for t
    by (simp add: resolveAlphabet_def sample_segments_def absent_def)
  have t: "coalesce (si_text sample_segments) [] = [97, 97, 97, 8364, 97, 8364, 97, 8364]"
    by (simp add: sample_segments_def)
  note v = describeSegments_def u d a t sample_costs Let_def capacityFor_def septets_def PAYLOAD_OCTETS_def
    CONCAT_IE_OCTETS_def CONCAT_UDH_OCTETS_def pack_def
  show "sb_alphabet (describeSegments sample_segments) = Gsm7"
    "sb_singleCapacity (describeSegments sample_segments) = 10"
    "sb_multipartCapacity (describeSegments sample_segments) = 4"
    "sb_segments (describeSegments sample_segments) = 4"
    by (simp_all add: v)
qed

theorem describeSegments_optimal_witness:
  "sb_segments (describeSegments sample_segments) = 4
   \<and> \<not> (\<exists>b1 b2 b3. b1 @ b2 @ b3 = characterCosts [97, 97, 97, 8364, 97, 8364, 97, 8364] Gsm7
        \<and> sum_list b1 \<le> 4 \<and> sum_list b2 \<le> 4 \<and> sum_list b3 \<le> 4)"
proof -
  have hyps: "declaredParts (udhOctetsOf (si_udhData sample_segments)) = None"
    "2 \<le> sb_multipartCapacity (describeSegments sample_segments)"
    by (simp_all add: sample_segments_values)
  let ?t = "[97, 97, 97, 8364, 97, 8364, 97, 8364] :: nat list"
  have t: "coalesce (si_text sample_segments) [] = ?t" by (simp add: sample_segments_def)
  have costs: "sum_list (characterCosts ?t Gsm7) = 11" by (simp add: sample_costs)
  have "\<forall>bs. concat bs = characterCosts ?t Gsm7 \<and> (\<forall>b \<in> set bs. sum_list b \<le> 4) \<longrightarrow> 4 \<le> length bs"
    using describeSegments_optimal [OF hyps] unfolding Let_def t sample_segments_values costs by simp
  then have "\<not> (b1 @ b2 @ b3 = characterCosts ?t Gsm7 \<and> sum_list b1 \<le> 4 \<and> sum_list b2 \<le> 4 \<and> sum_list b3 \<le> 4)" for b1 b2 b3
    by (auto dest!: spec [of _ "[b1, b2, b3]"])
  then show ?thesis using sample_segments_values by blast
qed

definition sample_binary :: segment_input where
  "sample_binary = \<lparr>si_text = Some (replicate 141 65), si_coding = JNum (Fin 1), si_charset = None, si_udhData = None\<rparr>"

theorem previewSegments_table_witness:
  "sb_segments (previewSegments sample_binary) = 2 \<and> sb_multipartCapacity (previewSegments sample_binary) = 134"
proof -
  have none: "declaredParts (udhOctetsOf None) = None" by (simp add: declaredParts_def udhOctetsOf_def)
  have r: "resolveAlphabet sample_binary t = Binary" for t
    by (simp add: resolveAlphabet_def sample_binary_def absent_def)
  have c: "characterCosts (coalesce (si_text sample_binary) []) Binary = replicate 141 1"
    by (simp add: characterCosts_def sample_binary_def)
  have i: "si_udhData sample_binary = None" by (simp add: sample_binary_def)
  have al: "sb_alphabet (previewSegments sample_binary) = Binary"
    "sb_length (previewSegments sample_binary) = 141"
    by (simp_all add: previewSegments_def segment_breakdown.extend_def describeSegments_def i none r c
        sum_list_replicate Let_def split: prod.split)
  from previewSegments_table [OF i] show ?thesis
    unfolding Let_def al c by (elim conjE) simp
qed

subsection \<open>Declared part counts\<close>

text \<open>A header as a list of information elements, and its octets.\<close>

type_synonym info_element = "nat \<times> nat list"

definition element_octets :: "info_element list \<Rightarrow> nat list" where
  "element_octets ies = concat (map (\<lambda>(iei, body). iei # length body # body) ies)"

definition udh_octets :: "info_element list \<Rightarrow> nat list" where
  "udh_octets ies = length (element_octets ies) # element_octets ies"

definition element_wf :: "info_element \<Rightarrow> bool" where
  "element_wf e \<longleftrightarrow> fst e < 256 \<and> length (snd e) < 256 \<and> (\<forall>b \<in> set (snd e). b < 256)"

text \<open>The total of the first concatenation element: 8-bit or 16-bit reference, total not zero.\<close>

definition element_total :: "info_element \<Rightarrow> nat option" where
  "element_total e =
     (case e of
        (iei, body) \<Rightarrow>
          if iei = 0 \<and> length body \<ge> 2 \<and> body ! 1 > 0 then Some (body ! 1)
          else if iei = 8 \<and> length body \<ge> 3 \<and> body ! 2 > 0 then Some (body ! 2)
          else None)"

fun first_total :: "info_element list \<Rightarrow> nat option" where
  "first_total [] = None"
| "first_total (e # es) = (case element_total e of Some n \<Rightarrow> Some n | None \<Rightarrow> first_total es)"

lemma element_octets_Cons:
  "element_octets ((iei, body) # es) = iei # length body # body @ element_octets es"
  by (simp add: element_octets_def)

lemma declared_loop_elements:
  "end_at = length pre + length (element_octets ies) \<Longrightarrow>
     declared_loop (pre @ element_octets ies @ tail) end_at (length pre) = first_total ies"
proof (induction ies arbitrary: pre)
  case Nil
  then show ?case by (subst declared_loop.simps) (simp add: element_octets_def)
next
  case (Cons e ies)
  obtain iei body where e: "e = (iei, body)" by (cases e)
  let ?o = "pre @ element_octets (e # ies) @ tail"
  let ?pre = "pre @ iei # length body # body"
  have o: "?o = pre @ iei # length body # body @ element_octets ies @ tail"
    by (simp add: e element_octets_Cons)
  have at: "?o ! length pre = iei" "?o ! (length pre + 1) = length body"
    "take (length body) (drop (length pre + 2) ?o) = body"
    unfolding o by (simp_all add: nth_append)
  have rest: "declared_loop ?o end_at (length pre + 2 + length body) = first_total ies"
    using Cons.IH [of ?pre] Cons.prems by (simp add: e element_octets_Cons)
  have lt: "length pre + 1 < end_at" using Cons.prems by (simp add: e element_octets_Cons)
  show ?case
    by (subst declared_loop.simps)
      (simp only: at rest lt Let_def if_True, simp add: e element_total_def)
qed

definition hex_digit :: "nat \<Rightarrow> nat" where
  "hex_digit n = (if n < 10 then 48 + n else 87 + n)"

definition hex_text :: "nat list \<Rightarrow> units" where
  "hex_text octets = concat (map (\<lambda>o'. [hex_digit (o' div 16), hex_digit (o' mod 16)]) octets)"

lemma hex_digit_value [simp]: "n < 16 \<Longrightarrow> hex_value (hex_digit n) = Some n"
  by (simp add: hex_digit_def hex_value_def)

lemma hex_not_space: "hex_value u \<noteq> None \<Longrightarrow> \<not> is_space_unit u"
  by (auto simp: hex_value_def is_space_unit_def split: if_splits)

lemma hex_text_digits: "\<forall>b \<in> set octets. b < 256 \<Longrightarrow> u \<in> set (hex_text octets) \<Longrightarrow> hex_value u \<noteq> None"
  by (auto simp: hex_text_def less_mult_imp_div_less)

lemma hex_pairs_text: "\<forall>b \<in> set octets. b < 256 \<Longrightarrow> hex_pairs (hex_text octets) = octets"
  by (induction octets) (simp_all add: hex_text_def less_mult_imp_div_less)

lemma udhOctetsOf_hex:
  assumes "\<forall>b \<in> set octets. b < 256"
  shows "udhOctetsOf (Some (hex_text octets)) = octets"
proof -
  have "trim_units (hex_text octets) = hex_text octets"
    using hex_text_digits [OF assms] hex_not_space unfolding trim_units_def
    by (subst dropWhile_none) (auto simp: dropWhile_none)
  moreover have "length (hex_text octets) mod 2 = 0"
    by (induction octets) (auto simp: hex_text_def)
  moreover have "hex_text octets = [] \<longleftrightarrow> octets = []" by (cases octets) (simp_all add: hex_text_def)
  ultimately show ?thesis
    using hex_text_digits [OF assms] hex_pairs_text [OF assms]
    by (auto simp: udhOctetsOf_def list_all_iff Let_def)
qed

text \<open>
  The engine's declaration is read back verbatim: for any header made of information elements,
  written as hexadecimal text and followed by any octets, the part count reported is the total of
  its first concatenation element (8-bit or 16-bit reference) that declares one; without such an
  element the count is not taken from the header.
\<close>

theorem describeSegments_declared:
  assumes "\<forall>e \<in> set ies. element_wf e" and "length (element_octets ies) < 256" and "\<forall>b \<in> set tail. b < 256"
    and "si_udhData input = Some (hex_text (udh_octets ies @ tail))"
  shows "(case first_total ies of
            Some n \<Rightarrow> sb_declaredByUdh (describeSegments input) \<and> sb_segments (describeSegments input) = n
          | None \<Rightarrow> \<not> sb_declaredByUdh (describeSegments input))"
proof -
  have bytes: "\<forall>b \<in> set (udh_octets ies @ tail). b < 256"
    using assms(1-3) by (auto simp: udh_octets_def element_octets_def element_wf_def)
  let ?o = "udh_octets ies @ tail" and ?n = "length (element_octets ies)"
  have "declared_loop ?o (min (hd ?o + 1) (length ?o)) 1 = first_total ies"
    using declared_loop_elements [of "?n + 1" "[?n]" ies tail] by (simp add: udh_octets_def)
  moreover have "first_total ies = None" if "length ?o < 2"
    using that by (cases ies) (auto simp: udh_octets_def element_octets_def)
  ultimately have d: "declaredParts (udhOctetsOf (si_udhData input)) = first_total ies"
    unfolding assms(4) udhOctetsOf_hex [OF bytes] declaredParts_def by simp
  have pos: "0 < n" if "first_total es = Some n" for es n
    using that by (induction es) (auto simp: element_total_def split: option.splits if_splits prod.splits)
  show ?thesis
  proof (cases "first_total ies")
    case (Some n)
    with pos have "max 1 n = n" by fastforce
    with d Some show ?thesis by (simp add: describeSegments_def Let_def)
  next
    case None
    with d show ?thesis by (simp add: describeSegments_def Let_def split: prod.split)
  qed
qed

text \<open>A port-addressing element, then a 16-bit concatenation element: part 1 of 3.\<close>

definition sample_header :: "info_element list" where
  "sample_header = [(5, [0, 80, 0, 80]), (8, [1, 44, 3, 1])]"

theorem describeSegments_declared_witness:
  "sb_segments (describeSegments \<lparr>si_text = None, si_coding = JNull, si_charset = None,
     si_udhData = Some (hex_text (udh_octets sample_header @ []))\<rparr>) = 3"
proof -
  let ?i = "\<lparr>si_text = None, si_coding = JNull, si_charset = None,
     si_udhData = Some (hex_text (udh_octets sample_header @ []))\<rparr>"
  have wf: "\<forall>e \<in> set sample_header. element_wf e" "length (element_octets sample_header) < 256"
    "\<forall>b \<in> set ([] :: nat list). b < 256"
    by (simp_all add: sample_header_def element_wf_def element_octets_def)
  have "first_total sample_header = Some 3"
    by (simp add: sample_header_def element_total_def)
  moreover have "si_udhData ?i = Some (hex_text (udh_octets sample_header @ []))" by simp
  ultimately show ?thesis
    using describeSegments_declared [OF wf, of ?i] by (simp only: option.case)
qed

end
