(* ===== verification/MessageFilters.thy ===== *)
theory MessageFilters
  imports JsValue
begin

section \<open>Message filters and instants: messaging-depth/message-filters.ts\<close>

text \<open>
  The strict ISO 8601 parser every date parameter goes through, the filter set of the message
  grid and its exports, and, from engine/kamex-sqlbox.repository.ts, the status vocabulary and
  the sort expression they are checked against. \<open>showNum\<close> renders a number as the language does.

  \<open>Date.parse\<close> is modelled on the texts the pattern lets through, in whole seconds (the code
  floors to seconds): a month outside 1 to 12, a day outside 1 to 31, a minute or second above 59,
  an hour above 24 (24 only as 24:00:00) or an offset outside 23:59 gives NaN, and a day past the
  end of its month rolls over. The UTC calendar is the proleptic Gregorian one.
\<close>

subsection \<open>The calendar\<close>

definition day_from_year :: "int \<Rightarrow> int" where
  "day_from_year y =
     365 * (y - 1970) + (y - 1969) div 4 - (y - 1901) div 100 + (y - 1601) div 400"

definition leap :: "int \<Rightarrow> bool" where
  "leap y \<longleftrightarrow> y mod 4 = 0 \<and> (y mod 100 \<noteq> 0 \<or> y mod 400 = 0)"

definition month_lengths :: "int \<Rightarrow> int list" where
  "month_lengths y = [31, if leap y then 29 else 28, 31, 30, 31, 30, 31, 31, 30, 31, 30, 31]"

text \<open>The day number of a date, month and day counted from 1; a day past the end rolls over.\<close>

definition day_number :: "int \<Rightarrow> nat \<Rightarrow> int \<Rightarrow> int" where
  "day_number y m d = day_from_year y + sum_list (take (m - 1) (month_lengths y)) + (d - 1)"

text \<open>The largest year that starts no later: the estimate from the mean year is off by at most one.\<close>

definition year_of_day :: "int \<Rightarrow> int" where
  "year_of_day n =
     (let y = 1970 + (n * 400) div 146097
      in if day_from_year (y + 1) \<le> n then y + 1 else if n < day_from_year y then y - 1 else y)"

fun month_walk :: "int list \<Rightarrow> int \<Rightarrow> nat \<Rightarrow> nat \<times> int" where
  "month_walk [] r m = (m, r + 1)"
| "month_walk (l # ls) r m = (if r < l then (m, r + 1) else month_walk ls (r - l) (m + 1))"

definition date_of_day :: "int \<Rightarrow> int \<times> nat \<times> int" where
  "date_of_day n =
     (let y = year_of_day n; (m, d) = month_walk (month_lengths y) (n - day_from_year y) 1
      in (y, m, d))"

subsection \<open>The pattern\<close>

record iso_time =
  it_hour :: nat
  it_minute :: nat
  it_second :: nat
  it_fraction :: nat
  it_offset :: "(bool \<times> nat \<times> nat) option"

text \<open>The offset is (negative, hours, minutes); \<open>None\<close> for \<open>Z\<close> and for no zone, which is pinned to UTC.\<close>

record iso_value =
  iv_year :: nat
  iv_month :: nat
  iv_day :: nat
  iv_time :: "iso_time option"

definition take_digits :: "nat \<Rightarrow> string \<Rightarrow> (nat \<times> string) option" where
  "take_digits n s =
     (if length s \<ge> n \<and> list_all is_digit (take n s) then Some (decimal_value (take n s), drop n s) else None)"

definition take_char :: "char \<Rightarrow> string \<Rightarrow> string option" where
  "take_char c s = (case s of x # t \<Rightarrow> if x = c then Some t else None | [] \<Rightarrow> None)"

text \<open>\<open>(Z|[+-]\<backslash>d{2}:?\<backslash>d{2})?$\<close>.\<close>

definition iso_zone :: "string \<Rightarrow> (bool \<times> nat \<times> nat) option option" where
  "iso_zone s =
     (if s = [] \<or> s = ''Z'' then Some None
      else case s of
        c # t \<Rightarrow>
          if c = CHR ''+'' \<or> c = CHR ''-'' then
            (case take_digits 2 t of
               None \<Rightarrow> None
             | Some (h, u) \<Rightarrow>
                 (case take_digits 2 (if prefix '':'' u then drop 1 u else u) of
                    Some (mi, []) \<Rightarrow> Some (Some (c = CHR ''-'', h, mi))
                  | _ \<Rightarrow> None))
          else None
      | [] \<Rightarrow> None)"

text \<open>\<open>(?::(\<backslash>d{2})(?:\<backslash>.(\<backslash>d{1,6}))?)?\<close>: seconds, the fraction in millionths, and the rest.\<close>

definition iso_seconds :: "string \<Rightarrow> nat \<times> nat \<times> string" where
  "iso_seconds s =
     (case Option.bind (take_char (CHR '':'') s) (take_digits 2) of
        None \<Rightarrow> (0, 0, s)
      | Some (sec, t) \<Rightarrow>
          (case take_char (CHR ''.'') t of
             None \<Rightarrow> (sec, 0, t)
           | Some u \<Rightarrow>
               let f = take 6 (takeWhile is_digit u)
               in if f = [] then (sec, 0, t)
                  else (sec, decimal_value f * 10 ^ (6 - length f), drop (length f) u)))"

definition iso_time_of :: "string \<Rightarrow> iso_time option" where
  "iso_time_of s =
     (case take_digits 2 s of
        None \<Rightarrow> None
      | Some (h, t) \<Rightarrow>
          (case Option.bind (take_char (CHR '':'') t) (take_digits 2) of
             None \<Rightarrow> None
           | Some (mi, u) \<Rightarrow>
               let (sec, fr, v) = iso_seconds u
               in map_option (\<lambda>z. \<lparr>it_hour = h, it_minute = mi, it_second = sec, it_fraction = fr,
                                    it_offset = z\<rparr>) (iso_zone v)))"

definition parse_iso :: "string \<Rightarrow> iso_value option" where
  "parse_iso s =
     (case take_digits 4 s of
        None \<Rightarrow> None
      | Some (y, t) \<Rightarrow>
          (case Option.bind (take_char (CHR ''-'') t) (take_digits 2) of
             None \<Rightarrow> None
           | Some (m, u) \<Rightarrow>
               (case Option.bind (take_char (CHR ''-'') u) (take_digits 2) of
                  None \<Rightarrow> None
                | Some (d, v) \<Rightarrow>
                    let out = (\<lambda>t. \<lparr>iv_year = y, iv_month = m, iv_day = d, iv_time = t\<rparr>)
                    in (case v of
                          [] \<Rightarrow> Some (out None)
                        | c # w \<Rightarrow>
                            if c = CHR ''T'' \<or> c = CHR '' '' then map_option (\<lambda>t. out (Some t)) (iso_time_of w)
                            else None))))"

subsection \<open>Date.parse and parseInstant\<close>

definition time_ok :: "iso_time \<Rightarrow> bool" where
  "time_ok t \<longleftrightarrow>
     (it_hour t \<le> 23 \<or> it_hour t = 24 \<and> it_minute t = 0 \<and> it_second t = 0 \<and> it_fraction t = 0)
     \<and> it_minute t \<le> 59 \<and> it_second t \<le> 59
     \<and> (case it_offset t of None \<Rightarrow> True | Some (neg, h, mi) \<Rightarrow> h \<le> 23 \<and> mi \<le> 59)"

definition time_seconds :: "iso_time \<Rightarrow> int" where
  "time_seconds t =
     int (it_hour t) * 3600 + int (it_minute t) * 60 + int (it_second t)
     - (case it_offset t of
          None \<Rightarrow> 0
        | Some (neg, h, mi) \<Rightarrow> (if neg then -1 else 1) * (int h * 3600 + int mi * 60))"

definition date_parse :: "iso_value \<Rightarrow> int option" where
  "date_parse v =
     (if 1 \<le> iv_month v \<and> iv_month v \<le> 12 \<and> 1 \<le> iv_day v \<and> iv_day v \<le> 31
         \<and> (case iv_time v of None \<Rightarrow> True | Some t \<Rightarrow> time_ok t)
      then Some (86400 * day_number (int (iv_year v)) (iv_month v) (int (iv_day v))
                 + (case iv_time v of None \<Rightarrow> 0 | Some t \<Rightarrow> time_seconds t))
      else None)"

datatype filter_error =
    NotIsoString
  | NotIso string
  | NotRealDateTime string
  | NotRealCalendarDate string
  | FromAfterTo
  | BadDirection string
  | BadInteger string int int
  | UnsupportedStatus "string list"
  | UnsupportedSort string

definition present :: "(jsnum \<Rightarrow> string) \<Rightarrow> jsval \<Rightarrow> bool" where
  "present showNum v \<longleftrightarrow> \<not> absent v \<and> trim (toString showNum v) \<noteq> []"

definition parseInstant :: "(jsnum \<Rightarrow> string) \<Rightarrow> jsval \<Rightarrow> (filter_error, int option) result" where
  "parseInstant showNum v =
     (if \<not> present showNum v then Inr None
      else case v of
        JStr s \<Rightarrow>
          (let raw = trim s
           in case parse_iso raw of
                None \<Rightarrow> Inl (NotIso raw)
              | Some stamp \<Rightarrow>
                  (case date_parse stamp of
                     None \<Rightarrow> Inl (NotRealDateTime raw)
                   | Some parsed \<Rightarrow>
                       if date_of_day (parsed div 86400) \<noteq> (int (iv_year stamp), iv_month stamp, int (iv_day stamp))
                       then Inl (NotRealCalendarDate raw)
                       else Inr (Some parsed)))
      | _ \<Rightarrow> Inl NotIsoString)"

subsection \<open>Status and sort vocabulary of the repository\<close>

definition DELIVERY_STATUSES :: "string list" where
  "DELIVERY_STATUSES =
     [''delivered'', ''failed'', ''rejected'', ''buffered'', ''accepted'', ''pending'', ''unknown'']"

definition DELIVERY_STATUS_GROUPS :: "(string \<times> string list) list" where
  "DELIVERY_STATUS_GROUPS =
     [(''resendable'', [''failed'', ''rejected'']), (''failures'', [''failed'', ''rejected'']),
      (''in-flight'', [''pending'', ''buffered'']), (''in_flight'', [''pending'', ''buffered'']),
      (''inflight'', [''pending'', ''buffered''])]"

definition LEGACY_STATUS_TOKENS :: "string list" where
  "LEGACY_STATUS_TOKENS = [''sent'', ''dlr'', ''delivery_report'']"

text \<open>The names every object literal inherits, which both \<open>in\<close> and an index lookup see.\<close>

definition object_prototype :: "string list" where
  "object_prototype =
     [''constructor'', ''__defineGetter__'', ''__defineSetter__'', ''hasOwnProperty'', ''__lookupGetter__'',
      ''__lookupSetter__'', ''isPrototypeOf'', ''propertyIsEnumerable'', ''toString'', ''valueOf'',
      ''__proto__'', ''toLocaleString'']"

definition isKnownStatusToken :: "string \<Rightarrow> bool" where
  "isKnownStatusToken token \<longleftrightarrow>
     (let v = lower (trim token)
      in v \<in> set LEGACY_STATUS_TOKENS \<or> v \<in> set (map fst DELIVERY_STATUS_GROUPS)
         \<or> v \<in> set object_prototype \<or> v \<in> set DELIVERY_STATUSES)"

definition statusTokens :: "string \<Rightarrow> string list" where
  "statusTokens v = filter (\<lambda>t. t \<noteq> []) (map (\<lambda>t. lower (trim t)) (split_on (CHR '','') v))"

text \<open>\<open>Inl ()\<close> is the TypeError of calling \<open>forEach\<close> on an inherited member.\<close>

fun resolve_loop :: "string list \<Rightarrow> string list \<Rightarrow> (unit, string list) result" where
  "resolve_loop [] resolved = Inr resolved"
| "resolve_loop (t # ts) resolved =
     (if t \<in> set LEGACY_STATUS_TOKENS then resolve_loop ts resolved
      else case map_of DELIVERY_STATUS_GROUPS t of
             Some members \<Rightarrow> resolve_loop ts (resolved @ filter (\<lambda>s. s \<notin> set resolved) members)
           | None \<Rightarrow>
               if t \<in> set object_prototype then Inl ()
               else if t \<in> set DELIVERY_STATUSES
               then resolve_loop ts (if t \<in> set resolved then resolved else resolved @ [t])
               else resolve_loop ts resolved)"

definition resolveDeliveryStatuses :: "string \<Rightarrow> (unit, string list option) result" where
  "resolveDeliveryStatuses v =
     bind_result (resolve_loop (statusTokens v) []) (\<lambda>r. Inr (if r = [] then None else Some r))"

definition SQLBOX_SORT_COLUMNS :: "string list" where
  "SQLBOX_SORT_COLUMNS =
     [''time'', ''timestamp'', ''sql_id'', ''id'', ''sender'', ''receiver'', ''smscId'', ''direction'',
      ''deliveryStatus'', ''externalRef'']"

text \<open>The tokens of a comma-separated text or of an array.\<close>

definition expression_tokens :: "(jsnum \<Rightarrow> string) \<Rightarrow> jsval \<Rightarrow> string list" where
  "expression_tokens showNum v =
     filter (\<lambda>t. t \<noteq> []) (map trim
       (case v of JArr xs \<Rightarrow> map (toString showNum) xs | _ \<Rightarrow> split_on (CHR '','') (toString showNum v)))"

fun sort_terms :: "string list \<Rightarrow> (filter_error, (string \<times> bool) list) result" where
  "sort_terms [] = Inr []"
| "sort_terms (t # ts) =
     (let desc = prefix ''-'' t; field = (if prefix ''-'' t \<or> prefix ''+'' t then drop 1 t else t)
      in if field \<notin> set SQLBOX_SORT_COLUMNS \<and> field \<notin> set object_prototype then Inl (UnsupportedSort field)
         else bind_result (sort_terms ts) (\<lambda>r. Inr ((field, desc) # r)))"

definition parseSqlboxSort ::
    "(jsnum \<Rightarrow> string) \<Rightarrow> jsval \<Rightarrow> (filter_error, (string \<times> bool) list) result" where
  "parseSqlboxSort showNum v =
     (if \<not> present showNum v then Inr [] else sort_terms (expression_tokens showNum v))"

definition sortExpression :: "(jsnum \<Rightarrow> string) \<Rightarrow> jsval \<Rightarrow> (filter_error, string) result" where
  "sortExpression showNum v =
     bind_result (parseSqlboxSort showNum v)
       (\<lambda>terms. Inr (join '','' (map (\<lambda>(field, desc). (if desc then ''-'' else []) @ field) terms)))"

subsection \<open>The filter set\<close>

definition parseBoundedInt ::
    "(jsnum \<Rightarrow> string) \<Rightarrow> jsval \<Rightarrow> string \<Rightarrow> int \<Rightarrow> int \<Rightarrow> int \<Rightarrow> (filter_error, int) result" where
  "parseBoundedInt showNum v name lo hi fallback =
     (if \<not> present showNum v then Inr fallback
      else case bounded_integer v lo hi of None \<Rightarrow> Inl (BadInteger name lo hi) | Some i \<Rightarrow> Inr i)"

definition parseStatusExpression ::
    "(jsnum \<Rightarrow> string) \<Rightarrow> jsval \<Rightarrow> (filter_error, string option) result" where
  "parseStatusExpression showNum v =
     (if \<not> present showNum v then Inr None
      else
        let tokens = expression_tokens showNum v;
            unsupported = filter (\<lambda>t. \<not> isKnownStatusToken t) tokens
        in if tokens = [] then Inr None
           else if unsupported \<noteq> [] then Inl (UnsupportedStatus unsupported)
           else Inr (Some (join '','' tokens)))"

definition to_upper :: "char \<Rightarrow> char" where
  "to_upper c = (let n = char_code c in if 97 \<le> n \<and> n \<le> 122 then char_of (n - 32) else c)"

record message_filters =
  mf_limit :: int
  mf_cursor :: "int option"
  mf_query :: "string option"
  mf_status :: "string option"
  mf_deliveryStatus :: "string option"
  mf_smscId :: "string option"
  mf_direction :: "string option"
  mf_fromEpoch :: "int option"
  mf_toEpoch :: "int option"
  mf_sort :: "string option"
  mf_offset :: "int option"

definition text_filter :: "(jsnum \<Rightarrow> string) \<Rightarrow> jsval \<Rightarrow> string option" where
  "text_filter showNum v = (if present showNum v then Some (trim (toString showNum v)) else None)"

definition optional_filter ::
    "(jsnum \<Rightarrow> string) \<Rightarrow> jsval \<Rightarrow> (filter_error, 'a) result \<Rightarrow> (filter_error, 'a option) result" where
  "optional_filter showNum v r =
     (if present showNum v then bind_result r (\<lambda>a. Inr (Some a)) else Inr None)"

definition parse_direction :: "(jsnum \<Rightarrow> string) \<Rightarrow> jsval \<Rightarrow> (filter_error, string option) result" where
  "parse_direction showNum v =
     (if \<not> present showNum v then Inr None
      else let candidate = map to_upper (trim (toString showNum v))
           in if candidate \<notin> {''MO'', ''MT'', ''DLR''} then Inl (BadDirection candidate)
              else Inr (Some candidate))"

definition parseMessageFilters ::
    "(jsnum \<Rightarrow> string) \<Rightarrow> int \<Rightarrow> int \<Rightarrow> (string \<Rightarrow> jsval) \<Rightarrow> (filter_error, message_filters) result" where
  "parseMessageFilters showNum defaultLimit maxLimit q =
     bind_result (parseInstant showNum (q ''from'')) (\<lambda>fromEpoch.
     bind_result (parseInstant showNum (q ''to'')) (\<lambda>toEpoch.
     if fromEpoch \<noteq> None \<and> toEpoch \<noteq> None \<and> the fromEpoch > the toEpoch then Inl FromAfterTo
     else
       bind_result (parse_direction showNum (q ''direction'')) (\<lambda>direction.
       bind_result (parseBoundedInt showNum (q ''limit'') ''limit'' 1 maxLimit defaultLimit) (\<lambda>limit.
       bind_result (optional_filter showNum (q ''cursor'')
         (parseBoundedInt showNum (q ''cursor'') ''cursor'' 1 9007199254740991 0)) (\<lambda>cursor.
       bind_result (parseStatusExpression showNum (q ''status'')) (\<lambda>status.
       bind_result (parseStatusExpression showNum (q ''deliveryStatus'')) (\<lambda>deliveryStatus.
       bind_result (optional_filter showNum (q ''sort'') (sortExpression showNum (q ''sort''))) (\<lambda>sorting.
       bind_result (optional_filter showNum (q ''offset'')
         (parseBoundedInt showNum (q ''offset'') ''offset'' 0 5000000 0)) (\<lambda>offset.
       Inr \<lparr>mf_limit = limit, mf_cursor = cursor, mf_query = text_filter showNum (q ''query''),
            mf_status = status, mf_deliveryStatus = deliveryStatus,
            mf_smscId = text_filter showNum (q ''smscId''), mf_direction = direction,
            mf_fromEpoch = fromEpoch, mf_toEpoch = toEpoch, mf_sort = sorting, mf_offset = offset\<rparr>)))))))))"

subsection \<open>The calendar is a calendar\<close>

definition valid_date :: "int \<Rightarrow> nat \<Rightarrow> int \<Rightarrow> bool" where
  "valid_date y m d \<longleftrightarrow> 1 \<le> m \<and> m \<le> 12 \<and> 1 \<le> d \<and> d \<le> month_lengths y ! (m - 1)"

lemma div_Suc_int:
  fixes x k c j :: int
  assumes k: "0 < k" and c: "c - 1 = k * j"
  shows "(x + 1 - c) div k = (x - c) div k + (if x mod k = 0 then 1 else 0)"
proof -
  define q r where "q = x div k" and "r = x mod k"
  have e: "x = k * q + r" unfolding q_def r_def by (rule mult_div_mod_eq [symmetric])
  have r: "0 \<le> r" "r < k" unfolding r_def using k by simp_all
  have c': "c = k * j + 1" using c by simp
  have "(x + 1 - c) div k = q - j"
    by (rule int_div_pos_eq [where r = r]) (use r in \<open>simp_all add: e c' right_diff_distrib\<close>)
  moreover have "(x - c) div k = q - j - 1" if "r = 0"
    by (rule int_div_pos_eq [where r = "k - 1"]) (use k that in \<open>simp_all add: e c' right_diff_distrib\<close>)
  moreover have "(x - c) div k = q - j" if "r \<noteq> 0"
    by (rule int_div_pos_eq [where r = "r - 1"]) (use r that in \<open>simp_all add: e c' right_diff_distrib\<close>)
  ultimately show ?thesis by (simp add: r_def)
qed

lemma day_from_year_Suc: "day_from_year (y + 1) = day_from_year y + (if leap y then 366 else 365)"
proof -
  define a b c where "a = (y - 1969) div 4" and "b = (y - 1901) div 100" and "c = (y - 1601) div 400"
  define p q r where "p = (y mod 4 = 0)" and "q = (y mod 100 = 0)" and "r = (y mod 400 = 0)"
  have s: "(y + 1 - 1969) div 4 = a + (if p then 1 else 0)"
    "(y + 1 - 1901) div 100 = b + (if q then 1 else 0)"
    "(y + 1 - 1601) div 400 = c + (if r then 1 else 0)"
    unfolding a_def b_def c_def p_def q_def r_def
    by (rule div_Suc_int [where j = 492], simp, simp, rule div_Suc_int [where j = 19], simp, simp,
        rule div_Suc_int [where j = 4], simp, simp)
  have "y mod 400 mod 100 = y mod 100" "y mod 100 mod 4 = y mod 4" by (rule mod_mod_cancel; simp)+
  then have i: "r \<longrightarrow> q" "q \<longrightarrow> p" unfolding p_def q_def r_def by (intro impI; simp)+
  have "day_from_year (y + 1) =
      365 * (y + 1 - 1970) + (a + (if p then 1 else 0)) - (b + (if q then 1 else 0)) + (c + (if r then 1 else 0))"
    unfolding day_from_year_def s ..
  moreover have "day_from_year y = 365 * (y - 1970) + a - b + c"
    unfolding day_from_year_def a_def b_def c_def ..
  moreover have "leap y \<longleftrightarrow> p \<and> (\<not> q \<or> r)" unfolding leap_def p_def q_def r_def ..
  ultimately show ?thesis using i by (cases p; cases q; cases r; simp)
qed

lemma floor_mult_bounds: "0 < k \<Longrightarrow> k * (x div k) \<le> x" "0 < k \<Longrightarrow> x < k * (x div k) + k" for x k :: int
proof -
  have e: "x = k * (x div k) + x mod k" by (rule mult_div_mod_eq [symmetric])
  define p where "p = k * (x div k)"
  assume "0 < k"
  then have "0 \<le> x mod k" "x mod k < k" by simp_all
  with e show "k * (x div k) \<le> x" "x < k * (x div k) + k" unfolding p_def [symmetric] by linarith+
qed

lemma day_from_year_bounds:
  "146097 * (y - 1970) - 506 \<le> 400 * day_from_year y" "400 * day_from_year y \<le> 146097 * (y - 1970) + 589"
proof -
  define a b c where "a = (y - 1969) div 4" and "b = (y - 1901) div 100" and "c = (y - 1601) div 400"
  have "4 * a \<le> y - 1969" "y - 1969 < 4 * a + 4" "100 * b \<le> y - 1901" "y - 1901 < 100 * b + 100"
    "400 * c \<le> y - 1601" "y - 1601 < 400 * c + 400"
    unfolding a_def b_def c_def by (rule floor_mult_bounds; simp)+
  moreover have "day_from_year y = 365 * (y - 1970) + a - b + c"
    unfolding day_from_year_def a_def b_def c_def ..
  ultimately show "146097 * (y - 1970) - 506 \<le> 400 * day_from_year y"
    and "400 * day_from_year y \<le> 146097 * (y - 1970) + 589" by (simp_all add: algebra_simps)
qed

lemma year_of_day_bounds: "day_from_year (year_of_day n) \<le> n" "n < day_from_year (year_of_day n + 1)"
proof -
  define k y where "k = (n * 400) div 146097" and "y = 1970 + k"
  have "146097 * k \<le> n * 400" "n * 400 < 146097 * k + 146097"
    unfolding k_def by (rule floor_mult_bounds; simp)+
  then have "day_from_year (y - 1) \<le> n" "n < day_from_year (y + 2)"
    using day_from_year_bounds(2) [of "y - 1"] day_from_year_bounds(1) [of "y + 2"]
    by (simp_all add: y_def)
  moreover have "year_of_day n =
      (if day_from_year (y + 1) \<le> n then y + 1 else if n < day_from_year y then y - 1 else y)"
    unfolding year_of_day_def y_def k_def Let_def ..
  ultimately show "day_from_year (year_of_day n) \<le> n" "n < day_from_year (year_of_day n + 1)"
    by (simp_all add: add.assoc)
qed

lemma day_from_year_mono: "a < b \<Longrightarrow> day_from_year a < day_from_year b"
proof (induction b rule: int_gr_induct)
  case base
  then show ?case using day_from_year_Suc [of a] by (auto split: if_splits)
next
  case (step i)
  then show ?case using day_from_year_Suc [of i] by (auto split: if_splits)
qed

lemma year_of_day_unique:
  assumes "day_from_year y \<le> n" "n < day_from_year (y + 1)"
  shows "year_of_day n = y"
proof (rule ccontr)
  note b = year_of_day_bounds [of n]
  assume "year_of_day n \<noteq> y"
  then consider "year_of_day n + 1 \<le> y" | "y + 1 \<le> year_of_day n" by linarith
  then show False
  proof cases
    case 1
    then have "day_from_year (year_of_day n + 1) \<le> day_from_year y"
      using day_from_year_mono [of "year_of_day n + 1" y] by (cases "year_of_day n + 1 = y") auto
    with b assms show False by linarith
  next
    case 2
    then have "day_from_year (y + 1) \<le> day_from_year (year_of_day n)"
      using day_from_year_mono [of "y + 1" "year_of_day n"] by (cases "y + 1 = year_of_day n") auto
    with b assms show False by linarith
  qed
qed

lemma month_walk_take:
  "k < length ls \<Longrightarrow> \<forall>l \<in> set ls. 0 \<le> l \<Longrightarrow> 0 \<le> r \<Longrightarrow> r < ls ! k \<Longrightarrow>
     month_walk ls (sum_list (take k ls) + r) m = (m + k, r + 1)"
proof (induction ls arbitrary: k m)
  case (Cons l ls)
  show ?case
  proof (cases k)
    case (Suc j)
    have "0 \<le> sum_list (take j ls)" using Cons.prems(2) by (intro sum_list_nonneg) (auto dest: in_set_takeD)
    then have "\<not> l + sum_list (take j ls) + r < l" using Cons.prems by simp
    moreover have "month_walk ls (sum_list (take j ls) + r) (m + 1) = (m + 1 + j, r + 1)"
      using Cons.IH [of j "m + 1"] Cons.prems Suc by simp
    ultimately show ?thesis using Suc by simp
  qed (use Cons.prems in simp)
qed simp

lemma month_walk_found:
  "0 \<le> r \<Longrightarrow> r < sum_list ls \<Longrightarrow> \<exists>k < length ls. \<exists>q. 0 \<le> q \<and> q < ls ! k \<and> r = sum_list (take k ls) + q"
  for ls :: "int list"
proof (induction ls arbitrary: r)
  case (Cons l ls)
  show ?case
  proof (cases "r < l")
    case True
    with Cons.prems show ?thesis by (intro exI [of _ 0]) auto
  next
    case False
    then obtain k q where "k < length ls" "0 \<le> q" "q < ls ! k" "r - l = sum_list (take k ls) + q"
      using Cons.IH [of "r - l"] Cons.prems by auto
    then show ?thesis by (intro exI [of _ "Suc k"]) auto
  qed
qed simp

lemma month_lengths_props:
  "length (month_lengths y) = 12" "\<forall>l \<in> set (month_lengths y). 0 \<le> l"
  "sum_list (month_lengths y) = day_from_year (y + 1) - day_from_year y"
  by (simp_all add: month_lengths_def day_from_year_Suc)

lemma date_of_day_number:
  assumes "valid_date y m d"
  shows "date_of_day (day_number y m d) = (y, m, d)"
proof -
  let ?ls = "month_lengths y" and ?k = "m - 1"
  let ?r = "sum_list (take ?k ?ls) + (d - 1)"
  have k: "?k < 12" using assms by (auto simp: valid_date_def)
  have d: "0 \<le> d - 1" "d - 1 < ?ls ! ?k" using assms by (auto simp: valid_date_def)
  have "0 \<le> sum_list (take ?k ?ls)"
    using month_lengths_props(2) by (intro sum_list_nonneg) (auto dest: in_set_takeD)
  moreover have "?r < sum_list ?ls"
  proof -
    have "sum_list ?ls = sum_list (take ?k ?ls) + ?ls ! ?k + sum_list (drop (Suc ?k) ?ls)"
      using k month_lengths_props(1) by (subst id_take_nth_drop [of ?k ?ls]) (simp_all)
    moreover have "0 \<le> sum_list (drop (Suc ?k) ?ls)"
      using month_lengths_props(2) by (intro sum_list_nonneg) (auto dest: in_set_dropD)
    ultimately show ?thesis using d by linarith
  qed
  ultimately have y: "year_of_day (day_number y m d) = y"
    using d month_lengths_props(3) [of y]
    by (intro year_of_day_unique) (simp_all add: day_number_def)
  have "month_walk ?ls ?r 1 = (1 + ?k, d - 1 + 1)"
    using k d month_lengths_props by (intro month_walk_take) simp_all
  moreover have "day_number y m d - day_from_year y = ?r" by (simp add: day_number_def)
  ultimately show ?thesis
    using assms by (simp add: date_of_day_def y valid_date_def)
qed

lemma date_of_day_valid:
  assumes "date_of_day n = (y, m, d)"
  shows "valid_date y m d \<and> day_number y m d = n"
proof -
  let ?y = "year_of_day n"
  let ?r = "n - day_from_year ?y"
  have "0 \<le> ?r" "?r < sum_list (month_lengths ?y)"
    using year_of_day_bounds [of n] by (simp_all add: month_lengths_props)
  then obtain k q where k: "k < 12" "0 \<le> q" "q < month_lengths ?y ! k" "?r = sum_list (take k (month_lengths ?y)) + q"
    using month_walk_found month_lengths_props(1) by metis
  then have "month_walk (month_lengths ?y) ?r 1 = (1 + k, q + 1)"
    using month_walk_take [of k "month_lengths ?y" q 1] month_lengths_props by simp
  with assms have "y = ?y" "m = k + 1" "d = q + 1" by (auto simp: date_of_day_def Let_def)
  with k show ?thesis by (auto simp: valid_date_def day_number_def)
qed

subsection \<open>What parseInstant accepts\<close>

definition instant_fields_ok :: "iso_value \<Rightarrow> bool" where
  "instant_fields_ok v \<longleftrightarrow>
     1 \<le> iv_month v \<and> iv_month v \<le> 12 \<and> 1 \<le> iv_day v \<and> iv_day v \<le> 31
     \<and> (case iv_time v of None \<Rightarrow> True | Some t \<Rightarrow> time_ok t)"

definition seconds_of_day :: "iso_value \<Rightarrow> int" where
  "seconds_of_day v = (case iv_time v of None \<Rightarrow> 0 | Some t \<Rightarrow> time_seconds t)"

lemma date_parse_alt:
  "date_parse v =
     (if instant_fields_ok v
      then Some (86400 * day_number (int (iv_year v)) (iv_month v) (int (iv_day v)) + seconds_of_day v) else None)"
  by (simp add: date_parse_def instant_fields_ok_def seconds_of_day_def)

lemma date_of_shifted_day:
  "date_of_day ((86400 * day_number y m d + s) div 86400) = (y, m, d)
     \<longleftrightarrow> valid_date y m d \<and> 0 \<le> s \<and> s < 86400"
proof
  assume l: "date_of_day ((86400 * day_number y m d + s) div 86400) = (y, m, d)"
  then have "valid_date y m d" and n: "day_number y m d = (86400 * day_number y m d + s) div 86400"
    using date_of_day_valid by blast+
  from n have "s div 86400 = 0" by simp
  then have "0 \<le> s \<and> s < 86400" by presburger
  with \<open>valid_date y m d\<close> show "valid_date y m d \<and> 0 \<le> s \<and> s < 86400" by simp
next
  assume "valid_date y m d \<and> 0 \<le> s \<and> s < 86400"
  then show "date_of_day ((86400 * day_number y m d + s) div 86400) = (y, m, d)"
    by (simp add: date_of_day_number div_pos_pos_trivial)
qed

lemma parse_iso_present: "parse_iso (trim s) = Some v \<Longrightarrow> present showNum (JStr s)"
  by (auto simp: present_def absent_def parse_iso_def take_digits_def)

lemma date_of_number [simp]: "date_of_day (day_number y m d) = (y, m, d) \<longleftrightarrow> valid_date y m d"
  using date_of_shifted_day [of y m d 0] by simp

text \<open>C34. For a text of the accepted shape the parser has exactly three outcomes. It refuses fields
  no clock shows. It refuses, as not a real calendar date, a day its month does not have and also
  every value whose offset moves the instant to another UTC day than the one written. Everything
  else is the exact number of seconds from the epoch to the instant written.\<close>

theorem parseInstant_exact:
  assumes "parse_iso (trim s) = Some v"
  shows "parseInstant showNum (JStr s) =
     (if \<not> instant_fields_ok v then Inl (NotRealDateTime (trim s))
      else if valid_date (int (iv_year v)) (iv_month v) (int (iv_day v))
              \<and> 0 \<le> seconds_of_day v \<and> seconds_of_day v < 86400
      then Inr (Some (86400 * day_number (int (iv_year v)) (iv_month v) (int (iv_day v)) + seconds_of_day v))
      else Inl (NotRealCalendarDate (trim s)))"
  unfolding parseInstant_def
  using assms date_of_shifted_day
  by (simp add: parse_iso_present date_parse_alt)

lemma parse_iso_offset_example:
  "parse_iso (trim ''2026-08-04T00:30:00+02:00'') =
     Some \<lparr>iv_year = 2026, iv_month = 8, iv_day = 4,
           iv_time = Some \<lparr>it_hour = 0, it_minute = 30, it_second = 0, it_fraction = 0,
                           it_offset = Some (False, 2, 0)\<rparr>\<rparr>"
  by code_simp

lemma parseInstant_exact_witness:
  "parseInstant (\<lambda>_. []) (JStr ''2026-08-04T00:30:00+02:00'') =
     Inl (NotRealCalendarDate (trim ''2026-08-04T00:30:00+02:00''))"
  using parseInstant_exact [OF parse_iso_offset_example, of "\<lambda>_. []"]
  by (simp add: seconds_of_day_def time_seconds_def instant_fields_ok_def time_ok_def)

subsection \<open>What a status filter resolves to\<close>

definition status_expansion :: "string \<Rightarrow> string set" where
  "status_expansion t =
     (case map_of DELIVERY_STATUS_GROUPS t of
        Some members \<Rightarrow> set members
      | None \<Rightarrow> if t \<in> set DELIVERY_STATUSES then {t} else {})"

lemma status_vocabulary_disjoint:
  "\<forall>t \<in> set object_prototype. t \<notin> set LEGACY_STATUS_TOKENS \<and> map_of DELIVERY_STATUS_GROUPS t = None
     \<and> t \<notin> set DELIVERY_STATUSES"
  "\<forall>t \<in> set LEGACY_STATUS_TOKENS. map_of DELIVERY_STATUS_GROUPS t = None \<and> t \<notin> set DELIVERY_STATUSES"
  "\<forall>(t, members) \<in> set DELIVERY_STATUS_GROUPS. distinct members"
  by (simp_all add: object_prototype_def LEGACY_STATUS_TOKENS_def DELIVERY_STATUS_GROUPS_def
      DELIVERY_STATUSES_def)

lemma resolve_loop_Inl_iff:
  "isl (resolve_loop ts r) \<longleftrightarrow> (\<exists>t \<in> set ts. t \<in> set object_prototype)"
proof (induction ts arbitrary: r)
  case (Cons t ts)
  then show ?case
    using status_vocabulary_disjoint(1) by (auto split: option.splits)
qed simp

lemma resolve_loop_set:
  "resolve_loop ts r = Inr out \<Longrightarrow> distinct r \<Longrightarrow>
     distinct out \<and> set out = set r \<union> (\<Union>t \<in> set ts. status_expansion t)"
proof (induction ts arbitrary: r)
  case (Cons t ts)
  show ?case
  proof (cases "t \<in> set LEGACY_STATUS_TOKENS")
    case True
    then have "status_expansion t = {}" using status_vocabulary_disjoint(2) by (simp add: status_expansion_def)
    with Cons True show ?thesis by simp
  next
    case False
    show ?thesis
    proof (cases "map_of DELIVERY_STATUS_GROUPS t")
      case (Some members)
      then have "distinct members" using status_vocabulary_disjoint(3) by (auto dest: map_of_SomeD)
      then have "distinct (r @ filter (\<lambda>s. s \<notin> set r) members)" using Cons.prems by auto
      from Cons.IH [OF _ this] Cons.prems False Some show ?thesis
        by (auto simp: status_expansion_def)
    next
      case None
      with Cons.prems False Cons.IH [of "r @ [t]"] Cons.IH [of r] show ?thesis
        by (auto simp: status_expansion_def split: if_splits)
    qed
  qed
qed simp

text \<open>A status filter resolves to the union of what its tokens stand for, without duplicates,
  and to no filter exactly when that union is empty; it raises exactly when a token is a name every
  object inherits.\<close>

theorem resolveDeliveryStatuses_union:
  "(isl (resolveDeliveryStatuses v) \<longleftrightarrow> (\<exists>t \<in> set (statusTokens v). t \<in> set object_prototype))
   \<and> (\<forall>out. resolveDeliveryStatuses v = Inr out \<longrightarrow>
        set (case out of None \<Rightarrow> [] | Some ds \<Rightarrow> ds) = (\<Union>t \<in> set (statusTokens v). status_expansion t)
        \<and> distinct (case out of None \<Rightarrow> [] | Some ds \<Rightarrow> ds) \<and> out \<noteq> Some [])"
proof (intro conjI allI impI)
  show "isl (resolveDeliveryStatuses v) \<longleftrightarrow> (\<exists>t \<in> set (statusTokens v). t \<in> set object_prototype)"
    unfolding resolveDeliveryStatuses_def resolve_loop_Inl_iff [of "statusTokens v" "[]", symmetric]
    by (cases "resolve_loop (statusTokens v) []") simp_all
  fix out assume "resolveDeliveryStatuses v = Inr out"
  then obtain r where r: "resolve_loop (statusTokens v) [] = Inr r" and out: "out = (if r = [] then None else Some r)"
    by (auto simp: resolveDeliveryStatuses_def elim!: bind_resultE)
  with resolve_loop_set [OF r]
  show "set (case out of None \<Rightarrow> [] | Some ds \<Rightarrow> ds) = (\<Union>t \<in> set (statusTokens v). status_expansion t)"
    and "distinct (case out of None \<Rightarrow> [] | Some ds \<Rightarrow> ds)" and "out \<noteq> Some []"
    by auto
qed

lemma resolveDeliveryStatuses_union_witness:
  "isKnownStatusToken ''constructor'' \<and> isl (resolveDeliveryStatuses ''constructor'')
     \<and> set [''failed'', ''rejected''] = (\<Union>t \<in> set (statusTokens ''sent, Failed,resendable''). status_expansion t)"
proof -
  have "resolveDeliveryStatuses ''sent, Failed,resendable'' = Inr (Some [''failed'', ''rejected''])" by code_simp
  from resolveDeliveryStatuses_union [THEN conjunct2, rule_format, OF this]
  have "set [''failed'', ''rejected''] = (\<Union>t \<in> set (statusTokens ''sent, Failed,resendable''). status_expansion t)"
    by (simp only: option.case)
  moreover have "isKnownStatusToken ''constructor'' \<and> isl (resolveDeliveryStatuses ''constructor'')" by code_simp
  ultimately show ?thesis by simp
qed

subsection \<open>Accepted filters are within bounds\<close>

lemma parseBoundedInt_bounds:
  "parseBoundedInt showNum v name lo hi fallback = Inr i \<Longrightarrow> lo \<le> fallback \<Longrightarrow> fallback \<le> hi \<Longrightarrow> lo \<le> i \<and> i \<le> hi"
  by (auto simp: parseBoundedInt_def split: if_splits option.splits dest: bounded_integer_bounds)

lemma optional_bounded_bounds:
  "optional_filter showNum v (parseBoundedInt showNum v name lo hi fallback) = Inr (Some i) \<Longrightarrow> lo \<le> i \<and> i \<le> hi"
  by (auto simp: optional_filter_def parseBoundedInt_def bind_result_Inr_iff
      split: if_splits option.splits dest: bounded_integer_bounds)

lemma parse_direction_values: "parse_direction showNum v = Inr (Some d) \<Longrightarrow> d \<in> {''MO'', ''MT'', ''DLR''}"
  by (auto simp: parse_direction_def Let_def split: if_splits)

lemma parseStatusExpression_known:
  "parseStatusExpression showNum v = Inr (Some e) \<Longrightarrow>
     e = join '','' (expression_tokens showNum v) \<and> expression_tokens showNum v \<noteq> []
     \<and> (\<forall>t \<in> set (expression_tokens showNum v). isKnownStatusToken t)"
  by (auto simp: parseStatusExpression_def Let_def filter_empty_conv split: if_splits)

lemma parseMessageFilters_fields:
  assumes "parseMessageFilters showNum defaultLimit maxLimit q = Inr f"
  shows "parseInstant showNum (q ''from'') = Inr (mf_fromEpoch f)"
    and "parseInstant showNum (q ''to'') = Inr (mf_toEpoch f)"
    and "\<not> (mf_fromEpoch f \<noteq> None \<and> mf_toEpoch f \<noteq> None \<and> the (mf_fromEpoch f) > the (mf_toEpoch f))"
    and "parse_direction showNum (q ''direction'') = Inr (mf_direction f)"
    and "parseBoundedInt showNum (q ''limit'') ''limit'' 1 maxLimit defaultLimit = Inr (mf_limit f)"
    and "optional_filter showNum (q ''cursor'')
           (parseBoundedInt showNum (q ''cursor'') ''cursor'' 1 9007199254740991 0) = Inr (mf_cursor f)"
    and "parseStatusExpression showNum (q ''status'') = Inr (mf_status f)"
    and "optional_filter showNum (q ''offset'')
           (parseBoundedInt showNum (q ''offset'') ''offset'' 0 5000000 0) = Inr (mf_offset f)"
  using assms unfolding parseMessageFilters_def
  by (auto elim!: bind_resultE split: if_split_asm)

text \<open>An accepted filter set is never a truncation: the limit, the cursor and the offset lie in
  their declared ranges, the direction is one of the three, every status token is in the vocabulary
  and the range of instants is not reversed. Each of the two instants is the one its own parameter
  denotes.\<close>

theorem parseMessageFilters_bounds:
  assumes "parseMessageFilters showNum defaultLimit maxLimit q = Inr f"
    and "1 \<le> defaultLimit" "defaultLimit \<le> maxLimit"
  shows "1 \<le> mf_limit f \<and> mf_limit f \<le> maxLimit
    \<and> (\<forall>c. mf_cursor f = Some c \<longrightarrow> 1 \<le> c \<and> c \<le> 9007199254740991)
    \<and> (\<forall>i. mf_offset f = Some i \<longrightarrow> 0 \<le> i \<and> i \<le> 5000000)
    \<and> mf_direction f \<in> {None, Some ''MO'', Some ''MT'', Some ''DLR''}
    \<and> (mf_status f \<noteq> None \<longrightarrow> list_all isKnownStatusToken (expression_tokens showNum (q ''status'')))
    \<and> parseInstant showNum (q ''from'') = Inr (mf_fromEpoch f)
    \<and> parseInstant showNum (q ''to'') = Inr (mf_toEpoch f)
    \<and> (\<forall>a b. mf_fromEpoch f = Some a \<longrightarrow> mf_toEpoch f = Some b \<longrightarrow> a \<le> b)"
proof -
  note fields = parseMessageFilters_fields [OF assms(1)]
  have "1 \<le> mf_limit f \<and> mf_limit f \<le> maxLimit"
    by (rule parseBoundedInt_bounds [OF fields(5) assms(2,3)])
  moreover have "\<forall>c. mf_cursor f = Some c \<longrightarrow> 1 \<le> c \<and> c \<le> 9007199254740991"
    using optional_bounded_bounds fields(6) by metis
  moreover have "\<forall>i. mf_offset f = Some i \<longrightarrow> 0 \<le> i \<and> i \<le> 5000000"
    using optional_bounded_bounds fields(8) by metis
  moreover have "mf_direction f \<in> {None, Some ''MO'', Some ''MT'', Some ''DLR''}"
    using parse_direction_values [of showNum "q ''direction''"] fields(4)
    by (cases "mf_direction f") auto
  moreover have "mf_status f \<noteq> None \<longrightarrow> list_all isKnownStatusToken (expression_tokens showNum (q ''status''))"
    using parseStatusExpression_known [of showNum "q ''status''"] fields(7)
    by (cases "mf_status f") (auto simp: list_all_iff)
  moreover have "\<forall>a b. mf_fromEpoch f = Some a \<longrightarrow> mf_toEpoch f = Some b \<longrightarrow> a \<le> b"
    using fields(3) by auto
  ultimately show ?thesis using fields(1,2) by blast
qed

lemma parseMessageFilters_bounds_witness:
  "\<exists>f. parseMessageFilters (\<lambda>_. []) 50 500 (\<lambda>k. if k = ''from'' then JStr ''2026-08-04'' else JUndefined) = Inr f
     \<and> 1 \<le> mf_limit f \<and> mf_limit f \<le> 500"
proof -
  let ?q = "\<lambda>k. if k = ''from'' then JStr ''2026-08-04'' else JUndefined"
  have "\<not> isl (parseMessageFilters (\<lambda>_. []) 50 500 ?q)" by code_simp
  then obtain f where f: "parseMessageFilters (\<lambda>_. []) 50 500 ?q = Inr f"
    by (cases "parseMessageFilters (\<lambda>_. []) 50 500 ?q") simp_all
  from parseMessageFilters_bounds [OF f] f show ?thesis by auto
qed

end
