(* ===== verification/Scheduling.thy ===== *)
theory Scheduling
  imports MessageFilters
begin

section \<open>Message schedules: messaging-depth/message-scheduling.ts\<close>

text \<open>
  Parsing of \<open>scheduledAt\<close> and \<open>validityMinutes\<close>, the two columns the engine is given, and the
  decision about a release whose moment has passed. Instants are whole milliseconds from the epoch
  and the clock reading is the argument \<open>now\<close>.
\<close>

definition MAX_SCHEDULE_MINUTES :: int where
  "MAX_SCHEDULE_MINUTES = 365 * 24 * 60"

definition SCHEDULE_PAST_GRACE_MS :: int where
  "SCHEDULE_PAST_GRACE_MS = 60000"

definition DEFAULT_SCHEDULED_SEND_MAX_LATENESS_MINUTES :: rat where
  "DEFAULT_SCHEDULED_SEND_MAX_LATENESS_MINUTES = 120"

definition SCHEDULED_SEND_ON_TIME_GRACE_MS :: int where
  "SCHEDULED_SEND_ON_TIME_GRACE_MS = 60000"

record message_schedule =
  scheduledAtMs :: "int option"
  validityMinutes :: "int option"

definition NO_SCHEDULE :: message_schedule where
  "NO_SCHEDULE = \<lparr>scheduledAtMs = None, validityMinutes = None\<rparr>"

datatype schedule_error =
    BadValidityMinutes
  | BadScheduledAt filter_error
  | ScheduledInPast int int
  | ScheduledTooFar int
  | ExpiresBeforeDelivery int int

text \<open>\<open>Math.ceil(ms / 60000)\<close>.\<close>

definition ceil_minutes :: "int \<Rightarrow> int" where
  "ceil_minutes ms = - ((- ms) div 60000)"

definition deferredMinutesFor :: "int option \<Rightarrow> int \<Rightarrow> int option" where
  "deferredMinutesFor s now = map_option (\<lambda>s. max 0 (ceil_minutes (s - now))) s"

definition parseValidityMinutes :: "(jsnum \<Rightarrow> string) \<Rightarrow> jsval \<Rightarrow> (schedule_error, int option) result" where
  "parseValidityMinutes showNum v =
     (if \<not> present showNum v then Inr None
      else case bounded_integer v 1 MAX_SCHEDULE_MINUTES of
             None \<Rightarrow> Inl BadValidityMinutes
           | Some i \<Rightarrow> Inr (Some i))"

definition schedule_instant :: "(jsnum \<Rightarrow> string) \<Rightarrow> jsval \<Rightarrow> (schedule_error, int) result" where
  "schedule_instant showNum v =
     (case parseInstant showNum v of
        Inl e \<Rightarrow> Inl (BadScheduledAt e)
      | Inr t \<Rightarrow> Inr (the t * 1000))"

definition check_schedule :: "int \<Rightarrow> int option \<Rightarrow> int \<Rightarrow> (schedule_error, message_schedule) result" where
  "check_schedule now validity s =
     (if s < now - SCHEDULE_PAST_GRACE_MS then Inl (ScheduledInPast s now)
      else
        let deferred = max 0 (ceil_minutes (s - now))
        in if deferred > MAX_SCHEDULE_MINUTES then Inl (ScheduledTooFar deferred)
           else if validity \<noteq> None \<and> the validity \<le> deferred
           then Inl (ExpiresBeforeDelivery (the validity) deferred)
           else Inr \<lparr>scheduledAtMs = Some s, validityMinutes = validity\<rparr>)"

definition parseMessageSchedule ::
    "(jsnum \<Rightarrow> string) \<Rightarrow> (string \<Rightarrow> jsval) \<Rightarrow> int \<Rightarrow> (schedule_error, message_schedule) result" where
  "parseMessageSchedule showNum q now =
     bind_result (parseValidityMinutes showNum (q ''validityMinutes'')) (\<lambda>validity.
     if \<not> present showNum (q ''scheduledAt'')
     then Inr \<lparr>scheduledAtMs = None, validityMinutes = validity\<rparr>
     else bind_result (schedule_instant showNum (q ''scheduledAt'')) (check_schedule now validity))"

record engine_columns =
  ec_deferred :: "int option"
  ec_validity :: "int option"

definition engineScheduleColumns :: "message_schedule option \<Rightarrow> int \<Rightarrow> engine_columns" where
  "engineScheduleColumns schedule now =
     \<lparr>ec_deferred = deferredMinutesFor (Option.bind schedule scheduledAtMs) now,
      ec_validity = Option.bind schedule validityMinutes\<rparr>"

text \<open>\<open>raw\<close> is the environment variable. \<open>Math.round\<close> rounds a half up.\<close>

definition scheduledSendMaxLatenessMs :: "string option \<Rightarrow> int" where
  "scheduledSendMaxLatenessMs raw =
     (let minutes =
        (case raw of
           None \<Rightarrow> DEFAULT_SCHEDULED_SEND_MAX_LATENESS_MINUTES
         | Some s \<Rightarrow>
             if s = [] then DEFAULT_SCHEDULED_SEND_MAX_LATENESS_MINUTES
             else case string_to_number s of
               Fin q \<Rightarrow> if 0 \<le> q \<and> q \<le> of_int MAX_SCHEDULE_MINUTES then q
                        else DEFAULT_SCHEDULED_SEND_MAX_LATENESS_MINUTES
             | _ \<Rightarrow> DEFAULT_SCHEDULED_SEND_MAX_LATENESS_MINUTES)
      in \<lfloor>minutes * 60000 + 1 / 2\<rfloor>)"

datatype missed_action = ReleaseOnTime | ReleaseLate | ExpireMissed

record missed_verdict =
  mv_action :: missed_action
  mv_latenessMs :: int
  mv_ceilingMs :: int

definition classifyMissedWindow :: "int \<Rightarrow> int \<Rightarrow> int \<Rightarrow> missed_verdict" where
  "classifyMissedWindow s now ceil_ms =
     (let lateness = max 0 (now - s)
      in \<lparr>mv_action =
            (if lateness > ceil_ms \<and> lateness > SCHEDULED_SEND_ON_TIME_GRACE_MS then ExpireMissed
             else if lateness > SCHEDULED_SEND_ON_TIME_GRACE_MS then ReleaseLate else ReleaseOnTime),
          mv_latenessMs = lateness, mv_ceilingMs = ceil_ms\<rparr>)"

definition requiresHold :: "message_schedule option \<Rightarrow> int \<Rightarrow> bool" where
  "requiresHold schedule now \<longleftrightarrow>
     (case Option.bind schedule scheduledAtMs of
        None \<Rightarrow> False
      | Some s \<Rightarrow> s > now + SCHEDULE_PAST_GRACE_MS)"

subsection \<open>Rounding up\<close>

lemma ceil_minutes_bounds: "ms \<le> 60000 * ceil_minutes ms" "60000 * ceil_minutes ms < ms + 60000"
proof -
  define q where "q = (- ms) div 60000"
  have "60000 * q \<le> - ms" "- ms < 60000 * q + 60000" unfolding q_def by (rule floor_mult_bounds; simp)+
  then show "ms \<le> 60000 * ceil_minutes ms" "60000 * ceil_minutes ms < ms + 60000"
    unfolding ceil_minutes_def q_def [symmetric] by simp_all
qed

lemma ceil_minutes_mono: "a \<le> b \<Longrightarrow> ceil_minutes a \<le> ceil_minutes b"
  using ceil_minutes_bounds(2) [of a] ceil_minutes_bounds(1) [of b] by linarith

lemma ceil_minutes_le_iff: "ceil_minutes ms \<le> m \<longleftrightarrow> ms \<le> 60000 * m"
  using ceil_minutes_bounds [of ms] by linarith

lemma check_schedule_Inr:
  "check_schedule now validity s = Inr sch \<longleftrightarrow>
     now - 60000 \<le> s \<and> s \<le> now + 60000 * MAX_SCHEDULE_MINUTES
     \<and> (\<forall>v. validity = Some v \<longrightarrow> 0 < v \<and> s - now \<le> 60000 * (v - 1))
     \<and> sch = \<lparr>scheduledAtMs = Some s, validityMinutes = validity\<rparr>"
proof -
  have le: "max 0 (ceil_minutes ms) \<le> m \<longleftrightarrow> 0 \<le> m \<and> ms \<le> 60000 * m" for ms m
    using ceil_minutes_le_iff [of ms m] by auto
  have lt: "\<not> v \<le> max 0 (ceil_minutes ms) \<longleftrightarrow> 0 < v \<and> ms \<le> 60000 * (v - 1)" for ms v
    using le [of ms "v - 1"] by auto
  have max: "\<not> max 0 (ceil_minutes (s - now)) > MAX_SCHEDULE_MINUTES \<longleftrightarrow> s \<le> now + 60000 * MAX_SCHEDULE_MINUTES"
    using le [of "s - now" MAX_SCHEDULE_MINUTES] by (auto simp: MAX_SCHEDULE_MINUTES_def)
  show ?thesis
    unfolding check_schedule_def Let_def SCHEDULE_PAST_GRACE_MS_def
    using max lt [of _ "s - now"] by (cases validity) auto
qed

lemma parseInstant_present: "present showNum v \<Longrightarrow> parseInstant showNum v = Inr t \<Longrightarrow> \<exists>i. t = Some i"
  by (auto simp: parseInstant_def Let_def split: jsval.splits option.splits if_splits) (metis)+

text \<open>C35. An accepted schedule can always be honoured. Its instant is the one written; it is at most
  a minute in the past and at most 365 days ahead. Whenever the engine columns are computed
  afterwards, the deferral never ends before that instant, overshoots it by less than a minute when
  it is still ahead, and is shorter than the validity period: the message cannot expire before it
  is due.\<close>

theorem parseMessageSchedule_honourable:
  assumes "parseMessageSchedule showNum q now = Inr sch" and "scheduledAtMs sch = Some s"
  shows "parseInstant showNum (q ''scheduledAt'') = Inr (Some (s div 1000)) \<and> s mod 1000 = 0
    \<and> now - 60000 \<le> s \<and> s \<le> now + 60000 * MAX_SCHEDULE_MINUTES
    \<and> (\<forall>n \<ge> now. \<exists>d. ec_deferred (engineScheduleColumns (Some sch) n) = Some d
          \<and> s \<le> n + 60000 * d \<and> (n \<le> s \<longrightarrow> n + 60000 * d < s + 60000)
          \<and> (\<forall>v. ec_validity (engineScheduleColumns (Some sch) n) = Some v \<longrightarrow> d < v))"
proof -
  from assms obtain validity where c: "check_schedule now validity s = Inr sch"
    and i: "schedule_instant showNum (q ''scheduledAt'') = Inr s" and pr: "present showNum (q ''scheduledAt'')"
    unfolding parseMessageSchedule_def
    by (auto elim!: bind_resultE split: if_splits simp: check_schedule_Inr)
  from c have b: "now - 60000 \<le> s" "s \<le> now + 60000 * MAX_SCHEDULE_MINUTES"
    and v: "\<And>v. validity = Some v \<Longrightarrow> 0 < v \<and> s - now \<le> 60000 * (v - 1)"
    and sch: "sch = \<lparr>scheduledAtMs = Some s, validityMinutes = validity\<rparr>"
    unfolding check_schedule_Inr by blast+
  have inst: "parseInstant showNum (q ''scheduledAt'') = Inr (Some (s div 1000)) \<and> s mod 1000 = 0"
    using i parseInstant_present [OF pr] by (auto simp: schedule_instant_def split: sum.splits)
  have "\<exists>d. ec_deferred (engineScheduleColumns (Some sch) n) = Some d
          \<and> s \<le> n + 60000 * d \<and> (n \<le> s \<longrightarrow> n + 60000 * d < s + 60000)
          \<and> (\<forall>v. ec_validity (engineScheduleColumns (Some sch) n) = Some v \<longrightarrow> d < v)" if "now \<le> n" for n
  proof (intro exI conjI impI allI)
    let ?d = "max 0 (ceil_minutes (s - n))"
    show "ec_deferred (engineScheduleColumns (Some sch) n) = Some ?d"
      by (simp add: engineScheduleColumns_def deferredMinutesFor_def sch)
    show "s \<le> n + 60000 * ?d" using ceil_minutes_bounds(1) [of "s - n"] by (simp add: max_def)
    show "n + 60000 * ?d < s + 60000" if "n \<le> s" using ceil_minutes_bounds(2) [of "s - n"] that
      by (simp add: max_def)
    show "?d < v" if "ec_validity (engineScheduleColumns (Some sch) n) = Some v" for v
    proof -
      from that have "validity = Some v" by (simp add: engineScheduleColumns_def sch)
      with v have "0 < v" "s - now \<le> 60000 * (v - 1)" by blast+
      then show ?thesis using ceil_minutes_le_iff [of "s - n" "v - 1"] \<open>now \<le> n\<close> by auto
    qed
  qed
  with inst b show ?thesis by blast
qed

lemma parseMessageSchedule_honourable_witness:
  "\<exists>sch. parseMessageSchedule (\<lambda>_. []) (\<lambda>k. if k = ''scheduledAt'' then JStr ''1970-01-02'' else JStr ''5'') 86280000 = Inr sch
     \<and> parseInstant (\<lambda>_. []) (JStr ''1970-01-02'') = Inr (Some 86400)"
proof -
  let ?q = "\<lambda>k. if k = ''scheduledAt'' then JStr ''1970-01-02'' else JStr ''5''"
  have e: "parseMessageSchedule (\<lambda>_. []) ?q 86280000 = Inr \<lparr>scheduledAtMs = Some 86400000, validityMinutes = Some 5\<rparr>"
    by code_simp
  from parseMessageSchedule_honourable [OF e, of 86400000, THEN conjunct1] e show ?thesis by simp
qed

lemma max_le_iff_nonneg: "(0::int) \<le> c \<Longrightarrow> max 0 x > c \<longleftrightarrow> x > c"
  by auto

text \<open>A missed window is decided by the lateness alone: on time up to a minute, late up to the
  ceiling, expired beyond both. Nothing is ever released later than the larger of the two, a
  scheduled instant still ahead is on time, and once expired a message stays expired at every later
  moment.\<close>

theorem classifyMissedWindow_thresholds:
  "mv_action (classifyMissedWindow s now ceil_ms) =
     (if now - s \<le> 60000 then ReleaseOnTime else if now - s \<le> ceil_ms then ReleaseLate else ExpireMissed)
   \<and> (mv_action (classifyMissedWindow s now ceil_ms) = ExpireMissed \<longrightarrow>
        (\<forall>n \<ge> now. mv_action (classifyMissedWindow s n ceil_ms) = ExpireMissed))
   \<and> 0 \<le> scheduledSendMaxLatenessMs raw \<and> scheduledSendMaxLatenessMs raw \<le> 60000 * MAX_SCHEDULE_MINUTES"
proof (intro conjI)
  show act: "mv_action (classifyMissedWindow s now ceil_ms) =
     (if now - s \<le> 60000 then ReleaseOnTime else if now - s \<le> ceil_ms then ReleaseLate else ExpireMissed)" for now
    by (auto simp: classifyMissedWindow_def SCHEDULED_SEND_ON_TIME_GRACE_MS_def Let_def)
  show "mv_action (classifyMissedWindow s now ceil_ms) = ExpireMissed \<longrightarrow>
        (\<forall>n \<ge> now. mv_action (classifyMissedWindow s n ceil_ms) = ExpireMissed)"
    unfolding act by (auto split: if_splits)
  have b: "0 \<le> \<lfloor>m * 60000 + 1 / 2\<rfloor> \<and> \<lfloor>m * 60000 + 1 / 2\<rfloor> \<le> 60000 * MAX_SCHEDULE_MINUTES"
    if "0 \<le> m" "m \<le> 525600" for m :: rat
  proof
    show "0 \<le> \<lfloor>m * 60000 + 1 / 2\<rfloor>" using that by simp
    show "\<lfloor>m * 60000 + 1 / 2\<rfloor> \<le> 60000 * MAX_SCHEDULE_MINUTES"
      using that by (simp add: floor_le_iff MAX_SCHEDULE_MINUTES_def)
  qed
  have "0 \<le> scheduledSendMaxLatenessMs raw \<and> scheduledSendMaxLatenessMs raw \<le> 60000 * MAX_SCHEDULE_MINUTES"
    unfolding scheduledSendMaxLatenessMs_def Let_def
    by (rule b) (auto simp: DEFAULT_SCHEDULED_SEND_MAX_LATENESS_MINUTES_def MAX_SCHEDULE_MINUTES_def
        split: option.splits jsnum.splits)
  then show "0 \<le> scheduledSendMaxLatenessMs raw"
    and "scheduledSendMaxLatenessMs raw \<le> 60000 * MAX_SCHEDULE_MINUTES" by simp_all
qed

lemma classifyMissedWindow_thresholds_witness:
  "mv_action (classifyMissedWindow 0 8000000 7200000) = ExpireMissed
   \<and> mv_action (classifyMissedWindow 0 9000000 7200000) = ExpireMissed"
  using classifyMissedWindow_thresholds [of 0 8000000 7200000 None] by simp

end
