(* ===== verification/JobQueue.thy ===== *)
theory JobQueue
  imports JsValue StepSystem
begin

section \<open>The durable job queue: platform/jobs.service.ts, job-registry.ts, job-worker.ts\<close>

text \<open>
  The \<open>api_jobs\<close> rows of one tenant and every statement that changes them, the handler registry's
  checks, the execution of a claimed job and the drain of one tenant. Each statement is one atomic
  step; \<open>now\<close> is the transaction's clock and times are milliseconds from the epoch.
  \<open>FOR UPDATE SKIP LOCKED\<close> is the argument \<open>locked\<close>, the rows other transactions hold. The table's
  unique key and its check on the attempt count belong to the statements that can violate them.
  Worker lifetimes are the executions in flight, each the row its claim returned.
\<close>

subsection \<open>Registry\<close>

definition lower_letter :: "char \<Rightarrow> bool" where
  "lower_letter c \<longleftrightarrow> 97 \<le> char_code c \<and> char_code c \<le> 122"

text \<open>\<open>/^[a-z][a-z0-9_.-]+$/\<close>.\<close>

definition job_type_ok :: "string \<Rightarrow> bool" where
  "job_type_ok s =
     (case s of
        [] \<Rightarrow> False
      | c # t \<Rightarrow> lower_letter c \<and> t \<noteq> [] \<and> list_all (\<lambda>x. lower_letter x \<or> is_digit x \<or> x \<in> set ''_.-'') t)"

datatype registry_error = InvalidJobType string | AlreadyRegistered string | AttemptsOutOfRange string

definition defaultMaxAttempts :: "jsval \<Rightarrow> int" where
  "defaultMaxAttempts env =
     (case bounded_integer (if absent env then JNum (Fin 3) else env) 1 50 of None \<Rightarrow> 3 | Some i \<Rightarrow> i)"

text \<open>The registry maps a type to its attempts; \<open>requested\<close> is the registration's own number.\<close>

definition register ::
    "jsval \<Rightarrow> string \<Rightarrow> jsnum option \<Rightarrow> (string \<times> int) list \<Rightarrow> (registry_error, (string \<times> int) list) result" where
  "register env ty requested reg =
     (if \<not> job_type_ok ty then Inl (InvalidJobType ty)
      else if map_of reg ty \<noteq> None then Inl (AlreadyRegistered ty)
      else case bounded_integer (JNum (coalesce requested (Fin (of_int (defaultMaxAttempts env))))) 1 50 of
             None \<Rightarrow> Inl (AttemptsOutOfRange ty)
           | Some n \<Rightarrow> Inr (reg @ [(ty, n)]))"

text \<open>
  The retry delay; \<open>None\<close> stands for a setting that is no finite number. Settings are whole
  milliseconds.
\<close>

definition backoffMs :: "int \<Rightarrow> int option \<Rightarrow> int option \<Rightarrow> int" where
  "backoffMs attempt base mx =
     (let safeBase = (case base of Some b \<Rightarrow> if b > 0 then b else 5000 | None \<Rightarrow> 5000);
          safeMax = (case mx of Some m \<Rightarrow> if m > 0 then m else 300000 | None \<Rightarrow> 300000);
          exponent = max 0 (min (attempt - 1) 20)
      in min (safeBase * 2 ^ nat exponent) safeMax)"

subsection \<open>Rows\<close>

datatype job_status = Queued | Running | Succeeded | Cancelled | DeadLetter

record job_row =
  jr_id :: nat
  jr_type :: string
  jr_status :: job_status
  jr_progress :: int
  jr_input :: jsval
  jr_result :: jsval
  jr_error :: "string option"
  jr_requested_by :: string
  jr_key :: "string option"
  jr_attempts :: int
  jr_max_attempts :: int
  jr_next_attempt_at :: int
  jr_last_error :: "string option"
  jr_claimed_at :: "int option"
  jr_claimed_by :: "string option"
  jr_heartbeat_at :: "int option"
  jr_dead_lettered_at :: "int option"
  jr_started_at :: "int option"
  jr_completed_at :: "int option"
  jr_created_at :: int
  jr_updated_at :: int

text \<open>The row returned to the caller, and the table after the statement.\<close>

type_synonym job_update = "job_row option \<times> job_row list"

definition update_one :: "(job_row \<Rightarrow> bool) \<Rightarrow> (job_row \<Rightarrow> job_row) \<Rightarrow> job_row list \<Rightarrow> job_update" where
  "update_one P f rows =
     ((case returning P f rows of [] \<Rightarrow> None | r # _ \<Rightarrow> Some r), update_where P f rows)"

subsection \<open>Submission\<close>

datatype job_error =
    BadJobType | BadIdempotencyKey | UnknownJobType string | InputNotObject
  | UniqueViolation | CheckViolation

record job_request =
  rq_type :: string
  rq_input :: jsval
  rq_key :: "string option"
  rq_run_at :: "int option"

definition prepare_job :: "(string \<times> int) list \<Rightarrow> job_request \<Rightarrow> (job_error, int) result" where
  "prepare_job reg q =
     (if \<not> job_type_ok (rq_type q) then Inl BadJobType
      else if truthy (rq_key q) \<and> (length (the (rq_key q)) < 8 \<or> length (the (rq_key q)) > 128)
      then Inl BadIdempotencyKey
      else case map_of reg (rq_type q) of
             None \<Rightarrow> Inl (UnknownJobType (rq_type q))
           | Some maxAttempts \<Rightarrow>
               (case rq_input q of
                  JBool _ \<Rightarrow> Inl InputNotObject
                | JNum _ \<Rightarrow> Inl InputNotObject
                | JStr _ \<Rightarrow> Inl InputNotObject
                | _ \<Rightarrow> Inr maxAttempts))"

definition same_key :: "job_request \<Rightarrow> job_row \<Rightarrow> bool" where
  "same_key q r \<longleftrightarrow> jr_type r = rq_type q \<and> rq_key q \<noteq> None \<and> jr_key r = rq_key q"

definition new_job :: "nat \<Rightarrow> string \<Rightarrow> int \<Rightarrow> int \<Rightarrow> job_request \<Rightarrow> job_row" where
  "new_job newId user now maxAttempts q =
     \<lparr>jr_id = newId, jr_type = rq_type q, jr_status = Queued, jr_progress = 0,
      jr_input = (if absent (rq_input q) then JObj else rq_input q), jr_result = JObj, jr_error = None,
      jr_requested_by = user, jr_key = rq_key q, jr_attempts = 0, jr_max_attempts = maxAttempts,
      jr_next_attempt_at = coalesce (rq_run_at q) now, jr_last_error = None, jr_claimed_at = None,
      jr_claimed_by = None, jr_heartbeat_at = None, jr_dead_lettered_at = None, jr_started_at = None,
      jr_completed_at = None, jr_created_at = now, jr_updated_at = now\<rparr>"

text \<open>
  The existing row for a truthy key is replayed. An empty key is stored without being looked up, so
  a second one meets the unique key. \<open>newId\<close> is the identifier the database generates.
\<close>

definition insert_job ::
    "nat \<Rightarrow> string \<Rightarrow> int \<Rightarrow> int \<Rightarrow> job_request \<Rightarrow> job_row list \<Rightarrow> (job_error, job_row \<times> job_row list) result" where
  "insert_job newId user now maxAttempts q rows =
     (case (if truthy (rq_key q) then find (same_key q) rows else None) of
        Some r \<Rightarrow> Inr (r, rows)
      | None \<Rightarrow>
          if list_ex (same_key q) rows then Inl UniqueViolation
          else let r = new_job newId user now maxAttempts q in Inr (r, rows @ [r]))"

definition createOn ::
    "(string \<times> int) list \<Rightarrow> nat \<Rightarrow> string \<Rightarrow> int \<Rightarrow> job_request \<Rightarrow> job_row list
       \<Rightarrow> (job_error, job_row \<times> job_row list) result" where
  "createOn reg newId user now q rows =
     bind_result (prepare_job reg q) (\<lambda>maxAttempts. insert_job newId user now maxAttempts q rows)"

definition cancelled_row :: "string option \<Rightarrow> int \<Rightarrow> job_row \<Rightarrow> job_row" where
  "cancelled_row reason now r =
     (let why = Some (coalesce reason ''Cancelled by operator'')
      in r\<lparr>jr_status := Cancelled, jr_progress := 100, jr_error := why, jr_last_error := why,
           jr_completed_at := Some now, jr_updated_at := now, jr_claimed_by := None,
           jr_heartbeat_at := None\<rparr>)"

definition cancelOn :: "nat \<Rightarrow> string option \<Rightarrow> int \<Rightarrow> job_row list \<Rightarrow> job_update" where
  "cancelOn i reason now rows =
     update_one (\<lambda>r. jr_id r = i \<and> (jr_status r = Queued \<or> jr_status r = Running))
       (cancelled_row reason now) rows"

definition rescheduleOn :: "nat \<Rightarrow> int \<Rightarrow> int \<Rightarrow> job_row list \<Rightarrow> job_update" where
  "rescheduleOn i runAt now rows =
     update_one (\<lambda>r. jr_id r = i \<and> jr_status r = Queued)
       (\<lambda>r. r\<lparr>jr_next_attempt_at := runAt, jr_updated_at := now\<rparr>) rows"

subsection \<open>The worker's statements\<close>

definition due :: "int \<Rightarrow> job_row \<Rightarrow> bool" where
  "due now r \<longleftrightarrow> jr_status r = Queued \<and> jr_next_attempt_at r \<le> now"

definition claim_order :: "job_row \<Rightarrow> job_row \<Rightarrow> int" where
  "claim_order = cmp_or (cmp_key jr_next_attempt_at) (cmp_key jr_created_at)"

definition claimed_row :: "string \<Rightarrow> int \<Rightarrow> job_row \<Rightarrow> job_row" where
  "claimed_row worker now r =
     r\<lparr>jr_status := Running, jr_attempts := jr_attempts r + 1, jr_claimed_at := Some now,
       jr_claimed_by := Some worker, jr_heartbeat_at := Some now,
       jr_started_at := Some (coalesce (jr_started_at r) now), jr_updated_at := now\<rparr>"

text \<open>The oldest due row no other transaction holds; \<open>attempts <= max_attempts + 1\<close> is the table's check.\<close>

definition claimOn ::
    "nat list \<Rightarrow> string \<Rightarrow> int \<Rightarrow> job_row list \<Rightarrow> (job_error, job_update) result" where
  "claimOn locked worker now rows =
     (case sort_cmp claim_order (filter (\<lambda>r. due now r \<and> jr_id r \<notin> set locked) rows) of
        [] \<Rightarrow> Inr (None, rows)
      | c # _ \<Rightarrow>
          if jr_attempts c + 1 > jr_max_attempts c + 1 then Inl CheckViolation
          else Inr (update_one (\<lambda>r. jr_id r = jr_id c) (claimed_row worker now) rows))"

definition running_row :: "nat \<Rightarrow> job_row \<Rightarrow> bool" where
  "running_row i r \<longleftrightarrow> jr_id r = i \<and> jr_status r = Running"

text \<open>A whole percentage; the code rounds it.\<close>

definition reportProgress :: "nat \<Rightarrow> int \<Rightarrow> int \<Rightarrow> job_row list \<Rightarrow> job_row list" where
  "reportProgress i percent now rows =
     update_where (running_row i)
       (\<lambda>r. r\<lparr>jr_progress := max 0 (min 100 percent), jr_heartbeat_at := Some now, jr_updated_at := now\<rparr>) rows"

definition completed_row :: "jsval \<Rightarrow> int \<Rightarrow> job_row \<Rightarrow> job_row" where
  "completed_row res now r =
     r\<lparr>jr_status := Succeeded, jr_progress := 100, jr_result := (if absent res then JObj else res),
       jr_error := None, jr_completed_at := Some now, jr_updated_at := now, jr_claimed_by := None,
       jr_heartbeat_at := None\<rparr>"

definition completeJob :: "nat \<Rightarrow> jsval \<Rightarrow> int \<Rightarrow> job_row list \<Rightarrow> job_update" where
  "completeJob i res now rows =
     update_one (running_row i) (completed_row res now) rows"

datatype fail_outcome = FailRetry int | FailDeadLetter

definition dead_row :: "string option \<Rightarrow> int \<Rightarrow> job_row \<Rightarrow> job_row" where
  "dead_row txt now r =
     r\<lparr>jr_status := DeadLetter, jr_error := txt, jr_last_error := txt, jr_dead_lettered_at := Some now,
       jr_completed_at := Some now, jr_updated_at := now, jr_claimed_by := None, jr_heartbeat_at := None\<rparr>"

definition requeued_row :: "string option \<Rightarrow> int \<Rightarrow> int \<Rightarrow> job_row \<Rightarrow> job_row" where
  "requeued_row txt next now r =
     r\<lparr>jr_status := Queued, jr_last_error := txt, jr_next_attempt_at := next, jr_claimed_at := None,
       jr_claimed_by := None, jr_heartbeat_at := None, jr_updated_at := now\<rparr>"

text \<open>The decision and the delay come from the caller's copy of the row, the guard from the table.\<close>

definition failAttempt ::
    "int option \<Rightarrow> int option \<Rightarrow> job_row \<Rightarrow> string \<Rightarrow> bool \<Rightarrow> int \<Rightarrow> job_row list
       \<Rightarrow> fail_outcome \<times> job_update" where
  "failAttempt base mx job message permanent now rows =
     (let txt = Some (take 4000 message)
      in if permanent \<or> jr_attempts job \<ge> jr_max_attempts job
         then (FailDeadLetter, update_one (running_row (jr_id job)) (dead_row txt now) rows)
         else let delay = backoffMs (jr_attempts job) base mx
              in (FailRetry delay,
                  update_one (running_row (jr_id job)) (requeued_row txt (now + delay) now) rows))"

definition stale :: "int \<Rightarrow> int \<Rightarrow> job_row \<Rightarrow> bool" where
  "stale seconds now r \<longleftrightarrow>
     jr_status r = Running \<and> (case jr_heartbeat_at r of None \<Rightarrow> False | Some h \<Rightarrow> h < now - seconds * 1000)"

text \<open>The error keeps the previous \<open>last_error\<close> in front, the new \<open>last_error\<close> does not.\<close>

definition expired_dead_row :: "int \<Rightarrow> job_row \<Rightarrow> job_row" where
  "expired_dead_row now r =
     (dead_row (Some ''Worker claim expired with no attempts remaining.'') now r)
       \<lparr>jr_error := Some (coalesce (jr_last_error r) [] @ '' Worker claim expired with no attempts remaining.'')\<rparr>"

definition reapStuck :: "int \<Rightarrow> int \<Rightarrow> job_row list \<Rightarrow> (nat \<times> nat) \<times> job_row list" where
  "reapStuck staleAfterMs now rows =
     (let seconds = max 1 ((staleAfterMs + 500) div 1000);
          dead = (\<lambda>r. stale seconds now r \<and> jr_attempts r \<ge> jr_max_attempts r);
          rows1 = update_where dead (expired_dead_row now) rows;
          lost = (\<lambda>r. stale seconds now r \<and> jr_attempts r < jr_max_attempts r);
          rows2 = update_where lost
            (requeued_row (Some ''Worker claim expired; job requeued for another worker.'') now now) rows1
      in ((length (filter lost rows1), length (filter dead rows)), rows2))"

subsection \<open>Executing a claimed job\<close>

text \<open>What a handler does: return a value, or throw an error that may be marked permanent.\<close>

datatype handler_outcome = Returned jsval | Threw string bool

datatype execution_verdict = ExecSucceeded | ExecRetry | ExecDeadLetter

definition types_text :: "(string \<times> int) list \<Rightarrow> string" where
  "types_text reg =
     (if reg = [] then ''(none)'' else join '', '' (sort_cmp (cmp_key (map char_code)) (map fst reg)))"

definition no_executor_text :: "(string \<times> int) list \<Rightarrow> string \<Rightarrow> string" where
  "no_executor_text reg ty =
     ''No executor is registered for job type '' @ [CHR 0x22] @ ty @ [CHR 0x22]
     @ '', so this job can never run. Registered types: '' @ types_text reg @ ''.''"

record queue_config =
  qc_registry :: "(string \<times> int) list"
  qc_retry_base :: "int option"
  qc_retry_max :: "int option"

definition execute ::
    "queue_config \<Rightarrow> job_row \<Rightarrow> handler_outcome \<Rightarrow> int \<Rightarrow> job_row list \<Rightarrow> execution_verdict \<times> job_row list" where
  "execute cfg job outcome now rows =
     (case map_of (qc_registry cfg) (jr_type job) of
        None \<Rightarrow>
          (ExecDeadLetter,
           snd (snd (failAttempt (qc_retry_base cfg) (qc_retry_max cfg) job
                       (no_executor_text (qc_registry cfg) (jr_type job)) True now rows)))
      | Some _ \<Rightarrow>
          (case outcome of
             Returned v \<Rightarrow>
               (case completeJob (jr_id job) v now rows of
                  (None, rows') \<Rightarrow> (ExecRetry, rows')
                | (Some _, rows') \<Rightarrow> (ExecSucceeded, rows'))
           | Threw message permanent \<Rightarrow>
               (case failAttempt (qc_retry_base cfg) (qc_retry_max cfg) job message permanent now rows of
                  (FailRetry _, _, rows') \<Rightarrow> (ExecRetry, rows')
                | (FailDeadLetter, _, rows') \<Rightarrow> (ExecDeadLetter, rows'))))"

record drain_summary =
  ds_claimed :: nat
  ds_succeeded :: nat
  ds_retried :: nat
  ds_dead :: nat
  ds_requeued :: nat

definition count_verdict :: "execution_verdict \<Rightarrow> drain_summary \<Rightarrow> drain_summary" where
  "count_verdict v s =
     (case v of
        ExecSucceeded \<Rightarrow> s\<lparr>ds_succeeded := ds_succeeded s + 1\<rparr>
      | ExecRetry \<Rightarrow> s\<lparr>ds_retried := ds_retried s + 1\<rparr>
      | ExecDeadLetter \<Rightarrow> s\<lparr>ds_dead := ds_dead s + 1\<rparr>)"

text \<open>
  The batch loop of one worker. \<open>handler\<close> answers for the job it is given, and \<open>clock n\<close> is the
  time of the n-th claim; each execution ends before the next claim, at \<open>clock (n + 1)\<close>.
  A failing statement ends the drain with its error.
\<close>

fun drain_loop ::
    "queue_config \<Rightarrow> string \<Rightarrow> (job_row \<Rightarrow> handler_outcome) \<Rightarrow> (nat \<Rightarrow> int) \<Rightarrow> nat \<Rightarrow> nat
       \<Rightarrow> drain_summary \<Rightarrow> job_row list \<Rightarrow> (job_error, drain_summary \<times> job_row list) result" where
  "drain_loop cfg worker handler clock 0 n s rows = Inr (s, rows)"
| "drain_loop cfg worker handler clock (Suc k) n s rows =
     bind_result (claimOn [] worker (clock n) rows) (\<lambda>(claimed, rows1).
       case claimed of
         None \<Rightarrow> Inr (s, rows1)
       | Some job \<Rightarrow>
           (case execute cfg job (handler job) (clock (n + 1)) rows1 of
              (v, rows2) \<Rightarrow>
                drain_loop cfg worker handler clock k (n + 1)
                  (count_verdict v (s\<lparr>ds_claimed := ds_claimed s + 1\<rparr>)) rows2))"

definition drainTenant ::
    "queue_config \<Rightarrow> string \<Rightarrow> int \<Rightarrow> nat \<Rightarrow> (job_row \<Rightarrow> handler_outcome) \<Rightarrow> (nat \<Rightarrow> int) \<Rightarrow> job_row list
       \<Rightarrow> (job_error, drain_summary \<times> job_row list) result" where
  "drainTenant cfg worker staleAfterMs batch handler clock rows =
     (case reapStuck staleAfterMs (clock 0) rows of
        ((requeued, dead), rows1) \<Rightarrow>
          drain_loop cfg worker handler clock (max 1 batch) 0
            \<lparr>ds_claimed = 0, ds_succeeded = 0, ds_retried = 0, ds_dead = dead, ds_requeued = requeued\<rparr> rows1)"

subsection \<open>The queue as a machine\<close>

record queue_state =
  qs_rows :: "job_row list"
  qs_next :: nat
  qs_running :: "job_row list"

text \<open>
  \<open>qs_running\<close> holds the executions in flight, on any number of workers: the row each claim
  returned. \<open>QCrash\<close> is a worker that dies without writing.
\<close>

datatype queue_event =
    QCreate string job_request int
  | QCancel nat "string option" int
  | QReschedule nat int int
  | QClaim "nat list" string int
  | QProgress nat int int
  | QFinish nat handler_outcome int
  | QCrash nat
  | QReap int int

fun queue_step :: "queue_config \<Rightarrow> queue_event \<Rightarrow> queue_state \<Rightarrow> queue_state option" where
  "queue_step cfg (QCreate user q now) st =
     (case createOn (qc_registry cfg) (qs_next st) user now q (qs_rows st) of
        Inl _ \<Rightarrow> Some st
      | Inr (_, rows) \<Rightarrow> Some (st\<lparr>qs_rows := rows, qs_next := qs_next st + 1\<rparr>))"
| "queue_step cfg (QCancel i reason now) st =
     Some (st\<lparr>qs_rows := snd (cancelOn i reason now (qs_rows st))\<rparr>)"
| "queue_step cfg (QReschedule i runAt now) st =
     Some (st\<lparr>qs_rows := snd (rescheduleOn i runAt now (qs_rows st))\<rparr>)"
| "queue_step cfg (QClaim locked worker now) st =
     (case claimOn locked worker now (qs_rows st) of
        Inl _ \<Rightarrow> Some st
      | Inr (None, _) \<Rightarrow> Some st
      | Inr (Some r, rows) \<Rightarrow> Some (st\<lparr>qs_rows := rows, qs_running := qs_running st @ [r]\<rparr>))"
| "queue_step cfg (QProgress x percent now) st =
     (if x < length (qs_running st)
      then Some (st\<lparr>qs_rows := reportProgress (jr_id (qs_running st ! x)) percent now (qs_rows st)\<rparr>)
      else None)"
| "queue_step cfg (QFinish x outcome now) st =
     (if x < length (qs_running st)
      then Some (st\<lparr>qs_rows := snd (execute cfg (qs_running st ! x) outcome now (qs_rows st)),
                    qs_running := drop_index x (qs_running st)\<rparr>)
      else None)"
| "queue_step cfg (QCrash x) st =
     (if x < length (qs_running st) then Some (st\<lparr>qs_running := drop_index x (qs_running st)\<rparr>) else None)"
| "queue_step cfg (QReap staleAfterMs now) st =
     Some (st\<lparr>qs_rows := snd (reapStuck staleAfterMs now (qs_rows st))\<rparr>)"

definition empty_queue :: queue_state where
  "empty_queue = \<lparr>qs_rows = [], qs_next = 0, qs_running = []\<rparr>"

subsection \<open>Rows and how statements act on them\<close>

definition terminal :: "job_row \<Rightarrow> bool" where
  "terminal r \<longleftrightarrow> jr_status r \<in> {Succeeded, Cancelled, DeadLetter}"

definition row_wf :: "job_row \<Rightarrow> bool" where
  "row_wf r \<longleftrightarrow>
     0 \<le> jr_attempts r \<and> jr_attempts r \<le> jr_max_attempts r + 1 \<and> 0 \<le> jr_progress r \<and> jr_progress r \<le> 100
     \<and> (jr_status r = Running \<longleftrightarrow> jr_claimed_by r \<noteq> None) \<and> (jr_status r = Running \<longleftrightarrow> jr_heartbeat_at r \<noteq> None)
     \<and> (terminal r \<longrightarrow> jr_completed_at r \<noteq> None) \<and> (jr_status r = Running \<longrightarrow> 1 \<le> jr_attempts r)"

text \<open>A row keeps its identity, never loses an attempt and does not change once terminal.\<close>

definition evolves :: "job_row \<Rightarrow> job_row \<Rightarrow> bool" where
  "evolves r r' \<longleftrightarrow>
     jr_id r' = jr_id r \<and> jr_type r' = jr_type r \<and> jr_key r' = jr_key r \<and> jr_input r' = jr_input r
     \<and> jr_max_attempts r' = jr_max_attempts r \<and> jr_created_at r' = jr_created_at r
     \<and> jr_attempts r \<le> jr_attempts r' \<and> (terminal r \<longrightarrow> r' = r)"

definition acts :: "(job_row \<Rightarrow> job_row) \<Rightarrow> job_row list \<Rightarrow> bool" where
  "acts g rows \<longleftrightarrow> (\<forall>r \<in> set rows. row_wf r \<longrightarrow> row_wf (g r) \<and> evolves r (g r))"

lemmas row_rules = row_wf_def evolves_def terminal_def

lemma evolves_refl: "evolves r r"
  by (simp add: evolves_def)

lemma evolves_trans: "evolves a b \<Longrightarrow> evolves b c \<Longrightarrow> evolves a c"
  unfolding evolves_def by auto

lemma acts_id: "acts (\<lambda>r. r) rows"
  by (simp add: acts_def evolves_refl)

lemma acts_if: "(\<And>r. r \<in> set rows \<Longrightarrow> row_wf r \<Longrightarrow> P r \<Longrightarrow> row_wf (f r) \<and> evolves r (f r))
    \<Longrightarrow> acts (\<lambda>r. if P r then f r else r) rows"
  by (auto simp: acts_def evolves_refl)

lemma acts_comp: "acts g rows \<Longrightarrow> acts h (map g rows) \<Longrightarrow> acts (\<lambda>r. h (g r)) rows"
  unfolding acts_def by (auto intro: evolves_trans)

text \<open>The statements that update rows in place, as actions on rows.\<close>

lemma snd_update_one: "snd (update_one P f rows) = map (\<lambda>r. if P r then f r else r) rows"
  by (simp add: update_one_def update_where_def)

definition in_place :: "job_row list \<Rightarrow> job_row list \<Rightarrow> bool" where
  "in_place rows rows' \<longleftrightarrow> (\<exists>g. rows' = map g rows \<and> acts g rows)"

lemma in_place_refl: "in_place rows rows"
  unfolding in_place_def by (intro exI [of _ "\<lambda>r. r"]) (simp add: acts_id)

lemma in_place_trans: "in_place a b \<Longrightarrow> in_place b c \<Longrightarrow> in_place a c"
  unfolding in_place_def
proof (elim exE conjE)
  fix g h assume "b = map g a" "acts g a" "c = map h b" "acts h b"
  then show "\<exists>k. c = map k a \<and> acts k a"
    using acts_comp [of g a h] by (intro exI [of _ "\<lambda>r. h (g r)"]) simp
qed

lemma in_place_if:
  assumes "\<And>r. r \<in> set rows \<Longrightarrow> row_wf r \<Longrightarrow> P r \<Longrightarrow> row_wf (f r) \<and> evolves r (f r)"
  shows "in_place rows (map (\<lambda>r. if P r then f r else r) rows)"
  unfolding in_place_def
  by (rule exI [of _ "\<lambda>r. if P r then f r else r"]) (simp add: acts_if assms)

lemma in_place_update:
  "(\<And>r. r \<in> set rows \<Longrightarrow> row_wf r \<Longrightarrow> P r \<Longrightarrow> row_wf (f r) \<and> evolves r (f r)) \<Longrightarrow> in_place rows (update_where P f rows)"
  unfolding update_where_def by (rule in_place_if)

lemma live_row_updates:
  assumes "\<not> terminal r" and "row_wf r"
  shows "row_wf (cancelled_row reason now r) \<and> evolves r (cancelled_row reason now r)"
    "row_wf (dead_row txt now r) \<and> evolves r (dead_row txt now r)"
    "row_wf (expired_dead_row now r) \<and> evolves r (expired_dead_row now r)"
    "row_wf (requeued_row txt t now r) \<and> evolves r (requeued_row txt t now r)"
    "row_wf (completed_row v now r) \<and> evolves r (completed_row v now r)"
  using assms
  by (simp_all add: row_rules cancelled_row_def dead_row_def expired_dead_row_def requeued_row_def
      completed_row_def Let_def)

lemma cancelOn_in_place: "in_place rows (snd (cancelOn i reason now rows))"
  unfolding cancelOn_def snd_update_one
  by (rule in_place_if, rule live_row_updates(1)) (auto simp: terminal_def)

lemma rescheduleOn_in_place: "in_place rows (snd (rescheduleOn i t now rows))"
  unfolding rescheduleOn_def snd_update_one
  by (rule in_place_if) (simp add: row_rules)

lemma reportProgress_in_place: "in_place rows (reportProgress i p now rows)"
  unfolding reportProgress_def
  by (rule in_place_update) (simp add: row_rules running_row_def)

text \<open>How an execution leaves the row it holds.\<close>

definition settles :: "job_row \<Rightarrow> job_row \<Rightarrow> job_row \<Rightarrow> bool" where
  "settles job r r' \<longleftrightarrow>
     (row_wf r \<longrightarrow> row_wf r') \<and> evolves r r' \<and> jr_attempts r' = jr_attempts r \<and> jr_status r' \<noteq> Running
     \<and> (jr_status r' = Queued \<longrightarrow> jr_attempts job < jr_max_attempts job)"

lemma settles_rows:
  assumes "jr_status r = Running"
  shows "settles job r (completed_row v now r)" "settles job r (dead_row txt now r)"
    "jr_attempts job < jr_max_attempts job \<Longrightarrow> settles job r (requeued_row txt t now r)"
  using assms by (simp_all add: settles_def row_rules completed_row_def dead_row_def requeued_row_def)

definition settled :: "job_row \<Rightarrow> job_row list \<Rightarrow> job_row list \<Rightarrow> bool" where
  "settled job rows rows' \<longleftrightarrow>
     (\<exists>f. rows' = map (\<lambda>r. if running_row (jr_id job) r then f r else r) rows
        \<and> (\<forall>r. jr_status r = Running \<longrightarrow> settles job r (f r)))"

lemma settledI:
  "(\<And>r. jr_status r = Running \<Longrightarrow> settles job r (f r)) \<Longrightarrow> settled job rows (snd (update_one (running_row (jr_id job)) f rows))"
  unfolding settled_def snd_update_one by (rule exI [of _ f]) simp

lemma failAttempt_settled: "settled job rows (snd (snd (failAttempt b m job msg p now rows)))"
  unfolding failAttempt_def
  by (cases "p \<or> jr_attempts job \<ge> jr_max_attempts job") (auto simp: Let_def intro!: settledI settles_rows)

lemma completeJob_settled: "settled job rows (snd (completeJob (jr_id job) v now rows))"
  unfolding completeJob_def by (rule settledI) (rule settles_rows)

lemma snd_execute:
  "snd (execute cfg job out now rows) =
     (case map_of (qc_registry cfg) (jr_type job) of
        None \<Rightarrow> snd (snd (failAttempt (qc_retry_base cfg) (qc_retry_max cfg) job
                       (no_executor_text (qc_registry cfg) (jr_type job)) True now rows))
      | Some _ \<Rightarrow>
          (case out of
             Returned v \<Rightarrow> snd (completeJob (jr_id job) v now rows)
           | Threw m p \<Rightarrow> snd (snd (failAttempt (qc_retry_base cfg) (qc_retry_max cfg) job m p now rows))))"
  unfolding execute_def by (auto split: option.splits handler_outcome.splits prod.splits fail_outcome.splits)

lemma execute_settled: "settled job rows (snd (execute cfg job out now rows))"
  unfolding snd_execute
  by (simp add: failAttempt_settled completeJob_settled split: option.splits handler_outcome.splits)

lemma settled_in_place: "settled job rows rows' \<Longrightarrow> in_place rows rows'"
  unfolding settled_def settles_def running_row_def by (auto intro!: in_place_if)

lemma reapStuck_in_place: "in_place rows (snd (reapStuck s now rows))"
  unfolding reapStuck_def Let_def snd_conv
  by (rule in_place_trans; rule in_place_update; rule live_row_updates) (auto simp: terminal_def stale_def)

interpretation claims: ranking claim_order
  unfolding claim_order_def by (intro cmp_rules)

lemma returning_by_id:
  assumes "distinct (map jr_id rows)" and "r \<in> set rows"
  shows "update_one (\<lambda>x. jr_id x = jr_id r) f rows = (Some (f r), map (\<lambda>x. if x = r then f r else x) rows)"
proof -
  have "filter (\<lambda>x. jr_id x = jr_id r) rows = [r]"
    using assms
  proof (induction rows)
    case (Cons a rows)
    show ?case
    proof (cases "r = a")
      case True
      with Cons.prems show ?thesis by (auto simp: filter_empty_conv image_iff)
    next
      case False
      with Cons.prems have "jr_id a \<noteq> jr_id r" "r \<in> set rows" by auto
      with Cons show ?thesis by simp
    qed
  qed simp
  moreover have "map (\<lambda>x. if jr_id x = jr_id r then f x else x) rows = map (\<lambda>x. if x = r then f r else x) rows"
    using distinct_keys_unique [OF assms(1)] assms(2) by (intro map_cong) auto
  ultimately show ?thesis by (simp add: update_one_def returning_def update_where_def)
qed

lemma claimOn_cases:
  assumes "claimOn locked worker now rows = Inr (c, rows')" and "distinct (map jr_id rows)"
  shows "(c = None \<and> rows' = rows \<and> (\<forall>r \<in> set rows. due now r \<longrightarrow> jr_id r \<in> set locked))
    \<or> (\<exists>r \<in> set rows. due now r \<and> jr_id r \<notin> set locked \<and> jr_attempts r \<le> jr_max_attempts r
        \<and> (\<forall>x \<in> set rows. due now x \<and> jr_id x \<notin> set locked \<longrightarrow> claim_order r x \<le> 0)
        \<and> c = Some (claimed_row worker now r)
        \<and> rows' = map (\<lambda>x. if x = r then claimed_row worker now r else x) rows)"
proof -
  let ?cs = "filter (\<lambda>r. due now r \<and> jr_id r \<notin> set locked) rows"
  show ?thesis
  proof (cases "sort_cmp claim_order ?cs")
    case Nil
    then have "?cs = []" by simp
    with assms(1) show ?thesis by (auto simp: claimOn_def filter_empty_conv)
  next
    case (Cons r rs)
    have r: "r \<in> set ?cs" using set_sort_cmp [of claim_order ?cs] unfolding Cons by (metis list.set_intros(1))
    have least: "\<forall>x \<in> set ?cs. claim_order r x \<le> 0"
      using claims.sort_cmp_hd_least [of _ ?cs] unfolding Cons list.sel by blast
    from assms(1) Cons have "jr_attempts r \<le> jr_max_attempts r"
      and "update_one (\<lambda>x. jr_id x = jr_id r) (claimed_row worker now) rows = (c, rows')"
      by (auto simp: claimOn_def split: if_splits)
    with r least returning_by_id [OF assms(2), of r] show ?thesis by auto
  qed
qed

lemma claimOn_in_place:
  assumes "claimOn locked worker now rows = Inr (c, rows')" and "distinct (map jr_id rows)"
  shows "in_place rows rows'"
  using claimOn_cases [OF assms]
proof (elim disjE bexE conjE)
  assume "rows' = rows"
  then show ?thesis by (simp add: in_place_refl)
next
  fix r assume "due now r" "jr_attempts r \<le> jr_max_attempts r"
    and rows': "rows' = map (\<lambda>x. if x = r then claimed_row worker now r else x) rows"
  then have "in_place rows (map (\<lambda>x. if x = r then (\<lambda>_. claimed_row worker now r) x else x) rows)"
    by (intro in_place_if) (auto simp: row_rules claimed_row_def due_def)
  with rows' show ?thesis by simp
qed

text \<open>An insertion appends one fresh row, or returns an existing one and changes nothing.\<close>

lemma createOn_cases:
  assumes "createOn reg newId user now q rows = Inr (r, rows')"
  shows "rows' = rows \<or> (\<exists>mx. map_of reg (rq_type q) = Some mx \<and> r = new_job newId user now mx q
           \<and> rows' = rows @ [r] \<and> (\<forall>x \<in> set rows. \<not> same_key q x))"
  using assms
  by (auto simp: createOn_def prepare_job_def insert_job_def Let_def list_ex_iff
      split: if_splits option.splits jsval.splits)
subsection \<open>The queue's invariant\<close>

definition registry_ok :: "(string \<times> int) list \<Rightarrow> bool" where
  "registry_ok reg \<longleftrightarrow> distinct (map fst reg) \<and> (\<forall>(ty, n) \<in> set reg. 1 \<le> n \<and> n \<le> 50 \<and> job_type_ok ty)"

lemma register_ok: "register env ty requested reg = Inr reg' \<Longrightarrow> registry_ok reg \<Longrightarrow> registry_ok reg'"
  by (auto simp: registry_ok_def register_def map_of_eq_None_iff
      split: if_splits option.splits dest: bounded_integer_bounds)

definition same_slot :: "job_row \<Rightarrow> job_row \<Rightarrow> bool" where
  "same_slot a b \<longleftrightarrow> jr_type a = jr_type b \<and> jr_key a \<noteq> None \<and> jr_key a = jr_key b"

definition unique_keys :: "job_row list \<Rightarrow> bool" where
  "unique_keys rows \<longleftrightarrow> (\<forall>a \<in> set rows. \<forall>b \<in> set rows. same_slot a b \<longrightarrow> a = b)"

lemma unique_keys_map:
  assumes "unique_keys rows" and "\<And>r. r \<in> set rows \<Longrightarrow> evolves r (g r)"
  shows "unique_keys (map g rows)"
proof -
  have "g a = g b" if "a \<in> set rows" "b \<in> set rows" "same_slot (g a) (g b)" for a b
  proof -
    from that(1,2) assms(2) have "evolves a (g a)" "evolves b (g b)" by blast+
    with that(3) have "same_slot a b" unfolding same_slot_def evolves_def by metis
    with that assms(1) show ?thesis by (auto simp: unique_keys_def)
  qed
  then show ?thesis by (simp add: unique_keys_def)
qed

lemma unique_keys_append:
  assumes "unique_keys rows" and "\<And>x. x \<in> set rows \<Longrightarrow> \<not> same_slot x r"
  shows "unique_keys (rows @ [r])"
proof -
  have "\<not> same_slot r x" if "x \<in> set rows" for x using assms(2) [OF that] by (auto simp: same_slot_def)
  with assms show ?thesis by (auto simp: unique_keys_def)
qed

definition job_rows_ok :: "nat \<Rightarrow> job_row list \<Rightarrow> bool" where
  "job_rows_ok n rows \<longleftrightarrow>
     distinct (map jr_id rows) \<and> (\<forall>r \<in> set rows. jr_id r < n \<and> row_wf r \<and> 1 \<le> jr_max_attempts r)
     \<and> unique_keys rows"

definition queue_inv :: "queue_state \<Rightarrow> bool" where
  "queue_inv st \<longleftrightarrow>
     job_rows_ok (qs_next st) (qs_rows st)
     \<and> (\<forall>e \<in> set (qs_running st). \<exists>r \<in> set (qs_rows st).
          jr_id r = jr_id e \<and> jr_max_attempts r = jr_max_attempts e \<and> 1 \<le> jr_attempts e \<and> jr_attempts e \<le> jr_attempts r)"

text \<open>What a step may do to the rows: evolve them in place, or append a fresh one.\<close>

definition rows_grow :: "job_row list \<Rightarrow> job_row list \<Rightarrow> bool" where
  "rows_grow rows rows' \<longleftrightarrow> (\<forall>r \<in> set rows. \<exists>r' \<in> set rows'. evolves r r')"

lemma rows_grow_refl: "rows_grow rows rows"
  unfolding rows_grow_def using evolves_refl by blast

lemma rows_grow_trans: "rows_grow a b \<Longrightarrow> rows_grow b c \<Longrightarrow> rows_grow a c"
  unfolding rows_grow_def using evolves_trans by blast

lemma in_place_grow: "in_place rows rows' \<Longrightarrow> job_rows_ok n rows \<Longrightarrow> rows_grow rows rows'"
  unfolding in_place_def acts_def rows_grow_def job_rows_ok_def by auto

lemma in_place_rows_ok:
  assumes "in_place rows rows'" and ok: "job_rows_ok n rows"
  shows "job_rows_ok n rows'"
proof -
  obtain g where g: "rows' = map g rows" "acts g rows" using assms(1) by (auto simp: in_place_def)
  have e: "evolves r (g r) \<and> row_wf (g r)" if "r \<in> set rows" for r
    using g(2) ok that by (auto simp: acts_def job_rows_ok_def)
  then have k: "jr_id (g r) = jr_id r" "jr_type (g r) = jr_type r" "jr_key (g r) = jr_key r"
      "jr_max_attempts (g r) = jr_max_attempts r" if "r \<in> set rows" for r
    using that by (auto simp: evolves_def)
  then have "map jr_id (map g rows) = map jr_id rows" by simp
  then have "distinct (map jr_id (map g rows))" using ok by (simp only: job_rows_ok_def)
  moreover have "unique_keys (map g rows)" using ok e by (intro unique_keys_map) (auto simp: job_rows_ok_def)
  ultimately show ?thesis using ok e k unfolding g(1) job_rows_ok_def by auto
qed

lemma job_rows_ok_append:
  assumes "job_rows_ok n rows" and "row_wf r" "jr_id r = n" "1 \<le> jr_max_attempts r"
    and "\<And>x. x \<in> set rows \<Longrightarrow> \<not> same_slot x r"
  shows "job_rows_ok (n + 1) (rows @ [r])"
  using assms unique_keys_append [of rows r] unfolding job_rows_ok_def by (auto simp: less_Suc_eq)

lemma queue_inv_rows:
  assumes "queue_inv st" and "rows_grow (qs_rows st) rows" and "job_rows_ok n rows"
    and "set es \<subseteq> set (qs_running st)"
  shows "queue_inv (st\<lparr>qs_rows := rows, qs_next := n, qs_running := es\<rparr>)"
proof -
  have "\<exists>r \<in> set rows. jr_id r = jr_id e \<and> jr_max_attempts r = jr_max_attempts e
      \<and> 1 \<le> jr_attempts e \<and> jr_attempts e \<le> jr_attempts r" if e: "e \<in> set es" for e
  proof -
    from e assms(1,4) obtain r where "r \<in> set (qs_rows st)" "jr_id r = jr_id e" "jr_max_attempts r = jr_max_attempts e"
      "1 \<le> jr_attempts e" "jr_attempts e \<le> jr_attempts r"
      unfolding queue_inv_def by blast
    moreover from this(1) assms(2) obtain r' where "r' \<in> set rows" "evolves r r'" unfolding rows_grow_def by blast
    ultimately show ?thesis unfolding evolves_def by (intro bexI [of _ r']) auto
  qed
  with assms(3) show ?thesis by (simp add: queue_inv_def)
qed

lemma create_step:
  assumes "queue_inv st" and "registry_ok (qc_registry cfg)"
    and "createOn (qc_registry cfg) (qs_next st) user now q (qs_rows st) = Inr (r, rows)"
  shows "rows_grow (qs_rows st) rows \<and> job_rows_ok (qs_next st + 1) rows"
  using createOn_cases [OF assms(3)]
proof (elim disjE exE conjE)
  assume "rows = qs_rows st"
  with assms(1) show ?thesis by (auto simp: queue_inv_def job_rows_ok_def rows_grow_refl less_SucI)
next
  fix mx assume m: "map_of (qc_registry cfg) (rq_type q) = Some mx"
    and r: "r = new_job (qs_next st) user now mx q" and rows: "rows = qs_rows st @ [r]"
    and k: "\<forall>x \<in> set (qs_rows st). \<not> same_key q x"
  from m assms(2) have "1 \<le> mx" by (auto simp: registry_ok_def dest: map_of_SomeD)
  then have "row_wf r" "jr_id r = qs_next st" "1 \<le> jr_max_attempts r"
    by (simp_all add: r new_job_def row_rules)
  moreover have "jr_key r = rq_key q" "jr_type r = rq_type q" by (simp_all add: r new_job_def)
  ultimately have "job_rows_ok (qs_next st + 1) rows"
    unfolding rows using assms(1) k by (intro job_rows_ok_append) (auto simp: queue_inv_def same_key_def same_slot_def)
  moreover have "rows_grow (qs_rows st) rows" unfolding rows rows_grow_def using evolves_refl by auto
  ultimately show ?thesis by simp
qed

lemma queue_step_effect:
  assumes inv: "queue_inv st" and reg: "registry_ok (qc_registry cfg)" and step: "queue_step cfg ev st = Some st'"
  shows "queue_inv st' \<and> rows_grow (qs_rows st) (qs_rows st')"
proof -
  have ok: "job_rows_ok (qs_next st) (qs_rows st)" and d: "distinct (map jr_id (qs_rows st))"
    using inv by (simp_all add: queue_inv_def job_rows_ok_def)
  have place: "queue_inv (st\<lparr>qs_rows := rows, qs_running := es\<rparr>) \<and> rows_grow (qs_rows st) rows"
    if "in_place (qs_rows st) rows" "set es \<subseteq> set (qs_running st)" for rows es
    using queue_inv_rows [OF inv in_place_grow [OF that(1) ok] in_place_rows_ok [OF that(1) ok] that(2)]
      in_place_grow [OF that(1) ok] by simp
  have same: "st\<lparr>qs_rows := rows\<rparr> = st\<lparr>qs_rows := rows, qs_running := qs_running st\<rparr>"
    "st\<lparr>qs_running := es\<rparr> = st\<lparr>qs_rows := qs_rows st, qs_running := es\<rparr>" for rows es
    by simp_all
  show ?thesis
  proof (cases ev)
    case (QCreate user q now)
    show ?thesis
    proof (cases "createOn (qc_registry cfg) (qs_next st) user now q (qs_rows st)")
      case (Inl e)
      with step QCreate inv show ?thesis by (simp add: rows_grow_refl)
    next
      case (Inr p)
      then obtain r rows where p: "createOn (qc_registry cfg) (qs_next st) user now q (qs_rows st) = Inr (r, rows)"
        by (cases p) simp
      from create_step [OF inv reg p] queue_inv_rows [OF inv _ _ subset_refl]
      have "queue_inv (st\<lparr>qs_rows := rows, qs_next := qs_next st + 1, qs_running := qs_running st\<rparr>)" by blast
      with create_step [OF inv reg p] step QCreate p show ?thesis by auto
    qed
  next
    case (QClaim locked worker now)
    show ?thesis
    proof (cases "claimOn locked worker now (qs_rows st)")
      case (Inl e)
      with step QClaim inv show ?thesis by (simp add: rows_grow_refl)
    next
      case (Inr p)
      then obtain c rows where p: "claimOn locked worker now (qs_rows st) = Inr (c, rows)" by (cases p) simp
      note g = place [OF claimOn_in_place [OF p d] subset_refl]
      show ?thesis
      proof (cases c)
        case None
        with step QClaim p inv show ?thesis by (simp add: rows_grow_refl)
      next
        case (Some r)
        with step QClaim p have st': "st' = st\<lparr>qs_rows := rows, qs_running := qs_running st @ [r]\<rparr>" by simp
        from claimOn_cases [OF p d] Some obtain x where x: "x \<in> set (qs_rows st)" "r = claimed_row worker now x"
          "rows = map (\<lambda>y. if y = x then claimed_row worker now x else y) (qs_rows st)" by auto
        with ok have "r \<in> set rows" "1 \<le> jr_attempts r"
          by (auto simp: job_rows_ok_def row_rules claimed_row_def)
        with g st' show ?thesis by (auto simp: queue_inv_def)
      qed
    qed
  next
    case (QFinish x out now)
    with step place [OF settled_in_place [OF execute_settled] set_drop_index] show ?thesis
      by (auto split: if_splits)
  next
    case (QProgress x p now)
    with step place [OF reportProgress_in_place subset_refl] show ?thesis
      by (auto split: if_splits)
  next
    case (QCrash x)
    with step place [OF in_place_refl set_drop_index] show ?thesis by (auto split: if_splits)
  qed (use step place [OF cancelOn_in_place subset_refl] place [OF rescheduleOn_in_place subset_refl]
        place [OF reapStuck_in_place subset_refl] in \<open>auto\<close>)
qed

definition sound_queue :: "queue_config \<Rightarrow> queue_state \<Rightarrow> bool" where
  "sound_queue cfg st \<longleftrightarrow> registry_ok (qc_registry cfg) \<and> queue_inv st"

interpretation queue: invariant_machine "queue_step cfg" "\<lambda>_ _. True" "sound_queue cfg" for cfg
  by unfold_locales (use queue_step_effect in \<open>auto simp: sound_queue_def\<close>)

lemma queue_inv_empty: "queue_inv empty_queue"
  by (simp add: queue_inv_def job_rows_ok_def unique_keys_def empty_queue_def)

lemma reachable_queue:
  assumes "registry_ok (qc_registry cfg)" and "run_steps (queue_step cfg) es empty_queue = Some st"
  shows "sound_queue cfg st"
  by (rule queue.run_inv [OF _ queue.ok_run_total assms(2)]) (simp_all add: sound_queue_def assms(1) queue_inv_empty)

lemma queue_run_grows:
  assumes "sound_queue cfg st" and "run_steps (queue_step cfg) es st = Some st'"
  shows "rows_grow (qs_rows st) (qs_rows st')"
  by (rule queue.run_related [where R = "\<lambda>s t. rows_grow (qs_rows s) (qs_rows t)",
        OF rows_grow_refl rows_grow_trans _ assms(1) queue.ok_run_total assms(2)])
    (use queue_step_effect in \<open>auto simp: sound_queue_def\<close>)

text \<open>C13. Whatever the interleaving of submissions, cancellations, reschedules, claims, heartbeats,
  completions, failures, crashes and reaps, on any number of workers and with stale ones among them:
  identifiers and idempotency keys stay unique, every row is well formed, and a row that has
  reached a terminal state is never changed again while no row is lost or loses an attempt.\<close>

theorem queue_rows_well_formed:
  assumes "registry_ok (qc_registry cfg)"
    and "run_steps (queue_step cfg) es empty_queue = Some st" and "run_steps (queue_step cfg) fs st = Some st'"
  shows "distinct (map jr_id (qs_rows st)) \<and> unique_keys (qs_rows st) \<and> list_all row_wf (qs_rows st)
    \<and> rows_grow (qs_rows st) (qs_rows st')
    \<and> (\<forall>r \<in> set (qs_rows st). terminal r \<longrightarrow> r \<in> set (qs_rows st'))"
proof -
  have inv: "sound_queue cfg st" by (rule reachable_queue [OF assms(1,2)])
  have grow: "rows_grow (qs_rows st) (qs_rows st')" by (rule queue_run_grows [OF inv assms(3)])
  then have "\<forall>r \<in> set (qs_rows st). terminal r \<longrightarrow> r \<in> set (qs_rows st')"
    unfolding rows_grow_def evolves_def by metis
  with inv grow show ?thesis by (simp add: sound_queue_def queue_inv_def job_rows_ok_def list_all_iff)
qed

definition example_config :: queue_config where
  "example_config = \<lparr>qc_registry = [(''demo.run'', 3)], qc_retry_base = Some 5000, qc_retry_max = Some 300000\<rparr>"

definition example_request :: job_request where
  "example_request = \<lparr>rq_type = ''demo.run'', rq_input = JObj, rq_key = Some ''demo-key-1'', rq_run_at = None\<rparr>"

lemma queue_rows_well_formed_witness:
  "\<exists>st st' r. run_steps (queue_step example_config) [QCreate ''u'' example_request 0, QCancel 0 None 5] empty_queue = Some st
     \<and> run_steps (queue_step example_config) [QClaim [] ''w'' 9] st = Some st'
     \<and> r \<in> set (qs_rows st) \<and> terminal r \<and> r \<in> set (qs_rows st')"
proof -
  let ?a = "run_steps (queue_step example_config) [QCreate ''u'' example_request 0, QCancel 0 None 5] empty_queue"
  let ?b = "run_steps (queue_step example_config) [QClaim [] ''w'' 9] (the ?a)"
  have c: "?a \<noteq> None \<and> ?b \<noteq> None \<and> (case qs_rows (the ?a) of [r] \<Rightarrow> terminal r | _ \<Rightarrow> False)
      \<and> registry_ok (qc_registry example_config)"
    by code_simp
  then obtain r where r: "qs_rows (the ?a) = [r]" "terminal r" by (auto split: list.splits)
  from c have a: "?a = Some (the ?a)" and b: "?b = Some (the ?b)" by simp_all
  from queue_rows_well_formed [OF conjunct2 [OF conjunct2 [OF conjunct2 [OF c]]] a b] r
  have "r \<in> set (qs_rows (the ?b))" by simp
  with a b r show ?thesis by (metis list.set_intros(1))
qed

subsection \<open>Which job a claim takes\<close>

lemma claimOn_fails:
  assumes "claimOn locked worker now rows = Inl e"
  shows "e = CheckViolation \<and> (\<exists>r \<in> set rows. due now r \<and> jr_id r \<notin> set locked \<and> jr_attempts r > jr_max_attempts r)"
proof -
  let ?cs = "filter (\<lambda>r. due now r \<and> jr_id r \<notin> set locked) rows"
  from assms obtain c cs where c: "sort_cmp claim_order ?cs = c # cs" "jr_attempts c > jr_max_attempts c" "e = CheckViolation"
    by (auto simp: claimOn_def split: list.splits if_splits)
  then have "c \<in> set ?cs" using set_sort_cmp [of claim_order ?cs] by (metis list.set_intros(1))
  with c show ?thesis by auto
qed

text \<open>A claim takes a row that is queued, due and held by no other transaction, the earliest by
  due time and then by age, marks it running for that worker with one more attempt, and changes
  no other row. It takes none only when there is no such row, and fails only when the attempt
  count of the earliest one is already past its maximum.\<close>

theorem claimOn_earliest_due:
  assumes "distinct (map jr_id rows)"
  shows "case claimOn locked worker now rows of
      Inl e \<Rightarrow> e = CheckViolation \<and> (\<exists>r \<in> set rows. due now r \<and> jr_id r \<notin> set locked \<and> jr_attempts r > jr_max_attempts r)
    | Inr (None, rows') \<Rightarrow> rows' = rows \<and> (\<forall>r \<in> set rows. due now r \<longrightarrow> jr_id r \<in> set locked)
    | Inr (Some c, rows') \<Rightarrow>
        (\<exists>r \<in> set rows. jr_status r = Queued \<and> jr_next_attempt_at r \<le> now \<and> jr_id r \<notin> set locked
           \<and> c = claimed_row worker now r \<and> rows' = map (\<lambda>x. if x = r then c else x) rows
           \<and> (\<forall>x \<in> set rows. due now x \<and> jr_id x \<notin> set locked \<longrightarrow>
                jr_next_attempt_at r < jr_next_attempt_at x
                \<or> jr_next_attempt_at r = jr_next_attempt_at x \<and> jr_created_at r \<le> jr_created_at x))"
proof (cases "claimOn locked worker now rows")
  case (Inl e)
  with claimOn_fails [OF Inl] show ?thesis by auto
next
  case (Inr p)
  have order: "claim_order r x \<le> 0 \<Longrightarrow> jr_next_attempt_at r < jr_next_attempt_at x
      \<or> jr_next_attempt_at r = jr_next_attempt_at x \<and> jr_created_at r \<le> jr_created_at x" for r x
    by (auto simp: claim_order_def cmp_or_def cmp_key_def split: if_splits)
  obtain c rows' where p: "p = (c, rows')" by (cases p)
  from claimOn_cases [OF Inr [unfolded p] assms] show ?thesis
  proof (elim disjE bexE conjE)
    fix r assume r: "r \<in> set rows" "due now r" "jr_id r \<notin> set locked"
      "\<forall>x \<in> set rows. due now x \<and> jr_id x \<notin> set locked \<longrightarrow> claim_order r x \<le> 0"
      and c: "c = Some (claimed_row worker now r)"
      and rows': "rows' = map (\<lambda>x. if x = r then claimed_row worker now r else x) rows"
    from r(4) order have "\<forall>x \<in> set rows. due now x \<and> jr_id x \<notin> set locked \<longrightarrow>
        jr_next_attempt_at r < jr_next_attempt_at x
        \<or> jr_next_attempt_at r = jr_next_attempt_at x \<and> jr_created_at r \<le> jr_created_at x" by blast
    with r(1-3) show ?thesis unfolding Inr p c rows' by (auto simp: due_def intro!: bexI [of _ r])
  qed (simp add: Inr p)
qed

definition two_jobs :: "job_row list" where
  "two_jobs = [new_job 0 ''u'' 7 3 example_request, new_job 1 ''u'' 5 3 (example_request\<lparr>rq_key := None\<rparr>)]"

lemma claimOn_earliest_due_witness:
  "\<exists>c rows'. claimOn [] ''w'' 9 two_jobs = Inr (Some c, rows') \<and> jr_id c = 1
     \<and> (\<exists>r \<in> set two_jobs. c = claimed_row ''w'' 9 r)"
proof -
  have "(case claimOn [] ''w'' 9 two_jobs of Inr (Some c, _) \<Rightarrow> jr_id c = 1 | _ \<Rightarrow> False)" by code_simp
  then obtain c rows' where c: "claimOn [] ''w'' 9 two_jobs = Inr (Some c, rows')" "jr_id c = 1"
    by (auto split: sum.splits option.splits prod.splits)
  have "distinct (map jr_id two_jobs)" by code_simp
  from claimOn_earliest_due [OF this, where locked = "[]" and worker = "''w''" and now = 9] c show ?thesis by auto
qed

subsection \<open>One execution at a time\<close>

text \<open>
  A reaping pass is timely when it takes no row away from a worker that is still executing it: the
  claim timeout exceeds every gap between heartbeats.
\<close>

definition timely :: "queue_event \<Rightarrow> queue_state \<Rightarrow> bool" where
  "timely ev st \<longleftrightarrow>
     (case ev of
        QReap staleAfterMs now \<Rightarrow>
          (\<forall>r \<in> set (qs_rows st). stale (max 1 ((staleAfterMs + 500) div 1000)) now r \<longrightarrow>
             jr_id r \<notin> jr_id ` set (qs_running st))
      | _ \<Rightarrow> True)"

fun timely_run :: "queue_config \<Rightarrow> queue_event list \<Rightarrow> queue_state \<Rightarrow> bool" where
  "timely_run cfg [] st = True"
| "timely_run cfg (e # es) st =
     (timely e st \<and> (case queue_step cfg e st of None \<Rightarrow> True | Some st' \<Rightarrow> timely_run cfg es st'))"

definition exclusive :: "queue_state \<Rightarrow> bool" where
  "exclusive st \<longleftrightarrow>
     distinct (map jr_id (qs_running st))
     \<and> (\<forall>r \<in> set (qs_rows st). jr_attempts r \<le> jr_max_attempts r
          \<and> (jr_status r = Queued \<longrightarrow> jr_attempts r < jr_max_attempts r \<and> jr_id r \<notin> jr_id ` set (qs_running st))
          \<and> (\<forall>e \<in> set (qs_running st). jr_id e = jr_id r \<longrightarrow> jr_attempts e = jr_attempts r))"

text \<open>Statements that leave the attempts alone and queue no row that an execution holds.\<close>

lemma exclusive_update:
  assumes "exclusive st" and "rows = map g (qs_rows st)" and "set es \<subseteq> set (qs_running st)" and "distinct (map jr_id es)"
    and "\<And>r. r \<in> set (qs_rows st) \<Longrightarrow> jr_id (g r) = jr_id r \<and> jr_attempts (g r) = jr_attempts r
           \<and> jr_max_attempts (g r) = jr_max_attempts r"
    and "\<And>r. r \<in> set (qs_rows st) \<Longrightarrow> jr_status (g r) = Queued \<Longrightarrow>
           jr_status r = Queued \<or> jr_attempts r < jr_max_attempts r \<and> jr_id r \<notin> jr_id ` set es"
  shows "exclusive (st\<lparr>qs_rows := rows, qs_running := es\<rparr>)"
proof -
  have "jr_attempts (g r) \<le> jr_max_attempts (g r)
      \<and> (jr_status (g r) = Queued \<longrightarrow> jr_attempts (g r) < jr_max_attempts (g r) \<and> jr_id (g r) \<notin> jr_id ` set es)
      \<and> (\<forall>e \<in> set es. jr_id e = jr_id (g r) \<longrightarrow> jr_attempts e = jr_attempts (g r))"
    if r: "r \<in> set (qs_rows st)" for r
  proof -
    have x: "jr_attempts r \<le> jr_max_attempts r"
      "jr_status r = Queued \<Longrightarrow> jr_attempts r < jr_max_attempts r \<and> jr_id r \<notin> jr_id ` set (qs_running st)"
      "\<forall>e \<in> set (qs_running st). jr_id e = jr_id r \<longrightarrow> jr_attempts e = jr_attempts r"
      using assms(1) r unfolding exclusive_def by blast+
    have "jr_id r \<notin> jr_id ` set es" if "jr_status r = Queued" using x(2) [OF that] assms(3) by auto
    with x assms(3) assms(5) [OF r] assms(6) [OF r] show ?thesis by auto
  qed
  with assms(2,4) show ?thesis by (simp add: exclusive_def)
qed

lemma exclusive_same: "exclusive (st\<lparr>qs_rows := rows, qs_running := qs_running st\<rparr>) \<Longrightarrow> exclusive (st\<lparr>qs_rows := rows\<rparr>)"
  by simp

lemma exclusive_finish:
  assumes ex: "exclusive st" and inv: "queue_inv st" and x: "x < length (qs_running st)"
    and s: "settled (qs_running st ! x) (qs_rows st) rows"
  shows "exclusive (st\<lparr>qs_rows := rows, qs_running := drop_index x (qs_running st)\<rparr>)"
proof -
  let ?e = "qs_running st ! x"
  from s obtain f where rows: "rows = map (\<lambda>r. if running_row (jr_id ?e) r then f r else r) (qs_rows st)"
    and f: "\<And>r. jr_status r = Running \<Longrightarrow> settles ?e r (f r)" by (auto simp: settled_def)
  have d: "distinct (map jr_id (qs_running st))" using ex by (simp add: exclusive_def)
  have "map jr_id (qs_running st) =
      map jr_id (take x (qs_running st)) @ jr_id ?e # map jr_id (drop (Suc x) (qs_running st))"
    using arg_cong [OF id_take_nth_drop [OF x], of "map jr_id"] by simp
  with d have gone: "jr_id ?e \<notin> jr_id ` set (drop_index x (qs_running st))"
    by (auto simp: drop_index_def)
  show ?thesis
  proof (rule exclusive_update [OF ex rows set_drop_index distinct_drop_index [OF d]])
    fix r assume r: "r \<in> set (qs_rows st)"
    show "jr_id (if running_row (jr_id ?e) r then f r else r) = jr_id r
        \<and> jr_attempts (if running_row (jr_id ?e) r then f r else r) = jr_attempts r
        \<and> jr_max_attempts (if running_row (jr_id ?e) r then f r else r) = jr_max_attempts r"
      using f [of r] by (auto simp: settles_def evolves_def running_row_def)
    assume q: "jr_status (if running_row (jr_id ?e) r then f r else r) = Queued"
    show "jr_status r = Queued \<or> jr_attempts r < jr_max_attempts r \<and> jr_id r \<notin> jr_id ` set (drop_index x (qs_running st))"
    proof (cases "running_row (jr_id ?e) r")
      case True
      then have i: "jr_id r = jr_id ?e" "jr_status r = Running" by (simp_all add: running_row_def)
      with f q True have lt: "jr_attempts ?e < jr_max_attempts ?e" by (auto simp: settles_def)
      have e: "?e \<in> set (qs_running st)" using x by simp
      from inv e obtain r' where r': "r' \<in> set (qs_rows st)" "jr_id r' = jr_id ?e" "jr_max_attempts r' = jr_max_attempts ?e"
        unfolding queue_inv_def by blast
      have "distinct (map jr_id (qs_rows st))" using inv by (simp add: queue_inv_def job_rows_ok_def)
      then have "r' = r" by (rule distinct_keys_unique) (use r r' i in simp_all)
      moreover have "jr_attempts ?e = jr_attempts r" using ex r e i by (auto simp: exclusive_def)
      ultimately show ?thesis using lt r' i gone by simp
    qed (use q in simp)
  qed
qed

lemma exclusive_claim:
  assumes ex: "exclusive st" and r: "r \<in> set (qs_rows st)" "due now r" and d: "distinct (map jr_id (qs_rows st))"
  shows "exclusive (st\<lparr>qs_rows := map (\<lambda>x. if x = r then claimed_row w now r else x) (qs_rows st),
                      qs_running := qs_running st @ [claimed_row w now r]\<rparr>)"
proof -
  let ?c = "claimed_row w now r"
  have c: "jr_id ?c = jr_id r" "jr_attempts ?c = jr_attempts r + 1" "jr_max_attempts ?c = jr_max_attempts r" "jr_status ?c = Running"
    by (simp_all add: claimed_row_def)
  have q: "jr_attempts r < jr_max_attempts r" "jr_id r \<notin> jr_id ` set (qs_running st)"
    using ex r by (auto simp: exclusive_def due_def)
  have other: "jr_id x \<noteq> jr_id r" if "x \<in> set (qs_rows st)" "x \<noteq> r" for x
    using distinct_keys_unique [OF d that(1) r(1)] that(2) by blast
  have "distinct (map jr_id (qs_running st @ [?c]))" using ex q c by (auto simp: exclusive_def)
  moreover have "jr_attempts y \<le> jr_max_attempts y
      \<and> (jr_status y = Queued \<longrightarrow> jr_attempts y < jr_max_attempts y \<and> jr_id y \<notin> jr_id ` set (qs_running st @ [?c]))
      \<and> (\<forall>e \<in> set (qs_running st @ [?c]). jr_id e = jr_id y \<longrightarrow> jr_attempts e = jr_attempts y)"
    if "y \<in> set (map (\<lambda>x. if x = r then ?c else x) (qs_rows st))" for y
  proof -
    from that obtain x where x: "x \<in> set (qs_rows st)" and y: "y = (if x = r then ?c else x)" by auto
    show ?thesis
    proof (cases "x = r")
      case True
      with y c q show ?thesis by (auto simp: image_iff)
    next
      case False
      with ex x other [OF x False] y c show ?thesis by (auto simp: exclusive_def)
    qed
  qed
  ultimately have excl: "exclusive s'"
    if "qs_rows s' = map (\<lambda>x. if x = r then ?c else x) (qs_rows st)" "qs_running s' = qs_running st @ [?c]" for s'
    unfolding exclusive_def that by blast
  show ?thesis by (rule excl) simp_all
qed

lemma reapStuck_rows:
  "\<exists>g. snd (reapStuck s now rows) = map g rows
     \<and> (\<forall>r. jr_id (g r) = jr_id r \<and> jr_attempts (g r) = jr_attempts r \<and> jr_max_attempts (g r) = jr_max_attempts r
          \<and> (jr_status (g r) = Queued \<longrightarrow>
               jr_status r = Queued
               \<or> jr_attempts r < jr_max_attempts r \<and> stale (max 1 ((s + 500) div 1000)) now r))"
proof -
  let ?s = "max 1 ((s + 500) div 1000)"
  let ?d = "\<lambda>r. if stale ?s now r \<and> jr_attempts r \<ge> jr_max_attempts r then expired_dead_row now r else r"
  let ?l = "\<lambda>r. if stale ?s now r \<and> jr_attempts r < jr_max_attempts r
      then requeued_row (Some ''Worker claim expired; job requeued for another worker.'') now now r else r"
  have "snd (reapStuck s now rows) = map (\<lambda>r. ?l (?d r)) rows"
    by (simp add: reapStuck_def Let_def update_where_def)
  moreover have "jr_id (?l (?d r)) = jr_id r \<and> jr_attempts (?l (?d r)) = jr_attempts r
      \<and> jr_max_attempts (?l (?d r)) = jr_max_attempts r
      \<and> (jr_status (?l (?d r)) = Queued \<longrightarrow> jr_status r = Queued \<or> jr_attempts r < jr_max_attempts r \<and> stale ?s now r)" for r
    by (auto simp: expired_dead_row_def dead_row_def requeued_row_def stale_def)
  ultimately show ?thesis by blast
qed

lemma exclusive_in_place:
  assumes "exclusive st"
    and "\<And>r. jr_id (g r) = jr_id r \<and> jr_attempts (g r) = jr_attempts r \<and> jr_max_attempts (g r) = jr_max_attempts r"
    and "\<And>r. r \<in> set (qs_rows st) \<Longrightarrow> jr_status (g r) = Queued \<Longrightarrow>
           jr_status r = Queued \<or> jr_attempts r < jr_max_attempts r \<and> jr_id r \<notin> jr_id ` set (qs_running st)"
  shows "exclusive (st\<lparr>qs_rows := map g (qs_rows st)\<rparr>)"
  using exclusive_update [OF assms(1) refl subset_refl _ assms(2) assms(3)] assms(1)
  by (simp add: exclusive_def)

lemma exclusive_create:
  assumes ex: "exclusive st" and inv: "queue_inv st" and reg: "registry_ok (qc_registry cfg)"
    and c: "createOn (qc_registry cfg) (qs_next st) user now q (qs_rows st) = Inr (r, rows)"
  shows "exclusive (st\<lparr>qs_rows := rows, qs_next := n\<rparr>)"
  using createOn_cases [OF c]
proof (elim disjE exE conjE)
  assume "rows = qs_rows st"
  with ex show ?thesis by (simp add: exclusive_def)
next
  fix mx assume m: "map_of (qc_registry cfg) (rq_type q) = Some mx" and r: "r = new_job (qs_next st) user now mx q"
    and rows: "rows = qs_rows st @ [r]"
  from m reg have "1 \<le> mx" by (auto simp: registry_ok_def dest: map_of_SomeD)
  have "jr_id e < qs_next st" if e: "e \<in> set (qs_running st)" for e
  proof -
    from inv e obtain x where "x \<in> set (qs_rows st)" "jr_id x = jr_id e" unfolding queue_inv_def by blast
    with inv show ?thesis by (auto simp: queue_inv_def job_rows_ok_def)
  qed
  then have fresh: "\<forall>e \<in> set (qs_running st). jr_id e \<noteq> qs_next st" by force
  have "jr_id r = qs_next st" "jr_attempts r = 0" "jr_max_attempts r = mx" by (simp_all add: r new_job_def)
  with fresh \<open>1 \<le> mx\<close> have "jr_attempts r \<le> jr_max_attempts r
      \<and> (jr_status r = Queued \<longrightarrow> jr_attempts r < jr_max_attempts r \<and> jr_id r \<notin> jr_id ` set (qs_running st))
      \<and> (\<forall>e \<in> set (qs_running st). jr_id e = jr_id r \<longrightarrow> jr_attempts e = jr_attempts r)"
    by (auto simp: image_iff)
  with ex have "exclusive s" if "qs_rows s = qs_rows st @ [r]" "qs_running s = qs_running st" for s
    using that unfolding exclusive_def by (simp add: image_iff)
  then show ?thesis by (simp add: rows)
qed

lemma exclusive_step:
  assumes ex: "exclusive st" and inv: "queue_inv st" and reg: "registry_ok (qc_registry cfg)"
    and t: "timely ev st" and step: "queue_step cfg ev st = Some st'"
  shows "exclusive st'"
proof (cases ev)
  case (QCreate user q now)
  show ?thesis
  proof (cases "createOn (qc_registry cfg) (qs_next st) user now q (qs_rows st)")
    case (Inr p)
    with step QCreate exclusive_create [OF ex inv reg] show ?thesis by (cases p) auto
  qed (use step QCreate ex in simp)
next
  case (QCancel i reason now)
  have "exclusive (st\<lparr>qs_rows := map (\<lambda>r. if jr_id r = i \<and> (jr_status r = Queued \<or> jr_status r = Running)
      then cancelled_row reason now r else r) (qs_rows st)\<rparr>)"
    by (rule exclusive_in_place [OF ex]) (auto simp: cancelled_row_def Let_def split: if_splits)
  with step QCancel show ?thesis by (auto simp: cancelOn_def snd_update_one)
next
  case (QReschedule i t now)
  have "exclusive (st\<lparr>qs_rows := map (\<lambda>r. if jr_id r = i \<and> jr_status r = Queued
      then r\<lparr>jr_next_attempt_at := t, jr_updated_at := now\<rparr> else r) (qs_rows st)\<rparr>)"
    by (rule exclusive_in_place [OF ex]) (auto split: if_splits)
  with step QReschedule show ?thesis by (auto simp: rescheduleOn_def snd_update_one)
next
  case (QClaim locked w now)
  have d: "distinct (map jr_id (qs_rows st))" using inv by (simp add: queue_inv_def job_rows_ok_def)
  show ?thesis
  proof (cases "claimOn locked w now (qs_rows st)")
    case (Inr p)
    obtain c rows where p: "p = (c, rows)" by (cases p)
    from claimOn_cases [OF Inr [unfolded p] d] show ?thesis
    proof (elim disjE bexE conjE)
      assume "c = None"
      with step QClaim Inr p ex show ?thesis by simp
    next
      fix r assume r: "r \<in> set (qs_rows st)" "due now r" and c: "c = Some (claimed_row w now r)"
        and rows: "rows = map (\<lambda>x. if x = r then claimed_row w now r else x) (qs_rows st)"
      from step QClaim Inr p c
      have "st' = st\<lparr>qs_rows := rows, qs_running := qs_running st @ [claimed_row w now r]\<rparr>" by simp
      then show ?thesis unfolding rows by (simp only: exclusive_claim [OF ex r d])
    qed
  qed (use step QClaim ex in simp)
next
  case (QProgress x p now)
  have "exclusive (st\<lparr>qs_rows := map (\<lambda>r. if running_row (jr_id (qs_running st ! x)) r
      then r\<lparr>jr_progress := max 0 (min 100 p), jr_heartbeat_at := Some now, jr_updated_at := now\<rparr> else r) (qs_rows st)\<rparr>)"
    by (rule exclusive_in_place [OF ex]) (auto split: if_splits)
  with step QProgress show ?thesis by (auto simp: reportProgress_def update_where_def split: if_splits)
next
  case (QFinish x out now)
  with step exclusive_finish [OF ex inv _ execute_settled] show ?thesis by (auto split: if_splits)
next
  case (QCrash x)
  have "exclusive (st\<lparr>qs_rows := map (\<lambda>r. r) (qs_rows st), qs_running := drop_index x (qs_running st)\<rparr>)"
    using ex by (intro exclusive_update [OF ex refl set_drop_index] distinct_drop_index) (simp_all add: exclusive_def)
  with step QCrash show ?thesis by (auto split: if_splits)
next
  case (QReap s now)
  obtain g where g: "snd (reapStuck s now (qs_rows st)) = map g (qs_rows st)"
    "\<And>r. jr_id (g r) = jr_id r \<and> jr_attempts (g r) = jr_attempts r \<and> jr_max_attempts (g r) = jr_max_attempts r"
    "\<And>r. jr_status (g r) = Queued \<Longrightarrow>
       jr_status r = Queued \<or> jr_attempts r < jr_max_attempts r \<and> stale (max 1 ((s + 500) div 1000)) now r"
    using reapStuck_rows [of s now "qs_rows st"] by blast
  have "exclusive (st\<lparr>qs_rows := map g (qs_rows st)\<rparr>)"
    by (rule exclusive_in_place [OF ex g(2)]) (use g(3) t QReap in \<open>auto simp: timely_def\<close>)
  with step QReap g(1) show ?thesis by auto
qed

interpretation timely_queue: invariant_machine "queue_step cfg" timely "\<lambda>st. sound_queue cfg st \<and> exclusive st" for cfg
  by unfold_locales (use queue_step_effect exclusive_step in \<open>auto simp: sound_queue_def\<close>)

lemma timely_run_ok: "timely_run cfg es st \<longleftrightarrow> timely_queue.ok_run cfg es st"
  by (induction cfg es st rule: timely_run.induct) (auto simp: timely_queue.ok_run.simps split: option.splits)

text \<open>C5. If every reaping pass is timely, no job is ever executed by two workers at once, every
  execution in flight holds the latest attempt of its row, no job is attempted more often than its
  maximum, and no claim ever fails.\<close>

theorem executions_exclusive:
  assumes "registry_ok (qc_registry cfg)" and "timely_run cfg es empty_queue"
    and "run_steps (queue_step cfg) es empty_queue = Some st"
  shows "distinct (map jr_id (qs_running st))
    \<and> (\<forall>r \<in> set (qs_rows st). jr_attempts r \<le> jr_max_attempts r)
    \<and> (\<forall>e \<in> set (qs_running st). \<exists>r \<in> set (qs_rows st). jr_id r = jr_id e \<and> jr_attempts r = jr_attempts e)
    \<and> \<not> isl (claimOn locked worker now (qs_rows st))"
proof -
  have "exclusive empty_queue" by (simp add: exclusive_def empty_queue_def)
  then have "sound_queue cfg st \<and> exclusive st"
    using timely_queue.run_inv [of cfg empty_queue es st] assms queue_inv_empty
    by (simp add: timely_run_ok sound_queue_def)
  then have inv: "queue_inv st" and ex: "exclusive st" by (simp_all add: sound_queue_def)
  have le: "\<forall>r \<in> set (qs_rows st). jr_attempts r \<le> jr_max_attempts r" using ex by (simp add: exclusive_def)
  have "\<exists>r \<in> set (qs_rows st). jr_id r = jr_id e \<and> jr_attempts r = jr_attempts e" if e: "e \<in> set (qs_running st)" for e
  proof -
    from inv e obtain r where "r \<in> set (qs_rows st)" "jr_id r = jr_id e" unfolding queue_inv_def by blast
    with ex e show ?thesis by (intro bexI [of _ r]) (auto simp: exclusive_def)
  qed
  moreover have "\<not> isl (claimOn locked worker now (qs_rows st))"
    using claimOn_fails [of locked worker now "qs_rows st"] le
    by (cases "claimOn locked worker now (qs_rows st)") force+
  ultimately show ?thesis using ex le by (simp add: exclusive_def)
qed
lemma executions_exclusive_witness:
  "\<exists>st. run_steps (queue_step example_config) [QCreate ''u'' example_request 0, QClaim [] ''w'' 1] empty_queue = Some st
     \<and> length (qs_running st) = 1 \<and> distinct (map jr_id (qs_running st))"
proof -
  let ?es = "[QCreate ''u'' example_request 0, QClaim [] ''w'' 1]"
  let ?a = "run_steps (queue_step example_config) ?es empty_queue"
  have c: "registry_ok (qc_registry example_config)" "timely_run example_config ?es empty_queue"
    "?a \<noteq> None" "length (qs_running (the ?a)) = 1"
    by code_simp+
  from c(3) have a: "?a = Some (the ?a)" by simp
  from executions_exclusive [OF c(1,2) a] c(4) a show ?thesis by blast
qed

subsection \<open>Stalled workers\<close>

lemma claim_blocked:
  assumes "p \<in> set rows" "jr_status p = Queued" "jr_attempts p > jr_max_attempts p" "jr_next_attempt_at p \<le> now"
    and "\<forall>x \<in> set rows. x \<noteq> p \<longrightarrow> jr_next_attempt_at p < jr_next_attempt_at x"
  shows "claimOn [] worker now rows = Inl CheckViolation"
proof -
  let ?cs = "filter (\<lambda>r. due now r \<and> jr_id r \<notin> set []) rows"
  have p: "p \<in> set ?cs" using assms by (simp add: due_def)
  then have "sort_cmp claim_order ?cs \<noteq> []" by (metis sort_cmp_eq_Nil_iff empty_iff list.set(1))
  then obtain c cs where c: "sort_cmp claim_order ?cs = c # cs" by (meson list.exhaust)
  have "c \<in> set ?cs" using set_sort_cmp [of claim_order ?cs] unfolding c by (metis list.set_intros(1))
  moreover have "claim_order c p \<le> 0" using claims.sort_cmp_hd_least [OF p] unfolding c by simp
  ultimately have "c = p" using assms(5) by (auto simp: claim_order_def cmp_or_def cmp_key_def split: if_splits)
  with c assms(3) show ?thesis by (simp add: claimOn_def)
qed

definition stalled_workers :: "queue_event list" where
  "stalled_workers =
     [QCreate ''u'' example_request 0, QCreate ''u'' (example_request\<lparr>rq_key := None, rq_run_at := Some 40000\<rparr>) 0,
      QClaim [] ''A'' 1, QReap 1000 5000, QClaim [] ''B'' 5000, QReap 1000 10000, QClaim [] ''C'' 10000,
      QFinish 0 (Threw ''late'' False) 10001, QClaim [] ''D'' 20000, QFinish 0 (Threw ''late'' False) 20001]"

text \<open>C22. Without timely reaping the queue of a tenant can stop, until an operator cancels a job. Two workers that stall past
  the claim timeout and then report their failures, each from its own old copy of the row, requeue a job
  another worker is executing; the job ends queued with more attempts than its maximum, every
  later claim from that state violates the table's check on the attempts, and since that job stays the
  earliest one, no other job of the tenant is claimed, though others are due.\<close>

theorem stale_failures_block_queue:
  "\<exists>st. run_steps (queue_step example_config) stalled_workers empty_queue = Some st
     \<and> (\<forall>now \<ge> 40000. (\<exists>r \<in> set (qs_rows st). due now r \<and> jr_attempts r = 0)
          \<and> (\<forall>worker. claimOn [] worker now (qs_rows st) = Inl CheckViolation))"
proof -
  let ?a = "run_steps (queue_step example_config) stalled_workers empty_queue"
  have c: "(case ?a of None \<Rightarrow> False | Some st \<Rightarrow>
      (case qs_rows st of [p, r] \<Rightarrow>
         jr_status p = Queued \<and> jr_attempts p = 4 \<and> jr_max_attempts p = 3 \<and> jr_next_attempt_at p = 30001
         \<and> jr_status r = Queued \<and> jr_attempts r = 0 \<and> jr_next_attempt_at r = 40000 | _ \<Rightarrow> False))"
    by code_simp
  then obtain st p r where a: "?a = Some st" and rows: "qs_rows st = [p, r]"
    and p: "jr_status p = Queued" "jr_attempts p = 4" "jr_max_attempts p = 3" "jr_next_attempt_at p = 30001"
    and r: "jr_status r = Queued" "jr_attempts r = 0" "jr_next_attempt_at r = 40000"
    by (auto split: option.splits list.splits)
  have "claimOn [] worker now (qs_rows st) = Inl CheckViolation" if "40000 \<le> now" for worker now
    by (rule claim_blocked [of p]) (use that p r rows in auto)
  moreover have "due now r" if "40000 \<le> now" for now using that r by (simp add: due_def)
  moreover have "r \<in> set (qs_rows st)" by (simp add: rows)
  ultimately have "\<forall>now \<ge> 40000. (\<exists>r \<in> set (qs_rows st). due now r \<and> jr_attempts r = 0)
      \<and> (\<forall>worker. claimOn [] worker now (qs_rows st) = Inl CheckViolation)"
    using r(2) by blast
  with a show ?thesis by blast
qed

lemma stale_failures_block_queue_witness:
  "\<exists>st. run_steps (queue_step example_config) stalled_workers empty_queue = Some st
     \<and> claimOn [] ''E'' 50000 (qs_rows st) = Inl CheckViolation"
proof -
  obtain st where st: "run_steps (queue_step example_config) stalled_workers empty_queue = Some st"
    "\<forall>now \<ge> 40000. (\<exists>r \<in> set (qs_rows st). due now r \<and> jr_attempts r = 0)
       \<and> (\<forall>worker. claimOn [] worker now (qs_rows st) = Inl CheckViolation)"
    using stale_failures_block_queue by blast
  from st(2) [rule_format, of 50000] have "claimOn [] ''E'' 50000 (qs_rows st) = Inl CheckViolation" by simp
  with st(1) show ?thesis by blast
qed

subsection \<open>Draining a tenant\<close>

lemma claimOn_none: "claimOn [] worker now rows = Inr (None, rows') \<Longrightarrow> rows' = rows \<and> (\<forall>r \<in> set rows. \<not> due now r)"
proof -
  let ?cs = "filter (\<lambda>r. due now r \<and> jr_id r \<notin> set []) rows"
  assume a: "claimOn [] worker now rows = Inr (None, rows')"
  show ?thesis
  proof (cases "sort_cmp claim_order ?cs")
    case Nil
    then have "?cs = []" by (simp only: sort_cmp_eq_Nil_iff)
    with a Nil show ?thesis by (simp add: claimOn_def filter_empty_conv)
  next
    case (Cons c cs)
    then have "c \<in> set ?cs" using set_sort_cmp [of claim_order ?cs] by (metis list.set_intros(1))
    then have "filter (\<lambda>x. jr_id x = jr_id c) rows \<noteq> []" by (auto simp: filter_empty_conv)
    with a Cons show ?thesis by (auto simp: claimOn_def update_one_def returning_def split: if_splits list.splits)
  qed
qed

definition verdicts :: "drain_summary \<Rightarrow> nat" where
  "verdicts s = ds_succeeded s + ds_retried s + ds_dead s"

lemma drain_loop_result:
  "drain_loop cfg worker handler clock k n s rows = Inr (s', rows') \<Longrightarrow>
     ds_claimed s \<le> ds_claimed s' \<and> ds_claimed s' \<le> ds_claimed s + k
     \<and> verdicts s' + ds_claimed s = verdicts s + ds_claimed s' \<and> ds_requeued s' = ds_requeued s
     \<and> (ds_claimed s' < ds_claimed s + k \<longrightarrow>
          (\<forall>r \<in> set rows'. \<not> due (clock (n + (ds_claimed s' - ds_claimed s))) r))"
proof (induction k arbitrary: n s rows)
  case (Suc k)
  then obtain c rows1 where c: "claimOn [] worker (clock n) rows = Inr (c, rows1)" by (auto elim!: bind_resultE)
  show ?case
  proof (cases c)
    case None
    with Suc.prems c claimOn_none [of worker "clock n" rows rows1] show ?thesis by auto
  next
    case (Some job)
    obtain v rows2 where v: "execute cfg job (handler job) (clock (n + 1)) rows1 = (v, rows2)" by fastforce
    let ?s = "count_verdict v (s\<lparr>ds_claimed := ds_claimed s + 1\<rparr>)"
    have cnt: "ds_claimed ?s = ds_claimed s + 1" "verdicts ?s = verdicts s + 1" "ds_requeued ?s = ds_requeued s"
      by (cases v; simp add: count_verdict_def verdicts_def)+
    have "drain_loop cfg worker handler clock k (n + 1) ?s rows2 = Inr (s', rows')"
      using Suc.prems c Some v by simp
    note ih = Suc.IH [OF this, unfolded cnt]
    have "n + 1 + (ds_claimed s' - (ds_claimed s + 1)) = n + (ds_claimed s' - ds_claimed s)" using ih by linarith
    with ih show ?thesis by auto
  qed
qed (simp add: verdicts_def)

text \<open>No queued row has used more attempts than its maximum; then no claim fails, and a drain keeps it so.\<close>

definition attempts_left :: "job_row list \<Rightarrow> bool" where
  "attempts_left rows \<longleftrightarrow> list_all (\<lambda>r. jr_status r = Queued \<longrightarrow> jr_attempts r \<le> jr_max_attempts r) rows"

lemma attempts_left_claim:
  assumes "attempts_left rows"
  shows "\<exists>c rows'. claimOn locked worker now rows = Inr (c, rows')"
proof (cases "sort_cmp claim_order (filter (\<lambda>r. due now r \<and> jr_id r \<notin> set locked) rows)")
  case Nil
  then show ?thesis by (simp add: claimOn_def)
next
  case (Cons c cs)
  then have "c \<in> set (filter (\<lambda>r. due now r \<and> jr_id r \<notin> set locked) rows)"
    by (metis list.set_intros(1) set_sort_cmp)
  with assms have "jr_attempts c \<le> jr_max_attempts c" by (auto simp: attempts_left_def list_all_iff due_def)
  with Cons show ?thesis by (simp add: claimOn_def update_one_def)
qed

lemma attempts_left_reap: "attempts_left rows \<Longrightarrow> attempts_left (snd (reapStuck s now rows))"
  by (auto simp: attempts_left_def list_all_iff reapStuck_def Let_def update_where_def expired_dead_row_def
      dead_row_def requeued_row_def)

lemma attempts_left_run:
  assumes ok: "attempts_left rows" and d: "distinct (map jr_id rows)"
    and c: "claimOn [] worker now rows = Inr (Some job, rows1)"
  shows "attempts_left (snd (execute cfg job out t rows1)) \<and> distinct (map jr_id (snd (execute cfg job out t rows1)))"
proof -
  obtain r where r: "r \<in> set rows" "job = claimed_row worker now r" "rows1 = map (\<lambda>x. if x = r then job else x) rows"
    using claimOn_cases [OF c d] by auto
  have id: "jr_id job = jr_id r" by (simp add: r(2) claimed_row_def)
  have d1: "distinct (map jr_id rows1)"
  proof -
    have "map jr_id rows1 = map jr_id rows" by (simp add: r(3) id)
    with d show ?thesis by simp
  qed
  have job: "job \<in> set rows1" "jr_status job = Running" using r by (force simp: claimed_row_def)+
  have ok1: "jr_status x = Queued \<longrightarrow> jr_attempts x \<le> jr_max_attempts x" if "x \<in> set rows1" for x
    using that ok job(2) by (auto simp: r(3) attempts_left_def list_all_iff)
  obtain f where f: "snd (execute cfg job out t rows1) = map (\<lambda>r. if running_row (jr_id job) r then f r else r) rows1"
    "\<And>r. jr_status r = Running \<Longrightarrow> settles job r (f r)"
    using execute_settled [of job rows1 cfg out t] unfolding settled_def by blast
  have one: "x = job" if "x \<in> set rows1" "running_row (jr_id job) x" for x
    by (rule distinct_keys_unique [OF d1 that(1) job(1)]) (use that(2) in \<open>simp add: running_row_def\<close>)
  have s: "settles job job (f job)" using f(2) job(2) .
  have "jr_status x = Queued \<longrightarrow> jr_attempts x \<le> jr_max_attempts x" if x: "x \<in> set (snd (execute cfg job out t rows1))" for x
  proof -
    from x obtain y where y: "y \<in> set rows1" "x = (if running_row (jr_id job) y then f y else y)" by (auto simp: f(1))
    show ?thesis
    proof (cases "running_row (jr_id job) y")
      case True
      have "y = job" by (rule one [OF y(1) True])
      with y True have "x = f job" by simp
      with s show ?thesis by (auto simp: settles_def evolves_def)
    qed (use y ok1 in simp)
  qed
  moreover have "map jr_id (snd (execute cfg job out t rows1)) = map jr_id rows1"
    using one s by (auto simp: f(1) settles_def evolves_def)
  ultimately show ?thesis using d1 by (simp add: attempts_left_def list_all_iff)
qed

lemma drain_loop_total:
  "attempts_left rows \<Longrightarrow> distinct (map jr_id rows) \<Longrightarrow>
     \<exists>s' rows'. drain_loop cfg worker handler clock k n s rows = Inr (s', rows')"
proof (induction k arbitrary: n s rows)
  case (Suc k)
  obtain c rows1 where c: "claimOn [] worker (clock n) rows = Inr (c, rows1)" using attempts_left_claim [OF Suc.prems(1)] by blast
  show ?case
  proof (cases c)
    case (Some job)
    obtain v rows2 where v: "execute cfg job (handler job) (clock (n + 1)) rows1 = (v, rows2)" by fastforce
    have "attempts_left rows2 \<and> distinct (map jr_id rows2)"
      using attempts_left_run [OF Suc.prems c [unfolded Some], of cfg "handler job" "clock (n + 1)"] v by simp
    with Suc.IH [of rows2] c Some v show ?thesis by simp
  qed (use c in simp)
qed simp

text \<open>C24. When a drain of a tenant ends without an error, it has claimed at most one batch, every claimed
  job has ended in exactly one verdict, and if it stopped before the batch was used up, then at its
  last look at the queue no job at all was due (no other worker holding a row lock). It does end without
  an error whenever no queued job has used more attempts than its maximum; an exhausted one that is
  due first aborts it.\<close>

theorem drainTenant_progress:
  "(\<forall>s rows'. drainTenant cfg worker timeout batch handler clock rows = Inr (s, rows') \<longrightarrow>
       ds_claimed s \<le> max 1 batch
       \<and> verdicts s = ds_claimed s + snd (fst (reapStuck timeout (clock 0) rows))
       \<and> (ds_claimed s < max 1 batch \<longrightarrow> (\<forall>r \<in> set rows'. \<not> due (clock (ds_claimed s)) r)))
   \<and> (distinct (map jr_id rows) \<and> attempts_left rows \<longrightarrow>
       (\<exists>s rows'. drainTenant cfg worker timeout batch handler clock rows = Inr (s, rows')))"
proof -
  obtain requeued dead rows1 where r: "reapStuck timeout (clock 0) rows = ((requeued, dead), rows1)"
    by (metis prod.collapse)
  let ?s = "\<lparr>ds_claimed = 0, ds_succeeded = 0, ds_retried = 0, ds_dead = dead, ds_requeued = requeued\<rparr>"
  have e: "drainTenant cfg worker timeout batch handler clock rows = drain_loop cfg worker handler clock (max 1 batch) 0 ?s rows1"
    by (simp add: drainTenant_def r)
  have "ds_claimed s \<le> max 1 batch \<and> verdicts s = ds_claimed s + dead
       \<and> (ds_claimed s < max 1 batch \<longrightarrow> (\<forall>r \<in> set rows'. \<not> due (clock (ds_claimed s)) r))"
    if "drainTenant cfg worker timeout batch handler clock rows = Inr (s, rows')" for s rows'
    using drain_loop_result [OF that [unfolded e]] by (simp add: verdicts_def)
  moreover have "\<exists>s rows'. drainTenant cfg worker timeout batch handler clock rows = Inr (s, rows')"
    if "distinct (map jr_id rows)" "attempts_left rows"
  proof -
    have "map jr_id rows1 = map jr_id rows"
      using r by (auto simp: reapStuck_def Let_def update_where_def expired_dead_row_def dead_row_def requeued_row_def)
    moreover have "attempts_left rows1" using attempts_left_reap [OF that(2), of timeout "clock 0"] r by simp
    ultimately show ?thesis using that(1) unfolding e by (intro drain_loop_total) simp_all
  qed
  ultimately show ?thesis by (simp add: r)
qed

lemma drainTenant_progress_witness:
  "\<exists>s rows'. drainTenant example_config ''w'' 600000 5 (\<lambda>_. Returned JObj) (\<lambda>n. 9) two_jobs = Inr (s, rows')
     \<and> ds_claimed s = 2 \<and> (\<forall>r \<in> set rows'. \<not> due 9 r)"
proof -
  let ?d = "drainTenant example_config ''w'' 600000 5 (\<lambda>_. Returned JObj) (\<lambda>n. 9) two_jobs"
  have h: "distinct (map jr_id two_jobs) \<and> attempts_left two_jobs" by code_simp
  have c: "(case ?d of Inr (s, _) \<Rightarrow> ds_claimed s = 2 | _ \<Rightarrow> True)" by code_simp
  note p = drainTenant_progress [of example_config "''w''" 600000 5 "\<lambda>_. Returned JObj" "\<lambda>n. 9" two_jobs]
  from p h obtain s rows' where d: "?d = Inr (s, rows')" by blast
  with c have "ds_claimed s = 2" by simp
  with p d show ?thesis by auto
qed

subsection \<open>Retry delays\<close>

lemma backoffMs_bounds:
  assumes "0 < b" "0 < m"
  shows "min b m \<le> backoffMs k (Some b) (Some m) \<and> backoffMs k (Some b) (Some m) \<le> m"
proof -
  have "b * 1 \<le> b * 2 ^ nat (max 0 (min (k - 1) 20))" using assms by (intro mult_left_mono) simp_all
  with assms show ?thesis by (simp add: backoffMs_def Let_def min_le_iff_disj)
qed

lemma backoffMs_mono:
  assumes "0 < b" "0 < m" "j \<le> k"
  shows "backoffMs j (Some b) (Some m) \<le> backoffMs k (Some b) (Some m)"
proof -
  have "b * 2 ^ nat (max 0 (min (j - 1) 20)) \<le> b * 2 ^ nat (max 0 (min (k - 1) 20))"
    using assms by (intro mult_left_mono power_increasing) simp_all
  with assms show ?thesis by (simp add: backoffMs_def Let_def min_le_iff_disj)
qed

end
