(* ===== verification/ScheduledSend.thy ===== *)
theory ScheduledSend
  imports Msisdn Scheduling JobQueue
begin

section \<open>Held messages: messaging-depth/scheduled-send.service.ts\<close>

text \<open>
  The \<open>scheduled_messages\<close> rows of one tenant, their release jobs (the rows of \<^theory_text>\<open>JobQueue\<close>) and
  campaigns, and every transaction of the service: holding a message or a campaign, cancelling,
  rescheduling, and releasing. A release is several transactions, so the releases in flight are
  part of the state and any number of them interleave. The send path itself
  (\<open>MessageSendService.send\<close>) is the environment. It throws before the message is spooled, or inserts
  the message into SQLBox, which is a database of its own, and afterwards runs the guarded update of
  the hold as the last statement of its transaction. So a message is two steps: \<open>ss_spool\<close> records
  the copies given to the engine, which no rollback takes back, and \<open>ss_released\<close> the transactions
  that committed. A campaign's release is a single transaction in the service's own database.
\<close>

definition SCHEDULED_RELEASE_JOB_TYPE :: string where
  "SCHEDULED_RELEASE_JOB_TYPE = ''message.scheduled.release''"

datatype hold_kind = HoldMessage | HoldBulk

datatype hold_status = HPending | HReleasing | HReleased | HCancelled | HFailed | HExpired

datatype failure_reason =
    CancelledBecause string
  | ExpiredLate int int
  | RefusedAtRelease string
  | FailedAfterAttempts int string
  | WillRetryAfter int string
  | Interrupted "failure_reason option"

record send_request =
  sr_receiver :: string
  sr_text :: jsval
  sr_rest :: string

record hold =
  ho_id :: nat
  ho_kind :: hold_kind
  ho_status :: hold_status
  ho_at :: int
  ho_validity :: "int option"
  ho_payload :: "send_request option"
  ho_bulk :: "nat option"
  ho_job :: "nat option"
  ho_attempts :: int
  ho_claimed_at :: "int option"
  ho_claimed_by :: "string option"
  ho_released_at :: "int option"
  ho_late :: bool
  ho_lateness :: "int option"
  ho_message_ref :: "string option"
  ho_reason :: "failure_reason option"
  ho_created_by :: string

datatype bulk_status = BulkScheduled | BulkQueued | BulkFailed | BulkOther

record bulk_job =
  bj_id :: nat
  bj_status :: bulk_status
  bj_at :: "int option"
  bj_detail :: "string option"

text \<open>
  A release in flight: the row its claim returned, the caller's clock, the job's attempt numbers, and
  whether its message has been inserted into SQLBox.
\<close>

record release_flight =
  fl_hold :: hold
  fl_now :: int
  fl_attempt :: int
  fl_max :: int
  fl_spooled :: bool

record release_entry =
  re_hold :: nat
  re_fence :: int
  re_lateness :: int

record send_state =
  ss_queue :: queue_state
  ss_holds :: "hold list"
  ss_next :: nat
  ss_bulk :: "bulk_job list"
  ss_flights :: "release_flight list"
  ss_released :: "release_entry list"
  ss_spool :: "(nat \<times> int) list"

record send_env =
  se_queue :: queue_config
  se_showNum :: "jsnum \<Rightarrow> string"
  se_country :: "string option"
  se_max_lateness :: "string option"
  se_claim_timeout :: int

definition ceiling_ms :: "send_env \<Rightarrow> int" where
  "ceiling_ms env = scheduledSendMaxLatenessMs (se_max_lateness env)"

datatype hold_error =
    HoldNotFound
  | HoldNotMutable hold_status
  | HoldBadSchedule schedule_error
  | HoldNotFuture
  | HoldAlreadyClaimed
  | HoldLeftPending
  | HoldBadDestination string
  | HoldTextRequired
  | HoldJobError job_error

subsection \<open>Holding\<close>

definition new_hold ::
    "nat \<Rightarrow> hold_kind \<Rightarrow> int \<Rightarrow> int option \<Rightarrow> send_request option \<Rightarrow> nat option \<Rightarrow> string \<Rightarrow> hold" where
  "new_hold i kind s validity payload bulk user =
     \<lparr>ho_id = i, ho_kind = kind, ho_status = HPending, ho_at = s, ho_validity = validity,
      ho_payload = payload, ho_bulk = bulk, ho_job = None, ho_attempts = 0, ho_claimed_at = None,
      ho_claimed_by = None, ho_released_at = None, ho_late = False, ho_lateness = None,
      ho_message_ref = None, ho_reason = None, ho_created_by = user\<rparr>"

definition release_request :: "nat \<Rightarrow> int \<Rightarrow> job_request" where
  "release_request i s =
     \<lparr>rq_type = SCHEDULED_RELEASE_JOB_TYPE, rq_input = JObj,
      rq_key = Some (''scheduled-message:'' @ show_nat i), rq_run_at = Some s\<rparr>"

text \<open>
  The job is inserted in the caller's transaction and its id written to the hold. The job's input,
  \<open>{ scheduledMessageId }\<close>, is opaque here; the hold carries the link.
\<close>

definition enqueueRelease ::
    "send_env \<Rightarrow> string \<Rightarrow> nat \<Rightarrow> int \<Rightarrow> int \<Rightarrow> send_state \<Rightarrow> (hold_error, nat \<times> send_state) result" where
  "enqueueRelease env user i s now st =
     (case createOn (qc_registry (se_queue env)) (qs_next (ss_queue st)) user now (release_request i s)
             (qs_rows (ss_queue st)) of
        Inl e \<Rightarrow> Inl (HoldJobError e)
      | Inr (job, rows) \<Rightarrow>
          Inr (jr_id job,
               st\<lparr>ss_queue := (ss_queue st)\<lparr>qs_rows := rows, qs_next := qs_next (ss_queue st) + 1\<rparr>,
                  ss_holds := update_where (\<lambda>h. ho_id h = i) (\<lambda>h. h\<lparr>ho_job := Some (jr_id job)\<rparr>) (ss_holds st)\<rparr>))"

definition insert_hold :: "hold \<Rightarrow> send_state \<Rightarrow> send_state" where
  "insert_hold h st = st\<lparr>ss_holds := ss_holds st @ [h], ss_next := ss_next st + 1\<rparr>"

datatype submit_outcome = SentNow | Held nat nat

definition submitMessage ::
    "send_env \<Rightarrow> string \<Rightarrow> send_request \<Rightarrow> message_schedule option \<Rightarrow> int \<Rightarrow> send_state
       \<Rightarrow> (hold_error, submit_outcome \<times> send_state) result" where
  "submitMessage env user req schedule now st =
     (if \<not> requiresHold schedule now then Inr (SentNow, st)
      else
        let normalized = normalizeMsisdn (se_country env) (Some (sr_receiver req)) None
        in if \<not> truthy (nm_digits normalized) then Inl (HoldBadDestination (describeMsisdnProblem normalized))
           else if (case sr_text req of JStr t \<Rightarrow> t = [] | _ \<Rightarrow> True) then Inl HoldTextRequired
           else
             let s = the (scheduledAtMs (the schedule)); i = ss_next st;
                 h = new_hold i HoldMessage s (validityMinutes (the schedule)) (Some req) None user
             in bind_result (enqueueRelease env user i s now (insert_hold h st))
                  (\<lambda>(j, st'). Inr (Held i j, st')))"

text \<open>
  \<open>createJob\<close> inserts the campaign and calls back in the same transaction. It decides on its own
  clock, \<open>created\<close>, whether the campaign is still ahead. \<open>bulkId\<close> is the identifier generated for
  it.
\<close>

definition submitBulk ::
    "send_env \<Rightarrow> string \<Rightarrow> nat \<Rightarrow> message_schedule option \<Rightarrow> int \<Rightarrow> int \<Rightarrow> send_state
       \<Rightarrow> (hold_error, submit_outcome \<times> send_state) result" where
  "submitBulk env user bulkId schedule now created st =
     (if \<not> requiresHold schedule now then Inr (SentNow, st)
      else
        let s = the (scheduledAtMs (the schedule)); i = ss_next st;
            b = \<lparr>bj_id = bulkId, bj_status = (if s > created then BulkScheduled else BulkQueued),
                 bj_at = Some s, bj_detail = None\<rparr>;
            h = new_hold i HoldBulk s (validityMinutes (the schedule)) None (Some bulkId) user
        in bind_result (enqueueRelease env user i s created (insert_hold h (st\<lparr>ss_bulk := ss_bulk st @ [b]\<rparr>)))
             (\<lambda>(j, st'). Inr (Held i j, st')))"

subsection \<open>Operator actions\<close>

text \<open>\<open>SELECT ... FOR UPDATE\<close> and the status check; the lock makes the transaction one step.\<close>

definition lock_mutable :: "nat \<Rightarrow> send_state \<Rightarrow> (hold_error, hold) result" where
  "lock_mutable i st =
     (case row_by ho_id i (ss_holds st) of
        None \<Rightarrow> Inl HoldNotFound
      | Some h \<Rightarrow> if ho_status h = HPending then Inr h else Inl (HoldNotMutable (ho_status h)))"

definition pending_row :: "nat \<Rightarrow> hold \<Rightarrow> bool" where
  "pending_row i h \<longleftrightarrow> ho_id h = i \<and> ho_status h = HPending"

definition update_bulk :: "nat option \<Rightarrow> (bulk_job \<Rightarrow> bulk_job) \<Rightarrow> send_state \<Rightarrow> send_state" where
  "update_bulk b f st =
     (case b of
        None \<Rightarrow> st
      | Some i \<Rightarrow> st\<lparr>ss_bulk := update_where (\<lambda>j. bj_id j = i \<and> bj_status j = BulkScheduled) f (ss_bulk st)\<rparr>)"

definition cancel_detail :: "string option \<Rightarrow> string" where
  "cancel_detail reason =
     (if truthy (map_option trim reason) then trim (the reason) else ''Cancelled by operator before release'')"

definition cancel_job :: "nat option \<Rightarrow> string \<Rightarrow> int \<Rightarrow> send_state \<Rightarrow> send_state" where
  "cancel_job job detail now st =
     (case job of
        None \<Rightarrow> st
      | Some j \<Rightarrow> st\<lparr>ss_queue := (ss_queue st)\<lparr>qs_rows := snd (cancelOn j
          (Some (''Scheduled message cancelled: '' @ detail)) now (qs_rows (ss_queue st)))\<rparr>\<rparr>)"

definition cancel_row :: "string \<Rightarrow> hold \<Rightarrow> hold" where
  "cancel_row detail h = h\<lparr>ho_status := HCancelled, ho_reason := Some (CancelledBecause detail)\<rparr>"

definition cancel ::
    "nat \<Rightarrow> string option \<Rightarrow> int \<Rightarrow> send_state \<Rightarrow> (hold_error, send_state) result" where
  "cancel i reason now st =
     bind_result (lock_mutable i st) (\<lambda>h.
       if \<not> list_ex (pending_row i) (ss_holds st) then Inl HoldLeftPending
       else Inr (update_bulk (if ho_kind h = HoldBulk then ho_bulk h else None)
                   (\<lambda>b. b\<lparr>bj_status := BulkFailed, bj_detail := Some (cancel_detail reason)\<rparr>)
                   (cancel_job (ho_job h) (cancel_detail reason) now
                     (st\<lparr>ss_holds := update_where (pending_row i) (cancel_row (cancel_detail reason)) (ss_holds st)\<rparr>))))"

definition reschedule_query :: "jsval \<Rightarrow> int option \<Rightarrow> string \<Rightarrow> jsval" where
  "reschedule_query v validity k =
     (if k = ''scheduledAt'' then v
      else if k = ''validityMinutes'' then
        (case validity of None \<Rightarrow> JUndefined | Some m \<Rightarrow> JNum (Fin (of_int m)))
      else JUndefined)"

definition move_hold :: "hold \<Rightarrow> int \<Rightarrow> send_state \<Rightarrow> (hold_error, send_state) result" where
  "move_hold h s st =
     (if \<not> list_ex (pending_row (ho_id h)) (ss_holds st) then Inl HoldLeftPending
      else Inr (update_bulk (if ho_kind h = HoldBulk then ho_bulk h else None) (\<lambda>b. b\<lparr>bj_at := Some s\<rparr>)
             (st\<lparr>ss_holds := update_where (pending_row (ho_id h)) (\<lambda>h. h\<lparr>ho_at := s\<rparr>) (ss_holds st)\<rparr>)))"

definition reschedule ::
    "send_env \<Rightarrow> nat \<Rightarrow> jsval \<Rightarrow> int \<Rightarrow> send_state \<Rightarrow> (hold_error, send_state) result" where
  "reschedule env i v now st =
     bind_result (lock_mutable i st) (\<lambda>h.
       case parseMessageSchedule (se_showNum env) (reschedule_query v (ho_validity h)) now of
         Inl e \<Rightarrow> Inl (HoldBadSchedule e)
       | Inr schedule \<Rightarrow>
           if \<not> requiresHold (Some schedule) now then Inl HoldNotFuture
           else
             let s = the (scheduledAtMs schedule)
             in (case ho_job h of
                   None \<Rightarrow> move_hold h s st
                 | Some j \<Rightarrow>
                     (case rescheduleOn j s now (qs_rows (ss_queue st)) of
                        (None, _) \<Rightarrow> Inl HoldAlreadyClaimed
                      | (Some _, rows) \<Rightarrow> move_hold h s (st\<lparr>ss_queue := (ss_queue st)\<lparr>qs_rows := rows\<rparr>\<rparr>))))"

subsection \<open>Release\<close>

datatype claim_outcome = Claimed hold | ClaimCancelled | ClaimAlreadyReleased | ClaimAlreadyFailed | ClaimMissing

definition claimable :: "nat \<Rightarrow> hold \<Rightarrow> bool" where
  "claimable i h \<longleftrightarrow> ho_id h = i \<and> (ho_status h = HPending \<or> ho_status h = HReleasing)"

definition claimed_hold :: "string \<Rightarrow> int \<Rightarrow> hold \<Rightarrow> hold" where
  "claimed_hold worker now h =
     h\<lparr>ho_status := HReleasing, ho_attempts := ho_attempts h + 1, ho_claimed_at := Some now,
       ho_claimed_by := Some worker\<rparr>"

definition claim :: "nat \<Rightarrow> string \<Rightarrow> int \<Rightarrow> hold list \<Rightarrow> claim_outcome \<times> hold list" where
  "claim i worker now holds =
     (case find (claimable i) holds of
        Some h \<Rightarrow> (Claimed (claimed_hold worker now h), update_where (claimable i) (claimed_hold worker now) holds)
      | None \<Rightarrow>
          ((case row_by ho_id i holds of
              None \<Rightarrow> ClaimMissing
            | Some h \<Rightarrow> if ho_status h = HCancelled then ClaimCancelled
                         else if ho_status h = HReleased then ClaimAlreadyReleased else ClaimAlreadyFailed),
           holds))"

text \<open>The guard of every later write: still releasing, under the same attempt.\<close>

definition fenced :: "hold \<Rightarrow> hold \<Rightarrow> bool" where
  "fenced snapshot h \<longleftrightarrow>
     ho_id h = ho_id snapshot \<and> ho_status h = HReleasing \<and> ho_attempts h = ho_attempts snapshot"

definition flight_verdict :: "send_env \<Rightarrow> release_flight \<Rightarrow> missed_verdict" where
  "flight_verdict env f = classifyMissedWindow (ho_at (fl_hold f)) (fl_now f) (ceiling_ms env)"

definition expire_hold :: "send_env \<Rightarrow> release_flight \<Rightarrow> hold list \<Rightarrow> hold list" where
  "expire_hold env f holds =
     (let v = flight_verdict env f
      in update_where (fenced (fl_hold f))
           (\<lambda>h. h\<lparr>ho_status := HExpired, ho_reason := Some (ExpiredLate (mv_latenessMs v) (mv_ceilingMs v)),
                 ho_lateness := Some (mv_latenessMs v), ho_late := True\<rparr>) holds)"

definition released_hold :: "missed_verdict \<Rightarrow> string option \<Rightarrow> int \<Rightarrow> hold \<Rightarrow> hold" where
  "released_hold v ref now h =
     h\<lparr>ho_status := HReleased, ho_released_at := Some now, ho_late := (mv_action v = ReleaseLate),
       ho_lateness := Some (mv_latenessMs v), ho_message_ref := (if ref = None then ho_message_ref h else ref),
       ho_reason := None\<rparr>"

text \<open>
  The last statement of the send's transaction (a message) or the whole transaction (a campaign).
  \<open>None\<close>: the guard matched no row, the code throws and the transaction of the service's database is
  rolled back. The message itself is in SQLBox's database by then and stays there, see \<open>spool_copy\<close>.
\<close>

definition commit_release ::
    "send_env \<Rightarrow> release_flight \<Rightarrow> string \<Rightarrow> int \<Rightarrow> send_state \<Rightarrow> send_state option" where
  "commit_release env f ref now st =
     (let v = flight_verdict env f; bulk = (ho_kind (fl_hold f) = HoldBulk)
      in if length (filter (fenced (fl_hold f)) (ss_holds st)) \<noteq> 1 then None
         else Some
           (update_bulk (if bulk then ho_bulk (fl_hold f) else None) (\<lambda>b. b\<lparr>bj_status := BulkQueued\<rparr>)
             (st\<lparr>ss_holds := update_where (fenced (fl_hold f))
                   (released_hold v (if bulk then None else Some ref) now) (ss_holds st),
                 ss_released := ss_released st @
                   [\<lparr>re_hold = ho_id (fl_hold f), re_fence = ho_attempts (fl_hold f),
                     re_lateness = mv_latenessMs v\<rparr>]\<rparr>)))"

datatype release_error = HttpError int | PermanentError | OtherError

definition isPermanentReleaseRefusal :: "release_error \<Rightarrow> bool" where
  "isPermanentReleaseRefusal e =
     (case e of HttpError s \<Rightarrow> 400 \<le> s \<and> s < 500 \<and> s \<noteq> 429 \<and> s \<noteq> 408 | _ \<Rightarrow> False)"

definition recordReleaseFailure ::
    "release_flight \<Rightarrow> release_error \<Rightarrow> string \<Rightarrow> hold list \<Rightarrow> hold list" where
  "recordReleaseFailure f e message holds =
     (let msg = take 2000 message;
          permanent = (isPermanentReleaseRefusal e \<or> e = PermanentError);
          lastAttempt = fl_attempt f \<ge> fl_max f;
          reason = (if permanent then RefusedAtRelease msg
                    else if lastAttempt then FailedAfterAttempts (fl_attempt f) msg
                    else WillRetryAfter (fl_attempt f) msg)
      in update_where (fenced (fl_hold f))
           (\<lambda>h. h\<lparr>ho_status := (if permanent \<or> lastAttempt then HFailed else HPending),
                 ho_reason := Some reason\<rparr>) holds)"

definition stalled_hold :: "send_env \<Rightarrow> int \<Rightarrow> hold \<Rightarrow> bool" where
  "stalled_hold env now h =
     (let claimTimeoutSeconds = max 60 ((se_claim_timeout env + 500) div 1000);
          ceilingSeconds = (ceiling_ms env + 500) div 1000
      in ho_status h = HReleasing
         \<and> (case ho_claimed_at h of None \<Rightarrow> False | Some c \<Rightarrow> c < now - claimTimeoutSeconds * 1000)
         \<and> ho_at h < now - ceilingSeconds * 1000)"

definition sweepStalled :: "send_env \<Rightarrow> int \<Rightarrow> hold list \<Rightarrow> hold list" where
  "sweepStalled env now holds =
     update_where (stalled_hold env now)
       (\<lambda>h. h\<lparr>ho_status := HFailed, ho_reason := Some (Interrupted (ho_reason h))\<rparr>) holds"

text \<open>The insertion into \<open>send_sms\<close>, the send path's last step before the guarded update.\<close>

definition flight_key :: "release_flight \<Rightarrow> nat \<times> int" where
  "flight_key f = (ho_id (fl_hold f), ho_attempts (fl_hold f))"

definition spool_copy :: "nat \<Rightarrow> release_flight \<Rightarrow> send_state \<Rightarrow> send_state" where
  "spool_copy x f st =
     st\<lparr>ss_flights := (ss_flights st)[x := f\<lparr>fl_spooled := True\<rparr>], ss_spool := ss_spool st @ [flight_key f]\<rparr>"

subsection \<open>The service as a machine\<close>

text \<open>
  \<open>SClaim i worker now dbNow attempt max\<close> is the start of \<open>release\<close>: \<open>now\<close> is read before the claim,
  \<open>dbNow\<close> is the claim's transaction. \<open>SSpool\<close> inserts the message of a release into the engine's
  database, \<open>SCommit\<close> is the guarded update and COMMIT after it; when either of them fails, \<open>SFail\<close> or
  \<open>SCrash\<close> follows, and the copy stays. \<open>SQueue\<close> is any other use of the queue; only this service
  reschedules jobs, and the keys of its jobs contain random identifiers, so no other caller
  submits one.
\<close>

datatype send_event =
    SSubmit string send_request "message_schedule option" int
  | SSubmitBulk string nat "message_schedule option" int int
  | SCancel nat "string option" int
  | SReschedule nat jsval int
  | SSweep int
  | SClaim nat string int int int int
  | SExpire nat
  | SSpool nat
  | SCommit nat string int
  | SFail nat release_error string
  | SCrash nat
  | SQueue queue_event

definition RELEASE_KEY_PREFIX :: string where
  "RELEASE_KEY_PREFIX = ''scheduled-message:''"

definition foreign_queue_event :: "queue_event \<Rightarrow> bool" where
  "foreign_queue_event ev \<longleftrightarrow>
     (case ev of
        QReschedule _ _ _ \<Rightarrow> False
      | QCreate _ q _ \<Rightarrow> (case rq_key q of None \<Rightarrow> True | Some k \<Rightarrow> \<not> prefix RELEASE_KEY_PREFIX k)
      | _ \<Rightarrow> True)"

definition keep_on_error :: "send_state \<Rightarrow> ('e, send_state) result \<Rightarrow> send_state" where
  "keep_on_error st r = (case r of Inl _ \<Rightarrow> st | Inr st' \<Rightarrow> st')"

definition in_flight :: "send_env \<Rightarrow> nat \<Rightarrow> bool \<Rightarrow> send_state \<Rightarrow> release_flight option" where
  "in_flight env x expired st =
     (if x < length (ss_flights st)
         \<and> (mv_action (flight_verdict env (ss_flights st ! x)) = ExpireMissed) = expired
      then Some (ss_flights st ! x) else None)"

fun send_step :: "send_env \<Rightarrow> send_event \<Rightarrow> send_state \<Rightarrow> send_state option" where
  "send_step env (SSubmit user req schedule now) st =
     Some (keep_on_error st (map_sum id snd (submitMessage env user req schedule now st)))"
| "send_step env (SSubmitBulk user b schedule now created) st =
     (if b \<in> bj_id ` set (ss_bulk st) then None
      else Some (keep_on_error st (map_sum id snd (submitBulk env user b schedule now created st))))"
| "send_step env (SCancel i reason now) st = Some (keep_on_error st (cancel i reason now st))"
| "send_step env (SReschedule i v now) st = Some (keep_on_error st (reschedule env i v now st))"
| "send_step env (SSweep now) st = Some (st\<lparr>ss_holds := sweepStalled env now (ss_holds st)\<rparr>)"
| "send_step env (SClaim i worker now dbNow attempt mx) st =
     (case claim i worker dbNow (ss_holds st) of
        (Claimed h, holds) \<Rightarrow>
          Some (st\<lparr>ss_holds := holds,
                   ss_flights := ss_flights st @ [\<lparr>fl_hold = h, fl_now = now, fl_attempt = attempt, fl_max = mx,
                                                fl_spooled = False\<rparr>]\<rparr>)
      | (_, _) \<Rightarrow> Some st)"
| "send_step env (SExpire x) st =
     map_option (\<lambda>f. st\<lparr>ss_holds := expire_hold env f (ss_holds st), ss_flights := drop_index x (ss_flights st)\<rparr>)
       (in_flight env x True st)"
| "send_step env (SSpool x) st =
     Option.bind (in_flight env x False st) (\<lambda>f.
       if ho_kind (fl_hold f) = HoldMessage \<and> \<not> fl_spooled f then Some (spool_copy x f st) else None)"
| "send_step env (SCommit x ref now) st =
     Option.bind (in_flight env x False st) (\<lambda>f.
       if ho_kind (fl_hold f) = HoldMessage \<and> \<not> fl_spooled f then None
       else Some (case commit_release env f ref now st of
                    None \<Rightarrow> st
                  | Some st' \<Rightarrow>
                      if ho_kind (fl_hold f) = HoldBulk then st' else st'\<lparr>ss_flights := drop_index x (ss_flights st)\<rparr>))"
| "send_step env (SFail x e message) st =
     map_option (\<lambda>f. st\<lparr>ss_holds := recordReleaseFailure f e message (ss_holds st),
                        ss_flights := drop_index x (ss_flights st)\<rparr>)
       (in_flight env x False st)"
| "send_step env (SCrash x) st =
     (if x < length (ss_flights st) then Some (st\<lparr>ss_flights := drop_index x (ss_flights st)\<rparr>) else None)"
| "send_step env (SQueue ev) st =
     (if foreign_queue_event ev
      then map_option (\<lambda>q. st\<lparr>ss_queue := q\<rparr>) (queue_step (se_queue env) ev (ss_queue st))
      else None)"

definition empty_send :: send_state where
  "empty_send =
     \<lparr>ss_queue = empty_queue, ss_holds = [], ss_next = 0, ss_bulk = [], ss_flights = [], ss_released = [], ss_spool = []\<rparr>"

subsection \<open>Released at most once\<close>

definition final_hold :: "hold \<Rightarrow> bool" where
  "final_hold h \<longleftrightarrow> ho_status h \<in> {HReleased, HCancelled, HFailed, HExpired}"

definition releases_of :: "nat \<Rightarrow> release_entry list \<Rightarrow> nat" where
  "releases_of i es = length (filter (\<lambda>e. re_hold e = i) es)"

definition hold_ok :: "release_entry list \<Rightarrow> hold \<Rightarrow> bool" where
  "hold_ok es h \<longleftrightarrow>
     releases_of (ho_id h) es = (if ho_status h = HReleased then 1 else 0) \<and> 0 \<le> ho_attempts h"

definition send_inv :: "send_env \<Rightarrow> send_state \<Rightarrow> bool" where
  "send_inv env st \<longleftrightarrow>
     distinct (map ho_id (ss_holds st)) \<and> (\<forall>h \<in> set (ss_holds st). ho_id h < ss_next st \<and> hold_ok (ss_released st) h)
     \<and> (\<forall>e \<in> set (ss_released st). re_hold e < ss_next st \<and> re_lateness e \<le> max 60000 (ceiling_ms env))"

text \<open>A hold keeps its identity, never loses an attempt, and its status is final once it is final.\<close>

definition hold_evolves :: "hold \<Rightarrow> hold \<Rightarrow> bool" where
  "hold_evolves h h' \<longleftrightarrow>
     ho_id h' = ho_id h \<and> ho_kind h' = ho_kind h \<and> ho_attempts h \<le> ho_attempts h'
     \<and> (final_hold h \<longrightarrow> ho_status h' = ho_status h \<and> ho_attempts h' = ho_attempts h)"

definition holds_grow :: "hold list \<Rightarrow> hold list \<Rightarrow> bool" where
  "holds_grow hs hs' \<longleftrightarrow> (\<forall>h \<in> set hs. \<exists>h' \<in> set hs'. hold_evolves h h')"

lemma hold_evolves_refl: "hold_evolves h h"
  by (simp add: hold_evolves_def)

lemma hold_evolves_trans: "hold_evolves a b \<Longrightarrow> hold_evolves b c \<Longrightarrow> hold_evolves a c"
  unfolding hold_evolves_def final_hold_def by auto

lemma holds_grow_refl: "holds_grow hs hs"
  unfolding holds_grow_def using hold_evolves_refl by blast

lemma holds_grow_trans: "holds_grow a b \<Longrightarrow> holds_grow b c \<Longrightarrow> holds_grow a c"
  unfolding holds_grow_def using hold_evolves_trans by blast

text \<open>
  Every statement on holds other than an insertion and the release itself: an update in place that
  neither makes a hold released nor touches a final one.
\<close>

definition quiet :: "hold list \<Rightarrow> hold list \<Rightarrow> bool" where
  "quiet hs hs' \<longleftrightarrow>
     (\<exists>P f. hs' = update_where P f hs
        \<and> (\<forall>h. P h \<longrightarrow> hold_evolves h (f h) \<and> (ho_status (f h) = HReleased \<longleftrightarrow> ho_status h = HReleased)))"

lemma quietI:
  "(\<And>h. P h \<Longrightarrow> hold_evolves h (f h) \<and> (ho_status (f h) = HReleased \<longleftrightarrow> ho_status h = HReleased)) \<Longrightarrow>
     quiet hs (update_where P f hs)"
  unfolding quiet_def by blast

lemma quiet_refl: "quiet hs hs"
  using quietI [of "\<lambda>_. False" "\<lambda>h. h" hs] by (simp add: update_where_def)

lemma quiet_grow: "quiet hs hs' \<Longrightarrow> holds_grow hs hs'"
proof -
  assume "quiet hs hs'"
  then obtain P f where f: "hs' = update_where P f hs" "\<And>h. P h \<Longrightarrow> hold_evolves h (f h)"
    unfolding quiet_def by blast
  have "hold_evolves h (if P h then f h else h)" for h using f(2) [of h] by (simp add: hold_evolves_refl)
  then show "holds_grow hs hs'" unfolding holds_grow_def f(1) set_update_where by blast
qed

lemma quiet_inv:
  assumes inv: "send_inv env st" and q: "quiet (ss_holds st) hs"
    and same: "ss_holds st' = hs" "ss_next st' = ss_next st" "ss_released st' = ss_released st"
  shows "send_inv env st'"
proof -
  obtain P f where f: "hs = map (\<lambda>h. if P h then f h else h) (ss_holds st)"
    "\<And>h. P h \<Longrightarrow> hold_evolves h (f h) \<and> (ho_status (f h) = HReleased \<longleftrightarrow> ho_status h = HReleased)"
    using q by (auto simp: quiet_def update_where_def)
  have "map ho_id hs = map ho_id (ss_holds st)" using f by (auto simp: hold_evolves_def)
  with inv have "distinct (map ho_id hs)" by (simp add: send_inv_def)
  moreover have "ho_id h < ss_next st \<and> hold_ok (ss_released st) h" if h: "h \<in> set hs" for h
  proof -
    from h f(1) obtain g where g: "g \<in> set (ss_holds st)" "h = (if P g then f g else g)" by auto
    with f(2) [of g] have "ho_id h = ho_id g" "ho_status h = HReleased \<longleftrightarrow> ho_status g = HReleased"
      "ho_attempts g \<le> ho_attempts h"
      by (auto simp: hold_evolves_def)
    with g inv show ?thesis by (auto simp: send_inv_def hold_ok_def)
  qed
  ultimately show ?thesis using inv by (simp add: send_inv_def same)
qed

lemma insert_hold_inv:
  assumes inv: "send_inv env st" and h: "ho_id h = ss_next st" "ho_status h = HPending" "ho_attempts h = 0"
    and same: "ss_holds st' = ss_holds st @ [h]" "ss_next st' = ss_next st + 1" "ss_released st' = ss_released st"
  shows "send_inv env st'"
proof -
  have "releases_of (ss_next st) (ss_released st) = 0"
    using inv by (auto simp: send_inv_def releases_of_def filter_empty_conv)
  moreover have "ss_next st \<notin> ho_id ` set (ss_holds st)" using inv by (auto simp: send_inv_def)
  ultimately show ?thesis using inv h by (auto simp: send_inv_def same hold_ok_def less_SucI)
qed

lemma update_bulk_simps [simp]:
  "ss_holds (update_bulk b f st) = ss_holds st" "ss_next (update_bulk b f st) = ss_next st"
  "ss_released (update_bulk b f st) = ss_released st" "ss_flights (update_bulk b f st) = ss_flights st"
  "ss_queue (update_bulk b f st) = ss_queue st"
  by (simp_all add: update_bulk_def split: option.splits)

lemma enqueueRelease_effect:
  assumes "enqueueRelease env user i s now st = Inr (j, st')"
  shows "quiet (ss_holds st) (ss_holds st')" "ss_next st' = ss_next st" "ss_released st' = ss_released st"
    "ss_holds st' = update_where (\<lambda>h. ho_id h = i) (\<lambda>h. h\<lparr>ho_job := Some j\<rparr>) (ss_holds st)"
  using assms
  by (auto simp: enqueueRelease_def hold_evolves_def final_hold_def split: sum.splits intro!: quietI)

lemma enqueued_hold_inv:
  assumes inv: "send_inv env st" and base: "ss_holds st1 = ss_holds st" "ss_next st1 = ss_next st" "ss_released st1 = ss_released st"
    and h: "ho_id h = ss_next st" "ho_status h = HPending" "ho_attempts h = 0"
    and e: "enqueueRelease env user i s now (insert_hold h st1) = Inr (j, st')"
  shows "send_inv env st' \<and> holds_grow (ss_holds st) (ss_holds st')"
proof
  have inserted: "send_inv env (insert_hold h st1)"
    by (rule insert_hold_inv [OF inv h]) (simp_all add: insert_hold_def base)
  from enqueueRelease_effect(1) [OF e] show "send_inv env st'"
    by (rule quiet_inv [OF inserted]) (simp_all add: enqueueRelease_effect(2,3) [OF e])
  have "holds_grow (ss_holds st) (ss_holds (insert_hold h st1))"
    using hold_evolves_refl by (auto simp: insert_hold_def base holds_grow_def)
  then show "holds_grow (ss_holds st) (ss_holds st')"
    by (rule holds_grow_trans [OF _ quiet_grow [OF enqueueRelease_effect(1) [OF e]]])
qed

lemma new_hold_simps [simp]:
  "ho_id (new_hold i k s v p b u) = i" "ho_status (new_hold i k s v p b u) = HPending"
  "ho_at (new_hold i k s v p b u) = s" "ho_attempts (new_hold i k s v p b u) = 0"
  "ho_kind (new_hold i k s v p b u) = k" "ho_job (new_hold i k s v p b u) = None"
  by (simp_all add: new_hold_def)

lemma requiresHold_iff:
  "requiresHold schedule now \<longleftrightarrow>
     (\<exists>sch s. schedule = Some sch \<and> scheduledAtMs sch = Some s \<and> now + SCHEDULE_PAST_GRACE_MS < s)"
  by (cases schedule) (auto simp: requiresHold_def split: option.splits)

lemma submitMessage_cases:
  assumes "submitMessage env user req schedule now st = Inr (out, st')"
  shows "st' = st \<or> (\<exists>s v p j. schedule \<noteq> None \<and> scheduledAtMs (the schedule) = Some s
           \<and> enqueueRelease env user (ss_next st) s now (insert_hold (new_hold (ss_next st) HoldMessage s v p None user) st) = Inr (j, st'))"
  using assms
  by (auto simp: submitMessage_def Let_def requiresHold_iff elim!: bind_resultE split: if_splits)

lemma submitBulk_cases:
  assumes "submitBulk env user b schedule now created st = Inr (out, st')"
  shows "st' = st \<or> (\<exists>s v j bulk. schedule \<noteq> None \<and> scheduledAtMs (the schedule) = Some s
           \<and> enqueueRelease env user (ss_next st) s created
               (insert_hold (new_hold (ss_next st) HoldBulk s v None (Some b) user) (st\<lparr>ss_bulk := bulk\<rparr>)) = Inr (j, st'))"
  using assms
  by (auto simp: submitBulk_def Let_def requiresHold_iff elim!: bind_resultE split: if_splits)

lemma cancel_job_simps [simp]:
  "ss_holds (cancel_job job d now st) = ss_holds st" "ss_next (cancel_job job d now st) = ss_next st"
  "ss_released (cancel_job job d now st) = ss_released st"
  by (simp_all add: cancel_job_def split: option.splits)

lemma cancel_cases:
  assumes "cancel i reason now st = Inr st'"
  shows "\<exists>b f job. st' = update_bulk b f (cancel_job job (cancel_detail reason) now
           (st\<lparr>ss_holds := update_where (pending_row i) (cancel_row (cancel_detail reason)) (ss_holds st)\<rparr>))"
  using assms unfolding cancel_def by (elim bind_resultE) (auto simp del: if_split_asm split: if_split_asm; blast)

lemma cancel_effect:
  assumes "cancel i reason now st = Inr st'"
  shows "quiet (ss_holds st) (ss_holds st')" "ss_next st' = ss_next st" "ss_released st' = ss_released st"
proof -
  have "quiet (ss_holds st) (update_where (pending_row i) (cancel_row (cancel_detail reason)) (ss_holds st))"
    by (rule quietI) (simp add: cancel_row_def pending_row_def hold_evolves_def final_hold_def)
  with cancel_cases [OF assms]
  show "quiet (ss_holds st) (ss_holds st')" "ss_next st' = ss_next st" "ss_released st' = ss_released st"
    by auto
qed

lemma reschedule_effect:
  assumes "reschedule env i v now st = Inr st'"
  shows "quiet (ss_holds st) (ss_holds st')" "ss_next st' = ss_next st" "ss_released st' = ss_released st"
proof -
  obtain k s where "ss_holds st' = update_where (pending_row k) (\<lambda>h. h\<lparr>ho_at := s\<rparr>) (ss_holds st)
      \<and> ss_next st' = ss_next st \<and> ss_released st' = ss_released st"
    using assms
    by (auto simp: reschedule_def move_hold_def Let_def elim!: bind_resultE split: if_splits option.splits sum.splits prod.splits)
  then show "quiet (ss_holds st) (ss_holds st')" "ss_next st' = ss_next st" "ss_released st' = ss_released st"
    by (auto intro!: quietI simp: pending_row_def hold_evolves_def final_hold_def)
qed

lemma sweepStalled_quiet: "quiet hs (sweepStalled env now hs)"
  unfolding sweepStalled_def
  by (rule quietI) (auto simp: hold_evolves_def final_hold_def stalled_hold_def Let_def)

lemma expire_hold_quiet: "quiet hs (expire_hold env f hs)"
  unfolding expire_hold_def Let_def
  by (rule quietI) (auto simp: hold_evolves_def final_hold_def fenced_def)

lemma recordReleaseFailure_quiet: "quiet hs (recordReleaseFailure f e msg hs)"
  unfolding recordReleaseFailure_def Let_def
  by (rule quietI) (auto simp: hold_evolves_def final_hold_def fenced_def)

lemma claim_quiet: "quiet hs (snd (claim i w now hs))"
  unfolding claim_def
  by (auto simp: hold_evolves_def final_hold_def claimable_def claimed_hold_def quiet_refl
      split: option.splits intro!: quietI)
lemma fenced_once:
  assumes "distinct (map ho_id hs)" and "h \<in> set hs" "h' \<in> set hs" "fenced s h" "fenced s h'"
  shows "h = h'"
  using distinct_keys_unique [OF assms(1-3)] assms(4,5) by (simp add: fenced_def)

lemma flight_lateness:
  "in_flight env x False st = Some f \<Longrightarrow> mv_latenessMs (flight_verdict env f) \<le> max 60000 (ceiling_ms env)"
  by (auto simp: in_flight_def flight_verdict_def classifyMissedWindow_def Let_def
      SCHEDULED_SEND_ON_TIME_GRACE_MS_def split: if_splits)

lemma commit_release_inv:
  assumes inv: "send_inv env st" and late: "mv_latenessMs (flight_verdict env f) \<le> max 60000 (ceiling_ms env)"
    and c: "commit_release env f ref now st = Some st'"
  shows "send_inv env st' \<and> holds_grow (ss_holds st) (ss_holds st')"
proof -
  let ?P = "fenced (fl_hold f)"
  define r where "r = (if ho_kind (fl_hold f) = HoldBulk then None else Some ref)"
  have hs: "ss_holds st' = map (\<lambda>h. if ?P h then released_hold (flight_verdict env f) r now h else h) (ss_holds st)"
    and one: "length (filter ?P (ss_holds st)) = 1" and nx: "ss_next st' = ss_next st"
    and rel: "ss_released st' = ss_released st @ [\<lparr>re_hold = ho_id (fl_hold f), re_fence = ho_attempts (fl_hold f),
                     re_lateness = mv_latenessMs (flight_verdict env f)\<rparr>]"
    using c by (auto simp: commit_release_def Let_def update_where_def r_def split: if_splits)
  let ?g = "\<lambda>h. if ?P h then released_hold (flight_verdict env f) r now h else h"
  have g: "ho_id (?g h) = ho_id h" "hold_evolves h (?g h)" for h
    by (auto simp: released_hold_def hold_evolves_def final_hold_def fenced_def)
  have d: "distinct (map ho_id (ss_holds st))" using inv by (simp add: send_inv_def)
  obtain h0 where "filter ?P (ss_holds st) = [h0]" using one by (auto simp: length_Suc_conv)
  then have h0: "h0 \<in> set (ss_holds st)" "?P h0" by (auto simp: filter_eq_Cons_iff)
  have count: "releases_of i (ss_released st') = releases_of i (ss_released st) + (if i = ho_id (fl_hold f) then 1 else 0)" for i
    by (simp add: rel releases_of_def)
  have "hold_ok (ss_released st') (?g h)" if h: "h \<in> set (ss_holds st)" for h
  proof (cases "ho_id h = ho_id (fl_hold f)")
    case True
    with h0 have "h = h0" using distinct_keys_unique [OF d h h0(1)] by (simp add: fenced_def)
    with h0 have P: "?P h" by simp
    then have "releases_of (ho_id h) (ss_released st) = 0" "0 \<le> ho_attempts h"
      using inv h by (auto simp: send_inv_def hold_ok_def fenced_def)
    with P True count [of "ho_id h"] show ?thesis by (simp add: hold_ok_def released_hold_def)
  next
    case False
    then have "\<not> ?P h" by (simp add: fenced_def)
    with False inv h count [of "ho_id h"] show ?thesis by (simp add: send_inv_def hold_ok_def)
  qed
  then have "\<forall>h \<in> set (ss_holds st'). ho_id h < ss_next st \<and> hold_ok (ss_released st') h"
    using inv g(1) unfolding hs set_map ball_simps send_inv_def by metis
  moreover have "ho_id (fl_hold f) < ss_next st" using h0 inv by (auto simp: send_inv_def fenced_def)
  then have "\<forall>e \<in> set (ss_released st'). re_hold e < ss_next st \<and> re_lateness e \<le> max 60000 (ceiling_ms env)"
    using inv late by (auto simp: rel send_inv_def)
  moreover have "map ho_id (ss_holds st') = map ho_id (ss_holds st)" unfolding hs using g(1) by simp
  ultimately have "send_inv env st'"
    using d unfolding send_inv_def nx by simp
  moreover have "holds_grow (ss_holds st) (ss_holds st')" unfolding holds_grow_def hs set_map using g(2) by blast
  ultimately show ?thesis by simp
qed

lemma send_step_effect:
  assumes inv: "send_inv env st" and step: "send_step env ev st = Some st'"
  shows "send_inv env st' \<and> holds_grow (ss_holds st) (ss_holds st')"
proof -
  have place: "send_inv env t \<and> holds_grow (ss_holds st) (ss_holds t)"
    if "quiet (ss_holds st) (ss_holds t)" "ss_next t = ss_next st" "ss_released t = ss_released st" for t
    using quiet_inv [OF inv that(1) refl that(2,3)] quiet_grow [OF that(1)] by simp
  have stay: "send_inv env t \<and> holds_grow (ss_holds st) (ss_holds t)"
    if "ss_holds t = ss_holds st" "ss_next t = ss_next st" "ss_released t = ss_released st" for t
    by (rule place) (simp_all add: that quiet_refl)
  show ?thesis
  proof (cases ev)
    case (SSubmit user req schedule now)
    show ?thesis
    proof (cases "submitMessage env user req schedule now st")
      case (Inr p)
      obtain out t where p: "p = (out, t)" by (cases p)
      from submitMessage_cases [OF Inr [unfolded p]] show ?thesis
      proof (elim disjE exE conjE)
        assume "t = st"
        with step SSubmit Inr p stay show ?thesis by (auto simp: keep_on_error_def)
      next
        fix s v q j
        assume e: "enqueueRelease env user (ss_next st) s now
          (insert_hold (new_hold (ss_next st) HoldMessage s v q None user) st) = Inr (j, t)"
        have "send_inv env t \<and> holds_grow (ss_holds st) (ss_holds t)"
          by (rule enqueued_hold_inv [OF inv refl refl refl _ _ _ e]) simp_all
        with step SSubmit Inr p show ?thesis by (auto simp: keep_on_error_def)
      qed
    qed (use step SSubmit stay in \<open>auto simp: keep_on_error_def\<close>)
  next
    case (SSubmitBulk user b schedule now created)
    show ?thesis
    proof (cases "submitBulk env user b schedule now created st")
      case (Inr p)
      obtain out t where p: "p = (out, t)" by (cases p)
      from submitBulk_cases [OF Inr [unfolded p]] show ?thesis
      proof (elim disjE exE conjE)
        assume "t = st"
        with step SSubmitBulk Inr p stay show ?thesis by (auto simp: keep_on_error_def split: if_splits)
      next
        fix s v j bulk
        assume e: "enqueueRelease env user (ss_next st) s created
          (insert_hold (new_hold (ss_next st) HoldBulk s v None (Some b) user) (st\<lparr>ss_bulk := bulk\<rparr>)) = Inr (j, t)"
        have "send_inv env t \<and> holds_grow (ss_holds st) (ss_holds t)"
          by (rule enqueued_hold_inv [OF inv _ _ _ _ _ _ e]) simp_all
        with step SSubmitBulk Inr p show ?thesis by (auto simp: keep_on_error_def split: if_splits)
      qed
    qed (use step SSubmitBulk stay in \<open>auto simp: keep_on_error_def split: if_splits\<close>)
  next
    case (SCancel i reason now)
    with step cancel_effect [of i reason now st] place stay show ?thesis
      by (cases "cancel i reason now st") (auto simp: keep_on_error_def)
  next
    case (SReschedule i v now)
    with step reschedule_effect [of env i v now st] place stay show ?thesis
      by (cases "reschedule env i v now st") (auto simp: keep_on_error_def)
  next
    case (SSweep now)
    with step place [of st'] sweepStalled_quiet show ?thesis by auto
  next
    case (SClaim i worker now dbNow attempt mx)
    obtain res hs where c: "claim i worker dbNow (ss_holds st) = (res, hs)" by fastforce
    with claim_quiet [of "ss_holds st" i worker dbNow] have "quiet (ss_holds st) hs" by simp
    with step SClaim c place [of st'] stay [of st'] show ?thesis by (cases res) auto
  next
    case (SExpire x)
    with step place [of st'] expire_hold_quiet show ?thesis by auto
  next
    case (SSpool x)
    with step stay [of st'] show ?thesis by (auto simp: spool_copy_def bind_eq_Some_conv split: if_splits)
  next
    case (SCommit x ref now)
    then obtain f where f: "in_flight env x False st = Some f"
      and st': "st' = (case commit_release env f ref now st of None \<Rightarrow> st
         | Some t \<Rightarrow> if ho_kind (fl_hold f) = HoldBulk then t else t\<lparr>ss_flights := drop_index x (ss_flights st)\<rparr>)"
      using step by (auto simp: bind_eq_Some_conv split: if_splits)
    show ?thesis
    proof (cases "commit_release env f ref now st")
      case None
      with st' stay show ?thesis by simp
    next
      case (Some t)
      from commit_release_inv [OF inv flight_lateness [OF f] Some]
      have "send_inv env t \<and> holds_grow (ss_holds st) (ss_holds t)" .
      with st' Some show ?thesis by (auto simp: send_inv_def)
    qed
  next
    case (SFail x e msg)
    with step place [of st'] recordReleaseFailure_quiet show ?thesis by auto
  next
    case (SCrash x)
    with step stay [of st'] show ?thesis by (auto split: if_splits)
  next
    case (SQueue q)
    with step stay [of st'] show ?thesis by (auto split: if_splits)
  qed
qed

interpretation sending: invariant_machine "send_step env" "\<lambda>_ _. True" "send_inv env" for env
  by unfold_locales (use send_step_effect in blast)

lemma send_inv_empty: "send_inv env empty_send"
  by (simp add: send_inv_def empty_send_def)

lemma send_run_grows:
  assumes "send_inv env st" and "run_steps (send_step env) es st = Some st'"
  shows "holds_grow (ss_holds st) (ss_holds st')"
  by (rule sending.run_related [where R = "\<lambda>s t. holds_grow (ss_holds s) (ss_holds t)",
        OF holds_grow_refl holds_grow_trans _ assms(1) sending.ok_run_total assms(2)])
    (use send_step_effect in auto)

subsection \<open>Copies given to the engine\<close>

definition copies_of :: "nat \<Rightarrow> (nat \<times> int) list \<Rightarrow> nat" where
  "copies_of i spool = length (filter (\<lambda>c. fst c = i) spool)"

definition flight_ok :: "send_env \<Rightarrow> send_state \<Rightarrow> release_flight \<Rightarrow> bool" where
  "flight_ok env st f \<longleftrightarrow>
     (\<exists>h \<in> set (ss_holds st). ho_id h = ho_id (fl_hold f) \<and> ho_kind h = ho_kind (fl_hold f)
        \<and> ho_attempts (fl_hold f) \<le> ho_attempts h)
     \<and> 1 \<le> ho_attempts (fl_hold f)
     \<and> (fl_spooled f \<longleftrightarrow> flight_key f \<in> set (ss_spool st))
     \<and> (fl_spooled f \<longrightarrow> mv_action (flight_verdict env f) \<noteq> ExpireMissed \<and> ho_kind (fl_hold f) = HoldMessage)"

definition copy_ok :: "send_state \<Rightarrow> nat \<times> int \<Rightarrow> bool" where
  "copy_ok st c \<longleftrightarrow> (\<exists>h \<in> set (ss_holds st). ho_id h = fst c \<and> ho_kind h = HoldMessage \<and> 1 \<le> snd c \<and> snd c \<le> ho_attempts h)"

definition spool_inv :: "send_env \<Rightarrow> send_state \<Rightarrow> bool" where
  "spool_inv env st \<longleftrightarrow>
     send_inv env st \<and> distinct (ss_spool st) \<and> distinct (map flight_key (ss_flights st))
     \<and> (\<forall>f \<in> set (ss_flights st). flight_ok env st f) \<and> (\<forall>c \<in> set (ss_spool st). copy_ok st c)
     \<and> (\<forall>e \<in> set (ss_released st). (re_hold e, re_fence e) \<in> set (ss_spool st)
          \<or> (\<exists>h \<in> set (ss_holds st). ho_id h = re_hold e \<and> ho_kind h = HoldBulk))"

lemma copies_of_snoc: "copies_of i (sp @ [c]) = copies_of i sp + (if fst c = i then 1 else 0)"
  by (simp add: copies_of_def)

lemma copies_of_bound:
  assumes "distinct sp" and "\<And>n. (i, n) \<in> set sp \<Longrightarrow> 1 \<le> n \<and> n \<le> b" and "0 \<le> b"
  shows "int (copies_of i sp) \<le> b"
proof -
  let ?s = "filter (\<lambda>c. fst c = i) sp"
  have "set ?s \<subseteq> Pair i ` {1..b}" using assms(2) by (auto simp: image_iff)
  then have "card (set ?s) \<le> card (Pair i ` {1..b})" by (intro card_mono) auto
  also have "\<dots> \<le> card {1..b}" by (rule card_image_le) simp
  finally have "card (set ?s) \<le> nat b" by simp
  with assms(1,3) show ?thesis unfolding copies_of_def by (subst (asm) distinct_card) (simp_all add: nat_le_iff le_nat_iff)
qed

lemma flight_ok_grow:
  assumes "flight_ok env st f" and "holds_grow (ss_holds st) (ss_holds st')"
    and "flight_key f \<in> set (ss_spool st') \<longleftrightarrow> flight_key f \<in> set (ss_spool st)"
  shows "flight_ok env st' f"
proof -
  obtain h where h: "h \<in> set (ss_holds st)" "ho_id h = ho_id (fl_hold f)" "ho_kind h = ho_kind (fl_hold f)"
    "ho_attempts (fl_hold f) \<le> ho_attempts h" using assms(1) unfolding flight_ok_def by blast
  obtain h' where h': "h' \<in> set (ss_holds st')" "hold_evolves h h'" using assms(2) h(1) unfolding holds_grow_def by blast
  then have "ho_id h' = ho_id (fl_hold f) \<and> ho_kind h' = ho_kind (fl_hold f) \<and> ho_attempts (fl_hold f) \<le> ho_attempts h'"
    using h by (auto simp: hold_evolves_def)
  with h'(1) assms(1,3) show ?thesis unfolding flight_ok_def by blast
qed

lemma copy_ok_grow:
  assumes "copy_ok st c" and "holds_grow (ss_holds st) (ss_holds st')"
  shows "copy_ok st' c"
proof -
  obtain h where h: "h \<in> set (ss_holds st)" "ho_id h = fst c \<and> ho_kind h = HoldMessage \<and> 1 \<le> snd c \<and> snd c \<le> ho_attempts h"
    using assms(1) unfolding copy_ok_def by blast
  obtain h' where h': "h' \<in> set (ss_holds st')" "hold_evolves h h'" using assms(2) h(1) unfolding holds_grow_def by blast
  with h show ?thesis unfolding copy_ok_def hold_evolves_def by (intro bexI [of _ h']) auto
qed

lemma bulk_kept:
  assumes "holds_grow hs hs'" and "\<exists>h \<in> set hs. ho_id h = i \<and> ho_kind h = HoldBulk"
  shows "\<exists>h \<in> set hs'. ho_id h = i \<and> ho_kind h = HoldBulk"
  using assms unfolding holds_grow_def hold_evolves_def by metis

lemma spool_inv_same:
  assumes inv: "spool_inv env st" and s: "send_inv env st'" and g: "holds_grow (ss_holds st) (ss_holds st')"
    and fl: "set (ss_flights st') \<subseteq> set (ss_flights st)" "distinct (map flight_key (ss_flights st'))"
    and sp: "ss_spool st' = ss_spool st" "ss_released st' = ss_released st"
  shows "spool_inv env st'"
proof -
  have "\<forall>f \<in> set (ss_flights st'). flight_ok env st' f"
    using inv fl(1) flight_ok_grow [OF _ g] by (auto simp: spool_inv_def sp)
  moreover have "\<forall>c \<in> set (ss_spool st'). copy_ok st' c"
    using inv copy_ok_grow [OF _ g] by (auto simp: spool_inv_def sp)
  moreover have "\<forall>e \<in> set (ss_released st'). (re_hold e, re_fence e) \<in> set (ss_spool st')
          \<or> (\<exists>h \<in> set (ss_holds st'). ho_id h = re_hold e \<and> ho_kind h = HoldBulk)"
    using inv bulk_kept [OF g] unfolding spool_inv_def sp by blast
  ultimately show ?thesis using inv s fl(2) by (simp add: spool_inv_def sp)
qed

lemma spool_inv_dropped:
  assumes "spool_inv env st" and "send_inv env st'" and "holds_grow (ss_holds st) (ss_holds st')"
    and "ss_flights st' = drop_index x (ss_flights st)" and "ss_spool st' = ss_spool st" "ss_released st' = ss_released st"
  shows "spool_inv env st'"
  by (rule spool_inv_same [OF assms(1-3)])
    (use assms set_drop_index [of x "ss_flights st"] in \<open>auto simp: spool_inv_def distinct_drop_index\<close>)

lemma claim_cases:
  assumes "claim i w now hs = (Claimed h, hs')" and d: "distinct (map ho_id hs)"
  shows "\<exists>h0 \<in> set hs. ho_id h0 = i \<and> (ho_status h0 = HPending \<or> ho_status h0 = HReleasing)
    \<and> h = claimed_hold w now h0 \<and> h \<in> set hs' \<and> hs' = map (\<lambda>k. if k = h0 then h else k) hs"
proof -
  obtain h0 where h0: "find (claimable i) hs = Some h0" "h = claimed_hold w now h0"
    and hs': "hs' = update_where (claimable i) (claimed_hold w now) hs"
    using assms(1) by (auto simp: claim_def split: option.splits if_splits)
  from find_some_props [OF h0(1)] have in0: "h0 \<in> set hs" "claimable i h0" by auto
  have "claimable i k \<longleftrightarrow> k = h0" if "k \<in> set hs" for k
    using distinct_keys_unique [OF d that in0(1)] in0(2) by (auto simp: claimable_def)
  then have "hs' = map (\<lambda>k. if k = h0 then h else k) hs" by (simp add: hs' update_where_def h0(2))
  with in0 h0(2) show ?thesis by (intro bexI [of _ h0]) (auto simp: claimable_def image_iff)
qed

lemma spool_inv_claimed:
  assumes inv: "spool_inv env st" and c: "claim i w dbNow (ss_holds st) = (Claimed h, hs)"
    and st': "st' = st\<lparr>ss_holds := hs, ss_flights := ss_flights st @
      [\<lparr>fl_hold = h, fl_now = now, fl_attempt = attempt, fl_max = mx, fl_spooled = False\<rparr>]\<rparr>"
    and s: "send_inv env st'" and g: "holds_grow (ss_holds st) (ss_holds st')"
  shows "spool_inv env st'"
proof -
  let ?f = "\<lparr>fl_hold = h, fl_now = now, fl_attempt = attempt, fl_max = mx, fl_spooled = False\<rparr>"
  have same: "ss_spool st' = ss_spool st" "ss_released st' = ss_released st" by (simp_all add: st')
  have d: "distinct (map ho_id (ss_holds st))" using inv by (simp add: spool_inv_def send_inv_def)
  obtain h0 where h0: "h0 \<in> set (ss_holds st)" "h = claimed_hold w dbNow h0" "h \<in> set hs"
    using claim_cases [OF c d] by blast
  have own: "k = h0" if "k \<in> set (ss_holds st)" "ho_id k = ho_id h0" for k
    by (rule distinct_keys_unique [OF d that(1) h0(1) that(2)])
  have nonneg: "0 \<le> ho_attempts h0" using inv h0(1) by (auto simp: spool_inv_def send_inv_def hold_ok_def)
  have att: "ho_attempts h = ho_attempts h0 + 1" "ho_id h = ho_id h0" using h0 by (simp_all add: claimed_hold_def)
  have freshc: "(ho_id h, ho_attempts h) \<notin> set (ss_spool st)"
  proof
    assume "(ho_id h, ho_attempts h) \<in> set (ss_spool st)"
    with inv obtain k where "k \<in> set (ss_holds st)" "ho_id k = ho_id h" "ho_attempts h \<le> ho_attempts k"
      by (fastforce simp: spool_inv_def copy_ok_def)
    with own [of k] att show False by simp
  qed
  have freshf: "flight_key f \<noteq> (ho_id h, ho_attempts h)" if "f \<in> set (ss_flights st)" for f
  proof
    assume key: "flight_key f = (ho_id h, ho_attempts h)"
    from inv that obtain k where "k \<in> set (ss_holds st)" "ho_id k = ho_id (fl_hold f)" "ho_attempts (fl_hold f) \<le> ho_attempts k"
      by (auto simp: spool_inv_def flight_ok_def)
    with own [of k] att key show False by (simp add: flight_key_def)
  qed
  have "flight_ok env st' ?f"
    using h0 att nonneg freshc by (auto simp: flight_ok_def st' flight_key_def intro!: bexI [of _ h])
  moreover have "\<forall>f \<in> set (ss_flights st). flight_ok env st' f"
    using inv flight_ok_grow [OF _ g] by (auto simp: spool_inv_def st')
  ultimately have "\<forall>f \<in> set (ss_flights st'). flight_ok env st' f" by (simp add: st')
  moreover have "\<forall>c \<in> set (ss_spool st'). copy_ok st' c"
    using inv copy_ok_grow [OF _ g] by (auto simp: spool_inv_def st')
  moreover have "flight_key ?f \<notin> flight_key ` set (ss_flights st)"
  proof
    assume "flight_key ?f \<in> flight_key ` set (ss_flights st)"
    then obtain g where "g \<in> set (ss_flights st)" "flight_key ?f = flight_key g" by (rule imageE)
    with freshf [of g] show False by (simp add: flight_key_def)
  qed
  then have "distinct (map flight_key (ss_flights st'))" using inv by (simp add: spool_inv_def st')
  moreover have "\<forall>e \<in> set (ss_released st'). (re_hold e, re_fence e) \<in> set (ss_spool st')
          \<or> (\<exists>h \<in> set (ss_holds st'). ho_id h = re_hold e \<and> ho_kind h = HoldBulk)"
    using inv bulk_kept [OF g] unfolding spool_inv_def same by blast
  ultimately show ?thesis using inv s by (simp add: spool_inv_def st')
qed

lemma in_flightD:
  "in_flight env x e st = Some f \<Longrightarrow> x < length (ss_flights st) \<and> f = ss_flights st ! x \<and> f \<in> set (ss_flights st)
     \<and> ((mv_action (flight_verdict env f) = ExpireMissed) = e)"
  by (auto simp: in_flight_def split: if_splits)

lemma spool_inv_copied:
  assumes inv: "spool_inv env st" and f: "in_flight env x False st = Some f" "ho_kind (fl_hold f) = HoldMessage" "\<not> fl_spooled f"
  shows "spool_inv env (spool_copy x f st)"
proof -
  let ?st = "spool_copy x f st"
  note fl = in_flightD [OF f(1)]
  have key: "flight_key (f\<lparr>fl_spooled := b\<rparr>) = flight_key f" for b by (simp add: flight_key_def)
  have ok: "flight_ok env st f" using inv fl by (simp add: spool_inv_def)
  with f(3) have new: "flight_key f \<notin> set (ss_spool st)" by (simp add: flight_ok_def)
  have keys: "map flight_key (ss_flights ?st) = map flight_key (ss_flights st)"
    using fl key by (simp add: spool_copy_def map_update list_update_same_conv)
  have d: "distinct (map flight_key (ss_flights st))" using inv by (simp add: spool_inv_def)
  have g: "holds_grow (ss_holds st) (ss_holds ?st)" by (simp add: spool_copy_def holds_grow_refl)
  have "flight_ok env ?st g" if g_in: "g \<in> set (ss_flights ?st)" for g
  proof -
    obtain y where y: "y < length (ss_flights st)" "g = (ss_flights st)[x := f\<lparr>fl_spooled := True\<rparr>] ! y"
      using g_in by (auto simp: spool_copy_def in_set_conv_nth)
    show ?thesis
    proof (cases "y = x")
      case True
      with y fl ok f show ?thesis by (auto simp: flight_ok_def spool_copy_def flight_key_def flight_verdict_def)
    next
      case False
      with y have g': "g = ss_flights st ! y" by simp
      have "flight_key g \<noteq> flight_key f"
        using d y(1) fl False unfolding g' by (metis distinct_conv_nth length_map nth_map)
      then have "flight_key g \<in> set (ss_spool ?st) \<longleftrightarrow> flight_key g \<in> set (ss_spool st)" by (simp add: spool_copy_def)
      moreover have "flight_ok env st g" using inv y(1) g' by (simp add: spool_inv_def)
      ultimately show ?thesis by (intro flight_ok_grow [OF _ g])
    qed
  qed
  moreover have "copy_ok ?st c" if "c \<in> set (ss_spool ?st)" for c
  proof -
    have "copy_ok st (flight_key f)" using ok f(2) by (auto simp: copy_ok_def flight_ok_def flight_key_def)
    with that inv have "copy_ok st c" by (auto simp: spool_inv_def spool_copy_def)
    then show ?thesis by (simp add: copy_ok_def spool_copy_def)
  qed
  moreover have "send_inv env ?st" using inv by (simp add: spool_inv_def send_inv_def spool_copy_def)
  ultimately show ?thesis
    using inv new unfolding spool_inv_def keys by (auto simp: spool_copy_def)
qed

lemma commit_release_cases:
  assumes c: "commit_release env f ref now st = Some t" and d: "distinct (map ho_id (ss_holds st))"
  shows "\<exists>h0 \<in> set (ss_holds st). \<exists>r. fenced (fl_hold f) h0
    \<and> ss_holds t = map (\<lambda>h. if h = h0 then released_hold (flight_verdict env f) r now h0 else h) (ss_holds st)
    \<and> ss_released t = ss_released st @ [\<lparr>re_hold = ho_id (fl_hold f), re_fence = ho_attempts (fl_hold f),
          re_lateness = mv_latenessMs (flight_verdict env f)\<rparr>]
    \<and> ss_spool t = ss_spool st \<and> ss_flights t = ss_flights st"
proof -
  let ?P = "fenced (fl_hold f)"
  have spool: "ss_spool (update_bulk b g s) = ss_spool s" for b g s by (simp add: update_bulk_def split: option.splits)
  obtain r where hs: "ss_holds t = update_where ?P (released_hold (flight_verdict env f) r now) (ss_holds st)"
    and one: "length (filter ?P (ss_holds st)) = 1" and rest: "ss_released t = ss_released st @ [\<lparr>re_hold = ho_id (fl_hold f), re_fence = ho_attempts (fl_hold f),
          re_lateness = mv_latenessMs (flight_verdict env f)\<rparr>]" "ss_spool t = ss_spool st" "ss_flights t = ss_flights st"
    using c by (auto simp: commit_release_def Let_def spool split: if_splits)
  obtain h0 where "filter ?P (ss_holds st) = [h0]" using one by (auto simp: length_Suc_conv)
  then have h0: "h0 \<in> set (ss_holds st)" "?P h0" by (auto simp: filter_eq_Cons_iff)
  have "?P h \<longleftrightarrow> h = h0" if "h \<in> set (ss_holds st)" for h
    using fenced_once [OF d that h0(1) _ h0(2)] h0(2) by blast
  with hs have "ss_holds t = map (\<lambda>h. if h = h0 then released_hold (flight_verdict env f) r now h0 else h) (ss_holds st)"
    by (simp add: update_where_def)
  with h0 rest show ?thesis by blast
qed

lemma spool_inv_committed:
  assumes inv: "spool_inv env st" and f: "in_flight env x False st = Some f"
    and sp: "ho_kind (fl_hold f) = HoldMessage \<longrightarrow> fl_spooled f"
    and c: "commit_release env f ref now st = Some t"
  shows "spool_inv env t"
proof -
  have s: "send_inv env t" and g: "holds_grow (ss_holds st) (ss_holds t)"
    using commit_release_inv [OF _ flight_lateness [OF f] c] inv by (auto simp: spool_inv_def)
  have ok: "flight_ok env st f" using inv in_flightD [OF f] by (simp add: spool_inv_def)
  have d: "distinct (map ho_id (ss_holds st))" using inv by (simp add: spool_inv_def send_inv_def)
  obtain h0 r where h0: "h0 \<in> set (ss_holds st)" "fenced (fl_hold f) h0"
    and rest: "ss_released t = ss_released st @ [\<lparr>re_hold = ho_id (fl_hold f), re_fence = ho_attempts (fl_hold f),
          re_lateness = mv_latenessMs (flight_verdict env f)\<rparr>]" "ss_spool t = ss_spool st" "ss_flights t = ss_flights st"
    using commit_release_cases [OF c d] by blast
  have entry: "(ho_id (fl_hold f), ho_attempts (fl_hold f)) \<in> set (ss_spool st)
      \<or> (\<exists>h \<in> set (ss_holds st). ho_id h = ho_id (fl_hold f) \<and> ho_kind h = HoldBulk)"
  proof (cases "ho_kind (fl_hold f)")
    case HoldMessage
    with sp ok show ?thesis by (simp add: flight_ok_def flight_key_def)
  next
    case HoldBulk
    with ok show ?thesis by (auto simp: flight_ok_def)
  qed
  have "(re_hold e, re_fence e) \<in> set (ss_spool st)
      \<or> (\<exists>h \<in> set (ss_holds st). ho_id h = re_hold e \<and> ho_kind h = HoldBulk)" if "e \<in> set (ss_released t)" for e
    using that inv entry by (auto simp: rest spool_inv_def)
  then have "\<forall>e \<in> set (ss_released t). (re_hold e, re_fence e) \<in> set (ss_spool t)
          \<or> (\<exists>h \<in> set (ss_holds t). ho_id h = re_hold e \<and> ho_kind h = HoldBulk)"
    using bulk_kept [OF g] unfolding rest by blast
  moreover have "\<forall>f \<in> set (ss_flights t). flight_ok env t f"
    using inv flight_ok_grow [OF _ g] by (auto simp: spool_inv_def rest)
  moreover have "\<forall>c \<in> set (ss_spool t). copy_ok t c"
    using inv copy_ok_grow [OF _ g] by (auto simp: spool_inv_def rest)
  ultimately show ?thesis using s inv by (simp add: spool_inv_def rest)
qed

lemma keep_on_error_simps [simp]: "keep_on_error st (Inl e) = st" "keep_on_error st (Inr t) = t"
  by (simp_all add: keep_on_error_def)

lemma operator_steps_keep_releases:
  "submitMessage env user req schedule now st = Inr (out, t) \<Longrightarrow>
     ss_flights t = ss_flights st \<and> ss_spool t = ss_spool st \<and> ss_released t = ss_released st"
  "submitBulk env user b schedule now created st = Inr (out, t) \<Longrightarrow>
     ss_flights t = ss_flights st \<and> ss_spool t = ss_spool st \<and> ss_released t = ss_released st"
  "cancel i reason now st = Inr t \<Longrightarrow>
     ss_flights t = ss_flights st \<and> ss_spool t = ss_spool st \<and> ss_released t = ss_released st"
  "reschedule env i v now st = Inr t \<Longrightarrow>
     ss_flights t = ss_flights st \<and> ss_spool t = ss_spool st \<and> ss_released t = ss_released st"
proof -
  have e: "enqueueRelease env user i s now st = Inr (j, t) \<Longrightarrow>
     ss_flights t = ss_flights st \<and> ss_spool t = ss_spool st \<and> ss_released t = ss_released st" for i s now st j t
    by (auto simp: enqueueRelease_def split: sum.splits)
  have b: "ss_spool (update_bulk b f s) = ss_spool s" "ss_spool (cancel_job c d n s) = ss_spool s"
    "ss_flights (cancel_job c d n s) = ss_flights s" for b f s c d n
    by (simp_all add: update_bulk_def cancel_job_def split: option.splits)
  show "submitMessage env user req schedule now st = Inr (out, t) \<Longrightarrow>
     ss_flights t = ss_flights st \<and> ss_spool t = ss_spool st \<and> ss_released t = ss_released st"
    by (drule submitMessage_cases) (auto dest: e simp: insert_hold_def)
  show "submitBulk env user b schedule now created st = Inr (out, t) \<Longrightarrow>
     ss_flights t = ss_flights st \<and> ss_spool t = ss_spool st \<and> ss_released t = ss_released st"
    by (drule submitBulk_cases) (auto dest: e simp: insert_hold_def)
  show "cancel i reason now st = Inr t \<Longrightarrow>
     ss_flights t = ss_flights st \<and> ss_spool t = ss_spool st \<and> ss_released t = ss_released st"
    by (drule cancel_cases) (auto simp: b)
  show "reschedule env i v now st = Inr t \<Longrightarrow>
     ss_flights t = ss_flights st \<and> ss_spool t = ss_spool st \<and> ss_released t = ss_released st"
    by (auto simp: reschedule_def move_hold_def Let_def b elim!: bind_resultE split: if_splits option.splits sum.splits prod.splits)
qed

text \<open>The steps in which no message is spooled, no release is claimed and none commits.\<close>

definition idle_event :: "send_event \<Rightarrow> bool" where
  "idle_event ev = (case ev of SClaim _ _ _ _ _ _ \<Rightarrow> False | SSpool _ \<Rightarrow> False | SCommit _ _ _ \<Rightarrow> False | _ \<Rightarrow> True)"

definition ended_flight :: "send_event \<Rightarrow> nat option" where
  "ended_flight ev = (case ev of SExpire x \<Rightarrow> Some x | SFail x _ _ \<Rightarrow> Some x | SCrash x \<Rightarrow> Some x | _ \<Rightarrow> None)"

lemma idle_step:
  assumes "send_step env ev st = Some st'" and "idle_event ev"
  shows "ss_spool st' = ss_spool st \<and> ss_released st' = ss_released st
    \<and> ss_flights st' = (case ended_flight ev of None \<Rightarrow> ss_flights st | Some x \<Rightarrow> drop_index x (ss_flights st))"
proof (cases ev)
  case (SSubmit user req schedule now)
  with assms show ?thesis
    by (cases "submitMessage env user req schedule now st") (auto simp: ended_flight_def dest: operator_steps_keep_releases)
next
  case (SSubmitBulk user b schedule now created)
  with assms show ?thesis
    by (cases "submitBulk env user b schedule now created st")
      (auto simp: ended_flight_def dest: operator_steps_keep_releases split: if_splits)
next
  case (SCancel i reason now)
  with assms show ?thesis
    by (cases "cancel i reason now st") (auto simp: ended_flight_def dest: operator_steps_keep_releases)
next
  case (SReschedule i v now)
  with assms show ?thesis
    by (cases "reschedule env i v now st") (auto simp: ended_flight_def dest: operator_steps_keep_releases)
qed (use assms in \<open>auto simp: ended_flight_def idle_event_def split: if_splits\<close>)

lemma spool_step:
  assumes inv: "spool_inv env st" and step: "send_step env ev st = Some st'"
  shows "spool_inv env st'"
proof -
  have s: "send_inv env st'" and g: "holds_grow (ss_holds st) (ss_holds st')"
    using send_step_effect [OF _ step] inv by (auto simp: spool_inv_def)
  show ?thesis
  proof (cases "idle_event ev")
    case True
    note e = idle_step [OF step True]
    show ?thesis
    proof (cases "ended_flight ev")
      case None
      with e inv show ?thesis by (intro spool_inv_same [OF inv s g]) (auto simp: spool_inv_def)
    next
      case (Some x)
      with e show ?thesis by (intro spool_inv_dropped [OF inv s g, of x]) auto
    qed
  next
    case False
    then consider (claim) i w now dbNow a m where "ev = SClaim i w now dbNow a m"
      | (spool) x where "ev = SSpool x" | (commit) x ref now where "ev = SCommit x ref now"
      by (cases ev) (auto simp: idle_event_def)
    then show ?thesis
    proof cases
      case claim
      obtain res hs where c: "claim i w dbNow (ss_holds st) = (res, hs)" by fastforce
      show ?thesis
      proof (cases res)
        case (Claimed h)
        have "st' = st\<lparr>ss_holds := hs, ss_flights := ss_flights st @
            [\<lparr>fl_hold = h, fl_now = now, fl_attempt = a, fl_max = m, fl_spooled = False\<rparr>]\<rparr>"
          using step claim c Claimed by simp
        then show ?thesis by (rule spool_inv_claimed [OF inv c [unfolded Claimed] _ s g])
      qed (use step claim c inv in auto)
    next
      case spool
      with step inv show ?thesis by (auto simp: bind_eq_Some_conv spool_inv_copied split: if_splits)
    next
      case commit
      then obtain f where f: "in_flight env x False st = Some f" "ho_kind (fl_hold f) = HoldMessage \<longrightarrow> fl_spooled f"
        and st': "st' = (case commit_release env f ref now st of None \<Rightarrow> st
         | Some t \<Rightarrow> if ho_kind (fl_hold f) = HoldBulk then t else t\<lparr>ss_flights := drop_index x (ss_flights st)\<rparr>)"
        using step by (auto simp: bind_eq_Some_conv split: if_splits)
      show ?thesis
      proof (cases "commit_release env f ref now st")
        case None
        with st' inv show ?thesis by simp
      next
        case (Some t)
        have t: "spool_inv env t" by (rule spool_inv_committed [OF inv f Some])
        have fl: "ss_flights t = ss_flights st"
          using commit_release_cases [OF Some] inv by (auto simp: spool_inv_def send_inv_def)
        show ?thesis
        proof (cases "ho_kind (fl_hold f)")
          case HoldMessage
          with st' Some have st': "st' = t\<lparr>ss_flights := drop_index x (ss_flights st)\<rparr>" by simp
          show ?thesis
            by (rule spool_inv_dropped [OF t s, of x]) (simp_all add: st' fl holds_grow_refl)
        qed (use st' Some t in simp)
      qed
    qed
  qed
qed

interpretation spooling: invariant_machine "send_step env" "\<lambda>_ _. True" "spool_inv env" for env
  by unfold_locales (use spool_step in blast)

lemma spool_inv_empty: "spool_inv env empty_send"
  by (simp add: spool_inv_def send_inv_empty) (simp add: empty_send_def)

subsection \<open>Prompt releases\<close>

text \<open>
  What keeps a message from being sent twice is that a release is not disturbed: no second worker
  starts on the hold while one is at it, the sweep spares it, and no message is spooled whose
  transaction then fails.
\<close>

definition prompt :: "send_env \<Rightarrow> send_event \<Rightarrow> send_state \<Rightarrow> bool" where
  "prompt env ev st \<longleftrightarrow>
     (case ev of
        SClaim i _ _ _ _ _ \<Rightarrow> list_all (\<lambda>f. ho_id (fl_hold f) \<noteq> i) (ss_flights st)
      | SSweep now \<Rightarrow> list_all (\<lambda>h. stalled_hold env now h \<longrightarrow> list_all (\<lambda>f. ho_id (fl_hold f) \<noteq> ho_id h) (ss_flights st)) (ss_holds st)
      | SFail x _ _ \<Rightarrow> x < length (ss_flights st) \<longrightarrow> \<not> fl_spooled (ss_flights st ! x)
      | SCrash x \<Rightarrow> x < length (ss_flights st) \<longrightarrow> \<not> fl_spooled (ss_flights st ! x)
      | _ \<Rightarrow> True)"

fun prompt_run :: "send_env \<Rightarrow> send_event list \<Rightarrow> send_state \<Rightarrow> bool" where
  "prompt_run env [] st = True"
| "prompt_run env (ev # es) st =
     (prompt env ev st \<and> (case send_step env ev st of None \<Rightarrow> True | Some st' \<Rightarrow> prompt_run env es st'))"

definition flight_hold_id :: "release_flight \<Rightarrow> nat" where
  "flight_hold_id f = ho_id (fl_hold f)"

definition prompt_inv :: "send_env \<Rightarrow> send_state \<Rightarrow> bool" where
  "prompt_inv env st \<longleftrightarrow>
     spool_inv env st \<and> distinct (map flight_hold_id (ss_flights st))
     \<and> (\<forall>f \<in> set (ss_flights st). ho_kind (fl_hold f) = HoldMessage \<longrightarrow> (\<exists>h \<in> set (ss_holds st). fenced (fl_hold f) h))
     \<and> (\<forall>c \<in> set (ss_spool st). (\<exists>f \<in> set (ss_flights st). fl_spooled f \<and> flight_key f = c)
          \<or> (\<exists>h \<in> set (ss_holds st). ho_id h = fst c \<and> ho_status h = HReleased \<and> ho_attempts h = snd c))"

lemma released_kept:
  assumes g: "holds_grow hs hs'" and "\<exists>h \<in> set hs. ho_id h = i \<and> ho_status h = HReleased \<and> ho_attempts h = n"
  shows "\<exists>h \<in> set hs'. ho_id h = i \<and> ho_status h = HReleased \<and> ho_attempts h = n"
proof -
  obtain h where h: "h \<in> set hs" "ho_id h = i" "ho_status h = HReleased" "ho_attempts h = n" using assms(2) by blast
  with g obtain h' where h': "h' \<in> set hs'" "hold_evolves h h'" unfolding holds_grow_def by blast
  with h have "ho_id h' = i \<and> ho_status h' = HReleased \<and> ho_attempts h' = n" by (auto simp: hold_evolves_def final_hold_def)
  with h'(1) show ?thesis by blast
qed

lemma prompt_inv_same:
  assumes inv: "prompt_inv env st" and s: "spool_inv env st'" and g: "holds_grow (ss_holds st) (ss_holds st')"
    and sp: "ss_spool st' = ss_spool st"
    and fl: "set (ss_flights st') \<subseteq> set (ss_flights st)" "distinct (map flight_hold_id (ss_flights st'))"
    and live: "\<And>f. f \<in> set (ss_flights st) \<Longrightarrow> fl_spooled f \<Longrightarrow> f \<in> set (ss_flights st')"
    and kept: "\<And>f h. f \<in> set (ss_flights st') \<Longrightarrow> ho_kind (fl_hold f) = HoldMessage \<Longrightarrow> h \<in> set (ss_holds st) \<Longrightarrow> fenced (fl_hold f) h \<Longrightarrow>
        \<exists>h' \<in> set (ss_holds st'). fenced (fl_hold f) h'"
  shows "prompt_inv env st'"
proof -
  have "\<exists>h \<in> set (ss_holds st'). fenced (fl_hold f) h" if "f \<in> set (ss_flights st')" "ho_kind (fl_hold f) = HoldMessage" for f
    using inv that fl(1) kept unfolding prompt_inv_def by blast
  moreover have "(\<exists>f \<in> set (ss_flights st'). fl_spooled f \<and> flight_key f = c)
      \<or> (\<exists>h \<in> set (ss_holds st'). ho_id h = fst c \<and> ho_status h = HReleased \<and> ho_attempts h = snd c)"
    if "c \<in> set (ss_spool st')" for c
    using inv that live released_kept [OF g, of "fst c" "snd c"] unfolding prompt_inv_def sp by blast
  ultimately show ?thesis using s fl(2) by (simp add: prompt_inv_def)
qed

lemma fenced_kept:
  assumes "h \<in> set hs" "fenced s h" "hs' = update_where P f hs" "\<not> P h"
  shows "\<exists>h' \<in> set hs'. fenced s h'"
  using update_where_keeps [of h hs P f] assms by blast

lemma fenced_enqueued:
  assumes h: "h \<in> set (ss_holds st)" "fenced s h" and inv: "send_inv env st"
    and e: "enqueueRelease env user (ss_next st) w now (insert_hold n st1) = Inr (j, t)" and st1: "ss_holds st1 = ss_holds st"
  shows "\<exists>h' \<in> set (ss_holds t). fenced s h'"
proof -
  have "ho_id h < ss_next st" using inv h(1) by (simp add: send_inv_def)
  then show ?thesis
    by (intro fenced_kept [OF _ h(2) enqueueRelease_effect(4) [OF e]]) (use h(1) in \<open>simp_all add: insert_hold_def st1\<close>)
qed

text \<open>A step that is neither of a release nor a sweep leaves every hold under release as it is.\<close>

lemma operator_step_keeps_fenced:
  assumes step: "send_step env ev st = Some st'" and e: "idle_event ev" "ended_flight ev = None" "\<And>now. ev \<noteq> SSweep now"
    and inv: "send_inv env st" and h: "h \<in> set (ss_holds st)" "fenced s h"
  shows "\<exists>h' \<in> set (ss_holds st'). fenced s h'"
proof (cases ev)
  case (SSubmit user req schedule now)
  show ?thesis
  proof (cases "submitMessage env user req schedule now st")
    case (Inr p)
    obtain out t where p: "p = (out, t)" by (cases p)
    from submitMessage_cases [OF Inr [unfolded p]] step SSubmit Inr p h show ?thesis
      by (auto dest: fenced_enqueued [OF h inv _ refl])
  qed (use step SSubmit h in auto)
next
  case (SSubmitBulk user b schedule now created)
  show ?thesis
  proof (cases "submitBulk env user b schedule now created st")
    case (Inr p)
    obtain out t where p: "p = (out, t)" by (cases p)
    from submitBulk_cases [OF Inr [unfolded p]] step SSubmitBulk Inr p h show ?thesis
      by (auto dest: fenced_enqueued [OF h inv] split: if_splits)
  qed (use step SSubmitBulk h in \<open>auto split: if_splits\<close>)
next
  case (SCancel i reason now)
  show ?thesis
  proof (cases "cancel i reason now st")
    case (Inr t)
    have "ss_holds t = update_where (pending_row i) (cancel_row (cancel_detail reason)) (ss_holds st)"
      using cancel_cases [OF Inr] by auto
    with step SCancel Inr h show ?thesis
      by (intro fenced_kept [OF h, of _ "pending_row i"]) (auto simp: fenced_def pending_row_def)
  qed (use step SCancel h in auto)
next
  case (SReschedule i v now)
  show ?thesis
  proof (cases "reschedule env i v now st")
    case (Inr t)
    obtain k s' where "ss_holds t = update_where (pending_row k) (\<lambda>h. h\<lparr>ho_at := s'\<rparr>) (ss_holds st)"
      using Inr by (auto simp: reschedule_def move_hold_def Let_def elim!: bind_resultE split: if_splits option.splits sum.splits prod.splits)
    with step SReschedule Inr h show ?thesis
      by (intro fenced_kept [OF h, of _ "pending_row k"]) (auto simp: fenced_def pending_row_def)
  qed (use step SReschedule h in auto)
qed (use step e h in \<open>auto simp: idle_event_def ended_flight_def split: if_splits\<close>)

lemma prompt_inv_dropped:
  assumes inv: "prompt_inv env st" and s: "spool_inv env st'" and g: "holds_grow (ss_holds st) (ss_holds st')"
    and sp: "ss_spool st' = ss_spool st" and x: "x < length (ss_flights st)" "\<not> fl_spooled (ss_flights st ! x)"
    and fl: "ss_flights st' = drop_index x (ss_flights st)"
    and hs: "ss_holds st' = ss_holds st \<or> (\<exists>f. ss_holds st' = update_where (fenced (fl_hold (ss_flights st ! x))) f (ss_holds st))"
  shows "prompt_inv env st'"
proof (rule prompt_inv_same [OF inv s g sp])
  have d: "distinct (map flight_hold_id (ss_flights st))" using inv by (simp add: prompt_inv_def)
  show "set (ss_flights st') \<subseteq> set (ss_flights st)" using set_drop_index by (simp add: fl)
  show "distinct (map flight_hold_id (ss_flights st'))" using distinct_drop_index [OF d] by (simp add: fl)
  show "f \<in> set (ss_flights st')" if "f \<in> set (ss_flights st)" "fl_spooled f" for f
    using drop_index_others [OF x(1) that(1)] that(2) x(2) by (auto simp: fl)
  show "\<exists>h' \<in> set (ss_holds st'). fenced (fl_hold f) h'"
    if f: "f \<in> set (ss_flights st')" and h: "h \<in> set (ss_holds st)" "fenced (fl_hold f) h" for f h
  proof -
    have "flight_hold_id f \<noteq> flight_hold_id (ss_flights st ! x)"
      using drop_index_keys_differ [OF d x(1)] f by (simp add: fl)
    with h have "\<not> fenced (fl_hold (ss_flights st ! x)) h" by (auto simp: fenced_def flight_hold_id_def)
    with hs h show ?thesis by (auto intro: fenced_kept [OF h])
  qed
qed

lemma prompt_inv_claimed:
  assumes inv: "prompt_inv env st" and s: "spool_inv env st'" and g: "holds_grow (ss_holds st) (ss_holds st')"
    and c: "claim i w dbNow (ss_holds st) = (Claimed h, hs)" and free: "list_all (\<lambda>f. ho_id (fl_hold f) \<noteq> i) (ss_flights st)"
    and st': "st' = st\<lparr>ss_holds := hs, ss_flights := ss_flights st @
      [\<lparr>fl_hold = h, fl_now = now, fl_attempt = attempt, fl_max = mx, fl_spooled = False\<rparr>]\<rparr>"
  shows "prompt_inv env st'"
proof -
  have d: "distinct (map ho_id (ss_holds st))" using inv by (simp add: prompt_inv_def spool_inv_def send_inv_def)
  obtain h0 where h0: "h0 \<in> set (ss_holds st)" "ho_id h0 = i" "h = claimed_hold w dbNow h0" "h \<in> set hs"
    and hs: "hs = map (\<lambda>k. if k = h0 then h else k) (ss_holds st)"
    using claim_cases [OF c d] by blast
  have h: "ho_id h = i" "fenced h h" using h0 by (simp_all add: claimed_hold_def fenced_def)
  have "\<exists>k' \<in> set hs. fenced (fl_hold f) k'" if f: "f \<in> set (ss_flights st)" "ho_kind (fl_hold f) = HoldMessage" for f
  proof -
    obtain k where k: "k \<in> set (ss_holds st)" "fenced (fl_hold f) k" using inv f by (auto simp: prompt_inv_def)
    with free f(1) h0(2) have "k \<noteq> h0" by (auto simp: fenced_def list_all_iff)
    with k(1) have "k \<in> set hs" by (force simp: hs)
    with k(2) show ?thesis by blast
  qed
  moreover have "i \<notin> flight_hold_id ` set (ss_flights st)" using free by (auto simp: list_all_iff flight_hold_id_def)
  moreover have "(\<exists>f \<in> set (ss_flights st'). fl_spooled f \<and> flight_key f = c)
      \<or> (\<exists>h \<in> set (ss_holds st'). ho_id h = fst c \<and> ho_status h = HReleased \<and> ho_attempts h = snd c)"
    if "c \<in> set (ss_spool st)" for c
  proof -
    from inv that have "(\<exists>f \<in> set (ss_flights st). fl_spooled f \<and> flight_key f = c)
      \<or> (\<exists>h \<in> set (ss_holds st). ho_id h = fst c \<and> ho_status h = HReleased \<and> ho_attempts h = snd c)"
      unfolding prompt_inv_def by blast
    then show ?thesis
    proof
      assume "\<exists>f \<in> set (ss_flights st). fl_spooled f \<and> flight_key f = c"
      then show ?thesis by (auto simp: st')
    next
      assume "\<exists>h \<in> set (ss_holds st). ho_id h = fst c \<and> ho_status h = HReleased \<and> ho_attempts h = snd c"
      then show ?thesis using released_kept [OF g] by simp
    qed
  qed
  ultimately show ?thesis
    using inv s h h0(4) by (auto simp: prompt_inv_def st' flight_hold_id_def)
qed

lemma prompt_inv_copied:
  assumes inv: "prompt_inv env st" and f: "in_flight env x False st = Some f" "ho_kind (fl_hold f) = HoldMessage" "\<not> fl_spooled f"
  shows "prompt_inv env (spool_copy x f st)"
proof -
  let ?st = "spool_copy x f st" and ?f = "f\<lparr>fl_spooled := True\<rparr>"
  note fl = in_flightD [OF f(1)]
  have s: "spool_inv env ?st" using inv f by (simp add: prompt_inv_def spool_inv_copied)
  have ids: "map flight_hold_id (ss_flights ?st) = map flight_hold_id (ss_flights st)"
    using fl by (simp add: spool_copy_def map_update list_update_same_conv flight_hold_id_def)
  have sub: "set (ss_flights ?st) \<subseteq> insert ?f (set (ss_flights st))"
    using set_update_subset_insert by (simp add: spool_copy_def)
  have new: "?f \<in> set (ss_flights ?st)" using fl by (simp add: spool_copy_def set_update_memI)
  have live: "g \<in> set (ss_flights ?st)" if g: "g \<in> set (ss_flights st)" "fl_spooled g" for g
  proof -
    obtain y where y: "y < length (ss_flights st)" "g = ss_flights st ! y" using g(1) by (auto simp: in_set_conv_nth)
    with g(2) f(3) fl have "y \<noteq> x" by auto
    with y have "(ss_flights st)[x := ?f] ! y = g" by simp
    with y(1) have "g \<in> set ((ss_flights st)[x := ?f])" by (metis length_list_update nth_mem)
    then show ?thesis by (simp add: spool_copy_def)
  qed
  have "\<exists>h \<in> set (ss_holds ?st). fenced (fl_hold g) h" if g: "g \<in> set (ss_flights ?st)" "ho_kind (fl_hold g) = HoldMessage" for g
  proof -
    have "fl_hold g = fl_hold f \<or> g \<in> set (ss_flights st)" using g(1) sub by auto
    with inv g(2) fl f(2) show ?thesis by (auto simp: prompt_inv_def spool_copy_def)
  qed
  moreover have "(\<exists>g \<in> set (ss_flights ?st). fl_spooled g \<and> flight_key g = c)
      \<or> (\<exists>h \<in> set (ss_holds ?st). ho_id h = fst c \<and> ho_status h = HReleased \<and> ho_attempts h = snd c)"
    if c: "c \<in> set (ss_spool ?st)" for c
  proof (cases "c = flight_key f")
    case True
    then have "fl_spooled ?f \<and> flight_key ?f = c" by (simp add: flight_key_def)
    with new show ?thesis by blast
  next
    case False
    with c have "c \<in> set (ss_spool st)" by (simp add: spool_copy_def)
    with inv have "(\<exists>g \<in> set (ss_flights st). fl_spooled g \<and> flight_key g = c)
      \<or> (\<exists>h \<in> set (ss_holds st). ho_id h = fst c \<and> ho_status h = HReleased \<and> ho_attempts h = snd c)"
      unfolding prompt_inv_def by blast
    moreover have "ss_holds ?st = ss_holds st" by (simp add: spool_copy_def)
    ultimately show ?thesis using live by metis
  qed
  ultimately show ?thesis using inv s unfolding prompt_inv_def ids by blast
qed

lemma prompt_inv_committed:
  assumes inv: "prompt_inv env st" and f: "in_flight env x False st = Some f"
    and sp: "ho_kind (fl_hold f) = HoldMessage \<longrightarrow> fl_spooled f"
    and c: "commit_release env f ref now st = Some t"
    and st': "st' = (if ho_kind (fl_hold f) = HoldBulk then t else t\<lparr>ss_flights := drop_index x (ss_flights st)\<rparr>)"
    and s: "spool_inv env st'" and g: "holds_grow (ss_holds st) (ss_holds st')"
  shows "prompt_inv env st'"
proof -
  have d: "distinct (map ho_id (ss_holds st))" and df: "distinct (map flight_hold_id (ss_flights st))"
    using inv by (simp_all add: prompt_inv_def spool_inv_def send_inv_def)
  note fl = in_flightD [OF f]
  obtain h0 r where h0: "h0 \<in> set (ss_holds st)" "fenced (fl_hold f) h0"
    and hs: "ss_holds t = map (\<lambda>h. if h = h0 then released_hold (flight_verdict env f) r now h0 else h) (ss_holds st)"
    and rest: "ss_spool t = ss_spool st" "ss_flights t = ss_flights st"
    using commit_release_cases [OF c d] by blast
  have holds: "ss_holds st' = ss_holds t" "ss_spool st' = ss_spool st" using rest by (simp_all add: st')
  have sub: "set (ss_flights st') \<subseteq> set (ss_flights st)" using set_drop_index [of x "ss_flights st"] by (auto simp: st' rest)
  have "distinct (map flight_hold_id (ss_flights st'))" using df by (simp add: st' rest distinct_drop_index)
  moreover have "\<exists>h \<in> set (ss_holds st'). fenced (fl_hold e) h"
    if e: "e \<in> set (ss_flights st')" "ho_kind (fl_hold e) = HoldMessage" for e
  proof -
    obtain h where h: "h \<in> set (ss_holds st)" "fenced (fl_hold e) h" using inv e sub by (auto simp: prompt_inv_def)
    have "flight_hold_id e \<noteq> flight_hold_id f"
    proof (cases "ho_kind (fl_hold f)")
      case HoldMessage
      then show ?thesis using drop_index_keys_differ [OF df, of x e] e(1) fl by (simp add: st')
    next
      case HoldBulk
      with e(2) have "e \<noteq> f" by auto
      moreover have "e \<in> set (ss_flights st)" using e(1) sub by blast
      ultimately show ?thesis using distinct_keys_unique [OF df, of e f] fl by blast
    qed
    with h h0 have "h \<noteq> h0" by (auto simp: fenced_def flight_hold_id_def)
    with h(1) have "h \<in> set (ss_holds st')" by (force simp: holds hs)
    with h(2) show ?thesis by blast
  qed
  moreover have "(\<exists>e \<in> set (ss_flights st'). fl_spooled e \<and> flight_key e = k)
      \<or> (\<exists>h \<in> set (ss_holds st'). ho_id h = fst k \<and> ho_status h = HReleased \<and> ho_attempts h = snd k)"
    if k: "k \<in> set (ss_spool st')" for k
  proof -
    let ?r = "released_hold (flight_verdict env f) r now h0"
    have "(\<exists>e \<in> set (ss_flights st). fl_spooled e \<and> flight_key e = k)
      \<or> (\<exists>h \<in> set (ss_holds st). ho_id h = fst k \<and> ho_status h = HReleased \<and> ho_attempts h = snd k)"
      using inv k unfolding prompt_inv_def holds by blast
    then show ?thesis
    proof
      assume "\<exists>e \<in> set (ss_flights st). fl_spooled e \<and> flight_key e = k"
      then obtain e where e: "e \<in> set (ss_flights st)" "fl_spooled e" "flight_key e = k" by blast
      show ?thesis
      proof (cases "e \<in> set (ss_flights st')")
        case False
        with e(1) fl have "e = f" using drop_index_others [of x "ss_flights st" e] by (auto simp: st' rest split: if_splits)
        moreover have "?r \<in> set (ss_holds st')" using h0(1) by (force simp: holds hs)
        ultimately show ?thesis
          using e(3) h0(2) by (intro disjI2 bexI [of _ ?r]) (auto simp: released_hold_def fenced_def flight_key_def)
      qed (use e in blast)
    next
      assume "\<exists>h \<in> set (ss_holds st). ho_id h = fst k \<and> ho_status h = HReleased \<and> ho_attempts h = snd k"
      then show ?thesis using released_kept [OF g] by simp
    qed
  qed
  ultimately show ?thesis using s unfolding prompt_inv_def by blast
qed

lemma fail_or_crash_step:
  assumes "send_step env ev st = Some st'" and "ended_flight ev = Some x"
  shows "x < length (ss_flights st)
    \<and> (ss_holds st' = ss_holds st \<or> (\<exists>f. ss_holds st' = update_where (fenced (fl_hold (ss_flights st ! x))) f (ss_holds st)))
    \<and> (ev = SExpire x \<longrightarrow> mv_action (flight_verdict env (ss_flights st ! x)) = ExpireMissed)"
  using assms
  by (cases ev) (auto simp: ended_flight_def in_flight_def expire_hold_def recordReleaseFailure_def Let_def split: if_splits)

lemma prompt_step:
  assumes inv: "prompt_inv env st" and ok: "prompt env ev st" and step: "send_step env ev st = Some st'"
  shows "prompt_inv env st'"
proof -
  have sp: "spool_inv env st" using inv by (simp add: prompt_inv_def)
  then have si: "send_inv env st" by (simp add: spool_inv_def)
  have s: "spool_inv env st'" by (rule spool_step [OF sp step])
  have g: "holds_grow (ss_holds st) (ss_holds st')" using send_step_effect [OF si step] by simp
  show ?thesis
  proof (cases "idle_event ev")
    case True
    note e = idle_step [OF step True]
    show ?thesis
    proof (cases "ended_flight ev")
      case None
      have kept: "\<exists>h' \<in> set (ss_holds st'). fenced (fl_hold f) h'"
        if "f \<in> set (ss_flights st)" "h \<in> set (ss_holds st)" "fenced (fl_hold f) h" for f h
      proof (cases "\<exists>now. ev = SSweep now")
        case True
        then obtain now where ev: "ev = SSweep now" by blast
        have "stalled_hold env now h \<Longrightarrow> \<forall>f \<in> set (ss_flights st). ho_id (fl_hold f) \<noteq> ho_id h"
          using ok that(2) by (simp add: prompt_def ev list_all_iff)
        with that have "\<not> stalled_hold env now h" by (metis fenced_def)
        with step ev show ?thesis by (intro fenced_kept [OF that(2,3)]) (auto simp: sweepStalled_def)
      qed (use operator_step_keeps_fenced [OF step True None _ si that(2,3)] in blast)
      from e None inv show ?thesis
        by (intro prompt_inv_same [OF inv s g]) (auto simp: prompt_inv_def intro: kept)
    next
      case (Some x)
      note x = fail_or_crash_step [OF step Some]
      have "\<not> fl_spooled (ss_flights st ! x)"
      proof (cases "ev = SExpire x")
        case True
        moreover have "flight_ok env st (ss_flights st ! x)" using x sp by (simp add: spool_inv_def)
        ultimately show ?thesis using x by (auto simp: flight_ok_def)
      qed (use ok x Some in \<open>auto simp: prompt_def ended_flight_def split: send_event.splits\<close>)
      then show ?thesis
        by (intro prompt_inv_dropped [OF inv s g, of x]) (use x e Some in auto)
    qed
  next
    case False
    then consider (claim) i w now dbNow a m where "ev = SClaim i w now dbNow a m"
      | (spool) x where "ev = SSpool x" | (commit) x ref now where "ev = SCommit x ref now"
      by (cases ev) (auto simp: idle_event_def)
    then show ?thesis
    proof cases
      case claim
      obtain res hs where c: "claim i w dbNow (ss_holds st) = (res, hs)" by fastforce
      show ?thesis
      proof (cases res)
        case (Claimed h)
        have "st' = st\<lparr>ss_holds := hs, ss_flights := ss_flights st @
            [\<lparr>fl_hold = h, fl_now = now, fl_attempt = a, fl_max = m, fl_spooled = False\<rparr>]\<rparr>"
          using step claim c Claimed by simp
        moreover have "list_all (\<lambda>f. ho_id (fl_hold f) \<noteq> i) (ss_flights st)" using ok by (simp add: prompt_def claim)
        ultimately show ?thesis by (intro prompt_inv_claimed [OF inv s g c [unfolded Claimed]])
      qed (use step claim c inv in auto)
    next
      case spool
      with step inv show ?thesis by (auto simp: bind_eq_Some_conv prompt_inv_copied split: if_splits)
    next
      case commit
      then obtain f where f: "in_flight env x False st = Some f" "ho_kind (fl_hold f) = HoldMessage \<longrightarrow> fl_spooled f"
        and st': "st' = (case commit_release env f ref now st of None \<Rightarrow> st
         | Some t \<Rightarrow> if ho_kind (fl_hold f) = HoldBulk then t else t\<lparr>ss_flights := drop_index x (ss_flights st)\<rparr>)"
        using step by (auto simp: bind_eq_Some_conv split: if_splits)
      show ?thesis
      proof (cases "commit_release env f ref now st")
        case (Some t)
        with st' show ?thesis by (intro prompt_inv_committed [OF inv f Some _ s g]) simp
      qed (use st' inv in simp)
    qed
  qed
qed

interpretation prompting: invariant_machine "send_step env" "prompt env" "prompt_inv env" for env
  by unfold_locales (rule prompt_step)

lemma prompt_run_ok: "prompt_run env es st = prompting.ok_run env es st"
  by (induction es arbitrary: st) (auto split: option.splits)

lemma copies_of_one:
  assumes "distinct sp" and "\<And>n. (i, n) \<in> set sp \<longleftrightarrow> n = k \<and> b"
  shows "copies_of i sp = (if b then 1 else 0)"
proof -
  have "set (filter (\<lambda>c. fst c = i) sp) = (if b then {(i, k)} else {})"
  proof (rule set_eqI)
    fix c show "c \<in> set (filter (\<lambda>c. fst c = i) sp) \<longleftrightarrow> c \<in> (if b then {(i, k)} else {})"
      using assms(2) [of "snd c"] by (cases c) auto
  qed
  moreover have "length (filter (\<lambda>c. fst c = i) sp) = card (set (filter (\<lambda>c. fst c = i) sp))"
    using assms(1) by (intro distinct_card [symmetric]) simp
  ultimately show ?thesis unfolding copies_of_def by simp
qed

definition copy_under_way :: "nat \<Rightarrow> send_state \<Rightarrow> bool" where
  "copy_under_way i st \<longleftrightarrow> list_ex (\<lambda>f. fl_spooled f \<and> ho_id (fl_hold f) = i) (ss_flights st)"

lemma prompt_copies:
  assumes inv: "prompt_inv env st" and h: "h \<in> set (ss_holds st)" "ho_kind h = HoldMessage"
  shows "copies_of (ho_id h) (ss_spool st) = (if ho_status h = HReleased \<or> copy_under_way (ho_id h) st then 1 else 0)
    \<and> (copy_under_way (ho_id h) st \<longrightarrow> ho_status h = HReleasing)"
proof
  have sp: "spool_inv env st" and si: "send_inv env st" using inv by (simp_all add: prompt_inv_def spool_inv_def)
  have d: "distinct (map ho_id (ss_holds st))" using si by (simp add: send_inv_def)
  have own: "k = h" if "k \<in> set (ss_holds st)" "ho_id k = ho_id h" for k
    by (rule distinct_keys_unique [OF d that(1) h(1) that(2)])
  have flight: "ho_status h = HReleasing \<and> ho_attempts h = ho_attempts (fl_hold f) \<and> flight_key f \<in> set (ss_spool st)"
    if f: "f \<in> set (ss_flights st)" "fl_spooled f" "ho_id (fl_hold f) = ho_id h" for f
  proof -
    have ok: "flight_ok env st f" using sp f(1) by (simp add: spool_inv_def)
    with f inv obtain k where "k \<in> set (ss_holds st)" "fenced (fl_hold f) k" by (auto simp: prompt_inv_def flight_ok_def)
    with own [of k] f(3) ok f(2) show ?thesis by (auto simp: fenced_def flight_ok_def)
  qed
  then show "copy_under_way (ho_id h) st \<longrightarrow> ho_status h = HReleasing" by (auto simp: copy_under_way_def list_ex_iff)
  show "copies_of (ho_id h) (ss_spool st) = (if ho_status h = HReleased \<or> copy_under_way (ho_id h) st then 1 else 0)"
  proof (rule copies_of_one [where k = "ho_attempts h"])
    show "distinct (ss_spool st)" using sp by (simp add: spool_inv_def)
    show "(ho_id h, n) \<in> set (ss_spool st) \<longleftrightarrow> n = ho_attempts h \<and> (ho_status h = HReleased \<or> copy_under_way (ho_id h) st)" for n
    proof
      assume "(ho_id h, n) \<in> set (ss_spool st)"
      with inv have "(\<exists>f \<in> set (ss_flights st). fl_spooled f \<and> flight_key f = (ho_id h, n))
          \<or> (\<exists>k \<in> set (ss_holds st). ho_id k = ho_id h \<and> ho_status k = HReleased \<and> ho_attempts k = n)"
        unfolding prompt_inv_def by fastforce
      then show "n = ho_attempts h \<and> (ho_status h = HReleased \<or> copy_under_way (ho_id h) st)"
        using flight own by (auto simp: flight_key_def copy_under_way_def list_ex_iff)
    next
      assume n: "n = ho_attempts h \<and> (ho_status h = HReleased \<or> copy_under_way (ho_id h) st)"
      show "(ho_id h, n) \<in> set (ss_spool st)"
      proof (cases "copy_under_way (ho_id h) st")
        case True
        then obtain f where "f \<in> set (ss_flights st)" "fl_spooled f" "ho_id (fl_hold f) = ho_id h"
          by (auto simp: copy_under_way_def list_ex_iff)
        with flight [of f] n show ?thesis by (simp add: flight_key_def)
      next
        case False
        with n have rel: "ho_status h = HReleased" by simp
        with si h(1) have "releases_of (ho_id h) (ss_released st) = 1" by (auto simp: send_inv_def hold_ok_def)
        then have "filter (\<lambda>e. re_hold e = ho_id h) (ss_released st) \<noteq> []" by (auto simp: releases_of_def)
        then obtain e where e: "e \<in> set (ss_released st)" "re_hold e = ho_id h" by (auto simp: filter_empty_conv)
        have "(ho_id h, re_fence e) \<in> set (ss_spool st)"
          using sp e own h(2) unfolding spool_inv_def by (metis hold_kind.distinct(1))
        moreover from this inv have "(\<exists>f \<in> set (ss_flights st). fl_spooled f \<and> flight_key f = (ho_id h, re_fence e))
          \<or> (\<exists>k \<in> set (ss_holds st). ho_id k = ho_id h \<and> ho_status k = HReleased \<and> ho_attempts k = re_fence e)"
          unfolding prompt_inv_def by fastforce
        then have "re_fence e = ho_attempts h"
        proof (elim disjE bexE conjE)
          fix f assume "f \<in> set (ss_flights st)" "fl_spooled f" "flight_key f = (ho_id h, re_fence e)"
          with flight [of f] rel show ?thesis by (simp add: flight_key_def)
        next
          fix k assume "k \<in> set (ss_holds st)" "ho_id k = ho_id h" "ho_attempts k = re_fence e"
          with own [of k] show ?thesis by simp
        qed
        ultimately show ?thesis using n by simp
      qed
    qed
  qed
qed

text \<open>C4. However releases, retries, cancellations, reschedules, sweeps, crashes and queue activity
  interleave, the transaction that releases a hold commits exactly once if its status is released and
  never otherwise, and the lateness it records (read when the release starts) is at most the grace or
  the ceiling. Released, cancelled, failed and expired holds keep their status for good. Of a held
  message at most one copy per claim reaches the engine, the committed one among them. If releases
  are prompt (no claim while another release of the hold is under way, no sweep of a live one, no
  failure between spooling and COMMIT), there is exactly one copy once the hold is released, one while
  its release is about to commit, and none otherwise, so a cancelled or expired message is never sent.\<close>

theorem holds_released_once:
  assumes "run_steps (send_step env) es empty_send = Some st" and "run_steps (send_step env) fs st = Some st'"
  shows "(\<forall>h \<in> set (ss_holds st). releases_of (ho_id h) (ss_released st) = (if ho_status h = HReleased then 1 else 0))
    \<and> (\<forall>e \<in> set (ss_released st). re_lateness e \<le> max 60000 (ceiling_ms env))
    \<and> (\<forall>h \<in> set (ss_holds st). final_hold h \<longrightarrow>
         (\<exists>h' \<in> set (ss_holds st'). ho_id h' = ho_id h \<and> ho_status h' = ho_status h
            \<and> releases_of (ho_id h) (ss_released st') = releases_of (ho_id h) (ss_released st)))
    \<and> (\<forall>h \<in> set (ss_holds st). ho_kind h = HoldMessage \<longrightarrow>
         int (copies_of (ho_id h) (ss_spool st)) \<le> ho_attempts h
         \<and> (\<forall>e \<in> set (ss_released st). re_hold e = ho_id h \<longrightarrow> (re_hold e, re_fence e) \<in> set (ss_spool st)))
    \<and> (prompt_run env es empty_send \<longrightarrow> (\<forall>h \<in> set (ss_holds st). ho_kind h = HoldMessage \<longrightarrow>
         copies_of (ho_id h) (ss_spool st) = (if ho_status h = HReleased \<or> copy_under_way (ho_id h) st then 1 else 0)
         \<and> (copy_under_way (ho_id h) st \<longrightarrow> ho_status h = HReleasing)))"
proof -
  have sp: "spool_inv env st" by (rule spooling.run_inv [OF spool_inv_empty spooling.ok_run_total assms(1)]) simp
  then have inv: "send_inv env st" by (simp add: spool_inv_def)
  have inv': "send_inv env st'" by (rule sending.run_inv [OF inv sending.ok_run_total assms(2)]) simp
  have grow: "holds_grow (ss_holds st) (ss_holds st')" by (rule send_run_grows [OF inv assms(2)])
  have d: "distinct (map ho_id (ss_holds st))" using inv by (simp add: send_inv_def)
  have final: "\<exists>h' \<in> set (ss_holds st'). ho_id h' = ho_id h \<and> ho_status h' = ho_status h
      \<and> releases_of (ho_id h) (ss_released st') = releases_of (ho_id h) (ss_released st)"
    if h: "h \<in> set (ss_holds st)" "final_hold h" for h
  proof -
    from grow h obtain h' where h': "h' \<in> set (ss_holds st')" "hold_evolves h h'" unfolding holds_grow_def by blast
    with h have "ho_id h' = ho_id h" "ho_status h' = ho_status h" by (auto simp: hold_evolves_def)
    moreover have "hold_ok (ss_released st) h" "hold_ok (ss_released st') h'"
      using inv inv' h(1) h'(1) by (auto simp: send_inv_def)
    ultimately show ?thesis using h'(1) by (intro bexI [of _ h']) (simp_all add: hold_ok_def)
  qed
  have copies: "int (copies_of (ho_id h) (ss_spool st)) \<le> ho_attempts h
         \<and> (\<forall>e \<in> set (ss_released st). re_hold e = ho_id h \<longrightarrow> (re_hold e, re_fence e) \<in> set (ss_spool st))"
    if h: "h \<in> set (ss_holds st)" "ho_kind h = HoldMessage" for h
  proof -
    have own: "k = h" if "k \<in> set (ss_holds st)" "ho_id k = ho_id h" for k
      by (rule distinct_keys_unique [OF d that(1) h(1) that(2)])
    have "1 \<le> n \<and> n \<le> ho_attempts h" if "(ho_id h, n) \<in> set (ss_spool st)" for n
      using sp that own by (fastforce simp: spool_inv_def copy_ok_def)
    moreover have "0 \<le> ho_attempts h" using inv h(1) by (auto simp: send_inv_def hold_ok_def)
    moreover have "distinct (ss_spool st)" using sp by (simp add: spool_inv_def)
    ultimately have "int (copies_of (ho_id h) (ss_spool st)) \<le> ho_attempts h" by (intro copies_of_bound)
    moreover have "(re_hold e, re_fence e) \<in> set (ss_spool st)" if "e \<in> set (ss_released st)" "re_hold e = ho_id h" for e
      using sp that own h(2) unfolding spool_inv_def by (metis hold_kind.distinct(1))
    ultimately show ?thesis by blast
  qed
  have prompt: "copies_of (ho_id h) (ss_spool st) = (if ho_status h = HReleased \<or> copy_under_way (ho_id h) st then 1 else 0)
         \<and> (copy_under_way (ho_id h) st \<longrightarrow> ho_status h = HReleasing)"
    if p: "prompt_run env es empty_send" and h: "h \<in> set (ss_holds st)" "ho_kind h = HoldMessage" for h
  proof -
    have "prompt_inv env empty_send" using spool_inv_empty by (simp add: prompt_inv_def) (simp add: empty_send_def)
    then have "prompt_inv env st" by (rule prompting.run_inv [OF _ p [unfolded prompt_run_ok] assms(1)])
    from prompt_copies [OF this h] show ?thesis .
  qed
  show ?thesis
  proof (intro conjI)
    show "\<forall>h \<in> set (ss_holds st). releases_of (ho_id h) (ss_released st) = (if ho_status h = HReleased then 1 else 0)"
      "\<forall>e \<in> set (ss_released st). re_lateness e \<le> max 60000 (ceiling_ms env)"
      using inv by (simp_all add: send_inv_def hold_ok_def)
  qed (use final copies prompt in blast)+
qed

definition example_env :: send_env where
  "example_env =
     \<lparr>se_queue = \<lparr>qc_registry = [(SCHEDULED_RELEASE_JOB_TYPE, 4)], qc_retry_base = None, qc_retry_max = None\<rparr>,
      se_showNum = (\<lambda>_. []), se_country = None, se_max_lateness = None, se_claim_timeout = 600000\<rparr>"

definition example_send :: send_request where
  "example_send = \<lparr>sr_receiver = ''+256772000001'', sr_text = JStr ''hi'', sr_rest = []\<rparr>"

definition example_submit :: send_event where
  "example_submit = SSubmit ''u'' example_send (Some \<lparr>scheduledAtMs = Some 100000, validityMinutes = None\<rparr>) 0"

lemma holds_released_once_witness:
  "\<exists>st h. run_steps (send_step example_env)
       [example_submit, SClaim 0 ''w'' 100000 100000 1 4, SSpool 0, SCommit 0 ''77'' 100001] empty_send = Some st
     \<and> h \<in> set (ss_holds st) \<and> ho_status h = HReleased \<and> releases_of (ho_id h) (ss_released st) = 1
     \<and> copies_of (ho_id h) (ss_spool st) = 1"
proof -
  let ?es = "[example_submit, SClaim 0 ''w'' 100000 100000 1 4, SSpool 0, SCommit 0 ''77'' 100001]"
  let ?a = "run_steps (send_step example_env) ?es empty_send"
  have c: "(case ?a of None \<Rightarrow> False
      | Some st \<Rightarrow> (case ss_holds st of [h] \<Rightarrow> ho_status h = HReleased \<and> ho_kind h = HoldMessage | _ \<Rightarrow> False))"
    and p: "prompt_run example_env ?es empty_send"
    by code_simp+
  from c obtain st h where a: "?a = Some st" "ss_holds st = [h]" "ho_status h = HReleased" "ho_kind h = HoldMessage"
    by (auto split: option.splits list.splits)
  from holds_released_once [OF a(1), of "[]" st] a p show ?thesis by auto
qed

definition racing_releases :: "send_event list" where
  "racing_releases =
     [example_submit, SClaim 0 ''A'' 100000 100000 1 4, SClaim 0 ''B'' 400000 400000 2 4,
      SSpool 0, SSpool 1, SCommit 1 ''77'' 400001, SCommit 0 ''78'' 400002, SFail 0 OtherError ''claimed by another release'']"

definition cancelled_release :: "send_event list" where
  "cancelled_release =
     [example_submit, SClaim 0 ''A'' 100000 100000 1 4, SClaim 0 ''B'' 400000 400000 2 4, SFail 1 OtherError ''timeout'',
      SCancel 0 None 400001, SSpool 0, SCommit 0 ''77'' 400002]"

text \<open>
  The promptness is needed. The guarded update comes after the message is in SQLBox, whose insertion
  its rollback does not undo: when a worker that stalled before its send resumes after its job has
  been reaped and claimed again, both copies reach the engine, and a copy may reach it of a hold that
  the operator has cancelled in the meantime.
\<close>

theorem racing_releases_send_twice:
  "\<exists>st h. run_steps (send_step example_env) racing_releases empty_send = Some st \<and> ss_holds st = [h]
     \<and> ho_status h = HReleased \<and> releases_of (ho_id h) (ss_released st) = 1
     \<and> copies_of (ho_id h) (ss_spool st) = 2"
proof -
  have "(case run_steps (send_step example_env) racing_releases empty_send of
      None \<Rightarrow> False
    | Some st \<Rightarrow> (case ss_holds st of
        [h] \<Rightarrow> ho_status h = HReleased \<and> releases_of (ho_id h) (ss_released st) = 1 \<and> copies_of (ho_id h) (ss_spool st) = 2
      | _ \<Rightarrow> False))"
    by code_simp
  then show ?thesis by (auto split: option.splits list.splits)
qed

theorem cancelled_hold_sent:
  "\<exists>st h. run_steps (send_step example_env) cancelled_release empty_send = Some st \<and> ss_holds st = [h]
     \<and> ho_status h = HCancelled \<and> releases_of (ho_id h) (ss_released st) = 0
     \<and> copies_of (ho_id h) (ss_spool st) = 1"
proof -
  have "(case run_steps (send_step example_env) cancelled_release empty_send of
      None \<Rightarrow> False
    | Some st \<Rightarrow> (case ss_holds st of
        [h] \<Rightarrow> ho_status h = HCancelled \<and> releases_of (ho_id h) (ss_released st) = 0 \<and> copies_of (ho_id h) (ss_spool st) = 1
      | _ \<Rightarrow> False))"
    by code_simp
  then show ?thesis by (auto split: option.splits list.splits)
qed

subsection \<open>A hold and its release job agree\<close>

text \<open>What a queue event of another caller may do to a row that is still waiting for its first claim.\<close>

definition keeps_due :: "job_row \<Rightarrow> job_row \<Rightarrow> bool" where
  "keeps_due r r' \<longleftrightarrow>
     jr_id r' = jr_id r \<and> jr_key r' = jr_key r
     \<and> (jr_status r' = Queued \<and> jr_attempts r' = 0 \<longrightarrow>
          jr_status r = Queued \<and> jr_attempts r = 0 \<and> jr_next_attempt_at r' = jr_next_attempt_at r)"

definition due_kept :: "job_row list \<Rightarrow> job_row list \<Rightarrow> bool" where
  "due_kept rows rows' \<longleftrightarrow> (\<forall>r' \<in> set rows'. \<exists>r \<in> set rows. keeps_due r r')"

lemma keeps_due_refl: "keeps_due r r"
  by (simp add: keeps_due_def)

lemma due_kept_refl: "due_kept rows rows"
  unfolding due_kept_def using keeps_due_refl by blast

lemma due_kept_map:
  assumes "\<And>r. r \<in> set rows \<Longrightarrow> P r \<Longrightarrow> keeps_due r (f r)"
  shows "due_kept rows (map (\<lambda>r. if P r then f r else r) rows)"
  using assms keeps_due_refl by (fastforce simp: due_kept_def)

lemma due_kept_trans: "due_kept a b \<Longrightarrow> due_kept b c \<Longrightarrow> due_kept a c"
  unfolding due_kept_def keeps_due_def by metis

lemma reapStuck_due:
  assumes "\<forall>r \<in> set rows. row_wf r"
  shows "due_kept rows (snd (reapStuck s now rows))"
proof -
  let ?s = "max 1 ((s + 500) div 1000)"
  let ?rows1 = "map (\<lambda>r. if stale ?s now r \<and> jr_attempts r \<ge> jr_max_attempts r then expired_dead_row now r else r) rows"
  have "due_kept rows ?rows1"
    by (rule due_kept_map) (simp add: keeps_due_def expired_dead_row_def dead_row_def)
  moreover have "due_kept ?rows1 (map (\<lambda>r. if stale ?s now r \<and> jr_attempts r < jr_max_attempts r
      then requeued_row (Some ''Worker claim expired; job requeued for another worker.'') now now r else r) ?rows1)"
  proof (rule due_kept_map)
    fix r assume r: "r \<in> set ?rows1" and s: "stale ?s now r \<and> jr_attempts r < jr_max_attempts r"
    then have "jr_status r = Running" by (simp add: stale_def)
    with r have "r \<in> set rows" by (auto simp: expired_dead_row_def dead_row_def)
    with assms \<open>jr_status r = Running\<close> have "1 \<le> jr_attempts r" by (auto simp: row_wf_def)
    then show "keeps_due r (requeued_row (Some ''Worker claim expired; job requeued for another worker.'') now now r)"
      by (simp add: keeps_due_def requeued_row_def)
  qed
  ultimately show ?thesis
    unfolding reapStuck_def Let_def snd_conv update_where_def by (rule due_kept_trans)
qed

lemma settled_due:
  assumes "settled job rows rows'" and wf: "\<forall>r \<in> set rows. row_wf r"
  shows "due_kept rows rows'"
proof -
  obtain f where f: "rows' = map (\<lambda>r. if running_row (jr_id job) r then f r else r) rows"
    "\<And>r. jr_status r = Running \<Longrightarrow> settles job r (f r)" using assms(1) by (auto simp: settled_def)
  show ?thesis unfolding f(1)
  proof (rule due_kept_map)
    fix r assume r: "r \<in> set rows" "running_row (jr_id job) r"
    then have "jr_status r = Running" by (simp add: running_row_def)
    with f(2) have "settles job r (f r)" by blast
    moreover from wf r \<open>jr_status r = Running\<close> have "1 \<le> jr_attempts r" by (auto simp: row_wf_def)
    ultimately show "keeps_due r (f r)" by (simp add: keeps_due_def settles_def evolves_def)
  qed
qed

lemma foreign_due:
  assumes inv: "queue_inv q" and f: "foreign_queue_event ev" and step: "queue_step cfg ev q = Some q'"
  shows "due_kept (qs_rows q) (qs_rows q')
    \<or> (\<exists>r. qs_rows q' = qs_rows q @ [r] \<and> (\<forall>i. jr_key r \<noteq> Some (RELEASE_KEY_PREFIX @ show_nat i)))"
proof -
  have wf: "\<forall>r \<in> set (qs_rows q). row_wf r" and d: "distinct (map jr_id (qs_rows q))"
    using inv by (simp_all add: queue_inv_def job_rows_ok_def)
  show ?thesis
  proof (cases ev)
    case (QCreate user rq now)
    show ?thesis
    proof (cases "createOn (qc_registry cfg) (qs_next q) user now rq (qs_rows q)")
      case (Inr p)
      obtain r rows where p: "p = (r, rows)" by (cases p)
      from step QCreate Inr p have q': "qs_rows q' = rows" by auto
      from createOn_cases [OF Inr [unfolded p]] show ?thesis
      proof (elim disjE exE conjE)
        assume "rows = qs_rows q"
        with q' show ?thesis by (simp add: due_kept_refl)
      next
        fix mx assume "r = new_job (qs_next q) user now mx rq" "rows = qs_rows q @ [r]"
        with q' f QCreate show ?thesis
          by (auto simp: foreign_queue_event_def new_job_def split: option.splits)
      qed
    qed (use step QCreate due_kept_refl in auto)
  next
    case (QCancel i reason now)
    with step show ?thesis
      by (auto simp: cancelOn_def snd_update_one cancelled_row_def Let_def keeps_due_def intro!: due_kept_map)
  next
    case (QClaim locked w now)
    show ?thesis
    proof (cases "claimOn locked w now (qs_rows q)")
      case (Inr p)
      obtain c rows where p: "p = (c, rows)" by (cases p)
      from claimOn_cases [OF Inr [unfolded p] d] show ?thesis
      proof (elim disjE bexE conjE)
        assume "c = None"
        with step QClaim Inr p show ?thesis by (simp add: due_kept_refl)
      next
        fix r assume "c = Some (claimed_row w now r)"
          "rows = map (\<lambda>x. if x = r then claimed_row w now r else x) (qs_rows q)"
        moreover have "due_kept (qs_rows q) (map (\<lambda>x. if x = r then (\<lambda>_. claimed_row w now r) x else x) (qs_rows q))"
          by (rule due_kept_map) (simp add: keeps_due_def claimed_row_def)
        ultimately show ?thesis using step QClaim Inr p by auto
      qed
    qed (use step QClaim due_kept_refl in auto)
  next
    case (QProgress x p now)
    have "due_kept (qs_rows q) (reportProgress (jr_id (qs_running q ! x)) p now (qs_rows q))"
      unfolding reportProgress_def update_where_def
      by (rule due_kept_map) (auto simp: keeps_due_def running_row_def)
    with step QProgress show ?thesis by (auto split: if_splits)
  next
    case (QFinish x out now)
    with step settled_due [OF execute_settled wf] show ?thesis by (auto split: if_splits)
  next
    case (QCrash x)
    with step due_kept_refl show ?thesis by (auto split: if_splits)
  next
    case (QReap s now)
    with step reapStuck_due [OF wf] show ?thesis by auto
  qed (use f in \<open>simp add: foreign_queue_event_def\<close>)
qed

definition release_key :: "nat \<Rightarrow> string" where
  "release_key i = RELEASE_KEY_PREFIX @ show_nat i"

lemma release_key_inject [simp]: "release_key i = release_key k \<longleftrightarrow> i = k"
  by (simp add: release_key_def)

definition hold_linked :: "job_row list \<Rightarrow> hold \<Rightarrow> bool" where
  "hold_linked rows h \<longleftrightarrow>
     (\<exists>r \<in> set rows. ho_job h = Some (jr_id r) \<and> jr_key r = Some (release_key (ho_id h))
        \<and> (jr_status r = Queued \<and> jr_attempts r = 0 \<longrightarrow> jr_next_attempt_at r = ho_at h))"

definition linked :: "send_env \<Rightarrow> send_state \<Rightarrow> bool" where
  "linked env st \<longleftrightarrow>
     sound_queue (se_queue env) (ss_queue st) \<and> send_inv env st
     \<and> list_all (hold_linked (qs_rows (ss_queue st))) (ss_holds st)
     \<and> (\<forall>r \<in> set (qs_rows (ss_queue st)). \<forall>i. jr_key r = Some (release_key i) \<longrightarrow> i < ss_next st)"

definition hold_link :: "hold \<Rightarrow> nat \<times> int \<times> nat option" where
  "hold_link h = (ho_id h, ho_at h, ho_job h)"

lemma hold_linked_cong: "hold_link h = hold_link h' \<Longrightarrow> hold_linked rows h = hold_linked rows h'"
  by (simp add: hold_linked_def hold_link_def)

lemma list_all_link_cong:
  "map hold_link hs = map hold_link hs' \<Longrightarrow> list_all (hold_linked rows) hs = list_all (hold_linked rows) hs'"
proof (induction hs arbitrary: hs')
  case (Cons h hs)
  then obtain h' hs2 where "hs' = h' # hs2" "hold_link h = hold_link h'" "map hold_link hs = map hold_link hs2"
    by (cases hs') auto
  with Cons.IH [of hs2] hold_linked_cong [of h h' rows] show ?case by simp
qed simp

lemma hold_linked_rows:
  assumes l: "hold_linked rows h" and g: "rows_grow rows rows'" and k: "due_kept rows rows'"
    and d: "distinct (map jr_id rows)"
  shows "hold_linked rows' h"
proof -
  obtain r where r: "r \<in> set rows" "ho_job h = Some (jr_id r)" "jr_key r = Some (release_key (ho_id h))"
    "jr_status r = Queued \<and> jr_attempts r = 0 \<longrightarrow> jr_next_attempt_at r = ho_at h"
    using l unfolding hold_linked_def by blast
  obtain r' where r': "r' \<in> set rows'" "evolves r r'" using g r(1) unfolding rows_grow_def by blast
  obtain x where x: "x \<in> set rows" "keeps_due x r'" using k r'(1) unfolding due_kept_def by blast
  have "x = r" by (rule distinct_keys_unique [OF d x(1) r(1)]) (use x r' in \<open>simp add: keeps_due_def evolves_def\<close>)
  with r r' x have "ho_job h = Some (jr_id r')" "jr_key r' = Some (release_key (ho_id h))"
    "jr_status r' = Queued \<and> jr_attempts r' = 0 \<longrightarrow> jr_next_attempt_at r' = ho_at h"
    by (simp_all add: keeps_due_def evolves_def)
  with r'(1) show ?thesis unfolding hold_linked_def by blast
qed

lemma linked_same_links:
  assumes l: "linked env st" and i: "send_inv env st'" and s: "map hold_link (ss_holds st') = map hold_link (ss_holds st)"
    and q: "ss_queue st' = ss_queue st" "ss_next st' = ss_next st"
  shows "linked env st'"
  using l i list_all_link_cong [OF s] unfolding linked_def q by simp

text \<open>The queue part of a step that leaves waiting rows alone.\<close>

lemma linked_queue:
  assumes l: "linked env st" and g: "rows_grow (qs_rows (ss_queue st)) rows" and k: "due_kept (qs_rows (ss_queue st)) rows"
  shows "list_all (hold_linked rows) (ss_holds st) \<and> (\<forall>r \<in> set rows. \<forall>i. jr_key r = Some (release_key i) \<longrightarrow> i < ss_next st)"
proof
  have d: "distinct (map jr_id (qs_rows (ss_queue st)))"
    using l by (simp add: linked_def sound_queue_def queue_inv_def job_rows_ok_def)
  show "list_all (hold_linked rows) (ss_holds st)"
    using l hold_linked_rows [OF _ g k d] by (auto simp: linked_def list_all_iff)
  show "\<forall>r \<in> set rows. \<forall>i. jr_key r = Some (release_key i) \<longrightarrow> i < ss_next st"
  proof (intro ballI allI impI)
    fix r i assume "r \<in> set rows" "jr_key r = Some (release_key i)"
    with k obtain x where "x \<in> set (qs_rows (ss_queue st))" "jr_key x = Some (release_key i)"
      unfolding due_kept_def keeps_due_def by metis
    with l show "i < ss_next st" by (auto simp: linked_def)
  qed
qed

lemma linked_foreign:
  assumes l: "linked env st" and f: "foreign_queue_event ev" and step: "queue_step (se_queue env) ev (ss_queue st) = Some q"
  shows "linked env (st\<lparr>ss_queue := q\<rparr>)"
proof -
  have sq: "sound_queue (se_queue env) (ss_queue st)" and si: "send_inv env st" using l by (simp_all add: linked_def)
  have sq': "sound_queue (se_queue env) q" and g: "rows_grow (qs_rows (ss_queue st)) (qs_rows q)"
    using queue_step_effect [OF _ _ step] sq by (auto simp: sound_queue_def)
  have si': "send_inv env (st\<lparr>ss_queue := q\<rparr>)" using si by (simp add: send_inv_def)
  have "queue_inv (ss_queue st)" using sq by (simp add: sound_queue_def)
  from foreign_due [OF this f step]
  have "list_all (hold_linked (qs_rows q)) (ss_holds st) \<and> (\<forall>r \<in> set (qs_rows q). \<forall>i. jr_key r = Some (release_key i) \<longrightarrow> i < ss_next st)"
  proof (elim disjE exE conjE)
    assume "due_kept (qs_rows (ss_queue st)) (qs_rows q)"
    then show ?thesis by (rule linked_queue [OF l g])
  next
    fix r assume r: "qs_rows q = qs_rows (ss_queue st) @ [r]" "\<forall>i. jr_key r \<noteq> Some (RELEASE_KEY_PREFIX @ show_nat i)"
    have "hold_linked (qs_rows (ss_queue st)) h \<Longrightarrow> hold_linked (qs_rows q) h" for h
      unfolding hold_linked_def r(1) by auto
    with l r(2) show ?thesis by (auto simp: linked_def r(1) list_all_iff release_key_def)
  qed
  with sq' si' show ?thesis by (simp add: linked_def)
qed

lemma linked_enqueue:
  assumes l: "linked env st" and si: "send_inv env st'"
    and base: "ss_holds st1 = ss_holds st" "ss_next st1 = ss_next st" "ss_queue st1 = ss_queue st"
    and e: "enqueueRelease env user (ss_next st) s now (insert_hold (new_hold (ss_next st) k s v p b u) st1) = Inr (j, st')"
  shows "linked env st'"
proof -
  let ?h = "new_hold (ss_next st) k s v p b u"
  let ?q = "ss_queue st"
  obtain r rows where c: "createOn (qc_registry (se_queue env)) (qs_next ?q) user now (release_request (ss_next st) s) (qs_rows ?q) = Inr (r, rows)"
    and j: "j = jr_id r" and st': "ss_queue st' = ?q\<lparr>qs_rows := rows, qs_next := qs_next ?q + 1\<rparr>" "ss_next st' = ss_next st + 1"
    "ss_holds st' = update_where (\<lambda>h. ho_id h = ss_next st) (\<lambda>h. h\<lparr>ho_job := Some (jr_id r)\<rparr>) (ss_holds st @ [?h])"
    using e by (auto simp: enqueueRelease_def insert_hold_def base split: sum.splits)
  have sq: "sound_queue (se_queue env) ?q" and inv: "queue_inv ?q" and reg: "registry_ok (qc_registry (se_queue env))"
    and keys: "\<forall>x \<in> set (qs_rows ?q). \<forall>i. jr_key x = Some (release_key i) \<longrightarrow> i < ss_next st"
    using l by (simp_all add: linked_def sound_queue_def)
  have rq: "rq_key (release_request i s) = Some (release_key i)" "rq_run_at (release_request i s) = Some s" for i
    by (simp_all add: release_request_def release_key_def RELEASE_KEY_PREFIX_def)
  have new: "rows = qs_rows ?q @ [r] \<and> (\<exists>mx. r = new_job (qs_next ?q) user now mx (release_request (ss_next st) s))"
  proof -
    have "truthy (rq_key (release_request (ss_next st) s))"
      by (simp add: rq release_key_def RELEASE_KEY_PREFIX_def)
    moreover have "find (same_key (release_request (ss_next st) s)) (qs_rows ?q) = None"
      using keys by (auto simp: find_None_iff same_key_def rq)
    ultimately show ?thesis using c
      by (auto simp: createOn_def insert_job_def Let_def elim!: bind_resultE split: if_splits)
  qed
  have step: "queue_step (se_queue env) (QCreate user (release_request (ss_next st) s) now) ?q =
      Some (?q\<lparr>qs_rows := rows, qs_next := qs_next ?q + 1\<rparr>)" using c by simp
  have "sound_queue (se_queue env) (ss_queue st')"
    using queue_step_effect [OF inv reg step] reg by (simp add: sound_queue_def st')
  moreover have "hold_linked rows (?h\<lparr>ho_job := Some (jr_id r)\<rparr>)"
    using new rq unfolding hold_linked_def by (auto simp: new_job_def intro!: bexI [of _ r])
  moreover have "ss_holds st' = ss_holds st @ [?h\<lparr>ho_job := Some (jr_id r)\<rparr>]"
  proof -
    have "\<forall>h \<in> set (ss_holds st). ho_id h \<noteq> ss_next st" using l by (auto simp: linked_def send_inv_def)
    then have "update_where (\<lambda>h. ho_id h = ss_next st) (\<lambda>h. h\<lparr>ho_job := Some (jr_id r)\<rparr>) (ss_holds st) = ss_holds st"
      by (intro update_where_none) blast
    then show ?thesis unfolding st' by (simp add: update_where_def)
  qed
  moreover have "hold_linked rows h" if "h \<in> set (ss_holds st)" for h
    using l that new unfolding linked_def list_all_iff hold_linked_def by auto
  moreover have "\<forall>x \<in> set rows. \<forall>i. jr_key x = Some (release_key i) \<longrightarrow> i < ss_next st'"
    using new keys rq by (auto simp: st' new_job_def less_SucI)
  ultimately show ?thesis using si by (auto simp: linked_def st' list_all_iff)
qed
lemma snd_rescheduleOn:
  "rescheduleOn j s now rows = (Some c, rows') \<Longrightarrow>
     (\<exists>r \<in> set rows. jr_id r = j \<and> jr_status r = Queued)
     \<and> rows' = map (\<lambda>r. if jr_id r = j \<and> jr_status r = Queued
                       then r\<lparr>jr_next_attempt_at := s, jr_updated_at := now\<rparr> else r) rows"
  by (auto simp: rescheduleOn_def update_one_def returning_def update_where_def split: list.splits
      simp: filter_eq_Cons_iff)

lemma lock_mutable_Inr:
  "lock_mutable i st = Inr h \<Longrightarrow> h \<in> set (ss_holds st) \<and> ho_id h = i \<and> ho_status h = HPending"
  by (auto simp: lock_mutable_def dest!: row_by_Some split: option.splits if_splits)

lemma reschedule_cases:
  assumes "reschedule env i v now st = Inr st'"
  shows "\<exists>h s. lock_mutable i st = Inr h \<and>
     (case ho_job h of None \<Rightarrow> move_hold h s st = Inr st'
      | Some j \<Rightarrow> (\<exists>c rows. rescheduleOn j s now (qs_rows (ss_queue st)) = (Some c, rows)
                  \<and> move_hold h s (st\<lparr>ss_queue := (ss_queue st)\<lparr>qs_rows := rows\<rparr>\<rparr>) = Inr st'))"
proof -
  from assms obtain h where lk: "lock_mutable i st = Inr h"
    and rest: "(case parseMessageSchedule (se_showNum env) (reschedule_query v (ho_validity h)) now of
         Inl e \<Rightarrow> Inl (HoldBadSchedule e)
       | Inr schedule \<Rightarrow>
           if \<not> requiresHold (Some schedule) now then Inl HoldNotFuture
           else
             let s = the (scheduledAtMs schedule)
             in (case ho_job h of
                   None \<Rightarrow> move_hold h s st
                 | Some j \<Rightarrow>
                     (case rescheduleOn j s now (qs_rows (ss_queue st)) of
                        (None, _) \<Rightarrow> Inl HoldAlreadyClaimed
                      | (Some _, rows) \<Rightarrow> move_hold h s (st\<lparr>ss_queue := (ss_queue st)\<lparr>qs_rows := rows\<rparr>\<rparr>)))) = Inr st'"
    unfolding reschedule_def by (rule bind_resultE)
  from rest obtain schedule where p: "parseMessageSchedule (se_showNum env) (reschedule_query v (ho_validity h)) now = Inr schedule"
    by (cases "parseMessageSchedule (se_showNum env) (reschedule_query v (ho_validity h)) now") auto
  from rest have "(case ho_job h of
                   None \<Rightarrow> move_hold h (the (scheduledAtMs schedule)) st
                 | Some j \<Rightarrow>
                     (case rescheduleOn j (the (scheduledAtMs schedule)) now (qs_rows (ss_queue st)) of
                        (None, _) \<Rightarrow> Inl HoldAlreadyClaimed
                      | (Some _, rows) \<Rightarrow> move_hold h (the (scheduledAtMs schedule))
                          (st\<lparr>ss_queue := (ss_queue st)\<lparr>qs_rows := rows\<rparr>\<rparr>))) = Inr st'"
    by (simp add: p Let_def split: if_splits)
  then show ?thesis
    by (intro exI [of _ h] exI [of _ "the (scheduledAtMs schedule)"] conjI lk)
      (auto split: option.splits prod.splits)
qed

lemma linked_reschedule:
  assumes l: "linked env st" and r: "reschedule env i v now st = Inr st'"
  shows "linked env st'"
proof -
  let ?rows = "qs_rows (ss_queue st)"
  have si: "send_inv env st'" using l reschedule_effect [OF r] quiet_inv by (auto simp: linked_def)
  obtain h s where h: "h \<in> set (ss_holds st)" "ho_id h = i" "ho_status h = HPending"
    and m: "case ho_job h of None \<Rightarrow> move_hold h s st = Inr st'
      | Some j \<Rightarrow> (\<exists>c rows. rescheduleOn j s now ?rows = (Some c, rows)
                  \<and> move_hold h s (st\<lparr>ss_queue := (ss_queue st)\<lparr>qs_rows := rows\<rparr>\<rparr>) = Inr st')"
    using reschedule_cases [OF r] lock_mutable_Inr by blast
  have hl: "hold_linked ?rows h" using l h(1) by (auto simp: linked_def list_all_iff)
  then obtain r0 where r0: "r0 \<in> set ?rows" "ho_job h = Some (jr_id r0)" "jr_key r0 = Some (release_key i)"
    unfolding hold_linked_def h(2) by blast
  with m obtain c rows where re: "rescheduleOn (jr_id r0) s now ?rows = (Some c, rows)"
    and mv: "move_hold h s (st\<lparr>ss_queue := (ss_queue st)\<lparr>qs_rows := rows\<rparr>\<rparr>) = Inr st'" by auto
  have q': "ss_queue st' = (ss_queue st)\<lparr>qs_rows := rows\<rparr>" "ss_next st' = ss_next st"
    and hs': "ss_holds st' = update_where (pending_row i) (\<lambda>h. h\<lparr>ho_at := s\<rparr>) (ss_holds st)"
    using mv h(2) by (auto simp: move_hold_def split: if_splits)
  have d: "distinct (map jr_id ?rows)" and dh: "distinct (map ho_id (ss_holds st))"
    and sq: "sound_queue (se_queue env) (ss_queue st)"
    using l by (simp_all add: linked_def sound_queue_def queue_inv_def job_rows_ok_def send_inv_def)
  have rows: "rows = map (\<lambda>r. if jr_id r = jr_id r0 \<and> jr_status r = Queued
      then r\<lparr>jr_next_attempt_at := s, jr_updated_at := now\<rparr> else r) ?rows"
    and queued: "jr_status r0 = Queued"
    using snd_rescheduleOn [OF re] distinct_keys_unique [OF d _ r0(1)] by auto
  let ?g = "\<lambda>r. if jr_id r = jr_id r0 \<and> jr_status r = Queued
      then r\<lparr>jr_next_attempt_at := s, jr_updated_at := now\<rparr> else r"
  have g: "jr_id (?g r) = jr_id r" "jr_key (?g r) = jr_key r" "jr_status (?g r) = jr_status r"
    "jr_attempts (?g r) = jr_attempts r" "jr_id r \<noteq> jr_id r0 \<Longrightarrow> ?g r = r" for r by simp_all
  have "sound_queue (se_queue env) (ss_queue st')"
  proof -
    have "queue_step (se_queue env) (QReschedule (jr_id r0) s now) (ss_queue st) = Some (ss_queue st')"
      using re by (simp add: q')
    from queue_step_effect [OF _ _ this] sq show ?thesis by (simp add: sound_queue_def)
  qed
  moreover have "hold_linked rows h'" if h': "h' \<in> set (ss_holds st')" for h'
  proof -
    from h' obtain k where k: "k \<in> set (ss_holds st)" "h' = (if pending_row i k then k\<lparr>ho_at := s\<rparr> else k)"
      by (auto simp: hs' set_update_where)
    from l k(1) obtain x where x: "x \<in> set ?rows" "ho_job k = Some (jr_id x)" "jr_key x = Some (release_key (ho_id k))"
      "jr_status x = Queued \<and> jr_attempts x = 0 \<longrightarrow> jr_next_attempt_at x = ho_at k"
      unfolding linked_def list_all_iff hold_linked_def by blast
    have gx: "?g x \<in> set rows" unfolding rows set_map using x(1) by (rule imageI)
    show ?thesis
    proof (cases "ho_id k = i")
      case True
      then have "k = h" using distinct_keys_unique [OF dh k(1) h(1)] h(2) by simp
      with k h have "h' = h\<lparr>ho_at := s\<rparr>" by (simp add: pending_row_def)
      moreover have "?g r0 \<in> set rows" unfolding rows set_map using r0(1) by (rule imageI)
      then have "r0\<lparr>jr_next_attempt_at := s, jr_updated_at := now\<rparr> \<in> set rows" using queued by simp
      moreover have "ho_job (h\<lparr>ho_at := s\<rparr>) = Some (jr_id (r0\<lparr>jr_next_attempt_at := s, jr_updated_at := now\<rparr>))"
        "jr_key (r0\<lparr>jr_next_attempt_at := s, jr_updated_at := now\<rparr>) = Some (release_key (ho_id (h\<lparr>ho_at := s\<rparr>)))"
        using r0 h(2) by simp_all
      ultimately show ?thesis unfolding hold_linked_def by (intro bexI) (auto intro: job_row.select_convs)
    next
      case False
      then have "x \<noteq> r0" using x(3) r0(3) by auto
      then have "jr_id x \<noteq> jr_id r0" using distinct_keys_unique [OF d x(1) r0(1)] by blast
      then have "?g x = x" by simp
      with gx have "x \<in> set rows" by simp
      moreover have "h' = k" using False k by (simp add: pending_row_def)
      ultimately show ?thesis using x unfolding hold_linked_def by blast
    qed
  qed
  moreover have "\<forall>r \<in> set rows. \<forall>n. jr_key r = Some (release_key n) \<longrightarrow> n < ss_next st'"
    using l unfolding rows q' linked_def by auto
  ultimately show ?thesis using si unfolding linked_def q' by (simp add: list_all_iff)
qed

lemma hold_link_update:
  "(\<And>h. hold_link (f h) = hold_link h) \<Longrightarrow> map hold_link (update_where P f hs) = map hold_link hs"
  by (rule map_update_where)

lemma quiet_operations_link:
  "map hold_link (sweepStalled env now hs) = map hold_link hs"
  "map hold_link (expire_hold env f hs) = map hold_link hs"
  "map hold_link (recordReleaseFailure f e msg hs) = map hold_link hs"
  "map hold_link (snd (claim i w now hs)) = map hold_link hs"
  by (auto simp: sweepStalled_def expire_hold_def recordReleaseFailure_def claim_def claimed_hold_def Let_def
      hold_link_def split: option.splits intro!: hold_link_update)

lemma linked_cancel:
  assumes l: "linked env st" and c: "cancel i reason now st = Inr st'"
  shows "linked env st'"
proof -
  have si: "send_inv env st'" using l cancel_effect [OF c] quiet_inv by (auto simp: linked_def)
  obtain b f job where st': "st' = update_bulk b f (cancel_job job (cancel_detail reason) now
      (st\<lparr>ss_holds := update_where (pending_row i) (cancel_row (cancel_detail reason)) (ss_holds st)\<rparr>))"
    using cancel_cases [OF c] by blast
  have links: "map hold_link (ss_holds st') = map hold_link (ss_holds st)" "ss_next st' = ss_next st"
    by (simp_all add: st' hold_link_update hold_link_def cancel_row_def)
  show ?thesis
  proof (cases job)
    case None
    then show ?thesis by (intro linked_same_links [OF l si links(1) _ links(2)]) (simp add: st' cancel_job_def)
  next
    case (Some j)
    have "linked env (st\<lparr>ss_queue := ss_queue st'\<rparr>)"
      by (rule linked_foreign [OF l, of "QCancel j (Some (''Scheduled message cancelled: '' @ cancel_detail reason)) now"])
        (simp_all add: foreign_queue_event_def st' Some cancel_job_def)
    then show ?thesis by (rule linked_same_links [OF _ si]) (simp_all add: links)
  qed
qed

lemma linked_step:
  assumes l: "linked env st" and step: "send_step env ev st = Some st'"
  shows "linked env st'"
proof -
  have si: "send_inv env st'" using send_step_effect [OF _ step] l by (simp add: linked_def)
  note same = linked_same_links [OF l si]
  show ?thesis
  proof (cases ev)
    case (SSubmit user req schedule now)
    show ?thesis
    proof (cases "submitMessage env user req schedule now st")
      case (Inr p)
      obtain out t where p: "p = (out, t)" by (cases p)
      have t: "st' = t" using step SSubmit Inr p by (simp add: keep_on_error_def)
      from submitMessage_cases [OF Inr [unfolded p]] l show ?thesis
        by (elim disjE exE conjE) (auto simp: t intro: linked_enqueue [OF l si [unfolded t] refl refl refl])
    qed (use step SSubmit l in \<open>simp add: keep_on_error_def\<close>)
  next
    case (SSubmitBulk user b schedule now created)
    show ?thesis
    proof (cases "submitBulk env user b schedule now created st")
      case (Inr p)
      obtain out t where p: "p = (out, t)" by (cases p)
      have t: "st' = t" using step SSubmitBulk Inr p by (simp add: keep_on_error_def split: if_splits)
      from submitBulk_cases [OF Inr [unfolded p]] show ?thesis
      proof (elim disjE exE conjE)
        assume "t = st"
        with l t show ?thesis by simp
      next
        fix s v j bulk
        assume "enqueueRelease env user (ss_next st) s created
          (insert_hold (new_hold (ss_next st) HoldBulk s v None (Some b) user) (st\<lparr>ss_bulk := bulk\<rparr>)) = Inr (j, t)"
        from linked_enqueue [OF l si [unfolded t] _ _ _ this] t show ?thesis by simp
      qed
    qed (use step SSubmitBulk l in \<open>simp add: keep_on_error_def split: if_splits\<close>)
  next
    case (SCancel i reason now)
    with step linked_cancel [OF l] l show ?thesis
      by (cases "cancel i reason now st") (auto simp: keep_on_error_def)
  next
    case (SReschedule i v now)
    with step linked_reschedule [OF l] l show ?thesis
      by (cases "reschedule env i v now st") (auto simp: keep_on_error_def)
  next
    case (SClaim i worker now dbNow attempt mx)
    obtain res hs where c: "claim i worker dbNow (ss_holds st) = (res, hs)" by fastforce
    with quiet_operations_link(4) [of i worker dbNow "ss_holds st"] step SClaim show ?thesis
      by (intro same; cases res) auto
  next
    case (SCommit x ref now)
    have "map hold_link (ss_holds t) = map hold_link (ss_holds st) \<and> ss_queue t = ss_queue st \<and> ss_next t = ss_next st"
      if "commit_release env f ref now st = Some t" for f t
      using that by (auto simp: commit_release_def Let_def released_hold_def hold_link_def
          split: if_splits intro!: hold_link_update)
    with step SCommit show ?thesis
      by (intro same; auto simp: bind_eq_Some_conv split: option.splits if_splits)
  next
    case (SSpool x)
    with step show ?thesis by (intro same; auto simp: spool_copy_def bind_eq_Some_conv split: if_splits)
  next
    case (SQueue q)
    with step linked_foreign [OF l] show ?thesis by (auto split: if_splits)
  qed (use step in \<open>intro same; auto simp: quiet_operations_link split: if_splits\<close>)+
qed

interpretation linking: invariant_machine "send_step env" "\<lambda>_ _. True" "linked env" for env
  by unfold_locales (use linked_step in blast)

text \<open>C15. Every hold ever made has its own release job, found by the hold's key, and until that job is
  first claimed its due time is the instant the hold is scheduled for, also after a reschedule. So
  the first claim of the job by any worker never happens before that instant.\<close>

theorem release_job_follows_hold:
  assumes "registry_ok (qc_registry (se_queue env))" and "run_steps (send_step env) es empty_send = Some st"
    and "h \<in> set (ss_holds st)"
  shows "\<exists>r \<in> set (qs_rows (ss_queue st)). ho_job h = Some (jr_id r) \<and> jr_key r = Some (release_key (ho_id h))
    \<and> (\<forall>h' \<in> set (ss_holds st). ho_job h' = ho_job h \<longrightarrow> h' = h)
    \<and> (jr_status r = Queued \<and> jr_attempts r = 0 \<longrightarrow> jr_next_attempt_at r = ho_at h)
    \<and> (\<forall>locked w now c rows. claimOn locked w now (qs_rows (ss_queue st)) = Inr (Some c, rows)
          \<longrightarrow> jr_id c = jr_id r \<longrightarrow> jr_attempts c = 1 \<longrightarrow> ho_at h \<le> now)"
proof -
  have "linked env empty_send"
    using queue_inv_empty assms(1) by (simp add: linked_def sound_queue_def send_inv_def empty_send_def empty_queue_def)
  then have l: "linked env st" by (rule linking.run_inv [OF _ linking.ok_run_total assms(2)]) simp
  have d: "distinct (map jr_id (qs_rows (ss_queue st)))" and dh: "distinct (map ho_id (ss_holds st))"
    using l by (simp_all add: linked_def sound_queue_def queue_inv_def job_rows_ok_def send_inv_def)
  obtain r where r: "r \<in> set (qs_rows (ss_queue st))" "ho_job h = Some (jr_id r)" "jr_key r = Some (release_key (ho_id h))"
    "jr_status r = Queued \<and> jr_attempts r = 0 \<longrightarrow> jr_next_attempt_at r = ho_at h"
    using l assms(3) unfolding linked_def list_all_iff hold_linked_def by blast
  have own: "h' = h" if h': "h' \<in> set (ss_holds st)" "ho_job h' = ho_job h" for h'
  proof -
    obtain r' where r': "r' \<in> set (qs_rows (ss_queue st))" "ho_job h' = Some (jr_id r')" "jr_key r' = Some (release_key (ho_id h'))"
      using l h'(1) unfolding linked_def list_all_iff hold_linked_def by blast
    have "r' = r" by (rule distinct_keys_unique [OF d r'(1) r(1)]) (use r' r h'(2) in simp)
    with r r' have "ho_id h' = ho_id h" by simp
    then show ?thesis by (rule distinct_keys_unique [OF dh h'(1) assms(3)])
  qed
  have "ho_at h \<le> now" if c: "claimOn locked w now (qs_rows (ss_queue st)) = Inr (Some c, rows)"
      "jr_id c = jr_id r" "jr_attempts c = 1" for locked w now c rows
  proof -
    from claimOn_cases [OF c(1) d] obtain x where x: "x \<in> set (qs_rows (ss_queue st))" "due now x" "c = claimed_row w now x"
      by auto
    have "x = r" by (rule distinct_keys_unique [OF d x(1) r(1)]) (use x c in \<open>simp add: claimed_row_def\<close>)
    with x c r(4) show ?thesis by (simp add: due_def claimed_row_def)
  qed
  with r own show ?thesis by blast
qed
lemma release_job_follows_hold_witness:
  "\<exists>st h r. run_steps (send_step example_env)
       [example_submit, SReschedule 0 (JStr ''1970-01-02'') 5] empty_send = Some st
     \<and> h \<in> set (ss_holds st) \<and> ho_at h = 86400000 \<and> r \<in> set (qs_rows (ss_queue st)) \<and> ho_job h = Some (jr_id r)
     \<and> (jr_status r = Queued \<and> jr_attempts r = 0 \<longrightarrow> jr_next_attempt_at r = 86400000)"
proof -
  let ?a = "run_steps (send_step example_env)
       [example_submit, SReschedule 0 (JStr ''1970-01-02'') 5] empty_send"
  have c: "(case ?a of None \<Rightarrow> False | Some st \<Rightarrow> (case ss_holds st of [h] \<Rightarrow> ho_at h = 86400000 | _ \<Rightarrow> False))"
    and g: "registry_ok (qc_registry (se_queue example_env))"
    by code_simp+
  from c obtain st h where a: "?a = Some st" "ss_holds st = [h]" "ho_at h = 86400000"
    by (auto split: option.splits list.splits)
  have h: "h \<in> set (ss_holds st)" by (simp add: a(2))
  from release_job_follows_hold [OF g a(1) h] obtain r where "r \<in> set (qs_rows (ss_queue st))" "ho_job h = Some (jr_id r)"
    "jr_status r = Queued \<and> jr_attempts r = 0 \<longrightarrow> jr_next_attempt_at r = ho_at h" by blast
  with a h show ?thesis by (intro exI [of _ st] exI [of _ h] exI [of _ r]) simp
qed

definition stalled_release :: "send_event list" where
  "stalled_release =
     [example_submit, SQueue (QClaim [] ''A'' 100000), SQueue (QReap 1000 300000),
      SReschedule 0 (JStr ''1970-01-02'') 301000, SClaim 0 ''A'' 302000 302000 1 4, SSpool 0,
      SCommit 0 ''77'' 303000]"

text \<open>
  The due time of the job is all that keeps a release from being early: the claim of the hold does
  not look at the schedule. A worker that claimed the job, stalled and was reaped can resume after
  the operator has moved the hold to the next day, and then sends the message at once, a day early,
  classified as on time.
\<close>

theorem resumed_worker_sends_early:
  "\<exists>st h. run_steps (send_step example_env) stalled_release empty_send = Some st \<and> ss_holds st = [h]
     \<and> ho_status h = HReleased \<and> ho_released_at h = Some 303000 \<and> ho_at h = 86400000
     \<and> \<not> ho_late h \<and> releases_of (ho_id h) (ss_released st) = 1"
proof -
  have "(case run_steps (send_step example_env) stalled_release empty_send of
      None \<Rightarrow> False
    | Some st \<Rightarrow> (case ss_holds st of
        [h] \<Rightarrow> ho_status h = HReleased \<and> ho_released_at h = Some 303000 \<and> ho_at h = 86400000
          \<and> \<not> ho_late h \<and> releases_of (ho_id h) (ss_released st) = 1
      | _ \<Rightarrow> False))"
    by code_simp
  then show ?thesis by (auto split: option.splits list.splits)
qed

end
