(* ===== verification/DeliveryReports.thy ===== *)
theory DeliveryReports
  imports RetryPolicy
begin

section \<open>Delivery reports in the engine's store: engine/kamex-sqlbox.repository.ts\<close>

text \<open>
  The rows of \<open>sent_sms\<close> and the two queries delivery retry asks of them: the negative reports past
  a watermark, each joined to the message it reports on, and the newest event of each message.
  Identifiers of the engine are natural numbers; \<open>toIso\<close> renders an epoch second as the ISO text.
\<close>

definition DLR_EVENT_DELIVERED :: int where "DLR_EVENT_DELIVERED = 1"

datatype momt = MomtMO | MomtMT | MomtDLR

record sent_row =
  sm_sql_id :: nat
  sm_momt :: momt
  sm_foreign_id :: "nat option"
  sm_dlr_mask :: int
  sm_time :: int
  sm_msgdata :: "string option"
  sm_sender :: "string option"
  sm_receiver :: "string option"
  sm_smsc_id :: "string option"
  sm_dlr_url :: "string option"

definition epochToIso :: "(int \<Rightarrow> string) \<Rightarrow> int \<Rightarrow> string option" where
  "epochToIso toIso epoch = (if epoch > 0 then Some (toIso epoch) else None)"

record negative_report = delivery_report +
  nr_dlrSqlId :: nat
  nr_foreignId :: nat
  nr_detail :: "string option"
  nr_sender :: string
  nr_receiver :: string
  nr_text :: string
  nr_smscId :: string
  nr_requestedDlrMask :: int
  nr_dlrUrl :: "string option"
  nr_sentAt :: "string option"

text \<open>The lateral join: the earliest submission row of the message.\<close>

definition submission_order :: "sent_row \<Rightarrow> sent_row \<Rightarrow> int" where
  "submission_order = cmp_or (cmp_key sm_time) (cmp_key sm_sql_id)"

definition submission_of :: "nat \<Rightarrow> sent_row list \<Rightarrow> sent_row option" where
  "submission_of ref rows =
     (case sort_cmp submission_order (filter (\<lambda>m. sm_momt m = MomtMT \<and> sm_foreign_id m = Some ref) rows) of
        [] \<Rightarrow> None
      | m # _ \<Rightarrow> Some m)"

definition negative_receipt :: "nat \<Rightarrow> int list \<Rightarrow> sent_row \<Rightarrow> bool" where
  "negative_receipt after events r \<longleftrightarrow>
     sm_momt r = MomtDLR \<and> sm_foreign_id r \<noteq> None \<and> sm_sql_id r > after \<and> sm_dlr_mask r \<in> set events"

definition report_of :: "(int \<Rightarrow> string) \<Rightarrow> string list \<Rightarrow> sent_row list \<Rightarrow> sent_row \<Rightarrow> negative_report list" where
  "report_of toIso allowed rows r =
     (case submission_of (the (sm_foreign_id r)) rows of
        None \<Rightarrow> []
      | Some m \<Rightarrow>
          (case sm_smsc_id m of
             None \<Rightarrow> []
           | Some smsc \<Rightarrow>
               if smsc \<in> set allowed
               then [\<lparr>dr_dlrEvent = sm_dlr_mask r, dr_dlrAt = epochToIso toIso (sm_time r),
                      nr_dlrSqlId = sm_sql_id r, nr_foreignId = the (sm_foreign_id r), nr_detail = sm_msgdata r,
                      nr_sender = coalesce (sm_sender m) [], nr_receiver = coalesce (sm_receiver m) [],
                      nr_text = coalesce (sm_msgdata m) [], nr_smscId = smsc, nr_requestedDlrMask = sm_dlr_mask m,
                      nr_dlrUrl = sm_dlr_url m, nr_sentAt = epochToIso toIso (sm_time m)\<rparr>]
               else []))"

text \<open>\<open>Math.min(Math.max(Number(limit ?? 200) || 200, 1), 1000)\<close> on a whole number.\<close>

definition page_limit :: "int option \<Rightarrow> nat" where
  "page_limit limit = nat (min (max (if coalesce limit 200 = 0 then 200 else coalesce limit 200) 1) 1000)"

definition findNegativeDeliveryReports ::
    "(int \<Rightarrow> string) \<Rightarrow> nat \<Rightarrow> int list \<Rightarrow> string list \<Rightarrow> int option \<Rightarrow> sent_row list \<Rightarrow> negative_report list" where
  "findNegativeDeliveryReports toIso after events allowed limit rows =
     (if events = [] \<or> allowed = [] then []
      else take (page_limit limit)
        (sort_cmp (cmp_key nr_dlrSqlId)
          (concat (map (report_of toIso allowed rows) (filter (negative_receipt after events) rows)))))"

text \<open>\<open>SELECT DISTINCT ON (foreign_id) ... ORDER BY foreign_id, time DESC, sql_id DESC\<close>.\<close>

definition newest_receipt :: "sent_row \<Rightarrow> sent_row \<Rightarrow> int" where
  "newest_receipt = cmp_or (cmp_key (\<lambda>r. - sm_time r)) (cmp_key (\<lambda>r. - int (sm_sql_id r)))"

definition latestDeliveryEvent :: "(int \<Rightarrow> string) \<Rightarrow> sent_row list \<Rightarrow> nat \<Rightarrow> (int \<times> string option) option" where
  "latestDeliveryEvent toIso rows ref =
     (case sort_cmp newest_receipt (filter (\<lambda>r. sm_momt r = MomtDLR \<and> sm_foreign_id r = Some ref) rows) of
        [] \<Rightarrow> None
      | r # _ \<Rightarrow> Some (sm_dlr_mask r, epochToIso toIso (sm_time r)))"

definition latestDeliveryEvents ::
    "(int \<Rightarrow> string) \<Rightarrow> sent_row list \<Rightarrow> nat list \<Rightarrow> nat \<Rightarrow> (int \<times> string option) option" where
  "latestDeliveryEvents toIso rows refs ref = (if ref \<in> set refs then latestDeliveryEvent toIso rows ref else None)"

subsection \<open>Lemmas\<close>

lemma report_of_fields:
  assumes "x \<in> set (report_of toIso allowed rows r)"
  shows "nr_dlrSqlId x = sm_sql_id r \<and> nr_foreignId x = the (sm_foreign_id r) \<and> dr_dlrEvent x = sm_dlr_mask r
    \<and> nr_smscId x \<in> set allowed \<and> (\<exists>m. submission_of (nr_foreignId x) rows = Some m \<and> sm_smsc_id m = Some (nr_smscId x))"
  using assms by (auto simp: report_of_def split: option.splits if_splits; metis)

lemma submission_of_row:
  assumes "submission_of ref rows = Some m"
  shows "m \<in> set rows \<and> sm_momt m = MomtMT \<and> sm_foreign_id m = Some ref"
proof -
  let ?os = "filter (\<lambda>m. sm_momt m = MomtMT \<and> sm_foreign_id m = Some ref) rows"
  from assms obtain ms where "sort_cmp submission_order ?os = m # ms"
    by (auto simp: submission_of_def split: list.splits)
  then have "m \<in> set ?os" using set_sort_cmp [of submission_order ?os] by (metis list.set_intros(1))
  then show ?thesis by simp
qed

lemma report_of_length: "length (report_of toIso allowed rows r) \<le> 1"
  by (auto simp: report_of_def split: option.splits)

lemma distinct_concat_reports:
  "distinct (map sm_sql_id rs) \<Longrightarrow>
     distinct (map nr_dlrSqlId (concat (map (report_of toIso allowed rows) rs)))"
proof (induction rs)
  case (Cons r rs)
  let ?x = "report_of toIso allowed rows r"
  have "distinct (map nr_dlrSqlId ?x)"
    using report_of_length [of toIso allowed rows r] by (cases ?x) auto
  moreover have "nr_dlrSqlId ` set ?x \<inter> nr_dlrSqlId ` set (concat (map (report_of toIso allowed rows) rs)) = {}"
    using Cons.prems by (auto dest!: report_of_fields) 
  ultimately show ?case using Cons by (auto simp: image_iff)
qed simp

text \<open>The page is strictly ascending, so a watermark splits it.\<close>

lemma sorted_keys_strict:
  fixes k :: "'a \<Rightarrow> 'k :: linorder"
  assumes "distinct (map k xs)"
  shows "sorted_wrt (\<lambda>a b. k a < k b) (sort_cmp (cmp_key k) xs)"
proof -
  have "sorted_wrt (\<lambda>a b. k a \<le> k b) (sort_cmp (cmp_key k) xs)"
    using ranking.sort_cmp_sorted [OF ranking_key] by (rule sorted_wrt_mono_rel [rotated]) (auto simp: cmp_key_def split: if_splits)
  moreover have "distinct (map k (sort_cmp (cmp_key k) xs))"
    using assms by (metis mset_map mset_sort_cmp mset_eq_imp_distinct_iff)
  ultimately show ?thesis
    by (auto simp: sorted_wrt_iff_nth_less distinct_conv_nth order.not_eq_order_implies_strict)
qed

end
