(* ===== verification/RetryChains.thy ===== *)
theory RetryChains
  imports DeliveryReports JobQueue
begin

section \<open>Retry chains: delivery-retry/delivery-retry.service.ts\<close>

text \<open>
  The rows of one tenant (policies, chains, attempts, scanner state), the dispatch jobs in the queue,
  and every transaction of the service. A dispatch is several transactions with reads of the engine
  and a submission between them, so the dispatches in flight are part of the state and any number of
  them interleave, crash or resume late. The send path (\<open>MessageSendService.send\<close>) is the environment:
  it refuses, or it spools the message in the engine's own database and then reaches the guarded
  insert that is its last statement. \<open>rt_spool\<close> records every spooled message, committed or not.
  Each transaction is one atomic step. Reasons are kept as the values their sentences carry.
\<close>

definition DELIVERY_RETRY_SCAN_JOB_TYPE :: string where
  "DELIVERY_RETRY_SCAN_JOB_TYPE = ''delivery.retry.scan''"

definition DELIVERY_RETRY_SCAN_MAX_ATTEMPTS :: int where "DELIVERY_RETRY_SCAN_MAX_ATTEMPTS = 3"

definition DELIVERY_RETRY_DISPATCH_JOB_TYPE :: string where
  "DELIVERY_RETRY_DISPATCH_JOB_TYPE = ''delivery.retry.dispatch''"

definition DELIVERY_RETRY_DISPATCH_MAX_ATTEMPTS :: int where "DELIVERY_RETRY_DISPATCH_MAX_ATTEMPTS = 4"

definition BREAKER_WINDOW_SECONDS :: int where "BREAKER_WINDOW_SECONDS = 60"

datatype chain_status = ChPending | ChRetrying | ChResent | ChDelivered | ChExhausted | ChAbandoned | ChFailed

datatype send_failure = SfMessage string | SfClaimedElsewhere | SfUniqueViolation

datatype chain_reason =
    ReDeclined decline_reason
  | ReAlsoFailed int int int
  | ReRetryDelivered int "string option"
  | ReSwitchedOff
  | ReLateReport nat
  | ReNoAttemptsLeft int int
  | ReNoBind bind_reason
  | ReRefused send_failure

record chain_row =
  rc_id :: nat
  rc_origin :: nat
  rc_decision :: nat
  rc_customer :: "string option"
  rc_channel :: string
  rc_sender :: "string option"
  rc_destination :: string
  rc_body :: string
  rc_smsc :: string
  rc_tried :: "string list"
  rc_event :: int
  rc_trigger_sql_id :: nat
  rc_trigger_at :: "string option"
  rc_detail :: "string option"
  rc_status :: chain_status
  rc_attempts :: int
  rc_max :: int
  rc_policy :: "string option"
  rc_job :: "nat option"
  rc_last_error :: "(string \<times> int) option"
  rc_reason :: "chain_reason option"
  rc_resolved :: "int option"
  rc_created :: int
  rc_updated :: int

datatype attempt_outcome = AtSubmitted | AtRefused | AtNoBind | AtSkipped | AtError

datatype attempt_reason = ByBind bind_reason | ByRefusal send_failure

record attempt_row =
  at_chain :: nat
  at_no :: int
  at_smsc :: "string option"
  at_excluded :: "string list"
  at_selection :: "bind_kind option"
  at_outcome :: attempt_outcome
  at_ref :: "nat option"
  at_decision :: "nat option"
  at_charged :: rat
  at_event :: "int option"
  at_event_at :: "string option"
  at_reason :: attempt_reason
  at_created :: int

datatype retry_error = RetryNotFound | RetryCheck | RetryJob job_error | RetryBadInterval

text \<open>What the scanner's row says went wrong.\<close>

datatype scan_error = ScanUnavailable string | ScanNoSmsc | ScanStoppedAt nat retry_error

record scan_row =
  sc_watermark :: nat
  sc_poll :: int
  sc_last_scanned :: "int option"
  sc_last_error :: "scan_error option"
  sc_seen :: nat
  sc_opened :: nat

text \<open>The columns of a committed \<open>message_route_decisions\<close> row that this service reads.\<close>

record send_decision =
  sd_id :: nat
  sd_ref :: nat
  sd_customer :: "string option"
  sd_channel :: string
  sd_sender :: "string option"
  sd_destination :: string

record retry_request =
  rr_sender :: string
  rr_receiver :: string
  rr_text :: string
  rr_smsc :: string
  rr_customer :: "string option"
  rr_channel :: string
  rr_cost :: "int option"

record spool_entry =
  sp_chain :: nat
  sp_no :: int
  sp_ref :: nat
  sp_request :: retry_request

text \<open>Where a dispatch stands between two of its transactions.\<close>

datatype dispatch_stage =
    StLoaded
  | StCleared
  | StClaimed int
  | StSending int bind_selection
  | StSpooled int bind_selection nat
  | StSubmitted int bind_selection
  | StRefusing int bind_selection send_failure
  | StNoBind int bind_selection
  | StClosing chain_status chain_reason

record dispatch_flight =
  df_chain :: chain_row
  df_policy :: retry_policy
  df_refs :: "nat list"
  df_stage :: dispatch_stage

record settle_entry =
  ste_chain :: nat
  ste_ref :: nat
  ste_no :: int
  ste_smsc :: "string option"

record retry_state =
  rt_queue :: queue_state
  rt_inputs :: "(nat \<times> nat) list"
  rt_policies :: "policy_row list"
  rt_decisions :: "send_decision list"
  rt_chains :: "chain_row list"
  rt_attempts :: "attempt_row list"
  rt_scan :: "scan_row option"
  rt_next :: nat
  rt_next_ref :: nat
  rt_spool :: "spool_entry list"
  rt_flights :: "dispatch_flight list"
  rt_settling :: "settle_entry list"

record retry_env =
  re_queue :: queue_config
  re_dateParse :: "string \<Rightarrow> int option"
  re_toIso :: "int \<Rightarrow> string"
  re_lc :: "string \<Rightarrow> string \<Rightarrow> int"

subsection \<open>Policies and the scan job\<close>

definition scope_rank :: "policy_scope \<Rightarrow> int" where
  "scope_rank s = (case s of ScCustomer \<Rightarrow> 0 | ScDefault \<Rightarrow> 1 | ScSmsc \<Rightarrow> 2 | ScTenant \<Rightarrow> 3)"

text \<open>\<open>ORDER BY scope, created_at\<close>; rows are kept in the order of their creation.\<close>

definition policyRows :: "retry_state \<Rightarrow> policy_row list" where
  "policyRows st = sort_cmp (cmp_key (\<lambda>r. scope_rank (pr_scope r))) (rt_policies st)"

text \<open>The table's checks.\<close>

definition policy_checks :: "policy_row \<Rightarrow> bool" where
  "policy_checks r \<longleftrightarrow>
     1 \<le> pr_max_attempts r \<and> pr_max_attempts r \<le> 5
     \<and> 0 \<le> pr_min_delay_seconds r \<and> pr_min_delay_seconds r \<le> 3600
     \<and> 60 \<le> pr_max_age_seconds r \<and> pr_max_age_seconds r \<le> 604800
     \<and> 1 \<le> pr_max_retries_per_minute r \<and> pr_max_retries_per_minute r \<le> 10000
     \<and> 1 \<le> pr_bind_retries_per_minute r \<and> pr_bind_retries_per_minute r \<le> 10000
     \<and> (case pr_scope r of
          ScTenant \<Rightarrow> pr_smsc_id r = None \<and> pr_customer_id r = None
        | ScSmsc \<Rightarrow> pr_smsc_id r \<noteq> None
        | ScCustomer \<Rightarrow> pr_customer_id r \<noteq> None
        | ScDefault \<Rightarrow> False)"

definition row_of_input :: "string \<Rightarrow> policy_input \<Rightarrow> policy_row" where
  "row_of_input i p =
     \<lparr>pr_id = i, pr_scope = pi_scope p, pr_smsc_id = pi_smscId p, pr_customer_id = pi_customerId p,
      pr_enabled = pi_enabled p, pr_max_attempts = pi_maxAttempts p, pr_retry_on_failed = pi_retryOnFailed p,
      pr_retry_on_rejected = pi_retryOnRejected p, pr_min_delay_seconds = pi_minDelaySeconds p,
      pr_max_age_seconds = pi_maxAgeSeconds p, pr_require_different_bind = pi_requireDifferentBind p,
      pr_charge_credit_on_retry = pi_chargeCreditOnRetry p, pr_max_retries_per_minute = pi_maxRetriesPerMinute p,
      pr_bind_retries_per_minute = pi_bindRetriesPerMinute p\<rparr>"

text \<open>The partial unique index of the input's scope.\<close>

definition same_policy_slot :: "policy_input \<Rightarrow> policy_row \<Rightarrow> bool" where
  "same_policy_slot p r \<longleftrightarrow>
     pr_scope r = pi_scope p
     \<and> (pi_scope p = ScSmsc \<longrightarrow> pr_smsc_id r = pi_smscId p)
     \<and> (pi_scope p = ScCustomer \<longrightarrow> pr_customer_id r = pi_customerId p)"

definition replace_policy :: "policy_input \<Rightarrow> policy_row \<Rightarrow> policy_row" where
  "replace_policy p r = (row_of_input (pr_id r) p)\<lparr>pr_smsc_id := pr_smsc_id r, pr_customer_id := pr_customer_id r\<rparr>"

definition submit_job ::
    "retry_env \<Rightarrow> string \<Rightarrow> int \<Rightarrow> job_request \<Rightarrow> retry_state \<Rightarrow> (retry_error, job_row \<times> retry_state) result" where
  "submit_job env user now q st =
     (case createOn (qc_registry (re_queue env)) (qs_next (rt_queue st)) user now q (qs_rows (rt_queue st)) of
        Inl e \<Rightarrow> Inl (RetryJob e)
      | Inr (job, rows) \<Rightarrow>
          Inr (job, st\<lparr>rt_queue := (rt_queue st)\<lparr>qs_rows := rows, qs_next := qs_next (rt_queue st) + 1\<rparr>\<rparr>))"

definition run_at :: "int \<Rightarrow> int \<Rightarrow> int option" where
  "run_at now delaySeconds = (if delaySeconds > 0 then Some (now + delaySeconds * 1000) else None)"

definition scan_in_flight :: "nat option \<Rightarrow> job_row list \<Rightarrow> bool" where
  "scan_in_flight exclude rows =
     list_ex (\<lambda>r. jr_type r = DELIVERY_RETRY_SCAN_JOB_TYPE \<and> (jr_status r = Queued \<or> jr_status r = Running)
       \<and> (exclude = None \<or> exclude \<noteq> Some (jr_id r))) rows"

definition ensureScanScheduled ::
    "retry_env \<Rightarrow> string \<Rightarrow> int \<Rightarrow> int \<Rightarrow> nat option \<Rightarrow> retry_state \<Rightarrow> (retry_error, bool \<times> retry_state) result" where
  "ensureScanScheduled env user now delaySeconds exclude st =
     (if scan_in_flight exclude (qs_rows (rt_queue st)) then Inr (False, st)
      else bind_result
        (submit_job env user now
          \<lparr>rq_type = DELIVERY_RETRY_SCAN_JOB_TYPE, rq_input = JObj, rq_key = None, rq_run_at = run_at now delaySeconds\<rparr> st)
        (\<lambda>(_, st'). Inr (True, st')))"

definition upsertPolicy ::
    "retry_env \<Rightarrow> string \<Rightarrow> string \<Rightarrow> policy_input \<Rightarrow> int \<Rightarrow> retry_state \<Rightarrow> (retry_error, retry_state) result" where
  "upsertPolicy env user newId p now st =
     (if \<not> policy_checks (row_of_input newId p) then Inl RetryCheck
      else
        let rows = (if list_ex (same_policy_slot p) (rt_policies st)
                    then update_where (same_policy_slot p) (replace_policy p) (rt_policies st)
                    else rt_policies st @ [row_of_input newId p]);
            st' = st\<lparr>rt_policies := rows\<rparr>
        in if pi_enabled p
           then bind_result (ensureScanScheduled env user now 0 None st') (\<lambda>(_, st''). Inr st'')
           else Inr st')"

definition removePolicy :: "string \<Rightarrow> retry_state \<Rightarrow> (retry_error, retry_state) result" where
  "removePolicy i st =
     (if list_ex (\<lambda>r. pr_id r = i) (rt_policies st)
      then Inr (st\<lparr>rt_policies := filter (\<lambda>r. pr_id r \<noteq> i) (rt_policies st)\<rparr>)
      else Inl RetryNotFound)"

definition new_scan_row :: scan_row where
  "new_scan_row =
     \<lparr>sc_watermark = 0, sc_poll = 60, sc_last_scanned = None, sc_last_error = None, sc_seen = 0, sc_opened = 0\<rparr>"

text \<open>Reads the scanner's row, creating it on first use.\<close>

definition scanner_row :: "retry_state \<Rightarrow> scan_row \<times> retry_state" where
  "scanner_row st = (let r = coalesce (rt_scan st) new_scan_row in (r, st\<lparr>rt_scan := Some r\<rparr>))"

definition setPollInterval :: "int \<Rightarrow> retry_state \<Rightarrow> (retry_error, retry_state) result" where
  "setPollInterval seconds st =
     (if seconds < 5 \<or> seconds > 3600 then Inl RetryBadInterval
      else Inr (st\<lparr>rt_scan := Some ((coalesce (rt_scan st) new_scan_row)\<lparr>sc_poll := seconds\<rparr>)\<rparr>))"

definition recordScan ::
    "nat option \<Rightarrow> scan_error option \<Rightarrow> nat \<Rightarrow> nat \<Rightarrow> int \<Rightarrow> retry_state \<Rightarrow> retry_state" where
  "recordScan watermark e seen opened now st =
     (let r = coalesce (rt_scan st) new_scan_row
      in st\<lparr>rt_scan := Some (r\<lparr>sc_watermark := max (sc_watermark r) (coalesce watermark 0),
             sc_last_scanned := Some now, sc_last_error := e, sc_seen := sc_seen r + seen,
             sc_opened := sc_opened r + opened\<rparr>)\<rparr>)"

subsection \<open>Opening and continuing a chain\<close>

definition dispatch_key :: "nat \<Rightarrow> int \<Rightarrow> string" where
  "dispatch_key i n = ''delivery-retry:'' @ show_nat i @ '':'' @ show_nat (nat n)"

definition update_chain :: "nat \<Rightarrow> (chain_row \<Rightarrow> chain_row) \<Rightarrow> retry_state \<Rightarrow> retry_state" where
  "update_chain i f st = st\<lparr>rt_chains := update_where (\<lambda>c. rc_id c = i) f (rt_chains st)\<rparr>"

text \<open>
  The job's input is \<open>{ retryId }\<close>: \<open>rt_inputs\<close> maps the dispatch jobs to the chains they name.
\<close>

definition enqueueDispatch ::
    "retry_env \<Rightarrow> string \<Rightarrow> nat \<Rightarrow> int \<Rightarrow> int \<Rightarrow> int \<Rightarrow> retry_state \<Rightarrow> (retry_error, retry_state) result" where
  "enqueueDispatch env user i n delaySeconds now st =
     bind_result
       (submit_job env user now
         \<lparr>rq_type = DELIVERY_RETRY_DISPATCH_JOB_TYPE, rq_input = JObj, rq_key = Some (dispatch_key i n),
          rq_run_at = run_at now delaySeconds\<rparr> st)
       (\<lambda>(job, st').
          let st'' = (if jr_id job = qs_next (rt_queue st) then st'\<lparr>rt_inputs := (jr_id job, i) # rt_inputs st'\<rparr> else st')
          in Inr (update_chain i (\<lambda>c. c\<lparr>rc_job := Some (jr_id job), rc_updated := now\<rparr>) st''))"

text \<open>
  \<open>POST /jobs\<close> creates a job of any registered type with the input and key its caller sends, at once
  due; so an operator can submit a dispatch of any chain. Other submissions are steps of the queue.
\<close>

definition submitDispatch ::
    "retry_env \<Rightarrow> string \<Rightarrow> string option \<Rightarrow> nat \<Rightarrow> int \<Rightarrow> retry_state \<Rightarrow> (retry_error, retry_state) result" where
  "submitDispatch env user key i now st =
     bind_result
       (submit_job env user now
         \<lparr>rq_type = DELIVERY_RETRY_DISPATCH_JOB_TYPE, rq_input = JObj, rq_key = key, rq_run_at = None\<rparr> st)
       (\<lambda>(job, st').
          Inr (if jr_id job = qs_next (rt_queue st) then st'\<lparr>rt_inputs := (jr_id job, i) # rt_inputs st'\<rparr> else st'))"

definition terminated_row :: "chain_status \<Rightarrow> chain_reason \<Rightarrow> int \<Rightarrow> chain_row \<Rightarrow> chain_row" where
  "terminated_row s reason now c =
     c\<lparr>rc_status := s, rc_reason := Some reason, rc_resolved := Some now, rc_job := None, rc_updated := now\<rparr>"

definition terminate :: "nat \<Rightarrow> chain_status \<Rightarrow> chain_reason \<Rightarrow> int \<Rightarrow> retry_state \<Rightarrow> retry_state" where
  "terminate i s reason now st = update_chain i (terminated_row s reason now) st"

datatype ingest_outcome = Opened | Continued | Duplicate | Skipped

definition note_event ::
    "(attempt_row \<Rightarrow> bool) \<Rightarrow> int \<Rightarrow> string option \<Rightarrow> retry_state \<Rightarrow> retry_state" where
  "note_event P event when st =
     st\<lparr>rt_attempts := update_where P (\<lambda>a. a\<lparr>at_event := Some event, at_event_at := when\<rparr>) (rt_attempts st)\<rparr>"

definition is_attempt :: "nat \<Rightarrow> int \<Rightarrow> attempt_row \<Rightarrow> bool" where
  "is_attempt i n a \<longleftrightarrow> at_chain a = i \<and> at_no a = n"

definition reopened_row :: "negative_report \<Rightarrow> int \<Rightarrow> chain_row \<Rightarrow> chain_row" where
  "reopened_row report now c =
     c\<lparr>rc_status := ChPending, rc_last_error := Some (nr_smscId report, dr_dlrEvent report), rc_updated := now\<rparr>"

definition continueChain ::
    "retry_env \<Rightarrow> string \<Rightarrow> attempt_row \<Rightarrow> negative_report \<Rightarrow> int \<Rightarrow> retry_state
       \<Rightarrow> (retry_error, ingest_outcome \<times> retry_state) result" where
  "continueChain env user attempt report now st =
     (let st1 = note_event (is_attempt (at_chain attempt) (at_no attempt)) (dr_dlrEvent report) (dr_dlrAt report) st
      in case row_by rc_id (at_chain attempt) (rt_chains st1) of
           None \<Rightarrow> Inr (Skipped, st1)
         | Some c \<Rightarrow>
             if rc_status c \<noteq> ChResent then Inr (Skipped, st1)
             else if rc_attempts c \<ge> rc_max c
             then Inr (Continued, terminate (rc_id c) ChExhausted
                        (ReAlsoFailed (rc_attempts c) (rc_max c) (dr_dlrEvent report)) now st1)
             else
               let st2 = update_chain (rc_id c) (reopened_row report now) st1;
                   policy = resolveRetryPolicy (policyRows st2) (Some (nr_smscId report)) (rc_customer c)
               in bind_result
                    (enqueueDispatch env user (rc_id c) (rc_attempts c + 1) (rp_minDelaySeconds policy) now st2)
                    (\<lambda>st3. Inr (Continued, st3)))"

definition find_decision :: "nat \<Rightarrow> send_decision list \<Rightarrow> send_decision option" where
  "find_decision ref ds = find (\<lambda>d. sd_ref d = ref) (rev ds)"

definition opened_chain ::
    "nat \<Rightarrow> negative_report \<Rightarrow> send_decision \<Rightarrow> retry_policy \<Rightarrow> decline_reason option \<Rightarrow> int \<Rightarrow> chain_row" where
  "opened_chain i report d policy declined now =
     \<lparr>rc_id = i, rc_origin = nr_foreignId report, rc_decision = sd_id d, rc_customer = sd_customer d,
      rc_channel = sd_channel d,
      rc_sender = (if nr_sender report \<noteq> [] then Some (nr_sender report) else sd_sender d),
      rc_destination = sd_destination d, rc_body = nr_text report, rc_smsc = nr_smscId report,
      rc_tried = [nr_smscId report], rc_event = dr_dlrEvent report, rc_trigger_sql_id = nr_dlrSqlId report,
      rc_trigger_at = dr_dlrAt report, rc_detail = nr_detail report,
      rc_status = (if declined = None then ChPending else ChAbandoned), rc_attempts = 0,
      rc_max = rp_maxAttempts policy, rc_policy = rp_policyId policy, rc_job = None, rc_last_error = None,
      rc_reason = map_option ReDeclined declined, rc_resolved = map_option (\<lambda>_. now) declined,
      rc_created = now, rc_updated = now\<rparr>"

definition open_chain ::
    "retry_env \<Rightarrow> string \<Rightarrow> negative_report \<Rightarrow> send_decision \<Rightarrow> retry_policy \<Rightarrow> decline_reason option \<Rightarrow> int
       \<Rightarrow> retry_state \<Rightarrow> (retry_error, ingest_outcome \<times> retry_state) result" where
  "open_chain env user report d policy declined now st =
     (if list_ex (\<lambda>c. rc_origin c = nr_foreignId report) (rt_chains st) then Inr (Duplicate, st)
      else
        let i = rt_next st;
            st1 = st\<lparr>rt_chains := rt_chains st @ [opened_chain i report d policy declined now], rt_next := i + 1\<rparr>
        in if declined \<noteq> None then Inr (Opened, st1)
           else bind_result (enqueueDispatch env user i 1 (rp_minDelaySeconds policy) now st1)
                  (\<lambda>st2. Inr (Opened, st2)))"

definition ingestReport ::
    "retry_env \<Rightarrow> string \<Rightarrow> negative_report \<Rightarrow> policy_row list \<Rightarrow> int \<Rightarrow> retry_state
       \<Rightarrow> (retry_error, ingest_outcome \<times> retry_state) result" where
  "ingestReport env user report policies now st =
     (case find (\<lambda>a. at_ref a = Some (nr_foreignId report)) (rt_attempts st) of
        Some attempt \<Rightarrow> continueChain env user attempt report now st
      | None \<Rightarrow>
          (case find_decision (nr_foreignId report) (rt_decisions st) of
             None \<Rightarrow> Inr (Skipped, st)
           | Some d \<Rightarrow>
               let policy = resolveRetryPolicy policies (Some (nr_smscId report)) (sd_customer d)
               in case classifyReport (re_dateParse env) policy (delivery_report.truncate report) now of
                    Retry \<Rightarrow> open_chain env user report d policy None now st
                  | NoRetry recordable reason \<Rightarrow>
                      if recordable then open_chain env user report d policy (Some reason) now st
                      else Inr (Skipped, st)))"

subsection \<open>Settling\<close>

definition open_attempt :: "retry_state \<Rightarrow> chain_row \<Rightarrow> settle_entry list" where
  "open_attempt st c =
     (if rc_status c \<noteq> ChResent then []
      else concat (map (\<lambda>a. case at_ref a of
                               Some ref \<Rightarrow> if is_attempt (rc_id c) (rc_attempts c) a \<and> at_event a = None
                                 then [\<lparr>ste_chain = rc_id c, ste_ref = ref, ste_no = at_no a, ste_smsc = at_smsc a\<rparr>] else []
                             | None \<Rightarrow> []) (rt_attempts st)))"

definition read_resent :: "nat \<Rightarrow> retry_state \<Rightarrow> settle_entry list" where
  "read_resent limit st = take limit (concat (map (open_attempt st) (sort_cmp (cmp_key rc_updated) (rt_chains st))))"

definition settle_entry_with ::
    "settle_entry \<Rightarrow> (int \<times> string option) option \<Rightarrow> int \<Rightarrow> retry_state \<Rightarrow> retry_state" where
  "settle_entry_with s event now st =
     (case event of
        None \<Rightarrow> st
      | Some (e, when) \<Rightarrow>
          if e \<noteq> DLR_EVENT_DELIVERED then st
          else terminate (ste_chain s) ChDelivered (ReRetryDelivered (ste_no s) (ste_smsc s)) now
                 (note_event (is_attempt (ste_chain s) (ste_no s)) e when st))"

subsection \<open>Dispatch\<close>

text \<open>\<open>None\<close>: no such chain (the code throws), or the chain is not waiting for a dispatch (skipped).\<close>

definition load_dispatch :: "nat \<Rightarrow> retry_state \<Rightarrow> dispatch_flight option" where
  "load_dispatch i st =
     (case row_by rc_id i (rt_chains st) of
        None \<Rightarrow> None
      | Some c \<Rightarrow>
          if rc_status c \<noteq> ChPending \<and> rc_status c \<noteq> ChRetrying then None
          else
            let policy = resolveRetryPolicy (policyRows st) (Some (rc_smsc c)) (rc_customer c)
            in Some \<lparr>df_chain = c, df_policy = policy,
                 df_refs = concat (map (\<lambda>a. case at_ref a of Some r \<Rightarrow> if at_chain a = i then [r] else [] | None \<Rightarrow> [])
                             (rt_attempts st)),
                 df_stage = (if rp_enabled policy then StLoaded else StClosing ChAbandoned ReSwitchedOff)\<rparr>)"

definition correlations :: "dispatch_flight \<Rightarrow> nat list" where
  "correlations f = rc_origin (df_chain f) # df_refs f"

text \<open>The engine's newest events for the correlations, read just before the claim.\<close>

definition check_engine :: "dispatch_flight \<Rightarrow> (nat \<Rightarrow> (int \<times> string option) option) \<Rightarrow> dispatch_flight" where
  "check_engine f events =
     (case find (\<lambda>r. map_option fst (events r) = Some DLR_EVENT_DELIVERED) (correlations f) of
        Some r \<Rightarrow> f\<lparr>df_stage := StClosing ChDelivered (ReLateReport r)\<rparr>
      | None \<Rightarrow> f\<lparr>df_stage := StCleared\<rparr>)"

definition claimable_chain :: "nat \<Rightarrow> chain_row \<Rightarrow> bool" where
  "claimable_chain i c \<longleftrightarrow>
     rc_id c = i \<and> (rc_status c = ChPending \<or> rc_status c = ChRetrying) \<and> rc_attempts c < rc_max c"

definition claimed_chain :: "int \<Rightarrow> chain_row \<Rightarrow> chain_row" where
  "claimed_chain now c = c\<lparr>rc_status := ChRetrying, rc_updated := now, rc_attempts := rc_attempts c + 1\<rparr>"

definition claim_attempt :: "dispatch_flight \<Rightarrow> int \<Rightarrow> retry_state \<Rightarrow> dispatch_flight \<times> retry_state" where
  "claim_attempt f now st =
     (let i = rc_id (df_chain f)
      in case returning (claimable_chain i) (claimed_chain now) (rt_chains st) of
           [] \<Rightarrow> (f\<lparr>df_stage := StClosing ChExhausted
                     (ReNoAttemptsLeft (rc_attempts (df_chain f)) (rc_max (df_chain f)))\<rparr>, st)
         | c # _ \<Rightarrow>
             (f\<lparr>df_stage := StClaimed (rc_attempts c)\<rparr>,
              st\<lparr>rt_chains := update_where (claimable_chain i) (claimed_chain now) (rt_chains st)\<rparr>))"

text \<open>
  What the routing and customer tables answer: the binds available, the engine identifiers of the
  customer's bindings and the route resolved, \<open>None\<close> when resolution throws.
\<close>

record bind_context =
  bc_available :: "string list"
  bc_bindings :: "(string option \<times> string option) list"
  bc_routed :: "string option"

definition entitled_binds :: "string option \<Rightarrow> (string option \<times> string option) list \<Rightarrow> string list option" where
  "entitled_binds customer bindings =
     (if truthy customer \<and> bindings \<noteq> []
      then Some (remdups (map the (filter truthy (concat (map (\<lambda>(e, r). [e, r]) bindings)))))
      else None)"

definition recent :: "int \<Rightarrow> attempt_row \<Rightarrow> bool" where
  "recent now a \<longleftrightarrow> at_created a > now - BREAKER_WINDOW_SECONDS * 1000"

definition recentAttemptCount :: "int \<Rightarrow> retry_state \<Rightarrow> nat" where
  "recentAttemptCount now st = length (filter (recent now) (rt_attempts st))"

definition recentAttemptsByBind :: "int \<Rightarrow> retry_state \<Rightarrow> string \<Rightarrow> int option" where
  "recentAttemptsByBind now st b =
     (let n = length (filter (\<lambda>a. at_smsc a = Some b \<and> recent now a) (rt_attempts st))
      in if n = 0 then None else Some (int n))"

definition chooseBind :: "retry_env \<Rightarrow> dispatch_flight \<Rightarrow> bind_context \<Rightarrow> int \<Rightarrow> retry_state \<Rightarrow> bind_selection" where
  "chooseBind env f bc now st =
     selectRetryBind (re_lc env)
       \<lparr>bi_available = bc_available bc, bi_tried = rc_tried (df_chain f),
        bi_entitled = entitled_binds (rc_customer (df_chain f)) (bc_bindings bc),
        bi_recentByBind = recentAttemptsByBind now st,
        bi_bindRetriesPerMinute = rp_bindRetriesPerMinute (df_policy f),
        bi_routed = bc_routed bc, bi_requireDifferentBind = rp_requireDifferentBind (df_policy f)\<rparr>"

definition choose_stage :: "int \<Rightarrow> bind_selection \<Rightarrow> dispatch_flight \<Rightarrow> dispatch_flight" where
  "choose_stage n sel f = f\<lparr>df_stage := (if truthy (bs_smscId sel) then StSending n sel else StNoBind n sel)\<rparr>"

definition retry_request_of :: "dispatch_flight \<Rightarrow> bind_selection \<Rightarrow> retry_request" where
  "retry_request_of f sel =
     \<lparr>rr_sender = coalesce (rc_sender (df_chain f)) [], rr_receiver = rc_destination (df_chain f),
      rr_text = rc_body (df_chain f), rr_smsc = the (bs_smscId sel), rr_customer = rc_customer (df_chain f),
      rr_channel = ''system'', rr_cost = (if rp_chargeCreditOnRetry (df_policy f) then None else Some 0)\<rparr>"

text \<open>The engine's insert: committed at once, in the engine's own database.\<close>

definition spool_retry :: "dispatch_flight \<Rightarrow> int \<Rightarrow> bind_selection \<Rightarrow> retry_state \<Rightarrow> dispatch_flight \<times> retry_state" where
  "spool_retry f n sel st =
     (f\<lparr>df_stage := StSpooled n sel (rt_next_ref st)\<rparr>,
      st\<lparr>rt_next_ref := rt_next_ref st + 1,
         rt_spool := rt_spool st @
           [\<lparr>sp_chain = rc_id (df_chain f), sp_no = n, sp_ref = rt_next_ref st, sp_request = retry_request_of f sel\<rparr>]\<rparr>)"

definition attempt_of ::
    "nat \<Rightarrow> int \<Rightarrow> bind_selection \<Rightarrow> attempt_outcome \<Rightarrow> nat option \<Rightarrow> nat option \<Rightarrow> attempt_reason \<Rightarrow> int \<Rightarrow> attempt_row" where
  "attempt_of i n sel outcome ref decision reason now =
     \<lparr>at_chain = i, at_no = n, at_smsc = bs_smscId sel, at_excluded = bs_excluded sel,
      at_selection = bs_selection sel, at_outcome = outcome, at_ref = ref, at_decision = decision,
      at_charged = 0, at_event = None, at_event_at = None, at_reason = reason, at_created = now\<rparr>"

definition resent_row :: "string \<Rightarrow> int \<Rightarrow> chain_row \<Rightarrow> chain_row" where
  "resent_row smsc now c =
     c\<lparr>rc_status := ChResent, rc_tried := rc_tried c @ [smsc], rc_job := None, rc_updated := now\<rparr>"

text \<open>
  The last statements of the send's transaction: the guarded insert of the attempt and the update of
  the chain, committed together with the send's own decision row. The guard or a unique key fails the
  transaction, which leaves the spooled message behind.
\<close>

definition commit_attempt ::
    "dispatch_flight \<Rightarrow> int \<Rightarrow> bind_selection \<Rightarrow> nat \<Rightarrow> nat \<Rightarrow> int \<Rightarrow> retry_state \<Rightarrow> dispatch_flight \<times> retry_state" where
  "commit_attempt f n sel ref decisionId now st =
     (let i = rc_id (df_chain f)
      in if \<not> list_ex (\<lambda>c. rc_id c = i \<and> rc_status c = ChRetrying \<and> rc_attempts c = n) (rt_chains st)
         then (f\<lparr>df_stage := StRefusing n sel SfClaimedElsewhere\<rparr>, st)
         else if list_ex (\<lambda>a. is_attempt i n a \<or> at_ref a = Some ref) (rt_attempts st)
         then (f\<lparr>df_stage := StRefusing n sel SfUniqueViolation\<rparr>, st)
         else
           (f\<lparr>df_stage := StSubmitted n sel\<rparr>,
            st\<lparr>rt_decisions := rt_decisions st @
                 [\<lparr>sd_id = decisionId, sd_ref = ref, sd_customer = rc_customer (df_chain f), sd_channel = ''system'',
                   sd_sender = rc_sender (df_chain f), sd_destination = rc_destination (df_chain f)\<rparr>],
               rt_attempts := rt_attempts st @
                 [attempt_of i n sel AtSubmitted (Some ref) (Some decisionId) (ByBind (bs_reason sel)) now],
               rt_chains := update_where (\<lambda>c. rc_id c = i \<and> rc_attempts c = n)
                 (resent_row (the (bs_smscId sel)) now) (rt_chains st)\<rparr>))"

definition record_charge :: "dispatch_flight \<Rightarrow> int \<Rightarrow> rat \<Rightarrow> retry_state \<Rightarrow> retry_state" where
  "record_charge f n charged st =
     st\<lparr>rt_attempts := update_where (is_attempt (rc_id (df_chain f)) n) (\<lambda>a. a\<lparr>at_charged := charged\<rparr>) (rt_attempts st)\<rparr>"

text \<open>\<open>ON CONFLICT DO NOTHING\<close>; a transaction that fails is swallowed (\<open>lost\<close>).\<close>

definition recordAttempt ::
    "dispatch_flight \<Rightarrow> int \<Rightarrow> bind_selection \<Rightarrow> attempt_outcome \<Rightarrow> attempt_reason \<Rightarrow> bool \<Rightarrow> int
       \<Rightarrow> retry_state \<Rightarrow> retry_state" where
  "recordAttempt f n sel outcome reason lost now st =
     (let i = rc_id (df_chain f)
      in if lost \<or> list_ex (is_attempt i n) (rt_attempts st) then st
         else st\<lparr>rt_attempts := rt_attempts st @ [attempt_of i n sel outcome None None reason now]\<rparr>)"

subsection \<open>The service as a machine\<close>

text \<open>
  \<open>RSend\<close> is any other committed send of the tenant. \<open>RStart x\<close> is the handler of the queue's x-th
  execution; the remaining dispatch events continue the x-th dispatch in flight, and \<open>RDie\<close> ends one:
  the process dies, or an exception leaves the handler. \<open>RSubmit\<close> is an operator's own dispatch job,
  \<open>RQueue\<close> any other step of the queue.
\<close>

datatype retry_event =
    RPolicy string string policy_input int
  | RRemovePolicy string
  | RPoll int
  | RScheduleScan string int int "nat option"
  | RRecordScan "nat option" "scan_error option" nat nat int
  | RSend send_decision
  | RIngest string negative_report "policy_row list" int
  | RReadResent nat
  | RSettle nat "(int \<times> string option) option" int
  | RStart nat
  | REngine nat "nat \<Rightarrow> (int \<times> string option) option"
  | RClaim nat int
  | RChoose nat bind_context int
  | RSpool nat
  | RRefuse nat string
  | RCommit nat nat int
  | RCharge nat rat
  | RRecord nat bool int
  | RClose nat int
  | RDie nat
  | RSubmit string "string option" nat int
  | RQueue queue_event

definition kept :: "retry_state \<Rightarrow> ('e, retry_state) result \<Rightarrow> retry_state" where
  "kept st r = (case r of Inl _ \<Rightarrow> st | Inr st' \<Rightarrow> st')"

text \<open>Takes the x-th dispatch out, and puts its continuation back.\<close>

definition resume ::
    "nat \<Rightarrow> (dispatch_flight \<Rightarrow> retry_state \<Rightarrow> (dispatch_flight option \<times> retry_state) option) \<Rightarrow> retry_state
       \<Rightarrow> retry_state option" where
  "resume x k st =
     (if x < length (rt_flights st)
      then (case k (rt_flights st ! x) (st\<lparr>rt_flights := drop_index x (rt_flights st)\<rparr>) of
              None \<Rightarrow> None
            | Some (None, st') \<Rightarrow> Some st'
            | Some (Some f, st') \<Rightarrow> Some (st'\<lparr>rt_flights := rt_flights st' @ [f]\<rparr>))
      else None)"

definition goes :: "dispatch_flight \<times> retry_state \<Rightarrow> (dispatch_flight option \<times> retry_state) option" where
  "goes p = Some (Some (fst p), snd p)"

definition refuse_stage :: "string \<Rightarrow> dispatch_flight \<Rightarrow> dispatch_flight option" where
  "refuse_stage message f =
     (case df_stage f of
        StSending n sel \<Rightarrow> Some (f\<lparr>df_stage := StRefusing n sel (SfMessage message)\<rparr>)
      | StSpooled n sel _ \<Rightarrow> Some (f\<lparr>df_stage := StRefusing n sel (SfMessage message)\<rparr>)
      | StSubmitted n sel \<Rightarrow> Some (f\<lparr>df_stage := StRefusing n sel (SfMessage message)\<rparr>)
      | _ \<Rightarrow> None)"

definition dispatch_step ::
    "retry_env \<Rightarrow> retry_event \<Rightarrow> dispatch_flight \<Rightarrow> retry_state \<Rightarrow> (dispatch_flight option \<times> retry_state) option" where
  "dispatch_step env ev f st =
     (case ev of
        REngine _ events \<Rightarrow> if df_stage f = StLoaded then goes (check_engine f events, st) else None
      | RClaim _ now \<Rightarrow> if df_stage f = StCleared then goes (claim_attempt f now st) else None
      | RChoose _ bc now \<Rightarrow>
          (case df_stage f of
             StClaimed n \<Rightarrow> goes (choose_stage n (chooseBind env f bc now st) f, st) | _ \<Rightarrow> None)
      | RSpool _ \<Rightarrow> (case df_stage f of StSending n sel \<Rightarrow> goes (spool_retry f n sel st) | _ \<Rightarrow> None)
      | RRefuse _ message \<Rightarrow> map_option (\<lambda>f'. (Some f', st)) (refuse_stage message f)
      | RCommit _ decisionId now \<Rightarrow>
          (case df_stage f of StSpooled n sel ref \<Rightarrow> goes (commit_attempt f n sel ref decisionId now st) | _ \<Rightarrow> None)
      | RCharge _ charged \<Rightarrow>
          (case df_stage f of StSubmitted n sel \<Rightarrow> Some (None, record_charge f n charged st) | _ \<Rightarrow> None)
      | RRecord _ lost now \<Rightarrow>
          (case df_stage f of
             StRefusing n sel e \<Rightarrow>
               goes (f\<lparr>df_stage := StClosing ChFailed (ReRefused e)\<rparr>,
                     recordAttempt f n sel AtRefused (ByRefusal e) lost now st)
           | StNoBind n sel \<Rightarrow>
               goes (f\<lparr>df_stage := StClosing ChExhausted (ReNoBind (bs_reason sel))\<rparr>,
                     recordAttempt f n sel AtNoBind (ByBind (bs_reason sel)) lost now st)
           | _ \<Rightarrow> None)
      | RClose _ now \<Rightarrow>
          (case df_stage f of
             StClosing s reason \<Rightarrow> Some (None, terminate (rc_id (df_chain f)) s reason now st) | _ \<Rightarrow> None)
      | RDie _ \<Rightarrow> Some (None, st)
      | _ \<Rightarrow> None)"

definition settle_step :: "nat \<Rightarrow> (int \<times> string option) option \<Rightarrow> int \<Rightarrow> retry_state \<Rightarrow> retry_state option" where
  "settle_step x event now st =
     (if x < length (rt_settling st)
      then Some (settle_entry_with (rt_settling st ! x) event now (st\<lparr>rt_settling := drop_index x (rt_settling st)\<rparr>))
      else None)"

definition start_step :: "nat \<Rightarrow> retry_state \<Rightarrow> retry_state option" where
  "start_step x st =
     (if x < length (qs_running (rt_queue st))
      then (case map_of (rt_inputs st) (jr_id (qs_running (rt_queue st) ! x)) of
              None \<Rightarrow> None
            | Some i \<Rightarrow>
                (case load_dispatch i st of
                   None \<Rightarrow> Some st
                 | Some f \<Rightarrow> Some (st\<lparr>rt_flights := rt_flights st @ [f]\<rparr>)))
      else None)"

definition send_commit :: "send_decision \<Rightarrow> retry_state \<Rightarrow> retry_state" where
  "send_commit d st =
     st\<lparr>rt_decisions := rt_decisions st @ [d\<lparr>sd_ref := rt_next_ref st\<rparr>], rt_next_ref := rt_next_ref st + 1\<rparr>"

definition retry_step :: "retry_env \<Rightarrow> retry_event \<Rightarrow> retry_state \<Rightarrow> retry_state option" where
  "retry_step env ev st =
     (case ev of
        RPolicy user newId p now \<Rightarrow> Some (kept st (upsertPolicy env user newId p now st))
      | RRemovePolicy i \<Rightarrow> Some (kept st (removePolicy i st))
      | RPoll s \<Rightarrow> Some (kept st (setPollInterval s st))
      | RScheduleScan user now d exclude \<Rightarrow>
          Some (kept st (map_sum id snd (ensureScanScheduled env user now d exclude st)))
      | RRecordScan w e seen opened now \<Rightarrow> Some (recordScan w e seen opened now st)
      | RSend d \<Rightarrow> Some (send_commit d st)
      | RIngest user report policies now \<Rightarrow>
          if list_all policy_checks policies
          then Some (kept st (map_sum id snd (ingestReport env user report policies now st))) else None
      | RReadResent limit \<Rightarrow> Some (st\<lparr>rt_settling := rt_settling st @ read_resent limit st\<rparr>)
      | RSettle x event now \<Rightarrow> settle_step x event now st
      | RStart x \<Rightarrow> start_step x st
      | RSubmit user key i now \<Rightarrow> Some (kept st (submitDispatch env user key i now st))
      | RQueue q \<Rightarrow> map_option (\<lambda>s. st\<lparr>rt_queue := s\<rparr>) (queue_step (re_queue env) q (rt_queue st))
      | REngine x _ \<Rightarrow> resume x (dispatch_step env ev) st
      | RClaim x _ \<Rightarrow> resume x (dispatch_step env ev) st
      | RChoose x _ _ \<Rightarrow> resume x (dispatch_step env ev) st
      | RSpool x \<Rightarrow> resume x (dispatch_step env ev) st
      | RRefuse x _ \<Rightarrow> resume x (dispatch_step env ev) st
      | RCommit x _ _ \<Rightarrow> resume x (dispatch_step env ev) st
      | RCharge x _ \<Rightarrow> resume x (dispatch_step env ev) st
      | RRecord x _ _ \<Rightarrow> resume x (dispatch_step env ev) st
      | RClose x _ \<Rightarrow> resume x (dispatch_step env ev) st
      | RDie x \<Rightarrow> resume x (dispatch_step env ev) st)"

definition empty_retry :: retry_state where
  "empty_retry =
     \<lparr>rt_queue = empty_queue, rt_inputs = [], rt_policies = [], rt_decisions = [], rt_chains = [],
      rt_attempts = [], rt_scan = None, rt_next = 0, rt_next_ref = 0, rt_spool = [], rt_flights = [],
      rt_settling = []\<rparr>"

end
