(* ===== verification/RetryInvariants.thy ===== *)
theory RetryInvariants
  imports RetryChains
begin

section \<open>Retry chains: what every interleaving keeps\<close>

text \<open>
  The invariants of the retry machine of \<^theory_text>\<open>RetryChains\<close>: how its rows evolve, the budget of
  sends, the separation of origins and retries, and the length of a chain's life.
\<close>

subsection \<open>How chains evolve\<close>

definition chain_done :: "chain_row \<Rightarrow> bool" where
  "chain_done c \<longleftrightarrow> rc_status c \<in> {ChDelivered, ChExhausted, ChAbandoned, ChFailed}"

text \<open>What is left of a chain's life: every change of an unfinished chain lowers it.\<close>

definition chain_rank :: "chain_row \<Rightarrow> nat" where
  "chain_rank c =
     (if chain_done c then 0
      else 3 * nat (rc_max c - rc_attempts c)
           + (if rc_status c = ChPending then 1 else if rc_status c = ChResent then 2 else 3))"

definition chain_ok :: "chain_row \<Rightarrow> bool" where
  "chain_ok c \<longleftrightarrow>
     0 \<le> rc_attempts c \<and> rc_attempts c \<le> rc_max c \<and> 1 \<le> rc_max c \<and> rc_max c \<le> 5
     \<and> rc_event c \<in> {DLR_EVENT_FAILED, DLR_EVENT_REJECTED}
     \<and> (chain_done c \<longleftrightarrow> rc_reason c \<noteq> None) \<and> (chain_done c \<longleftrightarrow> rc_resolved c \<noteq> None)
     \<and> rc_tried c \<noteq> [] \<and> hd (rc_tried c) = rc_smsc c"

definition moved :: "chain_row \<Rightarrow> chain_row \<Rightarrow> bool" where
  "moved c c' \<longleftrightarrow> rc_status c' \<noteq> rc_status c \<or> rc_attempts c' \<noteq> rc_attempts c"

definition same_message :: "chain_row \<Rightarrow> chain_row \<Rightarrow> bool" where
  "same_message c c' \<longleftrightarrow>
     rc_id c' = rc_id c \<and> rc_origin c' = rc_origin c \<and> rc_max c' = rc_max c \<and> rc_smsc c' = rc_smsc c
     \<and> rc_destination c' = rc_destination c \<and> rc_body c' = rc_body c"

definition chain_evolves :: "chain_row \<Rightarrow> chain_row \<Rightarrow> bool" where
  "chain_evolves c c' \<longleftrightarrow>
     same_message c c' \<and> rc_attempts c \<le> rc_attempts c' \<and> chain_rank c' \<le> chain_rank c
     \<and> (chain_done c \<longrightarrow> chain_done c')
     \<and> (\<not> chain_done c \<and> moved c c' \<longrightarrow> chain_rank c' < chain_rank c)
     \<and> (chain_ok c \<longrightarrow> chain_ok c')"

lemmas chain_rules = chain_evolves_def same_message_def moved_def chain_done_def chain_rank_def chain_ok_def

lemma chain_evolves_refl: "chain_evolves c c"
  by (simp add: chain_evolves_def same_message_def moved_def)

lemma chain_evolves_trans:
  assumes "chain_evolves a b" "chain_evolves b c"
  shows "chain_evolves a c"
proof -
  have "chain_rank c < chain_rank a" if "\<not> chain_done a" "moved a c"
  proof (cases "moved a b")
    case True
    with that assms show ?thesis unfolding chain_evolves_def by (meson le_less_trans)
  next
    case False
    with that have "\<not> chain_done b" "moved b c" by (auto simp: moved_def chain_done_def)
    with assms show ?thesis unfolding chain_evolves_def by (meson less_le_trans)
  qed
  with assms show ?thesis unfolding chain_evolves_def same_message_def by auto
qed

lemma chain_done_rank: "chain_done c \<longleftrightarrow> chain_rank c = 0"
  by (simp add: chain_rank_def)

lemma evolves_job: "chain_evolves c (c\<lparr>rc_job := j, rc_updated := t\<rparr>)"
  by (simp add: chain_rules)

lemma evolves_terminated:
  assumes "s \<in> {ChDelivered, ChExhausted, ChAbandoned, ChFailed}"
  shows "chain_evolves c (terminated_row s reason now c)"
proof -
  have d: "chain_done (terminated_row s reason now c)" using assms by (simp add: chain_done_def terminated_row_def)
  then have "chain_rank (terminated_row s reason now c) = 0" by (simp add: chain_rank_def)
  moreover have "\<not> chain_done c \<longrightarrow> 0 < chain_rank c" by (simp add: chain_done_rank)
  moreover have "chain_ok c \<longrightarrow> chain_ok (terminated_row s reason now c)"
    using d by (simp add: chain_ok_def) (simp add: terminated_row_def)
  ultimately show ?thesis using d by (simp add: chain_evolves_def) (simp add: same_message_def terminated_row_def)
qed

lemma evolves_reopened: "rc_status c = ChResent \<Longrightarrow> chain_evolves c (reopened_row report now c)"
  by (simp add: chain_rules reopened_row_def)

lemma evolves_resent: "rc_status c = ChRetrying \<Longrightarrow> chain_evolves c (resent_row smsc now c)"
  by (simp add: chain_rules resent_row_def)

lemma evolves_claimed: "claimable_chain i c \<Longrightarrow> chain_evolves c (claimed_chain now c)"
  by (auto simp: chain_rules claimed_chain_def claimable_chain_def nat_diff_distrib)

text \<open>A step's effect on the table: rows evolve in place, and at most one new chain is appended.\<close>

definition chains_grow :: "retry_state \<Rightarrow> retry_state \<Rightarrow> bool" where
  "chains_grow st st' \<longleftrightarrow>
     (\<exists>g new. rt_chains st' = map g (rt_chains st) @ new
        \<and> (\<forall>c \<in> set (rt_chains st). chain_evolves c (g c))
        \<and> (new = [] \<and> rt_next st' = rt_next st
           \<or> (\<exists>c. new = [c] \<and> rc_id c = rt_next st \<and> rt_next st' = rt_next st + 1 \<and> chain_ok c
                \<and> rc_origin c \<notin> rc_origin ` set (rt_chains st))))"

lemma chains_grow_same:
  "rt_chains st' = rt_chains st \<Longrightarrow> rt_next st' = rt_next st \<Longrightarrow> chains_grow st st'"
  unfolding chains_grow_def by (rule exI [of _ "\<lambda>c. c"]) (simp add: chain_evolves_refl)

lemma chains_grow_append:
  assumes "rt_chains st' = rt_chains st @ [c]" "rt_next st' = rt_next st + 1" "rc_id c = rt_next st" "chain_ok c"
    and "rc_origin c \<notin> rc_origin ` set (rt_chains st)"
  shows "chains_grow st st'"
  unfolding chains_grow_def
  by (rule exI [of _ "\<lambda>c. c"], rule exI [of _ "[c]"]) (simp add: assms chain_evolves_refl)

lemma chains_grow_update:
  assumes gr: "chains_grow st st1" and "rt_chains st' = update_where P f (rt_chains st1)" "rt_next st' = rt_next st1"
    and f: "\<And>c. c \<in> set (rt_chains st1) \<Longrightarrow> P c \<Longrightarrow> chain_evolves c (f c)"
  shows "chains_grow st st'"
proof -
  let ?h = "\<lambda>c. if P c then f c else c"
  have h: "chain_evolves c (?h c)" if "c \<in> set (rt_chains st1)" for c
    using f [OF that] by (simp add: chain_evolves_refl)
  obtain g new where g: "rt_chains st1 = map g (rt_chains st) @ new" "\<forall>c \<in> set (rt_chains st). chain_evolves c (g c)"
    and new: "new = [] \<and> rt_next st1 = rt_next st
           \<or> (\<exists>c. new = [c] \<and> rc_id c = rt_next st \<and> rt_next st1 = rt_next st + 1 \<and> chain_ok c
                \<and> rc_origin c \<notin> rc_origin ` set (rt_chains st))"
    using gr unfolding chains_grow_def by blast
  have "rt_chains st' = map (\<lambda>c. ?h (g c)) (rt_chains st) @ map ?h new"
    using assms(2) g(1) by (simp add: update_where_def)
  moreover have "chain_evolves c (?h (g c))" if "c \<in> set (rt_chains st)" for c
  proof -
    have "g c \<in> set (rt_chains st1)" using that g(1) by simp
    with g(2) that h show ?thesis by (meson chain_evolves_trans)
  qed
  moreover have "map ?h new = [] \<and> rt_next st' = rt_next st
      \<or> (\<exists>c. map ?h new = [c] \<and> rc_id c = rt_next st \<and> rt_next st' = rt_next st + 1 \<and> chain_ok c
           \<and> rc_origin c \<notin> rc_origin ` set (rt_chains st))"
    using new
  proof (elim disjE exE conjE)
    fix c assume c: "new = [c]" "rc_id c = rt_next st" "rt_next st1 = rt_next st + 1" "chain_ok c"
      "rc_origin c \<notin> rc_origin ` set (rt_chains st)"
    then have "chain_evolves c (?h c)" using h g(1) by auto
    then have "rc_id (?h c) = rc_id c \<and> rc_origin (?h c) = rc_origin c \<and> chain_ok (?h c)"
      using c(4) unfolding chain_evolves_def same_message_def by blast
    with c assms(3) show ?thesis by (intro disjI2 exI [of _ "?h c"]) simp
  qed (use assms(3) in simp)
  ultimately show ?thesis
    unfolding chains_grow_def by (intro exI [of _ "\<lambda>c. ?h (g c)"] exI [of _ "map ?h new"]) blast
qed

definition chains_inv :: "retry_state \<Rightarrow> bool" where
  "chains_inv st \<longleftrightarrow>
     distinct (map rc_id (rt_chains st)) \<and> distinct (map rc_origin (rt_chains st))
     \<and> (\<forall>c \<in> set (rt_chains st). rc_id c < rt_next st \<and> chain_ok c)"

lemma chains_inv_grow:
  assumes inv: "chains_inv st" and "chains_grow st st'"
  shows "chains_inv st'"
proof -
  obtain g new where g: "rt_chains st' = map g (rt_chains st) @ new" "\<forall>c \<in> set (rt_chains st). chain_evolves c (g c)"
    and new: "new = [] \<and> rt_next st' = rt_next st
           \<or> (\<exists>c. new = [c] \<and> rc_id c = rt_next st \<and> rt_next st' = rt_next st + 1 \<and> chain_ok c
                \<and> rc_origin c \<notin> rc_origin ` set (rt_chains st))"
    using assms(2) unfolding chains_grow_def by blast
  have k: "rc_id (g c) = rc_id c" "rc_origin (g c) = rc_origin c" "chain_ok (g c)" if "c \<in> set (rt_chains st)" for c
    using g(2) that inv by (auto simp: chain_evolves_def same_message_def chains_inv_def)
  then have m: "map rc_id (map g (rt_chains st)) = map rc_id (rt_chains st)"
    "map rc_origin (map g (rt_chains st)) = map rc_origin (rt_chains st)"
    by simp_all
  define old where "old = map g (rt_chains st)"
  have ok: "rc_id c < rt_next st \<and> chain_ok c" if "c \<in> set old" for c
    using that inv k by (auto simp: old_def chains_inv_def)
  have m': "map rc_id old = map rc_id (rt_chains st)" "map rc_origin old = map rc_origin (rt_chains st)"
    unfolding old_def by (rule m)+
  have d: "distinct (map rc_id old)" "distinct (map rc_origin old)"
    using inv unfolding m' chains_inv_def by blast+
  from new show ?thesis
  proof (elim disjE exE conjE)
    assume "new = []" "rt_next st' = rt_next st"
    with g(1) d ok show ?thesis by (simp add: chains_inv_def old_def [symmetric])
  next
    fix c assume c: "new = [c]" "rc_id c = rt_next st" "rt_next st' = rt_next st + 1" "chain_ok c"
      "rc_origin c \<notin> rc_origin ` set (rt_chains st)"
    have "rc_id c \<notin> rc_id ` set old" using ok c(2) by (metis imageE less_irrefl)
    moreover have "rc_origin c \<notin> rc_origin ` set old" using c(5) m'(2) by (metis list.set_map)
    moreover have "rt_chains st' = old @ [c]" using g(1) c(1) by (simp add: old_def)
    moreover have "\<forall>x \<in> set (old @ [c]). rc_id x < rt_next st' \<and> chain_ok x" using ok c by (auto simp: less_Suc_eq)
    ultimately show ?thesis unfolding chains_inv_def using d by simp
  qed
qed

subsection \<open>The effect of each operation\<close>

text \<open>The columns of an attempt no later statement changes.\<close>

definition attempt_key :: "attempt_row \<Rightarrow> nat \<times> int \<times> nat option \<times> attempt_outcome \<times> string option" where
  "attempt_key a = (at_chain a, at_no a, at_ref a, at_outcome a, at_smsc a)"

text \<open>What everything but the dispatches leaves alone.\<close>

definition same_dispatch :: "retry_state \<Rightarrow> retry_state \<Rightarrow> bool" where
  "same_dispatch st st' \<longleftrightarrow>
     rt_spool st' = rt_spool st \<and> rt_flights st' = rt_flights st
     \<and> map attempt_key (rt_attempts st') = map attempt_key (rt_attempts st)"

lemma same_dispatch_refl: "same_dispatch st st" by (simp add: same_dispatch_def)

lemma same_dispatch_trans: "same_dispatch a b \<Longrightarrow> same_dispatch b c \<Longrightarrow> same_dispatch a c"
  by (simp add: same_dispatch_def)

lemma submit_job_effect:
  "submit_job env user now q st = Inr (job, st') \<Longrightarrow> \<exists>qu. st' = st\<lparr>rt_queue := qu\<rparr>"
  by (auto simp: submit_job_def split: sum.splits prod.splits)

lemma ensureScanScheduled_effect:
  "ensureScanScheduled env user now d x st = Inr (b, st') \<Longrightarrow> \<exists>qu. st' = st\<lparr>rt_queue := qu\<rparr>"
  by (auto simp: ensureScanScheduled_def bind_result_Inr_iff split: if_splits prod.splits dest: submit_job_effect)
    (metis retry_state.surjective retry_state.update_convs(1))

lemma upsertPolicy_effect:
  "upsertPolicy env user i p now st = Inr st' \<Longrightarrow> \<exists>qu ps. st' = st\<lparr>rt_policies := ps, rt_queue := qu\<rparr>"
  by (auto simp: upsertPolicy_def Let_def bind_result_Inr_iff split: if_splits prod.splits
      dest!: ensureScanScheduled_effect)
    (metis retry_state.surjective retry_state.update_convs(1,3))+

lemma removePolicy_effect: "removePolicy i st = Inr st' \<Longrightarrow> \<exists>ps. st' = st\<lparr>rt_policies := ps\<rparr>"
  by (auto simp: removePolicy_def split: if_splits)

lemma enqueueDispatch_effect:
  assumes "enqueueDispatch env user i n d now st = Inr st'"
  shows "\<exists>qu inp j. st' = update_chain i (\<lambda>c. c\<lparr>rc_job := j, rc_updated := now\<rparr>) (st\<lparr>rt_queue := qu, rt_inputs := inp\<rparr>)"
proof -
  from assms obtain job st1 where s: "submit_job env user now
      \<lparr>rq_type = DELIVERY_RETRY_DISPATCH_JOB_TYPE, rq_input = JObj, rq_key = Some (dispatch_key i n),
       rq_run_at = run_at now d\<rparr> st = Inr (job, st1)"
    and st': "st' = update_chain i (\<lambda>c. c\<lparr>rc_job := Some (jr_id job), rc_updated := now\<rparr>)
      (if jr_id job = qs_next (rt_queue st) then st1\<lparr>rt_inputs := (jr_id job, i) # rt_inputs st1\<rparr> else st1)"
    unfolding enqueueDispatch_def by (auto simp: Let_def elim!: bind_resultE)
  obtain qu where q: "st1 = st\<lparr>rt_queue := qu\<rparr>" using submit_job_effect [OF s] by blast
  show ?thesis
  proof (cases "jr_id job = qs_next (rt_queue st)")
    case True
    then show ?thesis by (intro exI [of _ qu] exI [of _ "(jr_id job, i) # rt_inputs st"] exI [of _ "Some (jr_id job)"])
        (simp add: st' q)
  next
    case False
    then show ?thesis by (intro exI [of _ qu] exI [of _ "rt_inputs st"] exI [of _ "Some (jr_id job)"]) (simp add: st' q)
  qed
qed

lemma submitDispatch_effect:
  assumes "submitDispatch env user key i now st = Inr st'"
  shows "\<exists>qu inp. st' = st\<lparr>rt_queue := qu, rt_inputs := inp\<rparr>"
proof -
  from assms obtain job st1 where s: "submit_job env user now
      \<lparr>rq_type = DELIVERY_RETRY_DISPATCH_JOB_TYPE, rq_input = JObj, rq_key = key, rq_run_at = None\<rparr> st = Inr (job, st1)"
    and st': "st' = (if jr_id job = qs_next (rt_queue st) then st1\<lparr>rt_inputs := (jr_id job, i) # rt_inputs st1\<rparr> else st1)"
    unfolding submitDispatch_def by (auto elim!: bind_resultE)
  obtain qu where q: "st1 = st\<lparr>rt_queue := qu\<rparr>" using submit_job_effect [OF s] by blast
  show ?thesis
  proof (cases "jr_id job = qs_next (rt_queue st)")
    case True
    then show ?thesis by (intro exI [of _ qu] exI [of _ "(jr_id job, i) # rt_inputs st"]) (simp add: st' q)
  next
    case False
    then show ?thesis by (intro exI [of _ qu] exI [of _ "rt_inputs st"]) (simp add: st' q)
  qed
qed

lemma update_chain_simps [simp]:
  "rt_chains (update_chain i f st) = update_where (\<lambda>c. rc_id c = i) f (rt_chains st)"
  "rt_next (update_chain i f st) = rt_next st" "rt_decisions (update_chain i f st) = rt_decisions st"
  "rt_attempts (update_chain i f st) = rt_attempts st" "rt_spool (update_chain i f st) = rt_spool st"
  "rt_flights (update_chain i f st) = rt_flights st" "rt_next_ref (update_chain i f st) = rt_next_ref st"
  "rt_settling (update_chain i f st) = rt_settling st" "rt_queue (update_chain i f st) = rt_queue st"
  "rt_inputs (update_chain i f st) = rt_inputs st" "rt_policies (update_chain i f st) = rt_policies st"
  by (simp_all add: update_chain_def)

lemma note_event_simps [simp]:
  "rt_chains (note_event P e w st) = rt_chains st" "rt_next (note_event P e w st) = rt_next st"
  "rt_decisions (note_event P e w st) = rt_decisions st" "rt_spool (note_event P e w st) = rt_spool st"
  "rt_flights (note_event P e w st) = rt_flights st" "rt_next_ref (note_event P e w st) = rt_next_ref st"
  "rt_settling (note_event P e w st) = rt_settling st" "rt_queue (note_event P e w st) = rt_queue st"
  "rt_inputs (note_event P e w st) = rt_inputs st" "rt_policies (note_event P e w st) = rt_policies st"
  "map attempt_key (rt_attempts (note_event P e w st)) = map attempt_key (rt_attempts st)"
  by (simp_all add: note_event_def attempt_key_def)

lemma chains_grow_chain:
  assumes "chains_grow st st1" and "rt_chains st2 = rt_chains st1" "rt_next st2 = rt_next st1"
    and "\<And>c. c \<in> set (rt_chains st1) \<Longrightarrow> rc_id c = i \<Longrightarrow> chain_evolves c (f c)"
  shows "chains_grow st (update_chain i f st2)"
  using assms(2,3) by (intro chains_grow_update [OF assms(1), of _ "\<lambda>c. rc_id c = i" f] assms(4)) simp_all

lemma terminate_grow:
  assumes "chains_grow st st1" "s \<in> {ChDelivered, ChExhausted, ChAbandoned, ChFailed}"
  shows "chains_grow st (terminate i s reason now st1)"
  unfolding terminate_def by (rule chains_grow_chain [OF assms(1) refl refl evolves_terminated [OF assms(2)]])

lemma enqueueDispatch_grow:
  assumes "enqueueDispatch env user i n d now st1 = Inr st'" and "chains_grow st st1"
  shows "chains_grow st st' \<and> same_dispatch st1 st' \<and> rt_decisions st' = rt_decisions st1
    \<and> rt_next_ref st' = rt_next_ref st1 \<and> rt_settling st' = rt_settling st1"
proof -
  obtain qu inp j where s: "st' = update_chain i (\<lambda>c. c\<lparr>rc_job := j, rc_updated := now\<rparr>) (st1\<lparr>rt_queue := qu, rt_inputs := inp\<rparr>)"
    using enqueueDispatch_effect [OF assms(1)] by blast
  have "chains_grow st st'" unfolding s by (rule chains_grow_chain [OF assms(2) _ _ evolves_job]) simp_all
  then show ?thesis by (simp add: s same_dispatch_def)
qed

lemma row_by_resent:
  assumes "chains_inv st" "row_by rc_id i (rt_chains st) = Some c" "x \<in> set (rt_chains st)" "rc_id x = rc_id c"
  shows "x = c"
  using assms distinct_keys_unique [of rc_id "rt_chains st" x c] row_by_Some [OF assms(2)] by (simp add: chains_inv_def)

definition ingest_effect :: "retry_state \<Rightarrow> retry_state \<Rightarrow> bool" where
  "ingest_effect st st' \<longleftrightarrow>
     chains_grow st st' \<and> same_dispatch st st' \<and> rt_decisions st' = rt_decisions st
     \<and> rt_next_ref st' = rt_next_ref st \<and> rt_settling st' = rt_settling st"

lemma continueChain_effect:
  assumes inv: "chains_inv st" and c: "continueChain env user a report now st = Inr (out, st')"
  shows "ingest_effect st st' \<and> rt_next st' = rt_next st"
proof -
  define st1 where "st1 = note_event (is_attempt (at_chain a) (at_no a)) (dr_dlrEvent report) (dr_dlrAt report) st"
  have same: "same_dispatch st st1" by (simp add: same_dispatch_def st1_def)
  have g1: "chains_grow st st1" by (rule chains_grow_same) (simp_all add: st1_def)
  have e1: "rt_decisions st1 = rt_decisions st" "rt_next_ref st1 = rt_next_ref st" "rt_settling st1 = rt_settling st"
    "rt_next st1 = rt_next st" "rt_chains st1 = rt_chains st"
    by (simp_all add: st1_def)
  show ?thesis
  proof (cases "row_by rc_id (at_chain a) (rt_chains st1)")
    case None
    with c have "st' = st1" by (simp add: continueChain_def Let_def st1_def)
    with same g1 e1 show ?thesis by (simp add: ingest_effect_def)
  next
    case (Some r)
    note row = this
    show ?thesis
    proof (cases "rc_status r \<noteq> ChResent")
      case True
      with c Some have "st' = st1" by (simp add: continueChain_def Let_def st1_def)
      with same g1 e1 show ?thesis by (simp add: ingest_effect_def)
    next
      case False
      then have res: "rc_status r = ChResent" by simp
      show ?thesis
      proof (cases "rc_attempts r \<ge> rc_max r")
        case True
        let ?t = "terminate (rc_id r) ChExhausted (ReAlsoFailed (rc_attempts r) (rc_max r) (dr_dlrEvent report)) now st1"
        from True c Some res have "st' = ?t" by (simp add: continueChain_def Let_def st1_def)
        moreover have "chains_grow st ?t" by (rule terminate_grow [OF g1]) simp
        ultimately show ?thesis using same e1 by (simp add: ingest_effect_def terminate_def same_dispatch_def)
      next
        case False
        define st2 where "st2 = update_chain (rc_id r) (reopened_row report now) st1"
        let ?p = "resolveRetryPolicy (policyRows st2) (Some (nr_smscId report)) (rc_customer r)"
        have g2: "chains_grow st st2"
          unfolding st2_def
        proof (rule chains_grow_chain [OF g1 refl refl])
          fix x assume "x \<in> set (rt_chains st1)" "rc_id x = rc_id r"
          with row_by_resent [OF inv] row e1(5) have "x = r" by metis
          with res evolves_reopened show "chain_evolves x (reopened_row report now x)" by blast
        qed
        from False c Some res obtain st3 where
          "enqueueDispatch env user (rc_id r) (rc_attempts r + 1) (rp_minDelaySeconds ?p) now st2 = Inr st3" "st' = st3"
          unfolding continueChain_def Let_def st1_def [symmetric] by (auto simp: st2_def elim!: bind_resultE)
        with enqueueDispatch_grow [OF this(1) g2] enqueueDispatch_effect [OF this(1)] same e1 show ?thesis
          by (auto simp: ingest_effect_def same_dispatch_def st2_def)
      qed
    qed
  qed
qed

lemma classifyReport_event:
  "classifyReport dp p r now = Retry \<or> classifyReport dp p r now = NoRetry True reason \<Longrightarrow>
     dr_dlrEvent r \<in> {DLR_EVENT_FAILED, DLR_EVENT_REJECTED}"
  by (auto simp: classifyReport_def Let_def split: if_splits option.splits)

lemma resolveRetryPolicy_budget:
  assumes "list_all policy_checks rows"
  shows "1 \<le> rp_maxAttempts (resolveRetryPolicy rows s c) \<and> rp_maxAttempts (resolveRetryPolicy rows s c) \<le> 5"
proof (cases "scoped_row rows s c")
  case None
  then show ?thesis by (simp add: resolveRetryPolicy_def DELIVERY_RETRY_DEFAULTS_def)
next
  case (Some r)
  then have "r \<in> set rows"
    by (auto simp: scoped_row_def tenant_row_def dest: find_some_props split: option.splits if_splits)
  with assms have "policy_checks r" by (simp add: list_all_iff)
  with Some show ?thesis by (simp add: resolveRetryPolicy_def fromRow_def policy_checks_def)
qed

lemma opened_chain_ok:
  assumes "1 \<le> rp_maxAttempts p" "rp_maxAttempts p \<le> 5" "dr_dlrEvent report \<in> {DLR_EVENT_FAILED, DLR_EVENT_REJECTED}"
  shows "chain_ok (opened_chain i report d p declined now)"
  using assms by (cases declined) (simp_all add: chain_ok_def opened_chain_def chain_done_def)

lemma open_chain_effect:
  assumes o: "open_chain env user report d p declined now st = Inr (out, st')"
    and ok: "1 \<le> rp_maxAttempts p" "rp_maxAttempts p \<le> 5" "dr_dlrEvent report \<in> {DLR_EVENT_FAILED, DLR_EVENT_REJECTED}"
  shows "ingest_effect st st' \<and> (out = Opened \<longrightarrow> rt_next st' = rt_next st + 1 \<and> length (rt_chains st') = length (rt_chains st) + 1)
    \<and> (out \<noteq> Opened \<longrightarrow> out = Duplicate \<and> st' = st)
    \<and> rc_origin ` set (rt_chains st') \<subseteq> insert (nr_foreignId report) (rc_origin ` set (rt_chains st))"
proof (cases "list_ex (\<lambda>c. rc_origin c = nr_foreignId report) (rt_chains st)")
  case True
  with o show ?thesis
    by (simp add: open_chain_def ingest_effect_def same_dispatch_refl chains_grow_same subset_insertI)
next
  case False
  define i where "i = rt_next st"
  define st1 where "st1 = st\<lparr>rt_chains := rt_chains st @ [opened_chain i report d p declined now], rt_next := i + 1\<rparr>"
  have same: "same_dispatch st st1" "rt_decisions st1 = rt_decisions st" "rt_next_ref st1 = rt_next_ref st"
    "rt_settling st1 = rt_settling st" "rt_next st1 = rt_next st + 1" "length (rt_chains st1) = length (rt_chains st) + 1"
    by (simp_all add: same_dispatch_def st1_def i_def)
  have org: "rc_origin ` set (rt_chains st1) = insert (nr_foreignId report) (rc_origin ` set (rt_chains st))"
    by (simp add: st1_def opened_chain_def)
  have new: "rc_origin (opened_chain i report d p declined now) = nr_foreignId report"
    "rc_id (opened_chain i report d p declined now) = i"
    by (simp_all add: opened_chain_def)
  have g: "chains_grow st st1"
    by (rule chains_grow_append [of _ _ "opened_chain i report d p declined now"])
      (use False opened_chain_ok [OF ok] new in \<open>auto simp: st1_def i_def list_ex_iff\<close>)
  show ?thesis
  proof (cases declined)
    case None
    from None False o obtain st2 where
      e: "enqueueDispatch env user i 1 (rp_minDelaySeconds p) now st1 = Inr st2" "st' = st2" "out = Opened"
      unfolding open_chain_def Let_def i_def [symmetric] st1_def [symmetric] by (auto elim!: bind_resultE)
    obtain qu inp j where s: "st2 = update_chain i (\<lambda>c. c\<lparr>rc_job := j, rc_updated := now\<rparr>) (st1\<lparr>rt_queue := qu, rt_inputs := inp\<rparr>)"
      using enqueueDispatch_effect [OF e(1)] by blast
    have "map rc_origin (rt_chains st2) = map rc_origin (rt_chains st1)" by (simp add: s)
    then have "rc_origin ` set (rt_chains st2) = rc_origin ` set (rt_chains st1)" by (metis list.set_map)
    moreover have "rt_next st2 = rt_next st1" "length (rt_chains st2) = length (rt_chains st1)" by (simp_all add: s)
    moreover have "same_dispatch st st2" "chains_grow st st2" "rt_decisions st2 = rt_decisions st1"
      "rt_next_ref st2 = rt_next_ref st1" "rt_settling st2 = rt_settling st1"
      using enqueueDispatch_grow [OF e(1) g] same_dispatch_trans [OF same(1)] by blast+
    ultimately show ?thesis using same(2-) e(2,3) org by (simp add: ingest_effect_def)
  next
    case (Some r)
    with False o have "st' = st1" "out = Opened"
      by (simp_all add: open_chain_def Let_def st1_def i_def)
    with g same org show ?thesis by (simp add: ingest_effect_def)
  qed
qed

lemma chains_grow_origins:
  assumes "chains_grow st st'" "rt_next st' = rt_next st"
  shows "rc_origin ` set (rt_chains st') = rc_origin ` set (rt_chains st) \<and> length (rt_chains st') = length (rt_chains st)"
proof -
  obtain g where g: "rt_chains st' = map g (rt_chains st)" "\<forall>c \<in> set (rt_chains st). chain_evolves c (g c)"
    using assms unfolding chains_grow_def by auto
  then have "\<forall>c \<in> set (rt_chains st). rc_origin (g c) = rc_origin c" by (auto simp: chain_evolves_def same_message_def)
  with g(1) show ?thesis by (auto simp: image_image)
qed

text \<open>A report opens a chain only for a message with a committed decision and no attempt of its own.\<close>

lemma ingestReport_effect:
  assumes inv: "chains_inv st" and ps: "list_all policy_checks policies"
    and r: "ingestReport env user report policies now st = Inr (out, st')"
  shows "ingest_effect st st'
    \<and> length (rt_chains st') = length (rt_chains st) + (if out = Opened then 1 else 0)
    \<and> (\<forall>o' \<in> rc_origin ` set (rt_chains st'). o' \<in> rc_origin ` set (rt_chains st)
         \<or> o' \<in> sd_ref ` set (rt_decisions st) \<and> Some o' \<notin> at_ref ` set (rt_attempts st))"
proof (cases "find (\<lambda>a. at_ref a = Some (nr_foreignId report)) (rt_attempts st)")
  case (Some a)
  with r have c: "continueChain env user a report now st = Inr (out, st')" by (simp add: ingestReport_def)
  have "out \<noteq> Opened" using c
    by (auto simp: continueChain_def Let_def split: option.splits if_splits elim!: bind_resultE)
  with continueChain_effect [OF inv c] chains_grow_origins [of st st'] show ?thesis by (auto simp: ingest_effect_def)
next
  case None
  note no_attempt = this
  then have na: "Some (nr_foreignId report) \<notin> at_ref ` set (rt_attempts st)" by (auto simp: find_None_iff)
  show ?thesis
  proof (cases "find_decision (nr_foreignId report) (rt_decisions st)")
    case None
    with no_attempt r show ?thesis
      by (auto simp: ingestReport_def ingest_effect_def same_dispatch_refl chains_grow_same)
  next
    case (Some d)
    then have d: "nr_foreignId report \<in> sd_ref ` set (rt_decisions st)"
      by (force simp: find_decision_def dest: find_some_props)
    let ?p = "resolveRetryPolicy policies (Some (nr_smscId report)) (sd_customer d)"
    let ?v = "classifyReport (re_dateParse env) ?p (delivery_report.truncate report) now"
    have ev: "dr_dlrEvent report \<in> {DLR_EVENT_FAILED, DLR_EVENT_REJECTED}" if "?v = Retry \<or> ?v = NoRetry True why" for why
      using classifyReport_event [OF that] by (simp add: delivery_report.truncate_def)
    have open_case: ?thesis if "open_chain env user report d ?p declined now st = Inr (out, st')"
      "?v = Retry \<or> ?v = NoRetry True why" for declined why
    proof -
      have b: "1 \<le> rp_maxAttempts ?p" "rp_maxAttempts ?p \<le> 5" using resolveRetryPolicy_budget [OF ps] by blast+
      from open_chain_effect [OF that(1) b ev [OF that(2)]] d na show ?thesis by (cases "out = Opened") auto
    qed
    show ?thesis
    proof (cases ?v)
      case Retry
      with no_attempt Some r have "open_chain env user report d ?p None now st = Inr (out, st')"
        by (simp add: ingestReport_def Let_def)
      then show ?thesis by (rule open_case) (simp add: Retry)
    next
      case (NoRetry rec why)
      show ?thesis
      proof (cases rec)
        case True
        with NoRetry no_attempt Some r have "open_chain env user report d ?p (Some why) now st = Inr (out, st')"
          by (simp add: ingestReport_def Let_def)
        then show ?thesis by (rule open_case) (simp add: NoRetry True)
      next
        case False
        with NoRetry no_attempt Some r show ?thesis
          by (auto simp: ingestReport_def Let_def ingest_effect_def same_dispatch_refl chains_grow_same)
      qed
    qed
  qed
qed

subsection \<open>Dispatch steps\<close>

text \<open>The attempt a flight holds but has not spooled, and the spooled message it has not committed.\<close>

definition flight_token :: "dispatch_flight \<Rightarrow> (nat \<times> int) list" where
  "flight_token f =
     (case df_stage f of
        StClaimed n \<Rightarrow> [(rc_id (df_chain f), n)]
      | StSending n _ \<Rightarrow> [(rc_id (df_chain f), n)]
      | _ \<Rightarrow> [])"

definition flight_ref :: "dispatch_flight \<Rightarrow> nat list" where
  "flight_ref f = (case df_stage f of StSpooled _ _ r \<Rightarrow> [r] | _ \<Rightarrow> [])"

definition closing_ok :: "dispatch_flight \<Rightarrow> bool" where
  "closing_ok f \<longleftrightarrow>
     (case df_stage f of StClosing s _ \<Rightarrow> s \<in> {ChDelivered, ChExhausted, ChAbandoned, ChFailed} | _ \<Rightarrow> True)"

lemmas stage_rules = flight_token_def flight_ref_def closing_ok_def

text \<open>A step that changes nothing but the stage.\<close>

definition stage_moves :: "dispatch_flight \<Rightarrow> dispatch_flight \<Rightarrow> bool" where
  "stage_moves f f' \<longleftrightarrow>
     df_chain f' = df_chain f \<and> closing_ok f' \<and> (flight_token f' = [] \<or> flight_token f' = flight_token f)
     \<and> flight_ref f' = []"

definition committed :: "dispatch_flight \<Rightarrow> int \<Rightarrow> bind_selection \<Rightarrow> nat \<Rightarrow> nat \<Rightarrow> int \<Rightarrow> retry_state \<Rightarrow> retry_state" where
  "committed f n sel ref decisionId now st = snd (commit_attempt f n sel ref decisionId now st)"

lemma dispatch_step_cases:
  assumes "dispatch_step env ev f st = Some (fo, st')"
  shows "(\<exists>f'. fo = Some f' \<and> st' = st \<and> stage_moves f f')
    \<or> (\<exists>c now. df_stage f = StCleared \<and> c \<in> set (rt_chains st) \<and> claimable_chain (rc_id (df_chain f)) c
         \<and> fo = Some (f\<lparr>df_stage := StClaimed (rc_attempts c + 1)\<rparr>)
         \<and> st' = st\<lparr>rt_chains := update_where (claimable_chain (rc_id (df_chain f))) (claimed_chain now) (rt_chains st)\<rparr>)
    \<or> (\<exists>n sel. df_stage f = StSending n sel \<and> fo = Some (fst (spool_retry f n sel st)) \<and> st' = snd (spool_retry f n sel st))
    \<or> (\<exists>n sel ref decisionId now. df_stage f = StSpooled n sel ref
         \<and> list_ex (\<lambda>c. rc_id c = rc_id (df_chain f) \<and> rc_status c = ChRetrying \<and> rc_attempts c = n) (rt_chains st)
         \<and> \<not> list_ex (\<lambda>a. is_attempt (rc_id (df_chain f)) n a \<or> at_ref a = Some ref) (rt_attempts st)
         \<and> fo = Some (f\<lparr>df_stage := StSubmitted n sel\<rparr>) \<and> st' = committed f n sel ref decisionId now st)
    \<or> (\<exists>as extra. st' = st\<lparr>rt_attempts := as @ extra\<rparr> \<and> map attempt_key as = map attempt_key (rt_attempts st)
         \<and> (\<forall>a \<in> set extra. at_ref a = None \<and> at_outcome a \<noteq> AtSubmitted)
         \<and> (\<forall>f'. fo = Some f' \<longrightarrow> df_chain f' = df_chain f \<and> closing_ok f' \<and> flight_token f' = [] \<and> flight_ref f' = []))
    \<or> (\<exists>s reason now. df_stage f = StClosing s reason \<and> fo = None \<and> st' = terminate (rc_id (df_chain f)) s reason now st)"
    (is "?move \<or> ?claim \<or> ?spool \<or> ?commit \<or> ?table \<or> ?close")
proof (cases ev)
  case (REngine x events)
  with assms have "fo = Some (check_engine f events) \<and> st' = st"
    by (auto simp: dispatch_step_def goes_def split: if_splits)
  moreover have "stage_moves f (check_engine f events)"
    by (simp add: stage_moves_def check_engine_def stage_rules split: option.split)
  ultimately show ?thesis by blast
next
  case (RClaim x now)
  with assms have st: "df_stage f = StCleared" and p: "(fo, st') = (Some (fst (claim_attempt f now st)), snd (claim_attempt f now st))"
    by (auto simp: dispatch_step_def goes_def split: if_splits)
  show ?thesis
  proof (cases "returning (claimable_chain (rc_id (df_chain f))) (claimed_chain now) (rt_chains st)")
    case Nil
    then have "stage_moves f (fst (claim_attempt f now st)) \<and> snd (claim_attempt f now st) = st"
      by (simp add: claim_attempt_def Let_def stage_moves_def stage_rules)
    with p show ?thesis by auto
  next
    case (Cons c cs)
    then have "c \<in> set (returning (claimable_chain (rc_id (df_chain f))) (claimed_chain now) (rt_chains st))" by simp
    then obtain c0 where c0: "c0 \<in> set (rt_chains st)" "claimable_chain (rc_id (df_chain f)) c0" "c = claimed_chain now c0"
      by (auto simp: returning_def)
    then have "rc_attempts c = rc_attempts c0 + 1" by (simp add: claimed_chain_def)
    with p Cons st c0 have ?claim
      by (intro exI [of _ c0] exI [of _ now]) (simp add: claim_attempt_def Let_def)
    then show ?thesis by blast
  qed
next
  case (RChoose x bc now)
  with assms obtain n where st: "df_stage f = StClaimed n"
    and "fo = Some (choose_stage n (chooseBind env f bc now st) f) \<and> st' = st"
    by (auto simp: dispatch_step_def goes_def split: dispatch_stage.splits)
  moreover have "stage_moves f (choose_stage n sel f)" for sel
    using st by (simp add: stage_moves_def choose_stage_def stage_rules)
  ultimately show ?thesis by blast
next
  case (RSpool x)
  with assms have ?spool by (auto simp: dispatch_step_def goes_def split: dispatch_stage.splits)
  then show ?thesis by blast
next
  case (RRefuse x message)
  with assms obtain n sel where "fo = Some (f\<lparr>df_stage := StRefusing n sel (SfMessage message)\<rparr>) \<and> st' = st"
    by (auto simp: dispatch_step_def refuse_stage_def split: dispatch_stage.splits)
  moreover have "stage_moves f (f\<lparr>df_stage := StRefusing n sel e\<rparr>)" for e
    by (simp add: stage_moves_def stage_rules)
  ultimately show ?thesis by blast
next
  case (RCommit x decisionId now)
  with assms obtain n sel ref where st: "df_stage f = StSpooled n sel ref"
    and p: "fo = Some (fst (commit_attempt f n sel ref decisionId now st))" "st' = snd (commit_attempt f n sel ref decisionId now st)"
    by (auto simp: dispatch_step_def goes_def split: dispatch_stage.splits)
  show ?thesis
  proof (cases "list_ex (\<lambda>c. rc_id c = rc_id (df_chain f) \<and> rc_status c = ChRetrying \<and> rc_attempts c = n) (rt_chains st)
      \<and> \<not> list_ex (\<lambda>a. is_attempt (rc_id (df_chain f)) n a \<or> at_ref a = Some ref) (rt_attempts st)")
    case True
    with st p have ?commit
      by (intro exI [of _ n] exI [of _ sel] exI [of _ ref] exI [of _ decisionId] exI [of _ now])
        (simp add: commit_attempt_def Let_def committed_def)
    then show ?thesis by blast
  next
    case False
    then have "snd (commit_attempt f n sel ref decisionId now st) = st
        \<and> stage_moves f (fst (commit_attempt f n sel ref decisionId now st))"
      by (auto simp: commit_attempt_def Let_def stage_moves_def stage_rules)
    with p show ?thesis by blast
  qed
next
  case (RCharge x charged)
  with assms obtain n where "fo = None" "st' = record_charge f n charged st"
    by (auto simp: dispatch_step_def split: dispatch_stage.splits)
  then have ?table
    by (intro exI [of _ "rt_attempts st'"] exI [of _ "[]"]) (simp add: record_charge_def attempt_key_def)
  then show ?thesis by blast
next
  case (RRecord x lost now)
  with assms obtain n sel out reason s why where o: "fo = Some (f\<lparr>df_stage := StClosing s why\<rparr>)"
      "st' = recordAttempt f n sel out reason lost now st" "out \<noteq> AtSubmitted" "s \<in> {ChExhausted, ChFailed}"
    by (auto simp: dispatch_step_def goes_def split: dispatch_stage.splits)
  have ?table
  proof (cases "lost \<or> list_ex (is_attempt (rc_id (df_chain f)) n) (rt_attempts st)")
    case True
    with o have "st' = st" by (simp add: recordAttempt_def)
    with o show ?thesis by (intro exI [of _ "rt_attempts st"] exI [of _ "[]"]) (auto simp: stage_rules)
  next
    case False
    with o have "st' = st\<lparr>rt_attempts := rt_attempts st @ [attempt_of (rc_id (df_chain f)) n sel out None None reason now]\<rparr>"
      by (simp add: recordAttempt_def)
    with o show ?thesis
      by (intro exI [of _ "rt_attempts st"] exI [of _ "[attempt_of (rc_id (df_chain f)) n sel out None None reason now]"])
        (auto simp: stage_rules attempt_of_def)
  qed
  then show ?thesis by blast
next
  case (RClose x now)
  with assms have ?close by (auto simp: dispatch_step_def split: dispatch_stage.splits)
  then show ?thesis by blast
next
  case (RDie x)
  with assms have ?table
    by (intro exI [of _ "rt_attempts st"] exI [of _ "[]"]) (simp add: dispatch_step_def)
  then show ?thesis by blast
qed (use assms in \<open>simp_all add: dispatch_step_def\<close>)

subsection \<open>Machine steps\<close>

definition attempt_refs :: "retry_state \<Rightarrow> nat list" where
  "attempt_refs st =
     concat (map (\<lambda>(i, n, r, w, s). case r of None \<Rightarrow> [] | Some x \<Rightarrow> [x]) (map attempt_key (rt_attempts st)))"

lemma attempt_refs_set: "set (attempt_refs st) = {r. Some r \<in> at_ref ` set (rt_attempts st)}"
  by (force simp: attempt_refs_def attempt_key_def split: option.splits)

definition table_step :: "retry_state \<Rightarrow> retry_state \<Rightarrow> bool" where
  "table_step st st' \<longleftrightarrow>
     chains_grow st st' \<and> same_dispatch st st' \<and> rt_decisions st' = rt_decisions st
     \<and> rt_next_ref st' = rt_next_ref st
     \<and> (\<forall>r \<in> rc_origin ` set (rt_chains st'). r \<in> rc_origin ` set (rt_chains st)
          \<or> r \<in> sd_ref ` set (rt_decisions st) \<and> r \<notin> set (attempt_refs st))"

lemma table_step_frame:
  assumes "rt_chains st' = rt_chains st" "rt_next st' = rt_next st" "rt_spool st' = rt_spool st"
    "rt_flights st' = rt_flights st" "rt_attempts st' = rt_attempts st" "rt_decisions st' = rt_decisions st"
    "rt_next_ref st' = rt_next_ref st"
  shows "table_step st st'"
  using assms by (simp add: table_step_def chains_grow_same same_dispatch_def)

definition with_flight :: "dispatch_flight option \<Rightarrow> retry_state \<Rightarrow> retry_state" where
  "with_flight fo st = (case fo of None \<Rightarrow> st | Some f \<Rightarrow> st\<lparr>rt_flights := rt_flights st @ [f]\<rparr>)"

lemma resume_cases:
  assumes "resume x k st = Some t"
  shows "\<exists>fo st1. x < length (rt_flights st)
    \<and> k (rt_flights st ! x) (st\<lparr>rt_flights := drop_index x (rt_flights st)\<rparr>) = Some (fo, st1) \<and> t = with_flight fo st1"
  using assms by (auto simp: resume_def with_flight_def split: if_splits option.splits prod.splits)

lemma load_dispatch_cases:
  assumes "load_dispatch i st = Some f"
  shows "df_chain f \<in> set (rt_chains st) \<and> rc_id (df_chain f) = i
    \<and> (rc_status (df_chain f) = ChPending \<or> rc_status (df_chain f) = ChRetrying)
    \<and> closing_ok f \<and> flight_token f = [] \<and> flight_ref f = []"
  using assms by (auto simp: load_dispatch_def Let_def stage_rules split: option.splits if_splits dest: row_by_Some)

lemma start_step_cases:
  assumes "start_step x st = Some t"
  shows "t = st \<or> (\<exists>i f. x < length (qs_running (rt_queue st)) \<and> map_of (rt_inputs st) (jr_id (qs_running (rt_queue st) ! x)) = Some i
    \<and> load_dispatch i st = Some f \<and> t = st\<lparr>rt_flights := rt_flights st @ [f]\<rparr>)"
proof -
  from assms have x: "x < length (qs_running (rt_queue st))" by (simp add: start_step_def split: if_splits)
  with assms obtain i where i: "map_of (rt_inputs st) (jr_id (qs_running (rt_queue st) ! x)) = Some i"
    by (cases "map_of (rt_inputs st) (jr_id (qs_running (rt_queue st) ! x))") (simp_all add: start_step_def)
  show ?thesis
  proof (cases "load_dispatch i st")
    case None
    with assms x i show ?thesis by (simp add: start_step_def)
  next
    case (Some f)
    with assms x i show ?thesis by (simp add: start_step_def)
  qed
qed

lemma settle_entry_with_step: "chains_grow st (settle_entry_with s e now st) \<and> same_dispatch st (settle_entry_with s e now st)
    \<and> rt_decisions (settle_entry_with s e now st) = rt_decisions st
    \<and> rt_next_ref (settle_entry_with s e now st) = rt_next_ref st
    \<and> rt_next (settle_entry_with s e now st) = rt_next st
    \<and> rt_settling (settle_entry_with s e now st) = rt_settling st"
proof -
  have "chains_grow st (note_event P x w st)" for P x w by (rule chains_grow_same) simp_all
  then have "chains_grow st (terminate i ChDelivered r now (note_event P x w st))" for i r P x w
    by (rule terminate_grow) simp
  then show ?thesis
    by (auto simp: settle_entry_with_def same_dispatch_def terminate_def chains_grow_same split: option.split)
qed

lemma same_origins_step:
  assumes "chains_grow st st'" "rt_next st' = rt_next st" "same_dispatch st st'" "rt_decisions st' = rt_decisions st"
    "rt_next_ref st' = rt_next_ref st"
  shows "table_step st st'"
  using assms chains_grow_origins [OF assms(1,2)] by (simp add: table_step_def)

lemma map_sum_snd_Inr: "map_sum id snd r = Inr b \<longleftrightarrow> (\<exists>a. r = Inr (a, b))"
  by (cases r) (auto simp: prod_eq_iff)

lemma retry_step_cases:
  assumes inv: "chains_inv st" and step: "retry_step env ev st = Some t"
  shows "table_step st t
    \<or> (\<exists>d. t = send_commit d st)
    \<or> (\<exists>i f. load_dispatch i st = Some f \<and> t = st\<lparr>rt_flights := rt_flights st @ [f]\<rparr>)
    \<or> (\<exists>x fo st1. x < length (rt_flights st)
         \<and> dispatch_step env ev (rt_flights st ! x) (st\<lparr>rt_flights := drop_index x (rt_flights st)\<rparr>) = Some (fo, st1)
         \<and> t = with_flight fo st1)"
proof -
  have dis: ?thesis if "resume x (dispatch_step env ev) st = Some t" for x
    using resume_cases [OF that] by blast
  have fr: "table_step st (kept st r)" if "\<And>st'. r = Inr st' \<Longrightarrow> table_step st st'" for r :: "('e, retry_state) result"
    using that by (cases r) (auto simp: kept_def table_step_frame)
  show ?thesis
  proof (cases ev)
    case (RPolicy user i p now)
    have "table_step st (kept st (upsertPolicy env user i p now st))"
    proof (rule fr)
      fix st' assume "upsertPolicy env user i p now st = Inr st'"
      from upsertPolicy_effect [OF this] obtain qu ps where "st' = st\<lparr>rt_policies := ps, rt_queue := qu\<rparr>" by blast
      then show "table_step st st'" by (simp add: table_step_frame)
    qed
    with step RPolicy show ?thesis by (simp add: retry_step_def)
  next
    case (RRemovePolicy i)
    have "table_step st (kept st (removePolicy i st))"
    proof (rule fr)
      fix st' assume "removePolicy i st = Inr st'"
      from removePolicy_effect [OF this] obtain ps where "st' = st\<lparr>rt_policies := ps\<rparr>" by blast
      then show "table_step st st'" by (simp add: table_step_frame)
    qed
    with step RRemovePolicy show ?thesis by (simp add: retry_step_def)
  next
    case (RPoll s)
    have "table_step st (kept st (setPollInterval s st))"
    proof (rule fr)
      fix st' assume "setPollInterval s st = Inr st'"
      then obtain r where "st' = st\<lparr>rt_scan := r\<rparr>" by (auto simp: setPollInterval_def split: if_splits)
      then show "table_step st st'" by (simp add: table_step_frame)
    qed
    with step RPoll show ?thesis by (simp add: retry_step_def)
  next
    case (RScheduleScan user now d exclude)
    have "table_step st (kept st (map_sum id snd (ensureScanScheduled env user now d exclude st)))"
    proof (rule fr)
      fix st' assume "map_sum id snd (ensureScanScheduled env user now d exclude st) = Inr st'"
      then obtain b where "ensureScanScheduled env user now d exclude st = Inr (b, st')"
        unfolding map_sum_snd_Inr ..
      from ensureScanScheduled_effect [OF this] obtain qu where "st' = st\<lparr>rt_queue := qu\<rparr>" by blast
      then show "table_step st st'" by (simp add: table_step_frame)
    qed
    with step RScheduleScan show ?thesis by (simp add: retry_step_def)
  next
    case (RRecordScan w e seen opened now)
    with step have "t = recordScan w e seen opened now st" by (simp add: retry_step_def)
    then have "table_step st t" by (simp add: recordScan_def Let_def table_step_frame)
    then show ?thesis ..
  next
    case (RSend d)
    with step show ?thesis by (auto simp: retry_step_def)
  next
    case (RIngest user report policies now)
    with step have ps: "list_all policy_checks policies"
      and t: "t = kept st (map_sum id snd (ingestReport env user report policies now st))"
      by (auto simp: retry_step_def split: if_splits)
    have "table_step st t" unfolding t
    proof (rule fr)
      fix st' assume "map_sum id snd (ingestReport env user report policies now st) = Inr st'"
      then obtain out where "ingestReport env user report policies now st = Inr (out, st')"
        unfolding map_sum_snd_Inr ..
      from ingestReport_effect [OF inv ps this] show "table_step st st'"
        by (simp add: table_step_def ingest_effect_def attempt_refs_set)
    qed
    then show ?thesis ..
  next
    case (RReadResent limit)
    with step have "t = st\<lparr>rt_settling := rt_settling st @ read_resent limit st\<rparr>" by (simp add: retry_step_def)
    then have "table_step st t" by (simp add: table_step_frame)
    then show ?thesis ..
  next
    case (RSettle x event now)
    define st0 where "st0 = st\<lparr>rt_settling := drop_index x (rt_settling st)\<rparr>"
    from step RSettle have t: "t = settle_entry_with (rt_settling st ! x) event now st0"
      by (auto simp: retry_step_def settle_step_def st0_def split: if_splits)
    have "table_step st0 t"
      unfolding t using settle_entry_with_step [of st0 "rt_settling st ! x" event now] by (intro same_origins_step) blast+
    then have "table_step st t"
      by (simp add: table_step_def chains_grow_def same_dispatch_def attempt_refs_def st0_def)
    then show ?thesis ..
  next
    case (RStart x)
    with step have "start_step x st = Some t" by (simp add: retry_step_def)
    from start_step_cases [OF this] show ?thesis
    proof
      assume "t = st"
      then show ?thesis by (simp add: table_step_frame)
    qed blast
  next
    case (RSubmit user key i now)
    have "table_step st (kept st (submitDispatch env user key i now st))"
    proof (rule fr)
      fix st' assume "submitDispatch env user key i now st = Inr st'"
      from submitDispatch_effect [OF this] obtain qu inp where "st' = st\<lparr>rt_queue := qu, rt_inputs := inp\<rparr>" by blast
      then show "table_step st st'" by (simp add: table_step_frame)
    qed
    with step RSubmit show ?thesis by (simp add: retry_step_def)
  next
    case (RQueue q)
    with step obtain s where "t = st\<lparr>rt_queue := s\<rparr>" by (auto simp: retry_step_def)
    then have "table_step st t" by (simp add: table_step_frame)
    then show ?thesis ..
  qed (use step dis in \<open>simp_all add: retry_step_def\<close>)
qed

end
