(* ===== verification/RetryBudget.thy ===== *)
theory RetryBudget
  imports RetryInvariants
begin

section \<open>Retry chains: the budget of sends and the end of a chain\<close>

text \<open>
  The invariant of the retry machine and what it gives: no message is re-sent more often than its
  budget, no retry is mistaken for a message of its own, rows stay well formed, and every chain moves
  a bounded number of times.
\<close>

subsection \<open>The invariant\<close>

definition tokens :: "retry_state \<Rightarrow> (nat \<times> int) list" where
  "tokens st = map (\<lambda>e. (sp_chain e, sp_no e)) (rt_spool st) @ concat (map flight_token (rt_flights st))"

text \<open>Every message spooled, and every attempt claimed and not yet spooled, is a claim of its own.\<close>

definition tokens_ok :: "retry_state \<Rightarrow> bool" where
  "tokens_ok st \<longleftrightarrow>
     distinct (tokens st)
     \<and> (\<forall>(i, n) \<in> set (tokens st). \<exists>c \<in> set (rt_chains st). rc_id c = i \<and> 1 \<le> n \<and> n \<le> rc_attempts c)"

text \<open>The identifiers the engine gave: of committed sends, then of messages spooled and not committed.\<close>

definition sent_refs :: "retry_state \<Rightarrow> nat list" where
  "sent_refs st = map sd_ref (rt_decisions st) @ concat (map flight_ref (rt_flights st))"

definition refs_ok :: "retry_state \<Rightarrow> bool" where
  "refs_ok st \<longleftrightarrow>
     distinct (sent_refs st) \<and> (\<forall>r \<in> set (sent_refs st). r < rt_next_ref st)
     \<and> distinct (attempt_refs st) \<and> set (attempt_refs st) \<subseteq> sd_ref ` set (rt_decisions st)
     \<and> rc_origin ` set (rt_chains st) \<subseteq> sd_ref ` set (rt_decisions st)
     \<and> rc_origin ` set (rt_chains st) \<inter> set (attempt_refs st) = {}"

definition retry_inv :: "retry_state \<Rightarrow> bool" where
  "retry_inv st \<longleftrightarrow> chains_inv st \<and> tokens_ok st \<and> refs_ok st \<and> (\<forall>f \<in> set (rt_flights st). closing_ok f)"

lemma mset_concat_drop_index:
  assumes "x < length fs"
  shows "mset (concat (map h fs)) = mset (h (fs ! x)) + mset (concat (map h (drop_index x fs)))"
proof -
  have "fs = take x fs @ fs ! x # drop (Suc x) fs" by (rule id_take_nth_drop [OF assms])
  then have "mset (concat (map h fs)) = mset (concat (map h (take x fs @ fs ! x # drop (Suc x) fs)))" by simp
  then show ?thesis by (simp add: drop_index_def)
qed

lemma chains_grow_keeps:
  assumes "chains_grow st st'" "c \<in> set (rt_chains st)"
  shows "\<exists>c' \<in> set (rt_chains st'). chain_evolves c c'"
  using assms unfolding chains_grow_def by auto

lemma tokens_keep:
  assumes ok: "tokens_ok st" and g: "chains_grow st st'" and m: "mset (tokens st') \<subseteq># mset (tokens st)"
  shows "tokens_ok st'"
proof -
  from m obtain M where "mset (tokens st) = mset (tokens st') + M" by (auto simp: mset_subset_eq_exists_conv)
  moreover obtain ms where "M = mset ms" by (metis ex_mset)
  ultimately have "mset (tokens st) = mset (tokens st' @ ms)" by simp
  then have "distinct (tokens st' @ ms)" using ok by (metis tokens_ok_def mset_eq_imp_distinct_iff)
  then have d: "distinct (tokens st')" by simp
  have s: "set (tokens st') \<subseteq> set (tokens st)" using set_mset_mono [OF m] by simp
  have "\<exists>c' \<in> set (rt_chains st'). rc_id c' = i \<and> 1 \<le> n \<and> n \<le> rc_attempts c'" if "(i, n) \<in> set (tokens st')" for i n
  proof -
    from that s ok obtain c where c: "c \<in> set (rt_chains st)" "rc_id c = i" "1 \<le> n" "n \<le> rc_attempts c"
      unfolding tokens_ok_def by blast
    from chains_grow_keeps [OF g c(1)] obtain c' where "c' \<in> set (rt_chains st')" "chain_evolves c c'" by blast
    with c show ?thesis by (intro bexI [of _ c']) (auto simp: chain_evolves_def same_message_def)
  qed
  with d show ?thesis by (auto simp: tokens_ok_def)
qed

lemma claim_grows:
  "chains_grow st (st\<lparr>rt_chains := update_where (claimable_chain i) (claimed_chain now) (rt_chains st)\<rparr>)"
  by (rule chains_grow_update [OF chains_grow_same [OF refl refl], where P = "claimable_chain i" and f = "claimed_chain now"])
    (simp_all add: evolves_claimed)

lemma tokens_claim:
  assumes ok: "tokens_ok st" and inv: "chains_inv st" and c: "c \<in> set (rt_chains st)" "claimable_chain i c"
    and ch: "rt_chains st' = update_where (claimable_chain i) (claimed_chain now) (rt_chains st)" "rt_next st' = rt_next st"
    and m: "mset (tokens st') = add_mset (i, rc_attempts c + 1) (mset (tokens st))"
  shows "tokens_ok st'"
proof -
  have id: "rc_id c = i" using c(2) by (simp add: claimable_chain_def)
  have g: "chains_grow st st'"
    by (rule chains_grow_update [OF chains_grow_same [OF refl refl] ch evolves_claimed])
  have new: "(i, rc_attempts c + 1) \<notin> set (tokens st)"
  proof
    assume "(i, rc_attempts c + 1) \<in> set (tokens st)"
    with ok obtain c2 where c2: "c2 \<in> set (rt_chains st)" "rc_id c2 = i" "rc_attempts c + 1 \<le> rc_attempts c2"
      unfolding tokens_ok_def by blast
    with c id inv have "c2 = c" by (intro distinct_keys_unique [of rc_id "rt_chains st"]) (simp_all add: chains_inv_def)
    with c2(3) show False by simp
  qed
  have "mset (tokens st') = mset ((i, rc_attempts c + 1) # tokens st)" using m by simp
  moreover have "distinct ((i, rc_attempts c + 1) # tokens st)" using new ok by (simp add: tokens_ok_def)
  ultimately have d: "distinct (tokens st')" by (metis mset_eq_imp_distinct_iff)
  have s: "set (tokens st') = insert (i, rc_attempts c + 1) (set (tokens st))"
    using arg_cong [OF m, of set_mset] by simp
  have "\<exists>c' \<in> set (rt_chains st'). rc_id c' = j \<and> 1 \<le> n \<and> n \<le> rc_attempts c'" if "(j, n) \<in> set (tokens st')" for j n
  proof (cases "(j, n) = (i, rc_attempts c + 1)")
    case True
    have "claimed_chain now c \<in> set (rt_chains st')" using c by (auto simp: ch set_update_where)
    moreover have "0 \<le> rc_attempts c" using inv c(1) by (simp add: chains_inv_def chain_ok_def)
    ultimately show ?thesis using True id by (intro bexI [of _ "claimed_chain now c"]) (auto simp: claimed_chain_def)
  next
    case False
    with that s ok obtain c1 where c1: "c1 \<in> set (rt_chains st)" "rc_id c1 = j" "1 \<le> n" "n \<le> rc_attempts c1"
      unfolding tokens_ok_def by blast
    from chains_grow_keeps [OF g c1(1)] obtain c' where "c' \<in> set (rt_chains st')" "chain_evolves c1 c'" by blast
    with c1 show ?thesis by (intro bexI [of _ c']) (auto simp: chain_evolves_def same_message_def)
  qed
  with d show ?thesis by (auto simp: tokens_ok_def)
qed

lemma refs_keep:
  assumes ok: "refs_ok st" and s: "set (sent_refs st') \<subseteq> set (sent_refs st)" "distinct (sent_refs st')"
    and e: "rt_decisions st' = rt_decisions st" "rt_next_ref st' = rt_next_ref st" "attempt_refs st' = attempt_refs st"
    and orig: "\<forall>r \<in> rc_origin ` set (rt_chains st'). r \<in> rc_origin ` set (rt_chains st)
          \<or> r \<in> sd_ref ` set (rt_decisions st) \<and> r \<notin> set (attempt_refs st)"
  shows "refs_ok st'"
proof -
  have o1: "\<forall>r \<in> set (sent_refs st). r < rt_next_ref st" "distinct (attempt_refs st)"
    "set (attempt_refs st) \<subseteq> sd_ref ` set (rt_decisions st)"
    "rc_origin ` set (rt_chains st) \<subseteq> sd_ref ` set (rt_decisions st)"
    "rc_origin ` set (rt_chains st) \<inter> set (attempt_refs st) = {}"
    using ok unfolding refs_ok_def by blast+
  have "\<forall>r \<in> set (sent_refs st'). r < rt_next_ref st'" using o1(1) s(1) e(2) by (metis subsetD)
  moreover have "rc_origin ` set (rt_chains st') \<subseteq> sd_ref ` set (rt_decisions st)"
    using o1(4) orig by (meson subsetD subsetI)
  moreover have "rc_origin ` set (rt_chains st') \<inter> set (attempt_refs st) = {}"
    using o1(5) orig by (meson disjoint_iff)
  ultimately show ?thesis unfolding refs_ok_def e using s(2) o1(2,3) e(2) by (intro conjI) auto
qed

lemma mset_le_sub:
  assumes "mset xs \<subseteq># mset ys" "distinct ys"
  shows "distinct xs \<and> set xs \<subseteq> set ys"
proof -
  from assms(1) obtain M where "mset ys = mset xs + M" by (auto simp: mset_subset_eq_exists_conv)
  moreover obtain ms where "M = mset ms" by (metis ex_mset)
  ultimately have "mset ys = mset (xs @ ms)" by simp
  with assms(2) have "distinct (xs @ ms)" by (metis mset_eq_imp_distinct_iff)
  with set_mset_mono [OF assms(1)] show ?thesis by simp
qed

lemma refs_keep_mset:
  assumes "refs_ok st" and m: "mset (sent_refs st') \<subseteq># mset (sent_refs st)"
    and "rt_decisions st' = rt_decisions st" "rt_next_ref st' = rt_next_ref st" "attempt_refs st' = attempt_refs st"
    and "\<forall>r \<in> rc_origin ` set (rt_chains st'). r \<in> rc_origin ` set (rt_chains st)
          \<or> r \<in> sd_ref ` set (rt_decisions st) \<and> r \<notin> set (attempt_refs st)"
  shows "refs_ok st'"
proof -
  have "distinct (sent_refs st)" using assms(1) by (simp add: refs_ok_def)
  from mset_le_sub [OF m this] assms show ?thesis by (intro refs_keep [of st st']) blast+
qed

lemma refs_okD:
  assumes "refs_ok st"
  shows "distinct (sent_refs st)" "\<forall>r \<in> set (sent_refs st). r < rt_next_ref st" "distinct (attempt_refs st)"
    "set (attempt_refs st) \<subseteq> sd_ref ` set (rt_decisions st)"
    "rc_origin ` set (rt_chains st) \<subseteq> sd_ref ` set (rt_decisions st)"
    "rc_origin ` set (rt_chains st) \<inter> set (attempt_refs st) = {}"
  using assms unfolding refs_ok_def by blast+

text \<open>The engine's next identifier is new to everything.\<close>

lemma refs_fresh:
  assumes ok: "refs_ok st" and m: "mset (sent_refs st') = add_mset (rt_next_ref st) (mset (sent_refs st))"
    and "rt_next_ref st' = rt_next_ref st + 1" "attempt_refs st' = attempt_refs st" "rt_chains st' = rt_chains st"
    and "sd_ref ` set (rt_decisions st) \<subseteq> sd_ref ` set (rt_decisions st')"
  shows "refs_ok st'"
proof -
  note d = refs_okD [OF ok]
  have "mset (sent_refs st') = mset (rt_next_ref st # sent_refs st)" using m by simp
  moreover have "distinct (rt_next_ref st # sent_refs st)" using d by auto
  ultimately have "distinct (sent_refs st')" by (metis mset_eq_imp_distinct_iff)
  moreover have "set (sent_refs st') = insert (rt_next_ref st) (set (sent_refs st))"
    using arg_cong [OF m, of set_mset] by simp
  then have "\<forall>r \<in> set (sent_refs st'). r < rt_next_ref st'" using d(2) assms(3) by (auto simp: less_Suc_eq)
  moreover have "set (attempt_refs st) \<subseteq> sd_ref ` set (rt_decisions st')"
    "rc_origin ` set (rt_chains st) \<subseteq> sd_ref ` set (rt_decisions st')"
    using d(4,5) assms(6) by blast+
  ultimately show ?thesis unfolding refs_ok_def assms(4,5) using d(3,6) by (intro conjI)
qed

definition fo_tokens :: "dispatch_flight option \<Rightarrow> (nat \<times> int) list" where
  "fo_tokens fo = (case fo of None \<Rightarrow> [] | Some f \<Rightarrow> flight_token f)"

definition fo_refs :: "dispatch_flight option \<Rightarrow> nat list" where
  "fo_refs fo = (case fo of None \<Rightarrow> [] | Some f \<Rightarrow> flight_ref f)"

lemma with_flight_simps [simp]:
  "rt_chains (with_flight fo st) = rt_chains st" "rt_next (with_flight fo st) = rt_next st"
  "rt_decisions (with_flight fo st) = rt_decisions st" "rt_attempts (with_flight fo st) = rt_attempts st"
  "rt_spool (with_flight fo st) = rt_spool st" "rt_next_ref (with_flight fo st) = rt_next_ref st"
  "attempt_refs (with_flight fo st) = attempt_refs st"
  "mset (tokens (with_flight fo st)) = mset (fo_tokens fo) + mset (tokens st)"
  "mset (sent_refs (with_flight fo st)) = mset (fo_refs fo) + mset (sent_refs st)"
  by (simp_all add: with_flight_def attempt_refs_def tokens_def sent_refs_def fo_tokens_def fo_refs_def split: option.split)

lemma with_flight_closing:
  "(\<forall>f \<in> set (rt_flights st). closing_ok f) \<Longrightarrow> (\<And>f. fo = Some f \<Longrightarrow> closing_ok f) \<Longrightarrow>
     \<forall>f \<in> set (rt_flights (with_flight fo st)). closing_ok f"
  by (cases fo) (auto simp: with_flight_def)

text \<open>The x-th flight taken out.\<close>

lemma taken_out:
  assumes "x < length (rt_flights st)"
  defines "st0 \<equiv> st\<lparr>rt_flights := drop_index x (rt_flights st)\<rparr>"
  shows "mset (tokens st) = mset (flight_token (rt_flights st ! x)) + mset (tokens st0)"
    and "mset (sent_refs st) = mset (flight_ref (rt_flights st ! x)) + mset (sent_refs st0)"
    and "set (rt_flights st0) \<subseteq> set (rt_flights st)" "chains_grow st st0" "chains_inv st0 = chains_inv st"
    and "attempt_refs st0 = attempt_refs st" "rt_chains st0 = rt_chains st" "rt_decisions st0 = rt_decisions st"
    and "rt_next_ref st0 = rt_next_ref st" "rt_next st0 = rt_next st" "rt_spool st0 = rt_spool st"
    and "rt_attempts st0 = rt_attempts st"
  using mset_concat_drop_index [OF assms(1), of flight_token] mset_concat_drop_index [OF assms(1), of flight_ref]
    set_drop_index [of x "rt_flights st"]
  by (simp_all add: st0_def tokens_def sent_refs_def attempt_refs_def chains_inv_def chains_grow_same)

lemma chains_grow_from:
  assumes "chains_grow st0 st1" "rt_chains st0 = rt_chains st" "rt_next st0 = rt_next st"
    "rt_chains t = rt_chains st1" "rt_next t = rt_next st1"
  shows "chains_grow st t"
  using assms by (simp add: chains_grow_def)

lemma committed_grow:
  assumes inv: "chains_inv st" and ex: "list_ex (\<lambda>c. rc_id c = rc_id (df_chain f) \<and> rc_status c = ChRetrying \<and> rc_attempts c = n) (rt_chains st)"
    and un: "\<not> list_ex (\<lambda>a. is_attempt (rc_id (df_chain f)) n a \<or> at_ref a = Some ref) (rt_attempts st)"
    and td: "t = committed f n sel ref d now st"
  shows "chains_grow st t" and "rt_next t = rt_next st" "rt_spool t = rt_spool st" "rt_flights t = rt_flights st"
    and "rt_next_ref t = rt_next_ref st" "map sd_ref (rt_decisions t) = map sd_ref (rt_decisions st) @ [ref]"
    and "attempt_refs t = attempt_refs st @ [ref]"
proof -
  let ?i = "rc_id (df_chain f)"
  obtain c where c: "c \<in> set (rt_chains st)" "rc_id c = ?i" "rc_status c = ChRetrying" "rc_attempts c = n"
    using ex by (auto simp: list_ex_iff)
  have t: "rt_chains t = update_where (\<lambda>c. rc_id c = ?i \<and> rc_attempts c = n) (resent_row (the (bs_smscId sel)) now) (rt_chains st)"
    and rest: "rt_next t = rt_next st" "rt_spool t = rt_spool st" "rt_flights t = rt_flights st"
    "rt_next_ref t = rt_next_ref st" "map sd_ref (rt_decisions t) = map sd_ref (rt_decisions st) @ [ref]"
    "attempt_refs t = attempt_refs st @ [ref]"
    using ex un by (simp_all add: td committed_def commit_attempt_def Let_def attempt_refs_def attempt_key_def attempt_of_def)
  show "chains_grow st t"
  proof (rule chains_grow_update [OF chains_grow_same [OF refl refl] t rest(1)])
    fix x assume x: "x \<in> set (rt_chains st)" "rc_id x = ?i \<and> rc_attempts x = n"
    then have "x = c" using c inv by (intro distinct_keys_unique [of rc_id "rt_chains st"]) (simp_all add: chains_inv_def)
    with c(3) evolves_resent show "chain_evolves x (resent_row (the (bs_smscId sel)) now x)" by simp
  qed
  from rest show "rt_next t = rt_next st" "rt_spool t = rt_spool st" "rt_flights t = rt_flights st"
    "rt_next_ref t = rt_next_ref st" "map sd_ref (rt_decisions t) = map sd_ref (rt_decisions st) @ [ref]"
    "attempt_refs t = attempt_refs st @ [ref]" by simp_all
qed

lemma tokens_frame: "rt_spool a = rt_spool b \<Longrightarrow> rt_flights a = rt_flights b \<Longrightarrow> tokens a = tokens b"
  by (simp add: tokens_def)

lemma sent_refs_frame: "rt_decisions a = rt_decisions b \<Longrightarrow> rt_flights a = rt_flights b \<Longrightarrow> sent_refs a = sent_refs b"
  by (simp add: sent_refs_def)

lemma spool_tokens:
  "mset (tokens (snd (spool_retry f n sel st))) = add_mset (rc_id (df_chain f), n) (mset (tokens st))"
  "sent_refs (snd (spool_retry f n sel st)) = sent_refs st"
  by (simp_all add: spool_retry_def tokens_def sent_refs_def)

lemma committed_inv:
  assumes inv: "retry_inv st" and x: "x < length (rt_flights st)"
  defines "f \<equiv> rt_flights st ! x" and "st0 \<equiv> st\<lparr>rt_flights := drop_index x (rt_flights st)\<rparr>"
  assumes stg: "df_stage f = StSpooled n sel ref"
    and ex: "list_ex (\<lambda>c. rc_id c = rc_id (df_chain f) \<and> rc_status c = ChRetrying \<and> rc_attempts c = n) (rt_chains st0)"
    and un: "\<not> list_ex (\<lambda>a. is_attempt (rc_id (df_chain f)) n a \<or> at_ref a = Some ref) (rt_attempts st0)"
    and t: "t = with_flight (Some (f\<lparr>df_stage := StSubmitted n sel\<rparr>)) (committed f n sel ref d now st0)"
  shows "tokens_ok t \<and> refs_ok t \<and> chains_grow st t"
proof -
  define st1 where "st1 = committed f n sel ref d now st0"
  note out = taken_out [OF x, folded st0_def f_def]
  have inv0: "chains_inv st0" using inv out(5) by (simp add: retry_inv_def)
  note c = committed_grow [OF inv0 ex un st1_def]
  have g: "chains_grow st t" by (rule chains_grow_from [OF c(1)]) (simp_all add: t st1_def [symmetric] out)
  have "mset (tokens t) = mset (tokens st)"
    using out(1) stg tokens_frame [OF c(3,4)] by (simp add: t st1_def [symmetric] fo_tokens_def flight_token_def)
  then have tok: "tokens_ok t" using inv tokens_keep [OF _ g] by (simp add: retry_inv_def)
  have ok: "refs_ok st" using inv by (simp add: retry_inv_def)
  note r = refs_okD [OF ok]
  have fr: "concat (map flight_ref (rt_flights st1)) = concat (map flight_ref (rt_flights st0))" using c(4) by simp
  have "sent_refs st1 = map sd_ref (rt_decisions st0) @ [ref] @ concat (map flight_ref (rt_flights st0))"
    unfolding sent_refs_def c(6) fr by simp
  then have "mset (sent_refs st1) = add_mset ref (mset (sent_refs st0))" by (simp add: sent_refs_def)
  then have m: "mset (sent_refs t) = mset (sent_refs st)"
    using out(2) stg by (simp add: t st1_def [symmetric] fo_refs_def flight_ref_def)
  have d: "distinct (sent_refs t)" using r(1) m by (metis mset_eq_imp_distinct_iff)
  have s: "set (sent_refs t) = set (sent_refs st)" using m by (metis set_mset_mset)
  have dec: "sd_ref ` set (rt_decisions t) = insert ref (sd_ref ` set (rt_decisions st))"
    using arg_cong [OF c(6), of set] out(8) by (simp add: t st1_def [symmetric])
  have new: "ref \<notin> sd_ref ` set (rt_decisions st)"
  proof
    assume "ref \<in> sd_ref ` set (rt_decisions st)"
    moreover have "ref \<in> set (concat (map flight_ref (rt_flights st)))"
      using x stg by (auto simp: flight_ref_def f_def intro!: bexI [of _ "rt_flights st ! x"])
    ultimately show False using r(1) unfolding sent_refs_def by auto
  qed
  have ats: "attempt_refs t = attempt_refs st @ [ref]" using c(7) out(6) by (simp add: t st1_def [symmetric])
  have org: "rc_origin ` set (rt_chains t) = rc_origin ` set (rt_chains st)"
  proof -
    have "rt_next t = rt_next st" using c(2) out(10) by (simp add: t st1_def [symmetric])
    from chains_grow_origins [OF g this] show ?thesis by blast
  qed
  have "refs_ok t"
    unfolding refs_ok_def
  proof (intro conjI)
    show "\<forall>r \<in> set (sent_refs t). r < rt_next_ref t" using r(2) s c(5) out(9) by (simp add: t st1_def [symmetric])
    show "distinct (attempt_refs t)" using r(3,4) new by (auto simp: ats)
    show "set (attempt_refs t) \<subseteq> sd_ref ` set (rt_decisions t)" using r(4) unfolding ats dec by auto
    show "rc_origin ` set (rt_chains t) \<subseteq> sd_ref ` set (rt_decisions t)" using r(5) unfolding org dec by blast
    show "rc_origin ` set (rt_chains t) \<inter> set (attempt_refs t) = {}" using r(5,6) new unfolding org ats by auto
  qed (rule d)
  with tok g show ?thesis by blast
qed

text \<open>Steps that leave the claims and the engine's identifiers as they are, or give some up.\<close>

lemma quiet_step:
  assumes inv: "retry_inv st" and g: "chains_grow st t" "rt_next t = rt_next st"
    and tok: "mset (tokens t) \<subseteq># mset (tokens st)" and sr: "mset (sent_refs t) \<subseteq># mset (sent_refs st)"
    and e: "rt_decisions t = rt_decisions st" "rt_next_ref t = rt_next_ref st" "attempt_refs t = attempt_refs st"
  shows "tokens_ok t \<and> refs_ok t \<and> chains_grow st t"
proof -
  have "tokens_ok t" using inv tokens_keep [OF _ g(1) tok] by (simp add: retry_inv_def)
  moreover have "refs_ok t"
    using inv chains_grow_origins [OF g] by (intro refs_keep_mset [OF _ sr e]) (simp_all add: retry_inv_def)
  ultimately show ?thesis using g(1) by blast
qed

lemma key_refs_append:
  assumes "rt_attempts t = as @ extra" "map attempt_key as = map attempt_key (rt_attempts st)" "\<forall>a \<in> set extra. at_ref a = None"
  shows "attempt_refs t = attempt_refs st"
proof -
  have "concat (map (\<lambda>(i, n, r, w, s). case r of None \<Rightarrow> [] | Some x \<Rightarrow> [x]) (map attempt_key extra)) = []"
    using assms(3) by (auto simp: attempt_key_def)
  with assms(1,2) show ?thesis by (simp only: attempt_refs_def map_append concat_append append_Nil2)
qed

lemma dispatch_inv:
  assumes inv: "retry_inv st" and x: "x < length (rt_flights st)"
    and ds: "dispatch_step env ev (rt_flights st ! x) (st\<lparr>rt_flights := drop_index x (rt_flights st)\<rparr>) = Some (fo, st1)"
    and t: "t = with_flight fo st1"
  shows "retry_inv t \<and> chains_grow st t"
proof -
  define f where "f = rt_flights st ! x"
  define st0 where "st0 = st\<lparr>rt_flights := drop_index x (rt_flights st)\<rparr>"
  note out = taken_out [OF x, folded st0_def f_def]
  have cl0: "\<forall>h \<in> set (rt_flights st0). closing_ok h" "closing_ok f"
    using inv out(3) x by (auto simp: retry_inv_def f_def)
  have ch0: "chains_inv st0" using inv out(5) by (simp add: retry_inv_def)
  have "(tokens_ok t \<and> refs_ok t \<and> chains_grow st t) \<and> rt_flights st1 = rt_flights st0 \<and> (\<forall>h. fo = Some h \<longrightarrow> closing_ok h)"
    using dispatch_step_cases [OF ds [folded st0_def f_def]]
  proof (elim disjE exE conjE)
    fix f' assume a: "fo = Some f'" "st1 = st0" "stage_moves f f'"
    have "tokens_ok t \<and> refs_ok t \<and> chains_grow st t"
    proof (rule quiet_step [OF inv])
      show "chains_grow st t" by (rule chains_grow_same) (simp_all add: t a out)
      show "mset (tokens t) \<subseteq># mset (tokens st)" "mset (sent_refs t) \<subseteq># mset (sent_refs st)"
        using a(3) by (auto simp: t a(1,2) out fo_tokens_def fo_refs_def stage_moves_def)
    qed (simp_all add: t a out)
    with a show ?thesis by (simp add: stage_moves_def)
  next
    fix c now assume a: "df_stage f = StCleared" "c \<in> set (rt_chains st0)" "claimable_chain (rc_id (df_chain f)) c"
      "fo = Some (f\<lparr>df_stage := StClaimed (rc_attempts c + 1)\<rparr>)"
      "st1 = st0\<lparr>rt_chains := update_where (claimable_chain (rc_id (df_chain f))) (claimed_chain now) (rt_chains st0)\<rparr>"
    have same: "tokens st1 = tokens st0" "sent_refs st1 = sent_refs st0"
      by (simp_all add: a(5) tokens_def sent_refs_def)
    have ch: "rt_chains t = update_where (claimable_chain (rc_id (df_chain f))) (claimed_chain now) (rt_chains st)"
      "rt_next t = rt_next st"
      by (simp_all add: t a(5) out)
    have "tokens_ok t"
    proof (rule tokens_claim [OF _ _ _ a(3) ch])
      show "mset (tokens t) = add_mset (rc_id (df_chain f), rc_attempts c + 1) (mset (tokens st))"
        using a(1) by (simp add: t a(4) same out fo_tokens_def flight_token_def)
    qed (use inv a(2) out in \<open>simp_all add: retry_inv_def\<close>)
    moreover have g: "chains_grow st t"
      by (rule chains_grow_update [OF chains_grow_same [OF refl refl] ch evolves_claimed])
    moreover have "refs_ok t"
    proof (rule refs_keep_mset)
      show "mset (sent_refs t) \<subseteq># mset (sent_refs st)"
        using a(1) by (simp add: t a(4) same out fo_refs_def flight_ref_def)
    qed (use inv chains_grow_origins [OF g ch(2)] in \<open>simp_all add: t a(4,5) out retry_inv_def attempt_refs_def\<close>)
    ultimately show ?thesis using a by (simp add: closing_ok_def)
  next
    fix n sel assume a: "df_stage f = StSending n sel" "fo = Some (fst (spool_retry f n sel st0))" "st1 = snd (spool_retry f n sel st0)"
    have g: "chains_grow st t" by (rule chains_grow_same) (simp_all add: t a spool_retry_def out)
    have "mset (tokens t) = mset (tokens st)"
      using a(1) by (simp add: t a(2,3) out spool_tokens fo_tokens_def flight_token_def) (simp add: spool_retry_def)
    then have "tokens_ok t" using inv tokens_keep [OF _ g] by (simp add: retry_inv_def)
    moreover have "refs_ok t"
    proof (rule refs_fresh)
      show "mset (sent_refs t) = add_mset (rt_next_ref st) (mset (sent_refs st))"
        using a(1) by (simp add: t a(2,3) out spool_tokens fo_refs_def flight_ref_def) (simp add: spool_retry_def out)
    qed (use inv in \<open>simp_all add: t a(2,3) out spool_retry_def retry_inv_def attempt_refs_def\<close>)
    ultimately show ?thesis using g a by (simp add: spool_retry_def closing_ok_def)
  next
    fix n sel ref d now assume a: "df_stage f = StSpooled n sel ref"
      "list_ex (\<lambda>c. rc_id c = rc_id (df_chain f) \<and> rc_status c = ChRetrying \<and> rc_attempts c = n) (rt_chains st0)"
      "\<not> list_ex (\<lambda>a. is_attempt (rc_id (df_chain f)) n a \<or> at_ref a = Some ref) (rt_attempts st0)"
      "fo = Some (f\<lparr>df_stage := StSubmitted n sel\<rparr>)" "st1 = committed f n sel ref d now st0"
    have "tokens_ok t \<and> refs_ok t \<and> chains_grow st t"
      by (rule committed_inv [OF inv x, folded f_def st0_def, OF a(1,2,3)]) (simp add: t a(4,5))
    with committed_grow(4) [OF ch0 a(2,3,5)] a(4) show ?thesis by (simp add: closing_ok_def)
  next
    fix as extra assume a: "st1 = st0\<lparr>rt_attempts := as @ extra\<rparr>" "map attempt_key as = map attempt_key (rt_attempts st0)"
      "\<forall>a \<in> set extra. at_ref a = None \<and> at_outcome a \<noteq> AtSubmitted"
      "\<forall>f'. fo = Some f' \<longrightarrow> df_chain f' = df_chain f \<and> closing_ok f' \<and> flight_token f' = [] \<and> flight_ref f' = []"
    have n: "fo_tokens fo = []" "fo_refs fo = []" using a(4) by (simp_all add: fo_tokens_def fo_refs_def split: option.split)
    have "tokens_ok t \<and> refs_ok t \<and> chains_grow st t"
    proof (rule quiet_step [OF inv])
      show "chains_grow st t" by (rule chains_grow_same) (simp_all add: t a(1) out)
      have "tokens st1 = tokens st0" "sent_refs st1 = sent_refs st0" by (simp_all add: a(1) tokens_def sent_refs_def)
      then show "mset (tokens t) \<subseteq># mset (tokens st)" "mset (sent_refs t) \<subseteq># mset (sent_refs st)"
        by (simp_all add: t n out)
      show "attempt_refs t = attempt_refs st"
        by (rule key_refs_append [of _ as extra]) (use a(1-3) out in \<open>simp_all add: t\<close>)
    qed (simp_all add: t a(1) out)
    with a show ?thesis by simp
  next
    fix s reason now assume a: "df_stage f = StClosing s reason" "fo = None" "st1 = terminate (rc_id (df_chain f)) s reason now st0"
    have s: "s \<in> {ChDelivered, ChExhausted, ChAbandoned, ChFailed}" using cl0(2) a(1) by (simp add: closing_ok_def)
    have g: "chains_grow st st1" unfolding a(3) by (rule terminate_grow [OF out(4) s])
    have "tokens_ok t \<and> refs_ok t \<and> chains_grow st t"
    proof (rule quiet_step [OF inv])
      show "chains_grow st t" by (rule chains_grow_from [OF g]) (simp_all add: t)
      have "tokens st1 = tokens st0" "sent_refs st1 = sent_refs st0" by (simp_all add: a(3) terminate_def tokens_def sent_refs_def)
      then show "mset (tokens t) \<subseteq># mset (tokens st)" "mset (sent_refs t) \<subseteq># mset (sent_refs st)"
        by (simp_all add: t a(2) out fo_tokens_def fo_refs_def)
    qed (simp_all add: t a(3) out terminate_def attempt_refs_def)
    with a show ?thesis by (simp add: terminate_def)
  qed
  then have r: "tokens_ok t" "refs_ok t" "chains_grow st t" "rt_flights st1 = rt_flights st0" "\<And>h. fo = Some h \<Longrightarrow> closing_ok h"
    by blast+
  have "\<forall>h \<in> set (rt_flights t). closing_ok h"
    unfolding t by (rule with_flight_closing) (use r(4,5) cl0(1) in simp_all)
  moreover have "chains_inv t" using inv chains_inv_grow [OF _ r(3)] by (simp add: retry_inv_def)
  ultimately show ?thesis using r by (simp add: retry_inv_def)
qed

lemma retry_step_inv:
  assumes inv: "retry_inv st" and step: "retry_step env ev st = Some t"
  shows "retry_inv t \<and> chains_grow st t"
proof -
  have ch: "chains_inv st" using inv by (simp add: retry_inv_def)
  have lift: "retry_inv t \<and> chains_grow st t"
    if "tokens_ok t \<and> refs_ok t \<and> chains_grow st t" "\<forall>f \<in> set (rt_flights t). closing_ok f"
    using that chains_inv_grow [OF ch, of t] by (simp add: retry_inv_def)
  from retry_step_cases [OF ch step] show ?thesis
  proof (elim disjE exE conjE)
    assume a: "table_step st t"
    then have s: "rt_spool t = rt_spool st" "rt_flights t = rt_flights st" "chains_grow st t"
      "rt_decisions t = rt_decisions st" "rt_next_ref t = rt_next_ref st" "attempt_refs t = attempt_refs st"
      by (simp_all add: table_step_def same_dispatch_def attempt_refs_def)
    note same = tokens_frame [OF s(1,2)] sent_refs_frame [OF s(4,2)]
    have "tokens_ok t" using inv tokens_keep [OF _ s(3)] by (simp add: same retry_inv_def)
    moreover have "refs_ok t"
      using inv a by (intro refs_keep_mset [of st t]) (simp_all add: same s(4-6) retry_inv_def table_step_def)
    ultimately show ?thesis using s inv by (intro lift) (simp_all add: retry_inv_def)
  next
    fix d assume a: "t = send_commit d st"
    have g: "chains_grow st t" by (rule chains_grow_same) (simp_all add: a send_commit_def)
    have "tokens t = tokens st" by (rule tokens_frame) (simp_all add: a send_commit_def)
    then have "tokens_ok t" using inv tokens_keep [OF _ g] by (simp add: retry_inv_def)
    moreover have "refs_ok t"
      by (rule refs_fresh [of st]) (use inv in \<open>auto simp: a send_commit_def sent_refs_def attempt_refs_def retry_inv_def\<close>)
    ultimately show ?thesis using g inv by (intro lift) (simp_all add: a send_commit_def retry_inv_def)
  next
    fix i f assume a: "load_dispatch i st = Some f" "t = st\<lparr>rt_flights := rt_flights st @ [f]\<rparr>"
    note l = load_dispatch_cases [OF a(1)]
    have g: "chains_grow st t" by (rule chains_grow_same) (simp_all add: a(2))
    have "tokens t = tokens st" "sent_refs t = sent_refs st" using l by (simp_all add: a(2) tokens_def sent_refs_def)
    with inv g have "tokens_ok t \<and> refs_ok t \<and> chains_grow st t"
      by (intro quiet_step) (simp_all add: a(2) attempt_refs_def)
    then show ?thesis using l inv by (intro lift) (auto simp: a(2) retry_inv_def)
  next
    fix x fo st1 assume "x < length (rt_flights st)"
      "dispatch_step env ev (rt_flights st ! x) (st\<lparr>rt_flights := drop_index x (rt_flights st)\<rparr>) = Some (fo, st1)"
      "t = with_flight fo st1"
    from dispatch_inv [OF inv this] show ?thesis .
  qed
qed

lemma retry_inv_empty: "retry_inv empty_retry"
  by (simp add: retry_inv_def empty_retry_def chains_inv_def tokens_ok_def tokens_def refs_ok_def sent_refs_def attempt_refs_def)

interpretation retries: invariant_machine "retry_step env" "\<lambda>_ _. True" retry_inv for env
  by unfold_locales (use retry_step_inv in blast)

lemma reachable_retry: "run_steps (retry_step env) es empty_retry = Some st \<Longrightarrow> retry_inv st"
  using retries.run_inv [OF retry_inv_empty retries.ok_run_total] by simp

subsection \<open>The properties\<close>

definition sends_of :: "nat \<Rightarrow> retry_state \<Rightarrow> nat" where
  "sends_of i st = length (filter (\<lambda>e. sp_chain e = i) (rt_spool st))"

lemma distinct_bounded_length:
  assumes "distinct xs" "\<forall>n \<in> set xs. 1 \<le> n \<and> n \<le> (k :: int)"
  shows "length xs \<le> nat k"
proof -
  have "length xs = card (set xs)" using assms(1) by (simp add: distinct_card)
  also have "\<dots> \<le> card {1..k}" using assms(2) by (intro card_mono) auto
  finally show ?thesis by simp
qed

lemma sends_bounded:
  assumes inv: "retry_inv st" and c: "c \<in> set (rt_chains st)"
  shows "int (sends_of (rc_id c) st) \<le> rc_attempts c"
proof -
  let ?ns = "map sp_no (filter (\<lambda>e. sp_chain e = rc_id c) (rt_spool st))"
  have tok: "distinct (tokens st)" using inv by (simp add: retry_inv_def tokens_ok_def)
  then have "distinct (map (\<lambda>e. (sp_chain e, sp_no e)) (rt_spool st))" by (simp add: tokens_def)
  then have "distinct (map (\<lambda>e. (sp_chain e, sp_no e)) (filter (\<lambda>e. sp_chain e = rc_id c) (rt_spool st)))"
    by (rule distinct_map_filter)
  then have "distinct ?ns" by (auto simp: distinct_map inj_on_def)
  moreover have "\<forall>n \<in> set ?ns. 1 \<le> n \<and> n \<le> rc_attempts c"
  proof
    fix n assume "n \<in> set ?ns"
    then have "(rc_id c, n) \<in> set (tokens st)" by (force simp: tokens_def)
    with inv obtain c' where c': "c' \<in> set (rt_chains st)" "rc_id c' = rc_id c" "1 \<le> n" "n \<le> rc_attempts c'"
      unfolding retry_inv_def tokens_ok_def by blast
    with c inv have "c' = c" by (intro distinct_keys_unique [of rc_id "rt_chains st"]) (simp_all add: retry_inv_def chains_inv_def)
    with c' show "1 \<le> n \<and> n \<le> rc_attempts c" by simp
  qed
  ultimately have "length ?ns \<le> nat (rc_attempts c)" by (rule distinct_bounded_length)
  moreover have "0 \<le> rc_attempts c" using inv c by (simp add: retry_inv_def chains_inv_def chain_ok_def)
  ultimately show ?thesis by (simp add: sends_of_def)
qed

text \<open>C3. Whatever the interleaving of scans, dispatches, stalled and dying workers, the messages
  spooled in the engine for a chain, committed or not, are never more than its attempts, and these never
  more than its budget of at most five; every claim made and every message spooled has an attempt number
  of its own.\<close>

theorem retry_sends_bounded:
  assumes "run_steps (retry_step env) es empty_retry = Some st"
  shows "distinct (map (\<lambda>e. (sp_chain e, sp_no e)) (rt_spool st))
    \<and> (\<forall>c \<in> set (rt_chains st). int (sends_of (rc_id c) st) \<le> rc_attempts c
         \<and> rc_attempts c \<le> rc_max c \<and> rc_max c \<le> 5)"
proof -
  have inv: "retry_inv st" by (rule reachable_retry [OF assms])
  have "distinct (map (\<lambda>e. (sp_chain e, sp_no e)) (rt_spool st))"
    using inv by (simp add: retry_inv_def tokens_ok_def tokens_def)
  moreover have "rc_attempts c \<le> rc_max c \<and> rc_max c \<le> 5" if "c \<in> set (rt_chains st)" for c
    using inv that by (simp add: retry_inv_def chains_inv_def chain_ok_def)
  ultimately show ?thesis using sends_bounded [OF inv] by simp
qed

text \<open>C11. One chain per message: no message has two chains, no retry of ours is ever taken for a message
  of its own and given a chain with a fresh budget, and no two attempts carry the same engine identifier,
  so a report on a retry finds exactly its chain.\<close>

theorem one_chain_per_message:
  assumes "run_steps (retry_step env) es empty_retry = Some st"
  shows "distinct (map rc_origin (rt_chains st)) \<and> distinct (map rc_id (rt_chains st))
    \<and> distinct (attempt_refs st) \<and> rc_origin ` set (rt_chains st) \<inter> set (attempt_refs st) = {}"
proof -
  have "retry_inv st" by (rule reachable_retry [OF assms])
  then show ?thesis by (simp add: retry_inv_def chains_inv_def refs_ok_def)
qed

text \<open>C36. Every chain row satisfies the table's checks: the attempts lie between zero and the budget, the
  budget between one and five, the triggering event is a failure or a rejection, a reason and a time of
  resolution are there exactly when the status is final, and the first bind tried is the one the message
  failed on.\<close>

theorem chain_rows_typed:
  assumes "run_steps (retry_step env) es empty_retry = Some st" and "c \<in> set (rt_chains st)"
  shows "0 \<le> rc_attempts c \<and> rc_attempts c \<le> rc_max c \<and> 1 \<le> rc_max c \<and> rc_max c \<le> 5
    \<and> (rc_event c = DLR_EVENT_FAILED \<or> rc_event c = DLR_EVENT_REJECTED)
    \<and> (rc_reason c \<noteq> None \<longleftrightarrow> rc_status c \<in> {ChDelivered, ChExhausted, ChAbandoned, ChFailed})
    \<and> (rc_resolved c \<noteq> None \<longleftrightarrow> rc_status c \<in> {ChDelivered, ChExhausted, ChAbandoned, ChFailed})
    \<and> rc_tried c \<noteq> [] \<and> hd (rc_tried c) = rc_smsc c"
proof -
  have "chain_ok c" using reachable_retry [OF assms(1)] assms(2) by (simp add: retry_inv_def chains_inv_def)
  then show ?thesis by (auto simp: chain_ok_def chain_done_def)
qed

subsection \<open>The end of a chain\<close>

definition chain_at :: "nat \<Rightarrow> retry_state \<Rightarrow> chain_row option" where
  "chain_at i st = row_by rc_id i (rt_chains st)"

text \<open>A step that changes the status or the attempts of an unfinished chain.\<close>

definition chain_moves :: "nat \<Rightarrow> retry_state \<Rightarrow> retry_state \<Rightarrow> bool" where
  "chain_moves i st t =
     (case (chain_at i st, chain_at i t) of
        (Some c, Some c') \<Rightarrow> \<not> chain_done c \<and> moved c c'
      | _ \<Rightarrow> False)"

fun count_moves :: "retry_env \<Rightarrow> nat \<Rightarrow> retry_event list \<Rightarrow> retry_state \<Rightarrow> nat" where
  "count_moves env i [] st = 0"
| "count_moves env i (e # es) st =
     (case retry_step env e st of
        None \<Rightarrow> 0
      | Some t \<Rightarrow> (if chain_moves i st t then 1 else 0) + count_moves env i es t)"

lemma chain_at_step:
  assumes inv: "retry_inv st" and step: "retry_step env e st = Some t" and c: "chain_at i st = Some c"
  shows "\<exists>c'. chain_at i t = Some c' \<and> chain_evolves c c'"
proof -
  have r: "c \<in> set (rt_chains st)" "rc_id c = i" using row_by_Some c unfolding chain_at_def by metis+
  from retry_step_inv [OF inv step] have t: "retry_inv t" "chains_grow st t" by blast+
  from chains_grow_keeps [OF t(2) r(1)] obtain c' where c': "c' \<in> set (rt_chains t)" "chain_evolves c c'" by blast
  then have "rc_id c' = i" using r(2) by (simp add: chain_evolves_def same_message_def)
  moreover have "distinct (map rc_id (rt_chains t))" using t(1) by (simp add: retry_inv_def chains_inv_def)
  ultimately have "chain_at i t = Some c'" unfolding chain_at_def using row_by_distinct [of rc_id] c'(1) by blast
  with c'(2) show ?thesis by blast
qed

lemma count_moves_rank:
  assumes "retry_inv st" "run_steps (retry_step env) es st = Some t" "chain_at i st = Some c"
  shows "\<exists>c'. chain_at i t = Some c' \<and> count_moves env i es st + chain_rank c' \<le> chain_rank c
    \<and> (chain_done c \<longrightarrow> chain_done c') \<and> rc_attempts c \<le> rc_attempts c'"
  using assms
proof (induction es arbitrary: st c)
  case Nil
  then show ?case by simp
next
  case (Cons e es)
  from Cons.prems(2) obtain u where u: "retry_step env e st = Some u" "run_steps (retry_step env) es u = Some t"
    by (auto simp: bind_eq_Some_conv)
  from chain_at_step [OF Cons.prems(1) u(1) Cons.prems(3)] obtain d where d: "chain_at i u = Some d" "chain_evolves c d" by blast
  have "retry_inv u" using retry_step_inv [OF Cons.prems(1) u(1)] by blast
  from Cons.IH [OF this u(2) d(1)] obtain c' where c': "chain_at i t = Some c'"
    "count_moves env i es u + chain_rank c' \<le> chain_rank d" "chain_done d \<longrightarrow> chain_done c'" "rc_attempts d \<le> rc_attempts c'"
    by blast
  have "(if chain_moves i st u then 1 else 0) + chain_rank d \<le> chain_rank c"
    using d Cons.prems(3) by (auto simp: chain_moves_def chain_evolves_def)
  with c' d(2) u(1) show ?case by (auto simp: chain_evolves_def)
qed

text \<open>C23. Every chain comes to rest: whatever happens, its status or its attempts change at most three
  times per attempt it has left and three times more before its status is final, and a chain whose status
  is final never becomes unfinished again. In particular a chain just opened moves at most sixteen times.\<close>

theorem retry_chain_winds_down:
  assumes "run_steps (retry_step env) es0 empty_retry = Some st" and "chain_at i st = Some c"
    and "run_steps (retry_step env) es st = Some t"
  shows "\<exists>c'. chain_at i t = Some c' \<and> count_moves env i es st + chain_rank c' \<le> chain_rank c
    \<and> chain_rank c \<le> 3 * nat (rc_max c - rc_attempts c) + 3
    \<and> (rc_status c = ChPending \<longrightarrow> chain_rank c \<le> 16) \<and> (chain_done c \<longrightarrow> chain_done c')"
proof -
  have inv: "retry_inv st" by (rule reachable_retry [OF assms(1)])
  have "c \<in> set (rt_chains st)" using row_by_Some assms(2) unfolding chain_at_def by metis
  with inv have ok: "chain_ok c" by (simp add: retry_inv_def chains_inv_def)
  have "chain_rank c \<le> 3 * nat (rc_max c - rc_attempts c) + 3" by (simp add: chain_rank_def)
  moreover have "rc_status c = ChPending \<longrightarrow> chain_rank c \<le> 16" using ok by (auto simp: chain_rank_def chain_ok_def chain_done_def)
  ultimately show ?thesis using count_moves_rank [OF inv assms(3,2)] by blast
qed

subsection \<open>A run\<close>

definition example_retry_env :: retry_env where
  "example_retry_env =
     \<lparr>re_queue = \<lparr>qc_registry = [(DELIVERY_RETRY_SCAN_JOB_TYPE, DELIVERY_RETRY_SCAN_MAX_ATTEMPTS),
        (DELIVERY_RETRY_DISPATCH_JOB_TYPE, DELIVERY_RETRY_DISPATCH_MAX_ATTEMPTS)],
        qc_retry_base = Some 5000, qc_retry_max = Some 300000\<rparr>,
      re_dateParse = (\<lambda>_. None), re_toIso = (\<lambda>_. []), re_lc = cmp_key (\<lambda>s. s)\<rparr>"

definition example_policy :: "int \<Rightarrow> policy_input" where
  "example_policy attempts =
     \<lparr>pi_scope = ScTenant, pi_smscId = None, pi_customerId = None, pi_enabled = True,
      pi_maxAttempts = attempts, pi_retryOnFailed = True, pi_retryOnRejected = False, pi_minDelaySeconds = 0,
      pi_maxAgeSeconds = 3600, pi_requireDifferentBind = True, pi_chargeCreditOnRetry = True,
      pi_maxRetriesPerMinute = 1, pi_bindRetriesPerMinute = 30\<rparr>"

definition example_rows :: "int \<Rightarrow> policy_row list" where
  "example_rows attempts = [row_of_input ''p'' (example_policy attempts)]"

definition example_decision :: send_decision where
  "example_decision =
     \<lparr>sd_id = 0, sd_ref = 0, sd_customer = None, sd_channel = ''api'', sd_sender = None, sd_destination = ''256''\<rparr>"

definition failed_report :: "nat \<Rightarrow> nat \<Rightarrow> string \<Rightarrow> negative_report" where
  "failed_report receipt ref smsc =
     \<lparr>dr_dlrEvent = DLR_EVENT_FAILED, dr_dlrAt = None, nr_dlrSqlId = receipt, nr_foreignId = ref, nr_detail = None,
      nr_sender = [], nr_receiver = ''256'', nr_text = ''hi'', nr_smscId = smsc, nr_requestedDlrMask = 31,
      nr_dlrUrl = None, nr_sentAt = None\<rparr>"

definition example_binds :: bind_context where
  "example_binds = \<lparr>bc_available = [''a'', ''b'', ''c''], bc_bindings = [], bc_routed = None\<rparr>"

text \<open>A message sent and failed on bind a, and its chain opened; then one dispatch up to its submission.\<close>

definition first_failure :: "int \<Rightarrow> retry_event list" where
  "first_failure attempts =
     [RPolicy ''u'' ''p'' (example_policy attempts) 0, RSend example_decision,
      RIngest ''u'' (failed_report 1 0 ''a'') (example_rows attempts) 1]"

definition one_dispatch :: "retry_event list" where
  "one_dispatch =
     [RQueue (QClaim [0] ''w'' 2), RStart 0, REngine 0 (\<lambda>_. None), RClaim 0 3, RChoose 0 example_binds 3,
      RSpool 0, RCommit 0 1 4, RCharge 0 (1 / 2)]"

definition after_retry :: retry_state where
  "after_retry = the (run_steps (retry_step example_retry_env) (first_failure 2 @ one_dispatch) empty_retry)"

lemma after_retry_facts:
  "run_steps (retry_step example_retry_env) (first_failure 2 @ one_dispatch) empty_retry = Some after_retry"
  "map (\<lambda>c. (rc_id c, rc_origin c, rc_status c, rc_attempts c, rc_max c)) (rt_chains after_retry) = [(0, 0, ChResent, 1, 2)]"
  "map (\<lambda>e. (sp_chain e, sp_no e, sp_ref e)) (rt_spool after_retry) = [(0, 1, 1)]"
  "attempt_refs after_retry = [1]"
proof -
  have "(case run_steps (retry_step example_retry_env) (first_failure 2 @ one_dispatch) empty_retry of
      None \<Rightarrow> False
    | Some st \<Rightarrow>
        map (\<lambda>c. (rc_id c, rc_origin c, rc_status c, rc_attempts c, rc_max c)) (rt_chains st) = [(0, 0, ChResent, 1, 2)]
        \<and> map (\<lambda>e. (sp_chain e, sp_no e, sp_ref e)) (rt_spool st) = [(0, 1, 1)] \<and> attempt_refs st = [1])"
    by code_simp
  then show "run_steps (retry_step example_retry_env) (first_failure 2 @ one_dispatch) empty_retry = Some after_retry"
    "map (\<lambda>c. (rc_id c, rc_origin c, rc_status c, rc_attempts c, rc_max c)) (rt_chains after_retry) = [(0, 0, ChResent, 1, 2)]"
    "map (\<lambda>e. (sp_chain e, sp_no e, sp_ref e)) (rt_spool after_retry) = [(0, 1, 1)]"
    "attempt_refs after_retry = [1]"
    by (simp_all add: after_retry_def split: option.splits)
qed

theorem retry_sends_bounded_witness:
  "\<exists>c. c \<in> set (rt_chains after_retry) \<and> sends_of (rc_id c) after_retry = 1
     \<and> int (sends_of (rc_id c) after_retry) \<le> rc_attempts c \<and> rc_attempts c \<le> rc_max c \<and> rc_max c = 2"
proof -
  obtain c where c: "rt_chains after_retry = [c]" "rc_id c = 0" "rc_max c = 2"
    using after_retry_facts(2) by auto
  obtain e where e: "rt_spool after_retry = [e]" "sp_chain e = 0" using after_retry_facts(3) by auto
  have "sends_of (rc_id c) after_retry = 1" using c e by (simp add: sends_of_def)
  with retry_sends_bounded [OF after_retry_facts(1)] c show ?thesis by (intro exI [of _ c]) simp
qed

theorem one_chain_per_message_witness:
  "length (rt_chains after_retry) = 1 \<and> attempt_refs after_retry = [1]
   \<and> rc_origin ` set (rt_chains after_retry) \<inter> {1} = {}"
proof -
  from one_chain_per_message [OF after_retry_facts(1)]
  have "rc_origin ` set (rt_chains after_retry) \<inter> set (attempt_refs after_retry) = {}" by blast
  with after_retry_facts(2,4) show ?thesis by (auto dest: arg_cong [of _ _ length])
qed

theorem chain_rows_typed_witness:
  "\<exists>c. c \<in> set (rt_chains after_retry) \<and> rc_status c = ChResent \<and> rc_reason c = None \<and> rc_attempts c \<le> rc_max c"
proof -
  obtain c where c: "rt_chains after_retry = [c]" "rc_status c = ChResent" using after_retry_facts(2) by auto
  then have "c \<in> set (rt_chains after_retry)" by simp
  from chain_rows_typed [OF after_retry_facts(1) this] c show ?thesis by (intro exI [of _ c]) simp
qed

theorem retry_chain_winds_down_witness:
  "\<exists>c. chain_at 0 after_retry = Some c \<and> rc_status c = ChResent
     \<and> count_moves example_retry_env 0 [RReadResent 200] after_retry \<le> 5"
proof -
  obtain c where c: "rt_chains after_retry = [c]" "rc_id c = 0" "rc_status c = ChResent" "rc_attempts c = 1" "rc_max c = 2"
    using after_retry_facts(2) by auto
  then have a: "chain_at 0 after_retry = Some c" by (simp add: chain_at_def row_by_def)
  have "\<exists>t. run_steps (retry_step example_retry_env) [RReadResent 200] after_retry = Some t" by (simp add: retry_step_def)
  then obtain t where t: "run_steps (retry_step example_retry_env) [RReadResent 200] after_retry = Some t" by blast
  have "chain_rank c = 5" using c by (simp add: chain_rank_def chain_done_def)
  with retry_chain_winds_down [OF after_retry_facts(1) a t] have "count_moves example_retry_env 0 [RReadResent 200] after_retry \<le> 5"
    by linarith
  with a c show ?thesis by blast
qed

end
