(* ===== verification/RetryHazards.thy ===== *)
theory RetryHazards
  imports RetryBudget
begin

section \<open>Retry chains: what an interleaving or an outage can do\<close>

text \<open>
  A dispatch that resumes late overwrites the outcome of the one that took its place and sends the
  message a second time; a chain whose dispatch job is dead is never dispatched again.
\<close>

subsection \<open>A dispatch that resumes late\<close>

text \<open>
  Worker A claims the first attempt of a chain and stalls; its job is reaped, worker B claims the second
  attempt and submits it. Then A resumes: it spools the message, is refused at the guarded insert, and
  closes the chain.
\<close>

definition late_dispatch :: "retry_event list" where
  "late_dispatch =
     [RQueue (QClaim [0] ''A'' 2), RStart 0, REngine 0 (\<lambda>_. None), RClaim 0 3, RChoose 0 example_binds 3,
      RQueue (QReap 1000 9000), RQueue (QClaim [0] ''B'' 9000), RStart 1, REngine 1 (\<lambda>_. None), RClaim 1 9001,
      RChoose 1 example_binds 9001, RSpool 1, RCommit 1 1 9002, RCharge 1 0,
      RSpool 0, RCommit 0 2 9003, RRecord 0 False 9004, RClose 0 9005]"

text \<open>The dispatch that lost its claim still speaks last. It spools the message although another
  attempt is already on its way, so the engine holds it twice, and it closes the chain as failed although
  the other attempt was submitted and is open: no later scan settles the chain, whatever the carrier
  reports.\<close>

theorem late_dispatch_overwrites:
  "\<exists>st c. run_steps (retry_step example_retry_env) (first_failure 2 @ late_dispatch) empty_retry = Some st
     \<and> rt_chains st = [c] \<and> rc_status c = ChFailed \<and> rc_reason c = Some (ReRefused SfClaimedElsewhere)
     \<and> map (\<lambda>e. (sp_no e, rr_text (sp_request e))) (rt_spool st) = [(2, ''hi''), (1, ''hi'')]
     \<and> (\<exists>a \<in> set (rt_attempts st). at_chain a = rc_id c \<and> at_no a = rc_attempts c \<and> at_outcome a = AtSubmitted \<and> at_event a = None)
     \<and> (\<forall>limit. read_resent limit st = [])"
proof -
  let ?r = "run_steps (retry_step example_retry_env) (first_failure 2 @ late_dispatch) empty_retry"
  have "(case ?r of None \<Rightarrow> False | Some st \<Rightarrow>
      map (\<lambda>c. (rc_id c, rc_status c, rc_attempts c, rc_reason c)) (rt_chains st) = [(0, ChFailed, 2, Some (ReRefused SfClaimedElsewhere))]
      \<and> map (\<lambda>e. (sp_no e, rr_text (sp_request e))) (rt_spool st) = [(2, ''hi''), (1, ''hi'')]
      \<and> map (\<lambda>a. (at_chain a, at_no a, at_outcome a, at_event a)) (rt_attempts st)
          = [(0, 2, AtSubmitted, None), (0, 1, AtRefused, None)])"
    by code_simp
  then obtain st where st: "?r = Some st"
    "map (\<lambda>c. (rc_id c, rc_status c, rc_attempts c, rc_reason c)) (rt_chains st) = [(0, ChFailed, 2, Some (ReRefused SfClaimedElsewhere))]"
    "map (\<lambda>e. (sp_no e, rr_text (sp_request e))) (rt_spool st) = [(2, ''hi''), (1, ''hi'')]"
    "map (\<lambda>a. (at_chain a, at_no a, at_outcome a, at_event a)) (rt_attempts st) = [(0, 2, AtSubmitted, None), (0, 1, AtRefused, None)]"
    by (auto split: option.splits)
  from st(2) obtain c where c: "rt_chains st = [c]" "rc_id c = 0" "rc_status c = ChFailed" "rc_attempts c = 2"
    "rc_reason c = Some (ReRefused SfClaimedElsewhere)" by auto
  have "read_resent limit st = []" for limit by (simp add: read_resent_def open_attempt_def c)
  moreover have "\<exists>a \<in> set (rt_attempts st). at_chain a = 0 \<and> at_no a = 2 \<and> at_outcome a = AtSubmitted \<and> at_event a = None"
    using st(4) by (auto simp: map_eq_Cons_conv)
  ultimately show ?thesis using st(1,3) c by (intro exI [of _ st] exI [of _ c]) simp
qed

subsection \<open>The queue behind the service\<close>

text \<open>What a step other than the queue's own does to the jobs: nothing, or one submission.\<close>

definition submits :: "retry_env \<Rightarrow> retry_state \<Rightarrow> retry_state \<Rightarrow> nat option \<Rightarrow> bool" where
  "submits env st t link \<longleftrightarrow>
     (\<exists>user now q job rows.
        createOn (qc_registry (re_queue env)) (qs_next (rt_queue st)) user now q (qs_rows (rt_queue st)) = Inr (job, rows)
        \<and> rt_queue t = (rt_queue st)\<lparr>qs_rows := rows, qs_next := qs_next (rt_queue st) + 1\<rparr>
        \<and> (rt_inputs t = rt_inputs st
           \<or> (\<exists>k. link = Some k \<and> jr_id job = qs_next (rt_queue st) \<and> rt_inputs t = (jr_id job, k) # rt_inputs st)))"

definition same_jobs :: "retry_state \<Rightarrow> retry_state \<Rightarrow> bool" where
  "same_jobs st t \<longleftrightarrow> rt_queue t = rt_queue st \<and> rt_inputs t = rt_inputs st"

lemma submit_job_submits:
  assumes "submit_job env user now q st = Inr (job, t)"
  shows "submits env st t link \<and> rt_inputs t = rt_inputs st \<and> (\<exists>qu. t = st\<lparr>rt_queue := qu\<rparr>)"
proof -
  obtain rows where "createOn (qc_registry (re_queue env)) (qs_next (rt_queue st)) user now q (qs_rows (rt_queue st)) = Inr (job, rows)"
    "t = st\<lparr>rt_queue := (rt_queue st)\<lparr>qs_rows := rows, qs_next := qs_next (rt_queue st) + 1\<rparr>\<rparr>"
    using assms by (auto simp: submit_job_def split: sum.splits prod.splits)
  then show ?thesis unfolding submits_def by (intro conjI exI) (assumption | simp)+
qed

lemma ensureScanScheduled_submits:
  assumes "ensureScanScheduled env user now d x st = Inr (b, t)"
  shows "same_jobs st t \<or> submits env st t None"
proof (cases "scan_in_flight x (qs_rows (rt_queue st))")
  case True
  with assms show ?thesis by (simp add: ensureScanScheduled_def same_jobs_def)
next
  case False
  with assms obtain job where "submit_job env user now
      \<lparr>rq_type = DELIVERY_RETRY_SCAN_JOB_TYPE, rq_input = JObj, rq_key = None, rq_run_at = run_at now d\<rparr> st = Inr (job, t)"
    by (auto simp: ensureScanScheduled_def elim!: bind_resultE)
  from submit_job_submits [OF this] show ?thesis by blast
qed

lemma upsertPolicy_submits:
  assumes "upsertPolicy env user i p now st = Inr t"
  shows "same_jobs st t \<or> submits env st t None"
proof -
  define ps where "ps = (if list_ex (same_policy_slot p) (rt_policies st)
      then update_where (same_policy_slot p) (replace_policy p) (rt_policies st) else rt_policies st @ [row_of_input i p])"
  have ok: "policy_checks (row_of_input i p)" using assms by (simp add: upsertPolicy_def split: if_splits)
  show ?thesis
  proof (cases "pi_enabled p")
    case True
    with assms ok obtain b where "ensureScanScheduled env user now 0 None (st\<lparr>rt_policies := ps\<rparr>) = Inr (b, t)"
      unfolding upsertPolicy_def Let_def ps_def [symmetric] by (auto elim!: bind_resultE)
    from ensureScanScheduled_submits [OF this] show ?thesis by (simp add: same_jobs_def submits_def)
  next
    case False
    with assms ok have "t = st\<lparr>rt_policies := ps\<rparr>" by (simp add: upsertPolicy_def Let_def ps_def)
    then show ?thesis by (simp add: same_jobs_def)
  qed
qed

lemma enqueueDispatch_submits:
  assumes "enqueueDispatch env user i n d now st = Inr t"
  shows "submits env st t (Some i) \<and> (\<exists>j. rt_chains t = update_where (\<lambda>c. rc_id c = i) (\<lambda>c. c\<lparr>rc_job := j, rc_updated := now\<rparr>) (rt_chains st))"
proof -
  let ?q = "\<lparr>rq_type = DELIVERY_RETRY_DISPATCH_JOB_TYPE, rq_input = JObj, rq_key = Some (dispatch_key i n), rq_run_at = run_at now d\<rparr>"
  from assms obtain job st1 where s: "submit_job env user now ?q st = Inr (job, st1)"
    and t: "t = update_chain i (\<lambda>c. c\<lparr>rc_job := Some (jr_id job), rc_updated := now\<rparr>)
      (if jr_id job = qs_next (rt_queue st) then st1\<lparr>rt_inputs := (jr_id job, i) # rt_inputs st1\<rparr> else st1)"
    unfolding enqueueDispatch_def by (auto simp: Let_def elim!: bind_resultE)
  obtain rows where c: "createOn (qc_registry (re_queue env)) (qs_next (rt_queue st)) user now ?q (qs_rows (rt_queue st)) = Inr (job, rows)"
    and st1: "st1 = st\<lparr>rt_queue := (rt_queue st)\<lparr>qs_rows := rows, qs_next := qs_next (rt_queue st) + 1\<rparr>\<rparr>"
    using s by (auto simp: submit_job_def split: sum.splits prod.splits)
  have "submits env st t (Some i)" unfolding submits_def
    by (rule exI [of _ user], rule exI [of _ now], rule exI [of _ ?q], rule exI [of _ job], rule exI [of _ rows])
      (simp add: c t st1)
  moreover have "rt_chains t = update_where (\<lambda>c. rc_id c = i) (\<lambda>c. c\<lparr>rc_job := Some (jr_id job), rc_updated := now\<rparr>) (rt_chains st)"
    by (simp add: t st1)
  ultimately show ?thesis by blast
qed

lemma submitDispatch_submits:
  assumes "submitDispatch env user key i now st = Inr t"
  shows "submits env st t (Some i)"
proof -
  let ?q = "\<lparr>rq_type = DELIVERY_RETRY_DISPATCH_JOB_TYPE, rq_input = JObj, rq_key = key, rq_run_at = None\<rparr>"
  from assms obtain job st1 where s: "submit_job env user now ?q st = Inr (job, st1)"
    and t: "t = (if jr_id job = qs_next (rt_queue st) then st1\<lparr>rt_inputs := (jr_id job, i) # rt_inputs st1\<rparr> else st1)"
    unfolding submitDispatch_def by (auto elim!: bind_resultE)
  obtain rows where c: "createOn (qc_registry (re_queue env)) (qs_next (rt_queue st)) user now ?q (qs_rows (rt_queue st)) = Inr (job, rows)"
    and st1: "st1 = st\<lparr>rt_queue := (rt_queue st)\<lparr>qs_rows := rows, qs_next := qs_next (rt_queue st) + 1\<rparr>\<rparr>"
    using s by (auto simp: submit_job_def split: sum.splits prod.splits)
  show ?thesis unfolding submits_def
    by (rule exI [of _ user], rule exI [of _ now], rule exI [of _ ?q], rule exI [of _ job], rule exI [of _ rows])
      (simp add: c t st1)
qed

text \<open>Which chain an ingested report touches: a fresh one, or one that was resent.\<close>

definition touches :: "retry_state \<Rightarrow> retry_state \<Rightarrow> nat \<Rightarrow> bool" where
  "touches st t k \<longleftrightarrow> (\<forall>i. i \<noteq> k \<longrightarrow> chain_at i t = chain_at i st)"

lemma chain_at_update:
  assumes "\<And>c. rc_id (f c) = rc_id c" "rt_chains t = update_where P f (rt_chains st)" "\<And>c. P c \<Longrightarrow> rc_id c = k" "i \<noteq> k"
  shows "chain_at i t = chain_at i st"
proof -
  have "\<not> P c" if "chain_at i st = Some c" for c
    using that assms(3,4) row_by_Some unfolding chain_at_def by metis
  then show ?thesis
    unfolding chain_at_def assms(2) row_by_update_where [of rc_id f, OF assms(1)]
    by (cases "row_by rc_id i (rt_chains st)") (simp_all add: chain_at_def)
qed

lemma touches_update_chain:
  "(\<And>c. rc_id (f c) = rc_id c) \<Longrightarrow> touches st (update_chain k f st) k"
  unfolding touches_def by (intro allI impI chain_at_update [of f _ "\<lambda>c. rc_id c = k"]) simp_all

lemma touches_trans: "touches a b k \<Longrightarrow> touches b c k \<Longrightarrow> touches a c k"
  by (simp add: touches_def)

lemma touches_same: "rt_chains t = rt_chains st \<Longrightarrow> touches st t k"
  by (simp add: touches_def chain_at_def)

lemma enqueueDispatch_touches:
  assumes "enqueueDispatch env user k n d now st = Inr t"
  shows "touches st t k"
proof -
  obtain j where "rt_chains t = update_where (\<lambda>c. rc_id c = k) (\<lambda>c. c\<lparr>rc_job := j, rc_updated := now\<rparr>) (rt_chains st)"
    using enqueueDispatch_submits [OF assms] by blast
  then show ?thesis unfolding touches_def
    by (intro allI impI chain_at_update [of "\<lambda>c. c\<lparr>rc_job := j, rc_updated := now\<rparr>" _ "\<lambda>c. rc_id c = k"]) simp_all
qed

definition quiescent :: "retry_state \<Rightarrow> nat \<Rightarrow> bool" where
  "quiescent st k \<longleftrightarrow> k = rt_next st \<or> (\<exists>c. chain_at k st = Some c \<and> rc_status c = ChResent)"

lemma submits_frame:
  "submits env st1 t k \<Longrightarrow> rt_queue st1 = rt_queue st \<Longrightarrow> rt_inputs st1 = rt_inputs st \<Longrightarrow> submits env st t k"
  by (simp add: submits_def)

lemma continueChain_link:
  assumes "continueChain env user a report now st = Inr (out, t)"
  shows "\<exists>k. touches st t k \<and> (same_jobs st t \<or> submits env st t (Some k)) \<and> quiescent st k"
proof -
  define st1 where "st1 = note_event (is_attempt (at_chain a) (at_no a)) (dr_dlrEvent report) (dr_dlrAt report) st"
  have e1: "rt_chains st1 = rt_chains st" "rt_queue st1 = rt_queue st" "rt_inputs st1 = rt_inputs st"
    by (simp_all add: st1_def)
  have quiet: ?thesis if "t = st1"
    by (rule exI [of _ "rt_next st"]) (simp add: that e1 touches_same same_jobs_def quiescent_def)
  show ?thesis
  proof (cases "row_by rc_id (at_chain a) (rt_chains st1)")
    case None
    with assms have "t = st1" by (simp add: continueChain_def Let_def st1_def)
    then show ?thesis by (rule quiet)
  next
    case (Some r)
    have id: "rc_id r = at_chain a" using row_by_Some [OF Some] by simp
    show ?thesis
    proof (cases "rc_status r = ChResent")
      case False
      with assms Some have "t = st1" by (simp add: continueChain_def Let_def st1_def)
      then show ?thesis by (rule quiet)
    next
      case True
      then have q: "quiescent st (rc_id r)" using Some e1(1) id by (simp add: quiescent_def chain_at_def)
      show ?thesis
      proof (cases "rc_attempts r \<ge> rc_max r")
        case True
        let ?f = "terminated_row ChExhausted (ReAlsoFailed (rc_attempts r) (rc_max r) (dr_dlrEvent report)) now"
        from True assms Some \<open>rc_status r = ChResent\<close> have t: "t = update_chain (rc_id r) ?f st1"
          by (simp add: continueChain_def Let_def st1_def terminate_def)
        have "touches st1 t (rc_id r)" unfolding t by (rule touches_update_chain) (simp add: terminated_row_def)
        with q show ?thesis
          by (intro exI [of _ "rc_id r"]) (simp add: t touches_def chain_at_def e1 same_jobs_def)
      next
        case False
        define st2 where "st2 = update_chain (rc_id r) (reopened_row report now) st1"
        from False assms Some \<open>rc_status r = ChResent\<close> obtain n d where
          e: "enqueueDispatch env user (rc_id r) n d now st2 = Inr t"
          unfolding continueChain_def Let_def st1_def [symmetric] by (auto simp: st2_def elim!: bind_resultE)
        have "touches st st1 (rc_id r)" by (simp add: touches_same e1)
        moreover have "touches st1 st2 (rc_id r)"
          unfolding st2_def by (rule touches_update_chain) (simp add: reopened_row_def)
        ultimately have "touches st t (rc_id r)" using enqueueDispatch_touches [OF e] touches_trans by blast
        moreover have "submits env st2 t (Some (rc_id r))" using enqueueDispatch_submits [OF e] by blast
        then have "submits env st t (Some (rc_id r))" by (rule submits_frame) (simp_all add: st2_def e1)
        ultimately show ?thesis using q by blast
      qed
    qed
  qed
qed

lemma open_chain_link:
  assumes "open_chain env user report d p declined now st = Inr (out, t)" and "chains_inv st"
  shows "touches st t (rt_next st) \<and> (same_jobs st t \<or> submits env st t (Some (rt_next st)))"
proof (cases "list_ex (\<lambda>c. rc_origin c = nr_foreignId report) (rt_chains st)")
  case True
  with assms(1) show ?thesis by (simp add: open_chain_def touches_same same_jobs_def)
next
  case False
  define i where "i = rt_next st"
  define st1 where "st1 = st\<lparr>rt_chains := rt_chains st @ [opened_chain i report d p declined now], rt_next := i + 1\<rparr>"
  have e1: "rt_queue st1 = rt_queue st" "rt_inputs st1 = rt_inputs st" by (simp_all add: st1_def)
  have t1: "touches st st1 i"
  proof -
    have "row_by rc_id j [opened_chain i report d p declined now] = None" if "j \<noteq> i" for j
      using that by (simp add: row_by_def opened_chain_def)
    then show ?thesis by (simp add: touches_def chain_at_def st1_def row_by_append split: option.split)
  qed
  show ?thesis
  proof (cases declined)
    case None
    with False assms(1) have e: "enqueueDispatch env user i 1 (rp_minDelaySeconds p) now st1 = Inr t"
      unfolding open_chain_def Let_def i_def [symmetric] st1_def [symmetric] by (auto elim!: bind_resultE)
    with t1 touches_trans enqueueDispatch_touches have "touches st t i" by blast
    moreover have "submits env st t (Some i)"
      using enqueueDispatch_submits [OF e] submits_frame [OF _ e1] by blast
    ultimately show ?thesis by (simp add: i_def)
  next
    case (Some r)
    with False assms(1) have "t = st1" by (simp add: open_chain_def Let_def st1_def i_def)
    with t1 e1 show ?thesis by (simp add: i_def same_jobs_def)
  qed
qed

lemma ingestReport_link:
  assumes inv: "chains_inv st" and r: "ingestReport env user report policies now st = Inr (out, t)"
  shows "\<exists>k. touches st t k \<and> (same_jobs st t \<or> submits env st t (Some k)) \<and> quiescent st k"
proof -
  have quiet: ?thesis if "t = st"
    by (rule exI [of _ "rt_next st"]) (simp add: that touches_same same_jobs_def quiescent_def)
  have fresh: ?thesis if "open_chain env user report d p declined now st = Inr (out, t)" for d p declined
    using open_chain_link [OF that inv] by (intro exI [of _ "rt_next st"]) (simp add: quiescent_def)
  show ?thesis
  proof (cases "find (\<lambda>a. at_ref a = Some (nr_foreignId report)) (rt_attempts st)")
    case (Some a)
    with r have "continueChain env user a report now st = Inr (out, t)" by (simp add: ingestReport_def)
    then show ?thesis by (rule continueChain_link)
  next
    case None
    show ?thesis
    proof (cases "find_decision (nr_foreignId report) (rt_decisions st)")
      case (Some d)
      let ?p = "resolveRetryPolicy policies (Some (nr_smscId report)) (sd_customer d)"
      show ?thesis
      proof (cases "classifyReport (re_dateParse env) ?p (delivery_report.truncate report) now")
        case Retry
        with None Some r have "open_chain env user report d ?p None now st = Inr (out, t)"
          by (simp add: ingestReport_def Let_def)
        then show ?thesis by (rule fresh)
      next
        case (NoRetry rec why)
        show ?thesis
        proof (cases rec)
          case True
          with NoRetry None Some r have "open_chain env user report d ?p (Some why) now st = Inr (out, t)"
            by (simp add: ingestReport_def Let_def)
          then show ?thesis by (rule fresh)
        next
          case False
          with NoRetry None Some r have "t = st" by (simp add: ingestReport_def Let_def)
          then show ?thesis by (rule quiet)
        qed
      qed
    next
      case n: None
      with None r have "t = st" by (simp add: ingestReport_def)
      then show ?thesis by (rule quiet)
    qed
  qed
qed

lemma dispatch_link:
  assumes ds: "dispatch_step env ev f st = Some (fo, t)"
  shows "touches st t (rc_id (df_chain f)) \<and> same_jobs st t \<and> rt_settling t = rt_settling st \<and> rt_flights t = rt_flights st
    \<and> (\<forall>h. fo = Some h \<longrightarrow> df_chain h = df_chain f)"
  using dispatch_step_cases [OF ds]
proof (elim disjE exE conjE)
  fix c now assume a: "fo = Some (f\<lparr>df_stage := StClaimed (rc_attempts c + 1)\<rparr>)"
    "t = st\<lparr>rt_chains := update_where (claimable_chain (rc_id (df_chain f))) (claimed_chain now) (rt_chains st)\<rparr>"
  have "touches st t (rc_id (df_chain f))"
    unfolding touches_def
    by (intro allI impI chain_at_update [of "claimed_chain now" _ "claimable_chain (rc_id (df_chain f))"])
      (simp_all add: a claimed_chain_def claimable_chain_def)
  with a show ?thesis by (simp add: same_jobs_def)
next
  fix n sel assume "fo = Some (fst (spool_retry f n sel st))" "t = snd (spool_retry f n sel st)"
  then show ?thesis by (simp add: spool_retry_def touches_same same_jobs_def)
next
  fix n sel ref d now assume a: "fo = Some (f\<lparr>df_stage := StSubmitted n sel\<rparr>)" "t = committed f n sel ref d now st"
    "list_ex (\<lambda>c. rc_id c = rc_id (df_chain f) \<and> rc_status c = ChRetrying \<and> rc_attempts c = n) (rt_chains st)"
    "\<not> list_ex (\<lambda>a. is_attempt (rc_id (df_chain f)) n a \<or> at_ref a = Some ref) (rt_attempts st)"
  have t: "rt_chains t = update_where (\<lambda>c. rc_id c = rc_id (df_chain f) \<and> rc_attempts c = n) (resent_row (the (bs_smscId sel)) now) (rt_chains st)"
    "same_jobs st t" "rt_settling t = rt_settling st" "rt_flights t = rt_flights st"
    using a(3,4) by (simp_all add: a(2) committed_def commit_attempt_def Let_def same_jobs_def)
  have "touches st t (rc_id (df_chain f))"
    unfolding touches_def
    by (intro allI impI chain_at_update [OF _ t(1)]) (simp_all add: resent_row_def)
  with a(1) t show ?thesis by simp
next
  fix s reason now assume a: "fo = None" "t = terminate (rc_id (df_chain f)) s reason now st"
  have "touches st t (rc_id (df_chain f))"
    unfolding a(2) terminate_def by (rule touches_update_chain) (simp add: terminated_row_def)
  with a show ?thesis by (simp add: terminate_def same_jobs_def)
next
  fix f' assume "fo = Some f'" "t = st" "stage_moves f f'"
  then show ?thesis by (simp add: touches_same same_jobs_def stage_moves_def)
next
  fix as extra assume a: "t = st\<lparr>rt_attempts := as @ extra\<rparr>"
    "\<forall>f'. fo = Some f' \<longrightarrow> df_chain f' = df_chain f \<and> closing_ok f' \<and> flight_token f' = [] \<and> flight_ref f' = []"
  have "touches st t (rc_id (df_chain f))" by (rule touches_same) (simp add: a(1))
  moreover have "\<forall>h. fo = Some h \<longrightarrow> df_chain h = df_chain f" using a(2) by blast
  moreover have "same_jobs st t" "rt_settling t = rt_settling st" "rt_flights t = rt_flights st"
    by (simp_all add: a(1) same_jobs_def)
  ultimately show ?thesis by blast
qed

definition table_link :: "retry_env \<Rightarrow> retry_state \<Rightarrow> retry_state \<Rightarrow> bool" where
  "table_link env st t \<longleftrightarrow>
     (\<exists>k. touches st t k \<and> (same_jobs st t \<or> submits env st t (Some k)) \<and> quiescent st k)
     \<and> rt_flights t = rt_flights st \<and> rt_settling t = rt_settling st"

lemma submits_None: "submits env st t None \<Longrightarrow> submits env st t l"
  unfolding submits_def by simp blast

lemma table_link_quiet:
  assumes "rt_chains t = rt_chains st" "rt_flights t = rt_flights st" "rt_settling t = rt_settling st"
    and "same_jobs st t \<or> submits env st t None"
  shows "table_link env st t"
  unfolding table_link_def using assms submits_None [of env st t "Some (rt_next st)"]
  by (intro conjI exI [of _ "rt_next st"]) (auto simp only: touches_same quiescent_def)

definition dispatch_link_step :: "retry_env \<Rightarrow> retry_event \<Rightarrow> retry_state \<Rightarrow> retry_state \<Rightarrow> bool" where
  "dispatch_link_step env ev st t \<longleftrightarrow>
     (\<exists>f \<in> set (rt_flights st). touches st t (rc_id (df_chain f)) \<and> same_jobs st t \<and> rt_settling t = rt_settling st
        \<and> (\<forall>h \<in> set (rt_flights t). h \<in> set (rt_flights st) \<or> df_chain h = df_chain f))"

lemma resume_link:
  assumes "resume x (dispatch_step env ev) st = Some t"
  shows "dispatch_link_step env ev st t"
proof -
  obtain fo st1 where x: "x < length (rt_flights st)"
    and d: "dispatch_step env ev (rt_flights st ! x) (st\<lparr>rt_flights := drop_index x (rt_flights st)\<rparr>) = Some (fo, st1)"
    and t: "t = with_flight fo st1"
    using resume_cases [OF assms] by blast
  note l = dispatch_link [OF d]
  have w: "rt_chains t = rt_chains st1" "rt_queue t = rt_queue st1" "rt_inputs t = rt_inputs st1"
    "rt_settling t = rt_settling st1"
    by (simp_all add: t with_flight_def split: option.split)
  have "touches st t (rc_id (df_chain (rt_flights st ! x)))" "same_jobs st t" "rt_settling t = rt_settling st"
    using l w by (simp_all add: touches_def chain_at_def same_jobs_def)
  moreover have "\<forall>h \<in> set (rt_flights t). h \<in> set (rt_flights st) \<or> df_chain h = df_chain (rt_flights st ! x)"
  proof
    fix h assume "h \<in> set (rt_flights t)"
    then have "h \<in> set (rt_flights st1) \<or> fo = Some h" by (cases fo) (simp_all add: t with_flight_def, blast)
    moreover have "set (rt_flights st1) \<subseteq> set (rt_flights st)" using l set_drop_index [of x "rt_flights st"] by simp
    ultimately show "h \<in> set (rt_flights st) \<or> df_chain h = df_chain (rt_flights st ! x)" using l by blast
  qed
  ultimately show ?thesis unfolding dispatch_link_step_def using x by (intro bexI [of _ "rt_flights st ! x"]) simp_all
qed

text \<open>An operator's own dispatch job.\<close>

definition operator_link :: "retry_env \<Rightarrow> retry_event \<Rightarrow> retry_state \<Rightarrow> retry_state \<Rightarrow> bool" where
  "operator_link env ev st t \<longleftrightarrow>
     (\<exists>user key k now. ev = RSubmit user key k now \<and> submits env st t (Some k))
     \<and> rt_chains t = rt_chains st \<and> rt_flights t = rt_flights st \<and> rt_settling t = rt_settling st"

lemma kept_cases: "(r = Inl e \<Longrightarrow> P st) \<Longrightarrow> P st \<Longrightarrow> (\<And>t. r = Inr t \<Longrightarrow> P t) \<Longrightarrow> P (kept st r)"
  by (cases r) (simp_all add: kept_def)

lemma retry_step_link:
  assumes inv: "chains_inv st" and step: "retry_step env ev st = Some t"
  shows "table_link env st t \<or> dispatch_link_step env ev st t
    \<or> (\<exists>limit. t = st\<lparr>rt_settling := rt_settling st @ read_resent limit st\<rparr>)
    \<or> (\<exists>s \<in> set (rt_settling st). touches st t (ste_chain s) \<and> same_jobs st t \<and> rt_flights t = rt_flights st
         \<and> set (rt_settling t) \<subseteq> set (rt_settling st))
    \<or> (\<exists>x. start_step x st = Some t) \<or> operator_link env ev st t
    \<or> (\<exists>q s. queue_step (re_queue env) q (rt_queue st) = Some s \<and> t = st\<lparr>rt_queue := s\<rparr>)"
proof -
  have dis: ?thesis if "resume x (dispatch_step env ev) st = Some t" for x
    using resume_link [OF that] by blast
  have idle: "table_link env st st" by (rule table_link_quiet) (simp_all add: same_jobs_def)
  show ?thesis
  proof (cases ev)
    case (RPolicy user i p now)
    have "table_link env st (kept st (upsertPolicy env user i p now st))"
    proof (rule kept_cases)
      fix u assume u: "upsertPolicy env user i p now st = Inr u"
      from upsertPolicy_effect [OF this] obtain qu ps where "u = st\<lparr>rt_policies := ps, rt_queue := qu\<rparr>" by blast
      with upsertPolicy_submits [OF u] show "table_link env st u" by (intro table_link_quiet) simp_all
    qed (rule idle)+
    with step RPolicy show ?thesis by (simp add: retry_step_def)
  next
    case (RRemovePolicy i)
    have "table_link env st (kept st (removePolicy i st))"
    proof (rule kept_cases)
      fix u assume "removePolicy i st = Inr u"
      from removePolicy_effect [OF this] obtain ps where "u = st\<lparr>rt_policies := ps\<rparr>" by blast
      then show "table_link env st u" by (intro table_link_quiet) (simp_all add: same_jobs_def)
    qed (rule idle)+
    with step RRemovePolicy show ?thesis by (simp add: retry_step_def)
  next
    case (RPoll s)
    have "table_link env st (kept st (setPollInterval s st))"
    proof (rule kept_cases)
      fix u assume "setPollInterval s st = Inr u"
      then obtain r where "u = st\<lparr>rt_scan := r\<rparr>" by (auto simp: setPollInterval_def split: if_splits)
      then show "table_link env st u" by (intro table_link_quiet) (simp_all add: same_jobs_def)
    qed (rule idle)+
    with step RPoll show ?thesis by (simp add: retry_step_def)
  next
    case (RScheduleScan user now d exclude)
    have "table_link env st (kept st (map_sum id snd (ensureScanScheduled env user now d exclude st)))"
    proof (rule kept_cases)
      fix u assume "map_sum id snd (ensureScanScheduled env user now d exclude st) = Inr u"
      then obtain b where b: "ensureScanScheduled env user now d exclude st = Inr (b, u)"
        unfolding map_sum_snd_Inr ..
      from ensureScanScheduled_effect [OF b] obtain qu where "u = st\<lparr>rt_queue := qu\<rparr>" by blast
      with ensureScanScheduled_submits [OF b] show "table_link env st u" by (intro table_link_quiet) simp_all
    qed (rule idle)+
    with step RScheduleScan show ?thesis by (simp add: retry_step_def)
  next
    case (RRecordScan w e seen opened now)
    with step have "t = recordScan w e seen opened now st" by (simp add: retry_step_def)
    then have "table_link env st t" by (intro table_link_quiet) (simp_all add: recordScan_def Let_def same_jobs_def)
    then show ?thesis ..
  next
    case (RSend d)
    with step have "t = send_commit d st" by (simp add: retry_step_def)
    then have "table_link env st t" by (intro table_link_quiet) (simp_all add: send_commit_def same_jobs_def)
    then show ?thesis ..
  next
    case (RIngest user report policies now)
    with step have ps: "list_all policy_checks policies"
      and t: "t = kept st (map_sum id snd (ingestReport env user report policies now st))"
      by (auto simp: retry_step_def split: if_splits)
    have "table_link env st t" unfolding t
    proof (rule kept_cases)
      fix u assume "map_sum id snd (ingestReport env user report policies now st) = Inr u"
      then obtain out where i: "ingestReport env user report policies now st = Inr (out, u)"
        unfolding map_sum_snd_Inr ..
      from ingestReport_link [OF inv i] ingestReport_effect [OF inv ps i] show "table_link env st u"
        by (simp add: table_link_def ingest_effect_def same_dispatch_def)
    qed (rule idle)+
    then show ?thesis ..
  next
    case (RReadResent limit)
    with step have "t = st\<lparr>rt_settling := rt_settling st @ read_resent limit st\<rparr>" by (simp add: retry_step_def)
    then show ?thesis by blast
  next
    case (RSettle x event now)
    define st0 where "st0 = st\<lparr>rt_settling := drop_index x (rt_settling st)\<rparr>"
    define s where "s = rt_settling st ! x"
    from step RSettle have x: "x < length (rt_settling st)" and t: "t = settle_entry_with s event now st0"
      by (auto simp: retry_step_def settle_step_def st0_def s_def split: if_splits)
    have "touches st0 t (ste_chain s) \<and> same_jobs st0 t \<and> rt_flights t = rt_flights st0"
    proof (cases "\<exists>w. event = Some (DLR_EVENT_DELIVERED, w)")
      case True
      then obtain w where w: "event = Some (DLR_EVENT_DELIVERED, w)" by blast
      let ?u = "note_event (is_attempt (ste_chain s) (ste_no s)) DLR_EVENT_DELIVERED w st0"
      let ?f = "terminated_row ChDelivered (ReRetryDelivered (ste_no s) (ste_smsc s)) now"
      have t': "t = update_chain (ste_chain s) ?f ?u" by (simp add: t w settle_entry_with_def terminate_def)
      have "touches ?u t (ste_chain s)" unfolding t' by (rule touches_update_chain) (simp add: terminated_row_def)
      then show ?thesis by (simp add: t' touches_def chain_at_def same_jobs_def)
    next
      case False
      then have "t = st0" by (auto simp: t settle_entry_with_def split: option.split)
      then show ?thesis by (simp add: touches_same same_jobs_def)
    qed
    then have "touches st t (ste_chain s)" "same_jobs st t" "rt_flights t = rt_flights st"
      by (simp_all add: st0_def touches_def chain_at_def same_jobs_def)
    moreover have "set (rt_settling t) \<subseteq> set (rt_settling st)"
      using settle_entry_with_step [of st0 s event now] set_drop_index [of x "rt_settling st"] by (simp add: t st0_def)
    moreover have "s \<in> set (rt_settling st)" using x by (simp add: s_def)
    ultimately show ?thesis by blast
  next
    case (RStart x)
    with step have "start_step x st = Some t" by (simp add: retry_step_def)
    then show ?thesis by blast
  next
    case (RSubmit user key k now)
    have "table_link env st (kept st (submitDispatch env user key k now st))
        \<or> operator_link env ev st (kept st (submitDispatch env user key k now st))"
    proof (rule kept_cases)
      fix u assume u: "submitDispatch env user key k now st = Inr u"
      from submitDispatch_effect [OF this] obtain qu inp where "u = st\<lparr>rt_queue := qu, rt_inputs := inp\<rparr>" by blast
      with submitDispatch_submits [OF u] RSubmit show "table_link env st u \<or> operator_link env ev st u"
        by (intro disjI2) (simp add: operator_link_def)
    qed (simp_all add: idle)
    with step RSubmit show ?thesis by (auto simp: retry_step_def)
  next
    case (RQueue q)
    with step obtain s where "queue_step (re_queue env) q (rt_queue st) = Some s" "t = st\<lparr>rt_queue := s\<rparr>"
      by (auto simp: retry_step_def)
    then show ?thesis by blast
  qed (use step dis in \<open>simp_all add: retry_step_def\<close>)
qed

subsection \<open>A chain without a job\<close>

definition job_over :: "retry_state \<Rightarrow> nat \<Rightarrow> bool" where
  "job_over st j \<longleftrightarrow>
     list_ex (\<lambda>r. jr_id r = j \<and> terminal r) (qs_rows (rt_queue st))
     \<and> list_all (\<lambda>e. jr_id e \<noteq> j) (qs_running (rt_queue st))"

text \<open>
  The chain waits for a dispatch, every job that names it has ended, and nothing in flight concerns it.
\<close>

definition stranded :: "nat \<Rightarrow> retry_state \<Rightarrow> bool" where
  "stranded i st \<longleftrightarrow>
     (case chain_at i st of None \<Rightarrow> False | Some c \<Rightarrow> rc_status c = ChPending \<or> rc_status c = ChRetrying)
     \<and> list_all (\<lambda>(j, k). k = i \<longrightarrow> job_over st j) (rt_inputs st)
     \<and> list_all (\<lambda>f. rc_id (df_chain f) \<noteq> i) (rt_flights st)
     \<and> list_all (\<lambda>s. ste_chain s \<noteq> i) (rt_settling st)"

lemma terminal_grows:
  assumes "rows_grow rows rows'" "list_ex (\<lambda>r. jr_id r = j \<and> terminal r) rows"
  shows "list_ex (\<lambda>r. jr_id r = j \<and> terminal r) rows'"
proof -
  obtain r where r: "r \<in> set rows" "jr_id r = j" "terminal r" using assms(2) by (auto simp: list_ex_iff)
  then obtain r' where "r' \<in> set rows'" "evolves r r'" using assms(1) unfolding rows_grow_def by blast
  with r show ?thesis by (auto simp: list_ex_iff evolves_def)
qed

lemma job_over_queue:
  assumes inv: "queue_inv (rt_queue st)" and reg: "registry_ok (qc_registry cfg)"
    and step: "queue_step cfg q (rt_queue st) = Some s" and over: "job_over st j"
  shows "job_over (st\<lparr>rt_queue := s\<rparr>) j"
proof -
  let ?q = "rt_queue st"
  have rows: "list_ex (\<lambda>r. jr_id r = j \<and> terminal r) (qs_rows s)"
    using queue_step_effect [OF inv reg step] terminal_grows over unfolding job_over_def by blast
  have "set (qs_running s) \<subseteq> set (qs_running ?q) \<or> (\<exists>r \<in> set (qs_rows ?q). jr_status r = Queued
      \<and> (\<exists>w t. set (qs_running s) = insert (claimed_row w t r) (set (qs_running ?q))))"
  proof (cases q)
    case (QClaim locked worker now)
    show ?thesis
    proof (cases "claimOn locked worker now (qs_rows ?q)")
      case (Inl e)
      with step QClaim show ?thesis by simp
    next
      case (Inr p)
      obtain c rows' where p: "p = (c, rows')" by (cases p)
      have d: "distinct (map jr_id (qs_rows ?q))" using inv by (simp add: queue_inv_def job_rows_ok_def)
      from claimOn_cases [OF Inr [unfolded p] d] show ?thesis
      proof (elim disjE bexE conjE)
        assume "c = None"
        with step QClaim Inr p show ?thesis by simp
      next
        fix r assume "r \<in> set (qs_rows ?q)" "due now r" "c = Some (claimed_row worker now r)"
        with step QClaim Inr p show ?thesis
          by (intro disjI2 bexI [of _ r] conjI exI [of _ worker] exI [of _ now]) (auto simp: due_def)
      qed
    qed
  next
    case (QFinish x out now)
    with step set_drop_index [of x "qs_running ?q"] show ?thesis by (auto split: if_splits)
  next
    case (QCrash x)
    with step set_drop_index [of x "qs_running ?q"] show ?thesis by (auto split: if_splits)
  next
    case (QCreate user rq now)
    with step show ?thesis by (auto split: sum.splits prod.splits)
  qed (use step in \<open>auto split: if_splits\<close>)
  moreover have "jr_id r \<noteq> j" if r: "r \<in> set (qs_rows ?q)" "jr_status r = Queued" for r
  proof
    assume "jr_id r = j"
    moreover obtain r0 where r0: "r0 \<in> set (qs_rows ?q)" "jr_id r0 = j" "terminal r0"
      using over by (auto simp: job_over_def list_ex_iff)
    ultimately have "r0 = r"
      using r inv by (intro distinct_keys_unique [of jr_id "qs_rows ?q"]) (simp_all add: queue_inv_def job_rows_ok_def)
    with r0 r(2) show False by (simp add: terminal_def)
  qed
  moreover have "\<forall>e \<in> set (qs_running ?q). jr_id e \<noteq> j" using over by (simp add: job_over_def list_all_iff)
  ultimately have "\<forall>e \<in> set (qs_running s). jr_id e \<noteq> j"
    by (elim disjE bexE conjE exE) (auto simp: claimed_row_def)
  with rows show ?thesis by (simp add: job_over_def list_all_iff)
qed

lemma submits_queue:
  assumes inv: "queue_inv (rt_queue st)" and reg: "registry_ok (qc_registry (re_queue env))" and s: "submits env st t l"
  shows "queue_inv (rt_queue t) \<and> (job_over st j \<longrightarrow> job_over t j)
    \<and> (\<forall>(j, k) \<in> set (rt_inputs t). (j, k) \<in> set (rt_inputs st) \<or> l = Some k)"
proof -
  obtain user now q job rows where
    c: "createOn (qc_registry (re_queue env)) (qs_next (rt_queue st)) user now q (qs_rows (rt_queue st)) = Inr (job, rows)"
    and t: "rt_queue t = (rt_queue st)\<lparr>qs_rows := rows, qs_next := qs_next (rt_queue st) + 1\<rparr>"
    and i: "rt_inputs t = rt_inputs st \<or> (\<exists>k. l = Some k \<and> rt_inputs t = (jr_id job, k) # rt_inputs st)"
    using s unfolding submits_def by blast
  note cs = create_step [OF inv reg c]
  have "queue_inv ((rt_queue st)\<lparr>qs_rows := rows, qs_next := qs_next (rt_queue st) + 1, qs_running := qs_running (rt_queue st)\<rparr>)"
    using cs by (intro queue_inv_rows [OF inv]) simp_all
  then have "queue_inv (rt_queue t)" by (simp add: t)
  moreover have "job_over st j \<longrightarrow> job_over t j" using terminal_grows cs by (auto simp: job_over_def t)
  moreover have "\<forall>(j, k) \<in> set (rt_inputs t). (j, k) \<in> set (rt_inputs st) \<or> l = Some k" using i by auto
  ultimately show ?thesis by blast
qed

lemma read_resent_chain:
  assumes "s \<in> set (read_resent limit st)"
  shows "\<exists>c \<in> set (rt_chains st). rc_id c = ste_chain s \<and> rc_status c = ChResent"
proof -
  from assms have "s \<in> set (concat (map (open_attempt st) (sort_cmp (cmp_key rc_updated) (rt_chains st))))"
    unfolding read_resent_def by (rule in_set_takeD)
  then obtain c where c: "c \<in> set (rt_chains st)" "s \<in> set (open_attempt st c)" by auto
  then have "rc_status c = ChResent \<and> ste_chain s = rc_id c"
    by (auto simp: open_attempt_def split: if_splits option.splits)
  with c(1) show ?thesis by (intro bexI [of _ c]) simp_all
qed

text \<open>Any event except an operator's own dispatch job for the chain.\<close>

definition not_submitted :: "nat \<Rightarrow> retry_event \<Rightarrow> bool" where
  "not_submitted i ev = (case ev of RSubmit _ _ k _ \<Rightarrow> k \<noteq> i | _ \<Rightarrow> True)"

lemma stranded_step:
  assumes inv: "retry_inv st" and q: "queue_inv (rt_queue st)" and reg: "registry_ok (qc_registry (re_queue env))"
    and s: "stranded i st" and step: "retry_step env ev st = Some t"
    and other: "not_submitted i ev"
  shows "chain_at i t = chain_at i st \<and> stranded i t \<and> queue_inv (rt_queue t)"
proof -
  have ch: "chains_inv st" using inv by (simp add: retry_inv_def)
  obtain c where c: "chain_at i st = Some c" "rc_status c = ChPending \<or> rc_status c = ChRetrying"
    using s by (auto simp: stranded_def split: option.splits)
  have cs: "c \<in> set (rt_chains st)" "rc_id c = i" using row_by_Some c(1) unfolding chain_at_def by metis+
  have jobs: "\<forall>(j, k) \<in> set (rt_inputs st). k = i \<longrightarrow> job_over st j"
    and fl: "\<forall>f \<in> set (rt_flights st). rc_id (df_chain f) \<noteq> i" and se: "\<forall>s \<in> set (rt_settling st). ste_chain s \<noteq> i"
    using s by (simp_all add: stranded_def list_all_iff)
  have intro: "chain_at i t = chain_at i st \<and> stranded i t \<and> queue_inv (rt_queue t)"
    if "chain_at i t = chain_at i st" "\<forall>(j, k) \<in> set (rt_inputs t). k = i \<longrightarrow> job_over t j"
      "\<forall>f \<in> set (rt_flights t). rc_id (df_chain f) \<noteq> i" "\<forall>s \<in> set (rt_settling t). ste_chain s \<noteq> i"
      "queue_inv (rt_queue t)"
    using that c by (simp add: stranded_def list_all_iff)
  have kept_jobs: "\<forall>(j, k) \<in> set (rt_inputs t). k = i \<longrightarrow> job_over t j" "queue_inv (rt_queue t)" if "same_jobs st t"
    using that jobs q by (simp_all add: same_jobs_def job_over_def)
  from retry_step_link [OF ch step] show ?thesis
  proof (elim disjE exE bexE conjE)
    assume "table_link env st t"
    then obtain k where k: "touches st t k" "same_jobs st t \<or> submits env st t (Some k)" "quiescent st k"
      and e: "rt_flights t = rt_flights st" "rt_settling t = rt_settling st"
      unfolding table_link_def by blast
    have ki: "k \<noteq> i"
    proof
      assume "k = i"
      with k(3) c cs ch show False by (auto simp: quiescent_def chains_inv_def)
    qed
    have "(\<forall>(j, l) \<in> set (rt_inputs t). l = i \<longrightarrow> job_over t j) \<and> queue_inv (rt_queue t)"
      using k(2)
    proof
      assume "same_jobs st t"
      with kept_jobs show ?thesis by blast
    next
      assume "submits env st t (Some k)"
      then have sub: "queue_inv (rt_queue t)" "\<And>j. job_over st j \<longrightarrow> job_over t j"
        "\<forall>(j, l) \<in> set (rt_inputs t). (j, l) \<in> set (rt_inputs st) \<or> Some k = Some l"
        using submits_queue [OF q reg] by blast+
      have "job_over t j" if "(j, l) \<in> set (rt_inputs t)" "l = i" for j l
        using that sub(2,3) ki jobs by blast
      with sub(1) show ?thesis by blast
    qed
    with k(1) ki e fl se show ?thesis by (intro intro) (simp_all add: touches_def)
  next
    assume "dispatch_link_step env ev st t"
    then obtain f where f: "f \<in> set (rt_flights st)" "touches st t (rc_id (df_chain f))" "same_jobs st t"
      "rt_settling t = rt_settling st" "\<forall>h \<in> set (rt_flights t). h \<in> set (rt_flights st) \<or> df_chain h = df_chain f"
      unfolding dispatch_link_step_def by blast
    have fi: "rc_id (df_chain f) \<noteq> i" using fl f(1) by blast
    have "\<forall>h \<in> set (rt_flights t). rc_id (df_chain h) \<noteq> i" using f(5) fi fl by metis
    with f fi kept_jobs se show ?thesis by (intro intro) (simp_all add: touches_def)
  next
    fix limit assume t: "t = st\<lparr>rt_settling := rt_settling st @ read_resent limit st\<rparr>"
    have "ste_chain s \<noteq> i" if "s \<in> set (read_resent limit st)" for s
    proof
      assume "ste_chain s = i"
      with read_resent_chain [OF that] obtain d where d: "d \<in> set (rt_chains st)" "rc_id d = i" "rc_status d = ChResent" by auto
      with cs ch have "d = c" by (intro distinct_keys_unique [of rc_id "rt_chains st"]) (simp_all add: chains_inv_def)
      with d(3) c(2) show False by simp
    qed
    then show ?thesis using jobs q fl se by (intro intro) (auto simp: t chain_at_def job_over_def)
  next
    fix s assume a: "s \<in> set (rt_settling st)" "touches st t (ste_chain s)" "same_jobs st t"
      "rt_flights t = rt_flights st" "set (rt_settling t) \<subseteq> set (rt_settling st)"
    have "chain_at i t = chain_at i st" using a(1,2) se unfolding touches_def by metis
    with a kept_jobs fl se show ?thesis by (intro intro) auto
  next
    fix x assume "start_step x st = Some t"
    from start_step_cases [OF this] show ?thesis
    proof
      assume "t = st"
      with s q show ?thesis by simp
    next
      assume "\<exists>k f. x < length (qs_running (rt_queue st))
        \<and> map_of (rt_inputs st) (jr_id (qs_running (rt_queue st) ! x)) = Some k
        \<and> load_dispatch k st = Some f \<and> t = st\<lparr>rt_flights := rt_flights st @ [f]\<rparr>"
      then obtain k f where x: "x < length (qs_running (rt_queue st))"
        and m: "map_of (rt_inputs st) (jr_id (qs_running (rt_queue st) ! x)) = Some k"
        and l: "load_dispatch k st = Some f" and t: "t = st\<lparr>rt_flights := rt_flights st @ [f]\<rparr>" by blast
      have "k \<noteq> i"
      proof
        assume "k = i"
        with map_of_SomeD [OF m] jobs have "job_over st (jr_id (qs_running (rt_queue st) ! x))" by blast
        then have "\<forall>e \<in> set (qs_running (rt_queue st)). jr_id e \<noteq> jr_id (qs_running (rt_queue st) ! x)"
          by (simp add: job_over_def list_all_iff)
        with nth_mem [OF x] show False by blast
      qed
      with load_dispatch_cases [OF l] jobs q fl se show ?thesis
        by (intro intro) (auto simp: t chain_at_def job_over_def)
    qed
  next
    assume "operator_link env ev st t"
    then obtain user key k now where e: "ev = RSubmit user key k now" "submits env st t (Some k)" "rt_chains t = rt_chains st"
      "rt_flights t = rt_flights st" "rt_settling t = rt_settling st"
      unfolding operator_link_def by blast
    have ki: "k \<noteq> i" using e(1) other by (simp add: not_submitted_def)
    have sub: "queue_inv (rt_queue t)" "\<And>j. job_over st j \<longrightarrow> job_over t j"
      "\<forall>(j, l) \<in> set (rt_inputs t). (j, l) \<in> set (rt_inputs st) \<or> Some k = Some l"
      using submits_queue [OF q reg e(2)] by blast+
    have "job_over t j" if "(j, l) \<in> set (rt_inputs t)" "l = i" for j l
      using that sub(2,3) ki jobs by blast
    then show ?thesis using fl se sub(1) by (intro intro) (auto simp: chain_at_def e(3-5))
  next
    fix qe s assume a: "queue_step (re_queue env) qe (rt_queue st) = Some s" "t = st\<lparr>rt_queue := s\<rparr>"
    have "\<forall>(j, k) \<in> set (rt_inputs t). k = i \<longrightarrow> job_over t j"
      using jobs job_over_queue [OF q reg a(1)] by (auto simp: a(2))
    moreover have "queue_inv (rt_queue t)" using queue_step_effect [OF q reg a(1)] by (simp add: a(2))
    ultimately show ?thesis using fl se by (intro intro) (simp_all add: a(2) chain_at_def)
  qed
qed

lemma queue_inv_step:
  assumes inv: "retry_inv st" and q: "queue_inv (rt_queue st)" and reg: "registry_ok (qc_registry (re_queue env))"
    and step: "retry_step env ev st = Some t"
  shows "queue_inv (rt_queue t)"
proof -
  have ch: "chains_inv st" using inv by (simp add: retry_inv_def)
  have same: "queue_inv (rt_queue t)" if "same_jobs st t" using that q by (simp add: same_jobs_def)
  from retry_step_link [OF ch step] show ?thesis
  proof (elim disjE exE bexE conjE)
    assume "table_link env st t"
    then obtain k where "same_jobs st t \<or> submits env st t (Some k)" unfolding table_link_def by blast
    with same submits_queue [OF q reg] show ?thesis by blast
  next
    assume "dispatch_link_step env ev st t"
    with same show ?thesis unfolding dispatch_link_step_def by blast
  next
    fix x assume "start_step x st = Some t"
    from start_step_cases [OF this] q show ?thesis by auto
  next
    assume "operator_link env ev st t"
    with submits_queue [OF q reg] show ?thesis unfolding operator_link_def by blast
  next
    fix qe s assume "queue_step (re_queue env) qe (rt_queue st) = Some s" "t = st\<lparr>rt_queue := s\<rparr>"
    with queue_step_effect [OF q reg] show ?thesis by simp
  qed (use q same in simp_all)
qed

definition sound_retry :: "retry_env \<Rightarrow> retry_state \<Rightarrow> bool" where
  "sound_retry env st \<longleftrightarrow> registry_ok (qc_registry (re_queue env)) \<and> retry_inv st \<and> queue_inv (rt_queue st)"

interpretation sound_retries: invariant_machine "retry_step env" "\<lambda>_ _. True" "sound_retry env" for env
  by unfold_locales (use retry_step_inv queue_inv_step in \<open>auto simp: sound_retry_def\<close>)

interpretation stranded_retries: invariant_machine "retry_step env" "\<lambda>ev _. not_submitted i ev"
  "\<lambda>st. sound_retry env st \<and> stranded i st" for env i
proof unfold_locales
  fix s e t assume "sound_retry env s \<and> stranded i s" "not_submitted i e" "retry_step env e s = Some t"
  then show "sound_retry env t \<and> stranded i t"
    using sound_retries.step_inv [of env s e t] stranded_step [of s env i e t]
    by (auto simp: sound_retry_def)
qed

lemma reachable_sound_retry:
  assumes "registry_ok (qc_registry (re_queue env))" "run_steps (retry_step env) es empty_retry = Some st"
  shows "sound_retry env st"
proof -
  have "queue_inv (rt_queue empty_retry)" using queue_inv_empty by (simp add: empty_retry_def)
  then have "sound_retry env empty_retry" using assms(1) retry_inv_empty by (simp add: sound_retry_def)
  from sound_retries.run_inv [OF this sound_retries.ok_run_total assms(2)] show ?thesis by simp
qed

text \<open>C38. Nothing of the service rescues a chain without a job: once a chain waits for a dispatch and the
  jobs that name it have ended, no scan, no settlement, no worker, no policy change and no operation of
  the queue ever changes its row again, unless an operator submits a dispatch job of his own that names
  the chain.\<close>

theorem stranded_chain_stays:
  assumes "registry_ok (qc_registry (re_queue env))" and "run_steps (retry_step env) es0 empty_retry = Some st"
    and "stranded i st" and "run_steps (retry_step env) es st = Some t" and "list_all (not_submitted i) es"
  shows "chain_at i t = chain_at i st \<and> stranded i t"
proof -
  have inv: "sound_retry env st \<and> stranded i st" using reachable_sound_retry [OF assms(1,2)] assms(3) by simp
  have ok: "stranded_retries.ok_run env i es st"
    by (rule stranded_retries.ok_run_events) (use assms(5) in \<open>simp add: list_all_iff\<close>)
  have "chain_at i t = chain_at i st"
  proof (rule stranded_retries.run_related [where R = "\<lambda>a b. chain_at i b = chain_at i a", OF _ _ _ inv ok assms(4)])
    fix e a b assume "sound_retry env a \<and> stranded i a" "not_submitted i e" "retry_step env e a = Some b"
    then show "chain_at i b = chain_at i a"
      using stranded_step [of a env i e b] by (auto simp: sound_retry_def)
  qed simp_all
  with stranded_retries.run_inv [OF inv ok assms(4)] show ?thesis by simp
qed

text \<open>
  The way there: the engine's database does not answer, so each of the four executions of the dispatch
  job ends at the read of the engine, before the claim, and the job is a dead letter within 35 seconds.
\<close>

definition outage :: "retry_event list" where
  "outage =
     concat (map (\<lambda>t. [RQueue (QClaim [0] ''w'' t), RStart 0, RDie 0, RQueue (QFinish 0 (Threw ''unreachable'' False) t)])
       [1000, 6000, 16000, 36000])"

theorem stranded_chain_stays_witness:
  "\<exists>st t c. run_steps (retry_step example_retry_env) (first_failure 2 @ outage) empty_retry = Some st
     \<and> run_steps (retry_step example_retry_env) [RReadResent 200, RSend example_decision, RQueue (QClaim [] ''w'' 90000)] st = Some t
     \<and> chain_at 0 t = Some c \<and> rc_status c = ChPending \<and> rc_attempts c = 0"
proof -
  let ?r = "run_steps (retry_step example_retry_env) (first_failure 2 @ outage) empty_retry"
  let ?es = "[RReadResent 200, RSend example_decision, RQueue (QClaim [] ''w'' 90000)]"
  have others: "list_all (not_submitted 0) ?es" by (simp add: not_submitted_def)
  have "registry_ok (qc_registry (re_queue example_retry_env))
      \<and> (case ?r of None \<Rightarrow> False | Some st \<Rightarrow> stranded 0 st
           \<and> (case chain_at 0 st of None \<Rightarrow> False | Some c \<Rightarrow> rc_status c = ChPending \<and> rc_attempts c = 0)
           \<and> run_steps (retry_step example_retry_env) ?es st \<noteq> None)"
    by code_simp
  then obtain st c t where st: "?r = Some st" "stranded 0 st" "chain_at 0 st = Some c" "rc_status c = ChPending"
    "rc_attempts c = 0" "run_steps (retry_step example_retry_env) ?es st = Some t"
    and reg: "registry_ok (qc_registry (re_queue example_retry_env))"
    by (auto split: option.splits)
  from stranded_chain_stays [OF reg st(1,2,6) others] st show ?thesis by metis
qed

text \<open>The operator's way out: with the engine back, a job submitted for the chain claims its next attempt.\<close>

theorem submitted_dispatch_rescues:
  "\<exists>st t c. run_steps (retry_step example_retry_env) (first_failure 2 @ outage) empty_retry = Some st \<and> stranded 0 st
     \<and> run_steps (retry_step example_retry_env)
         [RSubmit ''op'' None 0 90000, RQueue (QClaim [0] ''w'' 90000), RStart 0, REngine 0 (\<lambda>_. None), RClaim 0 90001] st = Some t
     \<and> chain_at 0 t = Some c \<and> rc_status c = ChRetrying \<and> rc_attempts c = 1"
proof -
  have "(case run_steps (retry_step example_retry_env) (first_failure 2 @ outage) empty_retry of
      None \<Rightarrow> False
    | Some st \<Rightarrow> stranded 0 st
        \<and> (case run_steps (retry_step example_retry_env)
             [RSubmit ''op'' None 0 90000, RQueue (QClaim [0] ''w'' 90000), RStart 0, REngine 0 (\<lambda>_. None), RClaim 0 90001] st of
             None \<Rightarrow> False
           | Some t \<Rightarrow> (case chain_at 0 t of None \<Rightarrow> False | Some c \<Rightarrow> rc_status c = ChRetrying \<and> rc_attempts c = 1)))"
    by code_simp
  then show ?thesis by (auto split: option.splits)
qed

end
