(* ===== verification/RetryScan.thy ===== *)
theory RetryScan
  imports RetryBudget
begin

section \<open>The scan of delivery reports: delivery-retry/delivery-retry.service.ts\<close>

text \<open>
  One sweep over the engine's negative reports past the watermark, with the storm cap, the watermark's
  rules, the settling of resent chains and the scheduling of the next sweep. A sweep is a sequence of
  the transactions of \<^theory_text>\<open>RetryChains\<close>; \<open>scanReports\<close> and \<open>runScheduledScan\<close> are the sweep
  undisturbed. What the polling rests on, the first read of the policies and the last transaction, is
  also stated for itself, since anything can happen between the two.
\<close>

datatype scan_evidence = EvUnavailable string | EvStorm int nat | EvStopped nat

record sweep_outcome =
  so_available :: bool
  so_enabled :: bool
  so_scanned :: nat
  so_opened :: nat
  so_duplicates :: nat
  so_continuations :: nat
  so_skipped :: nat
  so_settled :: nat
  so_watermark :: nat
  so_evidence :: "scan_evidence option"

text \<open>What the sweep reads outside the service's tables: the probe, \<open>sent_sms\<close> and the tenant's binds.\<close>

record engine_view =
  vw_available :: bool
  vw_evidence :: string
  vw_sent :: "sent_row list"
  vw_smscs :: "string list"

definition empty_sweep :: "nat \<Rightarrow> sweep_outcome" where
  "empty_sweep w =
     \<lparr>so_available = True, so_enabled = True, so_scanned = 0, so_opened = 0, so_duplicates = 0,
      so_continuations = 0, so_skipped = 0, so_settled = 0, so_watermark = w, so_evidence = None\<rparr>"

definition count_ingest :: "ingest_outcome \<Rightarrow> sweep_outcome \<Rightarrow> sweep_outcome" where
  "count_ingest h out =
     (case h of
        Opened \<Rightarrow> out\<lparr>so_opened := so_opened out + 1\<rparr>
      | Continued \<Rightarrow> out\<lparr>so_continuations := so_continuations out + 1\<rparr>
      | Duplicate \<Rightarrow> out\<lparr>so_duplicates := so_duplicates out + 1\<rparr>
      | Skipped \<Rightarrow> out\<lparr>so_skipped := so_skipped out + 1\<rparr>)"

text \<open>
  The loop over the page. It returns the counters, the last report that was handled, the report it
  failed on, and the state. \<open>clock\<close> is the time at each report.
\<close>

fun scan_loop ::
    "retry_env \<Rightarrow> string \<Rightarrow> policy_row list \<Rightarrow> (nat \<Rightarrow> int) \<Rightarrow> int \<Rightarrow> nat \<Rightarrow> int \<Rightarrow> sweep_outcome \<Rightarrow> nat
       \<Rightarrow> negative_report list \<Rightarrow> retry_state \<Rightarrow> sweep_outcome \<times> nat \<times> (nat \<times> retry_error) option \<times> retry_state" where
  "scan_loop env user policies clock cap paged budget out highest [] st = (out, highest, None, st)"
| "scan_loop env user policies clock cap paged budget out highest (r # rs) st =
     (if budget \<le> 0 then (out\<lparr>so_evidence := Some (EvStorm cap (paged - so_scanned out))\<rparr>, highest, None, st)
      else
        let out1 = out\<lparr>so_scanned := so_scanned out + 1\<rparr>
        in case ingestReport env user r policies (clock (so_scanned out)) st of
             Inl e \<Rightarrow> (out1, highest, Some (nr_dlrSqlId r, e), st)
           | Inr (h, st1) \<Rightarrow>
               scan_loop env user policies clock cap paged
                 (if h = Opened \<or> h = Continued then budget - 1 else budget)
                 (count_ingest h out1) (nr_dlrSqlId r) rs st1)"

definition settleResentChains ::
    "retry_env \<Rightarrow> sent_row list \<Rightarrow> nat \<Rightarrow> int \<Rightarrow> retry_state \<Rightarrow> nat \<times> retry_state" where
  "settleResentChains env rows limit now st =
     (let entries = read_resent limit st;
          event = latestDeliveryEvents (re_toIso env) rows (map ste_ref entries)
      in (length (filter (\<lambda>s. map_option fst (event (ste_ref s)) = Some DLR_EVENT_DELIVERED) entries),
          fold (\<lambda>s. settle_entry_with s (event (ste_ref s)) now) entries st))"

definition scanReports ::
    "retry_env \<Rightarrow> engine_view \<Rightarrow> string \<Rightarrow> int option \<Rightarrow> (nat \<Rightarrow> int) \<Rightarrow> retry_state \<Rightarrow> sweep_outcome \<times> retry_state" where
  "scanReports env view user limit clock st =
     (if \<not> vw_available view
      then ((empty_sweep 0)\<lparr>so_available := False, so_evidence := Some (EvUnavailable (vw_evidence view))\<rparr>,
            recordScan None (Some (ScanUnavailable (vw_evidence view))) 0 0 (clock 0) st)
      else
        let policies = policyRows st;
            watermark = sc_watermark (fst (scanner_row st));
            st1 = snd (scanner_row st);
            events = scannableEvents policies
        in if events = [] then ((empty_sweep watermark)\<lparr>so_enabled := False\<rparr>, recordScan None None 0 0 (clock 0) st1)
           else if vw_smscs view = []
           then (empty_sweep watermark, recordScan None (Some ScanNoSmsc) 0 0 (clock 0) st1)
           else
             let reports = findNegativeDeliveryReports (re_toIso env) watermark events (vw_smscs view)
                   (Some (int (page_limit limit))) (vw_sent view);
                 cap = rp_maxRetriesPerMinute (resolveRetryPolicy policies None None);
                 budget = max 0 (cap - int (recentAttemptCount (clock 0) st1))
             in case scan_loop env user policies clock cap (length reports) budget (empty_sweep watermark) watermark reports st1 of
                  (out, highest, Some (i, e), st2) \<Rightarrow>
                    (out\<lparr>so_watermark := highest, so_evidence := Some (EvStopped i)\<rparr>,
                     recordScan (Some highest) (Some (ScanStoppedAt i e)) (so_scanned out) (so_opened out)
                       (clock (so_scanned out)) st2)
                | (out, highest, None, st2) \<Rightarrow>
                    (case settleResentChains env (vw_sent view) 200 (clock (so_scanned out)) st2 of
                       (nsettled, st3) \<Rightarrow>
                         (out\<lparr>so_settled := nsettled, so_watermark := highest\<rparr>,
                          recordScan (Some highest) None (so_scanned out) (so_opened out) (clock (so_scanned out)) st3)))"

text \<open>The last transaction of a scan job's handler.\<close>

definition scheduleNextScan ::
    "retry_env \<Rightarrow> string \<Rightarrow> nat option \<Rightarrow> int \<Rightarrow> retry_state \<Rightarrow> (retry_error, bool \<times> retry_state) result" where
  "scheduleNextScan env user currentJob now st =
     (if scannableEvents (policyRows st) = [] then Inr (False, st)
      else
        let (row, st') = scanner_row st
        in ensureScanScheduled env user now (if sc_poll row = 0 then 60 else sc_poll row) currentJob st')"

definition runScheduledScan ::
    "retry_env \<Rightarrow> engine_view \<Rightarrow> string \<Rightarrow> nat option \<Rightarrow> (nat \<Rightarrow> int) \<Rightarrow> int \<Rightarrow> retry_state
       \<Rightarrow> (retry_error, sweep_outcome \<times> bool \<times> retry_state) result" where
  "runScheduledScan env view user currentJob clock now st =
     (case scanReports env view user None clock st of
        (out, st1) \<Rightarrow>
          if \<not> so_enabled out then Inr (out, False, st1)
          else bind_result (scheduleNextScan env user currentJob now st1)
                 (\<lambda>(scheduled, st2). Inr (out, scheduled, st2)))"

subsection \<open>The loop\<close>

lemma enqueueDispatch_length:
  "enqueueDispatch env user i n d now st = Inr t \<Longrightarrow> length (rt_chains t) = length (rt_chains st) \<and> rt_scan t = rt_scan st"
  by (drule enqueueDispatch_effect) (auto simp: update_chain_def)

lemma continueChain_length:
  assumes "continueChain env user a r now st = Inr (h, t)"
  shows "length (rt_chains t) = length (rt_chains st) \<and> rt_scan t = rt_scan st \<and> h \<noteq> Opened"
  using assms
  by (auto simp: continueChain_def Let_def terminate_def note_event_def update_chain_def split: option.splits if_splits
      elim!: bind_resultE dest!: enqueueDispatch_length)

lemma open_chain_length:
  assumes "open_chain env user r d p declined now st = Inr (h, t)"
  shows "length (rt_chains t) = length (rt_chains st) + (if h = Opened then 1 else 0) \<and> rt_scan t = rt_scan st"
  using assms
  by (auto simp: open_chain_def Let_def split: if_splits elim!: bind_resultE dest!: enqueueDispatch_length)

lemma ingestReport_length:
  assumes "ingestReport env user r policies now st = Inr (h, t)"
  shows "length (rt_chains t) = length (rt_chains st) + (if h = Opened then 1 else 0) \<and> rt_scan t = rt_scan st"
proof (cases "find (\<lambda>a. at_ref a = Some (nr_foreignId r)) (rt_attempts st)")
  case (Some a)
  with assms continueChain_length show ?thesis by (simp add: ingestReport_def)
next
  case n: None
  show ?thesis
  proof (cases "find_decision (nr_foreignId r) (rt_decisions st)")
    case None
    with n assms show ?thesis by (auto simp: ingestReport_def)
  next
    case (Some d)
    let ?p = "resolveRetryPolicy policies (Some (nr_smscId r)) (sd_customer d)"
    show ?thesis
    proof (cases "classifyReport (re_dateParse env) ?p (delivery_report.truncate r) now")
      case Retry
      with n Some assms show ?thesis by (intro open_chain_length) (simp add: ingestReport_def Let_def)
    next
      case (NoRetry rec why)
      show ?thesis
      proof (cases rec)
        case True
        with NoRetry n Some assms show ?thesis by (intro open_chain_length) (simp add: ingestReport_def Let_def)
      next
        case False
        with NoRetry n Some assms show ?thesis by (auto simp: ingestReport_def Let_def)
      qed
    qed
  qed
qed

definition handled_count :: "sweep_outcome \<Rightarrow> nat" where
  "handled_count out = so_opened out + so_duplicates out + so_continuations out + so_skipped out"

text \<open>How the loop splits its page: what it handled, and what it leaves to the next sweep.\<close>

lemma scan_loop_result:
  assumes "scan_loop env user policies clock cap paged budget out w rs st = (out', w', failed, st')"
    and "sorted_wrt (\<lambda>a b. nr_dlrSqlId a < nr_dlrSqlId b) rs" "\<forall>r \<in> set rs. w < nr_dlrSqlId r"
  shows "\<exists>page left. rs = page @ left \<and> w \<le> w' \<and> (\<forall>r \<in> set page. nr_dlrSqlId r \<le> w') \<and> (\<forall>r \<in> set left. w' < nr_dlrSqlId r)
    \<and> handled_count out' = handled_count out + length page
    \<and> int (so_opened out' + so_continuations out') \<le> int (so_opened out + so_continuations out) + max 0 budget
    \<and> length (rt_chains st') + so_opened out = length (rt_chains st) + so_opened out'
    \<and> rt_scan st' = rt_scan st
    \<and> (left \<noteq> [] \<longrightarrow> (failed \<noteq> None \<and> map_option fst failed = Some (nr_dlrSqlId (hd left)))
         \<or> so_evidence out' \<noteq> None
             \<and> int (so_opened out' + so_continuations out') = int (so_opened out + so_continuations out) + max 0 budget)
    \<and> (left = [] \<longrightarrow> failed = None)"
  using assms
proof (induction rs arbitrary: budget out w st)
  case Nil
  then show ?case by auto
next
  case (Cons r rs)
  show ?case
  proof (cases "budget \<le> 0")
    case True
    with Cons.prems have "out' = out\<lparr>so_evidence := Some (EvStorm cap (paged - so_scanned out))\<rparr>" "w' = w" "failed = None" "st' = st"
      by auto
    with True Cons.prems(3) show ?thesis
      by (intro exI [of _ "[]"] exI [of _ "r # rs"]) (simp add: handled_count_def)
  next
    case False
    define out1 where "out1 = out\<lparr>so_scanned := so_scanned out + 1\<rparr>"
    show ?thesis
    proof (cases "ingestReport env user r policies (clock (so_scanned out)) st")
      case (Inl e)
      with False Cons.prems have "out' = out1" "w' = w" "failed = Some (nr_dlrSqlId r, e)" "st' = st"
        by (auto simp: out1_def Let_def)
      with False Cons.prems(3) show ?thesis
        by (intro exI [of _ "[]"] exI [of _ "r # rs"]) (simp add: handled_count_def out1_def)
    next
      case (Inr p)
      obtain h st1 where p: "p = (h, st1)" by (cases p)
      let ?b = "if h = Opened \<or> h = Continued then budget - 1 else budget"
      let ?o = "count_ingest h out1"
      have rec: "scan_loop env user policies clock cap paged ?b ?o (nr_dlrSqlId r) rs st1 = (out', w', failed, st')"
        using Cons.prems(1) False Inr p by (simp add: out1_def Let_def)
      note len = ingestReport_length [OF Inr [unfolded p]]
      have cnt: "handled_count ?o = handled_count out + 1"
        "so_opened ?o = so_opened out + (if h = Opened then 1 else 0)"
        "so_continuations ?o = so_continuations out + (if h = Continued then 1 else 0)"
        by (cases h; simp add: count_ingest_def handled_count_def out1_def)+
      have sorted: "sorted_wrt (\<lambda>a b. nr_dlrSqlId a < nr_dlrSqlId b) rs" "\<forall>x \<in> set rs. nr_dlrSqlId r < nr_dlrSqlId x"
        using Cons.prems(2) by simp_all
      from Cons.IH [OF rec sorted] obtain page left where i: "rs = page @ left" "nr_dlrSqlId r \<le> w'"
        "\<forall>x \<in> set page. nr_dlrSqlId x \<le> w'" "\<forall>x \<in> set left. w' < nr_dlrSqlId x"
        "handled_count out' = handled_count ?o + length page"
        "int (so_opened out' + so_continuations out') \<le> int (so_opened ?o + so_continuations ?o) + max 0 ?b"
        "length (rt_chains st') + so_opened ?o = length (rt_chains st1) + so_opened out'" "rt_scan st' = rt_scan st1"
        "left \<noteq> [] \<longrightarrow> (failed \<noteq> None \<and> map_option fst failed = Some (nr_dlrSqlId (hd left)))
          \<or> so_evidence out' \<noteq> None
             \<and> int (so_opened out' + so_continuations out') = int (so_opened ?o + so_continuations ?o) + max 0 ?b"
        "left = [] \<longrightarrow> failed = None" by blast
      have bud: "int (so_opened ?o + so_continuations ?o) + max 0 ?b = int (so_opened out + so_continuations out) + max 0 budget"
        using False cnt(2,3) by auto
      have "w < nr_dlrSqlId r" using Cons.prems(3) by simp
      then have w: "w \<le> w'" using i(2) by simp
      have l: "length (rt_chains st') + so_opened out = length (rt_chains st) + so_opened out'" using i(7) len cnt(2) by auto
      have c: "handled_count out' = handled_count out + length (r # page)" using i(5) cnt(1) by simp
      have b1: "int (so_opened out' + so_continuations out') \<le> int (so_opened out + so_continuations out) + max 0 budget"
        using i(6) by (simp only: bud)
      have b2: "left \<noteq> [] \<longrightarrow> (failed \<noteq> None \<and> map_option fst failed = Some (nr_dlrSqlId (hd left)))
          \<or> so_evidence out' \<noteq> None
             \<and> int (so_opened out' + so_continuations out') = int (so_opened out + so_continuations out) + max 0 budget"
        using i(9) by (simp only: bud)
      have s: "r # rs = (r # page) @ left" "\<forall>x \<in> set (r # page). nr_dlrSqlId x \<le> w'" "rt_scan st' = rt_scan st"
        using i(1,2,3,8) len by simp_all
      from s(1) w s(2) i(4) c b1 l s(3) b2 i(10) show ?thesis by blast
    qed
  qed
qed

lemma page_sorted:
  assumes "distinct (map sm_sql_id rows)"
  shows "sorted_wrt (\<lambda>a b. nr_dlrSqlId a < nr_dlrSqlId b) (findNegativeDeliveryReports f after events allowed limit rows)
    \<and> (\<forall>r \<in> set (findNegativeDeliveryReports f after events allowed limit rows). after < nr_dlrSqlId r)"
proof -
  let ?rs = "filter (negative_receipt after events) rows"
  let ?xs = "concat (map (report_of f allowed rows) ?rs)"
  let ?page = "take (page_limit limit) (sort_cmp (cmp_key nr_dlrSqlId) ?xs)"
  have "distinct (map sm_sql_id ?rs)" using assms by (rule distinct_map_filter)
  then have "distinct (map nr_dlrSqlId ?xs)" by (rule distinct_concat_reports)
  then have s: "sorted_wrt (\<lambda>a b. nr_dlrSqlId a < nr_dlrSqlId b) ?page"
    by (intro sorted_wrt_take sorted_keys_strict)
  have "after < nr_dlrSqlId r" if "r \<in> set ?page" for r
  proof -
    from that have "r \<in> set ?xs" using in_set_takeD by fastforce
    then obtain x where x: "x \<in> set ?rs" "r \<in> set (report_of f allowed rows x)" by auto
    from report_of_fields [OF x(2)] x(1) show ?thesis by (simp add: negative_receipt_def)
  qed
  with s show ?thesis by (simp add: findNegativeDeliveryReports_def)
qed

lemma settle_fold_frame:
  "length (rt_chains (fold (\<lambda>s. settle_entry_with s (e s) now) xs st)) = length (rt_chains st)
   \<and> rt_scan (fold (\<lambda>s. settle_entry_with s (e s) now) xs st) = rt_scan st"
proof (induction xs arbitrary: st)
  case (Cons x xs)
  have "length (rt_chains (settle_entry_with x (e x) now st)) = length (rt_chains st)
      \<and> rt_scan (settle_entry_with x (e x) now st) = rt_scan st"
    by (simp add: settle_entry_with_def terminate_def note_event_def update_chain_def split: option.split)
  with Cons.IH show ?case by simp
qed simp

lemma settleResentChains_frame:
  "length (rt_chains (snd (settleResentChains env rows limit now st))) = length (rt_chains st)
   \<and> rt_scan (snd (settleResentChains env rows limit now st)) = rt_scan st"
  unfolding settleResentChains_def Let_def snd_conv by (rule settle_fold_frame)

lemma recordScan_frame:
  "rt_chains (recordScan v e n k now st) = rt_chains st"
  "sc_watermark (the (rt_scan (recordScan (Some w) e n k now st))) = max (sc_watermark (coalesce (rt_scan st) new_scan_row)) w"
  by (simp_all add: recordScan_def Let_def)

text \<open>How a sweep ends, after the loop.\<close>

definition sweep_end ::
    "retry_env \<Rightarrow> engine_view \<Rightarrow> int \<Rightarrow> sweep_outcome \<times> nat \<times> (nat \<times> retry_error) option \<times> retry_state
       \<Rightarrow> sweep_outcome \<times> retry_state" where
  "sweep_end env view t r =
     (case r of
        (out, w, Some (i, e), st) \<Rightarrow>
          (out\<lparr>so_watermark := w, so_evidence := Some (EvStopped i)\<rparr>,
           recordScan (Some w) (Some (ScanStoppedAt i e)) (so_scanned out) (so_opened out) t st)
      | (out, w, None, st) \<Rightarrow>
          (case settleResentChains env (vw_sent view) 200 t st of (k, st3) \<Rightarrow>
             (out\<lparr>so_settled := k, so_watermark := w\<rparr>,
              recordScan (Some w) None (so_scanned out) (so_opened out) t st3)))"

lemma scanReports_loop:
  assumes "vw_available view" "scannableEvents (policyRows st) \<noteq> []" "vw_smscs view \<noteq> []"
    and "w = sc_watermark (fst (scanner_row st))"
    and "rs = findNegativeDeliveryReports (re_toIso env) w (scannableEvents (policyRows st)) (vw_smscs view)
        (Some (int (page_limit limit))) (vw_sent view)"
    and "cap = rp_maxRetriesPerMinute (resolveRetryPolicy (policyRows st) None None)"
    and "b = max 0 (cap - int (recentAttemptCount (clock 0) st))"
    and "scan_loop env user (policyRows st) clock cap (length rs) b (empty_sweep w) w rs (snd (scanner_row st)) = r"
  shows "scanReports env view user limit clock st = sweep_end env view (clock (so_scanned (fst r))) r"
proof -
  have c: "recentAttemptCount (clock 0) (snd (scanner_row st)) = recentAttemptCount (clock 0) st"
    by (simp add: recentAttemptCount_def scanner_row_def Let_def)
  obtain out1 w' failed st2 where r: "r = (out1, w', failed, st2)" by (cases r)
  show ?thesis
    using assms(1-3) assms(8)
    unfolding scanReports_def Let_def assms(4,6) [symmetric] assms(5) [symmetric] c assms(7) [symmetric] sweep_end_def r
    by (simp split: option.split)
qed

lemma sweep_end_result:
  assumes "sweep_end env view t (out1, w, failed, st2) = (out, st')"
    and "rt_scan st2 = Some r" and "sc_watermark r \<le> w"
  shows "so_opened out = so_opened out1 \<and> so_continuations out = so_continuations out1
    \<and> handled_count out = handled_count out1 \<and> so_watermark out = w \<and> length (rt_chains st') = length (rt_chains st2)
    \<and> sc_watermark (the (rt_scan st')) = w \<and> (failed \<noteq> None \<or> so_evidence out1 \<noteq> None \<longrightarrow> so_evidence out \<noteq> None)"
proof -
  have rec: "sc_watermark (the (rt_scan (recordScan (Some w) err n k t st3))) = w"
    if "rt_scan st3 = Some r" for err n k st3
    using that assms(3) by (simp add: recordScan_frame)
  show ?thesis
  proof (cases failed)
    case None
    obtain k st3 where k: "settleResentChains env (vw_sent view) 200 t st2 = (k, st3)" by (metis prod.exhaust)
    have "length (rt_chains st3) = length (rt_chains st2) \<and> rt_scan st3 = Some r"
      using settleResentChains_frame [of env "vw_sent view" 200 t st2] assms(2) by (simp add: k)
    with None k assms(1) rec show ?thesis by (auto simp: handled_count_def recordScan_frame sweep_end_def)
  next
    case (Some p)
    obtain j err where p: "p = (j, err)" by (cases p)
    with Some assms(1) rec [OF assms(2)] show ?thesis
      by (auto simp: handled_count_def recordScan_frame sweep_end_def)
  qed
qed

text \<open>C19. Backpressure without loss: a sweep sets in motion at most what the storm cap leaves of this
  minute, counting one chain per \<open>opened\<close>; it handles a prefix of its page, each report once; the
  watermark it stores is the last report it handled and never moves back, so every report it did not
  handle is still ahead of it; and it leaves reports only with evidence.\<close>

theorem scan_backpressure:
  assumes "distinct (map sm_sql_id (vw_sent view))" and "vw_available view"
    and "scannableEvents (policyRows st) \<noteq> []" and "vw_smscs view \<noteq> []"
    and "scanReports env view user limit clock st = (out, st')"
  shows "let w = sc_watermark (fst (scanner_row st));
             cap = rp_maxRetriesPerMinute (resolveRetryPolicy (policyRows st) None None) in
    \<exists>handled left.
      findNegativeDeliveryReports (re_toIso env) w (scannableEvents (policyRows st)) (vw_smscs view)
        (Some (int (page_limit limit))) (vw_sent view) = handled @ left
      \<and> int (so_opened out + so_continuations out) \<le> max 0 (cap - int (recentAttemptCount (clock 0) st))
      \<and> length (rt_chains st') = length (rt_chains st) + so_opened out
      \<and> length handled = handled_count out
      \<and> (\<forall>r \<in> set handled. nr_dlrSqlId r \<le> so_watermark out) \<and> (\<forall>r \<in> set left. so_watermark out < nr_dlrSqlId r)
      \<and> w \<le> so_watermark out \<and> sc_watermark (the (rt_scan st')) = so_watermark out
      \<and> (left \<noteq> [] \<longrightarrow> so_evidence out \<noteq> None)"
proof -
  define w where "w = sc_watermark (fst (scanner_row st))"
  define cap where "cap = rp_maxRetriesPerMinute (resolveRetryPolicy (policyRows st) None None)"
  define rs where "rs = findNegativeDeliveryReports (re_toIso env) w (scannableEvents (policyRows st)) (vw_smscs view)
        (Some (int (page_limit limit))) (vw_sent view)"
  define b where "b = max 0 (cap - int (recentAttemptCount (clock 0) st))"
  have s1: "rt_chains (snd (scanner_row st)) = rt_chains st" "rt_scan (snd (scanner_row st)) = Some (fst (scanner_row st))"
    by (simp_all add: scanner_row_def Let_def)
  obtain out1 w' failed st2 where
    l: "scan_loop env user (policyRows st) clock cap (length rs) b (empty_sweep w) w rs (snd (scanner_row st)) = (out1, w', failed, st2)"
    by (metis prod.exhaust)
  have pg: "sorted_wrt (\<lambda>a b. nr_dlrSqlId a < nr_dlrSqlId b) rs" "\<forall>r \<in> set rs. w < nr_dlrSqlId r"
    using page_sorted [OF assms(1)] unfolding rs_def by blast+
  obtain page left where i: "rs = page @ left" "w \<le> w'" "\<forall>r \<in> set page. nr_dlrSqlId r \<le> w'" "\<forall>r \<in> set left. w' < nr_dlrSqlId r"
    "handled_count out1 = handled_count (empty_sweep w) + length page"
    "int (so_opened out1 + so_continuations out1) \<le> int (so_opened (empty_sweep w) + so_continuations (empty_sweep w)) + max 0 b"
    "length (rt_chains st2) + so_opened (empty_sweep w) = length (rt_chains (snd (scanner_row st))) + so_opened out1"
    "rt_scan st2 = rt_scan (snd (scanner_row st))"
    "left \<noteq> [] \<longrightarrow> failed \<noteq> None \<or> so_evidence out1 \<noteq> None"
    using scan_loop_result [OF l pg] by blast
  have e: "so_opened (empty_sweep w) = 0" "so_continuations (empty_sweep w) = 0" "handled_count (empty_sweep w) = 0" "max 0 b = b"
    by (simp_all add: empty_sweep_def handled_count_def b_def)
  have "sweep_end env view (clock (so_scanned out1)) (out1, w', failed, st2) = (out, st')"
    using scanReports_loop [OF assms(2-4) w_def rs_def cap_def b_def l] assms(5) by simp
  from sweep_end_result [OF this] i(2,8) s1(2)
  have fin: "so_opened out = so_opened out1" "so_continuations out = so_continuations out1" "handled_count out = handled_count out1"
    "so_watermark out = w'" "length (rt_chains st') = length (rt_chains st2)" "sc_watermark (the (rt_scan st')) = w'"
    "left \<noteq> [] \<longrightarrow> so_evidence out \<noteq> None"
    using i(9) by (simp_all add: w_def) blast
  then show ?thesis
    unfolding Let_def w_def [symmetric] cap_def [symmetric] rs_def [symmetric] b_def [symmetric]
    using i(1-7) e s1(1) by (intro exI [of _ page] exI [of _ left] conjI fin(7)) simp_all
qed

definition receipt_row :: "nat \<Rightarrow> nat \<Rightarrow> sent_row" where
  "receipt_row i ref =
     \<lparr>sm_sql_id = i, sm_momt = MomtDLR, sm_foreign_id = Some ref, sm_dlr_mask = DLR_EVENT_FAILED, sm_time = 5,
      sm_msgdata = None, sm_sender = None, sm_receiver = None, sm_smsc_id = None, sm_dlr_url = None\<rparr>"

definition sent_message :: "nat \<Rightarrow> nat \<Rightarrow> sent_row" where
  "sent_message i ref =
     \<lparr>sm_sql_id = i, sm_momt = MomtMT, sm_foreign_id = Some ref, sm_dlr_mask = 31, sm_time = 1,
      sm_msgdata = Some ''hi'', sm_sender = None, sm_receiver = Some ''256'', sm_smsc_id = Some ''a'', sm_dlr_url = None\<rparr>"

definition storm_view :: engine_view where
  "storm_view =
     \<lparr>vw_available = True, vw_evidence = [],
      vw_sent = [sent_message 1 0, sent_message 2 1, receipt_row 3 0, receipt_row 4 1], vw_smscs = [''a'', ''b'']\<rparr>"

text \<open>Two messages of the tenant have failed, and its storm cap is one retry a minute.\<close>

definition storm_state :: retry_state where
  "storm_state =
     the (run_steps (retry_step example_retry_env)
            [RPolicy ''u'' ''p'' (example_policy 2) 0, RSend example_decision, RSend example_decision] empty_retry)"

definition first_sweep :: "sweep_outcome \<times> retry_state" where
  "first_sweep = scanReports example_retry_env storm_view ''u'' None (\<lambda>_. 10) storm_state"

definition second_sweep :: "sweep_outcome \<times> retry_state" where
  "second_sweep = scanReports example_retry_env storm_view ''u'' None (\<lambda>_. 10) (snd first_sweep)"

lemma storm_facts:
  "so_opened (fst first_sweep) = 1 \<and> so_evidence (fst first_sweep) = Some (EvStorm 1 1) \<and> so_watermark (fst first_sweep) = 3
   \<and> so_opened (fst second_sweep) = 1 \<and> so_watermark (fst second_sweep) = 4 \<and> length (rt_chains (snd second_sweep)) = 2
   \<and> map rc_status (rt_chains (snd second_sweep)) = [ChPending, ChPending]
   \<and> rp_maxRetriesPerMinute (resolveRetryPolicy (policyRows storm_state) None None) = 1
   \<and> length (filter (\<lambda>r. jr_type r = DELIVERY_RETRY_DISPATCH_JOB_TYPE \<and> due 10 r) (qs_rows (rt_queue (snd second_sweep)))) = 2
   \<and> scannableEvents (policyRows storm_state) \<noteq> []"
  by code_simp

theorem scan_backpressure_witness:
  "so_opened (fst first_sweep) = 1 \<and> length (rt_chains (snd first_sweep)) = length (rt_chains storm_state) + 1
   \<and> sc_watermark (the (rt_scan (snd first_sweep))) = 3"
proof -
  have d: "distinct (map sm_sql_id (vw_sent storm_view))" "vw_available storm_view" "vw_smscs storm_view \<noteq> []"
    by (simp_all add: storm_view_def sent_message_def receipt_row_def)
  have s: "scanReports example_retry_env storm_view ''u'' None (\<lambda>_. 10) storm_state = (fst first_sweep, snd first_sweep)"
    by (simp add: first_sweep_def)
  from scan_backpressure [OF d(1,2) _ d(3) s] storm_facts show ?thesis by (auto simp: Let_def)
qed

text \<open>The storm cap bounds one sweep, not one minute. The budget counts the attempts already made, so
  chains opened and not yet dispatched do not draw on it: with a cap of one retry a minute, two sweeps in
  the same millisecond set two retries in motion, and both dispatches are due at once.\<close>

theorem storm_cap_per_sweep:
  "rp_maxRetriesPerMinute (resolveRetryPolicy (policyRows storm_state) None None) = 1
   \<and> so_opened (fst first_sweep) + so_opened (fst second_sweep) = 2
   \<and> length (filter (\<lambda>r. jr_type r = DELIVERY_RETRY_DISPATCH_JOB_TYPE \<and> due 10 r) (qs_rows (rt_queue (snd second_sweep)))) = 2"
  using storm_facts by simp

subsection \<open>The next sweep\<close>

lemma createOn_keyless:
  assumes "createOn reg i user now q rows = Inr (job, rows')" "rq_key q = None"
  shows "\<exists>mx. job = new_job i user now mx q \<and> rows' = rows @ [job]"
  using assms by (auto simp: createOn_def insert_job_def Let_def split: if_splits elim!: bind_resultE)

lemma ensureScanScheduled_row:
  assumes "ensureScanScheduled env user now d exclude st = Inr (b, t)" and "\<not> scan_in_flight exclude (qs_rows (rt_queue st))"
  shows "b \<and> (\<exists>r. qs_rows (rt_queue t) = qs_rows (rt_queue st) @ [r] \<and> jr_id r = qs_next (rt_queue st)
    \<and> jr_type r = DELIVERY_RETRY_SCAN_JOB_TYPE \<and> jr_status r = Queued \<and> jr_next_attempt_at r = coalesce (run_at now d) now)"
proof -
  let ?q = "\<lparr>rq_type = DELIVERY_RETRY_SCAN_JOB_TYPE, rq_input = JObj, rq_key = None, rq_run_at = run_at now d\<rparr>"
  from assms obtain job where s: "submit_job env user now ?q st = Inr (job, t)" and b
    by (auto simp: ensureScanScheduled_def elim!: bind_resultE)
  obtain rows where c: "createOn (qc_registry (re_queue env)) (qs_next (rt_queue st)) user now ?q (qs_rows (rt_queue st)) = Inr (job, rows)"
    and t: "qs_rows (rt_queue t) = rows"
    using s by (auto simp: submit_job_def split: sum.splits prod.splits)
  from createOn_keyless [OF c] obtain mx where j: "job = new_job (qs_next (rt_queue st)) user now mx ?q"
    "rows = qs_rows (rt_queue st) @ [job]" by auto
  have "jr_type job = DELIVERY_RETRY_SCAN_JOB_TYPE" "jr_status job = Queued" "jr_id job = qs_next (rt_queue st)"
    "jr_next_attempt_at job = coalesce (run_at now d) now"
    by (simp_all add: j(1) new_job_def)
  with \<open>b\<close> j(2) t show ?thesis by auto
qed

text \<open>Saving an enabled policy starts the polling, unless a scan job is already in flight.\<close>

lemma enabled_policy_polls:
  assumes u: "upsertPolicy env user newId p now st = Inr t" and en: "pi_enabled p"
  shows "scan_in_flight None (qs_rows (rt_queue t))"
proof -
  define ps where "ps = (if list_ex (same_policy_slot p) (rt_policies st)
      then update_where (same_policy_slot p) (replace_policy p) (rt_policies st) else rt_policies st @ [row_of_input newId p])"
  obtain b where e: "ensureScanScheduled env user now 0 None (st\<lparr>rt_policies := ps\<rparr>) = Inr (b, t)"
    using u en unfolding upsertPolicy_def Let_def ps_def [symmetric] by (auto elim!: bind_resultE split: if_splits)
  show ?thesis
  proof (cases "scan_in_flight None (qs_rows (rt_queue st))")
    case True
    with e show ?thesis by (auto simp: ensureScanScheduled_def)
  next
    case False
    with ensureScanScheduled_row [OF e] show ?thesis by (auto simp: scan_in_flight_def)
  qed
qed







text \<open>
  The first read matters. The handler that has read no enabled policy does not come to its last
  transaction; when an operator enables one before the handler's job has ended, the job still counts as
  in flight, so none is added for the policy either, and nothing polls any more.
\<close>

definition disabled_policy :: policy_input where
  "disabled_policy = (example_policy 2)\<lparr>pi_enabled := False\<rparr>"

theorem enabling_during_idle_scan_is_lost:
  "\<exists>st t. run_steps (retry_step example_retry_env)
      [RPolicy ''u'' ''p'' (example_policy 2) 0, RPolicy ''u'' ''p'' disabled_policy 1, RQueue (QClaim [] ''w'' 2)] empty_retry = Some st
    \<and> \<not> so_enabled (fst (scanReports example_retry_env storm_view ''u'' None (\<lambda>_. 3) st))
    \<and> run_steps (retry_step example_retry_env)
      [RPolicy ''u'' ''p'' (example_policy 2) 4, RQueue (QFinish 0 (Returned JObj) 5)]
      (snd (scanReports example_retry_env storm_view ''u'' None (\<lambda>_. 3) st)) = Some t
    \<and> scannableEvents (policyRows t) \<noteq> [] \<and> \<not> scan_in_flight None (qs_rows (rt_queue t))"
proof -
  have "(case run_steps (retry_step example_retry_env)
      [RPolicy ''u'' ''p'' (example_policy 2) 0, RPolicy ''u'' ''p'' disabled_policy 1, RQueue (QClaim [] ''w'' 2)] empty_retry of
      None \<Rightarrow> False
    | Some st \<Rightarrow> (case scanReports example_retry_env storm_view ''u'' None (\<lambda>_. 3) st of (out, st1) \<Rightarrow>
        \<not> so_enabled out
        \<and> (case run_steps (retry_step example_retry_env)
             [RPolicy ''u'' ''p'' (example_policy 2) 4, RQueue (QFinish 0 (Returned JObj) 5)] st1 of
             None \<Rightarrow> False
           | Some t \<Rightarrow> scannableEvents (policyRows t) \<noteq> [] \<and> \<not> scan_in_flight None (qs_rows (rt_queue t)))))"
    by code_simp
  then show ?thesis by (auto split: option.splits prod.splits)
qed

end
