(* ===== verification/CustomerAccounts.thy ===== *)
theory CustomerAccounts
  imports MessageFilters StepSystem
begin

section \<open>Customer accounts: customers-depth/*.service.ts\<close>

text \<open>
  The four services over a customer's account: message quotas, the prepaid balance with its
  ledger, the sender IDs and the route bindings. The state is the tenant's tables; a transaction
  that throws leaves them as they were, so an operation is a result over the next state. Clocks are
  in milliseconds. An amount is an exact number; a \<open>numeric(18,4)\<close> column rounds it to four decimals,
  a half away from zero, and refuses fourteen or more integer digits past its range.
\<close>

datatype quota_period = Daily | Monthly

record quota_row =
  qo_id :: nat
  qo_customer :: string
  qo_period :: quota_period
  qo_limit :: int
  qo_used :: int
  qo_window_start :: int

record quota_usage =
  qu_period :: quota_period
  qu_limit :: int
  qu_used :: int
  qu_remaining :: int
  qu_windowStart :: int

datatype ledger_direction = Credit | Debit

record ledger_row =
  lg_id :: nat
  lg_customer :: string
  lg_direction :: ledger_direction
  lg_amount :: rat
  lg_balance_after :: rat
  lg_reason :: "string option"
  lg_reference :: "string option"

record transaction_input =
  tx_direction :: ledger_direction
  tx_amount :: jsnum
  tx_reason :: "string option"
  tx_reference :: "string option"

datatype sender_status = SenderPending | SenderApproved | SenderRejected

record sender_row =
  sn_id :: nat
  sn_customer :: string
  sn_sender :: string
  sn_status :: sender_status
  sn_reason :: "string option"
  sn_reviewed_by :: "string option"

record binding_row =
  bd_id :: nat
  bd_customer :: string
  bd_route :: "string option"
  bd_smsc :: "string option"
  bd_priority :: int
  bd_enabled :: bool

record customer_row =
  cu_id :: string
  cu_status :: string
  cu_enabled :: bool
  cu_rate_limit :: int

record accounts =
  ac_customers :: "customer_row list"
  ac_quotas :: "quota_row list"
  ac_balances :: "string \<Rightarrow> rat option"
  ac_ledger :: "ledger_row list"
  ac_senders :: "sender_row list"
  ac_bindings :: "binding_row list"
  ac_next :: nat

datatype account_error =
    CustomerNotFound
  | BadAccountInput
  | AccountRowNotFound
  | AlreadyRegistered
  | AlreadyReviewed sender_status
  | QuotaExceeded quota_period int int
  | InsufficientBalance rat rat
  | ColumnCheck

definition assertCustomerExists :: "string \<Rightarrow> accounts \<Rightarrow> (account_error, unit) result" where
  "assertCustomerExists c st = (if c \<in> cu_id ` set (ac_customers st) then Inr () else Inl CustomerNotFound)"

subsection \<open>Quotas: customer-quota.service.ts\<close>

definition utc_date :: "int \<Rightarrow> int \<times> nat \<times> int" where
  "utc_date ms = date_of_day (ms div 86400000)"


definition windowElapsed :: "quota_period \<Rightarrow> int \<Rightarrow> int \<Rightarrow> bool" where
  "windowElapsed p windowStart now =
     (case (utc_date windowStart, utc_date now) of
        ((y, m, d), (y', m', d')) \<Rightarrow>
          (case p of Daily \<Rightarrow> y \<noteq> y' \<or> m \<noteq> m' \<or> d \<noteq> d' | Monthly \<Rightarrow> y \<noteq> y' \<or> m \<noteq> m'))"

definition toUsage :: "quota_row \<Rightarrow> quota_usage" where
  "toUsage r =
     \<lparr>qu_period = qo_period r, qu_limit = qo_limit r, qu_used = qo_used r,
      qu_remaining = max (qo_limit r - qo_used r) 0, qu_windowStart = qo_window_start r\<rparr>"

definition is_quota :: "string \<Rightarrow> quota_period \<Rightarrow> quota_row \<Rightarrow> bool" where
  "is_quota c p r \<longleftrightarrow> qo_customer r = c \<and> qo_period r = p"

definition setQuota ::
    "string \<Rightarrow> quota_period \<Rightarrow> jsnum \<Rightarrow> int \<Rightarrow> accounts \<Rightarrow> (account_error, accounts) result" where
  "setQuota c p limit now st =
     (case integer_value limit of
        None \<Rightarrow> Inl BadAccountInput
      | Some n \<Rightarrow>
          if n < 0 then Inl BadAccountInput
          else bind_result (assertCustomerExists c st) (\<lambda>_.
            Inr (if list_ex (is_quota c p) (ac_quotas st)
                 then st\<lparr>ac_quotas := update_where (is_quota c p) (\<lambda>r. r\<lparr>qo_limit := n\<rparr>) (ac_quotas st)\<rparr>
                 else st\<lparr>ac_quotas := ac_quotas st @
                        [\<lparr>qo_id = ac_next st, qo_customer = c, qo_period = p, qo_limit = n, qo_used = 0,
                          qo_window_start = now\<rparr>],
                      ac_next := ac_next st + 1\<rparr>)))"

definition removeQuota :: "string \<Rightarrow> quota_period \<Rightarrow> accounts \<Rightarrow> (account_error, bool \<times> accounts) result" where
  "removeQuota c p st =
     bind_result (assertCustomerExists c st) (\<lambda>_.
       Inr (list_ex (is_quota c p) (ac_quotas st),
            st\<lparr>ac_quotas := filter (\<lambda>r. \<not> is_quota c p r) (ac_quotas st)\<rparr>))"

definition period_rank :: "quota_period \<Rightarrow> int" where
  "period_rank p = (case p of Daily \<Rightarrow> 0 | Monthly \<Rightarrow> 1)"

definition quotas_of :: "string \<Rightarrow> accounts \<Rightarrow> quota_row list" where
  "quotas_of c st = sort_cmp (cmp_key (\<lambda>r. period_rank (qo_period r))) (filter (\<lambda>r. qo_customer r = c) (ac_quotas st))"

text \<open>The usage a row would have after consuming: an elapsed window starts from nothing.\<close>

definition used_after :: "int \<Rightarrow> int \<Rightarrow> quota_row \<Rightarrow> int" where
  "used_after cnt now r = (if windowElapsed (qo_period r) (qo_window_start r) now then 0 else qo_used r) + cnt"

definition consumed_row :: "int \<Rightarrow> int \<Rightarrow> quota_row \<Rightarrow> quota_row" where
  "consumed_row cnt now r =
     r\<lparr>qo_used := used_after cnt now r,
       qo_window_start := (if windowElapsed (qo_period r) (qo_window_start r) now then now else qo_window_start r)\<rparr>"

definition consumeQuotas ::
    "string \<Rightarrow> int \<Rightarrow> int \<Rightarrow> accounts \<Rightarrow> (account_error, quota_usage list \<times> accounts) result" where
  "consumeQuotas c cnt now st =
     (let rows = quotas_of c st
      in if rows = [] then Inr ([], st)
         else case find (\<lambda>r. used_after cnt now r > qo_limit r) rows of
                Some r \<Rightarrow> Inl (QuotaExceeded (qo_period r) (used_after cnt now r) (qo_limit r))
              | None \<Rightarrow>
                  Inr (map (\<lambda>r. toUsage (consumed_row cnt now r)) rows,
                       st\<lparr>ac_quotas := update_where (\<lambda>r. qo_customer r = c) (consumed_row cnt now) (ac_quotas st)\<rparr>))"

definition consume ::
    "string \<Rightarrow> jsnum \<Rightarrow> int \<Rightarrow> accounts \<Rightarrow> (account_error, quota_usage list \<times> accounts) result" where
  "consume c cnt now st =
     (case integer_value cnt of
        None \<Rightarrow> Inl BadAccountInput
      | Some n \<Rightarrow>
          if n \<le> 0 then Inl BadAccountInput
          else bind_result (assertCustomerExists c st) (\<lambda>_. consumeQuotas c n now st))"

subsection \<open>Balance and ledger: customer-credit.service.ts\<close>

text \<open>What a \<open>numeric(18,4)\<close> column stores.\<close>

definition numeric4 :: "rat \<Rightarrow> rat" where
  "numeric4 x = (if 0 \<le> x then of_int \<lfloor>x * 10000 + 1 / 2\<rfloor> / 10000 else - (of_int \<lfloor>- x * 10000 + 1 / 2\<rfloor> / 10000))"

definition numeric_column :: "rat \<Rightarrow> rat option" where
  "numeric_column x = (if \<bar>numeric4 x\<bar> < 10 ^ 14 then Some (numeric4 x) else None)"

text \<open>Reads the balance, creating the row at zero on first touch.\<close>

definition currentBalance :: "string \<Rightarrow> accounts \<Rightarrow> rat \<times> accounts" where
  "currentBalance c st =
     (let b = coalesce (ac_balances st c) 0 in (b, st\<lparr>ac_balances := (ac_balances st)(c := Some b)\<rparr>))"

definition postEntry ::
    "string \<Rightarrow> ledger_direction \<Rightarrow> rat \<Rightarrow> string option \<Rightarrow> string option \<Rightarrow> accounts
       \<Rightarrow> (account_error, ledger_row \<times> accounts) result" where
  "postEntry c direction amount reason reference st =
     (let (current, st1) = currentBalance c st;
          delta = (if direction = Credit then amount else - amount);
          next = current + delta
      in if next < 0 then Inl (InsufficientBalance amount current)
         else case (numeric_column next, numeric_column amount) of
                (Some b, Some a) \<Rightarrow>
                  if a \<le> 0 then Inl ColumnCheck
                  else
                    let row = \<lparr>lg_id = ac_next st1, lg_customer = c, lg_direction = direction, lg_amount = a,
                               lg_balance_after = b, lg_reason = reason, lg_reference = reference\<rparr>
                    in Inr (row, st1\<lparr>ac_balances := (ac_balances st1)(c := Some b),
                                    ac_ledger := ac_ledger st1 @ [row], ac_next := ac_next st1 + 1\<rparr>)
              | _ \<Rightarrow> Inl ColumnCheck)"

definition getBalance :: "string \<Rightarrow> accounts \<Rightarrow> (account_error, rat \<times> accounts) result" where
  "getBalance c st = bind_result (assertCustomerExists c st) (\<lambda>_. Inr (currentBalance c st))"

definition hasSufficientBalance :: "string \<Rightarrow> rat \<Rightarrow> accounts \<Rightarrow> (account_error, bool \<times> accounts) result" where
  "hasSufficientBalance c amount st = bind_result (getBalance c st) (\<lambda>(b, st'). Inr (b \<ge> amount, st'))"

definition postTransaction ::
    "string \<Rightarrow> transaction_input \<Rightarrow> accounts \<Rightarrow> (account_error, ledger_row \<times> accounts) result" where
  "postTransaction c input st =
     (case tx_amount input of
        Fin amount \<Rightarrow>
          if amount \<le> 0 then Inl BadAccountInput
          else bind_result (assertCustomerExists c st) (\<lambda>_.
            postEntry c (tx_direction input) amount (tx_reason input) (tx_reference input) st)
      | _ \<Rightarrow> Inl BadAccountInput)"

subsection \<open>Sender IDs: customer-sender-ids.service.ts\<close>

definition request_sender_id :: "string \<Rightarrow> string \<Rightarrow> accounts \<Rightarrow> (account_error, sender_row \<times> accounts) result" where
  "request_sender_id c sender st =
     bind_result (assertCustomerExists c st) (\<lambda>_.
       if list_ex (\<lambda>r. sn_customer r = c \<and> sn_sender r = sender) (ac_senders st) then Inl AlreadyRegistered
       else
         let row = \<lparr>sn_id = ac_next st, sn_customer = c, sn_sender = sender, sn_status = SenderPending,
                    sn_reason = None, sn_reviewed_by = None\<rparr>
         in Inr (row, st\<lparr>ac_senders := ac_senders st @ [row], ac_next := ac_next st + 1\<rparr>))"

definition is_sender :: "string \<Rightarrow> nat \<Rightarrow> sender_row \<Rightarrow> bool" where
  "is_sender c i r \<longleftrightarrow> sn_id r = i \<and> sn_customer r = c"

definition review_sender_id ::
    "string \<Rightarrow> string \<Rightarrow> nat \<Rightarrow> sender_status \<Rightarrow> string option \<Rightarrow> accounts \<Rightarrow> (account_error, accounts) result" where
  "review_sender_id user c i status reason st =
     (if status \<noteq> SenderApproved \<and> status \<noteq> SenderRejected then Inl BadAccountInput
      else bind_result (assertCustomerExists c st) (\<lambda>_.
        case find (is_sender c i) (ac_senders st) of
          None \<Rightarrow> Inl AccountRowNotFound
        | Some old \<Rightarrow>
            if sn_status old \<noteq> SenderPending then Inl (AlreadyReviewed (sn_status old))
            else Inr (st\<lparr>ac_senders := update_where (is_sender c i)
                   (\<lambda>r. r\<lparr>sn_status := status, sn_reason := reason, sn_reviewed_by := Some user\<rparr>) (ac_senders st)\<rparr>)))"

definition remove_sender_id :: "string \<Rightarrow> nat \<Rightarrow> accounts \<Rightarrow> (account_error, accounts) result" where
  "remove_sender_id c i st =
     bind_result (assertCustomerExists c st) (\<lambda>_.
       if list_ex (is_sender c i) (ac_senders st)
       then Inr (st\<lparr>ac_senders := filter (\<lambda>r. \<not> is_sender c i r) (ac_senders st)\<rparr>)
       else Inl AccountRowNotFound)"

subsection \<open>Route bindings: customer-routes.service.ts\<close>

text \<open>\<open>routeIds\<close> and \<open>smscIds\<close> are the rows of the referenced tables the tenant sees.\<close>

definition bind_route ::
    "string list \<Rightarrow> string list \<Rightarrow> string \<Rightarrow> string option \<Rightarrow> string option \<Rightarrow> jsnum option \<Rightarrow> accounts
       \<Rightarrow> (account_error, binding_row \<times> accounts) result" where
  "bind_route routeIds smscIds c routeId smscId priority st =
     (if truthy routeId = truthy smscId then Inl BadAccountInput
      else case integer_value (coalesce priority (Fin 0)) of
             None \<Rightarrow> Inl BadAccountInput
           | Some p \<Rightarrow>
               if p < 0 then Inl BadAccountInput
               else bind_result (assertCustomerExists c st) (\<lambda>_.
                 if truthy routeId \<and> the routeId \<notin> set routeIds then Inl AccountRowNotFound
                 else if \<not> truthy routeId \<and> the smscId \<notin> set smscIds then Inl AccountRowNotFound
                 else if list_ex (\<lambda>b. bd_customer b = c
                        \<and> (routeId \<noteq> None \<and> bd_route b = routeId \<or> smscId \<noteq> None \<and> bd_smsc b = smscId)) (ac_bindings st)
                 then Inl AlreadyRegistered
                 else if (routeId = None) = (smscId = None) then Inl ColumnCheck
                 else
                   let row = \<lparr>bd_id = ac_next st, bd_customer = c, bd_route = routeId, bd_smsc = smscId,
                              bd_priority = p, bd_enabled = True\<rparr>
                   in Inr (row, st\<lparr>ac_bindings := ac_bindings st @ [row], ac_next := ac_next st + 1\<rparr>)))"

definition is_binding :: "string \<Rightarrow> nat \<Rightarrow> binding_row \<Rightarrow> bool" where
  "is_binding c i b \<longleftrightarrow> bd_id b = i \<and> bd_customer b = c"

definition update_binding ::
    "string \<Rightarrow> nat \<Rightarrow> jsnum option \<Rightarrow> bool option \<Rightarrow> accounts \<Rightarrow> (account_error, accounts) result" where
  "update_binding c i priority enabled st =
     (if (case priority of None \<Rightarrow> False
          | Some p \<Rightarrow> (case integer_value p of None \<Rightarrow> True | Some n \<Rightarrow> n < 0)) then Inl BadAccountInput
      else bind_result (assertCustomerExists c st) (\<lambda>_.
        if list_ex (is_binding c i) (ac_bindings st)
        then Inr (st\<lparr>ac_bindings := update_where (is_binding c i)
               (\<lambda>b. b\<lparr>bd_priority := coalesce (Option.bind priority integer_value) (bd_priority b),
                     bd_enabled := coalesce enabled (bd_enabled b)\<rparr>) (ac_bindings st)\<rparr>)
        else Inl AccountRowNotFound))"

definition remove_binding :: "string \<Rightarrow> nat \<Rightarrow> accounts \<Rightarrow> (account_error, accounts) result" where
  "remove_binding c i st =
     bind_result (assertCustomerExists c st) (\<lambda>_.
       if list_ex (is_binding c i) (ac_bindings st)
       then Inr (st\<lparr>ac_bindings := filter (\<lambda>b. \<not> is_binding c i b) (ac_bindings st)\<rparr>)
       else Inl AccountRowNotFound)"

subsection \<open>The services as a machine\<close>

datatype account_event =
    ASetQuota string quota_period jsnum int
  | ARemoveQuota string quota_period
  | AConsume string jsnum int
  | ABalance string
  | APost string transaction_input
  | ARequestSender string string
  | AReviewSender string string nat sender_status "string option"
  | ARemoveSender string nat
  | ABind "string list" "string list" string "string option" "string option" "jsnum option"
  | AUpdateBinding string nat "jsnum option" "bool option"
  | ARemoveBinding string nat

definition account_op :: "account_event \<Rightarrow> accounts \<Rightarrow> (account_error, accounts) result" where
  "account_op ev st =
     (case ev of
        ASetQuota c p limit now \<Rightarrow> setQuota c p limit now st
      | ARemoveQuota c p \<Rightarrow> map_sum id snd (removeQuota c p st)
      | AConsume c n now \<Rightarrow> map_sum id snd (consume c n now st)
      | ABalance c \<Rightarrow> map_sum id snd (getBalance c st)
      | APost c input \<Rightarrow> map_sum id snd (postTransaction c input st)
      | ARequestSender c s \<Rightarrow> map_sum id snd (request_sender_id c s st)
      | AReviewSender user c i status reason \<Rightarrow> review_sender_id user c i status reason st
      | ARemoveSender c i \<Rightarrow> remove_sender_id c i st
      | ABind routes smscs c r s p \<Rightarrow> map_sum id snd (bind_route routes smscs c r s p st)
      | AUpdateBinding c i p e \<Rightarrow> update_binding c i p e st
      | ARemoveBinding c i \<Rightarrow> remove_binding c i st)"

definition account_step :: "account_event \<Rightarrow> accounts \<Rightarrow> accounts option" where
  "account_step ev st = Some (case account_op ev st of Inl _ \<Rightarrow> st | Inr st' \<Rightarrow> st')"

definition empty_accounts :: "customer_row list \<Rightarrow> accounts" where
  "empty_accounts cs =
     \<lparr>ac_customers = cs, ac_quotas = [], ac_balances = (\<lambda>_. None), ac_ledger = [], ac_senders = [],
      ac_bindings = [], ac_next = 0\<rparr>"

subsection \<open>The ledger\<close>

definition signed_amount :: "ledger_row \<Rightarrow> rat" where
  "signed_amount r = (if lg_direction r = Credit then lg_amount r else - lg_amount r)"

definition ledger_total :: "ledger_row list \<Rightarrow> rat" where
  "ledger_total rs = sum_list (map signed_amount rs)"

definition ledger_of :: "string \<Rightarrow> accounts \<Rightarrow> ledger_row list" where
  "ledger_of c st = filter (\<lambda>r. lg_customer r = c) (ac_ledger st)"

text \<open>Every row carries the balance after it, which is never negative.\<close>

fun running :: "rat \<Rightarrow> ledger_row list \<Rightarrow> bool" where
  "running b [] \<longleftrightarrow> True"
| "running b (r # rs) \<longleftrightarrow>
     lg_balance_after r = b + signed_amount r \<and> 0 \<le> lg_balance_after r \<and> running (lg_balance_after r) rs"

lemma ledger_total_append [simp]: "ledger_total (xs @ ys) = ledger_total xs + ledger_total ys"
  "ledger_total [] = 0" "ledger_total [r] = signed_amount r"
  by (simp_all add: ledger_total_def)

lemma running_append:
  "running b (rs @ [r]) \<longleftrightarrow>
     running b rs \<and> lg_balance_after r = b + ledger_total rs + signed_amount r \<and> 0 \<le> lg_balance_after r"
proof (induction rs arbitrary: b)
  case (Cons x rs)
  have t: "ledger_total (x # rs) = signed_amount x + ledger_total rs" by (simp add: ledger_total_def)
  show ?case
    unfolding append_Cons running.simps Cons.IH t by (metis add.assoc)
qed (simp add: ledger_total_def)

text \<open>The grid of four decimals.\<close>

definition on_grid :: "rat \<Rightarrow> bool" where
  "on_grid x \<longleftrightarrow> (\<exists>k. x = of_int k / 10000)"

lemma floor_half: "\<lfloor>of_int k + 1 / 2 :: rat\<rfloor> = k"
  by (simp add: floor_unique)

lemma numeric4_grid: "on_grid x \<Longrightarrow> numeric4 x = x"
proof (unfold on_grid_def, erule exE)
  fix k assume x: "x = of_int k / 10000"
  have "x * 10000 = of_int k" "- x * 10000 = of_int (- k)" by (simp_all add: x)
  then show "numeric4 x = x"
    using floor_half [of k] floor_half [of "- k"] by (simp add: numeric4_def x)
qed

lemma on_grid_numeric4: "on_grid (numeric4 x)"
proof (cases "0 \<le> x")
  case True
  then show ?thesis unfolding on_grid_def numeric4_def by auto
next
  case False
  then have "numeric4 x = of_int (- \<lfloor>- x * 10000 + 1 / 2\<rfloor>) / 10000" by (simp add: numeric4_def)
  then show ?thesis unfolding on_grid_def by blast
qed

lemma on_grid_iff: "on_grid x \<longleftrightarrow> numeric4 x = x"
  using numeric4_grid on_grid_numeric4 by metis

lemma on_grid_ring: "on_grid 0" "on_grid x \<Longrightarrow> on_grid (- x)" "on_grid x \<Longrightarrow> on_grid y \<Longrightarrow> on_grid (x + y)"
proof -
  show "on_grid 0" unfolding on_grid_def by (intro exI [of _ 0]) simp
  show "on_grid (- x)" if "on_grid x"
  proof -
    from that obtain k where "x = of_int k / 10000" unfolding on_grid_def by blast
    then have "- x = of_int (- k) / 10000" by simp
    then show ?thesis unfolding on_grid_def by blast
  qed
  show "on_grid (x + y)" if xy: "on_grid x" "on_grid y"
  proof -
    from xy obtain k l where "x = of_int k / 10000" "y = of_int l / 10000" unfolding on_grid_def by blast
    then have "x + y = of_int (k + l) / 10000" by (simp add: add_divide_distrib)
    then show ?thesis unfolding on_grid_def by blast
  qed
qed

lemma numeric4_nonneg: "0 \<le> x \<Longrightarrow> 0 \<le> numeric4 x"
  by (simp add: numeric4_def)

lemma on_grid_total: "\<forall>r \<in> set rs. on_grid (lg_amount r) \<Longrightarrow> on_grid (ledger_total rs)"
proof (induction rs)
  case (Cons r rs)
  then have "on_grid (signed_amount r)" by (simp add: signed_amount_def on_grid_ring)
  with Cons show ?case using on_grid_ring(3) by (auto simp: ledger_total_def)
qed (simp add: ledger_total_def on_grid_ring)

subsection \<open>Effects of the operations\<close>

lemma assertCustomerExists_Inr [simp]: "assertCustomerExists c st = Inr u \<longleftrightarrow> c \<in> cu_id ` set (ac_customers st)"
  by (simp add: assertCustomerExists_def)

lemma postEntry_Inr:
  assumes "postEntry c d amount reason reference st = Inr (row, t)"
  shows "let b = coalesce (ac_balances st c) 0 + (if d = Credit then amount else - amount) in
    row = \<lparr>lg_id = ac_next st, lg_customer = c, lg_direction = d, lg_amount = numeric4 amount,
           lg_balance_after = numeric4 b, lg_reason = reason, lg_reference = reference\<rparr>
    \<and> t = st\<lparr>ac_balances := (ac_balances st)(c := Some (numeric4 b)), ac_ledger := ac_ledger st @ [row],
            ac_next := ac_next st + 1\<rparr>
    \<and> 0 \<le> b \<and> 0 < numeric4 amount"
  using assms
  by (auto simp: postEntry_def currentBalance_def numeric_column_def Let_def split: if_splits option.splits)

definition ledger_ok :: "accounts \<Rightarrow> bool" where
  "ledger_ok st \<longleftrightarrow>
     (\<forall>c. running 0 (ledger_of c st) \<and> coalesce (ac_balances st c) 0 = ledger_total (ledger_of c st))
     \<and> (\<forall>r \<in> set (ac_ledger st). on_grid (lg_amount r))"

definition same_ledger :: "accounts \<Rightarrow> accounts \<Rightarrow> bool" where
  "same_ledger st t \<longleftrightarrow>
     ac_ledger t = ac_ledger st \<and> (\<forall>c. coalesce (ac_balances t c) 0 = coalesce (ac_balances st c) 0)"

lemma same_ledger_ok: "ledger_ok st \<Longrightarrow> same_ledger st t \<Longrightarrow> ledger_ok t"
  by (simp add: ledger_ok_def same_ledger_def ledger_of_def)

lemma postEntry_ledger:
  assumes "ledger_ok st" and "on_grid amount" and "postEntry c d amount reason reference st = Inr (row, t)"
  shows "ledger_ok t"
proof -
  define b where "b = coalesce (ac_balances st c) 0 + (if d = Credit then amount else - amount)"
  from postEntry_Inr [OF assms(3)] have
    row: "row = \<lparr>lg_id = ac_next st, lg_customer = c, lg_direction = d, lg_amount = numeric4 amount,
           lg_balance_after = numeric4 b, lg_reason = reason, lg_reference = reference\<rparr>"
    and t: "ac_balances t = (ac_balances st)(c := Some (numeric4 b))" "ac_ledger t = ac_ledger st @ [row]"
    and b: "0 \<le> b"
    by (simp_all add: b_def Let_def)
  have "on_grid (coalesce (ac_balances st c) 0)"
    using assms(1) on_grid_total [of "ledger_of c st"] by (simp add: ledger_ok_def ledger_of_def)
  with assms(2) have "on_grid b" by (simp add: b_def on_grid_ring)
  then have nb: "numeric4 b = b" "numeric4 amount = amount" using assms(2) by (simp_all add: numeric4_grid)
  have s: "signed_amount row = (if d = Credit then amount else - amount)" by (simp add: row signed_amount_def nb)
  have c: "lg_customer row = c" "lg_balance_after row = b" "on_grid (lg_amount row)"
    using assms(2) by (simp_all add: row nb)
  have own: "ledger_of c t = ledger_of c st @ [row]" "\<And>c'. c' \<noteq> c \<Longrightarrow> ledger_of c' t = ledger_of c' st"
    using c(1) by (simp_all add: ledger_of_def t)
  have bal: "coalesce (ac_balances st c) 0 = ledger_total (ledger_of c st)" "running 0 (ledger_of c st)"
    using assms(1) by (simp_all add: ledger_ok_def)
  have "running 0 (ledger_of c' t) \<and> coalesce (ac_balances t c') 0 = ledger_total (ledger_of c' t)" for c'
  proof (cases "c' = c")
    case True
    with bal c(2) b nb s show ?thesis by (simp add: own running_append t b_def)
  next
    case False
    with assms(1) show ?thesis by (simp add: own ledger_ok_def t)
  qed
  moreover have "\<forall>r \<in> set (ac_ledger t). on_grid (lg_amount r)"
    using assms(1) c(3) by (auto simp: t ledger_ok_def)
  ultimately show ?thesis by (simp add: ledger_ok_def)
qed

lemma consumeQuotas_Inr:
  assumes "consumeQuotas c n now st = Inr (us, t)"
  shows "t = st\<lparr>ac_quotas := update_where (\<lambda>r. qo_customer r = c) (consumed_row n now) (ac_quotas st)\<rparr>
    \<and> (\<forall>r \<in> set (ac_quotas st). qo_customer r = c \<longrightarrow> used_after n now r \<le> qo_limit r)
    \<and> us = map (\<lambda>r. toUsage (consumed_row n now r)) (quotas_of c st)"
proof (cases "quotas_of c st = []")
  case True
  then have "filter (\<lambda>r. qo_customer r = c) (ac_quotas st) = []" by (simp add: quotas_of_def)
  then have none: "\<And>r. r \<in> set (ac_quotas st) \<Longrightarrow> qo_customer r \<noteq> c" by (auto simp: filter_empty_conv)
  then have "update_where (\<lambda>r. qo_customer r = c) (consumed_row n now) (ac_quotas st) = ac_quotas st"
    by (rule update_where_none)
  with True none assms show ?thesis by (auto simp: consumeQuotas_def)
next
  case False
  with assms have f: "find (\<lambda>r. used_after n now r > qo_limit r) (quotas_of c st) = None"
    and r: "us = map (\<lambda>r. toUsage (consumed_row n now r)) (quotas_of c st)"
      "t = st\<lparr>ac_quotas := update_where (\<lambda>r. qo_customer r = c) (consumed_row n now) (ac_quotas st)\<rparr>"
    by (auto simp: consumeQuotas_def Let_def split: option.splits)
  from f have "\<forall>r \<in> set (quotas_of c st). \<not> used_after n now r > qo_limit r" by (auto simp: find_None_iff)
  then show ?thesis using r by (auto simp: quotas_of_def)
qed

lemma currentBalance_same: "same_ledger st (snd (currentBalance c st)) \<and> fst (currentBalance c st) = coalesce (ac_balances st c) 0"
  by (simp add: currentBalance_def same_ledger_def Let_def)

lemma map_sum_snd: "map_sum id snd r = Inr t \<longleftrightarrow> (\<exists>a. r = Inr (a, t))"
  by (cases r) auto

lemma account_op_ledger:
  assumes "account_op ev st = Inr t"
  shows "same_ledger st t \<or> (\<exists>c input a row. ev = APost c input \<and> tx_amount input = Fin a
    \<and> postEntry c (tx_direction input) a (tx_reason input) (tx_reference input) st = Inr (row, t))"
proof (cases ev)
  case (APost c input)
  with assms obtain row where "postTransaction c input st = Inr (row, t)"
    by (auto simp: account_op_def map_sum_snd)
  then have "\<exists>a. tx_amount input = Fin a
      \<and> postEntry c (tx_direction input) a (tx_reason input) (tx_reference input) st = Inr (row, t)"
    by (auto simp: postTransaction_def split: jsnum.splits if_splits elim!: bind_resultE)
  with APost show ?thesis by blast
next
  case (AConsume c n now)
  with assms obtain us where "consume c n now st = Inr (us, t)" by (auto simp: account_op_def map_sum_snd)
  then obtain m where "consumeQuotas c m now st = Inr (us, t)"
    by (auto simp: consume_def split: option.splits if_splits elim!: bind_resultE)
  from consumeQuotas_Inr [OF this] show ?thesis by (simp add: same_ledger_def)
next
  case (ABalance c)
  with assms obtain b where "currentBalance c st = (b, t)"
    by (auto simp: account_op_def map_sum_snd getBalance_def elim!: bind_resultE)
  with currentBalance_same [of st c] show ?thesis by simp
qed (use assms in \<open>auto simp: account_op_def map_sum_snd setQuota_def removeQuota_def request_sender_id_def
      review_sender_id_def remove_sender_id_def bind_route_def update_binding_def remove_binding_def same_ledger_def Let_def
      split: option.splits if_splits elim!: bind_resultE\<close>)

text \<open>The events whose amounts have at most four decimals.\<close>

definition four_decimals :: "account_event \<Rightarrow> bool" where
  "four_decimals ev \<longleftrightarrow>
     (case ev of APost _ input \<Rightarrow> (case tx_amount input of Fin a \<Rightarrow> numeric4 a = a | _ \<Rightarrow> True) | _ \<Rightarrow> True)"

interpretation ledgers: invariant_machine account_step "\<lambda>ev _. four_decimals ev" ledger_ok
proof unfold_locales
  fix s ev t assume inv: "ledger_ok s" "four_decimals ev" and st: "account_step ev s = Some t"
  show "ledger_ok t"
  proof (cases "account_op ev s")
    case (Inl e)
    with inv st show ?thesis by (simp add: account_step_def)
  next
    case (Inr u)
    with st have t: "t = u" by (simp add: account_step_def)
    from account_op_ledger [OF Inr] show ?thesis
      using inv by (auto simp: t four_decimals_def on_grid_iff intro: same_ledger_ok postEntry_ledger)
  qed
qed

lemma ledger_ok_empty: "ledger_ok (empty_accounts cs)"
  by (simp add: ledger_ok_def empty_accounts_def ledger_of_def)

lemma running_nonneg: "running b rs \<Longrightarrow> 0 \<le> b \<Longrightarrow> 0 \<le> b + ledger_total rs"
proof (induction rs arbitrary: b)
  case (Cons r rs)
  have "0 \<le> lg_balance_after r + ledger_total rs"
    by (rule Cons.IH) (use Cons.prems(1) in \<open>unfold running.simps, blast+\<close>)
  moreover have "lg_balance_after r + ledger_total rs = b + ledger_total (r # rs)"
    using Cons.prems(1) by (simp add: ledger_total_def)
  ultimately show ?case by simp
qed simp

text \<open>The ledger explains the balance: as long as amounts have at most four decimals, after any
  sequence of operations on a tenant's accounts every customer's balance is the sum of its credits less
  its debits, each entry of its ledger carries the balance after it, and no balance is ever negative.\<close>

theorem ledger_explains_balance:
  assumes "run_steps account_step es (empty_accounts cs) = Some st" and "list_all four_decimals es"
  shows "running 0 (ledger_of c st) \<and> coalesce (ac_balances st c) 0 = ledger_total (ledger_of c st)
    \<and> 0 \<le> coalesce (ac_balances st c) 0"
proof -
  have "ledgers.ok_run es (empty_accounts cs)"
    using assms(2) by (intro ledgers.ok_run_events) (simp add: list_all_iff)
  from ledgers.run_inv [OF ledger_ok_empty this assms(1)] have "ledger_ok st" .
  then have r: "running 0 (ledger_of c st)" "coalesce (ac_balances st c) 0 = ledger_total (ledger_of c st)"
    by (simp_all add: ledger_ok_def)
  with running_nonneg [OF r(1)] show ?thesis by simp
qed

definition one_customer :: customer_row where
  "one_customer = \<lparr>cu_id = ''c'', cu_status = ''active'', cu_enabled = True, cu_rate_limit = 0\<rparr>"

definition posted :: "ledger_direction \<Rightarrow> rat \<Rightarrow> account_event" where
  "posted d a = APost ''c'' \<lparr>tx_direction = d, tx_amount = Fin a, tx_reason = None, tx_reference = None\<rparr>"

theorem ledger_explains_balance_witness:
  "\<exists>st. run_steps account_step [posted Credit 10, posted Debit (5 / 2), posted Debit 20] (empty_accounts [one_customer]) = Some st
     \<and> coalesce (ac_balances st ''c'') 0 = ledger_total (ledger_of ''c'' st) \<and> map lg_balance_after (ac_ledger st) = [10, 15 / 2]"
proof -
  let ?es = "[posted Credit 10, posted Debit (5 / 2), posted Debit 20]"
  let ?r = "run_steps account_step ?es (empty_accounts [one_customer])"
  have "case ?r of None \<Rightarrow> False | Some st \<Rightarrow> map lg_balance_after (ac_ledger st) = [10, 15 / 2]" by code_simp
  then obtain st where st: "?r = Some st" "map lg_balance_after (ac_ledger st) = [10, 15 / 2]"
    by (auto split: option.splits)
  have "list_all four_decimals ?es" by code_simp
  with ledger_explains_balance [OF st(1), of "''c''"] st show ?thesis by auto
qed

text \<open>Without that restriction the two columns round apart: any positive amount is accepted, the
  ledger stores it rounded and the balance stores the rounded difference. After a credit of 10 and a debit
  of 1/32 the balance is 9.9688 although the ledger sums to 9.9687.\<close>

theorem fine_debit_splits_ledger:
  "\<exists>st. run_steps account_step [posted Credit 10, posted Debit (1 / 32)] (empty_accounts [one_customer]) = Some st
     \<and> coalesce (ac_balances st ''c'') 0 = 99688 / 10000 \<and> ledger_total (ledger_of ''c'' st) = 99687 / 10000
     \<and> \<not> running 0 (ledger_of ''c'' st)"
proof -
  let ?r = "run_steps account_step [posted Credit 10, posted Debit (1 / 32)] (empty_accounts [one_customer])"
  have "case ?r of None \<Rightarrow> False
    | Some st \<Rightarrow> coalesce (ac_balances st ''c'') 0 = 99688 / 10000 \<and> ledger_total (ledger_of ''c'' st) = 99687 / 10000
        \<and> \<not> running 0 (ledger_of ''c'' st)"
    by code_simp
  then show ?thesis by (auto split: option.splits)
qed

subsection \<open>Quotas bound a window\<close>




lemma consumed_row_simps [simp]:
  "qo_customer (consumed_row n now r) = qo_customer r" "qo_period (consumed_row n now r) = qo_period r"
  "qo_limit (consumed_row n now r) = qo_limit r" "qo_used (consumed_row n now r) = used_after n now r"
  by (simp_all add: consumed_row_def)














end
