(* ===== verification/RouteResolution.thy ===== *)
theory RouteResolution
  imports RouteSelection CustomerAccounts
begin

section \<open>Route resolution for the send path: routing-depth/route-resolution.service.ts\<close>

text \<open>
  Which bind one message may take: the tenant's SMSCs with the bind state the poller observed, the
  deployed routes of routing-depth.repository.ts as candidates, the customer's bindings, and the
  selector over what is left. \<open>lc\<close> is the collation of names, of the database and of the selector.
\<close>

record smsc_row =
  sw_id :: string
  sw_engine :: string
  sw_enabled :: bool
  sw_suspended :: bool
  sw_bind_state :: "string option"

record route_row =
  rtr_id :: string
  rtr_name :: string
  rtr_priority :: int
  rtr_enabled :: bool
  rtr_deployment :: string
  rtr_type :: route_type
  rtr_strategy :: selection_strategy
  rtr_match_prefix :: "string option"
  rtr_country_code :: "string option"
  rtr_operator :: "string option"
  rtr_destination_prefix :: "string option"
  rtr_sender :: "string option"
  rtr_cost :: "rat option"
  rtr_target :: string
  rtr_fallback :: "string option"
  rtr_window_start :: "string option"
  rtr_window_end :: "string option"
  rtr_active_days :: "string option"
  rtr_action :: "route_action option"
  rtr_override_sender :: "string option"
  rtr_override_recipient :: "string option"
  rtr_override_text :: "string option"
  rtr_drop_reason :: "string option"
  rtr_targets :: "route_target list"

subsection \<open>Candidate routes: routing-depth.repository.ts\<close>

text \<open>\<open>/^(\d{2}):(\d{2})/\<close>: the first five characters of a time, anything else as it is.\<close>

definition toHhmm :: "string option \<Rightarrow> string option" where
  "toHhmm value =
     (if \<not> truthy value then None
      else case take 5 (the value) of
             [a, b, c, d, e] \<Rightarrow>
               if is_digit a \<and> is_digit b \<and> c = CHR '':'' \<and> is_digit d \<and> is_digit e
               then Some [a, b, c, d, e] else value
           | _ \<Rightarrow> value)"

definition active_day :: "string \<Rightarrow> nat list" where
  "active_day part =
     (case integer_value (string_to_number (trim part)) of
        Some n \<Rightarrow> if 0 \<le> n \<and> n \<le> 6 then [nat n] else []
      | None \<Rightarrow> [])"

definition parseActiveDays :: "string option \<Rightarrow> nat list option" where
  "parseActiveDays value =
     (if \<not> truthy value then None
      else let days = concat (map active_day (split_on (CHR '','') (the value)))
           in if days \<noteq> [] then Some days else None)"

definition candidate_of :: "route_row \<Rightarrow> candidate_route" where
  "candidate_of r =
     \<lparr>cr_id = rtr_id r, cr_name = rtr_name r, cr_priority = rtr_priority r, cr_enabled = rtr_enabled r,
      cr_type = rtr_type r, cr_strategy = rtr_strategy r, cr_matchPrefix = rtr_match_prefix r,
      cr_countryCode = rtr_country_code r, cr_operator = rtr_operator r,
      cr_destinationPrefix = rtr_destination_prefix r, cr_sender = rtr_sender r, cr_cost = rtr_cost r,
      cr_target = rtr_target r, cr_fallback = rtr_fallback r,
      cr_targets = Some (if rtr_type r = RtWeighted then rtr_targets r else []),
      cr_window =
        (if truthy (rtr_window_start r) \<and> truthy (rtr_window_end r)
         then Some \<lparr>tw_start = the (toHhmm (rtr_window_start r)), tw_end = the (toHhmm (rtr_window_end r)),
                    tw_days = parseActiveDays (rtr_active_days r)\<rparr>
         else None),
      cr_action = Some (coalesce (rtr_action r) ActRoute), cr_overrideSender = rtr_override_sender r,
      cr_overrideRecipient = rtr_override_recipient r, cr_overrideText = rtr_override_text r,
      cr_dropReason = rtr_drop_reason r\<rparr>"

definition candidateRoutesInClient ::
    "(string \<Rightarrow> string \<Rightarrow> int) \<Rightarrow> bool \<Rightarrow> route_row list \<Rightarrow> candidate_route list" where
  "candidateRoutesInClient lc deployedOnly rows =
     map candidate_of
       (sort_cmp (cmp_or (cmp_key rtr_priority) (\<lambda>a b. lc (rtr_name a) (rtr_name b)))
         (filter (\<lambda>r. rtr_enabled r \<and> (deployedOnly \<longrightarrow> rtr_deployment r = ''deployed'')) rows))"

subsection \<open>Availability and bindings\<close>

record bind_health =
  bh_byId :: "(string \<times> string) list"
  bh_available :: "string list"
  bh_assumed :: bool

definition usable_smsc :: "smsc_row \<Rightarrow> bool" where
  "usable_smsc s \<longleftrightarrow> sw_enabled s \<and> \<not> sw_suspended s"

definition availability :: "smsc_row list \<Rightarrow> bind_health" where
  "availability table =
     (let rows = filter usable_smsc table;
          observed = list_ex (\<lambda>r. sw_bind_state r \<noteq> None) rows
      in \<lparr>bh_byId = map (\<lambda>r. (sw_id r, sw_engine r)) rows,
          bh_available =
            (if observed then map sw_engine (filter (\<lambda>r. sw_bind_state r = Some ''bound'') rows) else map sw_engine rows),
          bh_assumed = (\<not> observed)\<rparr>)"

text \<open>The routes and SMSCs a customer is bound to; \<open>None\<close> is unconstrained.\<close>

definition customerBindings :: "string \<Rightarrow> binding_row list \<Rightarrow> (string list \<times> string list) option" where
  "customerBindings c bindings =
     (let rows = filter (\<lambda>b. bd_customer b = c \<and> bd_enabled b) bindings;
          ids = (\<lambda>f. map the (filter truthy (map f rows)))
      in if rows = [] then None else Some (ids bd_route, ids bd_smsc))"

definition permitted :: "(string list \<times> string list) option \<Rightarrow> candidate_route \<Rightarrow> bool" where
  "permitted bindings r \<longleftrightarrow>
     (case bindings of None \<Rightarrow> True | Some (routeIds, smscIds) \<Rightarrow> cr_id r \<in> set routeIds \<or> cr_target r \<in> set smscIds)"

definition engine_target :: "(string \<times> string) list \<Rightarrow> route_target \<Rightarrow> route_target list" where
  "engine_target byId t =
     (case map_of byId (tg_smsc t) of
        Some e \<Rightarrow> if e \<noteq> [] then [t\<lparr>tg_smsc := e\<rparr>] else []
      | None \<Rightarrow> [])"

definition toEngineIds :: "(string \<times> string) list \<Rightarrow> candidate_route \<Rightarrow> candidate_route option" where
  "toEngineIds byId r =
     (let primary = map_of byId (cr_target r)
      in if \<not> truthy primary then None
         else Some (r\<lparr>cr_target := the primary,
                cr_fallback := (if truthy (cr_fallback r) then map_of byId (the (cr_fallback r)) else None),
                cr_targets := Some (concat (map (engine_target byId) (coalesce (cr_targets r) [])))\<rparr>))"

subsection \<open>Resolution\<close>

record send_route_context =
  srx_msisdn :: string
  srx_sender :: "string option"
  srx_operator :: "string option"
  srx_customer :: "string option"
  srx_rotation :: "int option"
  srx_now :: local_time

text \<open>
  \<open>rd_note\<close> is the note the reason gets when nothing was chosen and bindings excluded routes: how
  many of how many.
\<close>

record send_route_decision = selection_result +
  rd_considered :: nat
  rd_excluded :: nat
  rd_available :: "string list"
  rd_assumed :: bool
  rd_cost :: "rat option"
  rd_note :: "(nat \<times> nat) option"

record routing_tables =
  tb_smscs :: "smsc_row list"
  tb_routes :: "route_row list"
  tb_bindings :: "binding_row list"

definition scoped_routes ::
    "(string \<Rightarrow> string \<Rightarrow> int) \<Rightarrow> routing_tables \<Rightarrow> string option \<Rightarrow> candidate_route list \<times> candidate_route list" where
  "scoped_routes lc tables customer =
     (let everything = candidateRoutesInClient lc True (tb_routes tables);
          bindings = (if truthy customer then customerBindings (the customer) (tb_bindings tables) else None)
      in (everything, filter (permitted bindings) everything))"

definition engine_candidates ::
    "(string \<Rightarrow> string \<Rightarrow> int) \<Rightarrow> routing_tables \<Rightarrow> string option \<Rightarrow> candidate_route list" where
  "engine_candidates lc tables customer =
     List.map_filter (toEngineIds (bh_byId (availability (tb_smscs tables)))) (snd (scoped_routes lc tables customer))"

definition selection_context_of :: "routing_tables \<Rightarrow> send_route_context \<Rightarrow> selection_context" where
  "selection_context_of tables ctx =
     \<lparr>sx_msisdn = srx_msisdn ctx, sx_sender = srx_sender ctx, sx_operator = srx_operator ctx, sx_now = srx_now ctx,
      sx_available = Some (bh_available (availability (tb_smscs tables))),
      sx_rotation = Some (coalesce (srx_rotation ctx) 0)\<rparr>"

definition resolveInClient ::
    "(string \<Rightarrow> string \<Rightarrow> int) \<Rightarrow> routing_tables \<Rightarrow> send_route_context \<Rightarrow> send_route_decision" where
  "resolveInClient lc tables ctx =
     (let health = availability (tb_smscs tables);
          (everything, scoped) = scoped_routes lc tables (srx_customer ctx);
          excluded = length everything - length scoped;
          candidates = engine_candidates lc tables (srx_customer ctx);
          result = selectRoute lc candidates (selection_context_of tables ctx);
          controlling = (if truthy (sr_route result) then find (\<lambda>r. Some (cr_id r) = sr_route result) candidates else None)
      in selection_result.extend result
           \<lparr>rd_considered = length candidates, rd_excluded = excluded, rd_available = bh_available health,
            rd_assumed = bh_assumed health, rd_cost = Option.bind controlling cr_cost,
            rd_note = (if \<not> truthy (sr_smsc result) \<and> excluded > 0 then Some (excluded, length everything) else None)\<rparr>)"

subsection \<open>Lemmas\<close>

lemma selectRoute_available:
  assumes "sr_smsc (selectRoute lc routes ctx) = Some e"
  shows "routable routes ctx \<and> isAvailable (Some e) ctx
    \<and> sr_route (selectRoute lc routes ctx) = Some (cr_id (controlling_route lc routes ctx))"
proof -
  have r: "routable routes ctx" using assms selectRoute_not_routable(2) by fastforce
  with assms obtain c where c: "smsc_choice lc routes ctx = Some c" "sc_smsc c = e"
    by (auto simp: selectRoute_routable(5))
  have "c \<in> set (smsc_pool ctx (map fst (sort_cmp (by_specificity lc) (matched_routes routes ctx))) (controlling_route lc routes ctx))"
    using c(1) unfolding smsc_choice_def by (rule choose_smsc_sound)
  with c(2) have "isAvailable (Some e) ctx" by (auto simp: smsc_pool_def)
  with r show ?thesis by (simp add: selectRoute_routable(1))
qed

lemma resolve_fields:
  "sr_smsc (resolveInClient lc tables ctx)
     = sr_smsc (selectRoute lc (engine_candidates lc tables (srx_customer ctx)) (selection_context_of tables ctx))"
  "sr_route (resolveInClient lc tables ctx)
     = sr_route (selectRoute lc (engine_candidates lc tables (srx_customer ctx)) (selection_context_of tables ctx))"
  "sr_effect (resolveInClient lc tables ctx)
     = sr_effect (selectRoute lc (engine_candidates lc tables (srx_customer ctx)) (selection_context_of tables ctx))"
  "rd_available (resolveInClient lc tables ctx) = bh_available (availability (tb_smscs tables))"
  "rd_assumed (resolveInClient lc tables ctx) = bh_assumed (availability (tb_smscs tables))"
  by (simp_all add: resolveInClient_def selection_result.extend_def Let_def split: prod.split)

lemma available_smsc:
  assumes "e \<in> set (bh_available (availability table))"
  shows "\<exists>s \<in> set table. usable_smsc s \<and> sw_engine s = e
    \<and> (sw_bind_state s = Some ''bound'' \<or> (\<forall>s \<in> set table. usable_smsc s \<longrightarrow> sw_bind_state s = None))"
  using assms by (auto simp: availability_def Let_def list_ex_iff split: if_splits)

lemma toEngineIds_fields:
  "toEngineIds byId r = Some r' \<Longrightarrow>
     cr_id r' = cr_id r \<and> cr_cost r' = cr_cost r \<and> map_of byId (cr_target r) = Some (cr_target r') \<and> cr_target r' \<noteq> []
     \<and> effectOf r' = effectOf r"
  by (auto simp: toEngineIds_def effectOf_def Let_def truthy_def split: if_splits option.splits)

text \<open>Where a candidate comes from: an enabled, deployed row that the customer's bindings permit.\<close>

definition source_row ::
    "routing_tables \<Rightarrow> string option \<Rightarrow> candidate_route \<Rightarrow> route_row \<Rightarrow> bool" where
  "source_row tables customer r row \<longleftrightarrow>
     row \<in> set (tb_routes tables) \<and> rtr_enabled row \<and> rtr_deployment row = ''deployed''
     \<and> rtr_id row = cr_id r \<and> rtr_cost row = cr_cost r
     \<and> permitted (if truthy customer then customerBindings (the customer) (tb_bindings tables) else None) (candidate_of row)
     \<and> effectOf (candidate_of row) = effectOf r"

lemma candidate_of_simps [simp]:
  "cr_id (candidate_of row) = rtr_id row" "cr_cost (candidate_of row) = rtr_cost row"
  "cr_target (candidate_of row) = rtr_target row" "cr_enabled (candidate_of row) = rtr_enabled row"
  by (simp_all add: candidate_of_def)

lemma engine_candidate_source:
  assumes "r \<in> set (engine_candidates lc tables customer)"
  shows "\<exists>row. source_row tables customer r row"
proof -
  from assms obtain r0 where r0: "r0 \<in> set (snd (scoped_routes lc tables customer))"
    "toEngineIds (bh_byId (availability (tb_smscs tables))) r0 = Some r"
    by (auto simp: engine_candidates_def map_filter_def)
  then obtain row where row: "row \<in> set (tb_routes tables)" "rtr_enabled row" "rtr_deployment row = ''deployed''"
      "r0 = candidate_of row"
      "permitted (if truthy customer then customerBindings (the customer) (tb_bindings tables) else None) r0"
    by (auto simp: scoped_routes_def candidateRoutesInClient_def Let_def)
  with toEngineIds_fields [OF r0(2)] have "source_row tables customer r row"
    by (simp add: source_row_def)
  then show ?thesis by blast
qed

text \<open>A live route: whenever resolution names a bind, it is the engine identifier of an SMSC of the
  tenant that is enabled, not suspended and last seen bound (or no usable SMSC has been observed at all),
  and the route it was chosen by is enabled, deployed and permitted by the customer's bindings; the cost
  and the effect that come with it are that route's.\<close>

theorem resolution_is_live:
  assumes "ranking lc" and "distinct (map rtr_id (tb_routes tables))" and "\<forall>row \<in> set (tb_routes tables). rtr_id row \<noteq> []"
    and "d = resolveInClient lc tables ctx" and "sr_smsc d = Some e"
  shows "(\<exists>s \<in> set (tb_smscs tables). usable_smsc s \<and> sw_engine s = e
       \<and> (sw_bind_state s = Some ''bound'' \<or> (\<forall>s \<in> set (tb_smscs tables). usable_smsc s \<longrightarrow> sw_bind_state s = None)))
    \<and> (\<exists>row \<in> set (tb_routes tables). rtr_enabled row \<and> rtr_deployment row = ''deployed''
       \<and> sr_route d = Some (rtr_id row)
       \<and> permitted (if truthy (srx_customer ctx) then customerBindings (the (srx_customer ctx)) (tb_bindings tables) else None)
           (candidate_of row)
       \<and> rd_cost d = rtr_cost row \<and> sr_effect d = Some (effectOf (candidate_of row)))"
proof -
  let ?cs = "engine_candidates lc tables (srx_customer ctx)" and ?sx = "selection_context_of tables ctx"
  let ?c = "controlling_route lc ?cs ?sx"
  have sel: "sr_smsc (selectRoute lc ?cs ?sx) = Some e" using assms(4,5) by (simp add: resolve_fields)
  from selectRoute_available [OF this] have r: "routable ?cs ?sx" "isAvailable (Some e) ?sx"
    "sr_route (selectRoute lc ?cs ?sx) = Some (cr_id ?c)" by blast+
  have "e \<in> set (bh_available (availability (tb_smscs tables)))"
    using r(2) by (auto simp: isAvailable_def selection_context_of_def split: if_splits)
  from available_smsc [OF this] have s: "\<exists>s \<in> set (tb_smscs tables). usable_smsc s \<and> sw_engine s = e
       \<and> (sw_bind_state s = Some ''bound'' \<or> (\<forall>s \<in> set (tb_smscs tables). usable_smsc s \<longrightarrow> sw_bind_state s = None))" .
  have c: "?c \<in> set ?cs" by (rule controlling_route_best(1) [OF assms(1) r(1)])
  then obtain row where row: "source_row tables (srx_customer ctx) ?c row" using engine_candidate_source by blast
  have cost: "rd_cost d = rtr_cost row"
  proof -
    from c have "\<exists>x. find (\<lambda>x. Some (cr_id x) = Some (cr_id ?c)) ?cs = Some x"
      using find_None_iff [of "\<lambda>x. Some (cr_id x) = Some (cr_id ?c)" ?cs] by fastforce
    then obtain x where x: "find (\<lambda>x. Some (cr_id x) = Some (cr_id ?c)) ?cs = Some x" by blast
    from find_some_props [OF this] obtain row' where row': "source_row tables (srx_customer ctx) x row'" "cr_id x = cr_id ?c"
      using engine_candidate_source by fastforce
    with row have "row' = row"
      by (intro distinct_keys_unique [OF assms(2)]) (simp_all add: source_row_def)
    moreover have "truthy (Some (cr_id ?c))" using row assms(3) by (auto simp: source_row_def)
    ultimately show ?thesis
      using x row'(1) r(3) by (auto simp: assms(4) resolveInClient_def selection_result.extend_def Let_def source_row_def split: prod.split)
  qed
  have "sr_effect d = Some (effectOf (candidate_of row))"
    using row r(1) by (simp add: assms(4) resolve_fields selectRoute_routable(4) source_row_def)
  moreover have "sr_route d = Some (rtr_id row)"
    using row r(3) by (simp add: assms(4) resolve_fields source_row_def)
  ultimately show ?thesis using s row cost by (auto simp: source_row_def)
qed

definition sample_smsc :: "string \<Rightarrow> string \<Rightarrow> string option \<Rightarrow> smsc_row" where
  "sample_smsc i e bound = \<lparr>sw_id = i, sw_engine = e, sw_enabled = True, sw_suspended = False, sw_bind_state = bound\<rparr>"

definition sample_route_row :: "string \<Rightarrow> string \<Rightarrow> string option \<Rightarrow> route_row" where
  "sample_route_row i target fallback =
     \<lparr>rtr_id = i, rtr_name = i, rtr_priority = 10, rtr_enabled = True, rtr_deployment = ''deployed'', rtr_type = RtPrefix,
      rtr_strategy = StPriority, rtr_match_prefix = Some ''256'', rtr_country_code = None, rtr_operator = None,
      rtr_destination_prefix = None, rtr_sender = None, rtr_cost = Some 2, rtr_target = target, rtr_fallback = fallback,
      rtr_window_start = None, rtr_window_end = None, rtr_active_days = None, rtr_action = None,
      rtr_override_sender = None, rtr_override_recipient = None, rtr_override_text = None, rtr_drop_reason = None,
      rtr_targets = []\<rparr>"

definition failover_tables :: routing_tables where
  "failover_tables =
     \<lparr>tb_smscs = [sample_smsc ''1'' ''primary'' (Some ''disconnected''), sample_smsc ''2'' ''backup'' (Some ''bound'')],
      tb_routes = [sample_route_row ''r'' ''1'' (Some ''2'')],
      tb_bindings = [\<lparr>bd_id = 0, bd_customer = ''c'', bd_route = None, bd_smsc = Some ''1'', bd_priority = 0, bd_enabled = True\<rparr>]\<rparr>"

definition sample_route_context :: send_route_context where
  "sample_route_context =
     \<lparr>srx_msisdn = ''256700000000'', srx_sender = None, srx_operator = None, srx_customer = Some ''c'', srx_rotation = None,
      srx_now = \<lparr>lt_day = 0, lt_hours = 0, lt_minutes = 0\<rparr>\<rparr>"

theorem resolution_is_live_witness:
  "sr_smsc (resolveInClient code_unit_compare failover_tables sample_route_context) = Some ''backup''
   \<and> rd_cost (resolveInClient code_unit_compare failover_tables sample_route_context) = Some 2"
proof -
  have e: "sr_smsc (resolveInClient code_unit_compare failover_tables sample_route_context) = Some ''backup''" by code_simp
  have "distinct (map rtr_id (tb_routes failover_tables))" "\<forall>row \<in> set (tb_routes failover_tables). rtr_id row \<noteq> []"
    by (simp_all add: failover_tables_def sample_route_row_def)
  from resolution_is_live [OF ranking_code_unit_compare this refl e] e show ?thesis
    by (auto simp: failover_tables_def sample_route_row_def)
qed

end
