(* ===== verification/Blocklist.thy ===== *)
theory Blocklist
  imports Msisdn StepSystem
begin

section \<open>The recipient blocklist: messaging-depth/message-blocklist.service.ts\<close>

text \<open>
  The do-not-disturb, black and white lists of a tenant, tenant-wide (no customer) or for one
  customer, against canonical digits. \<open>env\<close> is \<open>process.env.DEFAULT_COUNTRY_CODE\<close>; a transaction that
  throws leaves the table as it was.
\<close>

datatype list_type = Blacklist | Whitelist | Dnd

record blocklist_row =
  bl_id :: nat
  bl_customer :: "string option"
  bl_type :: list_type
  bl_msisdn :: string
  bl_reason :: "string option"
  bl_source :: "string option"
  bl_enabled :: bool
  bl_expires :: "int option"

record blocklist_entry =
  be_listType :: list_type
  be_msisdn :: string
  be_customer :: "string option"
  be_reason :: "string option"
  be_source :: "string option"
  be_expires :: "int option"

record blocklist_verdict =
  bv_allowed :: bool
  bv_listType :: "list_type option"
  bv_reason :: "string option"

datatype blocklist_error = BadDestination string | BlockCustomerNotFound | BlockEntryNotFound

definition canonical :: "string option \<Rightarrow> string \<Rightarrow> (blocklist_error, string) result" where
  "canonical env msisdn =
     (let n = normalizeMsisdn env (Some msisdn) None
      in case nm_digits n of
           None \<Rightarrow> Inl (BadDestination (describeMsisdnProblem n))
         | Some d \<Rightarrow> if d = [] then Inl (BadDestination (describeMsisdnProblem n)) else Inr d)"

subsection \<open>Evaluation\<close>

definition in_scope :: "int \<Rightarrow> string option \<Rightarrow> blocklist_row \<Rightarrow> bool" where
  "in_scope now customer r \<longleftrightarrow>
     bl_enabled r \<and> (case bl_expires r of None \<Rightarrow> True | Some e \<Rightarrow> e > now)
     \<and> (bl_customer r = None \<or> bl_customer r = customer)"

definition scoped_rows :: "int \<Rightarrow> string \<Rightarrow> string option \<Rightarrow> blocklist_row list \<Rightarrow> blocklist_row list" where
  "scoped_rows now digits customer rows =
     filter (\<lambda>r. in_scope now customer r \<and> (bl_msisdn r = digits \<or> bl_type r = Whitelist)) rows"

definition list_hit :: "list_type \<Rightarrow> string \<Rightarrow> blocklist_row list \<Rightarrow> blocklist_row option" where
  "list_hit t digits rows = find (\<lambda>r. bl_type r = t \<and> bl_msisdn r = digits) rows"

definition evaluateBlocklist :: "int \<Rightarrow> string \<Rightarrow> string option \<Rightarrow> blocklist_row list \<Rightarrow> blocklist_verdict" where
  "evaluateBlocklist now digits customer table =
     (let rows = scoped_rows now digits customer table;
          refused = (\<lambda>t reason. \<lparr>bv_allowed = False, bv_listType = Some t, bv_reason = Some reason\<rparr>)
      in case list_hit Dnd digits rows of
           Some r \<Rightarrow> refused Dnd (coalesce (bl_reason r) ''destination is registered do-not-disturb'')
         | None \<Rightarrow>
             (case list_hit Blacklist digits rows of
                Some r \<Rightarrow> refused Blacklist (coalesce (bl_reason r) ''destination is blacklisted'')
              | None \<Rightarrow>
                  if list_ex (\<lambda>r. bl_type r = Whitelist) rows \<and> list_hit Whitelist digits rows = None
                  then refused Whitelist ''a whitelist is active and this destination is not on it''
                  else \<lparr>bv_allowed = True, bv_listType = None, bv_reason = None\<rparr>))"

definition evaluateAddress ::
    "string option \<Rightarrow> int \<Rightarrow> string \<Rightarrow> string option \<Rightarrow> blocklist_row list
       \<Rightarrow> (blocklist_error, string \<times> blocklist_verdict) result" where
  "evaluateAddress env now msisdn customer table =
     bind_result (canonical env msisdn) (\<lambda>d. Inr (d, evaluateBlocklist now d customer table))"

subsection \<open>Writes\<close>

text \<open>The partial unique index of the entry's scope.\<close>

definition same_entry :: "string option \<Rightarrow> list_type \<Rightarrow> string \<Rightarrow> blocklist_row \<Rightarrow> bool" where
  "same_entry customer t digits r \<longleftrightarrow> bl_customer r = customer \<and> bl_type r = t \<and> bl_msisdn r = digits"

definition add_entry ::
    "string option \<Rightarrow> string list \<Rightarrow> nat \<Rightarrow> blocklist_entry \<Rightarrow> blocklist_row list
       \<Rightarrow> (blocklist_error, blocklist_row list) result" where
  "add_entry env customers newId input rows =
     bind_result (canonical env (be_msisdn input)) (\<lambda>d.
       if truthy (be_customer input) \<and> the (be_customer input) \<notin> set customers then Inl BlockCustomerNotFound
       else
         let mine = same_entry (be_customer input) (be_listType input) d
         in Inr (if list_ex mine rows
                 then update_where mine (\<lambda>r. r\<lparr>bl_reason := be_reason input, bl_source := be_source input,
                        bl_expires := be_expires input, bl_enabled := True\<rparr>) rows
                 else rows @ [\<lparr>bl_id = newId, bl_customer = be_customer input, bl_type = be_listType input,
                                bl_msisdn = d, bl_reason = be_reason input, bl_source = be_source input,
                                bl_enabled = True, bl_expires = be_expires input\<rparr>]))"

definition remove_entry :: "nat \<Rightarrow> blocklist_row list \<Rightarrow> (blocklist_error, blocklist_row list) result" where
  "remove_entry i rows =
     (if list_ex (\<lambda>r. bl_id r = i) rows then Inr (filter (\<lambda>r. bl_id r \<noteq> i) rows) else Inl BlockEntryNotFound)"

subsection \<open>Lemmas\<close>

definition listed :: "int \<Rightarrow> list_type \<Rightarrow> string \<Rightarrow> string option \<Rightarrow> blocklist_row list \<Rightarrow> bool" where
  "listed now t digits customer rows \<longleftrightarrow>
     (\<exists>r \<in> set rows. in_scope now customer r \<and> bl_type r = t \<and> bl_msisdn r = digits)"

lemma list_hit_None: "list_hit t digits (scoped_rows now digits customer rows) = None \<longleftrightarrow> \<not> listed now t digits customer rows"
  by (auto simp: list_hit_def listed_def scoped_rows_def find_None_iff)

lemma list_hit_Some:
  "list_hit t digits (scoped_rows now digits customer rows) = Some r \<Longrightarrow> listed now t digits customer rows"
  by (metis list_hit_None option.distinct(1))

lemma whitelist_active:
  "list_ex (\<lambda>r. bl_type r = Whitelist) (scoped_rows now digits customer rows)
     \<longleftrightarrow> (\<exists>r \<in> set rows. in_scope now customer r \<and> bl_type r = Whitelist)"
  by (auto simp: list_ex_iff scoped_rows_def)

lemma evaluate_allowed:
  "bv_allowed (evaluateBlocklist now digits customer rows) \<longleftrightarrow>
     \<not> listed now Dnd digits customer rows \<and> \<not> listed now Blacklist digits customer rows
     \<and> ((\<exists>r \<in> set rows. in_scope now customer r \<and> bl_type r = Whitelist) \<longrightarrow> listed now Whitelist digits customer rows)"
  unfolding evaluateBlocklist_def Let_def whitelist_active
  by (auto simp: list_hit_None dest: list_hit_Some split: option.split)

lemma update_adds:
  assumes "r \<in> set rows" and "P r"
  shows "f r \<in> set (update_where P f rows)"
  using assms by (force simp: set_update_where)

lemma add_entry_listed:
  assumes "add_entry env customers newId input rows = Inr rows'"
    and "case be_expires input of None \<Rightarrow> True | Some e \<Rightarrow> e > now"
    and "be_customer input = None \<or> be_customer input = customer"
    and "canonical env (be_msisdn input) = Inr d"
  shows "listed now (be_listType input) d customer rows'"
proof -
  let ?mine = "same_entry (be_customer input) (be_listType input) d"
  let ?set = "\<lambda>r. r\<lparr>bl_reason := be_reason input, bl_source := be_source input, bl_expires := be_expires input, bl_enabled := True\<rparr>"
  show ?thesis
  proof (cases "list_ex ?mine rows")
    case True
    then obtain r where r: "r \<in> set rows" "?mine r" by (auto simp: list_ex_iff)
    from True assms(1,4) have "rows' = update_where ?mine ?set rows" by (auto simp: add_entry_def Let_def split: if_splits)
    with update_adds [where P = ?mine and f = ?set, OF r] have "?set r \<in> set rows'" by simp
    moreover have "in_scope now customer (?set r)" "bl_type (?set r) = be_listType input" "bl_msisdn (?set r) = d"
      using r(2) assms(2,3) by (auto simp: same_entry_def in_scope_def)
    ultimately show ?thesis unfolding listed_def by blast
  next
    case False
    let ?row = "\<lparr>bl_id = newId, bl_customer = be_customer input, bl_type = be_listType input, bl_msisdn = d,
      bl_reason = be_reason input, bl_source = be_source input, bl_enabled = True, bl_expires = be_expires input\<rparr>"
    from False assms(1,4) have "?row \<in> set rows'" by (auto simp: add_entry_def Let_def split: if_splits)
    moreover have "in_scope now customer ?row" using assms(2,3) by (simp add: in_scope_def)
    ultimately show ?thesis unfolding listed_def by force
  qed
qed

text \<open>C39. The lists decide as declared: a destination is refused exactly when it is on a live
  do-not-disturb or black list in scope, or a live white list is in scope and does not name it; a refusal
  names the first of the three that applies, and the answer does not depend on the order of the rows.
  Adding an unexpired black-list or do-not-disturb entry refuses the number for every customer in its scope
  in whatever spelling it was given.\<close>

theorem blocklist_decides:
  assumes "add_entry env customers newId input rows = Inr rows'" and "be_listType input \<noteq> Whitelist"
    and "case be_expires input of None \<Rightarrow> True | Some e \<Rightarrow> e > now"
    and "be_customer input = None \<or> be_customer input = customer"
  shows "(bv_allowed (evaluateBlocklist now digits customer rows) \<longleftrightarrow>
       \<not> listed now Dnd digits customer rows \<and> \<not> listed now Blacklist digits customer rows
       \<and> ((\<exists>r \<in> set rows. in_scope now customer r \<and> bl_type r = Whitelist) \<longrightarrow> listed now Whitelist digits customer rows))
    \<and> bv_listType (evaluateBlocklist now digits customer rows) =
        (if bv_allowed (evaluateBlocklist now digits customer rows) then None
         else if listed now Dnd digits customer rows then Some Dnd
         else if listed now Blacklist digits customer rows then Some Blacklist else Some Whitelist)
    \<and> (\<exists>d. canonical env (be_msisdn input) = Inr d \<and> \<not> bv_allowed (evaluateBlocklist now d customer rows'))"
proof (intro conjI)
  show "bv_allowed (evaluateBlocklist now digits customer rows) \<longleftrightarrow>
       \<not> listed now Dnd digits customer rows \<and> \<not> listed now Blacklist digits customer rows
       \<and> ((\<exists>r \<in> set rows. in_scope now customer r \<and> bl_type r = Whitelist) \<longrightarrow> listed now Whitelist digits customer rows)"
    by (rule evaluate_allowed)
  show "bv_listType (evaluateBlocklist now digits customer rows) =
        (if bv_allowed (evaluateBlocklist now digits customer rows) then None
         else if listed now Dnd digits customer rows then Some Dnd
         else if listed now Blacklist digits customer rows then Some Blacklist else Some Whitelist)"
    unfolding evaluateBlocklist_def Let_def
    by (auto simp: list_hit_None dest: list_hit_Some split: option.split)
  from assms(1) obtain d where d: "canonical env (be_msisdn input) = Inr d" by (auto simp: add_entry_def elim: bind_resultE)
  from add_entry_listed [OF assms(1,3,4) d] assms(2) have "\<not> bv_allowed (evaluateBlocklist now d customer rows')"
    by (cases "be_listType input") (simp_all add: evaluate_allowed)
  with d show "\<exists>d. canonical env (be_msisdn input) = Inr d \<and> \<not> bv_allowed (evaluateBlocklist now d customer rows')"
    by blast
qed

definition sample_entry :: blocklist_entry where
  "sample_entry =
     \<lparr>be_listType = Dnd, be_msisdn = ''00 256 700 000000'', be_customer = None, be_reason = None,
      be_source = None, be_expires = Some 10\<rparr>"

theorem blocklist_decides_witness:
  "\<exists>rows. add_entry None [] 0 sample_entry [] = Inr rows \<and> \<not> bv_allowed (evaluateBlocklist 5 ''256700000000'' (Some ''c'') rows)
     \<and> bv_allowed (evaluateBlocklist 5 ''256700000000'' (Some ''c'') [])"
proof -
  have c: "canonical None (be_msisdn sample_entry) = Inr ''256700000000''" by code_simp
  then obtain rows where r: "add_entry None [] 0 sample_entry [] = Inr rows"
    by (auto simp: add_entry_def sample_entry_def Let_def)
  from blocklist_decides [OF r, of 5 "Some ''c''" "''256700000000''"] c
  have "\<not> bv_allowed (evaluateBlocklist 5 ''256700000000'' (Some ''c'') rows)"
    "bv_allowed (evaluateBlocklist 5 ''256700000000'' (Some ''c'') [])"
    by (auto simp: sample_entry_def listed_def)
  with r show ?thesis by blast
qed

end
