(* ===== verification/Dedupe.thy ===== *)
theory Dedupe
  imports JsValue StepSystem
begin

section \<open>Outbound duplicate control: messaging-depth/mt-dedupe.ts, mt-dedupe.service.ts\<close>

text \<open>
  The key of a submission, and the table of claimed keys. \<open>sha\<close> is SHA-256 in hexadecimal. A row's
  claim is atomic: the primary key serialises two claims of one key. Refusals are kept as the values
  their sentences carry. \<open>now\<close> is in milliseconds, windows are in seconds.
\<close>

definition DEFAULT_DEDUPE_WINDOW_SECONDS :: int where "DEFAULT_DEDUPE_WINDOW_SECONDS = 60"
definition MAX_DEDUPE_WINDOW_SECONDS :: int where "MAX_DEDUPE_WINDOW_SECONDS = 3600"

record dedupe_subject =
  dd_tenant :: string
  dd_sender :: "string option"
  dd_recipient :: string
  dd_text :: string
  dd_foreignId :: "string option"

definition NUL :: char where "NUL = CHR 0x00"

definition subject_reference :: "dedupe_subject \<Rightarrow> string" where
  "subject_reference s = trim (coalesce (dd_foreignId s) [])"

definition dedupe_material :: "dedupe_subject \<Rightarrow> string" where
  "dedupe_material s =
     join [NUL]
       (if subject_reference s \<noteq> [] then [''ref'', dd_tenant s, subject_reference s]
        else [''content'', dd_tenant s, coalesce (dd_sender s) [], dd_recipient s, dd_text s])"

definition dedupeKey :: "(string \<Rightarrow> string) \<Rightarrow> dedupe_subject \<Rightarrow> string" where
  "dedupeKey sha s = sha (dedupe_material s)"

definition isReferenceKey :: "dedupe_subject \<Rightarrow> bool" where
  "isReferenceKey s \<longleftrightarrow> length (subject_reference s) > 0"

definition normalizeWindowSeconds :: "jsval \<Rightarrow> int" where
  "normalizeWindowSeconds v =
     (case toNumber v of
        Fin q \<Rightarrow> min (max \<lfloor>q\<rfloor> 0) MAX_DEDUPE_WINDOW_SECONDS
      | _ \<Rightarrow> DEFAULT_DEDUPE_WINDOW_SECONDS)"

datatype duplicate_verdict =
    SameReference string int "nat option"
  | SameContent int "nat option"

definition describeDuplicate :: "dedupe_subject \<Rightarrow> int \<Rightarrow> nat option \<Rightarrow> duplicate_verdict" where
  "describeDuplicate s window first =
     (if isReferenceKey s then SameReference (subject_reference s) window first else SameContent window first)"

subsection \<open>The table of claimed keys\<close>

record dedupe_row =
  dk_tenant :: string
  dk_key :: string
  dk_first :: "nat option"
  dk_expires :: int
  dk_suppressed :: nat

definition is_key :: "(string \<Rightarrow> string) \<Rightarrow> dedupe_subject \<Rightarrow> dedupe_row \<Rightarrow> bool" where
  "is_key sha s r \<longleftrightarrow> dk_tenant r = dd_tenant s \<and> dk_key r = dedupeKey sha s"

definition window_of :: "int \<Rightarrow> int" where
  "window_of windowSeconds = normalizeWindowSeconds (JNum (Fin (of_int windowSeconds)))"

text \<open>The rows after the statements, and the refusal that is then thrown, if any.\<close>

definition claimKey ::
    "(string \<Rightarrow> string) \<Rightarrow> dedupe_subject \<Rightarrow> int \<Rightarrow> int \<Rightarrow> dedupe_row list
       \<Rightarrow> duplicate_verdict option \<times> dedupe_row list" where
  "claimKey sha s windowSeconds now rows =
     (let window = window_of windowSeconds
      in if window = 0 then (None, rows)
         else
           let live = filter (\<lambda>r. \<not> (is_key sha s r \<and> dk_expires r \<le> now)) rows
           in case find (is_key sha s) live of
                None \<Rightarrow>
                  (None, live @ [\<lparr>dk_tenant = dd_tenant s, dk_key = dedupeKey sha s, dk_first = None,
                                  dk_expires = now + window * 1000, dk_suppressed = 0\<rparr>])
              | Some r \<Rightarrow>
                  (Some (describeDuplicate s window (dk_first r)),
                   update_where (is_key sha s) (\<lambda>r. r\<lparr>dk_suppressed := dk_suppressed r + 1\<rparr>) live))"

definition stampKey ::
    "(string \<Rightarrow> string) \<Rightarrow> dedupe_subject \<Rightarrow> int \<Rightarrow> nat \<Rightarrow> dedupe_row list \<Rightarrow> dedupe_row list" where
  "stampKey sha s windowSeconds sqlId rows =
     (if window_of windowSeconds = 0 then rows
      else update_where (\<lambda>r. is_key sha s r \<and> dk_first r = None) (\<lambda>r. r\<lparr>dk_first := Some sqlId\<rparr>) rows)"

definition releaseKey :: "(string \<Rightarrow> string) \<Rightarrow> dedupe_subject \<Rightarrow> int \<Rightarrow> dedupe_row list \<Rightarrow> dedupe_row list" where
  "releaseKey sha s windowSeconds rows =
     (if window_of windowSeconds = 0 then rows
      else filter (\<lambda>r. \<not> (is_key sha s r \<and> dk_first r = None)) rows)"

text \<open>\<open>None\<close>: the column is not there; \<open>Some None\<close>: the tenant has no row.\<close>

definition windowFor :: "int option option \<Rightarrow> int" where
  "windowFor column =
     (case column of
        None \<Rightarrow> 0
      | Some w \<Rightarrow> window_of (coalesce w DEFAULT_DEDUPE_WINDOW_SECONDS))"

definition sweepKeys :: "int \<Rightarrow> dedupe_row list \<Rightarrow> nat \<times> dedupe_row list" where
  "sweepKeys now rows =
     (length (filter (\<lambda>r. dk_expires r \<le> now) rows), filter (\<lambda>r. dk_expires r > now) rows)"

subsection \<open>Lemmas\<close>

lemma window_of_bounds: "0 \<le> window_of w \<and> window_of w \<le> 3600" "0 \<le> w \<Longrightarrow> w \<le> 3600 \<Longrightarrow> window_of w = w"
  by (simp_all add: window_of_def normalizeWindowSeconds_def MAX_DEDUPE_WINDOW_SECONDS_def)

text \<open>The material tells submissions apart: the fields before the body hold no NUL.\<close>

lemma NUL_not_in: "NUL \<notin> set ''ref''" "NUL \<notin> set ''content''"
  by (simp_all add: NUL_def)

lemma dedupe_material_inject:
  assumes "dedupe_material s = dedupe_material t"
    and "\<And>x. x \<in> {s, t} \<Longrightarrow> NUL \<notin> set (dd_tenant x) \<and> NUL \<notin> set (coalesce (dd_sender x) []) \<and> NUL \<notin> set (dd_recipient x)"
  shows "dd_tenant s = dd_tenant t \<and> subject_reference s = subject_reference t
    \<and> (subject_reference s = [] \<longrightarrow>
         coalesce (dd_sender s) [] = coalesce (dd_sender t) [] \<and> dd_recipient s = dd_recipient t \<and> dd_text s = dd_text t)"
proof -
  have cut: "a = b \<and> x = y" if "a @ NUL # x = b @ NUL # y" "NUL \<notin> set a" "NUL \<notin> set b" for a b x y :: string
  proof -
    have "takeWhile (\<lambda>c. c \<noteq> NUL) (a @ NUL # x) = a" "takeWhile (\<lambda>c. c \<noteq> NUL) (b @ NUL # y) = b"
      using that(2,3) by (auto simp: takeWhile_append2 takeWhile_tail)
    with that(1) show ?thesis by auto
  qed
  have m: "dedupe_material x =
      (if subject_reference x \<noteq> [] then ''ref'' @ NUL # dd_tenant x @ NUL # subject_reference x
       else ''content'' @ NUL # dd_tenant x @ NUL # coalesce (dd_sender x) [] @ NUL # dd_recipient x @ NUL # dd_text x)" for x
    by (simp add: dedupe_material_def)
  show ?thesis
  proof (cases "subject_reference s = []"; cases "subject_reference t = []")
    assume "subject_reference s = []" "subject_reference t = []"
    with assms cut show ?thesis unfolding m by (metis (no_types, lifting) insertCI append_same_eq NUL_not_in(2) same_append_eq)
  next
    assume "subject_reference s = []" "subject_reference t \<noteq> []"
    with assms(1) cut [of "''content''" _ "''ref''"] NUL_not_in show ?thesis unfolding m by auto
  next
    assume "subject_reference s \<noteq> []" "subject_reference t = []"
    with assms(1) cut [of "''ref''" _ "''content''"] NUL_not_in show ?thesis unfolding m by auto
  next
    assume r: "subject_reference s \<noteq> []" "subject_reference t \<noteq> []"
    with assms(1) have "dd_tenant s @ NUL # subject_reference s = dd_tenant t @ NUL # subject_reference t" unfolding m by simp
    from cut [OF this] assms(2) r show ?thesis by simp
  qed
qed

text \<open>A claimed key is live until its window ends; a claim is granted exactly when no live row holds the key.\<close>

lemma claimKey_granted:
  assumes "claimKey sha s w now rows = (None, rows')" and "window_of w \<noteq> 0"
  shows "(\<forall>r \<in> set rows. is_key sha s r \<longrightarrow> dk_expires r \<le> now)
    \<and> rows' = filter (\<lambda>r. \<not> (is_key sha s r \<and> dk_expires r \<le> now)) rows
        @ [\<lparr>dk_tenant = dd_tenant s, dk_key = dedupeKey sha s, dk_first = None,
            dk_expires = now + window_of w * 1000, dk_suppressed = 0\<rparr>]"
  using assms by (auto simp: claimKey_def Let_def find_None_iff split: option.splits)

lemma claimKey_refused:
  assumes "claimKey sha s w now rows = (Some v, rows')"
  shows "\<exists>r \<in> set rows. is_key sha s r \<and> now < dk_expires r \<and> v = describeDuplicate s (window_of w) (dk_first r)"
proof -
  let ?live = "filter (\<lambda>r. \<not> (is_key sha s r \<and> dk_expires r \<le> now)) rows"
  from assms obtain r where r: "find (is_key sha s) ?live = Some r" "v = describeDuplicate s (window_of w) (dk_first r)"
    by (auto simp: claimKey_def Let_def split: if_splits option.splits)
  from find_some_props [OF r(1)] r(2) show ?thesis by force
qed

lemma claimKey_off: "window_of w = 0 \<Longrightarrow> claimKey sha s w now rows = (None, rows)"
  by (simp add: claimKey_def)

end
