(* ===== verification/RateLimits.thy ===== *)
theory RateLimits
  imports CustomerAccounts
begin

section \<open>Rate limits: api-gateway/gateway-rate-limiter.ts, customers-depth/customer-rate-limit.service.ts\<close>

text \<open>
  The fixed-window counter in Redis and the per-customer limit of the send path. The store is the
  counters, a function from keys; the script increments one of them atomically. A key names its
  window and expires no earlier than its window ends, so expiry is not modelled. \<open>up\<close> says
  whether Redis answers and \<open>ttl\<close> what it reports; \<open>now\<close> is in milliseconds.
\<close>

record rate_result =
  rl_allowed :: bool
  rl_limit :: int
  rl_remaining :: int
  rl_retryAfterSeconds :: int
  rl_degraded :: bool

type_synonym counters = "string \<Rightarrow> nat"

definition window_start :: "int \<Rightarrow> int \<Rightarrow> int" where
  "window_start windowSeconds now = (now div 1000) div windowSeconds * windowSeconds"

definition redis_key :: "string \<Rightarrow> int \<Rightarrow> string" where
  "redis_key keyId start = ''gw:rl:'' @ keyId @ '':'' @ show_nat (nat start)"

text \<open>\<open>WINDOW_SCRIPT\<close>: the count after the increment.\<close>

definition window_script :: "string \<Rightarrow> counters \<Rightarrow> nat \<times> counters" where
  "window_script key c = (c key + 1, c(key := c key + 1))"

definition consumeSlot ::
    "bool \<Rightarrow> int \<Rightarrow> string \<Rightarrow> int \<Rightarrow> int \<Rightarrow> int \<Rightarrow> counters \<Rightarrow> rate_result \<times> counters" where
  "consumeSlot up ttl keyId limit windowSeconds now c =
     (if limit \<le> 0
      then (\<lparr>rl_allowed = True, rl_limit = 0, rl_remaining = 0, rl_retryAfterSeconds = 0, rl_degraded = False\<rparr>, c)
      else if \<not> up
      then (\<lparr>rl_allowed = True, rl_limit = limit, rl_remaining = limit, rl_retryAfterSeconds = 0, rl_degraded = True\<rparr>, c)
      else
        let (n, c') = window_script (redis_key keyId (window_start windowSeconds now)) c;
            allowed = (int n \<le> limit)
        in (\<lparr>rl_allowed = allowed, rl_limit = limit, rl_remaining = max 0 (limit - int n),
             rl_retryAfterSeconds = (if allowed then 0 else if ttl > 0 then ttl else windowSeconds),
             rl_degraded = False\<rparr>, c'))"

subsection \<open>The customer's limit\<close>

definition WINDOW_SECONDS :: int where "WINDOW_SECONDS = 60"

definition keyFor :: "string \<Rightarrow> string \<Rightarrow> string" where
  "keyFor tenant customer = ''customer:'' @ tenant @ '':'' @ customer"

record rate_outcome =
  ro_customer :: "string option"
  ro_limit :: int
  ro_remaining :: int
  ro_degraded :: bool
  ro_enforced :: bool

text \<open>The send path consumes one slot (\<open>count = 1\<close>). \<open>Inl\<close> is the refusal, with its retry delay.\<close>

definition consumeCustomerRate ::
    "bool \<Rightarrow> int \<Rightarrow> int \<Rightarrow> string \<Rightarrow> string option \<Rightarrow> customer_row list \<Rightarrow> counters
       \<Rightarrow> (int \<times> int, rate_outcome) result \<times> counters" where
  "consumeCustomerRate up ttl now tenant customer customers c =
     (let unenforced = \<lparr>ro_customer = customer, ro_limit = 0, ro_remaining = 0, ro_degraded = False, ro_enforced = False\<rparr>
      in if \<not> truthy customer then (Inr unenforced, c)
         else
           let limit = (case row_by cu_id (the customer) customers of None \<Rightarrow> 0 | Some r \<Rightarrow> cu_rate_limit r)
           in if limit \<le> 0 then (Inr unenforced, c)
              else
                let (r, c') = consumeSlot up ttl (keyFor tenant (the customer)) limit WINDOW_SECONDS now c
                in if rl_degraded r
                   then (Inr \<lparr>ro_customer = customer, ro_limit = limit, ro_remaining = rl_remaining r,
                             ro_degraded = True, ro_enforced = False\<rparr>, c')
                   else if \<not> rl_allowed r then (Inl (limit, rl_retryAfterSeconds r), c')
                   else (Inr \<lparr>ro_customer = customer, ro_limit = limit, ro_remaining = rl_remaining r,
                             ro_degraded = False, ro_enforced = True\<rparr>, c'))"

subsection \<open>Lemmas\<close>

text \<open>A burst: consumptions of any keys at any times while Redis answers.\<close>

fun allowed_in :: "string \<Rightarrow> int \<Rightarrow> int \<Rightarrow> (string \<times> int) list \<Rightarrow> counters \<Rightarrow> nat" where
  "allowed_in key limit windowSeconds [] c = 0"
| "allowed_in key limit windowSeconds ((keyId, now) # calls) c =
     (let (r, c') = consumeSlot True 0 keyId limit windowSeconds now c
      in (if rl_allowed r \<and> redis_key keyId (window_start windowSeconds now) = key then 1 else 0)
         + allowed_in key limit windowSeconds calls c')"

lemma allowed_in_bound: "0 < limit \<Longrightarrow> int (allowed_in key limit w calls c) \<le> max 0 (limit - int (c key))"
proof (induction calls arbitrary: c)
  case (Cons call calls)
  obtain keyId now where call: "call = (keyId, now)" by (cases call)
  let ?k = "redis_key keyId (window_start w now)"
  have "int (allowed_in key limit w calls (c(?k := c ?k + 1))) \<le> max 0 (limit - int ((c(?k := c ?k + 1)) key))"
    by (rule Cons.IH [OF Cons.prems])
  then show ?case
    using Cons.prems by (auto simp: call consumeSlot_def window_script_def Let_def split: if_splits)
qed simp

text \<open>The limiter bounds each window: of any calls, for any keys and in any order, while Redis answers,
  at most the limit are allowed for one key in one window, less what the window had already counted; and
  when Redis does not answer every call is allowed and nothing is counted.\<close>

theorem rate_limit_per_window:
  assumes "0 < limit"
  shows "int (allowed_in key limit windowSeconds calls c) \<le> max 0 (limit - int (c key))
    \<and> rl_allowed (fst (consumeSlot False ttl keyId limit windowSeconds now c))
    \<and> snd (consumeSlot False ttl keyId limit windowSeconds now c) = c"
  using allowed_in_bound [OF assms] assms by (simp add: consumeSlot_def)

theorem rate_limit_per_window_witness:
  "allowed_in ''gw:rl:customer:t:c:60'' 2 60 (replicate 4 (keyFor ''t'' ''c'', 61000)) (\<lambda>_. 0) = 2
   \<and> int (allowed_in ''gw:rl:customer:t:c:60'' 2 60 (replicate 4 (keyFor ''t'' ''c'', 61000)) (\<lambda>_. 0)) \<le> 2"
proof -
  have "allowed_in ''gw:rl:customer:t:c:60'' 2 60 (replicate 4 (keyFor ''t'' ''c'', 61000)) (\<lambda>_. 0) = 2" by code_simp
  with rate_limit_per_window [of 2 "''gw:rl:customer:t:c:60''" 60 "replicate 4 (keyFor ''t'' ''c'', 61000)" "\<lambda>_. 0"]
  show ?thesis by simp
qed

end
