(* ===== verification/SendPath.thy ===== *)
theory SendPath
  imports RouteResolution ContentFilterService Scheduling Blocklist Dedupe RateLimits
begin

section \<open>The send path: messaging-depth/message-send.service.ts, send-entitlements.service.ts\<close>

text \<open>
  One submission, from the destination to the engine: rate limit, duplicate control, blocklist,
  content filter, route, what the route's rule does to the message, entitlements, decision record,
  submission, stamp and the caller's hook, in one transaction. A transaction that fails undoes the
  tenant's tables and nothing else: the counters in Redis, the rotation and the rule cache of the
  process and the engine's own database keep what they got. What fails at the edges (Redis, the
  engine's insert, the hook, the COMMIT, the two transactions of the error path) is an input of the
  call; a COMMIT that fails leaves nothing. One
  clock reading serves a call. Reasons are kept as the values their sentences carry.
\<close>

record mt_request =
  mq_sender :: string
  mq_receiver :: string
  mq_text :: string
  mq_smscId :: "string option"
  mq_dlrMask :: "int option"
  mq_dlrUrl :: "string option"
  mq_foreignId :: "string option"
  mq_customerId :: "string option"
  mq_channel :: string
  mq_reference :: "string option"
  mq_operator :: "string option"
  mq_reroute :: bool
  mq_cost :: "rat option"
  mq_priority :: jsval
  mq_schedule :: "message_schedule option"

datatype send_refusal =
    RfDestination string
  | RfRate int int
  | RfDuplicate duplicate_verdict
  | RfBlocklist "list_type option" "string option"
  | RfContent verdict_reason
  | RfUnknownSmsc
  | RfNoRoute string selection_reason "(nat \<times> nat) option"
  | RfDropped string
  | RfCustomerNotFound
  | RfCustomerInactive string bool
  | RfSenderUnregistered string
  | RfSenderStatus string sender_status "string option"
  | RfNotEntitled "string option"
  | RfAccount account_error
  | RfCredit rat rat
  | RfPriority
  | RfEngine
  | RfCallback
  | RfCommit

datatype decision_outcome = OutRouted | OutExplicit | OutRerouted | OutRejected | OutDropped

datatype reason_part =
    RpRouted "string option" selection_reason "(nat \<times> nat) option" bool
  | RpExplicit string
  | RpDropped string
  | RpOverridden string "override_part list"
  | RpRefused send_refusal

datatype decision_trace = TrRoute trace_step | TrPinned string | TrOverridden string "override_part list"

record decision_row =
  md_id :: nat
  md_customer :: "string option"
  md_ref :: "nat option"
  md_foreign :: "string option"
  md_channel :: string
  md_sender :: "string option"
  md_destination :: string
  md_raw :: string
  md_route :: "string option"
  md_routeName :: "string option"
  md_strategy :: "selection_strategy option"
  md_smsc :: "string option"
  md_requested :: "string option"
  md_fallback :: bool
  md_outcome :: decision_outcome
  md_reason :: "reason_part list"
  md_available :: "string list"
  md_considered :: nat
  md_trace :: "decision_trace list"
  md_ruleId :: "string option"
  md_ruleName :: "string option"
  md_overrides :: "override_set option"
  md_droppedBy :: "string option"

text \<open>A row of the engine's \<open>send_sms\<close>.\<close>

record spooled_sms =
  qm_id :: nat
  qm_sender :: string
  qm_receiver :: string
  qm_text :: string
  qm_smsc :: string
  qm_dlrMask :: int
  qm_dlrUrl :: "string option"
  qm_foreignId :: "string option"
  qm_deferred :: "int option"
  qm_validity :: "int option"
  qm_priority :: "int option"

record mt_tables =
  tt_accounts :: accounts
  tt_smscs :: "smsc_row list"
  tt_routes :: "route_row list"
  tt_blocklist :: "blocklist_row list"
  tt_dedupe :: "dedupe_row list"
  tt_window :: "int option option"
  tt_decisions :: "decision_row list"
  tt_audit :: "nat list"
  tt_next :: nat

record mt_service =
  ms_tables :: mt_tables
  ms_limiter :: counters
  ms_rotation :: int
  ms_filter :: filter_store
  ms_spool :: "spooled_sms list"
  ms_next_sql :: nat

record mt_env =
  me_country :: "string option"
  me_lc :: "string \<Rightarrow> string \<Rightarrow> int"
  me_content :: content_env
  me_ttl :: int
  me_default_cost :: "string option"
  me_sha :: "string \<Rightarrow> string"
  me_tenant :: string
  me_dedupe :: bool

record mt_call =
  mc_now :: int
  mc_local :: local_time
  mc_redis :: bool
  mc_redis_ttl :: int
  mc_engine :: bool
  mc_callback :: bool
  mc_commit :: bool
  mc_released :: bool
  mc_recorded :: bool

text \<open>The variables of one call that outlive its transaction.\<close>

record mt_attempt =
  ma_service :: mt_service
  ma_record :: decision_row
  ma_verdict :: "filter_verdict option"
  ma_claimed :: "(dedupe_subject \<times> int) option"

record mt_result =
  mo_sqlId :: nat
  mo_smsc :: string
  mo_destination :: string
  mo_route :: "string option"
  mo_routeName :: "string option"
  mo_strategy :: "selection_strategy option"
  mo_fallback :: bool
  mo_outcome :: decision_outcome
  mo_reason :: "reason_part list"
  mo_decisionId :: nat
  mo_customer :: "string option"
  mo_charged :: rat
  mo_scheduledAt :: "int option"
  mo_deferred :: "int option"
  mo_validity :: "int option"

subsection \<open>Statements of a call\<close>

type_synonym 'a mt_action = "mt_attempt \<Rightarrow> (send_refusal, 'a) result \<times> mt_attempt"

definition andthen :: "'a mt_action \<Rightarrow> ('a \<Rightarrow> 'b mt_action) \<Rightarrow> 'b mt_action" where
  "andthen m k s = (case m s of (Inl e, s') \<Rightarrow> (Inl e, s') | (Inr a, s') \<Rightarrow> k a s')"

definition require :: "bool \<Rightarrow> send_refusal \<Rightarrow> unit mt_action" where
  "require b e s = (if b then Inr () else Inl e, s)"

definition on_tables :: "(mt_tables \<Rightarrow> mt_tables) \<Rightarrow> mt_attempt \<Rightarrow> mt_attempt" where
  "on_tables f s = s\<lparr>ma_service := (ma_service s)\<lparr>ms_tables := f (ms_tables (ma_service s))\<rparr>\<rparr>"

abbreviation tables_of :: "mt_attempt \<Rightarrow> mt_tables" where
  "tables_of s \<equiv> ms_tables (ma_service s)"

subsection \<open>Entitlements: send-entitlements.service.ts\<close>

record entitlement_check =
  en_customer :: "string option"
  en_sender :: string
  en_smsc :: string
  en_route :: "string option"
  en_count :: rat
  en_cost :: "rat option"
  en_reference :: "string option"

record entitlement_outcome =
  eo_customer :: "string option"
  eo_quotas :: "quota_usage list"
  eo_charged :: rat
  eo_balance_after :: "rat option"
  eo_sender_checked :: bool
  eo_route_checked :: bool

definition defaultMessageCost :: "string option \<Rightarrow> rat" where
  "defaultMessageCost env =
     (case (case env of None \<Rightarrow> Fin 0 | Some s \<Rightarrow> string_to_number s) of
        Fin q \<Rightarrow> if q > 0 then q else 0
      | _ \<Rightarrow> 0)"

definition assertSendableCustomer :: "string \<Rightarrow> accounts \<Rightarrow> (send_refusal, unit) result" where
  "assertSendableCustomer c st =
     (case row_by cu_id c (ac_customers st) of
        None \<Rightarrow> Inl RfCustomerNotFound
      | Some r \<Rightarrow>
          if \<not> cu_enabled r \<or> cu_status r \<noteq> ''active'' then Inl (RfCustomerInactive (cu_status r) (cu_enabled r))
          else Inr ())"

definition assertSenderApproved :: "string \<Rightarrow> string \<Rightarrow> accounts \<Rightarrow> (send_refusal, bool) result" where
  "assertSenderApproved c sender st =
     (let rows = filter (\<lambda>r. sn_customer r = c) (ac_senders st)
      in if rows = [] then Inr False
         else case find (\<lambda>r. sn_sender r = sender) rows of
                None \<Rightarrow> Inl (RfSenderUnregistered sender)
              | Some m \<Rightarrow>
                  if sn_status m \<noteq> SenderApproved then Inl (RfSenderStatus sender (sn_status m) (sn_reason m))
                  else Inr True)"

definition assertRoutePermitted ::
    "string \<Rightarrow> string \<Rightarrow> string option \<Rightarrow> smsc_row list \<Rightarrow> accounts \<Rightarrow> (send_refusal, bool) result" where
  "assertRoutePermitted c smscId routeId smscs st =
     (let bindings = filter (\<lambda>b. bd_customer b = c \<and> bd_enabled b) (ac_bindings st)
      in if bindings = [] then Inr False
         else if truthy routeId \<and> list_ex (\<lambda>b. bd_route b = routeId) bindings then Inr True
         else if smscId \<noteq> []
              \<and> (case find (\<lambda>d. sw_engine d = smscId) smscs of
                   None \<Rightarrow> False | Some d \<Rightarrow> list_ex (\<lambda>b. bd_smsc b = Some (sw_id d)) bindings)
         then Inr True
         else Inl (RfNotEntitled (Some smscId)))"

text \<open>\<open>Number(x.toFixed(4))\<close> of a non-negative amount.\<close>

definition toFixed4 :: "rat \<Rightarrow> rat" where
  "toFixed4 x = of_int \<lfloor>x * 10000 + 1 / 2\<rfloor> / 10000"

definition trunc_rat :: "rat \<Rightarrow> int" where
  "trunc_rat q = (if 0 \<le> q then \<lfloor>q\<rfloor> else \<lceil>q\<rceil>)"

definition lift_account :: "(account_error, 'a) result \<Rightarrow> (send_refusal, 'a) result" where
  "lift_account r = map_sum RfAccount id r"

definition charge_of :: "mt_env \<Rightarrow> entitlement_check \<Rightarrow> rat" where
  "charge_of env check =
     (let unitCost = coalesce (en_cost check) (defaultMessageCost (me_default_cost env))
      in if unitCost > 0 then toFixed4 (unitCost * of_int (max 1 (trunc_rat (en_count check)))) else 0)"

definition debit_charge ::
    "string \<Rightarrow> rat \<Rightarrow> string option \<Rightarrow> accounts \<Rightarrow> (send_refusal, rat option \<times> accounts) result" where
  "debit_charge c charge reference st =
     (if charge \<le> 0 then Inr (None, st)
      else
        let (balance, st1) = currentBalance c st
        in if balance < charge then Inl (RfCredit charge balance)
           else bind_result (lift_account (postEntry c Debit charge (Some ''message submission'') reference st1))
                  (\<lambda>(row, st2). Inr (Some (lg_balance_after row), st2)))"

definition consumeEntitlements ::
    "mt_env \<Rightarrow> int \<Rightarrow> smsc_row list \<Rightarrow> entitlement_check \<Rightarrow> accounts
       \<Rightarrow> (send_refusal, entitlement_outcome \<times> accounts) result" where
  "consumeEntitlements env now smscs check st =
     (if \<not> truthy (en_customer check)
      then Inr (\<lparr>eo_customer = None, eo_quotas = [], eo_charged = 0, eo_balance_after = None,
                 eo_sender_checked = False, eo_route_checked = False\<rparr>, st)
      else
        let c = the (en_customer check); n = max 1 (trunc_rat (en_count check))
        in bind_result (assertSendableCustomer c st) (\<lambda>_.
           bind_result (if en_sender check \<noteq> [] then assertSenderApproved c (en_sender check) st else Inr False) (\<lambda>senderChecked.
           bind_result (assertRoutePermitted c (en_smsc check) (en_route check) smscs st) (\<lambda>routeChecked.
           bind_result (lift_account (consumeQuotas c n now st)) (\<lambda>(quotas, st1).
           bind_result (debit_charge c (charge_of env check) (en_reference check) st1) (\<lambda>(balanceAfter, st2).
           Inr (\<lparr>eo_customer = Some c, eo_quotas = quotas, eo_charged = charge_of env check,
                 eo_balance_after = balanceAfter, eo_sender_checked = senderChecked,
                 eo_route_checked = routeChecked\<rparr>, st2)))))))"

subsection \<open>The steps of \<open>send\<close>\<close>

text \<open>\<open>parseMessagePriority\<close>: only numbers and strings are priorities; \<open>Inr None\<close> is no preference.\<close>

definition priority_of_number :: "jsnum \<Rightarrow> (send_refusal, int option) result" where
  "priority_of_number n =
     (case integer_value n of
        None \<Rightarrow> Inl RfPriority
      | Some p \<Rightarrow> if p < 0 \<or> p > 3 then Inl RfPriority else Inr (Some p))"

definition parseMessagePriority :: "jsval \<Rightarrow> (send_refusal, int option) result" where
  "parseMessagePriority v =
     (case v of
        JUndefined \<Rightarrow> Inr None
      | JNull \<Rightarrow> Inr None
      | JNum n \<Rightarrow> priority_of_number n
      | JStr s \<Rightarrow> if trim s = [] then Inr None else priority_of_number (string_to_number (trim s))
      | _ \<Rightarrow> Inl RfPriority)"

text \<open>\<open>request.smscId?.trim() || null\<close>.\<close>

definition requested_smsc :: "mt_request \<Rightarrow> string option" where
  "requested_smsc req =
     (case mq_smscId req of None \<Rightarrow> None | Some e \<Rightarrow> if trim e \<noteq> [] then Some (trim e) else None)"

definition base_record :: "mt_request \<Rightarrow> string \<Rightarrow> decision_row" where
  "base_record req destination =
     \<lparr>md_id = 0, md_customer = mq_customerId req, md_ref = None, md_foreign = mq_foreignId req,
      md_channel = mq_channel req, md_sender = (if mq_sender req \<noteq> [] then Some (mq_sender req) else None),
      md_destination = destination, md_raw = mq_receiver req, md_route = None, md_routeName = None,
      md_strategy = None, md_smsc = None, md_requested = requested_smsc req, md_fallback = False,
      md_outcome = OutRejected, md_reason = [], md_available = [], md_considered = 0, md_trace = [],
      md_ruleId = None, md_ruleName = None, md_overrides = None, md_droppedBy = None\<rparr>"

definition rate_step :: "mt_env \<Rightarrow> mt_call \<Rightarrow> mt_request \<Rightarrow> unit mt_action" where
  "rate_step env call req s =
     (case consumeCustomerRate (mc_redis call) (mc_redis_ttl call) (mc_now call) (me_tenant env) (mq_customerId req)
             (ac_customers (tt_accounts (tables_of s))) (ms_limiter (ma_service s)) of
        (r, counters) \<Rightarrow>
          (map_sum (\<lambda>(limit, retry). RfRate limit retry) (\<lambda>_. ()) r,
           s\<lparr>ma_service := (ma_service s)\<lparr>ms_limiter := counters\<rparr>\<rparr>))"

definition mt_subject :: "mt_env \<Rightarrow> mt_request \<Rightarrow> string \<Rightarrow> dedupe_subject" where
  "mt_subject env req destination =
     \<lparr>dd_tenant = me_tenant env, dd_sender = Some (mq_sender req), dd_recipient = destination,
      dd_text = mq_text req, dd_foreignId = mq_foreignId req\<rparr>"

definition mt_window :: "mt_env \<Rightarrow> mt_tables \<Rightarrow> int" where
  "mt_window env t = (if me_dedupe env then windowFor (tt_window t) else 0)"

definition dedupe_step :: "mt_env \<Rightarrow> mt_call \<Rightarrow> mt_request \<Rightarrow> string \<Rightarrow> unit mt_action" where
  "dedupe_step env call req destination s =
     (let window = mt_window env (tables_of s); subject = mt_subject env req destination
      in if window > 0
         then case claimKey (me_sha env) subject window (mc_now call) (tt_dedupe (tables_of s)) of
                (refusal, rows) \<Rightarrow>
                  let s' = on_tables (\<lambda>t. t\<lparr>tt_dedupe := rows\<rparr>) s
                  in (case refusal of
                        None \<Rightarrow> (Inr (), s'\<lparr>ma_claimed := Some (subject, window)\<rparr>)
                      | Some v \<Rightarrow> (Inl (RfDuplicate v), s'))
         else (Inr (), s))"

definition blocklist_step :: "mt_call \<Rightarrow> mt_request \<Rightarrow> string \<Rightarrow> unit mt_action" where
  "blocklist_step call req destination s =
     (let v = evaluateBlocklist (mc_now call) destination (mq_customerId req) (tt_blocklist (tables_of s))
      in require (bv_allowed v) (RfBlocklist (bv_listType v) (bv_reason v)) s)"

definition load_rules :: "mt_env \<Rightarrow> mt_call \<Rightarrow> rule_set mt_action" where
  "load_rules env call s =
     (case loadInClient (me_content env) (me_ttl env) (mc_now call) (me_tenant env) (ms_filter (ma_service s)) of
        (rules, store) \<Rightarrow> (Inr rules, s\<lparr>ma_service := (ma_service s)\<lparr>ms_filter := store\<rparr>\<rparr>))"

definition filter_context_of :: "mt_request \<Rightarrow> string \<Rightarrow> string option \<Rightarrow> filter_context" where
  "filter_context_of req destination smsc =
     \<lparr>fc_sender = mq_sender req, fc_recipient = destination, fc_body = mq_text req, fc_smscId = smsc,
      fc_customerId = mq_customerId req\<rparr>"

definition contentDecision :: "filter_verdict \<Rightarrow> decision_row \<Rightarrow> decision_row" where
  "contentDecision v r =
     (case fv_decidedBy v of
        None \<Rightarrow> r
      | Some m \<Rightarrow> r\<lparr>md_ruleId := Some (rm_ruleId m), md_ruleName := Some (rm_ruleName m)\<rparr>)"

definition content_step :: "mt_env \<Rightarrow> rule_set \<Rightarrow> filter_context \<Rightarrow> unit mt_action" where
  "content_step env rules ctx s =
     (let v = evaluateContent (me_content env) (rs_rules rules) ctx
      in require (fv_allowed v) (RfContent (fv_reason v))
           (s\<lparr>ma_verdict := Some v, ma_record := contentDecision v (ma_record s)\<rparr>))"

text \<open>A statement under a condition.\<close>

definition whenever :: "bool \<Rightarrow> unit mt_action \<Rightarrow> unit mt_action" where
  "whenever b m s = (if b then m s else (Inr (), s))"

subsubsection \<open>The bind\<close>

record chosen_bind =
  ch_smsc :: string
  ch_cost :: "rat option"
  ch_effect :: "route_effect option"

definition tables_for_routing :: "mt_tables \<Rightarrow> routing_tables" where
  "tables_for_routing t =
     \<lparr>tb_smscs = tt_smscs t, tb_routes = tt_routes t, tb_bindings = ac_bindings (tt_accounts t)\<rparr>"

definition next_rotation :: "int \<Rightarrow> int" where
  "next_rotation r = (r + 1) mod 1000000"

definition resolveRoute :: "mt_env \<Rightarrow> mt_call \<Rightarrow> mt_request \<Rightarrow> string \<Rightarrow> send_route_decision mt_action" where
  "resolveRoute env call req destination s =
     (let rotation = next_rotation (ms_rotation (ma_service s))
      in (Inr (resolveInClient (me_lc env) (tables_for_routing (tables_of s))
                 \<lparr>srx_msisdn = destination, srx_sender = Some (mq_sender req), srx_operator = mq_operator req,
                  srx_customer = mq_customerId req, srx_rotation = Some rotation, srx_now = mc_local call\<rparr>),
          s\<lparr>ma_service := (ma_service s)\<lparr>ms_rotation := rotation\<rparr>\<rparr>))"

definition fromDecision ::
    "send_route_decision \<Rightarrow> decision_outcome \<Rightarrow> string option \<Rightarrow> string option \<Rightarrow> decision_row \<Rightarrow> decision_row" where
  "fromDecision d outcome requested pre r =
     r\<lparr>md_smsc := sr_smsc d, md_requested := requested, md_route := sr_route d, md_routeName := sr_name d,
       md_strategy := sr_strategy d, md_fallback := sr_fallbackUsed d, md_outcome := outcome,
       md_reason := [RpRouted pre (sr_reason d) (rd_note d) (rd_assumed d)], md_available := rd_available d,
       md_considered := rd_considered d, md_trace := map TrRoute (sr_trace d)\<rparr>"

definition record_bind :: "(decision_row \<Rightarrow> decision_row) \<Rightarrow> chosen_bind \<Rightarrow> chosen_bind mt_action" where
  "record_bind f ch s = (Inr ch, s\<lparr>ma_record := f (ma_record s)\<rparr>)"

definition pinned_bind :: "mt_request \<Rightarrow> string \<Rightarrow> chosen_bind mt_action" where
  "pinned_bind req e =
     record_bind
       (\<lambda>r. r\<lparr>md_smsc := Some e, md_requested := Some e, md_outcome := OutExplicit,
              md_reason := [RpExplicit (mq_channel req)], md_trace := [TrPinned e]\<rparr>)
       \<lparr>ch_smsc = e, ch_cost = None, ch_effect = None\<rparr>"

definition routed_bind ::
    "decision_outcome \<Rightarrow> string option \<Rightarrow> string option \<Rightarrow> send_route_decision \<Rightarrow> string \<Rightarrow> chosen_bind mt_action" where
  "routed_bind outcome requested pre d e =
     record_bind (fromDecision d outcome requested pre) \<lparr>ch_smsc = e, ch_cost = rd_cost d, ch_effect = sr_effect d\<rparr>"

definition mt_chooseBind :: "mt_env \<Rightarrow> mt_call \<Rightarrow> mt_request \<Rightarrow> string \<Rightarrow> chosen_bind mt_action" where
  "mt_chooseBind env call req destination s =
     (case requested_smsc req of
        Some e \<Rightarrow>
          if e \<notin> sw_engine ` set (tt_smscs (tables_of s)) then (Inl RfUnknownSmsc, s)
          else if mq_reroute req \<and> e \<notin> set (bh_available (availability (tt_smscs (tables_of s))))
          then andthen (resolveRoute env call req destination)
                 (\<lambda>d. if truthy (sr_smsc d) then routed_bind OutRerouted (Some e) (Some e) d (the (sr_smsc d))
                      else pinned_bind req e) s
          else pinned_bind req e s
      | None \<Rightarrow>
          andthen (resolveRoute env call req destination)
            (\<lambda>d. if truthy (sr_smsc d) then routed_bind OutRouted None None d (the (sr_smsc d))
                 else (\<lambda>s. (Inl (RfNoRoute destination (sr_reason d) (rd_note d)), s))) s)"

subsubsection \<open>What the rule does to the message\<close>

definition rule_label :: "decision_row \<Rightarrow> string" where
  "rule_label r = coalesce (md_routeName r) ''a routing rule''"

definition original_message :: "mt_request \<Rightarrow> string \<Rightarrow> outbound_message" where
  "original_message req destination =
     \<lparr>om_sender = Some (mq_sender req), om_recipient = destination, om_text = mq_text req\<rparr>"

definition no_effect :: route_effect where
  "no_effect = \<lparr>ef_action = ActRoute, ef_sender = None, ef_recipient = None, ef_text = None, ef_reason = None\<rparr>"

definition record_overrides :: "override_set \<Rightarrow> (string \<times> override_part list) option \<Rightarrow> decision_row \<Rightarrow> decision_row" where
  "record_overrides ov summary r =
     (case summary of
        None \<Rightarrow> r
      | Some (name, parts) \<Rightarrow>
          r\<lparr>md_overrides := Some ov, md_reason := md_reason r @ [RpOverridden name parts],
            md_trace := md_trace r @ [TrOverridden name parts]\<rparr>)"

definition effect_step :: "mt_request \<Rightarrow> string \<Rightarrow> chosen_bind \<Rightarrow> outbound_message mt_action" where
  "effect_step req destination ch s =
     (case applyRouteRule (original_message req destination) (coalesce (ch_effect ch) no_effect) (rule_label (ma_record s)) of
        Dropped reason summary \<Rightarrow>
          (Inl (RfDropped summary),
           s\<lparr>ma_record := (ma_record s)\<lparr>md_outcome := OutDropped, md_reason := [RpDropped summary],
                                        md_droppedBy := md_routeName (ma_record s)\<rparr>\<rparr>)
      | Send message ov summary \<Rightarrow>
          (Inr message, s\<lparr>ma_record := record_overrides ov summary (ma_record s)\<rparr>))"

subsubsection \<open>Entitlements, record and submission\<close>

definition check_of :: "mt_request \<Rightarrow> chosen_bind \<Rightarrow> outbound_message \<Rightarrow> decision_row \<Rightarrow> entitlement_check" where
  "check_of req ch message r =
     \<lparr>en_customer = mq_customerId req, en_sender = coalesce (om_sender message) [], en_smsc = ch_smsc ch,
      en_route = md_route r, en_count = 1,
      en_cost = (if mq_cost req = None then ch_cost ch else mq_cost req),
      en_reference = (if mq_reference req = None then mq_foreignId req else mq_reference req)\<rparr>"

definition entitle_step ::
    "mt_env \<Rightarrow> mt_call \<Rightarrow> mt_request \<Rightarrow> chosen_bind \<Rightarrow> outbound_message \<Rightarrow> entitlement_outcome mt_action" where
  "entitle_step env call req ch message s =
     (case consumeEntitlements env (mc_now call) (tt_smscs (tables_of s)) (check_of req ch message (ma_record s))
             (tt_accounts (tables_of s)) of
        Inl e \<Rightarrow> (Inl e, s)
      | Inr (outcome, acc) \<Rightarrow> (Inr outcome, on_tables (\<lambda>t. t\<lparr>tt_accounts := acc\<rparr>) s))"

definition insertDecision :: "decision_row \<Rightarrow> mt_tables \<Rightarrow> nat \<times> mt_tables" where
  "insertDecision r t =
     (tt_next t, t\<lparr>tt_decisions := tt_decisions t @ [r\<lparr>md_id := tt_next t\<rparr>], tt_next := tt_next t + 1\<rparr>)"

definition decide_step :: "nat mt_action" where
  "decide_step s =
     (Inr (fst (insertDecision ((ma_record s)\<lparr>md_ref := None\<rparr>) (tables_of s))),
      on_tables (\<lambda>t. snd (insertDecision ((ma_record s)\<lparr>md_ref := None\<rparr>) t)) s)"

text \<open>\<open>KamexSqlboxRepository.submit\<close>: the priority is validated again, then one row is inserted.\<close>

definition spooled_row ::
    "mt_call \<Rightarrow> mt_request \<Rightarrow> normalized_msisdn \<Rightarrow> string \<Rightarrow> chosen_bind \<Rightarrow> outbound_message \<Rightarrow> int option \<Rightarrow> nat \<Rightarrow> spooled_sms" where
  "spooled_row call req nm destination ch message priority sqlId =
     (let columns = engineScheduleColumns (mq_schedule req) (mc_now call)
      in \<lparr>qm_id = sqlId, qm_sender = coalesce (om_sender message) [],
          qm_receiver =
            (if om_recipient message = destination then coalesce (nm_e164 nm) (om_recipient message) else om_recipient message),
          qm_text = om_text message, qm_smsc = ch_smsc ch, qm_dlrMask = coalesce (mq_dlrMask req) 31,
          qm_dlrUrl = mq_dlrUrl req, qm_foreignId = mq_foreignId req, qm_deferred = ec_deferred columns,
          qm_validity = ec_validity columns, qm_priority = priority\<rparr>)"

definition submit_step ::
    "mt_call \<Rightarrow> mt_request \<Rightarrow> normalized_msisdn \<Rightarrow> string \<Rightarrow> chosen_bind \<Rightarrow> outbound_message \<Rightarrow> nat mt_action" where
  "submit_step call req nm destination ch message s =
     (case parseMessagePriority (mq_priority req) of
        Inl e \<Rightarrow> (Inl e, s)
      | Inr priority \<Rightarrow>
          if \<not> mc_engine call then (Inl RfEngine, s)
          else
            let svc = ma_service s; i = ms_next_sql svc
            in (Inr i, s\<lparr>ma_service := svc\<lparr>ms_spool := ms_spool svc @ [spooled_row call req nm destination ch message priority i],
                                            ms_next_sql := i + 1\<rparr>\<rparr>))"

definition link_step :: "nat \<Rightarrow> nat \<Rightarrow> unit mt_action" where
  "link_step decisionId sqlId s =
     (Inr (), on_tables (\<lambda>t. t\<lparr>tt_decisions := update_where (\<lambda>r. md_id r = decisionId) (\<lambda>r. r\<lparr>md_ref := Some sqlId\<rparr>) (tt_decisions t),
                               tt_audit := tt_audit t @ [sqlId]\<rparr>) s)"

definition stamp_step :: "mt_env \<Rightarrow> nat \<Rightarrow> unit mt_action" where
  "stamp_step env sqlId s =
     (case ma_claimed s of
        None \<Rightarrow> (Inr (), s)
      | Some (subject, window) \<Rightarrow>
          (Inr (), on_tables (\<lambda>t. t\<lparr>tt_dedupe := stampKey (me_sha env) subject window sqlId (tt_dedupe t)\<rparr>) s))"

definition result_step ::
    "mt_call \<Rightarrow> mt_request \<Rightarrow> chosen_bind \<Rightarrow> outbound_message \<Rightarrow> entitlement_outcome \<Rightarrow> nat \<Rightarrow> nat \<Rightarrow> mt_result mt_action" where
  "result_step call req ch message outcome decisionId sqlId s =
     (let r = ma_record s; columns = engineScheduleColumns (mq_schedule req) (mc_now call)
      in (Inr \<lparr>mo_sqlId = sqlId, mo_smsc = ch_smsc ch, mo_destination = om_recipient message, mo_route = md_route r,
               mo_routeName = md_routeName r, mo_strategy = md_strategy r, mo_fallback = md_fallback r,
               mo_outcome = md_outcome r, mo_reason = md_reason r, mo_decisionId = decisionId,
               mo_customer = eo_customer outcome, mo_charged = eo_charged outcome,
               mo_scheduledAt = Option.bind (mq_schedule req) scheduledAtMs, mo_deferred = ec_deferred columns,
               mo_validity = ec_validity columns\<rparr>, s))"

subsection \<open>\<open>send\<close>\<close>

text \<open>What the transaction does once the rules of the filter are there, and once the message is final.\<close>

definition submit_part ::
    "mt_env \<Rightarrow> mt_call \<Rightarrow> mt_request \<Rightarrow> normalized_msisdn \<Rightarrow> string \<Rightarrow> chosen_bind \<Rightarrow> outbound_message \<Rightarrow> mt_result mt_action" where
  "submit_part env call req nm destination ch message =
     andthen (entitle_step env call req ch message) (\<lambda>outcome.
     andthen decide_step (\<lambda>decisionId.
     andthen (submit_step call req nm destination ch message) (\<lambda>sqlId.
     andthen (link_step decisionId sqlId) (\<lambda>_.
     andthen (stamp_step env sqlId) (\<lambda>_.
     andthen (require (mc_callback call) RfCallback) (\<lambda>_.
     result_step call req ch message outcome decisionId sqlId))))))"

definition transaction ::
    "mt_env \<Rightarrow> mt_call \<Rightarrow> mt_request \<Rightarrow> normalized_msisdn \<Rightarrow> string \<Rightarrow> mt_result mt_action" where
  "transaction env call req nm destination =
     andthen (rate_step env call req) (\<lambda>_.
     andthen (dedupe_step env call req destination) (\<lambda>_.
     andthen (blocklist_step call req destination) (\<lambda>_.
     andthen (load_rules env call) (\<lambda>rules.
     andthen (whenever (\<not> rs_hasSmscScopedRules rules) (content_step env rules (filter_context_of req destination None))) (\<lambda>_.
     andthen (mt_chooseBind env call req destination) (\<lambda>ch.
     andthen (effect_step req destination ch) (\<lambda>message.
     andthen (whenever (rs_hasSmscScopedRules rules)
                (content_step env rules (filter_context_of req destination (Some (ch_smsc ch))))) (\<lambda>_.
     submit_part env call req nm destination ch message))))))))"

text \<open>COMMIT: a transaction that failed, or cannot commit, gives the tables back.\<close>

definition commit :: "mt_call \<Rightarrow> mt_tables \<Rightarrow> (send_refusal, 'a) result \<times> mt_attempt \<Rightarrow> (send_refusal, 'a) result \<times> mt_attempt" where
  "commit call before outcome =
     (case outcome of
        (Inr a, s) \<Rightarrow> if mc_commit call then (Inr a, s) else (Inl RfCommit, on_tables (\<lambda>_. before) s)
      | (Inl e, s) \<Rightarrow> (Inl e, on_tables (\<lambda>_. before) s))"

definition is_conflict :: "send_refusal \<Rightarrow> bool" where
  "is_conflict e = (case e of RfDuplicate _ \<Rightarrow> True | _ \<Rightarrow> False)"

definition release_claim :: "bool \<Rightarrow> mt_env \<Rightarrow> send_refusal \<Rightarrow> (dedupe_subject \<times> int) option \<Rightarrow> mt_tables \<Rightarrow> mt_tables" where
  "release_claim up env e claimed t =
     (case claimed of
        None \<Rightarrow> t
      | Some (subject, window) \<Rightarrow>
          if is_conflict e \<or> \<not> up then t else t\<lparr>tt_dedupe := releaseKey (me_sha env) subject window (tt_dedupe t)\<rparr>)"

definition rejection :: "send_refusal \<Rightarrow> decision_row \<Rightarrow> decision_row" where
  "rejection e r =
     r\<lparr>md_outcome := (if md_outcome r = OutDropped then OutDropped else OutRejected), md_ref := None,
       md_reason := md_reason r @ [RpRefused e]\<rparr>"

definition recordRejection :: "bool \<Rightarrow> decision_row \<Rightarrow> mt_tables \<Rightarrow> mt_tables" where
  "recordRejection up r t = (if up then snd (insertDecision r t) else t)"

text \<open>The filter's bookkeeping, in its own transaction.\<close>

definition settle_verdict :: "mt_env \<Rightarrow> filter_verdict option \<Rightarrow> mt_service \<Rightarrow> mt_service" where
  "settle_verdict env v svc =
     (case v of None \<Rightarrow> svc | Some v \<Rightarrow> svc\<lparr>ms_filter := settle (me_tenant env) v (ms_filter svc)\<rparr>)"

definition start_attempt :: "mt_request \<Rightarrow> string \<Rightarrow> mt_service \<Rightarrow> mt_attempt" where
  "start_attempt req destination svc =
     \<lparr>ma_service = svc, ma_record = base_record req destination, ma_verdict = None, ma_claimed = None\<rparr>"

definition committed_send :: "mt_env \<Rightarrow> mt_call \<Rightarrow> mt_request \<Rightarrow> normalized_msisdn \<Rightarrow> string \<Rightarrow> mt_service
    \<Rightarrow> (send_refusal, mt_result) result \<times> mt_attempt" where
  "committed_send env call req nm destination svc =
     commit call (ms_tables svc) (transaction env call req nm destination (start_attempt req destination svc))"

definition send :: "mt_env \<Rightarrow> mt_call \<Rightarrow> mt_request \<Rightarrow> mt_service \<Rightarrow> (send_refusal, mt_result) result \<times> mt_service" where
  "send env call req svc =
     (let nm = normalizeMsisdn (me_country env) (Some (mq_receiver req)) None
      in if \<not> truthy (nm_digits nm) then (Inl (RfDestination (describeMsisdnProblem nm)), svc)
         else case committed_send env call req nm (the (nm_digits nm)) svc of
                (Inr a, s) \<Rightarrow> (Inr a, settle_verdict env (ma_verdict s) (ma_service s))
              | (Inl e, s) \<Rightarrow>
                  (Inl e, settle_verdict env (ma_verdict s)
                     (ma_service (on_tables (\<lambda>t. recordRejection (mc_recorded call) (rejection e (ma_record s))
                                    (release_claim (mc_released call) env e (ma_claimed s) t)) s))))"

end
