(* ===== verification/SendChecks.thy ===== *)
theory SendChecks
  imports SendPath
begin

section \<open>What a send checks and what it leaves behind\<close>

text \<open>
  How the statements of a send compose, what a refusal and a success leave in every table, and the
  two directions of the contract: a refusal costs nothing, an accepted message passed every check
  and is recorded in every place.
\<close>

subsection \<open>How statements compose\<close>

lemma andthen_Inr:
  "andthen m k s = (Inr b, t) \<longleftrightarrow> (\<exists>a u. m s = (Inr a, u) \<and> k a u = (Inr b, t))"
  by (auto simp: andthen_def split: prod.splits sum.splits)

lemma andthen_InrE:
  assumes "andthen m k s = (Inr b, t)"
  obtains a u where "m s = (Inr a, u)" "k a u = (Inr b, t)"
  using assms by (auto simp: andthen_Inr)

lemma andthen_Inl:
  "andthen m k s = (Inl e, t) \<longleftrightarrow> m s = (Inl e, t) \<or> (\<exists>a u. m s = (Inr a, u) \<and> k a u = (Inl e, t))"
  by (auto simp: andthen_def split: prod.splits sum.splits)

lemma require_Inr: "require b e s = (Inr u, t) \<longleftrightarrow> b \<and> t = s"
  by (auto simp: require_def)

lemma whenever_Inr: "whenever b m s = (Inr u, t) \<longleftrightarrow> (if b then m s = (Inr u, t) else t = s)"
  by (auto simp: whenever_def)

lemma on_tables_simps [simp]:
  "ms_tables (ma_service (on_tables f s)) = f (tables_of s)" "ms_limiter (ma_service (on_tables f s)) = ms_limiter (ma_service s)"
  "ms_rotation (ma_service (on_tables f s)) = ms_rotation (ma_service s)" "ms_filter (ma_service (on_tables f s)) = ms_filter (ma_service s)"
  "ms_spool (ma_service (on_tables f s)) = ms_spool (ma_service s)" "ms_next_sql (ma_service (on_tables f s)) = ms_next_sql (ma_service s)"
  "ma_record (on_tables f s) = ma_record s" "ma_verdict (on_tables f s) = ma_verdict s" "ma_claimed (on_tables f s) = ma_claimed s"
  by (simp_all add: on_tables_def)

text \<open>
  A relation between the attempt before and after that every statement of a block keeps, whether
  it fails or not.
\<close>

definition framed :: "(mt_attempt \<Rightarrow> mt_attempt \<Rightarrow> bool) \<Rightarrow> 'a mt_action \<Rightarrow> bool" where
  "framed R m \<longleftrightarrow> (\<forall>s. R s (snd (m s)))"

locale step_frame =
  fixes R :: "mt_attempt \<Rightarrow> mt_attempt \<Rightarrow> bool"
  assumes frame_refl: "R s s" and frame_trans: "R s t \<Longrightarrow> R t u \<Longrightarrow> R s u"
begin

lemma framedD: "framed R m \<Longrightarrow> m s = (x, t) \<Longrightarrow> R s t"
  by (metis framed_def snd_conv)

lemma framed_andthen:
  assumes "framed R m" and "\<And>a. framed R (k a)"
  shows "framed R (andthen m k)"
  unfolding framed_def
proof
  fix s
  obtain x t where m: "m s = (x, t)" by (cases "m s")
  from framedD [OF assms(1) m] frame_trans assms(2) m show "R s (snd (andthen m k s))"
    by (auto simp: andthen_def framed_def split: sum.splits)
qed

lemma framed_pure: "framed R (\<lambda>s. (x, s))"
  by (simp add: framed_def frame_refl)

lemma framed_require: "framed R (require b e)"
  unfolding require_def by (rule framed_pure)

lemma framed_whenever: "framed R m \<Longrightarrow> framed R (whenever b m)"
  by (simp add: framed_def whenever_def frame_refl)

end

subsection \<open>What the steps before the submission leave alone\<close>

text \<open>The engine's database, and everything the routing and filter tables hold.\<close>

definition same_spool :: "mt_attempt \<Rightarrow> mt_attempt \<Rightarrow> bool" where
  "same_spool s t \<longleftrightarrow>
     ms_spool (ma_service t) = ms_spool (ma_service s) \<and> ms_next_sql (ma_service t) = ms_next_sql (ma_service s)"

interpretation spool_frame: step_frame same_spool
  by unfold_locales (auto simp: same_spool_def)

lemma mt_chooseBind_frame:
  assumes "step_frame R" and "framed R (resolveRoute env call req destination)" and "\<And>f ch. framed R (record_bind f ch)"
  shows "framed R (mt_chooseBind env call req destination)"
proof -
  note fr = step_frame.framed_andthen [OF assms(1)] step_frame.framed_pure [OF assms(1)]
  have a: "framed R (andthen (resolveRoute env call req destination)
      (\<lambda>d. if truthy (sr_smsc d) then routed_bind OutRerouted (Some e) (Some e) d (the (sr_smsc d)) else pinned_bind req e))" for e
    by (intro fr assms(2)) (simp add: routed_bind_def pinned_bind_def assms(3))
  have b: "framed R (andthen (resolveRoute env call req destination)
      (\<lambda>d. if truthy (sr_smsc d) then routed_bind OutRouted None None d (the (sr_smsc d))
           else (\<lambda>s. (Inl (RfNoRoute destination (sr_reason d) (rd_note d)), s))))"
    by (intro fr assms(2)) (simp add: routed_bind_def assms(3) fr(2))
  from a b assms(3) fr(2) show ?thesis
    unfolding framed_def mt_chooseBind_def pinned_bind_def
    by (auto split: option.split)
qed

lemma steps_same_spool:
  "framed same_spool (rate_step env call req)" "framed same_spool (dedupe_step env call req destination)"
  "framed same_spool (blocklist_step call req destination)" "framed same_spool (load_rules env call)"
  "framed same_spool (content_step env rules ctx)" "framed same_spool (mt_chooseBind env call req destination)"
  "framed same_spool (effect_step req destination ch)" "framed same_spool (entitle_step env call req ch message)"
  "framed same_spool decide_step" "framed same_spool (link_step i j)" "framed same_spool (stamp_step env j)"
  "framed same_spool (result_step call req ch message oc i j)"
proof -
  show "framed same_spool (mt_chooseBind env call req destination)"
    by (rule mt_chooseBind_frame)
      (simp_all add: spool_frame.step_frame_axioms framed_def same_spool_def resolveRoute_def record_bind_def Let_def)
qed (auto simp: framed_def same_spool_def rate_step_def dedupe_step_def blocklist_step_def require_def load_rules_def
    content_step_def effect_step_def entitle_step_def decide_step_def link_step_def stamp_step_def result_step_def Let_def
    split: prod.splits option.splits route_outcome.splits sum.splits)

definition one_more :: "mt_attempt \<Rightarrow> mt_attempt \<Rightarrow> bool" where
  "one_more s t \<longleftrightarrow>
     (\<exists>m. qm_id m = ms_next_sql (ma_service s) \<and> ms_spool (ma_service t) = ms_spool (ma_service s) @ [m])
     \<and> ms_next_sql (ma_service t) = ms_next_sql (ma_service s) + 1"

text \<open>A block that submits_once exactly when it succeeds, or fails in the caller's hook.\<close>

definition submits_once :: "'a mt_action \<Rightarrow> bool" where
  "submits_once m \<longleftrightarrow>
     (\<forall>s x t. m s = (x, t) \<longrightarrow>
        (case x of Inl e \<Rightarrow> same_spool s t \<or> e = RfCallback \<and> one_more s t | Inr _ \<Rightarrow> one_more s t))"

lemma submits_once_andthen:
  assumes "framed same_spool m" and "\<And>a. submits_once (k a)"
  shows "submits_once (andthen m k)"
  unfolding submits_once_def
proof (intro allI impI)
  fix s x t assume a: "andthen m k s = (x, t)"
  obtain y u where m: "m s = (y, u)" by (cases "m s")
  from spool_frame.framedD [OF assms(1) m] have u: "same_spool s u" .
  show "case x of Inl e \<Rightarrow> same_spool s t \<or> e = RfCallback \<and> one_more s t | Inr _ \<Rightarrow> one_more s t"
  proof (cases y)
    case (Inl e)
    with a m u show ?thesis by (auto simp: andthen_def)
  next
    case (Inr b)
    with a m have "k b u = (x, t)" by (simp add: andthen_def)
    with assms(2) [of b] have "case x of Inl e \<Rightarrow> same_spool u t \<or> e = RfCallback \<and> one_more u t | Inr _ \<Rightarrow> one_more u t"
      unfolding submits_once_def by blast
    with u show ?thesis by (auto simp: same_spool_def one_more_def split: sum.splits)
  qed
qed

text \<open>The end of a call, after the message is in the engine: it fails in the hook or not at all.\<close>

lemma submission_tail:
  "submits_once (andthen (submit_step call req nm destination ch message) (\<lambda>sqlId.
      andthen (link_step decisionId sqlId) (\<lambda>_.
      andthen (stamp_step env sqlId) (\<lambda>_.
      andthen (require (mc_callback call) RfCallback) (\<lambda>_.
      result_step call req ch message outcome decisionId sqlId)))))"
  by (auto simp: submits_once_def andthen_def submit_step_def link_step_def stamp_step_def require_def result_step_def
      same_spool_def one_more_def spooled_row_def Let_def split: sum.splits if_splits option.splits prod.splits)

lemma transaction_submits: "submits_once (transaction env call req nm destination)"
  unfolding transaction_def submit_part_def
  by (intro submits_once_andthen steps_same_spool spool_frame.framed_whenever submission_tail)

lemma commit_Inl:
  assumes "commit call before (x, s) = (Inl e, t)"
  shows "t = on_tables (\<lambda>_. before) s \<and> (x = Inl e \<or> e = RfCommit \<and> \<not> isl x)"
  using assms by (auto simp: commit_def split: sum.splits if_splits)

lemma release_stamped:
  "\<forall>r \<in> set (tt_dedupe t). dk_first r \<noteq> None \<Longrightarrow> release_claim up env e claimed t = t"
  by (auto simp: release_claim_def releaseKey_def filter_True split: option.splits)

lemma settle_verdict_simps [simp]:
  "ms_tables (settle_verdict env v svc) = ms_tables svc" "ms_spool (settle_verdict env v svc) = ms_spool svc"
  "ms_next_sql (settle_verdict env v svc) = ms_next_sql svc" "ms_limiter (settle_verdict env v svc) = ms_limiter svc"
  "ms_rotation (settle_verdict env v svc) = ms_rotation svc"
  by (simp_all add: settle_verdict_def split: option.splits)

definition refusal_row :: "send_refusal \<Rightarrow> decision_row \<Rightarrow> bool" where
  "refusal_row e r \<longleftrightarrow>
     md_ref r = None \<and> md_outcome r \<in> {OutRejected, OutDropped} \<and> md_reason r \<noteq> [] \<and> last (md_reason r) = RpRefused e"

lemma send_Inl:
  assumes "send env call req svc = (Inl e, svc')"
  obtains (destination) "svc' = svc"
  | (refused) s where "committed_send env call req (normalizeMsisdn (me_country env) (Some (mq_receiver req)) None)
          (the (nm_digits (normalizeMsisdn (me_country env) (Some (mq_receiver req)) None))) svc = (Inl e, s)"
      "svc' = settle_verdict env (ma_verdict s)
         (ma_service (on_tables (\<lambda>t. recordRejection (mc_recorded call) (rejection e (ma_record s))
                        (release_claim (mc_released call) env e (ma_claimed s) t)) s))"
  using assms by (auto simp: send_def Let_def split: if_splits prod.splits sum.splits)

lemma send_refused:
  assumes "send env call req svc = (Inl e, svc')" and "\<forall>r \<in> set (tt_dedupe (ms_tables svc)). dk_first r \<noteq> None"
  shows "(\<exists>rows. length rows \<le> 1 \<and> (\<forall>r \<in> set rows. refusal_row e r \<and> md_id r = tt_next (ms_tables svc))
       \<and> ms_tables svc' = (ms_tables svc)\<lparr>tt_decisions := tt_decisions (ms_tables svc) @ rows,
                                          tt_next := tt_next (ms_tables svc) + length rows\<rparr>)
    \<and> (ms_spool svc' = ms_spool svc
       \<or> (e = RfCallback \<or> e = RfCommit) \<and> (\<exists>m. ms_spool svc' = ms_spool svc @ [m]))"
  using assms(1)
proof (cases rule: send_Inl)
  case destination
  then show ?thesis by (auto intro: exI [of _ "[]"])
next
  case (refused s)
  let ?nm = "normalizeMsisdn (me_country env) (Some (mq_receiver req)) None"
  let ?start = "start_attempt req (the (nm_digits ?nm)) svc"
  obtain x u where tr: "transaction env call req ?nm (the (nm_digits ?nm)) ?start = (x, u)" by fastforce
  with refused(1) have c: "s = on_tables (\<lambda>_. ms_tables svc) u" "x = Inl e \<or> e = RfCommit \<and> \<not> isl x"
    using commit_Inl unfolding committed_send_def by metis+
  have sp: "case x of Inl e \<Rightarrow> same_spool ?start u \<or> e = RfCallback \<and> one_more ?start u | Inr _ \<Rightarrow> one_more ?start u"
    using transaction_submits tr unfolding submits_once_def by blast
  have "ms_spool svc' = ms_spool (ma_service u)" by (simp add: refused(2) c(1))
  with sp c(2) have "ms_spool svc' = ms_spool svc \<or> (e = RfCallback \<or> e = RfCommit) \<and> (\<exists>m. ms_spool svc' = ms_spool svc @ [m])"
    by (auto simp: same_spool_def one_more_def start_attempt_def split: sum.splits)
  moreover have "\<exists>rows. length rows \<le> 1 \<and> (\<forall>r \<in> set rows. refusal_row e r \<and> md_id r = tt_next (ms_tables svc))
       \<and> ms_tables svc' = (ms_tables svc)\<lparr>tt_decisions := tt_decisions (ms_tables svc) @ rows,
                                          tt_next := tt_next (ms_tables svc) + length rows\<rparr>"
  proof (intro exI conjI)
    let ?rows = "if mc_recorded call then [rejection e (ma_record s)\<lparr>md_id := tt_next (ms_tables svc)\<rparr>] else []"
    show "ms_tables svc' = (ms_tables svc)\<lparr>tt_decisions := tt_decisions (ms_tables svc) @ ?rows,
                                          tt_next := tt_next (ms_tables svc) + length ?rows\<rparr>"
      using release_stamped [OF assms(2)] by (simp add: refused(2) c(1) recordRejection_def insertDecision_def)
  qed (simp_all add: refusal_row_def rejection_def)
  ultimately show ?thesis by blast
qed

text \<open>C7. A refusal costs nothing: whatever stopped a send, no balance, ledger, quota, duplicate key or
  earlier decision has changed; at most one decision was added, it has no message, it says rejected or
  dropped and it ends in the refusal; and no message was handed to the engine, except where the caller's
  hook or the COMMIT failed after the engine took it.\<close>

theorem refused_send_leaves_no_trace:
  assumes "send env call req svc = (Inl e, svc')" and "\<forall>r \<in> set (tt_dedupe (ms_tables svc)). dk_first r \<noteq> None"
  shows "(\<exists>rows. length rows \<le> 1 \<and> (\<forall>r \<in> set rows. refusal_row e r \<and> md_id r = tt_next (ms_tables svc))
       \<and> ms_tables svc' = (ms_tables svc)\<lparr>tt_decisions := tt_decisions (ms_tables svc) @ rows,
                                          tt_next := tt_next (ms_tables svc) + length rows\<rparr>)
    \<and> (ms_spool svc' = ms_spool svc
       \<or> (e = RfCallback \<or> e = RfCommit) \<and> (\<exists>m. ms_spool svc' = ms_spool svc @ [m]))"
  using assms by (rule send_refused)

subsection \<open>What entitlements check and take\<close>

definition sender_approved :: "string \<Rightarrow> string \<Rightarrow> accounts \<Rightarrow> bool" where
  "sender_approved c sender st \<longleftrightarrow>
     (\<exists>r \<in> set (ac_senders st). sn_customer r = c \<and> sn_sender r = sender \<and> sn_status r = SenderApproved)"

definition bound_to :: "string \<Rightarrow> string \<Rightarrow> string option \<Rightarrow> smsc_row list \<Rightarrow> accounts \<Rightarrow> bool" where
  "bound_to c smsc route smscs st \<longleftrightarrow>
     (\<exists>b \<in> set (ac_bindings st). bd_customer b = c \<and> bd_enabled b
        \<and> (route \<noteq> None \<and> bd_route b = route \<or> (\<exists>d \<in> set smscs. sw_engine d = smsc \<and> bd_smsc b = Some (sw_id d))))"

text \<open>The promise of the component: what holds of a customer whose message goes out.\<close>

definition entitled ::
    "int \<Rightarrow> int \<Rightarrow> string \<Rightarrow> string \<Rightarrow> string \<Rightarrow> string option \<Rightarrow> smsc_row list \<Rightarrow> accounts \<Rightarrow> bool" where
  "entitled now n c sender smsc route smscs st \<longleftrightarrow>
     (\<exists>r \<in> set (ac_customers st). cu_id r = c \<and> cu_enabled r \<and> cu_status r = ''active'')
     \<and> (sender \<noteq> [] \<and> (\<exists>r \<in> set (ac_senders st). sn_customer r = c) \<longrightarrow> sender_approved c sender st)
     \<and> ((\<exists>b \<in> set (ac_bindings st). bd_customer b = c \<and> bd_enabled b) \<longrightarrow> bound_to c smsc route smscs st)
     \<and> (\<forall>q \<in> set (ac_quotas st). qo_customer q = c \<longrightarrow> used_after n now q \<le> qo_limit q)"

lemma lift_account_Inr [simp]: "lift_account r = Inr x \<longleftrightarrow> r = Inr x"
  by (cases r) (simp_all add: lift_account_def)

lemma assertSendableCustomer_Inr:
  "assertSendableCustomer c st = Inr u \<Longrightarrow> \<exists>r \<in> set (ac_customers st). cu_id r = c \<and> cu_enabled r \<and> cu_status r = ''active''"
  by (auto simp: assertSendableCustomer_def split: option.splits if_splits dest!: row_by_Some)

lemma assertSenderApproved_Inr:
  "assertSenderApproved c sender st = Inr b \<Longrightarrow> \<exists>r \<in> set (ac_senders st). sn_customer r = c \<Longrightarrow> sender_approved c sender st"
  by (auto simp: assertSenderApproved_def sender_approved_def Let_def filter_empty_conv
      split: option.splits if_splits dest!: find_some_props)

lemma assertRoutePermitted_Inr:
  assumes "assertRoutePermitted c smsc route smscs st = Inr b" and "\<exists>b \<in> set (ac_bindings st). bd_customer b = c \<and> bd_enabled b"
  shows "bound_to c smsc route smscs st"
proof -
  have "filter (\<lambda>b. bd_customer b = c \<and> bd_enabled b) (ac_bindings st) \<noteq> []"
    using assms(2) by (auto simp: filter_empty_conv)
  with assms(1) consider
      (route) "truthy route" "list_ex (\<lambda>b. bd_route b = route) (filter (\<lambda>b. bd_customer b = c \<and> bd_enabled b) (ac_bindings st))"
    | (smsc) d where "find (\<lambda>d. sw_engine d = smsc) smscs = Some d"
        "list_ex (\<lambda>b. bd_smsc b = Some (sw_id d)) (filter (\<lambda>b. bd_customer b = c \<and> bd_enabled b) (ac_bindings st))"
    unfolding assertRoutePermitted_def Let_def by (fastforce split: if_splits option.splits)
  then show ?thesis
  proof cases
    case route
    then show ?thesis by (auto simp: bound_to_def list_ex_iff truthy_def split: option.splits)
  next
    case smsc
    from find_some_props [OF smsc(1)] smsc(2) show ?thesis by (auto simp: bound_to_def list_ex_iff)
  qed
qed

lemma on_grid_toFixed4: "on_grid (toFixed4 x)"
  unfolding on_grid_def toFixed4_def by blast

lemma charge_of_props: "on_grid (charge_of env check)" "0 \<le> charge_of env check"
proof -
  show "on_grid (charge_of env check)"
    by (auto simp: charge_of_def Let_def on_grid_toFixed4 on_grid_ring)
  have "0 \<le> toFixed4 x" if "0 \<le> x" for x
    using that by (simp add: toFixed4_def)
  moreover have "(0 :: rat) \<le> of_int (max 1 k)" for k by (simp add: max_def)
  ultimately show "0 \<le> charge_of env check" by (simp add: charge_of_def Let_def)
qed

text \<open>The debit: one ledger row of the charge, or nothing.\<close>

definition debited :: "string \<Rightarrow> rat \<Rightarrow> accounts \<Rightarrow> accounts \<Rightarrow> bool" where
  "debited c charge st t \<longleftrightarrow>
     (if charge = 0 then ac_ledger t = ac_ledger st \<and> ac_balances t = ac_balances st
      else charge \<le> coalesce (ac_balances st c) 0
        \<and> (\<exists>row. ac_ledger t = ac_ledger st @ [row] \<and> lg_customer row = c \<and> lg_direction row = Debit
             \<and> lg_amount row = charge \<and> lg_balance_after row = numeric4 (coalesce (ac_balances st c) 0 - charge))
        \<and> ac_balances t = (ac_balances st)(c := Some (numeric4 (coalesce (ac_balances st c) 0 - charge))))"

lemma debit_charge_Inr:
  assumes "debit_charge c charge reference st = Inr (b, t)" and "on_grid charge" and "0 \<le> charge"
  shows "debited c charge st t" "ac_quotas t = ac_quotas st" "ac_customers t = ac_customers st"
    "ledger_ok st \<Longrightarrow> ledger_ok t"
proof -
  have "debited c charge st t \<and> ac_quotas t = ac_quotas st \<and> ac_customers t = ac_customers st \<and> (ledger_ok st \<longrightarrow> ledger_ok t)"
  proof (cases "charge \<le> 0")
    case True
    with assms show ?thesis by (simp add: debit_charge_def debited_def)
  next
    case False
    let ?st1 = "snd (currentBalance c st)"
    from False assms(1) obtain row where p: "charge \<le> fst (currentBalance c st)"
      "postEntry c Debit charge (Some ''message submission'') reference ?st1 = Inr (row, t)"
      by (auto simp: debit_charge_def Let_def split: prod.splits if_splits elim!: bind_resultE)
    have s: "coalesce (ac_balances ?st1 c) 0 = coalesce (ac_balances st c) 0"
      "(ac_balances ?st1)(c := x) = (ac_balances st)(c := x)" "ac_ledger ?st1 = ac_ledger st"
      "ac_quotas ?st1 = ac_quotas st" "ac_customers ?st1 = ac_customers st" for x
      by (simp_all add: currentBalance_def Let_def)
    note e = postEntry_Inr [OF p(2), unfolded Let_def]
    have "debited c charge st t"
      using e p(1) False s numeric4_grid [OF assms(2)] by (simp add: debited_def currentBalance_same)
    moreover have "ledger_ok st \<longrightarrow> ledger_ok t"
      using postEntry_ledger [OF _ assms(2) p(2)] same_ledger_ok currentBalance_same by blast
    ultimately show ?thesis using e s by simp
  qed
  then show "debited c charge st t" "ac_quotas t = ac_quotas st" "ac_customers t = ac_customers st"
    "ledger_ok st \<Longrightarrow> ledger_ok t" by blast+
qed

definition message_count :: "entitlement_check \<Rightarrow> int" where
  "message_count check = max 1 (trunc_rat (en_count check))"

lemma consumeEntitlements_Inr:
  assumes "consumeEntitlements env now smscs check st = Inr (out, t)"
  shows "if truthy (en_customer check)
    then entitled now (message_count check) (the (en_customer check)) (en_sender check) (en_smsc check) (en_route check) smscs st
      \<and> eo_charged out = charge_of env check \<and> debited (the (en_customer check)) (charge_of env check) st t
      \<and> ac_quotas t = update_where (\<lambda>r. qo_customer r = the (en_customer check)) (consumed_row (message_count check) now) (ac_quotas st)
    else t = st \<and> eo_charged out = 0"
    and "ledger_ok st \<Longrightarrow> ledger_ok t" and "ac_customers t = ac_customers st"
proof -
  let ?c = "the (en_customer check)" and ?n = "message_count check"
  have "(if truthy (en_customer check)
    then entitled now ?n ?c (en_sender check) (en_smsc check) (en_route check) smscs st
      \<and> eo_charged out = charge_of env check \<and> debited ?c (charge_of env check) st t
      \<and> ac_quotas t = update_where (\<lambda>r. qo_customer r = ?c) (consumed_row ?n now) (ac_quotas st)
    else t = st \<and> eo_charged out = 0) \<and> (ledger_ok st \<longrightarrow> ledger_ok t) \<and> ac_customers t = ac_customers st"
  proof (cases "truthy (en_customer check)")
    case False
    with assms show ?thesis by (auto simp: consumeEntitlements_def)
  next
    case True
    with assms obtain a b quotas st1 balance where r:
      "\<exists>u. assertSendableCustomer ?c st = Inr u"
      "(if en_sender check \<noteq> [] then assertSenderApproved ?c (en_sender check) st else Inr False) = Inr a"
      "assertRoutePermitted ?c (en_smsc check) (en_route check) smscs st = Inr b"
      "consumeQuotas ?c ?n now st = Inr (quotas, st1)"
      "debit_charge ?c (charge_of env check) (en_reference check) st1 = Inr (balance, t)" "eo_charged out = charge_of env check"
      by (auto simp: consumeEntitlements_def Let_def message_count_def elim!: bind_resultE)
    note q = consumeQuotas_Inr [OF r(4)] and d = debit_charge_Inr [OF r(5) charge_of_props]
    have st1: "ac_ledger st1 = ac_ledger st" "ac_balances st1 = ac_balances st" "ac_customers st1 = ac_customers st"
      "same_ledger st st1" using q by (simp_all add: same_ledger_def)
    have "entitled now ?n ?c (en_sender check) (en_smsc check) (en_route check) smscs st"
      unfolding entitled_def
      using r(1,2,3) q assertSendableCustomer_Inr assertSenderApproved_Inr assertRoutePermitted_Inr
      by (auto split: if_splits)
    moreover have "debited ?c (charge_of env check) st t" using d(1) unfolding debited_def st1(1,2) .
    moreover have "ledger_ok st \<longrightarrow> ledger_ok t" using d(4) same_ledger_ok st1(4) by blast
    ultimately show ?thesis using True r(6) q d(2,3) st1(3) by simp
  qed
  then show "if truthy (en_customer check)
    then entitled now (message_count check) (the (en_customer check)) (en_sender check) (en_smsc check) (en_route check) smscs st
      \<and> eo_charged out = charge_of env check \<and> debited (the (en_customer check)) (charge_of env check) st t
      \<and> ac_quotas t = update_where (\<lambda>r. qo_customer r = the (en_customer check)) (consumed_row (message_count check) now) (ac_quotas st)
    else t = st \<and> eo_charged out = 0" "ledger_ok st \<Longrightarrow> ledger_ok t" "ac_customers t = ac_customers st"
    by blast+
qed

subsection \<open>What a send that succeeds went through\<close>

text \<open>The steps before the entitlements change neither the tables, but for the duplicate keys, nor the claim.\<close>

definition same_tables :: "mt_attempt \<Rightarrow> mt_attempt \<Rightarrow> bool" where
  "same_tables s t \<longleftrightarrow>
     tables_of t = tables_of s \<and> ma_claimed t = ma_claimed s \<and> ms_spool (ma_service t) = ms_spool (ma_service s)
     \<and> ms_next_sql (ma_service t) = ms_next_sql (ma_service s)"

interpretation tables_frame: step_frame same_tables
  by unfold_locales (auto simp: same_tables_def)

lemma steps_same_tables:
  "framed same_tables (rate_step env call req)" "framed same_tables (blocklist_step call req destination)"
  "framed same_tables (load_rules env call)" "framed same_tables (content_step env rules ctx)"
  "framed same_tables (mt_chooseBind env call req destination)" "framed same_tables (effect_step req destination ch)"
proof -
  show "framed same_tables (mt_chooseBind env call req destination)"
    by (rule mt_chooseBind_frame)
      (simp_all add: tables_frame.step_frame_axioms framed_def same_tables_def resolveRoute_def record_bind_def Let_def)
qed (auto simp: framed_def same_tables_def rate_step_def blocklist_step_def require_def load_rules_def
    content_step_def effect_step_def Let_def split: prod.splits route_outcome.splits)

text \<open>The bind of a message: pinned by the caller and the tenant's, or what resolution chose.\<close>

definition bind_chosen ::
    "mt_env \<Rightarrow> mt_call \<Rightarrow> mt_request \<Rightarrow> string \<Rightarrow> mt_tables \<Rightarrow> chosen_bind \<Rightarrow> decision_row \<Rightarrow> bool" where
  "bind_chosen env call req destination t ch r \<longleftrightarrow>
     md_smsc r = Some (ch_smsc ch)
     \<and> (requested_smsc req = Some (ch_smsc ch) \<and> ch_smsc ch \<in> sw_engine ` set (tt_smscs t) \<and> ch_effect ch = None
          \<and> ch_cost ch = None \<and> md_outcome r = OutExplicit
        \<or> (\<exists>rotation. let d = resolveInClient (me_lc env) (tables_for_routing t)
               \<lparr>srx_msisdn = destination, srx_sender = Some (mq_sender req), srx_operator = mq_operator req,
                srx_customer = mq_customerId req, srx_rotation = Some rotation, srx_now = mc_local call\<rparr>
            in sr_smsc d = Some (ch_smsc ch) \<and> ch_cost ch = rd_cost d \<and> ch_effect ch = sr_effect d
               \<and> md_route r = sr_route d \<and> md_routeName r = sr_name d
               \<and> md_outcome r = (if requested_smsc req = None then OutRouted else OutRerouted)))"

lemma truthy_Some: "truthy v \<Longrightarrow> v = Some (the v)"
  by (cases v) (auto simp: truthy_def)

lemma mt_chooseBind_Inr:
  assumes "mt_chooseBind env call req destination s = (Inr ch, u)"
  shows "bind_chosen env call req destination (tables_of s) ch (ma_record u)"
  using assms truthy_Some
  by (fastforce simp: mt_chooseBind_def bind_chosen_def andthen_Inr resolveRoute_def pinned_bind_def routed_bind_def
      record_bind_def fromDecision_def Let_def split: option.splits if_splits)

lemma bind_in_scope:
  assumes "bind_chosen env call req destination t ch r"
  shows "\<exists>s \<in> set (tt_smscs t). sw_engine s = ch_smsc ch \<and> (usable_smsc s \<or> requested_smsc req = Some (ch_smsc ch))"
proof -
  from assms consider (pinned) "requested_smsc req = Some (ch_smsc ch)" "ch_smsc ch \<in> sw_engine ` set (tt_smscs t)"
    | (routed) ctx where "sr_smsc (resolveInClient (me_lc env) (tables_for_routing t) ctx) = Some (ch_smsc ch)"
    unfolding bind_chosen_def Let_def by blast
  then show ?thesis
  proof cases
    case pinned
    then show ?thesis by auto
  next
    case routed
    from selectRoute_available [OF routed [unfolded resolve_fields]]
    have "ch_smsc ch \<in> set (bh_available (availability (tt_smscs t)))"
      by (auto simp: isAvailable_def selection_context_of_def tables_for_routing_def split: if_splits)
    from available_smsc [OF this] show ?thesis by auto
  qed
qed

text \<open>The filter's answer that the message had to pass, at the point the rule set chooses.\<close>

definition content_passed :: "mt_env \<Rightarrow> rule_set \<Rightarrow> mt_request \<Rightarrow> string \<Rightarrow> string \<Rightarrow> bool" where
  "content_passed env rules req destination smsc \<longleftrightarrow>
     fv_allowed (evaluateContent (me_content env) (rs_rules rules)
       (filter_context_of req destination (if rs_hasSmscScopedRules rules then Some smsc else None)))"

text \<open>The fields of a record that say where its message goes.\<close>

definition same_bind :: "decision_row \<Rightarrow> decision_row \<Rightarrow> bool" where
  "same_bind r r' \<longleftrightarrow>
     md_route r' = md_route r \<and> md_routeName r' = md_routeName r \<and> md_smsc r' = md_smsc r \<and> md_outcome r' = md_outcome r"

lemma bind_chosen_same: "bind_chosen env call req destination t ch r \<Longrightarrow> same_bind r r' \<Longrightarrow> bind_chosen env call req destination t ch r'"
  unfolding bind_chosen_def same_bind_def by simp

lemma content_step_Inr:
  "content_step env rules ctx s = (Inr u, t) \<Longrightarrow>
     fv_allowed (evaluateContent (me_content env) (rs_rules rules) ctx) \<and> same_bind (ma_record s) (ma_record t)"
  by (auto simp: content_step_def require_Inr Let_def same_bind_def contentDecision_def split: option.splits)

lemma effect_step_Inr:
  assumes "effect_step req destination ch s = (Inr message, t)"
  shows "\<exists>ov summary. applyRouteRule (original_message req destination) (coalesce (ch_effect ch) no_effect) (rule_label (ma_record s))
      = Send message ov summary"
    and "same_bind (ma_record s) (ma_record t)"
  using assms by (auto simp: effect_step_def record_overrides_def same_bind_def split: route_outcome.splits option.splits)

lemma load_rules_Inr:
  "load_rules env call s = (Inr rules, t) \<Longrightarrow>
     rules = fst (loadInClient (me_content env) (me_ttl env) (mc_now call) (me_tenant env) (ms_filter (ma_service s)))"
  by (auto simp: load_rules_def split: prod.splits)

lemma steps_before_rules:
  "rate_step env call req s = (x, t) \<Longrightarrow> ms_filter (ma_service t) = ms_filter (ma_service s)"
  "dedupe_step env call req destination s = (x, t) \<Longrightarrow> ms_filter (ma_service t) = ms_filter (ma_service s)"
  "blocklist_step call req destination s = (x, t) \<Longrightarrow> ms_filter (ma_service t) = ms_filter (ma_service s)"
  by (auto simp: rate_step_def dedupe_step_def blocklist_step_def require_def Let_def split: prod.splits option.splits if_splits)

definition stamped :: "mt_env \<Rightarrow> (dedupe_subject \<times> int) option \<Rightarrow> nat \<Rightarrow> dedupe_row list \<Rightarrow> dedupe_row list" where
  "stamped env claimed i rows = (case claimed of None \<Rightarrow> rows | Some (subject, window) \<Rightarrow> stampKey (me_sha env) subject window i rows)"

lemma submit_part_Inr:
  assumes "submit_part env call req nm destination ch message s = (Inr r, t)"
  obtains outcome acc priority where
    "consumeEntitlements env (mc_now call) (tt_smscs (tables_of s)) (check_of req ch message (ma_record s)) (tt_accounts (tables_of s))
       = Inr (outcome, acc)"
    "parseMessagePriority (mq_priority req) = Inr priority"
    "tables_of t = (tables_of s)\<lparr>tt_accounts := acc,
       tt_decisions := update_where (\<lambda>x. md_id x = tt_next (tables_of s)) (\<lambda>x. x\<lparr>md_ref := Some (ms_next_sql (ma_service s))\<rparr>)
         (tt_decisions (tables_of s) @ [(ma_record s)\<lparr>md_ref := None, md_id := tt_next (tables_of s)\<rparr>]),
       tt_audit := tt_audit (tables_of s) @ [ms_next_sql (ma_service s)], tt_next := tt_next (tables_of s) + 1,
       tt_dedupe := stamped env (ma_claimed s) (ms_next_sql (ma_service s)) (tt_dedupe (tables_of s))\<rparr>"
    "ms_spool (ma_service t) = ms_spool (ma_service s)
       @ [spooled_row call req nm destination ch message priority (ms_next_sql (ma_service s))]"
    "ms_next_sql (ma_service t) = ms_next_sql (ma_service s) + 1"
    "mo_sqlId r = ms_next_sql (ma_service s)" "mo_decisionId r = tt_next (tables_of s)" "mo_smsc r = ch_smsc ch"
    "mo_destination r = om_recipient message" "mo_charged r = eo_charged outcome" "mo_route r = md_route (ma_record s)"
    "mo_outcome r = md_outcome (ma_record s)"
proof -
  from assms obtain outcome u sqlId v w where ev: "entitle_step env call req ch message s = (Inr outcome, u)"
      "submit_step call req nm destination ch message v = (Inr sqlId, w)"
    unfolding submit_part_def by (elim andthen_InrE) blast
  from ev(1) obtain acc where e:
    "consumeEntitlements env (mc_now call) (tt_smscs (tables_of s)) (check_of req ch message (ma_record s)) (tt_accounts (tables_of s))
       = Inr (outcome, acc)" by (auto simp: entitle_step_def split: sum.splits)
  from ev(2) obtain priority where p: "parseMessagePriority (mq_priority req) = Inr priority"
    by (auto simp: submit_step_def split: sum.splits)
  show ?thesis
    by (rule that [OF e p])
      (use assms in \<open>auto simp: submit_part_def andthen_Inr entitle_step_def submit_step_def decide_step_def link_step_def
        stamp_step_def stamped_def require_Inr result_step_def insertDecision_def e p Let_def
        split: if_splits option.splits prod.splits\<close>)
qed

definition claimed_of :: "mt_env \<Rightarrow> mt_request \<Rightarrow> string \<Rightarrow> mt_tables \<Rightarrow> (dedupe_subject \<times> int) option" where
  "claimed_of env req destination t =
     (if mt_window env t > 0 then Some (mt_subject env req destination, mt_window env t) else None)"

definition claim_granted :: "mt_env \<Rightarrow> mt_call \<Rightarrow> mt_request \<Rightarrow> string \<Rightarrow> mt_tables \<Rightarrow> dedupe_row list \<Rightarrow> bool" where
  "claim_granted env call req destination t rows \<longleftrightarrow>
     (if mt_window env t > 0
      then claimKey (me_sha env) (mt_subject env req destination) (mt_window env t) (mc_now call) (tt_dedupe t) = (None, rows)
      else rows = tt_dedupe t)"

lemma dedupe_step_Inr:
  assumes "dedupe_step env call req destination s = (Inr u, t)" and "ma_claimed s = None"
  shows "\<exists>rows. tables_of t = (tables_of s)\<lparr>tt_dedupe := rows\<rparr> \<and> ma_claimed t = claimed_of env req destination (tables_of s)
    \<and> ms_spool (ma_service t) = ms_spool (ma_service s) \<and> ms_next_sql (ma_service t) = ms_next_sql (ma_service s)
    \<and> claim_granted env call req destination (tables_of s) rows"
  using assms by (auto simp: dedupe_step_def claimed_of_def claim_granted_def Let_def split: if_splits prod.splits option.splits)

text \<open>What decides the bind: the caller's, if any, the tenant's SMSCs and the resolution.\<close>

definition resolution ::
    "mt_env \<Rightarrow> mt_call \<Rightarrow> mt_request \<Rightarrow> string \<Rightarrow> mt_tables \<Rightarrow> int \<Rightarrow> send_route_decision" where
  "resolution env call req destination t rotation =
     resolveInClient (me_lc env) (tables_for_routing t)
       \<lparr>srx_msisdn = destination, srx_sender = Some (mq_sender req), srx_operator = mq_operator req,
        srx_customer = mq_customerId req, srx_rotation = Some rotation, srx_now = mc_local call\<rparr>"

definition routed_choice :: "send_route_decision \<Rightarrow> (chosen_bind \<times> string option) option" where
  "routed_choice d =
     (if truthy (sr_smsc d) then Some (\<lparr>ch_smsc = the (sr_smsc d), ch_cost = rd_cost d, ch_effect = sr_effect d\<rparr>, sr_route d)
      else None)"

definition pinned_choice :: "string \<Rightarrow> chosen_bind \<times> string option" where
  "pinned_choice e = (\<lparr>ch_smsc = e, ch_cost = None, ch_effect = None\<rparr>, None)"

definition bind_choice ::
    "mt_env \<Rightarrow> mt_call \<Rightarrow> mt_request \<Rightarrow> string \<Rightarrow> mt_tables \<Rightarrow> int \<Rightarrow> (chosen_bind \<times> string option) option" where
  "bind_choice env call req destination t rotation =
     (case requested_smsc req of
        Some e \<Rightarrow>
          if e \<notin> sw_engine ` set (tt_smscs t) then None
          else if mq_reroute req \<and> e \<notin> set (bh_available (availability (tt_smscs t)))
          then Some (coalesce (routed_choice (resolution env call req destination t rotation)) (pinned_choice e))
          else Some (pinned_choice e)
      | None \<Rightarrow> routed_choice (resolution env call req destination t rotation))"

lemma bind_choice_cong:
  assumes "tt_smscs t = tt_smscs t'" and "tt_accounts t = tt_accounts t'" and "tt_routes t = tt_routes t'"
  shows "bind_choice env call req destination t rotation = bind_choice env call req destination t' rotation"
  unfolding bind_choice_def resolution_def tables_for_routing_def assms ..

lemma mt_chooseBind_choice:
  assumes "md_route (ma_record s) = None"
  shows "case bind_choice env call req destination (tables_of s) (next_rotation (ms_rotation (ma_service s))) of
      None \<Rightarrow> isl (fst (mt_chooseBind env call req destination s))
    | Some (ch, route) \<Rightarrow> \<exists>u. mt_chooseBind env call req destination s = (Inr ch, u) \<and> md_route (ma_record u) = route"
  using assms
  by (auto simp: mt_chooseBind_def bind_choice_def resolution_def routed_choice_def pinned_choice_def andthen_def resolveRoute_def
      routed_bind_def pinned_bind_def record_bind_def fromDecision_def Let_def split: option.split)

text \<open>The steps before the bind leave the rotation and the route of the record alone.\<close>

definition same_turn :: "mt_attempt \<Rightarrow> mt_attempt \<Rightarrow> bool" where
  "same_turn s t \<longleftrightarrow> ms_rotation (ma_service t) = ms_rotation (ma_service s) \<and> md_route (ma_record t) = md_route (ma_record s)"

interpretation turn_frame: step_frame same_turn
  by unfold_locales (auto simp: same_turn_def)

lemma steps_same_turn:
  "framed same_turn (rate_step env call req)" "framed same_turn (dedupe_step env call req destination)"
  "framed same_turn (blocklist_step call req destination)" "framed same_turn (load_rules env call)"
  "framed same_turn (content_step env rules ctx)"
  by (auto simp: framed_def same_turn_def rate_step_def dedupe_step_def blocklist_step_def require_def load_rules_def
      content_step_def contentDecision_def Let_def split: prod.splits option.splits)

lemma transaction_Inr:
  assumes "transaction env call req nm destination s = (Inr r, t)" and "ma_claimed s = None" and "md_route (ma_record s) = None"
  obtains rows rules ch message ov summary label u where
    "claim_granted env call req destination (tables_of s) rows"
    "bv_allowed (evaluateBlocklist (mc_now call) destination (mq_customerId req) (tt_blocklist (tables_of s)))"
    "rules = fst (loadInClient (me_content env) (me_ttl env) (mc_now call) (me_tenant env) (ms_filter (ma_service s)))"
    "content_passed env rules req destination (ch_smsc ch)"
    "bind_chosen env call req destination (tables_of s) ch (ma_record u)"
    "\<exists>route. bind_choice env call req destination (tables_of s) (next_rotation (ms_rotation (ma_service s))) = Some (ch, route)"
    "applyRouteRule (original_message req destination) (coalesce (ch_effect ch) no_effect) label = Send message ov summary"
    "tables_of u = (tables_of s)\<lparr>tt_dedupe := rows\<rparr>" "ma_claimed u = claimed_of env req destination (tables_of s)"
    "ms_spool (ma_service u) = ms_spool (ma_service s)" "ms_next_sql (ma_service u) = ms_next_sql (ma_service s)"
    "submit_part env call req nm destination ch message u = (Inr r, t)"
proof -
  from assms(1) obtain a s1 b s2 c s3 rules s4 d s5 ch s6 message s7 e u where st:
    "rate_step env call req s = (Inr a, s1)" "dedupe_step env call req destination s1 = (Inr b, s2)"
    "blocklist_step call req destination s2 = (Inr c, s3)" "load_rules env call s3 = (Inr rules, s4)"
    "whenever (\<not> rs_hasSmscScopedRules rules) (content_step env rules (filter_context_of req destination None)) s4 = (Inr d, s5)"
    "mt_chooseBind env call req destination s5 = (Inr ch, s6)" "effect_step req destination ch s6 = (Inr message, s7)"
    "whenever (rs_hasSmscScopedRules rules) (content_step env rules (filter_context_of req destination (Some (ch_smsc ch)))) s7 = (Inr e, u)"
    "submit_part env call req nm destination ch message u = (Inr r, t)"
    unfolding transaction_def by (elim andthen_InrE) blast
  note fr = tables_frame.framedD
  have s1: "same_tables s s1" by (rule fr [OF steps_same_tables(1) st(1)])
  with assms(2) have s1': "ma_claimed s1 = None" "tables_of s1 = tables_of s" "ms_spool (ma_service s1) = ms_spool (ma_service s)"
    "ms_next_sql (ma_service s1) = ms_next_sql (ma_service s)" by (simp_all add: same_tables_def)
  from dedupe_step_Inr [OF st(2) s1'(1), unfolded s1'(2-4)] obtain rows where dd:
    "tables_of s2 = (tables_of s)\<lparr>tt_dedupe := rows\<rparr>" "ma_claimed s2 = claimed_of env req destination (tables_of s)"
    "ms_spool (ma_service s2) = ms_spool (ma_service s)" "ms_next_sql (ma_service s2) = ms_next_sql (ma_service s)"
    "claim_granted env call req destination (tables_of s) rows" by blast
  have s5: "same_tables s2 s5"
    using fr [OF steps_same_tables(2) st(3)] fr [OF steps_same_tables(3) st(4)]
      fr [OF tables_frame.framed_whenever [OF steps_same_tables(4)] st(5)] by (blast intro: tables_frame.frame_trans)
  have u: "same_tables s5 u"
    using fr [OF steps_same_tables(5) st(6)] fr [OF steps_same_tables(6) st(7)]
      fr [OF tables_frame.framed_whenever [OF steps_same_tables(4)] st(8)] by (blast intro: tables_frame.frame_trans)
  have bl: "bv_allowed (evaluateBlocklist (mc_now call) destination (mq_customerId req) (tt_blocklist (tables_of s)))"
    using st(3) dd(1) by (simp add: blocklist_step_def Let_def require_Inr)
  have ru: "rules = fst (loadInClient (me_content env) (me_ttl env) (mc_now call) (me_tenant env) (ms_filter (ma_service s)))"
    using load_rules_Inr [OF st(4)] steps_before_rules(1) [OF st(1)] steps_before_rules(2) [OF st(2)] steps_before_rules(3) [OF st(3)]
    by simp
  have co: "content_passed env rules req destination (ch_smsc ch)"
    using st(5,8) by (auto simp: content_passed_def whenever_Inr split: if_splits dest: content_step_Inr)
  have "same_bind (ma_record s7) (ma_record u)"
    using st(8) content_step_Inr by (auto simp: whenever_Inr same_bind_def split: if_splits)
  then have "same_bind (ma_record s6) (ma_record u)" using effect_step_Inr(2) [OF st(7)] by (simp add: same_bind_def)
  with mt_chooseBind_Inr [OF st(6)] have "bind_chosen env call req destination (tables_of s5) ch (ma_record u)"
    by (rule bind_chosen_same)
  then have ch: "bind_chosen env call req destination (tables_of s) ch (ma_record u)"
    using s5 dd(1) by (simp add: same_tables_def bind_chosen_def tables_for_routing_def)
  from effect_step_Inr(1) [OF st(7)] obtain ov summary where
    "applyRouteRule (original_message req destination) (coalesce (ch_effect ch) no_effect) (rule_label (ma_record s6)) = Send message ov summary"
    by blast
  moreover have "\<exists>route. bind_choice env call req destination (tables_of s) (next_rotation (ms_rotation (ma_service s))) = Some (ch, route)"
  proof -
    note ft = turn_frame.framedD
    have "same_turn s s5"
      using ft [OF steps_same_turn(1) st(1)] ft [OF steps_same_turn(2) st(2)] ft [OF steps_same_turn(3) st(3)]
        ft [OF steps_same_turn(4) st(4)] ft [OF turn_frame.framed_whenever [OF steps_same_turn(5)] st(5)]
      by (blast intro: turn_frame.frame_trans)
    then have "bind_choice env call req destination (tables_of s5) (next_rotation (ms_rotation (ma_service s5)))
        = bind_choice env call req destination (tables_of s) (next_rotation (ms_rotation (ma_service s)))"
      "md_route (ma_record s5) = None"
      using bind_choice_cong [of "tables_of s5" "tables_of s"] s5 dd(1) assms(3) by (simp_all add: same_tables_def same_turn_def)
    with mt_chooseBind_choice [of s5 env call req destination] st(6) show ?thesis by (auto split: option.splits)
  qed
  ultimately show ?thesis
    using that [OF dd(5) bl ru co ch _ _ _ _ _ _ st(9)] s5 u dd by (simp add: same_tables_def)
qed

lemma send_Inr:
  assumes "send env call req svc = (Inr r, svc')"
  obtains d t where "nm_digits (normalizeMsisdn (me_country env) (Some (mq_receiver req)) None) = Some d" "canonical_msisdn d"
    "transaction env call req (normalizeMsisdn (me_country env) (Some (mq_receiver req)) None) d (start_attempt req d svc) = (Inr r, t)"
    "svc' = settle_verdict env (ma_verdict t) (ma_service t)"
proof -
  let ?nm = "normalizeMsisdn (me_country env) (Some (mq_receiver req)) None"
  from assms have d: "nm_digits ?nm = Some (the (nm_digits ?nm))"
    by (auto simp: send_def Let_def intro: truthy_Some split: if_splits)
  from assms obtain t where t: "committed_send env call req ?nm (the (nm_digits ?nm)) svc = (Inr r, t)"
      "svc' = settle_verdict env (ma_verdict t) (ma_service t)"
    by (auto simp: send_def Let_def split: if_splits prod.splits sum.splits)
  then have "transaction env call req ?nm (the (nm_digits ?nm)) (start_attempt req (the (nm_digits ?nm)) svc) = (Inr r, t)"
    by (auto simp: committed_send_def commit_def split: prod.splits sum.splits if_splits)
  from that [OF d normalizeMsisdn_canonical_digits [OF d] this t(2)] show ?thesis .
qed

lemma start_attempt_simps [simp]:
  "ma_service (start_attempt req d svc) = svc" "ma_claimed (start_attempt req d svc) = None"
  "md_route (ma_record (start_attempt req d svc)) = None"
  by (simp_all add: start_attempt_def base_record_def)

lemma message_count_check [simp]: "message_count (check_of req ch message r) = 1"
  by (simp add: message_count_def check_of_def trunc_rat_def)

text \<open>The rules the filter has for the tenant when a call comes in.\<close>

definition rules_now :: "mt_env \<Rightarrow> mt_call \<Rightarrow> mt_service \<Rightarrow> rule_set" where
  "rules_now env call svc = fst (loadInClient (me_content env) (me_ttl env) (mc_now call) (me_tenant env) (ms_filter svc))"

text \<open>C8. An accepted send passed every check: the receiver of the request normalises to a canonical number
  which no list in scope refuses (a route's effect may send to another one, which is not checked), the rules
  it loaded allow the request's text for that number, the bind is one of the tenant's SMSCs, and one in service
  unless the caller pinned it; and where the request names a customer, that customer is active and no quota of
  his is exceeded, the sender ID that was spooled, unless it is empty, is approved if he has any sender ID
  registered, and the route or the SMSC is one he is bound to if he has any enabled binding.\<close>

theorem accepted_send_passed_every_check:
  assumes "send env call req svc = (Inr r, svc')"
  shows "\<exists>d m. nm_digits (normalizeMsisdn (me_country env) (Some (mq_receiver req)) None) = Some d \<and> canonical_msisdn d
    \<and> bv_allowed (evaluateBlocklist (mc_now call) d (mq_customerId req) (tt_blocklist (ms_tables svc)))
    \<and> content_passed env (rules_now env call svc) req d (mo_smsc r)
    \<and> (\<exists>s \<in> set (tt_smscs (ms_tables svc)). sw_engine s = mo_smsc r \<and> (usable_smsc s \<or> requested_smsc req = Some (mo_smsc r)))
    \<and> ms_spool svc' = ms_spool svc @ [m] \<and> qm_smsc m = mo_smsc r
    \<and> (truthy (mq_customerId req) \<longrightarrow>
         entitled (mc_now call) 1 (the (mq_customerId req)) (qm_sender m) (mo_smsc r) (mo_route r)
           (tt_smscs (ms_tables svc)) (tt_accounts (ms_tables svc)))"
proof -
  from assms obtain d t where d: "nm_digits (normalizeMsisdn (me_country env) (Some (mq_receiver req)) None) = Some d" "canonical_msisdn d"
    and tr: "transaction env call req (normalizeMsisdn (me_country env) (Some (mq_receiver req)) None) d (start_attempt req d svc) = (Inr r, t)"
    and svc': "svc' = settle_verdict env (ma_verdict t) (ma_service t)" by (rule send_Inr)
  from tr obtain rows rules ch message ov summary label u where c:
    "bv_allowed (evaluateBlocklist (mc_now call) d (mq_customerId req) (tt_blocklist (ms_tables svc)))"
    "rules = rules_now env call svc" "content_passed env rules req d (ch_smsc ch)"
    "bind_chosen env call req d (ms_tables svc) ch (ma_record u)"
    "tables_of u = (ms_tables svc)\<lparr>tt_dedupe := rows\<rparr>" "ms_spool (ma_service u) = ms_spool svc"
    "submit_part env call req (normalizeMsisdn (me_country env) (Some (mq_receiver req)) None) d ch message u = (Inr r, t)"
    unfolding rules_now_def by (elim transaction_Inr) auto
  from c(7) show ?thesis
  proof (rule submit_part_Inr, goal_cases)
    case (1 outcome acc priority)
    note e = consumeEntitlements_Inr(1) [OF 1(1)] and s = 1(4,8,11)
    let ?m = "spooled_row call req (normalizeMsisdn (me_country env) (Some (mq_receiver req)) None) d ch message priority (ms_next_sql (ma_service u))"
    have m: "qm_smsc ?m = ch_smsc ch" "qm_sender ?m = coalesce (om_sender message) []" by (simp_all add: spooled_row_def Let_def)
    have "truthy (mq_customerId req) \<longrightarrow>
         entitled (mc_now call) 1 (the (mq_customerId req)) (qm_sender ?m) (mo_smsc r) (mo_route r)
           (tt_smscs (ms_tables svc)) (tt_accounts (ms_tables svc))"
      using e unfolding m(2) s(2,3) by (auto simp: check_of_def message_count_def trunc_rat_def c(5))
    with d c bind_in_scope [OF c(4)] s m show ?thesis unfolding svc' by (intro exI [of _ d] exI [of _ ?m]) simp
  qed
qed

lemma mt_window_bounds: "0 \<le> mt_window env t" "window_of (mt_window env t) = mt_window env t"
proof -
  have "0 \<le> mt_window env t \<and> mt_window env t \<le> 3600"
    using window_of_bounds(1) by (auto simp: mt_window_def windowFor_def split: option.splits)
  then show "0 \<le> mt_window env t" "window_of (mt_window env t) = mt_window env t" by (simp_all add: window_of_bounds(2))
qed

text \<open>The key a committed send holds.\<close>

definition held_key :: "mt_env \<Rightarrow> mt_call \<Rightarrow> dedupe_subject \<Rightarrow> int \<Rightarrow> nat \<Rightarrow> dedupe_row" where
  "held_key env call subject window i =
     \<lparr>dk_tenant = dd_tenant subject, dk_key = dedupeKey (me_sha env) subject, dk_first = Some i,
      dk_expires = mc_now call + window * 1000, dk_suppressed = 0\<rparr>"

lemma stamped_key:
  assumes "claim_granted env call req d t rows"
    and "mt_window env t > 0"
  shows "stamped env (claimed_of env req d t) i rows
      = filter (\<lambda>r. \<not> (is_key (me_sha env) (mt_subject env req d) r \<and> dk_expires r \<le> mc_now call)) (tt_dedupe t)
        @ [held_key env call (mt_subject env req d) (mt_window env t) i]"
    and "\<forall>r \<in> set (tt_dedupe t). is_key (me_sha env) (mt_subject env req d) r \<longrightarrow> dk_expires r \<le> mc_now call"
proof -
  let ?k = "is_key (me_sha env) (mt_subject env req d)"
  have w: "window_of (mt_window env t) \<noteq> 0" using assms(2) by (simp add: mt_window_bounds)
  from assms [unfolded claim_granted_def] have "claimKey (me_sha env) (mt_subject env req d) (mt_window env t) (mc_now call) (tt_dedupe t) = (None, rows)" by simp
  note g = claimKey_granted [OF this w]
  then show "\<forall>r \<in> set (tt_dedupe t). ?k r \<longrightarrow> dk_expires r \<le> mc_now call" by blast
  have kept: "update_where (\<lambda>r. ?k r \<and> dk_first r = None) (\<lambda>r. r\<lparr>dk_first := Some i\<rparr>)
      (filter (\<lambda>r. \<not> (?k r \<and> dk_expires r \<le> mc_now call)) (tt_dedupe t))
    = filter (\<lambda>r. \<not> (?k r \<and> dk_expires r \<le> mc_now call)) (tt_dedupe t)"
    by (rule update_where_none) (use g in auto)
  show "stamped env (claimed_of env req d t) i rows = filter (\<lambda>r. \<not> (?k r \<and> dk_expires r \<le> mc_now call)) (tt_dedupe t)
        @ [held_key env call (mt_subject env req d) (mt_window env t) i]"
    using g assms(2) w kept
    by (simp add: stamped_def claimed_of_def stampKey_def held_key_def mt_window_bounds is_key_def update_where_def)
qed

text \<open>The tables of a tenant keep their keys: decisions are numbered below the next number, once each.\<close>

definition decisions_ok :: "mt_tables \<Rightarrow> bool" where
  "decisions_ok t \<longleftrightarrow> distinct (map md_id (tt_decisions t)) \<and> (\<forall>r \<in> set (tt_decisions t). md_id r < tt_next t)"

definition recorded :: "mt_result \<Rightarrow> mt_request \<Rightarrow> string \<Rightarrow> spooled_sms \<Rightarrow> decision_row \<Rightarrow> bool" where
  "recorded r req d m row \<longleftrightarrow>
     qm_id m = mo_sqlId r \<and> qm_smsc m = mo_smsc r
     \<and> qm_receiver m = (if mo_destination r = d then CHR ''+'' # d else mo_destination r)
     \<and> md_id row = mo_decisionId r \<and> md_ref row = Some (mo_sqlId r) \<and> md_smsc row = Some (mo_smsc r)
     \<and> md_outcome row = mo_outcome r \<and> mo_outcome r \<in> {OutRouted, OutExplicit, OutRerouted}"

lemma normalized_e164:
  "nm_digits (normalizeMsisdn env v cc) = Some d \<Longrightarrow> nm_e164 (normalizeMsisdn env v cc) = Some (CHR ''+'' # d)"
  using normalizeMsisdn_fields [of env v cc] by (simp add: Let_def)

lemma link_new:
  assumes "decisions_ok t" and "md_id r = tt_next t"
  shows "update_where (\<lambda>x. md_id x = tt_next t) f (tt_decisions t @ [r]) = tt_decisions t @ [f r]"
proof -
  have "update_where (\<lambda>x. md_id x = tt_next t) f (tt_decisions t) = tt_decisions t"
    by (rule update_where_none) (use assms(1) in \<open>auto simp: decisions_ok_def\<close>)
  with assms(2) show ?thesis by (simp add: update_where_def)
qed

text \<open>Everything a committed send did.\<close>

definition sent_effects :: "mt_env \<Rightarrow> mt_call \<Rightarrow> mt_request \<Rightarrow> mt_service \<Rightarrow> mt_result \<Rightarrow> mt_service \<Rightarrow> string \<Rightarrow> bool" where
  "sent_effects env call req svc r svc' d \<longleftrightarrow>
     (let t = ms_tables svc; t' = ms_tables svc'; subject = mt_subject env req d
      in (\<exists>m row. ms_spool svc' = ms_spool svc @ [m] \<and> tt_decisions t' = tt_decisions t @ [row] \<and> recorded r req d m row)
         \<and> mo_sqlId r = ms_next_sql svc \<and> mo_decisionId r = tt_next t
         \<and> ms_next_sql svc' = ms_next_sql svc + 1 \<and> tt_next t' = tt_next t + 1 \<and> tt_audit t' = tt_audit t @ [mo_sqlId r]
         \<and> (if truthy (mq_customerId req)
            then debited (the (mq_customerId req)) (mo_charged r) (tt_accounts t) (tt_accounts t')
              \<and> ac_quotas (tt_accounts t') = update_where (\<lambda>q. qo_customer q = the (mq_customerId req))
                  (consumed_row 1 (mc_now call)) (ac_quotas (tt_accounts t))
            else tt_accounts t' = tt_accounts t \<and> mo_charged r = 0)
         \<and> (ledger_ok (tt_accounts t) \<longrightarrow> ledger_ok (tt_accounts t'))
         \<and> tt_dedupe t' =
             (if mt_window env t > 0
              then filter (\<lambda>k. \<not> (is_key (me_sha env) subject k \<and> dk_expires k \<le> mc_now call)) (tt_dedupe t)
                @ [held_key env call subject (mt_window env t) (mo_sqlId r)]
              else tt_dedupe t)
         \<and> tt_window t' = tt_window t)"

lemma send_effects:
  assumes "send env call req svc = (Inr r, svc')" and "decisions_ok (ms_tables svc)"
  shows "\<exists>d. nm_digits (normalizeMsisdn (me_country env) (Some (mq_receiver req)) None) = Some d \<and> sent_effects env call req svc r svc' d"
proof -
  let ?nm = "normalizeMsisdn (me_country env) (Some (mq_receiver req)) None"
  from assms(1) obtain d t where d: "nm_digits ?nm = Some d"
    and tr: "transaction env call req ?nm d (start_attempt req d svc) = (Inr r, t)"
    and svc': "svc' = settle_verdict env (ma_verdict t) (ma_service t)" by (rule send_Inr)
  from tr obtain rows rules ch message ov summary label u where c:
    "claim_granted env call req d (ms_tables svc) rows"
    "bind_chosen env call req d (ms_tables svc) ch (ma_record u)"
    "tables_of u = (ms_tables svc)\<lparr>tt_dedupe := rows\<rparr>" "ma_claimed u = claimed_of env req d (ms_tables svc)"
    "ms_spool (ma_service u) = ms_spool svc" "ms_next_sql (ma_service u) = ms_next_sql svc"
    "submit_part env call req ?nm d ch message u = (Inr r, t)"
    by (elim transaction_Inr) auto
  from c(7) show ?thesis
  proof (rule submit_part_Inr, goal_cases)
    case (1 outcome acc priority)
    note e = consumeEntitlements_Inr [OF 1(1)] and s = 1(3-)
    let ?m = "spooled_row call req ?nm d ch message priority (ms_next_sql svc)"
    let ?row = "(ma_record u)\<lparr>md_id := tt_next (ms_tables svc), md_ref := Some (ms_next_sql svc)\<rparr>"
    have row: "md_smsc (ma_record u) = Some (ch_smsc ch)" "md_outcome (ma_record u) \<in> {OutRouted, OutExplicit, OutRerouted}"
      using c(2) by (auto simp: bind_chosen_def Let_def split: if_splits)
    have rec: "recorded r req d ?m ?row"
      using row d normalized_e164 [OF d] s c(3,6) by (simp add: recorded_def spooled_row_def Let_def)
    have dec: "tt_decisions (tables_of t) = tt_decisions (ms_tables svc) @ [?row]"
      using s(1) c(3,6) link_new [OF assms(2)] by simp
    have keys: "tt_dedupe (tables_of t) = (if mt_window env (ms_tables svc) > 0
        then filter (\<lambda>k. \<not> (is_key (me_sha env) (mt_subject env req d) k \<and> dk_expires k \<le> mc_now call)) (tt_dedupe (ms_tables svc))
          @ [held_key env call (mt_subject env req d) (mt_window env (ms_tables svc)) (mo_sqlId r)]
        else tt_dedupe (ms_tables svc))"
      using s(1,4) c(1,3,4,6) stamped_key(1) [OF c(1)] by (auto simp: stamped_def claimed_of_def claim_granted_def)
    have acc: "if truthy (mq_customerId req)
            then debited (the (mq_customerId req)) (mo_charged r) (tt_accounts (ms_tables svc)) acc
              \<and> ac_quotas acc = update_where (\<lambda>q. qo_customer q = the (mq_customerId req))
                  (consumed_row 1 (mc_now call)) (ac_quotas (tt_accounts (ms_tables svc)))
            else acc = tt_accounts (ms_tables svc) \<and> mo_charged r = 0"
      using e(1) s(8) c(3) by (auto simp: check_of_def message_count_def trunc_rat_def split: if_splits)
    have "sent_effects env call req svc r svc' d"
      unfolding sent_effects_def svc' Let_def settle_verdict_simps keys dec
      using rec acc e(2) s c(3,5,6) by (intro conjI) auto
    with d show ?thesis by blast
  qed
qed

text \<open>C10. An accepted send is recorded, once, in every place: one message in the engine and one decision that
  names it and its bind, one line of audit, the customer's quotas used by one and its balance less exactly the
  charge, with the ledger row of it (nothing, for a message of no customer), and the duplicate key held for the
  window in the message's name.\<close>

theorem accepted_send_is_recorded:
  assumes "send env call req svc = (Inr r, svc')" and "decisions_ok (ms_tables svc)"
  shows "\<exists>d. nm_digits (normalizeMsisdn (me_country env) (Some (mq_receiver req)) None) = Some d \<and> sent_effects env call req svc r svc' d"
  using assms by (rule send_effects)

subsection \<open>When a send is accepted\<close>

definition passes :: "'a mt_action \<Rightarrow> mt_attempt \<Rightarrow> bool" where
  "passes m s \<longleftrightarrow> \<not> isl (fst (m s))"

lemma passesE: "passes m s \<Longrightarrow> (\<And>a u. m s = (Inr a, u) \<Longrightarrow> thesis) \<Longrightarrow> thesis"
  by (cases "m s"; cases "fst (m s)") (auto simp: passes_def)

lemma passes_andthen: "passes (andthen m k) s \<longleftrightarrow> (\<exists>a u. m s = (Inr a, u) \<and> passes (k a) u)"
  by (auto simp: passes_def andthen_def split: prod.splits sum.splits)

text \<open>The entitlement check of the final message.\<close>

definition final_check :: "mt_request \<Rightarrow> chosen_bind \<Rightarrow> string option \<Rightarrow> entitlement_check" where
  "final_check req ch route =
     \<lparr>en_customer = mq_customerId req,
      en_sender = coalesce (clean (ef_sender (coalesce (ch_effect ch) no_effect))) (mq_sender req), en_smsc = ch_smsc ch,
      en_route = route, en_count = 1, en_cost = (if mq_cost req = None then ch_cost ch else mq_cost req),
      en_reference = (if mq_reference req = None then mq_foreignId req else mq_reference req)\<rparr>"

lemma check_of_final:
  assumes "applyRouteRule (original_message req destination) (coalesce (ch_effect ch) no_effect) label = Send message ov summary"
  shows "check_of req ch message r = final_check req ch (md_route r)"
  using applyRouteRule_sent_fields(2) [OF assms]
  by (cases "clean (ef_sender (coalesce (ch_effect ch) no_effect))") (simp_all add: check_of_def final_check_def original_message_def)

lemma submit_part_passes:
  assumes "tt_smscs (tables_of s) = smscs" and "tt_accounts (tables_of s) = acc"
    and "check_of req ch message (ma_record s) = check"
  shows "passes (submit_part env call req nm destination ch message) s \<longleftrightarrow>
     \<not> isl (consumeEntitlements env (mc_now call) smscs check acc) \<and> \<not> isl (parseMessagePriority (mq_priority req))
     \<and> mc_engine call \<and> mc_callback call"
  using assms
  by (auto simp: passes_def submit_part_def andthen_def entitle_step_def decide_step_def submit_step_def link_step_def stamp_step_def
      require_def result_step_def Let_def split: sum.splits option.splits prod.splits)

lemma isl_map_sum: "isl (map_sum f g x) \<longleftrightarrow> isl x"
  by (cases x) simp_all

lemma early_steps_pass:
  "passes (rate_step env call req) s \<longleftrightarrow>
     \<not> isl (fst (consumeCustomerRate (mc_redis call) (mc_redis_ttl call) (mc_now call) (me_tenant env) (mq_customerId req)
             (ac_customers (tt_accounts (tables_of s))) (ms_limiter (ma_service s))))"
  "passes (dedupe_step env call req destination) s \<longleftrightarrow> (\<exists>rows. claim_granted env call req destination (tables_of s) rows)"
  "passes (blocklist_step call req destination) s \<longleftrightarrow>
     bv_allowed (evaluateBlocklist (mc_now call) destination (mq_customerId req) (tt_blocklist (tables_of s)))"
  "passes (content_step env rules ctx) s \<longleftrightarrow> fv_allowed (evaluateContent (me_content env) (rs_rules rules) ctx)"
  "passes (load_rules env call) s" "passes (whenever b m) s \<longleftrightarrow> (b \<longrightarrow> passes m s)"
  "passes (effect_step req destination ch) s \<longleftrightarrow> ef_action (coalesce (ch_effect ch) no_effect) \<noteq> ActDrop"
  by (auto simp: passes_def isl_map_sum rate_step_def dedupe_step_def claim_granted_def blocklist_step_def content_step_def load_rules_def
      whenever_def effect_step_def require_def applyRouteRule_def Let_def split: prod.splits option.splits sum.splits route_action.splits)

lemma passes_first: "passes m s \<Longrightarrow> \<exists>a u. m s = (Inr a, u) \<and> passes (andthen m k) s = passes (k a) u"
  by (erule passesE) (auto simp: passes_andthen)

lemma fails_first: "\<not> passes m s \<Longrightarrow> \<not> passes (andthen m k) s"
  by (auto simp: andthen_def passes_def split: prod.split sum.split)

text \<open>From the rules on: what must hold of the choice of the bind.\<close>

definition choice_accepted ::
    "mt_env \<Rightarrow> mt_call \<Rightarrow> mt_request \<Rightarrow> string \<Rightarrow> rule_set \<Rightarrow> mt_tables \<Rightarrow> (chosen_bind \<times> string option) option \<Rightarrow> bool" where
  "choice_accepted env call req destination rules t choice \<longleftrightarrow>
     (case choice of
        None \<Rightarrow> False
      | Some (ch, route) \<Rightarrow>
          content_passed env rules req destination (ch_smsc ch)
          \<and> ef_action (coalesce (ch_effect ch) no_effect) \<noteq> ActDrop
          \<and> \<not> isl (consumeEntitlements env (mc_now call) (tt_smscs t) (final_check req ch route) (tt_accounts t)))"

lemma after_bind_passes:
  assumes "tt_smscs (tables_of s) = tt_smscs t" and "tt_accounts (tables_of s) = tt_accounts t"
  shows "passes (andthen (effect_step req destination ch) (\<lambda>message.
       andthen (whenever b (content_step env rules ctx)) (\<lambda>_.
       submit_part env call req nm destination ch message))) s \<longleftrightarrow>
     ef_action (coalesce (ch_effect ch) no_effect) \<noteq> ActDrop
     \<and> (b \<longrightarrow> fv_allowed (evaluateContent (me_content env) (rs_rules rules) ctx))
     \<and> \<not> isl (consumeEntitlements env (mc_now call) (tt_smscs t) (final_check req ch (md_route (ma_record s))) (tt_accounts t))
     \<and> \<not> isl (parseMessagePriority (mq_priority req)) \<and> mc_engine call \<and> mc_callback call"
proof (cases "passes (effect_step req destination ch) s")
  case False
  from fails_first [OF this] False show ?thesis by (simp add: early_steps_pass)
next
  case True
  let ?rest = "\<lambda>message. andthen (whenever b (content_step env rules ctx)) (\<lambda>_. submit_part env call req nm destination ch message)"
  from passes_first [OF True, where k = ?rest] obtain message s1 where e: "effect_step req destination ch s = (Inr message, s1)"
      "passes (andthen (effect_step req destination ch) ?rest) s = passes (?rest message) s1" by blast
  obtain ov summary where ap: "applyRouteRule (original_message req destination) (coalesce (ch_effect ch) no_effect) (rule_label (ma_record s))
      = Send message ov summary" using effect_step_Inr(1) [OF e(1)] by blast
  have s1: "same_tables s s1" "md_route (ma_record s1) = md_route (ma_record s)"
    using tables_frame.framedD [OF steps_same_tables(6) e(1)] effect_step_Inr(2) [OF e(1)] by (simp_all add: same_bind_def)
  let ?w = "whenever b (content_step env rules ctx)"
  show ?thesis
  proof (cases "passes ?w s1")
    case False
    from fails_first [OF this] e(2) False show ?thesis by (simp add: early_steps_pass)
  next
    case w: True
    from passes_first [OF w, where k = "\<lambda>_. submit_part env call req nm destination ch message"] obtain a s2 where
      c: "?w s1 = (Inr a, s2)" "passes (?rest message) s1 = passes (submit_part env call req nm destination ch message) s2" by blast
    have s2: "same_tables s1 s2" "md_route (ma_record s2) = md_route (ma_record s1)"
      using tables_frame.framedD [OF tables_frame.framed_whenever [OF steps_same_tables(4)] c(1)]
        turn_frame.framedD [OF turn_frame.framed_whenever [OF steps_same_turn(5)] c(1)] by (simp_all add: same_turn_def)
    have "tt_smscs (tables_of s2) = tt_smscs t" "tt_accounts (tables_of s2) = tt_accounts t"
      "check_of req ch message (ma_record s2) = final_check req ch (md_route (ma_record s))"
      using assms s1 s2 check_of_final [OF ap] by (simp_all add: same_tables_def)
    from submit_part_passes [OF this] True w e(2) c(2) show ?thesis by (auto simp: early_steps_pass)
  qed
qed

lemma from_bind_passes:
  assumes "tt_smscs (tables_of s) = tt_smscs t" and "tt_accounts (tables_of s) = tt_accounts t" and "tt_routes (tables_of s) = tt_routes t"
    and "md_route (ma_record s) = None"
  shows "passes (andthen (whenever (\<not> rs_hasSmscScopedRules rules) (content_step env rules (filter_context_of req destination None))) (\<lambda>_.
       andthen (mt_chooseBind env call req destination) (\<lambda>ch.
       andthen (effect_step req destination ch) (\<lambda>message.
       andthen (whenever (rs_hasSmscScopedRules rules)
                  (content_step env rules (filter_context_of req destination (Some (ch_smsc ch))))) (\<lambda>_.
       submit_part env call req nm destination ch message))))) s \<longleftrightarrow>
     choice_accepted env call req destination rules t
       (bind_choice env call req destination t (next_rotation (ms_rotation (ma_service s))))
     \<and> \<not> isl (parseMessagePriority (mq_priority req)) \<and> mc_engine call \<and> mc_callback call"
    (is "passes (andthen ?w (\<lambda>_. andthen ?b ?k)) s \<longleftrightarrow> _")
proof (cases "passes ?w s")
  case False
  then have "\<not> content_passed env rules req destination smsc" for smsc by (simp add: early_steps_pass content_passed_def)
  with fails_first [OF False, where k = "\<lambda>_. andthen ?b ?k"] show ?thesis
    by (simp add: choice_accepted_def split: option.split)
next
  case True
  from passes_first [OF True, where k = "\<lambda>_. andthen ?b ?k"] obtain a s1 where
    c: "?w s = (Inr a, s1)" "passes (andthen ?w (\<lambda>_. andthen ?b ?k)) s = passes (andthen ?b ?k) s1" by blast
  have s1: "same_tables s s1" "same_turn s s1"
    using tables_frame.framedD [OF tables_frame.framed_whenever [OF steps_same_tables(4)] c(1)]
      turn_frame.framedD [OF turn_frame.framed_whenever [OF steps_same_turn(5)] c(1)] by simp_all
  let ?choice = "bind_choice env call req destination t (next_rotation (ms_rotation (ma_service s)))"
  have route: "md_route (ma_record s1) = None" using s1(2) assms(4) by (simp add: same_turn_def)
  have "bind_choice env call req destination (tables_of s1) (next_rotation (ms_rotation (ma_service s1))) = ?choice"
    using bind_choice_cong [of "tables_of s1" t env call req destination] s1 assms by (simp add: same_tables_def same_turn_def)
  note ch = mt_chooseBind_choice [OF route, of env call req destination, unfolded this]
  show ?thesis
  proof (cases ?choice)
    case None
    with ch have "\<not> passes ?b s1" by (simp add: passes_def)
    from fails_first [OF this, where k = ?k] None c(2) show ?thesis by (simp add: choice_accepted_def)
  next
    case (Some p)
    then obtain chosen rt where p: "?choice = Some (chosen, rt)" by (cases p) auto
    with ch obtain u where u: "?b s1 = (Inr chosen, u)" "md_route (ma_record u) = rt" by auto
    then have "passes (andthen ?b ?k) s1 = passes (?k chosen) u" by (simp add: passes_andthen)
    moreover have "tt_smscs (tables_of u) = tt_smscs t" "tt_accounts (tables_of u) = tt_accounts t"
      using tables_frame.framedD [OF steps_same_tables(5) u(1)] s1(1) assms by (simp_all add: same_tables_def)
    ultimately show ?thesis
      using after_bind_passes [of u t req destination chosen "rs_hasSmscScopedRules rules" env rules
          "filter_context_of req destination (Some (ch_smsc chosen))" call nm] c(2) True u(2)
      by (auto simp: p choice_accepted_def content_passed_def early_steps_pass)
  qed
qed

text \<open>Everything that decides whether a send is accepted.\<close>

definition acceptable :: "mt_env \<Rightarrow> mt_call \<Rightarrow> mt_request \<Rightarrow> mt_service \<Rightarrow> string \<Rightarrow> bool" where
  "acceptable env call req svc d \<longleftrightarrow>
     (let t = ms_tables svc
      in \<not> isl (fst (consumeCustomerRate (mc_redis call) (mc_redis_ttl call) (mc_now call) (me_tenant env) (mq_customerId req)
                  (ac_customers (tt_accounts t)) (ms_limiter svc)))
         \<and> (mt_window env t > 0 \<longrightarrow>
              fst (claimKey (me_sha env) (mt_subject env req d) (mt_window env t) (mc_now call) (tt_dedupe t)) = None)
         \<and> bv_allowed (evaluateBlocklist (mc_now call) d (mq_customerId req) (tt_blocklist t))
         \<and> choice_accepted env call req d (rules_now env call svc) t
              (bind_choice env call req d t (next_rotation (ms_rotation svc)))
         \<and> \<not> isl (parseMessagePriority (mq_priority req)) \<and> mc_engine call \<and> mc_callback call \<and> mc_commit call)"

lemma claim_granted_iff:
  "(\<exists>rows. claim_granted env call req d t rows) \<longleftrightarrow>
     (mt_window env t > 0 \<longrightarrow>
        fst (claimKey (me_sha env) (mt_subject env req d) (mt_window env t) (mc_now call) (tt_dedupe t)) = None)"
  by (auto simp: claim_granted_def) (metis prod.collapse)

lemma transaction_passes:
  "passes (transaction env call req nm d) (start_attempt req d svc) \<and> mc_commit call \<longleftrightarrow> acceptable env call req svc d"
proof -
  let ?s = "start_attempt req d svc" and ?r = "rate_step env call req" and ?d = "dedupe_step env call req d"
    and ?b = "blocklist_step call req d" and ?l = "load_rules env call"
  obtain k where tr: "transaction env call req nm d = andthen ?r (\<lambda>_. andthen ?d (\<lambda>_. andthen ?b (\<lambda>_. andthen ?l k)))"
    and k: "\<And>s rules t. tt_smscs (tables_of s) = tt_smscs t \<Longrightarrow> tt_accounts (tables_of s) = tt_accounts t
        \<Longrightarrow> tt_routes (tables_of s) = tt_routes t \<Longrightarrow> md_route (ma_record s) = None
        \<Longrightarrow> passes (k rules) s \<longleftrightarrow> choice_accepted env call req d rules t (bind_choice env call req d t (next_rotation (ms_rotation (ma_service s))))
            \<and> \<not> isl (parseMessagePriority (mq_priority req)) \<and> mc_engine call \<and> mc_callback call"
    by (rule that [OF transaction_def from_bind_passes])
  have route: "md_route (ma_record ?s) = None" by (simp add: start_attempt_def base_record_def)
  show ?thesis
  proof (cases "passes ?r ?s")
    case False
    then have "\<not> passes (transaction env call req nm d) ?s" unfolding tr by (rule fails_first)
    with False show ?thesis by (simp add: early_steps_pass acceptable_def Let_def)
  next
    case r: True
    then obtain a s1 where s1: "?r ?s = (Inr a, s1)" by (rule passesE)
    have f1: "same_tables ?s s1" "same_turn ?s s1" "ms_filter (ma_service s1) = ms_filter svc"
      using tables_frame.framedD [OF steps_same_tables(1) s1] turn_frame.framedD [OF steps_same_turn(1) s1]
        steps_before_rules(1) [OF s1] by simp_all
    show ?thesis
    proof (cases "passes ?d s1")
      case False
      then have "\<not> (\<exists>rows. claim_granted env call req d (ms_tables svc) rows)"
        using f1(1) by (simp add: early_steps_pass same_tables_def)
      moreover have "\<not> passes (transaction env call req nm d) ?s"
        unfolding tr passes_andthen [where m = ?r] s1 using fails_first [OF False] by auto
      ultimately show ?thesis unfolding claim_granted_iff by (auto simp: acceptable_def Let_def)
    next
      case d: True
      then obtain b s2 where s2: "?d s1 = (Inr b, s2)" by (rule passesE)
      have "ma_claimed s1 = None" using f1(1) by (simp add: same_tables_def)
      from dedupe_step_Inr [OF s2 this] f1(1) obtain rows where t2: "tables_of s2 = (ms_tables svc)\<lparr>tt_dedupe := rows\<rparr>"
        by (auto simp: same_tables_def)
      have f2: "same_turn ?s s2" "ms_filter (ma_service s2) = ms_filter svc"
        using turn_frame.frame_trans [OF f1(2) turn_frame.framedD [OF steps_same_turn(2) s2]] steps_before_rules(2) [OF s2] f1(3)
        by simp_all
      have gr: "\<exists>rows. claim_granted env call req d (ms_tables svc) rows"
        using d f1(1) by (simp add: early_steps_pass same_tables_def)
      show ?thesis
      proof (cases "passes ?b s2")
        case False
        then have "\<not> bv_allowed (evaluateBlocklist (mc_now call) d (mq_customerId req) (tt_blocklist (ms_tables svc)))"
          using t2 by (simp add: early_steps_pass)
        moreover have "\<not> passes (transaction env call req nm d) ?s"
          unfolding tr passes_andthen [where m = ?r] passes_andthen [where m = ?d] s1
          using fails_first [OF False] s2 by auto
        ultimately show ?thesis by (auto simp: acceptable_def Let_def)
      next
        case b: True
        then obtain c s3 where s3: "?b s2 = (Inr c, s3)" by (rule passesE)
        obtain rules s4 where s4: "?l s3 = (Inr rules, s4)" using early_steps_pass(5) by (rule passesE)
        have f4: "tables_of s4 = tables_of s2" "same_turn ?s s4"
          using tables_frame.frame_trans [OF tables_frame.framedD [OF steps_same_tables(2) s3] tables_frame.framedD [OF steps_same_tables(3) s4]]
            turn_frame.frame_trans [OF f2(1) turn_frame.frame_trans [OF turn_frame.framedD [OF steps_same_turn(3) s3]
              turn_frame.framedD [OF steps_same_turn(4) s4]]] by (simp_all add: same_tables_def)
        have "rules = rules_now env call svc"
          using load_rules_Inr [OF s4] steps_before_rules(3) [OF s3] f2(2) by (simp add: rules_now_def)
        moreover have "ms_rotation (ma_service s4) = ms_rotation svc" "md_route (ma_record s4) = None"
          using f4(2) route by (simp_all add: same_turn_def)
        ultimately have "passes (k rules) s4 \<longleftrightarrow> choice_accepted env call req d (rules_now env call svc) (ms_tables svc)
              (bind_choice env call req d (ms_tables svc) (next_rotation (ms_rotation svc)))
            \<and> \<not> isl (parseMessagePriority (mq_priority req)) \<and> mc_engine call \<and> mc_callback call"
          using k [of s4 "ms_tables svc" rules] f4(1) t2 by simp
        moreover have "passes (transaction env call req nm d) ?s = passes (k rules) s4"
          unfolding tr by (simp add: passes_andthen s1 s2 s3 s4)
        moreover have "bv_allowed (evaluateBlocklist (mc_now call) d (mq_customerId req) (tt_blocklist (ms_tables svc)))"
          using b t2 by (simp add: early_steps_pass)
        ultimately show ?thesis using r gr [unfolded claim_granted_iff] by (auto simp: acceptable_def early_steps_pass Let_def)
      qed
    qed
  qed
qed

lemma send_passes:
  "\<not> isl (fst (send env call req svc)) \<longleftrightarrow>
     (\<exists>d. nm_digits (normalizeMsisdn (me_country env) (Some (mq_receiver req)) None) = Some d \<and> acceptable env call req svc d)"
proof (cases "nm_digits (normalizeMsisdn (me_country env) (Some (mq_receiver req)) None)")
  case None
  then show ?thesis by (simp add: send_def truthy_def Let_def)
next
  case (Some d)
  let ?nm = "normalizeMsisdn (me_country env) (Some (mq_receiver req)) None"
  have "truthy (nm_digits ?nm)"
    using canonical_msisdn_not_Nil [OF normalizeMsisdn_canonical_digits [OF Some]] Some by (simp add: truthy_def)
  then have "\<not> isl (fst (send env call req svc)) \<longleftrightarrow> \<not> isl (fst (committed_send env call req ?nm d svc))"
    using Some by (auto simp: send_def Let_def split: prod.split sum.split)
  also have "\<dots> \<longleftrightarrow> passes (transaction env call req ?nm d) (start_attempt req d svc) \<and> mc_commit call"
    by (auto simp: committed_send_def commit_def passes_def split: prod.split sum.split)
  finally show ?thesis using transaction_passes Some by simp
qed

text \<open>C1. When a send is accepted: exactly when the rate limit admits it, its key is free, no list refuses its
  destination, a bind is pinned or resolved, the content filter allows it, the route does not drop it, the
  entitlements of its customer cover it, its priority is a priority, and nothing fails at the edges. In
  particular nothing else refuses a message, and a destination that is not a number always is refused.\<close>

theorem send_accepted_iff:
  "\<not> isl (fst (send env call req svc)) \<longleftrightarrow>
     (\<exists>d. nm_digits (normalizeMsisdn (me_country env) (Some (mq_receiver req)) None) = Some d \<and> acceptable env call req svc d)"
  by (rule send_passes)

text \<open>Where an accepted message goes: the chosen bind, and the recipient the route's rule gave it, if any.\<close>

lemma send_target:
  assumes "send env call req svc = (Inr r, svc')"
    and "nm_digits (normalizeMsisdn (me_country env) (Some (mq_receiver req)) None) = Some d"
    and "bind_choice env call req d (ms_tables svc) (next_rotation (ms_rotation svc)) = Some (ch, route)"
  shows "mo_smsc r = ch_smsc ch \<and> mo_destination r = coalesce (clean (ef_recipient (coalesce (ch_effect ch) no_effect))) d"
proof -
  from assms(1,2) obtain t where
    "transaction env call req (normalizeMsisdn (me_country env) (Some (mq_receiver req)) None) d (start_attempt req d svc) = (Inr r, t)"
    by (auto elim: send_Inr)
  then obtain ch' message ov summary label u where c:
    "\<exists>route. bind_choice env call req d (ms_tables svc) (next_rotation (ms_rotation svc)) = Some (ch', route)"
    "applyRouteRule (original_message req d) (coalesce (ch_effect ch') no_effect) label = Send message ov summary"
    "submit_part env call req (normalizeMsisdn (me_country env) (Some (mq_receiver req)) None) d ch' message u = (Inr r, t)"
    by (elim transaction_Inr) auto
  have "mo_smsc r = ch_smsc ch'" "mo_destination r = om_recipient message" using c(3) by (auto elim: submit_part_Inr)
  with c(1) applyRouteRule_sent_fields(3) [OF c(2)] assms(3) show ?thesis by (simp add: original_message_def)
qed

end
