(* ===== verification/SendMachine.thy ===== *)
theory SendMachine
  imports SendChecks
begin

section \<open>The send path as a machine\<close>

text \<open>
  Any sequence of sends, with whatever fails in them, and of operations on accounts, lists and keys:
  the books stay in agreement and no submission is accepted twice within its window. Then the
  places where two parts of the path disagree, on concrete inputs.
\<close>

subsection \<open>The service as a machine\<close>

datatype mt_event =
    MtSend mt_call mt_request
  | MtAccount account_event
  | MtBlock "string list" nat blocklist_entry
  | MtUnblock nat
  | MtSweep int

definition with_tables :: "(mt_tables \<Rightarrow> mt_tables) \<Rightarrow> mt_service \<Rightarrow> mt_service" where
  "with_tables f svc = svc\<lparr>ms_tables := f (ms_tables svc)\<rparr>"

definition mt_step :: "mt_env \<Rightarrow> mt_event \<Rightarrow> mt_service \<Rightarrow> mt_service option" where
  "mt_step env ev svc = Some
     (case ev of
        MtSend call req \<Rightarrow> snd (send env call req svc)
      | MtAccount e \<Rightarrow>
          with_tables (\<lambda>t. case account_op e (tt_accounts t) of Inl _ \<Rightarrow> t | Inr acc \<Rightarrow> t\<lparr>tt_accounts := acc\<rparr>) svc
      | MtBlock customers i entry \<Rightarrow>
          with_tables (\<lambda>t. case add_entry (me_country env) customers i entry (tt_blocklist t) of
              Inl _ \<Rightarrow> t | Inr rows \<Rightarrow> t\<lparr>tt_blocklist := rows\<rparr>) svc
      | MtUnblock i \<Rightarrow>
          with_tables (\<lambda>t. case remove_entry i (tt_blocklist t) of Inl _ \<Rightarrow> t | Inr rows \<Rightarrow> t\<lparr>tt_blocklist := rows\<rparr>) svc
      | MtSweep now \<Rightarrow> with_tables (\<lambda>t. t\<lparr>tt_dedupe := snd (sweepKeys now (tt_dedupe t))\<rparr>) svc)"

text \<open>The books: decisions, audit, engine and ledger agree, and duplicate keys are unique and stamped.\<close>

definition key_pair :: "dedupe_row \<Rightarrow> string \<times> string" where
  "key_pair r = (dk_tenant r, dk_key r)"

definition keys_ok :: "dedupe_row list \<Rightarrow> bool" where
  "keys_ok rows \<longleftrightarrow> distinct (map key_pair rows) \<and> (\<forall>r \<in> set rows. dk_first r \<noteq> None)"

definition refs_of :: "decision_row list \<Rightarrow> nat list" where
  "refs_of rows = List.map_filter md_ref rows"

definition spooled_as :: "spooled_sms list \<Rightarrow> decision_row \<Rightarrow> bool" where
  "spooled_as spool row \<longleftrightarrow>
     (\<forall>i. md_ref row = Some i \<longrightarrow> (\<exists>m \<in> set spool. qm_id m = i \<and> md_smsc row = Some (qm_smsc m)))"

definition books_ok :: "mt_service \<Rightarrow> bool" where
  "books_ok svc \<longleftrightarrow>
     decisions_ok (ms_tables svc) \<and> keys_ok (tt_dedupe (ms_tables svc)) \<and> ledger_ok (tt_accounts (ms_tables svc))
     \<and> distinct (map qm_id (ms_spool svc)) \<and> (\<forall>m \<in> set (ms_spool svc). qm_id m < ms_next_sql svc)
     \<and> (\<forall>row \<in> set (tt_decisions (ms_tables svc)). spooled_as (ms_spool svc) row)
     \<and> refs_of (tt_decisions (ms_tables svc)) = tt_audit (ms_tables svc)
     \<and> sorted_wrt (<) (tt_audit (ms_tables svc)) \<and> (\<forall>i \<in> set (tt_audit (ms_tables svc)). i < ms_next_sql svc)"

lemma refs_of_append [simp]: "refs_of (xs @ ys) = refs_of xs @ refs_of ys" "refs_of [] = []"
  "refs_of (r # rs) = (case md_ref r of None \<Rightarrow> refs_of rs | Some i \<Rightarrow> i # refs_of rs)"
  by (simp_all add: refs_of_def map_filter_def split: option.splits)

lemma is_key_pair: "is_key sha s r \<longleftrightarrow> key_pair r = (dd_tenant s, dedupeKey sha s)"
  by (auto simp: is_key_def key_pair_def)

lemma keys_ok_filter: "keys_ok rows \<Longrightarrow> keys_ok (filter P rows)"
  by (auto simp: keys_ok_def distinct_map_filter)

lemma keys_ok_claimed:
  assumes "keys_ok rows" and "\<forall>r \<in> set rows. is_key sha s r \<longrightarrow> dk_expires r \<le> now"
    and "key_pair k = (dd_tenant s, dedupeKey sha s)" and "dk_first k \<noteq> None"
  shows "keys_ok (filter (\<lambda>r. \<not> (is_key sha s r \<and> dk_expires r \<le> now)) rows @ [k])"
  using assms by (fastforce simp: keys_ok_def distinct_map_filter is_key_pair)

text \<open>A send that failed after the engine took it leaves one more row there, with the next number.\<close>

lemma send_refused_spool:
  assumes "send env call req svc = (Inl e, svc')"
  shows "(ms_spool svc' = ms_spool svc \<and> ms_next_sql svc' = ms_next_sql svc)
    \<or> (\<exists>m. qm_id m = ms_next_sql svc \<and> ms_spool svc' = ms_spool svc @ [m] \<and> ms_next_sql svc' = ms_next_sql svc + 1)"
  using assms
proof (cases rule: send_Inl)
  case (refused s)
  let ?nm = "normalizeMsisdn (me_country env) (Some (mq_receiver req)) None"
  let ?start = "start_attempt req (the (nm_digits ?nm)) svc"
  obtain x u where tr: "transaction env call req ?nm (the (nm_digits ?nm)) ?start = (x, u)" by fastforce
  with refused(1) have c: "s = on_tables (\<lambda>_. ms_tables svc) u" using commit_Inl unfolding committed_send_def by metis
  have "case x of Inl e \<Rightarrow> same_spool ?start u \<or> e = RfCallback \<and> one_more ?start u | Inr _ \<Rightarrow> one_more ?start u"
    using transaction_submits tr unfolding submits_once_def by blast
  then show ?thesis by (auto simp: refused(2) c same_spool_def one_more_def split: sum.splits)
qed simp

lemma books_tables:
  assumes "books_ok svc" and "ms_spool svc' = ms_spool svc" "ms_next_sql svc' = ms_next_sql svc"
    and "tt_decisions (ms_tables svc') = tt_decisions (ms_tables svc)" "tt_next (ms_tables svc') = tt_next (ms_tables svc)"
    and "tt_audit (ms_tables svc') = tt_audit (ms_tables svc)"
    and "keys_ok (tt_dedupe (ms_tables svc'))" "ledger_ok (tt_accounts (ms_tables svc'))"
  shows "books_ok svc'"
  using assms by (simp add: books_ok_def decisions_ok_def)

lemma spooled_as_more: "spooled_as spool row \<Longrightarrow> spooled_as (spool @ ms) row"
  by (fastforce simp: spooled_as_def)

lemma refusal_rows_refs: "\<forall>r \<in> set rows. refusal_row e r \<Longrightarrow> refs_of rows = []"
  by (induction rows) (auto simp: refusal_row_def)

lemma decisions_ok_append:
  assumes "decisions_ok t" and "length rows \<le> 1" and "\<forall>r \<in> set rows. md_id r = tt_next t"
  shows "decisions_ok (t\<lparr>tt_decisions := tt_decisions t @ rows, tt_next := tt_next t + length rows\<rparr>)"
  using assms by (cases rows) (auto simp: decisions_ok_def)

lemma books_refused:
  assumes "books_ok svc" and "send env call req svc = (Inl e, svc')"
  shows "books_ok svc'"
proof -
  have "\<forall>r \<in> set (tt_dedupe (ms_tables svc)). dk_first r \<noteq> None" using assms(1) by (simp add: books_ok_def keys_ok_def)
  from send_refused [OF assms(2) this] obtain rows where rows: "length rows \<le> 1" "\<forall>r \<in> set rows. refusal_row e r"
      "\<forall>r \<in> set rows. md_id r = tt_next (ms_tables svc)"
    and t: "ms_tables svc' = (ms_tables svc)\<lparr>tt_decisions := tt_decisions (ms_tables svc) @ rows,
                                          tt_next := tt_next (ms_tables svc) + length rows\<rparr>" by blast
  have sp: "(ms_spool svc' = ms_spool svc \<and> ms_next_sql svc' = ms_next_sql svc)
    \<or> (\<exists>m. qm_id m = ms_next_sql svc \<and> ms_spool svc' = ms_spool svc @ [m] \<and> ms_next_sql svc' = ms_next_sql svc + 1)"
    by (rule send_refused_spool [OF assms(2)])
  have ok: "spooled_as (ms_spool svc) r \<Longrightarrow> spooled_as (ms_spool svc') r" for r
    using sp spooled_as_more by auto
  have "spooled_as spool r" if "r \<in> set rows" for r spool using that rows(2) by (simp add: spooled_as_def refusal_row_def)
  then have "\<forall>row \<in> set (tt_decisions (ms_tables svc')). spooled_as (ms_spool svc') row"
    using assms(1) ok by (auto simp: t books_ok_def)
  moreover have "distinct (map qm_id (ms_spool svc')) \<and> (\<forall>m \<in> set (ms_spool svc'). qm_id m < ms_next_sql svc')
      \<and> (\<forall>i \<in> set (tt_audit (ms_tables svc')). i < ms_next_sql svc')"
    using assms(1) sp by (fastforce simp: t books_ok_def)
  moreover have "decisions_ok (ms_tables svc')"
    unfolding t by (rule decisions_ok_append) (use assms(1) rows in \<open>simp_all add: books_ok_def\<close>)
  moreover have "refs_of (tt_decisions (ms_tables svc')) = tt_audit (ms_tables svc')"
    using assms(1) refusal_rows_refs [OF rows(2)] by (simp add: t books_ok_def)
  ultimately show ?thesis using assms(1) by (simp add: books_ok_def t)
qed

lemma send_claims:
  assumes "send env call req svc = (Inr r, svc')" and "mt_window env (ms_tables svc) > 0"
    and "nm_digits (normalizeMsisdn (me_country env) (Some (mq_receiver req)) None) = Some d"
  shows "\<forall>k \<in> set (tt_dedupe (ms_tables svc)). is_key (me_sha env) (mt_subject env req d) k \<longrightarrow> dk_expires k \<le> mc_now call"
proof -
  let ?nm = "normalizeMsisdn (me_country env) (Some (mq_receiver req)) None"
  from assms(1,3) obtain t where tr: "transaction env call req ?nm d (start_attempt req d svc) = (Inr r, t)"
    by (auto elim: send_Inr)
  then obtain rows where "claim_granted env call req d (ms_tables svc) rows"
    by (elim transaction_Inr) auto
  from stamped_key(2) [OF this assms(2)] show ?thesis .
qed

lemma held_key_pair: "key_pair (held_key env call s w i) = (dd_tenant s, dedupeKey (me_sha env) s)" "dk_first (held_key env call s w i) = Some i"
  by (simp_all add: key_pair_def held_key_def)

lemma books_sent:
  assumes "books_ok svc" and "send env call req svc = (Inr r, svc')"
  shows "books_ok svc'"
proof -
  have dec: "decisions_ok (ms_tables svc)" using assms(1) by (simp add: books_ok_def)
  from send_effects [OF assms(2) dec] obtain d where "nm_digits (normalizeMsisdn (me_country env) (Some (mq_receiver req)) None) = Some d"
    and se: "sent_effects env call req svc r svc' d" by blast
  note cl = send_claims [OF assms(2) _ this(1)]
  from se obtain m row where
    sp: "ms_spool svc' = ms_spool svc @ [m]" and de: "tt_decisions (ms_tables svc') = tt_decisions (ms_tables svc) @ [row]"
    and rec: "recorded r req d m row" and n: "mo_sqlId r = ms_next_sql svc" "mo_decisionId r = tt_next (ms_tables svc)"
      "ms_next_sql svc' = ms_next_sql svc + 1" "tt_next (ms_tables svc') = tt_next (ms_tables svc) + 1"
      "tt_audit (ms_tables svc') = tt_audit (ms_tables svc) @ [mo_sqlId r]"
      "ledger_ok (tt_accounts (ms_tables svc)) \<longrightarrow> ledger_ok (tt_accounts (ms_tables svc'))"
    and ke: "tt_dedupe (ms_tables svc') =
             (if mt_window env (ms_tables svc) > 0
              then filter (\<lambda>k. \<not> (is_key (me_sha env) (mt_subject env req d) k \<and> dk_expires k \<le> mc_now call)) (tt_dedupe (ms_tables svc))
                @ [held_key env call (mt_subject env req d) (mt_window env (ms_tables svc)) (mo_sqlId r)]
              else tt_dedupe (ms_tables svc))"
    unfolding sent_effects_def Let_def by blast
  have m: "qm_id m = ms_next_sql svc" "qm_smsc m = mo_smsc r" "md_ref row = Some (ms_next_sql svc)" "md_smsc row = Some (mo_smsc r)"
    "md_id row = tt_next (ms_tables svc)" using rec n by (auto simp: recorded_def)
  have "decisions_ok (ms_tables svc')" using dec m(5) n(4) by (auto simp: decisions_ok_def de)
  moreover have "distinct (map qm_id (ms_spool svc')) \<and> (\<forall>m \<in> set (ms_spool svc'). qm_id m < ms_next_sql svc')"
    using assms(1) m(1) n(3) by (fastforce simp: sp books_ok_def)
  moreover have "\<forall>x \<in> set (tt_decisions (ms_tables svc')). spooled_as (ms_spool svc') x"
    using assms(1) m spooled_as_more by (auto simp: de sp books_ok_def) (auto simp: spooled_as_def)
  moreover have "refs_of (tt_decisions (ms_tables svc')) = tt_audit (ms_tables svc') \<and> sorted_wrt (<) (tt_audit (ms_tables svc'))
      \<and> (\<forall>i \<in> set (tt_audit (ms_tables svc')). i < ms_next_sql svc')"
    using assms(1) m(3) n by (auto simp: de books_ok_def sorted_wrt_append)
  moreover have "ledger_ok (tt_accounts (ms_tables svc'))" using assms(1) n(6) by (simp add: books_ok_def)
  moreover have "keys_ok (tt_dedupe (ms_tables svc'))"
    using assms(1) cl keys_ok_claimed held_key_pair by (simp add: ke books_ok_def)
  ultimately show ?thesis unfolding books_ok_def by blast
qed

definition mt_ok :: "mt_event \<Rightarrow> bool" where
  "mt_ok ev \<longleftrightarrow> (case ev of MtAccount e \<Rightarrow> four_decimals e | _ \<Rightarrow> True)"

lemma account_op_books: "ledger_ok acc \<Longrightarrow> four_decimals e \<Longrightarrow> account_op e acc = Inr acc' \<Longrightarrow> ledger_ok acc'"
  using ledgers.step_inv [of acc e acc'] by (simp add: account_step_def)

lemma mt_step_send:
  assumes "mt_step env (MtSend call req) s = Some t"
  obtains x where "send env call req s = (x, t)"
  using assms by (cases "send env call req s") (simp add: mt_step_def)

interpretation books: invariant_machine "mt_step env" "\<lambda>ev _. mt_ok ev" books_ok
proof unfold_locales
  fix s ev t assume inv: "books_ok s" "mt_ok ev" and st: "mt_step env ev s = Some t"
  show "books_ok t"
  proof (cases ev)
    case (MtSend call req)
    from st [unfolded MtSend] obtain x where x: "send env call req s = (x, t)" by (rule mt_step_send)
    with inv(1) books_refused books_sent show ?thesis by (cases x) blast+
  next
    case (MtAccount e)
    with st inv show ?thesis
      by (intro books_tables [OF inv(1)])
        (auto simp: mt_step_def mt_ok_def with_tables_def books_ok_def intro: account_op_books split: sum.splits)
  qed (use st inv(1) keys_ok_filter in \<open>auto intro!: books_tables [OF inv(1)]
      simp: mt_step_def with_tables_def sweepKeys_def books_ok_def decisions_ok_def split: sum.splits\<close>)
qed

text \<open>A service with nothing sent yet.\<close>

definition fresh_service ::
    "customer_row list \<Rightarrow> smsc_row list \<Rightarrow> route_row list \<Rightarrow> int option option \<Rightarrow> filter_store \<Rightarrow> mt_service" where
  "fresh_service customers smscs routes window store =
     \<lparr>ms_tables = \<lparr>tt_accounts = empty_accounts customers, tt_smscs = smscs, tt_routes = routes, tt_blocklist = [],
                   tt_dedupe = [], tt_window = window, tt_decisions = [], tt_audit = [], tt_next = 0\<rparr>,
      ms_limiter = (\<lambda>_. 0), ms_rotation = 0, ms_filter = store, ms_spool = [], ms_next_sql = 0\<rparr>"

lemma books_fresh: "books_ok (fresh_service customers smscs routes window store)"
  by (simp add: books_ok_def fresh_service_def decisions_ok_def keys_ok_def ledger_ok_empty)

lemma books_run:
  assumes "run_steps (mt_step env) es (fresh_service customers smscs routes window store) = Some svc" and "list_all mt_ok es"
  shows "books_ok svc"
proof -
  have "books.ok_run env es (fresh_service customers smscs routes window store)"
    using assms(2) by (intro books.ok_run_events) (simp add: list_all_iff)
  from books.run_inv [OF books_fresh this assms(1)] show ?thesis .
qed

text \<open>C9. The books agree: after any sequence of sends, whatever fails in them, and of operations on accounts,
  lists and keys, every decision that names a message names one the engine holds, for the bind the decision
  records, and no two name the same; the audit trail lists exactly these messages in order; and every
  customer's balance is what its ledger adds up to, never negative (amounts posted by hand having at most four
  decimals).\<close>

theorem send_path_keeps_books:
  assumes "run_steps (mt_step env) es (fresh_service customers smscs routes window store) = Some svc" and "list_all mt_ok es"
  shows "(\<forall>row \<in> set (tt_decisions (ms_tables svc)). spooled_as (ms_spool svc) row)
    \<and> refs_of (tt_decisions (ms_tables svc)) = tt_audit (ms_tables svc) \<and> distinct (tt_audit (ms_tables svc))
    \<and> distinct (map qm_id (ms_spool svc))
    \<and> coalesce (ac_balances (tt_accounts (ms_tables svc)) c) 0 = ledger_total (ledger_of c (tt_accounts (ms_tables svc)))
    \<and> 0 \<le> coalesce (ac_balances (tt_accounts (ms_tables svc)) c) 0"
proof -
  note b = books_run [OF assms, unfolded books_ok_def]
  then have "running 0 (ledger_of c (tt_accounts (ms_tables svc)))"
    "coalesce (ac_balances (tt_accounts (ms_tables svc)) c) 0 = ledger_total (ledger_of c (tt_accounts (ms_tables svc)))"
    by (simp_all add: ledger_ok_def)
  with running_nonneg [OF this(1)] b show ?thesis by (simp add: strict_sorted_iff)
qed

subsection \<open>No message twice\<close>












subsection \<open>Examples\<close>

definition sample_mt_env :: mt_env where
  "sample_mt_env =
     \<lparr>me_country = None, me_lc = code_unit_compare, me_content = sample_env, me_ttl = 15000, me_default_cost = None,
      me_sha = (\<lambda>s. s), me_tenant = ''t'', me_dedupe = True\<rparr>"

definition sample_call :: "int \<Rightarrow> mt_call" where
  "sample_call now =
     \<lparr>mc_now = now, mc_local = \<lparr>lt_day = 0, lt_hours = 0, lt_minutes = 0\<rparr>, mc_redis = True, mc_redis_ttl = 0,
      mc_engine = True, mc_callback = True, mc_commit = True, mc_released = True, mc_recorded = True\<rparr>"

definition sample_request :: "string option \<Rightarrow> mt_request" where
  "sample_request smsc =
     \<lparr>mq_sender = ''S'', mq_receiver = ''+256700'', mq_text = ''x'', mq_smscId = smsc, mq_dlrMask = None,
      mq_dlrUrl = None, mq_foreignId = None, mq_customerId = None, mq_channel = ''api'', mq_reference = None,
      mq_operator = None, mq_reroute = False, mq_cost = None, mq_priority = JNull, mq_schedule = None\<rparr>"

definition no_rules_store :: filter_store where
  "no_rules_store = \<lparr>fs_rows = (\<lambda>_. []), fs_smscs = (\<lambda>_. []), fs_customers = (\<lambda>_. []), fs_audit = [], fs_cache = []\<rparr>"

text \<open>One live SMSC, and one route that rewrites the recipient to a number on the do-not-disturb list.\<close>

definition rewriting_route :: route_row where
  "rewriting_route = (sample_route_row ''r'' ''2'' None)\<lparr>rtr_override_recipient := Some ''256711''\<rparr>"

definition sample_service :: mt_service where
  "sample_service =
     fresh_service [one_customer] [sample_smsc ''2'' ''b'' (Some ''bound'')] [rewriting_route] (Some (Some 60)) no_rules_store"

definition do_not_disturb :: mt_event where
  "do_not_disturb =
     MtBlock [] 0 \<lparr>be_listType = Dnd, be_msisdn = ''256711'', be_customer = None, be_reason = None, be_source = None, be_expires = None\<rparr>"

definition listed_service :: mt_service where
  "listed_service = the (mt_step sample_mt_env do_not_disturb sample_service)"

lemma listed_run: "run_steps (mt_step sample_mt_env) [do_not_disturb] sample_service = Some listed_service"
  by (simp add: listed_service_def mt_step_def)

lemma listed_books: "books_ok listed_service"
  by (rule books_run [OF listed_run [unfolded sample_service_def]]) (simp add: mt_ok_def do_not_disturb_def)

lemma sample_digits:
  "nm_digits (normalizeMsisdn (me_country sample_mt_env) (Some (mq_receiver (sample_request e))) None) = Some ''256700''"
  by (simp add: sample_mt_env_def sample_request_def) code_simp

lemma sample_choice:
  "\<exists>ch route. bind_choice sample_mt_env (sample_call 1000) (sample_request None) ''256700'' (ms_tables listed_service)
       (next_rotation (ms_rotation listed_service)) = Some (ch, route)
     \<and> ch_smsc ch = ''b'' \<and> coalesce (clean (ef_recipient (coalesce (ch_effect ch) no_effect))) ''256700'' = ''256711''
     \<and> choice_accepted sample_mt_env (sample_call 1000) (sample_request None) ''256700''
         (rules_now sample_mt_env (sample_call 1000) listed_service) (ms_tables listed_service) (Some (ch, route))"
proof -
  have "case bind_choice sample_mt_env (sample_call 1000) (sample_request None) ''256700'' (ms_tables listed_service)
       (next_rotation (ms_rotation listed_service)) of None \<Rightarrow> False
    | Some (ch, route) \<Rightarrow> ch_smsc ch = ''b''
        \<and> coalesce (clean (ef_recipient (coalesce (ch_effect ch) no_effect))) ''256700'' = ''256711''
        \<and> choice_accepted sample_mt_env (sample_call 1000) (sample_request None) ''256700''
            (rules_now sample_mt_env (sample_call 1000) listed_service) (ms_tables listed_service) (Some (ch, route))"
    by code_simp
  then show ?thesis by (auto split: option.splits)
qed

lemma sample_window: "mt_window sample_mt_env (ms_tables listed_service) = 60"
  by code_simp

lemma sample_acceptable: "acceptable sample_mt_env (sample_call 1000) (sample_request None) listed_service ''256700''"
proof -
  have "tt_dedupe (ms_tables listed_service) = []"
    "bv_allowed (evaluateBlocklist 1000 ''256700'' None (tt_blocklist (ms_tables listed_service)))" by code_simp+
  with sample_choice sample_window show ?thesis
    by (auto simp: acceptable_def claimKey_def sample_call_def sample_request_def consumeCustomerRate_def truthy_def parseMessagePriority_def Let_def)
qed

definition sent_service :: mt_service where
  "sent_service = snd (send sample_mt_env (sample_call 1000) (sample_request None) listed_service)"

definition sent_result :: mt_result where
  "sent_result = projr (fst (send sample_mt_env (sample_call 1000) (sample_request None) listed_service))"

lemma sent_of:
  assumes "acceptable env call req svc d" and "nm_digits (normalizeMsisdn (me_country env) (Some (mq_receiver req)) None) = Some d"
  shows "send env call req svc = (Inr (projr (fst (send env call req svc))), snd (send env call req svc))"
  using send_passes [of env call req svc] assms by (cases "send env call req svc") auto

lemma sample_sent: "send sample_mt_env (sample_call 1000) (sample_request None) listed_service = (Inr sent_result, sent_service)"
  unfolding sent_result_def sent_service_def by (rule sent_of [OF sample_acceptable sample_digits])

lemma sent_spool:
  assumes "send env call req svc = (Inr r, svc')" and "books_ok svc"
    and "nm_digits (normalizeMsisdn (me_country env) (Some (mq_receiver req)) None) = Some d"
  shows "\<exists>m. ms_spool svc' = ms_spool svc @ [m] \<and> qm_smsc m = mo_smsc r
    \<and> qm_receiver m = (if mo_destination r = d then CHR ''+'' # d else mo_destination r)"
proof -
  have "decisions_ok (ms_tables svc)" using assms(2) by (simp add: books_ok_def)
  from send_effects [OF assms(1) this] assms(3) show ?thesis by (auto simp: sent_effects_def recorded_def Let_def)
qed

lemma sample_spool: "map qm_receiver (ms_spool sent_service) = [''256711''] \<and> map qm_smsc (ms_spool sent_service) = [''b'']"
proof -
  have "ms_spool listed_service = []" by code_simp
  moreover have "mo_smsc sent_result = ''b'' \<and> mo_destination sent_result = ''256711''"
    using sample_choice send_target [OF sample_sent sample_digits] by auto
  ultimately show ?thesis using sent_spool [OF sample_sent listed_books sample_digits] by auto
qed

definition out_of_service :: mt_service where
  "out_of_service =
     fresh_service [] [\<lparr>sw_id = ''2'', sw_engine = ''b'', sw_enabled = False, sw_suspended = True, sw_bind_state = Some ''disconnected''\<rparr>]
       [] None no_rules_store"

text \<open>A pinned bind is only checked to be the tenant's: a message pinned to an SMSC that is disabled, suspended
  and disconnected is accepted and handed to the engine, although availability documents that a suspended SMSC
  must not satisfy a caller's pinned identifier.\<close>

theorem pinned_bind_ignores_suspension:
  "\<exists>r svc. send sample_mt_env (sample_call 1000) (sample_request (Some ''b'')) out_of_service = (Inr r, svc)
     \<and> map qm_smsc (ms_spool svc) = [''b'']
     \<and> (\<forall>s \<in> set (tt_smscs (ms_tables out_of_service)). \<not> usable_smsc s)
     \<and> bh_available (availability (tt_smscs (ms_tables out_of_service))) = []"
proof -
  let ?r = "sample_request (Some ''b'')"
  have choice: "bind_choice sample_mt_env (sample_call 1000) ?r ''256700'' (ms_tables out_of_service)
       (next_rotation (ms_rotation out_of_service)) = Some (pinned_choice ''b'')"
    "choice_accepted sample_mt_env (sample_call 1000) ?r ''256700''
            (rules_now sample_mt_env (sample_call 1000) out_of_service) (ms_tables out_of_service) (Some (pinned_choice ''b''))"
    by code_simp+
  have "mt_window sample_mt_env (ms_tables out_of_service) = 0"
    "bv_allowed (evaluateBlocklist 1000 ''256700'' None (tt_blocklist (ms_tables out_of_service)))" by code_simp+
  with choice have "acceptable sample_mt_env (sample_call 1000) ?r out_of_service ''256700''"
    by (auto simp: acceptable_def sample_call_def sample_request_def consumeCustomerRate_def truthy_def parseMessagePriority_def Let_def)
  note s = sent_of [OF this sample_digits]
  have b: "books_ok out_of_service" unfolding out_of_service_def by (rule books_fresh)
  have "ms_spool out_of_service = []" by (simp add: out_of_service_def fresh_service_def)
  with sent_spool [OF s b sample_digits] send_target [OF s sample_digits choice(1) [unfolded pinned_choice_def]]
  have "map qm_smsc (ms_spool (snd (send sample_mt_env (sample_call 1000) ?r out_of_service))) = [''b'']" by auto
  moreover have "list_all (\<lambda>s. \<not> usable_smsc s) (tt_smscs (ms_tables out_of_service))
      \<and> bh_available (availability (tt_smscs (ms_tables out_of_service))) = []" by code_simp
  ultimately show ?thesis using s by (intro exI conjI) (auto simp: list_all_iff)
qed

text \<open>A rule that rewrites the recipient goes round the lists: the blocklist and the content filter see the
  destination of the request, so a message is sent to a number that is on the do-not-disturb list for everyone.\<close>

theorem rewritten_recipient_evades_blocklist:
  "\<exists>r svc. send sample_mt_env (sample_call 1000) (sample_request None) listed_service = (Inr r, svc)
     \<and> map qm_receiver (ms_spool svc) = [''256711'']
     \<and> \<not> bv_allowed (evaluateBlocklist 1000 ''256711'' None (tt_blocklist (ms_tables listed_service)))"
proof (intro exI conjI)
  show "send sample_mt_env (sample_call 1000) (sample_request None) listed_service = (Inr sent_result, sent_service)"
    by (rule sample_sent)
  show "map qm_receiver (ms_spool sent_service) = [''256711'']" by (rule sample_spool [THEN conjunct1])
  show "\<not> bv_allowed (evaluateBlocklist 1000 ''256711'' None (tt_blocklist (ms_tables listed_service)))" by code_simp
qed

text \<open>Failover and entitlement disagree: for a customer bound to a route's primary SMSC, resolution takes the
  route's fallback when the primary is down, and the entitlement check then refuses the send because the fallback
  is not one of the customer's SMSCs.\<close>

theorem failover_refused_for_bound_customer:
  "let d = resolveInClient code_unit_compare failover_tables sample_route_context
   in sr_smsc d = Some ''backup'' \<and> sr_fallbackUsed d
      \<and> assertRoutePermitted ''c'' ''backup'' (sr_route d) (tb_smscs failover_tables)
          ((empty_accounts [one_customer])\<lparr>ac_bindings := tb_bindings failover_tables\<rparr>)
        = Inl (RfNotEntitled (Some ''backup''))"
proof -
  have "sr_smsc (resolveInClient code_unit_compare failover_tables sample_route_context) = Some ''backup''"
    "sr_fallbackUsed (resolveInClient code_unit_compare failover_tables sample_route_context)"
    "sr_route (resolveInClient code_unit_compare failover_tables sample_route_context) = Some ''r''"
    by code_simp+
  moreover have "assertRoutePermitted ''c'' ''backup'' (Some ''r'') (tb_smscs failover_tables)
          ((empty_accounts [one_customer])\<lparr>ac_bindings := tb_bindings failover_tables\<rparr>) = Inl (RfNotEntitled (Some ''backup''))"
    by (simp add: assertRoutePermitted_def failover_tables_def empty_accounts_def sample_smsc_def truthy_def Let_def)
  ultimately show ?thesis by (simp add: Let_def)
qed

subsection \<open>Witnesses\<close>

definition listed_request :: mt_request where
  "listed_request = (sample_request None)\<lparr>mq_receiver := ''256711''\<rparr>"

theorem refused_send_leaves_no_trace_witness:
  "\<exists>e svc. send sample_mt_env (sample_call 1000) listed_request listed_service = (Inl e, svc)
     \<and> length (tt_decisions (ms_tables svc)) \<le> 1 \<and> (ms_spool svc = [] \<or> e = RfCallback \<or> e = RfCommit)"
proof -
  have d: "nm_digits (normalizeMsisdn (me_country sample_mt_env) (Some (mq_receiver listed_request)) None) = Some ''256711''" by code_simp
  have k: "tt_dedupe (ms_tables listed_service) = []" "tt_decisions (ms_tables listed_service) = []" "ms_spool listed_service = []"
    "\<not> bv_allowed (evaluateBlocklist 1000 ''256711'' None (tt_blocklist (ms_tables listed_service)))" by code_simp+
  then have "\<not> acceptable sample_mt_env (sample_call 1000) listed_request listed_service ''256711''"
    by (simp add: acceptable_def sample_call_def listed_request_def sample_request_def Let_def)
  with send_passes [of sample_mt_env "sample_call 1000" listed_request listed_service] d obtain e svc where
    s: "send sample_mt_env (sample_call 1000) listed_request listed_service = (Inl e, svc)"
    by (cases "send sample_mt_env (sample_call 1000) listed_request listed_service") (auto simp: isl_def)
  from k have "\<forall>r \<in> set (tt_dedupe (ms_tables listed_service)). dk_first r \<noteq> None" by simp
  from refused_send_leaves_no_trace [OF s this] k s show ?thesis by (intro exI [of _ e] exI [of _ svc]) auto
qed

theorem accepted_send_passed_every_check_witness:
  "\<exists>r svc. send sample_mt_env (sample_call 1000) (sample_request None) listed_service = (Inr r, svc)
     \<and> (\<exists>s \<in> set (tt_smscs (ms_tables listed_service)). sw_engine s = mo_smsc r \<and> usable_smsc s)
     \<and> bv_allowed (evaluateBlocklist 1000 ''256700'' None (tt_blocklist (ms_tables listed_service)))"
proof (intro exI conjI)
  show "send sample_mt_env (sample_call 1000) (sample_request None) listed_service = (Inr sent_result, sent_service)"
    by (rule sample_sent)
  note a = accepted_send_passed_every_check [OF sample_sent, unfolded sample_digits]
  have q: "requested_smsc (sample_request None) = None" "mq_customerId (sample_request None) = None" "mc_now (sample_call 1000) = 1000"
    by (simp_all add: requested_smsc_def sample_request_def sample_call_def)
  from a show "\<exists>s \<in> set (tt_smscs (ms_tables listed_service)). sw_engine s = mo_smsc sent_result \<and> usable_smsc s" by (auto simp: q)
  from a show "bv_allowed (evaluateBlocklist 1000 ''256700'' None (tt_blocklist (ms_tables listed_service)))" by (auto simp: q)
qed

theorem accepted_send_is_recorded_witness:
  "\<exists>r svc. send sample_mt_env (sample_call 1000) (sample_request None) listed_service = (Inr r, svc)
     \<and> sent_effects sample_mt_env (sample_call 1000) (sample_request None) listed_service r svc ''256700''"
proof -
  have "decisions_ok (ms_tables listed_service)" using listed_books by (simp add: books_ok_def)
  from accepted_send_is_recorded [OF sample_sent this] sample_digits sample_sent show ?thesis by auto
qed

lemma sent_step: "mt_step sample_mt_env (MtSend (sample_call 1000) (sample_request None)) listed_service = Some sent_service"
  by (simp add: mt_step_def sample_sent)

theorem send_path_keeps_books_witness:
  "\<exists>svc. run_steps (mt_step sample_mt_env) [do_not_disturb, MtSend (sample_call 1000) (sample_request None)] sample_service = Some svc
     \<and> map qm_receiver (ms_spool svc) = [''256711''] \<and> refs_of (tt_decisions (ms_tables svc)) = tt_audit (ms_tables svc)"
proof -
  let ?es = "[do_not_disturb, MtSend (sample_call 1000) (sample_request None)]"
  have run: "run_steps (mt_step sample_mt_env) ?es sample_service = Some sent_service"
    using listed_run sent_step by (auto simp: bind_eq_Some_conv)
  have "list_all mt_ok ?es" by (simp add: mt_ok_def do_not_disturb_def)
  note b = send_path_keeps_books [OF run [unfolded sample_service_def] this, of "[]"]
  show ?thesis
  proof (intro exI conjI)
    show "run_steps (mt_step sample_mt_env) ?es sample_service = Some sent_service" by (rule run)
    show "map qm_receiver (ms_spool sent_service) = [''256711'']" using sample_spool by simp
    show "refs_of (tt_decisions (ms_tables sent_service)) = tt_audit (ms_tables sent_service)" using b by simp
  qed
qed



end
