(* ===== verification/ClientAddress.thy ===== *)
theory ClientAddress
  imports MoRouting
begin

section \<open>Client addresses: api-gateway/ip-allowlist.ts, security/client-ip.ts\<close>

text \<open>
  Who a caller is and whether its key may be used from there. A \<open>bigint\<close> of the code is an
  \<^typ>\<open>int\<close> under the same bit operations. The regular expressions are written as what they accept:
  each has one way to match, since the characters that end a group cannot occur in the next one.
\<close>

unbundle bit_operations_syntax

subsection \<open>Addresses as numbers\<close>

text \<open>\<open>\d{1,3}\<close>, a dotted quad of these, and \<open>[0-9a-fA-F]\<close>.\<close>

definition octet_text :: "string \<Rightarrow> bool" where
  "octet_text p \<longleftrightarrow> 1 \<le> length p \<and> length p \<le> 3 \<and> list_all is_digit p"

definition quad_shaped :: "string \<Rightarrow> bool" where
  "quad_shaped s \<longleftrightarrow> length (split_on (CHR ''.'') s) = 4 \<and> list_all octet_text (split_on (CHR ''.'') s)"

definition hextet_char :: "char \<Rightarrow> bool" where
  "hextet_char c \<longleftrightarrow> digit_num c < 16"

fun shift_octets :: "int \<Rightarrow> string list \<Rightarrow> int option" where
  "shift_octets r [] = Some r"
| "shift_octets r (part # parts) =
     (if \<not> octet_text part then None
      else if decimal_value part > 255 then None
      else shift_octets (push_bit 8 r OR int (decimal_value part)) parts)"

definition parseIpv4 :: "string \<Rightarrow> int option" where
  "parseIpv4 s =
     (let parts = split_on (CHR ''.'') s
      in if length parts \<noteq> 4 then None else shift_octets 0 parts)"

text \<open>\<open>n.toString(16)\<close>.\<close>

definition hex_char :: "nat \<Rightarrow> char" where
  "hex_char n = char_of (if n < 10 then 48 + n else 87 + n)"

fun show_hex :: "nat \<Rightarrow> string" where
  "show_hex n = (if n < 16 then [hex_char n] else show_hex (n div 16) @ [hex_char (n mod 16)])"

declare show_hex.simps [simp del]

text \<open>
  \<open>/(.*:)(quad)$/\<close>: the quad is what follows the last colon; the first group starts after the last
  line end before that colon, since \<open>.\<close> matches no line end and the match starts as early as it can.
\<close>

definition line_end :: "char \<Rightarrow> bool" where
  "line_end c \<longleftrightarrow> c = CHR 0x0A \<or> c = CHR 0x0D"

definition after_last :: "char \<Rightarrow> string \<Rightarrow> string" where
  "after_last c s = rev (takeWhile (\<lambda>x. x \<noteq> c) (rev s))"

definition before_last :: "char \<Rightarrow> string \<Rightarrow> string" where
  "before_last c s = rev (drop 1 (dropWhile (\<lambda>x. x \<noteq> c) (rev s)))"

definition v4_tail :: "string \<Rightarrow> (string \<times> string) option" where
  "v4_tail s =
     (if CHR '':'' \<in> set s \<and> quad_shaped (after_last (CHR '':'') s)
      then Some (rev (takeWhile (\<lambda>c. \<not> line_end c) (rev (before_last (CHR '':'') s))) @ '':'',
                 after_last (CHR '':'') s)
      else None)"

text \<open>The text after the quad, if there is one, became two groups; \<open>None\<close> when an octet exceeds 255.\<close>

definition expand_v4_tail :: "string \<Rightarrow> string option" where
  "expand_v4_tail s =
     (case v4_tail s of
        None \<Rightarrow> Some s
      | Some (start, tail) \<Rightarrow>
          (case parseIpv4 tail of
             None \<Rightarrow> None
           | Some v4 \<Rightarrow>
               let high = drop_bit 16 v4 AND 65535; low = v4 AND 65535
               in Some (start @ show_hex (nat high) @ '':'' @ show_hex (nat low))))"

text \<open>\<open>text.split('::')\<close>.\<close>

fun split_double :: "string \<Rightarrow> string list" where
  "split_double [] = [[]]"
| "split_double [a] = [[a]]"
| "split_double (a # b # s) =
     (if a = CHR '':'' \<and> b = CHR '':'' then [] # split_double s
      else (case split_double (b # s) of [] \<Rightarrow> [[a]] | y # ys \<Rightarrow> (a # y) # ys))"

definition hextet_value :: "string \<Rightarrow> nat" where
  "hextet_value s = foldl (\<lambda>a c. 16 * a + digit_num c) 0 s"

fun shift_groups :: "int \<Rightarrow> string list \<Rightarrow> int option" where
  "shift_groups r [] = Some r"
| "shift_groups r (g # gs) =
     (if \<not> (1 \<le> length g \<and> length g \<le> 4 \<and> list_all hextet_char g) then None
      else shift_groups (push_bit 16 r OR int (hextet_value g)) gs)"

definition ipv6_groups :: "string \<Rightarrow> string list option" where
  "ipv6_groups s =
     (let halves = split_double s
      in if length halves > 2 then None
         else
           let head = (if halves ! 0 \<noteq> [] then split_on (CHR '':'') (halves ! 0) else []);
               tail = (if length halves = 2 \<and> halves ! 1 \<noteq> [] then split_on (CHR '':'') (halves ! 1) else []);
               missing = 8 - (int (length head) + int (length tail))
           in if length halves = 1 \<and> length head \<noteq> 8 then None
              else if length halves \<noteq> 1 \<and> missing < 0 then None
              else
                let groups = (if length halves = 2 then head @ replicate (nat missing) ''0'' @ tail else head)
                in if length groups \<noteq> 8 then None else Some groups)"

definition parseIpv6 :: "string \<Rightarrow> int option" where
  "parseIpv6 s =
     (case expand_v4_tail s of
        None \<Rightarrow> None
      | Some t \<Rightarrow>
          if t = [] \<or> \<not> list_all (\<lambda>c. hextet_char c \<or> c = CHR '':'') t then None
          else Option.bind (ipv6_groups t) (shift_groups 0))"

record parsed_ip =
  ip_value :: int
  ip_bits :: nat

definition parseIp :: "string \<Rightarrow> parsed_ip option" where
  "parseIp s =
     (let trimmed = trim s
      in if trimmed = [] then None
         else if CHR '':'' \<in> set trimmed
         then map_option (\<lambda>v. \<lparr>ip_value = v, ip_bits = 128\<rparr>) (parseIpv6 trimmed)
         else map_option (\<lambda>v. \<lparr>ip_value = v, ip_bits = 32\<rparr>) (parseIpv4 trimmed))"

subsection \<open>Allowlist entries\<close>

definition matchesEntry :: "parsed_ip \<Rightarrow> string \<Rightarrow> bool" where
  "matchesEntry ip entry =
     (let trimmed = trim entry
      in if trimmed = [] then False
         else if CHR ''/'' \<notin> set trimmed
         then (case parseIp trimmed of
                 None \<Rightarrow> False
               | Some exact \<Rightarrow> ip_bits exact = ip_bits ip \<and> ip_value exact = ip_value ip)
         else
           let prefixText = drop 1 (dropWhile (\<lambda>c. c \<noteq> CHR ''/'') trimmed)
           in case parseIp (takeWhile (\<lambda>c. c \<noteq> CHR ''/'') trimmed) of
                None \<Rightarrow> False
              | Some network \<Rightarrow>
                  if ip_bits network \<noteq> ip_bits ip \<or> \<not> octet_text prefixText then False
                  else
                    let prefix = decimal_value prefixText
                    in if prefix > ip_bits ip then False
                       else if prefix = 0 then True
                       else
                         let mask = push_bit (ip_bits ip - prefix) (push_bit prefix 1 - 1)
                         in ip_value ip AND mask = ip_value network AND mask)"

definition isIpAllowed :: "string option \<Rightarrow> string list option \<Rightarrow> bool" where
  "isIpAllowed ip allowlist =
     (let entries = filter (\<lambda>e. e \<noteq> []) (map trim (coalesce allowlist []))
      in if entries = [] then True
         else if \<not> truthy ip then False
         else case parseIp (the ip) of
                None \<Rightarrow> False
              | Some parsed \<Rightarrow> list_ex (matchesEntry parsed) entries)"

subsection \<open>The client of a request\<close>

text \<open>The three rewritings of \<open>normalizeIp\<close>: \<open>/^\[(.+)\](?::\d+)?$/\<close>, \<open>/^::ffff:(quad)$/i\<close>, \<open>/^(quad):\d+$/\<close>.\<close>

definition port_text :: "string \<Rightarrow> bool" where
  "port_text s \<longleftrightarrow> (case s of [] \<Rightarrow> False | c # ds \<Rightarrow> c = CHR '':'' \<and> ds \<noteq> [] \<and> list_all is_digit ds)"

definition unbracket :: "string \<Rightarrow> string" where
  "unbracket t =
     (let inner = drop 1 (before_last (CHR '']'') t); rest = after_last (CHR '']'') t
      in if prefix ''['' t \<and> CHR '']'' \<in> set t \<and> inner \<noteq> [] \<and> \<not> list_ex line_end inner
            \<and> (rest = [] \<or> port_text rest)
         then inner else t)"

definition unmap :: "string \<Rightarrow> string" where
  "unmap t = (if lower (take 7 t) = ''::ffff:'' \<and> quad_shaped (drop 7 t) then drop 7 t else t)"

definition unport :: "string \<Rightarrow> string" where
  "unport t =
     (let host = takeWhile (\<lambda>c. c \<noteq> CHR '':'') t; rest = dropWhile (\<lambda>c. c \<noteq> CHR '':'') t
      in if quad_shaped host \<and> port_text rest then host else t)"

definition normalizeIp :: "string \<Rightarrow> string" where
  "normalizeIp s =
     (let text = trim s
      in if text = [] then [] else unport (unmap (unbracket text)))"

record proxy_config =
  px_addresses :: "string list"
  px_count :: int

definition trustedProxyConfig :: "string option \<Rightarrow> string option \<Rightarrow> proxy_config" where
  "trustedProxyConfig proxies rawCount =
     (let addresses = filter (\<lambda>e. e \<noteq> []) (map trim (split_on (CHR '','') (coalesce proxies [])));
          parsed = (if rawCount = None \<or> trim (the rawCount) = [] then Fin 1 else string_to_number (the rawCount))
      in \<lparr>px_addresses = addresses,
          px_count = (case integer_value parsed of Some n \<Rightarrow> if n \<ge> 0 then n else 1 | None \<Rightarrow> 1)\<rparr>)"

datatype trust_setting = TrustAddresses "string list" | TrustHops int

definition expressTrustProxySetting :: "proxy_config \<Rightarrow> trust_setting" where
  "expressTrustProxySetting config =
     (if px_addresses config \<noteq> [] then TrustAddresses (px_addresses config) else TrustHops (px_count config))"

datatype header_value = HeaderAbsent | HeaderText string | HeaderList "string list"

record client_request =
  cr_forwarded :: header_value
  cr_remote :: "string option"
  cr_ip :: "string option"

definition hopChain :: "client_request \<Rightarrow> string list" where
  "hopChain request =
     (let raw = (case cr_forwarded request of
                   HeaderList vs \<Rightarrow> join '','' vs | HeaderText v \<Rightarrow> v | HeaderAbsent \<Rightarrow> []);
          forwarded = filter (\<lambda>h. h \<noteq> []) (map normalizeIp (split_on (CHR '','') raw));
          peer = normalizeIp (coalesce (cr_remote request) (coalesce (cr_ip request) []))
      in if peer \<noteq> [] then forwarded @ [peer] else forwarded)"

text \<open>The walk to the left over our own proxies; it stops at the first hop.\<close>

primrec skip_trusted :: "string list \<Rightarrow> string list \<Rightarrow> nat \<Rightarrow> nat" where
  "skip_trusted addresses chain 0 = 0"
| "skip_trusted addresses chain (Suc i) =
     (if isIpAllowed (Some (chain ! Suc i)) (Some addresses) then skip_trusted addresses chain i else Suc i)"

definition resolveClientIp :: "client_request \<Rightarrow> proxy_config \<Rightarrow> string option" where
  "resolveClientIp request config =
     (let chain = hopChain request
      in if chain = [] then None
         else if px_addresses config \<noteq> []
         then Some (chain ! skip_trusted (px_addresses config) chain (length chain - 1))
         else Some (chain ! nat (max 0 (int (length chain) - 1 - px_count config))))"

subsection \<open>The bit operations as arithmetic\<close>

lemma push_or_add: "0 \<le> x \<Longrightarrow> x < 2 ^ n \<Longrightarrow> push_bit n r OR x = r * 2 ^ n + x" for r x :: int
proof -
  assume "0 \<le> x" "x < 2 ^ n"
  then have x: "take_bit n x = x" by (simp add: take_bit_int_eq_self)
  have "push_bit n r AND x = 0"
    by (rule bit_eqI, subst x [symmetric]) (auto simp: bit_simps)
  then have "push_bit n r OR x = push_bit n r + x" by (simp add: disjunctive_add_eq_or)
  then show ?thesis by (simp add: push_bit_eq_mult)
qed

lemma and_high_mask:
  fixes a :: int
  assumes "0 \<le> a" "a < 2 ^ (k + p)"
  shows "a AND push_bit k (push_bit p 1 - 1) = (a div 2 ^ k) * 2 ^ k"
proof -
  have t: "take_bit (k + p) a = a" using assms by (simp add: take_bit_int_eq_self)
  have "a AND push_bit k (mask p) = push_bit k (drop_bit k a)"
    by (rule bit_eqI, subst t [symmetric], subst (2) t [symmetric]) (auto simp: bit_simps)
  then show ?thesis by (simp add: mask_eq_exp_minus_1 push_bit_eq_mult drop_bit_eq_div)
qed

lemma same_high_bits:
  fixes a b :: int
  assumes "0 \<le> a" "a < 2 ^ (k + p)" "0 \<le> b" "b < 2 ^ (k + p)"
  shows "a AND push_bit k (push_bit p 1 - 1) = b AND push_bit k (push_bit p 1 - 1)
    \<longleftrightarrow> b - b mod 2 ^ k \<le> a \<and> a < b - b mod 2 ^ k + 2 ^ k"
proof -
  have s: "(0::int) < 2 ^ k" by simp
  have b: "b - b mod 2 ^ k = b div 2 ^ k * 2 ^ k" by (simp add: minus_mod_eq_div_mult)
  have "a div 2 ^ k = b div 2 ^ k \<longleftrightarrow> b div 2 ^ k * 2 ^ k \<le> a \<and> a < b div 2 ^ k * 2 ^ k + 2 ^ k"
  proof
    assume e: "a div 2 ^ k = b div 2 ^ k"
    have "a = a div 2 ^ k * 2 ^ k + a mod 2 ^ k" by (simp only: div_mult_mod_eq)
    then show "b div 2 ^ k * 2 ^ k \<le> a \<and> a < b div 2 ^ k * 2 ^ k + 2 ^ k"
      using pos_mod_bound [OF s, of a] pos_mod_sign [OF s, of a] unfolding e by linarith
  next
    assume h: "b div 2 ^ k * 2 ^ k \<le> a \<and> a < b div 2 ^ k * 2 ^ k + 2 ^ k"
    show "a div 2 ^ k = b div 2 ^ k"
      by (rule int_div_pos_eq [where r = "a - b div 2 ^ k * 2 ^ k"]) (use h in \<open>simp_all add: mult.commute\<close>)
  qed
  then show ?thesis unfolding b and_high_mask [OF assms(1,2)] and_high_mask [OF assms(3,4)] by simp
qed

subsection \<open>What the parsers accept\<close>

lemma digit_num_digit: "is_digit c \<Longrightarrow> digit_num c < 10"
  by (auto simp: is_digit_def digit_num_def Let_def)

lemma shift_octets_bounds:
  "shift_octets r parts = Some v \<Longrightarrow> 0 \<le> r \<Longrightarrow> r < 2 ^ k \<Longrightarrow> 0 \<le> v \<and> v < 2 ^ (k + 8 * length parts)"
proof (induction parts arbitrary: r k)
  case (Cons part parts)
  then have d: "decimal_value part \<le> 255" and t: "shift_octets (push_bit 8 r OR int (decimal_value part)) parts = Some v"
    by (auto split: if_splits)
  from d have e: "push_bit 8 r OR int (decimal_value part) = r * 256 + int (decimal_value part)"
    using push_or_add [of "int (decimal_value part)" 8 r] by simp
  have "r * 256 + int (decimal_value part) < 2 ^ (k + 8)"
    using Cons.prems(3) d by (simp add: power_add)
  with Cons.IH [OF t, of "k + 8"] e Cons.prems(2) show ?case by (simp add: add.assoc)
qed simp

lemma hextet_value_bound: "list_all hextet_char s \<Longrightarrow> hextet_value s < 16 ^ length s"
proof (induction s rule: rev_induct)
  case (snoc c s)
  then have "hextet_value s < 16 ^ length s" "digit_num c < 16" by (simp_all add: hextet_char_def)
  then show ?case by (simp add: hextet_value_def)
qed (simp add: hextet_value_def)

lemma group_bound:
  assumes "length g \<le> 4" "list_all hextet_char g" shows "hextet_value g < 65536"
proof -
  have "hextet_value g < 16 ^ length g" using assms(2) by (rule hextet_value_bound)
  also have "\<dots> \<le> 16 ^ 4" using assms(1) by (intro power_increasing) simp_all
  finally show ?thesis by simp
qed

lemma shift_groups_bounds:
  "shift_groups r gs = Some v \<Longrightarrow> 0 \<le> r \<Longrightarrow> r < 2 ^ k \<Longrightarrow> 0 \<le> v \<and> v < 2 ^ (k + 16 * length gs)"
proof (induction gs arbitrary: r k)
  case (Cons g gs)
  then have d: "hextet_value g < 65536" and t: "shift_groups (push_bit 16 r OR int (hextet_value g)) gs = Some v"
    by (auto split: if_splits intro: group_bound)
  from d have e: "push_bit 16 r OR int (hextet_value g) = r * 65536 + int (hextet_value g)"
    using push_or_add [of "int (hextet_value g)" 16 r] by simp
  have "r * 65536 + int (hextet_value g) < 2 ^ (k + 16)"
    using Cons.prems(3) d by (simp add: power_add)
  with Cons.IH [OF t, of "k + 16"] e Cons.prems(2) show ?case by (simp add: add.assoc)
qed simp

lemma parseIp_bounds: "parseIp s = Some ip \<Longrightarrow> ip_bits ip \<in> {32, 128} \<and> 0 \<le> ip_value ip \<and> ip_value ip < 2 ^ ip_bits ip"
  using shift_octets_bounds [of 0 _ _ 0] shift_groups_bounds [of 0 _ _ 0]
  by (fastforce simp: parseIp_def parseIpv4_def parseIpv6_def ipv6_groups_def Let_def bind_eq_Some_conv
        split: if_splits option.splits)

subsection \<open>Allowlists as sets of addresses\<close>

text \<open>
  A block is an address with a prefix length: the aligned range of the addresses that share its
  prefix. An entry reads as a block of one address, or as the block written with a slash.
\<close>

definition in_block :: "parsed_ip \<Rightarrow> parsed_ip \<Rightarrow> nat \<Rightarrow> bool" where
  "in_block ip net p \<longleftrightarrow>
     ip_bits ip = ip_bits net \<and>
     (let size = 2 ^ (ip_bits net - p); base = ip_value net - ip_value net mod size
      in base \<le> ip_value ip \<and> ip_value ip < base + size)"

definition entry_block :: "string \<Rightarrow> (parsed_ip \<times> nat) option" where
  "entry_block e =
     (if CHR ''/'' \<notin> set e then map_option (\<lambda>a. (a, ip_bits a)) (parseIp e)
      else
        let p = drop 1 (dropWhile (\<lambda>c. c \<noteq> CHR ''/'') e)
        in case parseIp (takeWhile (\<lambda>c. c \<noteq> CHR ''/'') e) of
             None \<Rightarrow> None
           | Some net \<Rightarrow> if octet_text p \<and> decimal_value p \<le> ip_bits net then Some (net, decimal_value p) else None)"

lemma parseIp_Nil [simp]: "parseIp [] = None"
  by (simp add: parseIp_def)

lemma in_block_mask:
  assumes "parseIp a = Some ip" "parseIp b = Some net" "p \<le> ip_bits ip" "ip_bits net = ip_bits ip"
  shows "ip_value ip AND push_bit (ip_bits ip - p) (push_bit p 1 - 1)
         = ip_value net AND push_bit (ip_bits ip - p) (push_bit p 1 - 1) \<longleftrightarrow> in_block ip net p"
  using same_high_bits [of "ip_value ip" "ip_bits ip - p" p "ip_value net"] parseIp_bounds [OF assms(1)]
    parseIp_bounds [OF assms(2)] assms(3,4)
  by (simp add: in_block_def Let_def)

lemma in_block_all: "parseIp a = Some ip \<Longrightarrow> parseIp b = Some net \<Longrightarrow> ip_bits net = ip_bits ip \<Longrightarrow> in_block ip net 0"
  using parseIp_bounds [of a ip] parseIp_bounds [of b net] by (simp add: in_block_def Let_def)

lemma in_block_host: "in_block ip net (ip_bits net) \<longleftrightarrow> ip_bits ip = ip_bits net \<and> ip_value ip = ip_value net"
  by (auto simp: in_block_def Let_def)

lemma matchesEntry_block:
  assumes "parseIp a = Some ip"
  shows "matchesEntry ip e \<longleftrightarrow> (\<exists>net p. entry_block (trim e) = Some (net, p) \<and> in_block ip net p)"
proof (cases "CHR ''/'' \<in> set (trim e)")
  case False
  then show ?thesis
    by (auto simp: matchesEntry_def entry_block_def Let_def in_block_host split: option.splits)
next
  case True
  then have ne: "trim e \<noteq> []" by auto
  show ?thesis
  proof (cases "parseIp (takeWhile (\<lambda>c. c \<noteq> CHR ''/'') (trim e))")
    case None
    with True ne show ?thesis by (simp add: matchesEntry_def entry_block_def Let_def)
  next
    case (Some net)
    note m = in_block_mask [OF assms Some] and z = in_block_all [OF assms Some]
    have fam: "in_block ip net p \<Longrightarrow> ip_bits net = ip_bits ip" for p by (simp add: in_block_def)
    show ?thesis
      using True ne Some z fam m [symmetric]
      by (auto simp: matchesEntry_def entry_block_def Let_def split: if_splits)
  qed
qed

lemma isIpAllowed_blocks:
  "isIpAllowed ip allowlist \<longleftrightarrow>
     (\<forall>e \<in> set (coalesce allowlist []). trim e = [])
     \<or> (\<exists>a addr. ip = Some a \<and> parseIp a = Some addr \<and>
         (\<exists>e \<in> set (coalesce allowlist []). \<exists>net p. entry_block (trim e) = Some (net, p) \<and> in_block addr net p))"
proof -
  let ?entries = "filter (\<lambda>e. e \<noteq> []) (map trim (coalesce allowlist []))"
  have blank: "?entries = [] \<longleftrightarrow> (\<forall>e \<in> set (coalesce allowlist []). trim e = [])"
    by (auto simp: filter_empty_conv)
  have m: "list_ex (matchesEntry addr) ?entries \<longleftrightarrow>
      (\<exists>e \<in> set (coalesce allowlist []). \<exists>net p. entry_block (trim e) = Some (net, p) \<and> in_block addr net p)"
    if "parseIp a = Some addr" for a addr
  proof -
    have "trim e \<noteq> []" if "entry_block (trim e) = Some x" for e x
      using that by (auto simp: entry_block_def)
    then show ?thesis
      by (auto simp: list_ex_iff matchesEntry_block [OF that])
  qed
  show ?thesis
    unfolding blank [symmetric]
    using m by (cases ip) (auto simp: isIpAllowed_def Let_def split: option.splits)
qed

subsection \<open>Spellings of an address\<close>


definition hex_groups :: "nat list \<Rightarrow> string" where
  "hex_groups gs = join '':'' (map show_hex gs)"

lemma quad_chars: "x \<in> set (quad a b c d) \<Longrightarrow> is_digit x \<or> x = CHR ''.''"
  by (auto simp: quad_text dest: show_nat_chars)

lemma quad_lacks:
  "CHR '':'' \<notin> set (quad a b c d)" "CHR '']'' \<notin> set (quad a b c d)" "\<not> list_ex line_end (quad a b c d)"
  "x \<in> set (quad a b c d) \<Longrightarrow> \<not> is_space x"
  by (auto dest!: quad_chars simp: list_ex_iff line_end_def is_digit_def is_space_def char_code_def)

lemma quad_not_Nil [simp]: "quad a b c d \<noteq> []"
  by (simp add: quad_text)

lemma trim_quad [simp]: "trim (quad a b c d) = quad a b c d"
  by (rule trim_no_space) (rule quad_lacks(4))

lemma octet_text_show: "n < 256 \<Longrightarrow> octet_text (show_nat n)"
  using length_show_nat [of n 3] show_nat_digits [of n] by (simp add: octet_text_def Suc_le_eq)

lemma split_quad: "split_on (CHR ''.'') (quad a b c d) = map show_nat [a, b, c, d]"
proof -
  have "CHR ''.'' \<notin> set (show_nat n)" for n using show_nat_chars char_classes(1) by blast
  then show ?thesis unfolding quad_def dotted_def by (intro split_on_join) auto
qed


lemma shift_octets_show:
  "(\<And>x. x \<in> set bs \<Longrightarrow> x < 256) \<Longrightarrow> shift_octets (int r) (map show_nat bs) = Some (int (foldl (\<lambda>v b. 256 * v + b) r bs))"
proof (induction bs arbitrary: r)
  case (Cons b bs)
  have "push_bit 8 (int r) OR int b = int (256 * r + b)"
    using push_or_add [of "int b" 8 "int r"] Cons.prems [of b] by simp
  moreover have "b \<le> 255" using Cons.prems [of b] by simp
  ultimately show ?case using Cons.IH [of "256 * r + b"] Cons.prems
    by (simp add: octet_text_show del: of_nat_add of_nat_mult)
qed simp

lemma parseIpv4_quad:
  assumes "a < 256" "b < 256" "c < 256" "d < 256"
  shows "parseIpv4 (quad a b c d) = Some (int (ipv4_value [a, b, c, d]))"
proof -
  have "shift_octets (int 0) (map show_nat [a, b, c, d]) = Some (int (ipv4_value [a, b, c, d]))"
    unfolding ipv4_value_def by (rule shift_octets_show) (use assms in auto)
  then show ?thesis unfolding parseIpv4_def split_quad Let_def by simp
qed

lemma hex_char_num: "n < 16 \<Longrightarrow> digit_num (hex_char n) = n"
  by (auto simp: digit_num_def hex_char_def char_code_char_of Let_def)

lemma hextet_char_char: "n < 16 \<Longrightarrow> hextet_char (hex_char n)"
  by (simp add: hextet_char_def hex_char_num)

lemma show_hex_not_Nil [simp]: "show_hex n \<noteq> []"
  by (subst show_hex.simps) simp

lemma show_hex_hex: "list_all hextet_char (show_hex n)"
proof (induction n rule: show_hex.induct)
  case (1 n)
  then show ?case by (subst show_hex.simps) (simp add: hextet_char_char)
qed

lemma hextet_value_show [simp]: "hextet_value (show_hex n) = n"
proof (induction n rule: show_hex.induct)
  case (1 n)
  then show ?case by (subst show_hex.simps) (simp add: hextet_value_def hex_char_num)
qed


lemma hex_not_colon: "hextet_char x \<Longrightarrow> x \<noteq> CHR '':'' \<and> x \<noteq> CHR ''.'' \<and> \<not> is_space x"
  by (auto simp: hextet_char_def digit_num_def char_code_def is_space_def Let_def split: if_splits)

lemma show_hex_chars: "x \<in> set (show_hex n) \<Longrightarrow> hextet_char x"
  using show_hex_hex [of n] by (simp add: list_all_iff)



lemma split_double_not_Nil [simp]: "split_double s \<noteq> []"
  by (induction s rule: split_double.induct) (auto split: list.splits)



lemma split_on_hex_groups: "gs \<noteq> [] \<Longrightarrow> split_on (CHR '':'') (hex_groups gs) = map show_hex gs"
  unfolding hex_groups_def by (intro split_on_join) (auto dest: show_hex_chars hex_not_colon)

lemma hex_groups_Nil_iff [simp]: "hex_groups gs = [] \<longleftrightarrow> gs = []"
  unfolding hex_groups_def by (induction gs rule: induct_list012) simp_all


lemma hex_group_halves: "(if hex_groups gs \<noteq> [] then split_on (CHR '':'') (hex_groups gs) else []) = map show_hex gs"
  by (simp add: split_on_hex_groups)









lemma parseIp_quad:
  assumes "a < 256" "b < 256" "c < 256" "d < 256"
  shows "parseIp (quad a b c d) = Some \<lparr>ip_value = int (ipv4_value [a, b, c, d]), ip_bits = 32\<rparr>"
  using quad_lacks(1) parseIpv4_quad [OF assms] by (simp add: parseIp_def)




lemma trim_Cons_space: "is_space x \<Longrightarrow> trim (x # s) = trim s"
  by (simp add: trim_def trim_left_def)

lemma normalizeIp_space: "normalizeIp (CHR '' '' # s) = normalizeIp s"
proof -
  have "is_space (CHR '' '')" by code_simp
  then show ?thesis by (simp add: normalizeIp_def trim_Cons_space)
qed







subsection \<open>Hops the caller wrote\<close>

lemma split_on_two: "split_on c (s @ c # t) = split_on c s @ split_on c t"
proof (induction s)
  case (Cons x s)
  then show ?case by (cases "split_on c s") auto
qed simp

text \<open>The hops of a header value, as the chain lists them.\<close>

definition header_hops :: "string \<Rightarrow> string list" where
  "header_hops v = filter (\<lambda>h. h \<noteq> []) (map normalizeIp (split_on (CHR '','') v))"

lemma header_hops_snoc:
  "CHR '','' \<notin> set h \<Longrightarrow> normalizeIp h \<noteq> [] \<Longrightarrow> header_hops (v @ CHR '','' # CHR '' '' # h) = header_hops v @ [normalizeIp h]"
proof -
  assume "CHR '','' \<notin> set h" "normalizeIp h \<noteq> []"
  moreover from this have "split_on (CHR '','') (CHR '' '' # h) = [CHR '' '' # h]" by (intro split_on_no_sep) simp
  ultimately show ?thesis
    using split_on_two [of "CHR '','' :: char" v "CHR '' '' # h"] by (simp add: header_hops_def normalizeIp_space)
qed

text \<open>What a proxy does with the header: it appends the address of the peer it saw.\<close>

primrec forwarded_by :: "string list \<Rightarrow> string \<Rightarrow> string" where
  "forwarded_by [] v = v"
| "forwarded_by (h # hs) v = forwarded_by hs (v @ '', '' @ h)"

lemma header_hops_forwarded:
  "(\<And>h. h \<in> set hs \<Longrightarrow> CHR '','' \<notin> set h \<and> normalizeIp h \<noteq> []) \<Longrightarrow>
   header_hops (forwarded_by hs v) = header_hops v @ map normalizeIp hs"
  by (induction hs arbitrary: v) (simp_all add: header_hops_snoc)

definition via :: "string \<Rightarrow> string \<Rightarrow> client_request" where
  "via v peer = \<lparr>cr_forwarded = HeaderText v, cr_remote = Some peer, cr_ip = None\<rparr>"

lemma hopChain_via: "normalizeIp peer \<noteq> [] \<Longrightarrow> hopChain (via v peer) = header_hops v @ [normalizeIp peer]"
  by (simp add: hopChain_def via_def header_hops_def Let_def)

lemma skip_trusted_run:
  "(\<And>i. k < i \<Longrightarrow> i \<le> n \<Longrightarrow> isIpAllowed (Some (chain ! i)) (Some addresses)) \<Longrightarrow>
   \<not> isIpAllowed (Some (chain ! k)) (Some addresses) \<or> k = 0 \<Longrightarrow> k \<le> n \<Longrightarrow> skip_trusted addresses chain n = k"
proof (induction n)
  case (Suc n)
  then show ?case by (cases "k = Suc n"; cases k) auto
qed simp

lemma resolve_by_count:
  assumes "normalizeIp peer \<noteq> []" "\<And>h. h \<in> set (client # proxies) \<Longrightarrow> CHR '','' \<notin> set h \<and> normalizeIp h \<noteq> []"
  shows "resolveClientIp (via (forwarded_by (client # proxies) v) peer)
           \<lparr>px_addresses = [], px_count = int (length proxies) + 1\<rparr> = Some (normalizeIp client)"
proof -
  have h: "header_hops (forwarded_by (client # proxies) v) = header_hops v @ map normalizeIp (client # proxies)"
    by (rule header_hops_forwarded) (rule assms(2))
  have c: "hopChain (via (forwarded_by (client # proxies) v) peer)
      = header_hops v @ normalizeIp client # map normalizeIp proxies @ [normalizeIp peer]"
    unfolding hopChain_via [OF assms(1)] h by simp
  show ?thesis unfolding resolveClientIp_def c Let_def by (simp add: nth_append)
qed

lemma resolve_by_address:
  assumes "normalizeIp peer \<noteq> []" "\<And>h. h \<in> set (client # proxies) \<Longrightarrow> CHR '','' \<notin> set h \<and> normalizeIp h \<noteq> []"
    and "addresses \<noteq> []" "\<not> isIpAllowed (Some (normalizeIp client)) (Some addresses)"
    and "\<And>h. h \<in> set (peer # proxies) \<Longrightarrow> isIpAllowed (Some (normalizeIp h)) (Some addresses)"
  shows "resolveClientIp (via (forwarded_by (client # proxies) v) peer) \<lparr>px_addresses = addresses, px_count = n\<rparr>
    = Some (normalizeIp client)"
proof -
  let ?mine = "map normalizeIp proxies @ [normalizeIp peer]"
  let ?chain = "header_hops v @ normalizeIp client # ?mine"
  have h: "header_hops (forwarded_by (client # proxies) v) = header_hops v @ map normalizeIp (client # proxies)"
    by (rule header_hops_forwarded) (rule assms(2))
  have c: "hopChain (via (forwarded_by (client # proxies) v) peer) = ?chain"
    unfolding hopChain_via [OF assms(1)] h by simp
  have "skip_trusted addresses ?chain (length ?chain - 1) = length (header_hops v)"
  proof (rule skip_trusted_run)
    fix i assume i: "length (header_hops v) < i" "i \<le> length ?chain - 1"
    then obtain j where j: "i = length (header_hops v) + Suc j" "j < length ?mine" by (auto dest!: less_imp_Suc_add)
    then have "?chain ! i = ?mine ! j" by (simp add: nth_append)
    moreover have "?mine ! j \<in> normalizeIp ` set (peer # proxies)" using nth_mem [OF j(2)] by auto
    ultimately show "isIpAllowed (Some (?chain ! i)) (Some addresses)" using assms(5) by auto
  qed (use assms(4) in simp_all)
  with assms(3) show ?thesis unfolding resolveClientIp_def c Let_def by simp
qed

lemma resolve_direct:
  assumes "normalizeIp peer \<noteq> []" "addresses \<noteq> []" "\<not> isIpAllowed (Some (normalizeIp peer)) (Some addresses)"
  shows "resolveClientIp (via v peer) \<lparr>px_addresses = addresses, px_count = n\<rparr> = Some (normalizeIp peer)"
proof -
  have "skip_trusted addresses (header_hops v @ [normalizeIp peer]) (length (header_hops v)) = length (header_hops v)"
    by (rule skip_trusted_run) (use assms(3) in simp_all)
  then show ?thesis
    unfolding resolveClientIp_def hopChain_via [OF assms(1)] Let_def using assms(2) by simp
qed

subsection \<open>Properties\<close>

text \<open>C21. A key's allowlist is the union of the address ranges its entries denote: a caller is admitted exactly
  when no entry is written, or its address parses and lies in the aligned range of a readable entry of its own
  family; entries nobody can read admit no one.\<close>

theorem isIpAllowed_decides:
  "isIpAllowed ip allowlist \<longleftrightarrow>
     (\<forall>e \<in> set (coalesce allowlist []). trim e = [])
     \<or> (\<exists>a addr. ip = Some a \<and> parseIp a = Some addr \<and>
         (\<exists>e \<in> set (coalesce allowlist []). \<exists>net p. entry_block (trim e) = Some (net, p) \<and> in_block addr net p))"
  by (rule isIpAllowed_blocks)

theorem isIpAllowed_decides_witness:
  "isIpAllowed (Some (quad 10 1 2 3)) (Some [''garbage'', ''10.0.0.0/8'']) \<and> \<not> isIpAllowed (Some ''11.0.0.1'') (Some [''10.0.0.0/8''])"
proof -
  have e: "entry_block (trim ''10.0.0.0/8'') = Some (\<lparr>ip_value = 167772160, ip_bits = 32\<rparr>, 8)"
    "\<exists>a. parseIp (quad 10 1 2 3) = Some a \<and> in_block a \<lparr>ip_value = 167772160, ip_bits = 32\<rparr> 8"
    by (code_simp, simp add: parseIp_quad ipv4_value_def in_block_def)
  then have "isIpAllowed (Some (quad 10 1 2 3)) (Some [''garbage'', ''10.0.0.0/8''])"
    unfolding isIpAllowed_decides by auto
  moreover have "\<not> isIpAllowed (Some ''11.0.0.1'') (Some [''10.0.0.0/8''])" by code_simp
  ultimately show ?thesis by simp
qed



text \<open>C18. The client address cannot be forged through the forwarding header. Whatever the caller wrote there, after
  our proxies appended the peers they saw the resolved address is the peer of the outermost proxy: by counting
  when the count is the number of hops appended, and by address when the proxies are trusted and the caller is
  not; and by address a caller that reaches the application directly is its own socket peer.\<close>

theorem forged_hops_ignored:
  assumes "normalizeIp peer \<noteq> []" "\<And>h. h \<in> set (client # proxies) \<Longrightarrow> CHR '','' \<notin> set h \<and> normalizeIp h \<noteq> []"
    and "addresses \<noteq> []" "\<not> isIpAllowed (Some (normalizeIp client)) (Some addresses)"
    and "\<And>h. h \<in> set (peer # proxies) \<Longrightarrow> isIpAllowed (Some (normalizeIp h)) (Some addresses)"
  shows "resolveClientIp (via (forwarded_by (client # proxies) forged) peer)
           \<lparr>px_addresses = [], px_count = int (length proxies) + 1\<rparr> = Some (normalizeIp client)
    \<and> resolveClientIp (via (forwarded_by (client # proxies) forged) peer)
           \<lparr>px_addresses = addresses, px_count = n\<rparr> = Some (normalizeIp client)
    \<and> (normalizeIp client \<noteq> [] \<longrightarrow>
        resolveClientIp (via forged client) \<lparr>px_addresses = addresses, px_count = n\<rparr> = Some (normalizeIp client))"
  using resolve_by_count [OF assms(1,2)] resolve_by_address [OF assms] resolve_direct [OF _ assms(3,4)]
  by simp

theorem forged_hops_ignored_witness:
  "resolveClientIp (via ''10.0.0.1, 10.0.0.2, 203.0.113.9'' ''172.18.0.3'')
     \<lparr>px_addresses = [''172.18.0.0/16''], px_count = 1\<rparr> = Some ''203.0.113.9''"
proof -
  have "normalizeIp ''203.0.113.9'' = ''203.0.113.9''" "normalizeIp ''172.18.0.3'' = ''172.18.0.3''"
    "\<not> isIpAllowed (Some ''203.0.113.9'') (Some [''172.18.0.0/16''])"
    "isIpAllowed (Some ''172.18.0.3'') (Some [''172.18.0.0/16''])"
    by code_simp+
  then show ?thesis
    using forged_hops_ignored [of "''172.18.0.3''" "''203.0.113.9''" "[]" "[''172.18.0.0/16'']" "''10.0.0.1, 10.0.0.2''" 1]
    by simp
qed

text \<open>Counting hops is only as good as the count: a caller that reaches the application without passing the
  proxy is whoever it says it is, as the code's own note on the default says.\<close>

theorem direct_caller_forges_hop:
  assumes "normalizeIp peer \<noteq> []" "CHR '','' \<notin> set h" "normalizeIp h \<noteq> []"
  shows "resolveClientIp (via h peer) \<lparr>px_addresses = [], px_count = 1\<rparr> = Some (normalizeIp h)"
  using assms by (simp add: resolveClientIp_def hopChain_via header_hops_def split_on_no_sep Let_def)

end
