(* ===== verification/Idempotency.thy ===== *)
theory Idempotency
  imports JsValue StepSystem
begin

section \<open>Idempotent requests: platform/idempotency.service.ts, idempotency.interceptor.ts\<close>

text \<open>
  The record a mutating request leaves under its Idempotency-Key, and the interceptor that runs its
  handler at most once per key. A response is a value of type \<open>'b\<close>; \<open>json\<close> is what becomes of it in
  a jsonb column. The digest of a request is an argument. \<open>appNow\<close> is the clock of the process and
  \<open>dbNow\<close> that of the database, both in milliseconds. A transaction is one step; row-level security
  shows it the rows of its tenant.
\<close>

subsection \<open>Records\<close>

datatype idem_status = IdProcessing | IdCompleted | IdFailed

datatype idem_error = DifferentBody | StillProcessing | UniqueViolation

record 'b idem_row =
  ik_id :: nat
  ik_tenant :: string
  ik_key :: string
  ik_method :: string
  ik_route :: string
  ik_hash :: string
  ik_status :: idem_status
  ik_response_status :: "int option"
  ik_body :: "'b option"
  ik_created_by :: string
  ik_created :: int
  ik_updated :: int

record actor =
  ac_tenant :: string
  ac_user :: string

type_synonym idem_key = "string \<times> string \<times> string \<times> string"

definition row_key :: "('b, 'z) idem_row_scheme \<Rightarrow> idem_key" where
  "row_key r = (ik_tenant r, ik_key r, ik_method r, ik_route r)"

definition staleMs :: "string option \<Rightarrow> rat" where
  "staleMs env =
     (case env of
        None \<Rightarrow> 60000
      | Some s \<Rightarrow> (case string_to_number s of Fin v \<Rightarrow> if v > 0 then v else 60000 | _ \<Rightarrow> 60000))"

text \<open>\<open>toUpperCase\<close> on a method token, which is ASCII.\<close>

definition upper :: "string \<Rightarrow> string" where
  "upper s = map (\<lambda>c. if 97 \<le> char_code c \<and> char_code c \<le> 122 then char_of (char_code c - 32) else c) s"

definition hashRequest :: "(string \<Rightarrow> string \<Rightarrow> 'q option \<Rightarrow> string) \<Rightarrow> string \<Rightarrow> string \<Rightarrow> 'q option \<Rightarrow> string" where
  "hashRequest digest httpMethod route body = digest (upper httpMethod) route body"

subsection \<open>The service\<close>

text \<open>The result of \<open>begin\<close>: the record it returns and whether it is a replay.\<close>

type_synonym 'b begun = "'b idem_row \<times> bool"

definition reclaimed :: "actor \<Rightarrow> string \<Rightarrow> int \<Rightarrow> 'b idem_row \<Rightarrow> 'b idem_row" where
  "reclaimed a requestHash dbNow r =
     r\<lparr>ik_status := IdProcessing, ik_hash := requestHash, ik_response_status := None, ik_body := None,
       ik_created_by := ac_user a, ik_created := dbNow, ik_updated := dbNow\<rparr>"

definition reclaimable :: "string option \<Rightarrow> int \<Rightarrow> 'b idem_row \<Rightarrow> bool" where
  "reclaimable env appNow r \<longleftrightarrow> ik_status r = IdFailed \<or> of_int (appNow - ik_updated r) \<ge> staleMs env"

definition fresh_record :: "actor \<Rightarrow> nat \<Rightarrow> string \<Rightarrow> string \<Rightarrow> string \<Rightarrow> string \<Rightarrow> int \<Rightarrow> 'b idem_row" where
  "fresh_record a i key httpMethod route requestHash dbNow =
     \<lparr>ik_id = i, ik_tenant = ac_tenant a, ik_key = key, ik_method = httpMethod, ik_route = route, ik_hash = requestHash,
      ik_status = IdProcessing, ik_response_status = None, ik_body = None, ik_created_by = ac_user a,
      ik_created = dbNow, ik_updated = dbNow\<rparr>"

text \<open>The insert of a request that saw no row; another may have inserted one since.\<close>

definition insert_record ::
    "actor \<Rightarrow> nat \<Rightarrow> string \<Rightarrow> string \<Rightarrow> string \<Rightarrow> string \<Rightarrow> int \<Rightarrow> 'b idem_row list
       \<Rightarrow> (idem_error, 'b begun) result \<times> 'b idem_row list" where
  "insert_record a i key httpMethod route requestHash dbNow rows =
     (if (ac_tenant a, key, httpMethod, route) \<in> row_key ` set rows then (Inl UniqueViolation, rows)
      else let r = fresh_record a i key httpMethod route requestHash dbNow in (Inr (r, False), rows @ [r]))"

definition begin_request ::
    "string option \<Rightarrow> actor \<Rightarrow> nat \<Rightarrow> string \<Rightarrow> string \<Rightarrow> string \<Rightarrow> string \<Rightarrow> int \<Rightarrow> int \<Rightarrow> 'b idem_row list
       \<Rightarrow> (idem_error, 'b begun) result \<times> 'b idem_row list" where
  "begin_request env a i key httpMethod route requestHash appNow dbNow rows =
     (let m = upper httpMethod
      in case row_by row_key (ac_tenant a, key, m, route) rows of
           Some existing \<Rightarrow>
             if ik_hash existing \<noteq> requestHash then (Inl DifferentBody, rows)
             else if ik_status existing = IdCompleted then (Inr (existing, True), rows)
             else if \<not> reclaimable env appNow existing then (Inl StillProcessing, rows)
             else (Inr (reclaimed a requestHash dbNow existing, False),
                   update_where (\<lambda>r. ik_id r = ik_id existing \<and> ik_tenant r = ac_tenant a) (reclaimed a requestHash dbNow) rows)
         | None \<Rightarrow> insert_record a i key m route requestHash dbNow rows)"

definition fail_request :: "actor \<Rightarrow> nat \<Rightarrow> int \<Rightarrow> 'b idem_row list \<Rightarrow> 'b idem_row list" where
  "fail_request a i dbNow =
     update_where (\<lambda>r. ik_id r = i \<and> ik_tenant r = ac_tenant a \<and> ik_status r = IdProcessing)
       (\<lambda>r. r\<lparr>ik_status := IdFailed, ik_updated := dbNow\<rparr>)"

definition complete_request ::
    "('b \<Rightarrow> 'b) \<Rightarrow> actor \<Rightarrow> nat \<Rightarrow> 'b \<Rightarrow> int \<Rightarrow> int \<Rightarrow> 'b idem_row list \<Rightarrow> 'b idem_row list" where
  "complete_request json a i responseBody responseStatus dbNow =
     update_where (\<lambda>r. ik_id r = i \<and> ik_tenant r = ac_tenant a)
       (\<lambda>r. r\<lparr>ik_status := IdCompleted, ik_response_status := Some responseStatus,
             ik_body := Some (json responseBody), ik_updated := dbNow\<rparr>)"

subsection \<open>The interceptor\<close>

datatype key_header = KeyAbsent | KeyText string | KeyList "string list"

record 'q http_request =
  hr_method :: "string option"
  hr_key :: key_header
  hr_principal :: "actor option"
  hr_originalUrl :: "string option"
  hr_url :: "string option"
  hr_body :: "'q option"

definition normalizedRoute :: "'q http_request \<Rightarrow> string" where
  "normalizedRoute rq =
     (let raw = coalesce (hr_originalUrl rq) (coalesce (hr_url rq) ''/'');
          path = hd (split_on (CHR ''?'') raw);
          route = (if prefix ''/api/v1'' path then drop 7 path else path)
      in if route = [] then ''/'' else route)"

text \<open>Pass straight to the handler, refuse the key, or begin under it.\<close>

datatype interception = PassThrough | RefuseKey | BeginWith actor string string string string

definition intercept :: "(string \<Rightarrow> string \<Rightarrow> 'q option \<Rightarrow> string) \<Rightarrow> 'q http_request \<Rightarrow> interception" where
  "intercept digest rq =
     (let httpMethod = upper (coalesce (hr_method rq) ''GET'')
      in if httpMethod \<notin> {''POST'', ''PUT'', ''PATCH'', ''DELETE''} then PassThrough
         else case hr_key rq of
           KeyText key \<Rightarrow>
             if trim key = [] then PassThrough
             else if length (trim key) < 8 \<or> length (trim key) > 128 then RefuseKey
             else (case hr_principal rq of
                     None \<Rightarrow> PassThrough
                   | Some a \<Rightarrow>
                       BeginWith a (trim key) httpMethod (normalizedRoute rq)
                         (hashRequest digest httpMethod (normalizedRoute rq) (hr_body rq)))
         | _ \<Rightarrow> PassThrough)"

subsection \<open>The machine\<close>

text \<open>
  Requests in flight, each with the record it began under. A handler that returns completes its
  record, one that throws fails it; a process that dies does neither, whether or not its handler had
  done its work. \<open>id_done\<close> lists the completed handlers and \<open>id_replayed\<close> the replayed answers.
\<close>

record 'b idem_state =
  id_rows :: "'b idem_row list"
  id_runs :: "(actor \<times> nat) list"
  id_next :: nat
  id_done :: "(nat \<times> 'b) list"
  id_replayed :: "(nat \<times> 'b option) list"

datatype 'b idem_event =
    RequestBegins actor string string string string int int
  | RequestRaces actor string string string string int
  | HandlerReturns nat 'b int
  | HandlerThrows nat int
  | ProcessDies nat

definition no_requests :: "'b idem_state" where
  "no_requests = \<lparr>id_rows = [], id_runs = [], id_next = 0, id_done = [], id_replayed = []\<rparr>"

definition begun_state ::
    "actor \<Rightarrow> (idem_error, 'b begun) result \<times> 'b idem_row list \<Rightarrow> 'b idem_state \<Rightarrow> 'b idem_state" where
  "begun_state a outcome s =
     (case fst outcome of
        Inl _ \<Rightarrow> s
      | Inr (r, replayed) \<Rightarrow>
          if replayed then s\<lparr>id_replayed := id_replayed s @ [(ik_id r, ik_body r)]\<rparr>
          else s\<lparr>id_rows := snd outcome, id_runs := id_runs s @ [(a, ik_id r)], id_next := id_next s + 1\<rparr>)"

definition idem_step :: "('b \<Rightarrow> 'b) \<Rightarrow> string option \<Rightarrow> 'b idem_event \<Rightarrow> 'b idem_state \<Rightarrow> 'b idem_state option" where
  "idem_step json env e s =
     (case e of
        RequestBegins a key m route h appNow dbNow \<Rightarrow>
          Some (begun_state a (begin_request env a (id_next s) key m route h appNow dbNow (id_rows s)) s)
      | RequestRaces a key m route h dbNow \<Rightarrow>
          Some (begun_state a (insert_record a (id_next s) key (upper m) route h dbNow (id_rows s)) s)
      | HandlerReturns i data dbNow \<Rightarrow>
          if i \<ge> length (id_runs s) then None
          else let (a, r) = id_runs s ! i
               in Some (s\<lparr>id_rows := complete_request json a r data 200 dbNow (id_rows s),
                          id_runs := drop_index i (id_runs s), id_done := id_done s @ [(r, data)]\<rparr>)
      | HandlerThrows i dbNow \<Rightarrow>
          if i \<ge> length (id_runs s) then None
          else let (a, r) = id_runs s ! i
               in Some (s\<lparr>id_rows := fail_request a r dbNow (id_rows s), id_runs := drop_index i (id_runs s)\<rparr>)
      | ProcessDies i \<Rightarrow>
          if i \<ge> length (id_runs s) then None else Some (s\<lparr>id_runs := drop_index i (id_runs s)\<rparr>))"


subsection \<open>One execution per key\<close>















lemma begun_replay:
  "begin_request env a i key m route h appNow dbNow rows = (Inr (r, True), rows') \<Longrightarrow>
   r \<in> set rows \<and> row_key r = (ac_tenant a, key, upper m, route) \<and> ik_hash r = h \<and> ik_status r = IdCompleted"
  by (auto simp: begin_request_def insert_record_def Let_def dest!: row_by_Some split: option.splits if_splits)








subsection \<open>Properties\<close>

definition ids_of :: "idem_key \<Rightarrow> 'b idem_state \<Rightarrow> nat list" where
  "ids_of k s = map ik_id (filter (\<lambda>r. row_key r = k) (id_rows s))"

text \<open>The handlers that completed under a key, and those in flight under it.\<close>

definition executions :: "idem_key \<Rightarrow> 'b idem_state \<Rightarrow> 'b list" where
  "executions k s = map snd (filter (\<lambda>x. fst x \<in> set (ids_of k s)) (id_done s))"

definition handlers_in_flight :: "idem_key \<Rightarrow> 'b idem_state \<Rightarrow> nat list" where
  "handlers_in_flight k s = filter (\<lambda>i. i \<in> set (ids_of k s)) (map snd (id_runs s))"










definition sample_actor :: actor where "sample_actor = \<lparr>ac_tenant = ''t'', ac_user = ''u''\<rparr>"

definition sample_begin :: "int \<Rightarrow> string idem_event" where
  "sample_begin t = RequestBegins sample_actor ''retry-key'' ''post'' ''/jobs'' ''h'' t t"

definition sample_key :: idem_key where "sample_key = (''t'', ''retry-key'', ''POST'', ''/jobs'')"


definition ended :: "string idem_event list \<Rightarrow> string idem_state" where
  "ended es = the (run_steps (idem_step id None) es no_requests)"


text \<open>
  What the stale window costs when a handler outlives it. Neither \<open>complete\<close> nor \<open>fail\<close> asks whether the
  record is still its own: both handlers complete, the first caller was answered with A and later ones are
  answered with B; and a slow handler that throws frees the key while its successor is running.
\<close>

theorem slow_handler_runs_twice:
  "executions sample_key (ended [sample_begin 0, sample_begin 60000, HandlerReturns 0 ''A'' 60001, HandlerReturns 0 ''B'' 60002,
     sample_begin 60003]) = [''A'', ''B'']
   \<and> map snd (id_replayed (ended [sample_begin 0, sample_begin 60000, HandlerReturns 0 ''A'' 60001,
        HandlerReturns 0 ''B'' 60002, sample_begin 60003])) = [Some ''B'']
   \<and> length (handlers_in_flight sample_key (ended [sample_begin 0, sample_begin 60000, HandlerThrows 0 60001, sample_begin 60002])) = 2"
  by (intro conjI; code_simp)

end
