(* ===== verification/AuditChain.thy ===== *)
theory AuditChain
  imports Prelude
begin

section \<open>The hash chain of the audit log: data-model/audit-chain.ts\<close>

text \<open>
  Every row carries the hash of its predecessor and the hash of its own fields with that. \<open>sha\<close> is
  SHA-256 in hexadecimal, an argument: what is proved of it is proved for any function, and where
  tampering is concerned the alternative is an explicit collision among the texts that were hashed.
\<close>

definition RS :: char where "RS = CHR 0x1E"

record audit_row =
  au_tenantId :: string
  au_actorId :: string
  au_action :: string
  au_entityType :: string
  au_entityId :: string
  au_oldValue :: string
  au_newValue :: string
  au_reason :: string
  au_createdAt :: string

definition row_fields :: "audit_row \<Rightarrow> string list" where
  "row_fields r =
     [au_tenantId r, au_actorId r, au_action r, au_entityType r, au_entityId r, au_oldValue r, au_newValue r,
      au_reason r, au_createdAt r]"

definition canonicalize_row :: "audit_row \<Rightarrow> string" where
  "canonicalize_row r = join [RS] (row_fields r)"

definition hashed_text :: "string option \<Rightarrow> audit_row \<Rightarrow> string" where
  "hashed_text prevHash r = coalesce prevHash [] @ [RS] @ canonicalize_row r"

definition rowHash :: "(string \<Rightarrow> string) \<Rightarrow> string option \<Rightarrow> audit_row \<Rightarrow> string" where
  "rowHash sha prevHash r = sha (hashed_text prevHash r)"

record signed_row =
  sg_row :: audit_row
  sg_prevHash :: "string option"
  sg_rowHash :: string

datatype chain_fault = PrevHashMismatch | RowHashMismatch

record chain_verification =
  cv_ok :: bool
  cv_checkedRows :: nat
  cv_firstBrokenIndex :: int
  cv_reason :: "chain_fault option"

fun verify_loop :: "(string \<Rightarrow> string) \<Rightarrow> nat \<Rightarrow> string option \<Rightarrow> signed_row list \<Rightarrow> chain_verification" where
  "verify_loop sha i expectedPrev [] =
     \<lparr>cv_ok = True, cv_checkedRows = i, cv_firstBrokenIndex = -1, cv_reason = None\<rparr>"
| "verify_loop sha i expectedPrev (r # rs) =
     (if expectedPrev \<noteq> sg_prevHash r
      then \<lparr>cv_ok = False, cv_checkedRows = i + 1, cv_firstBrokenIndex = int i, cv_reason = Some PrevHashMismatch\<rparr>
      else if rowHash sha (sg_prevHash r) (sg_row r) \<noteq> sg_rowHash r
      then \<lparr>cv_ok = False, cv_checkedRows = i + 1, cv_firstBrokenIndex = int i, cv_reason = Some RowHashMismatch\<rparr>
      else verify_loop sha (i + 1) (Some (sg_rowHash r)) rs)"

definition verifyChain :: "(string \<Rightarrow> string) \<Rightarrow> signed_row list \<Rightarrow> chain_verification" where
  "verifyChain sha rows = verify_loop sha 0 None rows"

fun build_loop :: "(string \<Rightarrow> string) \<Rightarrow> string option \<Rightarrow> audit_row list \<Rightarrow> signed_row list" where
  "build_loop sha prev [] = []"
| "build_loop sha prev (r # rs) =
     (let hash = rowHash sha prev r
      in \<lparr>sg_row = r, sg_prevHash = prev, sg_rowHash = hash\<rparr> # build_loop sha (Some hash) rs)"

definition buildChain :: "(string \<Rightarrow> string) \<Rightarrow> audit_row list \<Rightarrow> signed_row list" where
  "buildChain sha rows = build_loop sha None rows"

subsection \<open>The verifier accepts exactly what the builder makes\<close>

lemma signed_row_eq: "r = \<lparr>sg_row = sg_row r, sg_prevHash = p, sg_rowHash = h\<rparr> \<longleftrightarrow> sg_prevHash r = p \<and> sg_rowHash r = h"
  by (cases r) auto

lemma verify_loop_build:
  "cv_ok (verify_loop sha i prev rows) \<longleftrightarrow> rows = build_loop sha prev (map sg_row rows)"
  by (induction rows arbitrary: i prev) (auto simp: Let_def signed_row_eq)

lemma verify_loop_count: "cv_ok (verify_loop sha i prev rows) \<Longrightarrow> cv_checkedRows (verify_loop sha i prev rows) = i + length rows"
  by (induction rows arbitrary: i prev) (auto split: if_splits)

lemma build_loop_rows [simp]: "map sg_row (build_loop sha prev rows) = rows"
  by (induction rows arbitrary: prev) (simp_all add: Let_def)

lemma verify_loop_snoc:
  "cv_ok (verify_loop sha i prev (xs @ [a])) \<longleftrightarrow>
     cv_ok (verify_loop sha i prev xs) \<and> sg_prevHash a = (if xs = [] then prev else Some (sg_rowHash (last xs)))
     \<and> rowHash sha (sg_prevHash a) (sg_row a) = sg_rowHash a"
  by (induction xs arbitrary: i prev) auto

text \<open>The first broken link: everything before it is a chain the builder makes, and it is not the next link.\<close>

lemma verify_loop_broken:
  "\<not> cv_ok (verify_loop sha i prev rows) \<Longrightarrow>
   \<exists>k < length rows. cv_firstBrokenIndex (verify_loop sha i prev rows) = int (i + k)
     \<and> cv_checkedRows (verify_loop sha i prev rows) = i + k + 1
     \<and> take k rows = build_loop sha prev (map sg_row (take k rows))
     \<and> take (k + 1) rows \<noteq> build_loop sha prev (map sg_row (take (k + 1) rows))"
proof (induction rows arbitrary: i prev)
  case (Cons r rs)
  show ?case
  proof (cases "prev = sg_prevHash r \<and> rowHash sha (sg_prevHash r) (sg_row r) = sg_rowHash r")
    case True
    then have "\<not> cv_ok (verify_loop sha (i + 1) (Some (sg_rowHash r)) rs)" using Cons.prems by simp
    from Cons.IH [OF this] obtain k where "k < length rs"
      "cv_firstBrokenIndex (verify_loop sha (i + 1) (Some (sg_rowHash r)) rs) = int (i + 1 + k)"
      "cv_checkedRows (verify_loop sha (i + 1) (Some (sg_rowHash r)) rs) = i + 1 + k + 1"
      "take k rs = build_loop sha (Some (sg_rowHash r)) (map sg_row (take k rs))"
      "take (k + 1) rs \<noteq> build_loop sha (Some (sg_rowHash r)) (map sg_row (take (k + 1) rs))"
      by blast
    with True show ?thesis by (intro exI [of _ "k + 1"]) (auto simp: Let_def)
  next
    case False
    then show ?thesis using Cons.prems by (intro exI [of _ 0]) (auto simp: Let_def signed_row_eq)
  qed
qed simp

subsection \<open>What the last hash commits to\<close>

definition separator_free :: "audit_row \<Rightarrow> bool" where
  "separator_free r \<longleftrightarrow> list_all (\<lambda>f. RS \<notin> set f) (row_fields r)"

lemma row_fields_inject: "row_fields r = row_fields q \<Longrightarrow> r = q"
  by (cases r; cases q) (simp add: row_fields_def)

lemma hashed_text_inject:
  assumes "hashed_text p r = hashed_text q s" "separator_free r" "separator_free s"
    and "RS \<notin> set (coalesce p [])" "RS \<notin> set (coalesce q [])"
  shows "coalesce p [] = coalesce q [] \<and> r = s"
proof -
  have t: "hashed_text p r = join [RS] (coalesce p [] # row_fields r)" for p r
    by (simp add: hashed_text_def canonicalize_row_def row_fields_def)
  have s: "split_on RS (hashed_text p r) = coalesce p [] # row_fields r"
    if "separator_free r" "RS \<notin> set (coalesce p [])" for p r
    unfolding t using that by (intro split_on_join) (auto simp: separator_free_def list_all_iff)
  have "coalesce p [] # row_fields r = coalesce q [] # row_fields s"
    using s [OF assms(2,4)] s [OF assms(3,5)] assms(1) by simp
  then show ?thesis using row_fields_inject by simp
qed

text \<open>The texts hashed along a chain.\<close>

definition hashed_texts :: "signed_row list \<Rightarrow> string set" where
  "hashed_texts rows = (\<lambda>r. hashed_text (sg_prevHash r) (sg_row r)) ` set rows"

definition head_hash :: "signed_row list \<Rightarrow> string option" where
  "head_hash rows = (if rows = [] then None else Some (sg_rowHash (last rows)))"

lemma verifyChain_Nil [simp]: "cv_ok (verifyChain sha [])"
  by (simp add: verifyChain_def)

lemma verifyChain_snoc:
  "cv_ok (verifyChain sha (xs @ [a])) \<longleftrightarrow>
     cv_ok (verifyChain sha xs) \<and> sg_prevHash a = head_hash xs \<and> rowHash sha (sg_prevHash a) (sg_row a) = sg_rowHash a"
  by (simp add: verifyChain_def verify_loop_snoc head_hash_def)

lemma verifyChain_take: "cv_ok (verifyChain sha rows) \<Longrightarrow> cv_ok (verifyChain sha (take n rows))"
proof (induction rows rule: rev_induct)
  case (snoc a rows)
  then show ?case by (cases "n \<le> length rows") (auto simp: verifyChain_snoc)
qed simp

lemma head_hash_snoc [simp]: "head_hash (xs @ [a]) = Some (sg_rowHash a)"
  by (simp add: head_hash_def)

lemma head_hash_text: "cv_ok (verifyChain sha rows) \<Longrightarrow> head_hash rows = Some h \<Longrightarrow> \<exists>x. h = sha x"
  by (cases rows rule: rev_cases) (simp_all add: verifyChain_snoc rowHash_def head_hash_def, metis)

lemma chains_with_one_head:
  assumes hex: "\<And>x. sha x \<noteq> [] \<and> RS \<notin> set (sha x)"
  shows "cv_ok (verifyChain sha A) \<Longrightarrow> cv_ok (verifyChain sha B) \<Longrightarrow> head_hash A = head_hash B \<Longrightarrow>
    (\<And>r. r \<in> set A \<union> set B \<Longrightarrow> separator_free (sg_row r)) \<Longrightarrow>
    (\<And>x y. x \<in> hashed_texts A \<Longrightarrow> y \<in> hashed_texts B \<Longrightarrow> sha x = sha y \<Longrightarrow> x = y) \<Longrightarrow> A = B"
proof (induction A arbitrary: B rule: rev_induct)
  case Nil
  then show ?case by (cases B rule: rev_cases) (simp_all add: head_hash_def)
next
  case (snoc a A)
  from snoc.prems(3) obtain b B' where B: "B = B' @ [b]" by (cases B rule: rev_cases) (simp_all add: head_hash_def)
  note a = snoc.prems(1) [unfolded verifyChain_snoc] and b = snoc.prems(2) [unfolded B verifyChain_snoc]
  have same: "sha (hashed_text (sg_prevHash a) (sg_row a)) = sha (hashed_text (sg_prevHash b) (sg_row b))"
    using a b snoc.prems(3) B by (metis head_hash_snoc option.inject rowHash_def)
  have "hashed_text (sg_prevHash a) (sg_row a) \<in> hashed_texts (A @ [a])"
    "hashed_text (sg_prevHash b) (sg_row b) \<in> hashed_texts B"
    unfolding hashed_texts_def B by (rule imageI, simp)+
  then have eq: "hashed_text (sg_prevHash a) (sg_row a) = hashed_text (sg_prevHash b) (sg_row b)"
    using same by (rule snoc.prems(5))
  have h: "RS \<notin> set (coalesce (head_hash C) []) \<and> head_hash C \<noteq> Some []" if ok: "cv_ok (verifyChain sha C)" for C
  proof (cases "head_hash C")
    case (Some p)
    obtain x where "p = sha x" using head_hash_text [OF ok Some] by blast
    with Some hex [of x] show ?thesis by simp
  qed simp
  have pa: "RS \<notin> set (coalesce (sg_prevHash a) [])" and pb: "RS \<notin> set (coalesce (sg_prevHash b) [])"
    using a b h [of A] h [of B'] by auto
  have r: "coalesce (sg_prevHash a) [] = coalesce (sg_prevHash b) [] \<and> sg_row a = sg_row b"
    by (rule hashed_text_inject [OF eq _ _ pa pb]) (use snoc.prems(4) B in auto)
  then have p: "sg_prevHash a = sg_prevHash b"
    using a b h [of A] h [of B'] by (cases "head_hash A"; cases "head_hash B'") auto
  have "A = B'"
  proof (rule snoc.IH)
    show "head_hash A = head_hash B'" using a b p by simp
    show "separator_free (sg_row r)" if "r \<in> set A \<union> set B'" for r using snoc.prems(4) [of r] that B by auto
    show "x = y" if "x \<in> hashed_texts A" "y \<in> hashed_texts B'" "sha x = sha y" for x y
      using snoc.prems(5) [of x y] that B by (auto simp: hashed_texts_def)
  qed (use a b in simp_all)
  moreover have "a = b" using a b p r by (cases a; cases b) simp
  ultimately show ?case using B by simp
qed

subsection \<open>Properties\<close>

text \<open>C20. The last hash of a verified chain commits to its whole history, for rows without a record separator in
  a field and a digest whose output is not empty and holds none: two such chains that verify and end in the same
  hash are the same chain, row by row, or two of the texts hashed along them collide. For any rows, the verifier accepts exactly what the builder makes of the rows, reporting otherwise the
  first link that it would not have made.\<close>

theorem head_hash_commits:
  assumes "cv_ok (verifyChain sha A)" "cv_ok (verifyChain sha B)" "head_hash A = head_hash B"
    and "\<And>x. sha x \<noteq> [] \<and> RS \<notin> set (sha x)" "\<And>r. r \<in> set A \<union> set B \<Longrightarrow> separator_free (sg_row r)"
  shows "(A = B \<or> (\<exists>x \<in> hashed_texts A. \<exists>y \<in> hashed_texts B. x \<noteq> y \<and> sha x = sha y))
    \<and> (cv_ok (verifyChain sha C) \<longleftrightarrow> C = buildChain sha (map sg_row C))
    \<and> (\<not> cv_ok (verifyChain sha C) \<longrightarrow>
        (\<exists>k < length C. cv_firstBrokenIndex (verifyChain sha C) = int k \<and> cv_checkedRows (verifyChain sha C) = k + 1
          \<and> take k C = buildChain sha (map sg_row (take k C))
          \<and> take (k + 1) C \<noteq> buildChain sha (map sg_row (take (k + 1) C))))"
proof -
  have "A = B" if "\<And>x y. x \<in> hashed_texts A \<Longrightarrow> y \<in> hashed_texts B \<Longrightarrow> sha x = sha y \<Longrightarrow> x = y"
    using chains_with_one_head [of sha A B] assms that by blast
  then show ?thesis
    using verify_loop_build [of sha 0 None C] verify_loop_broken [of sha 0 None C]
    unfolding verifyChain_def buildChain_def by auto
qed

definition sample_sha :: "string \<Rightarrow> string" where
  "sample_sha s = CHR ''h'' # concat (map (\<lambda>c. show_nat (char_code c) @ ''.'') s)"

definition sample_audit :: "string \<Rightarrow> audit_row" where
  "sample_audit act =
     \<lparr>au_tenantId = ''1'', au_actorId = ''op'', au_action = act, au_entityType = ''route'', au_entityId = ''7'',
      au_oldValue = [], au_newValue = ''{}'', au_reason = [], au_createdAt = ''2026-07-10''\<rparr>"

theorem head_hash_commits_witness:
  "cv_ok (verifyChain sample_sha (buildChain sample_sha [sample_audit ''create'']))
   \<and> cv_firstBrokenIndex (verifyChain sample_sha
       [(hd (buildChain sample_sha [sample_audit ''create'']))\<lparr>sg_prevHash := Some ''x''\<rparr>]) = 0"
proof -
  let ?A = "buildChain sample_sha [sample_audit ''create'']"
  let ?C = "[(hd ?A)\<lparr>sg_prevHash := Some ''x''\<rparr>]"
  have ok: "cv_ok (verifyChain sample_sha ?A)" by (simp add: verifyChain_def buildChain_def verify_loop_build)
  have digits: "RS \<notin> set (show_nat n)" for n
    using show_nat_digits [of n] by (auto simp: list_all_iff is_digit_def RS_def char_code_def)
  have sha: "sample_sha x \<noteq> [] \<and> RS \<notin> set (sample_sha x)" for x
    using digits by (auto simp: sample_sha_def RS_def)
  have cl: "separator_free (sg_row r)" if "r \<in> set ?A \<union> set ?A" for r
    using that by (simp add: buildChain_def Let_def separator_free_def row_fields_def sample_audit_def RS_def)
  have bad: "\<not> cv_ok (verifyChain sample_sha ?C)" by (simp add: verifyChain_def)
  obtain k where "k < length ?C" "cv_firstBrokenIndex (verifyChain sample_sha ?C) = int k"
    using head_hash_commits [OF ok ok refl sha cl, where C = ?C] bad by blast
  with ok show ?thesis by simp
qed

text \<open>
  Rows taken from the end leave a chain that verifies, and a separator inside a field hides where the field
  ends: the two rows below differ in three fields and have the same hash after any predecessor, under any hash.
\<close>

theorem truncated_chain_verifies:
  "cv_ok (verifyChain sha rows) \<Longrightarrow> cv_ok (verifyChain sha (take n rows))"
  by (rule verifyChain_take)

theorem separator_hides_tampering:
  "rowHash sha prev ((sample_audit ''update'')\<lparr>au_entityId := ''7'', au_oldValue := [], au_newValue := ''x'' @ [RS] @ ''y''\<rparr>)
     = rowHash sha prev ((sample_audit ''update'')\<lparr>au_entityId := ''7'' @ [RS], au_oldValue := ''x'', au_newValue := ''y''\<rparr>)"
  by (simp add: rowHash_def hashed_text_def canonicalize_row_def row_fields_def sample_audit_def)

end
