(* ===== verification/Spec2Isabelle.thy ===== *)
theory Spec2Isabelle
  imports RouteSelection RetryPolicy ContentConcurrency MoRouting Segments ScheduledSend RetryHazards RetryScan SendMachine
    ClientAddress Idempotency AuditChain
begin

text \<open>
  \<^bold>\<open>A verification library for the control plane of an SMS gateway.\<close>

  The program under src/backend/src is a NestJS service that sits between customers and an SMS
  engine. It normalises numbers, picks a route and a bind for each message, filters content, counts
  segments, holds scheduled messages, retries failed ones, routes inbound messages to destinations
  and runs background work from a durable queue. The library models the logic of these parts and
  leaves out HTTP plumbing, SQL that only reads, and the user interface.

  \<^bold>\<open>Conventions.\<close> A string of the code is a HOL \<^typ>\<open>string\<close> of code units below 256; only segment
  accounting needs all UTF-16 code units and uses lists of numbers. A value of unknown type is a
  \<open>jsval\<close>; a number is an exact rational or one of the special values. An exception is the left side
  of a sum. A clock reading is an argument. What the code takes from outside (the regular
  expression engine, \<open>localeCompare\<close>, the URL parser, the rendering of numbers, the hash, the
  outcome of a send for its callers) is an argument of the definitions that use it. A service is a
  machine over events, and its claims are about every run of those events. A step is a transaction whose
  first statement locks or guards the row it decides on; the awaits between the transactions of an
  operation, between an insertion into the engine's own database and the guarded COMMIT after it, and
  between the unlocked checks and the writes of the content rules are places where other steps come in.
  Two statements of one transaction are one step even where READ COMMITTED would let another commit come
  between them, as between the guarded insert and the update of a retry's last transaction.

  \<^bold>\<open>Theories and the code they model.\<close>
  \<^item> Prelude: results, nullable values, the string functions of the language, comparators and the
    stable sort with the locales \<open>ranking\<close> and \<open>identified_ranking\<close>, interpreted on every order the
    code sorts by.
  \<^item> JsValue: values of unknown type, \<open>Number\<close>, \<open>String\<close> and the bounded-integer check.
  \<^item> StepSystem: runs of machines, the locale \<open>invariant_machine\<close>, and guarded updates of tables.
  \<^item> Msisdn: routing-depth/msisdn.ts. Wildcard: routing-depth/wildcard.ts, with the fragment of
    regular expressions its compiler targets. RouteOverrides: routing-depth/route-overrides.ts.
    RouteSelection: routing-depth/route-selection.ts.
  \<^item> RetryPolicy: delivery-retry/delivery-retry.policy.ts.
  \<^item> ContentRegex, ContentFilter, ContentFilterService: messaging-depth/content-rule-regex.ts,
    content-filter.ts and content-filter.service.ts. ContentConcurrency: the operations of that service
    taken apart into their awaited steps (check, commit, invalidation; query, insertion into the cache),
    which interleave.
  \<^item> MoRouting: messaging-depth/mo-routing.ts.
  \<^item> Segments: engine/message-segments.ts.
  \<^item> MessageFilters: messaging-depth/message-filters.ts and the status and sort vocabulary of
    engine/kamex-sqlbox.repository.ts, with the Gregorian calendar \<open>Date.parse\<close> rests on.
  \<^item> Scheduling: messaging-depth/message-scheduling.ts.
  \<^item> JobQueue: platform/jobs.service.ts, job-registry.ts and job-worker.ts.
  \<^item> ScheduledSend: messaging-depth/scheduled-send.service.ts, composed with JobQueue: its releases
    in flight, its holds and its jobs are one state. A release spools its message (\<open>SSpool\<close>) before the
    guarded COMMIT (\<open>SCommit\<close>), and \<open>ss_spool\<close> is what reached the engine, committed or not.

  \<^item> DeliveryReports: the rows of the engine's sent_sms and the two delivery-report queries of
    engine/kamex-sqlbox.repository.ts; identifiers of the engine are natural numbers.
  \<^item> RetryChains: delivery-retry/delivery-retry.service.ts and delivery-retry.handlers.ts, composed
    with JobQueue. \<open>retry_step\<close> is one transaction, one read of the engine or one submission; the
    dispatches in flight are part of the state, so they interleave, stall and die at every point
    between two transactions, and \<open>rt_spool\<close> is what reached the engine, committed or not. The send
    path is the environment: it refuses, or spools and then reaches the guarded insert. Operators may
    submit dispatch jobs of their own (platform/jobs.controller.ts, \<open>RSubmit\<close>).
    RetryInvariants: how each step moves a chain. RetryBudget: the budget, one chain per message,
    the row checks and the end of every chain. RetryHazards: the dispatch that resumes late and the
    chain whose jobs have ended. RetryScan: the sweep, its storm cap and watermark, and the separate last
    transaction of its handler, which schedules the next sweep.

  \<^item> CustomerAccounts: customers-depth/customer-quota, customer-credit, customer-sender-ids and
    customer-routes.service.ts, one state and one machine over their operations. RateLimits:
    customer-rate-limit.service.ts and api-gateway/gateway-rate-limiter.ts. Blocklist:
    messaging-depth/message-blocklist.service.ts. Dedupe: mt-dedupe.ts and mt-dedupe.service.ts.
    RouteResolution: routing-depth/route-resolution.service.ts and the candidate routes of
    routing-depth.repository.ts, over RouteSelection.
  \<^item> SendPath: messaging-depth/message-send.service.ts and send-entitlements.service.ts, composed of
    the components above with Msisdn, RouteOverrides, ContentFilterService and Scheduling. A statement
    of \<open>send\<close> is a function from an attempt to a result and an attempt; \<open>transaction\<close> is their sequence,
    \<open>commit\<close> undoes the tables when one fails, and the counters, the rotation, the rule cache and the
    engine's rows stay. SendChecks: what a refusal and a success leave, and when a send succeeds.
    SendMachine: sends among operations on accounts, lists and keys.
  \<^item> ClientAddress: api-gateway/ip-allowlist.ts and security/client-ip.ts, over the quads of MoRouting.
    Idempotency: platform/idempotency.service.ts and idempotency.interceptor.ts, a machine whose requests
    in flight return, throw or die. AuditChain: data-model/audit-chain.ts.

  \<^bold>\<open>What the lemmas show.\<close> Routing: every number the normaliser accepts is canonical and every
  spelling of it normalises to it; a wildcard pattern can inject nothing into the expression it is
  compiled to and decides the declared grammar; the controlling route is the maximum of the declared
  order and the bind comes from the strategy's pool, cheapest under least cost and fairly rotated
  otherwise. Filtering: the scanner accepts exactly the safe expressions; the verdict is the first
  applicable rule's whatever the order of the rows; the store exceeds its caps by no more than the
  writes that overlap, and a change is effective after its invalidation if no load straddles it. Segments: the part count is the least possible. Schedules: an accepted
  schedule can be honoured at every later moment. Queue: rows stay well formed whatever interleaves;
  with timely reaping every execution is exclusive, and without it the queue can block, which is
  proved as well. Scheduled sends: a release commits exactly once if the hold is released at all, a
  message is spooled at most once per claim and exactly once when releases are not disturbed, and a
  hold's job is due exactly when it is scheduled; that a disturbed release sends twice, or sends a
  cancelled hold, is proved as well. Delivery retry: no interleaving submits more than a
  chain's budget, no message has two chains, every chain comes to rest, a sweep loses no report, and one
  that found an enabled policy keeps the next one scheduled; what the claim order does not prevent (a second copy and an
  overwritten verdict by a dispatch that lost its claim, a chain left waiting when its job is a dead
  letter, a policy enabled while an idle sweep ends) is proved as well. Sending: an accepted message passed every check and is recorded once in
  every place, a refused one costs nothing, acceptance is decided exactly by the listed checks, the
  books of decisions, audit, engine and ledger agree after any run, and no submission is accepted
  twice within its window; that a pinned bind ignores suspension, that a rewritten recipient is not
  checked again and that failover can be refused to a bound customer is shown on concrete runs.
  Requests: an allowlist admits exactly the addresses its blocks contain, every spelling of an address
  denotes it and a forged forwarding header does not change who the client is; a handler completes
  at most once per idempotency key when the stale window outlives every handler, and what happens
  when it does not is proved as well. Audit: a chain's last hash commits to all of its rows, up to
  a collision of the hash; what the chain does not show (rows cut off its end, a separator
  moved between fields) is proved too.

  \<^bold>\<open>Recursion and bounds.\<close> Loops over lists are structural recursions; the header reader of Segments
  and the scanner of ContentRegex recurse on what is left and come with a measure, so no fuel is
  used. The drain of the queue recurses on the batch size, as the code's loop does. Runs of the
  machines are over finite lists of events of any length.

  \<^bold>\<open>Not modelled.\<close> Concurrent sends: a send is one step, its transaction holding the locks it takes,
  so two at once are ordered; a COMMIT whose outcome is unknown; rounding of binary floating point in
  amounts, which are exact numbers until a column rounds them. The sweep of the delivery retry reads and
  ingests in several transactions, but the theorem on its storm cap runs it on one state; for
  content rules, the load inside a send is one step (ContentConcurrency has its two). Also left out: audit rows and log lines; sentences shown to people, of which
  the values they carry are kept; the parts listed as not modelled in the manifest.
\<close>

end
